(* ===== verification/GoBase.thy ===== *)
theory GoBase
  imports Main "HOL-Library.Word" "HOL-Library.Sublist"
begin

text \<open>
  The prelude of the development: what the components share of the Go language and its standard
  library.  It holds the fixed-width integers (as \<^typ>\<open>int\<close> with the wrap-around written out),
  decimal formatting and parsing (\<^verbatim>\<open>strconv.FormatInt\<close>, \<^verbatim>\<open>strconv.ParseInt\<close>,
  \<^verbatim>\<open>fmt.Sprintf("%0nd")\<close>), the prefix and suffix functions of the \<^verbatim>\<open>strings\<close> package,
  durations and instants in nanoseconds, and the generic list lemmas used by several components.
  Strings are byte strings (\<^typ>\<open>string\<close>), as Go's are.
\<close>

named_theorems go_int \<open>facts about fixed-width integers\<close>
named_theorems go_time \<open>unfolding of duration constants\<close>

subsection \<open>Fixed-width integers\<close>

definition wrap64 :: "int \<Rightarrow> int" where
  "wrap64 x = (x + 9223372036854775808) mod 18446744073709551616 - 9223372036854775808"

definition wrap32 :: "int \<Rightarrow> int" where
  "wrap32 x = (x + 2147483648) mod 4294967296 - 2147483648"

definition in_int64 :: "int \<Rightarrow> bool" where
  "in_int64 x \<longleftrightarrow> - 9223372036854775808 \<le> x \<and> x < 9223372036854775808"

definition in_int32 :: "int \<Rightarrow> bool" where
  "in_int32 x \<longleftrightarrow> - 2147483648 \<le> x \<and> x < 2147483648"

abbreviation max_int64 :: int where
  "max_int64 \<equiv> 9223372036854775807"

abbreviation min_int64 :: int where
  "min_int64 \<equiv> - 9223372036854775808"

lemma wrap64_id [simp, go_int]: "in_int64 x \<Longrightarrow> wrap64 x = x"
  by (simp add: wrap64_def in_int64_def)

lemma wrap64_range [simp, go_int]: "in_int64 (wrap64 x)"
  by (simp add: wrap64_def in_int64_def)

lemma wrap32_id [simp, go_int]: "in_int32 x \<Longrightarrow> wrap32 x = x"
  by (simp add: wrap32_def in_int32_def)

lemma wrap32_range [simp, go_int]: "in_int32 (wrap32 x)"
  by (simp add: wrap32_def in_int32_def)

lemma wrap64_add_left [go_int]: "wrap64 (wrap64 a + b) = wrap64 (a + b)"
proof -
  let ?h = "9223372036854775808 :: int" and ?m = "18446744073709551616 :: int"
  have "(wrap64 a + b + ?h) mod ?m = ((a + ?h) mod ?m + b) mod ?m"
    by (simp add: wrap64_def)
  also have "\<dots> = (a + b + ?h) mod ?m"
    using mod_add_left_eq [of "a + ?h" ?m b] by (simp add: add.assoc add.commute [of b])
  finally show ?thesis by (simp add: wrap64_def)
qed

lemma wrap64_add_right [go_int]: "wrap64 (a + wrap64 b) = wrap64 (a + b)"
  by (metis add.commute wrap64_add_left)

lemma wrap32_add_left [go_int]: "wrap32 (wrap32 a + b) = wrap32 (a + b)"
proof -
  have "(wrap32 a + b + 2147483648) mod 4294967296 = ((a + 2147483648) mod 4294967296 + b) mod 4294967296"
    by (simp add: wrap32_def)
  also have "\<dots> = (a + b + 2147483648) mod 4294967296"
    using mod_add_left_eq [of "a + 2147483648" 4294967296 b] by (simp add: add.assoc add.commute [of b])
  finally show ?thesis by (simp add: wrap32_def)
qed

lemma wrap32_sub_left [go_int]: "wrap32 (wrap32 a - b) = wrap32 (a - b)"
  using wrap32_add_left [of a "- b"] by simp

lemma wrap32_add_right [go_int]: "wrap32 (b + wrap32 a) = wrap32 (b + a)"
  using wrap32_add_left [of a b] by (simp add: add.commute)

subsection \<open>Instants and durations\<close>

text \<open>
  A \<^verbatim>\<open>time.Duration\<close> is a signed 64-bit number of nanoseconds; an instant is the number of
  nanoseconds since the Unix epoch.  \<^verbatim>\<open>t.Sub(u)\<close> saturates at the bounds of a duration.
\<close>

type_synonym duration = int
type_synonym instant = int

definition millisecond :: duration where
  [go_time]: "millisecond = 1000000"

definition second :: duration where
  [go_time]: "second = 1000000000"

definition minute :: duration where
  [go_time]: "minute = 60000000000"

definition hour :: duration where
  [go_time]: "hour = 3600000000000"

definition time_sub :: "instant \<Rightarrow> instant \<Rightarrow> duration" where
  "time_sub t u = max min_int64 (min max_int64 (t - u))"

lemma time_sub_less:
  "min_int64 < d \<Longrightarrow> d \<le> max_int64 \<Longrightarrow> time_sub t u < d \<longleftrightarrow> t - u < d"
  by (auto simp: time_sub_def)

subsection \<open>Integer division\<close>

text \<open>Go's integer division truncates towards zero; the remainder takes the dividend's sign.\<close>

definition go_div :: "int \<Rightarrow> int \<Rightarrow> int" where
  "go_div a b = sgn a * sgn b * (\<bar>a\<bar> div \<bar>b\<bar>)"

definition go_mod :: "int \<Rightarrow> int \<Rightarrow> int" where
  "go_mod a b = a - b * go_div a b"

lemma go_div_nonneg: "0 \<le> a \<Longrightarrow> 0 < b \<Longrightarrow> go_div a b = a div b"
  by (cases "a = 0") (auto simp: go_div_def)

lemma go_mod_nonneg: "0 \<le> a \<Longrightarrow> 0 < b \<Longrightarrow> go_mod a b = a mod b"
  by (simp add: go_mod_def go_div_nonneg minus_mult_div_eq_mod)

subsection \<open>Strings\<close>

definition has_prefix :: "string \<Rightarrow> string \<Rightarrow> bool" where
  "has_prefix s p \<longleftrightarrow> take (length p) s = p"

definition has_suffix :: "string \<Rightarrow> string \<Rightarrow> bool" where
  "has_suffix s p \<longleftrightarrow> length p \<le> length s \<and> drop (length s - length p) s = p"

definition trim_prefix :: "string \<Rightarrow> string \<Rightarrow> string" where
  "trim_prefix s p = (if has_prefix s p then drop (length p) s else s)"

definition trim_suffix :: "string \<Rightarrow> string \<Rightarrow> string" where
  "trim_suffix s p = (if has_suffix s p then take (length s - length p) s else s)"

lemma has_prefix_append [simp]: "has_prefix (p @ s) p"
  by (simp add: has_prefix_def)

lemma trim_prefix_append [simp]: "trim_prefix (p @ s) p = s"
  by (simp add: trim_prefix_def)

lemma has_suffix_append [simp]: "has_suffix (s @ p) p"
  by (simp add: has_suffix_def)

lemma trim_suffix_append [simp]: "trim_suffix (s @ p) p = s"
  by (simp add: trim_suffix_def)

text \<open>\<^verbatim>\<open>strings.SplitN\<close> for a separator of one byte and a positive number of parts.\<close>

fun split_n :: "char \<Rightarrow> nat \<Rightarrow> string \<Rightarrow> string list" where
  "split_n c 0 s = []"
| "split_n c (Suc 0) s = [s]"
| "split_n c (Suc (Suc n)) s =
     (let rest = dropWhile (\<lambda>x. x \<noteq> c) s
      in if rest = [] then [s] else takeWhile (\<lambda>x. x \<noteq> c) s # split_n c (Suc n) (tl rest))"

lemma dropWhile_sep: "c \<notin> set a \<Longrightarrow> dropWhile (\<lambda>x. x \<noteq> c) (a @ c # b) = c # b"
  by (induction a) auto

lemma takeWhile_sep: "c \<notin> set a \<Longrightarrow> takeWhile (\<lambda>x. x \<noteq> c) (a @ c # b) = a"
  by (induction a) auto

lemma split_n_append:
  "c \<notin> set a \<Longrightarrow> split_n c (Suc (Suc n)) (a @ c # b) = a # split_n c (Suc n) b"
  by (simp add: dropWhile_sep takeWhile_sep)

lemma split_first:
  "dropWhile (\<lambda>x. x \<noteq> c) s \<noteq> [] \<Longrightarrow>
   takeWhile (\<lambda>x. x \<noteq> c) s @ c # tl (dropWhile (\<lambda>x. x \<noteq> c) s) = s"
  by (induction s) auto

subsection \<open>Decimal numbers\<close>

definition digit_char :: "nat \<Rightarrow> char" where
  "digit_char d = char_of (48 + d)"

definition digit_val :: "char \<Rightarrow> nat option" where
  "digit_val c = (let n = of_char c :: nat in if 48 \<le> n \<and> n \<le> 57 then Some (n - 48) else None)"

fun decimal :: "nat \<Rightarrow> string" where
  "decimal n = (if n < 10 then [digit_char n] else decimal (n div 10) @ [digit_char (n mod 10)])"

declare decimal.simps [simp del]

definition format_int :: "int \<Rightarrow> string" where
  "format_int x = (if x < 0 then ''-'' @ decimal (nat (- x)) else decimal (nat x))"

definition pad_left :: "nat \<Rightarrow> string \<Rightarrow> string" where
  "pad_left w s = replicate (w - length s) (CHR ''0'') @ s"

definition format_int_pad :: "nat \<Rightarrow> int \<Rightarrow> string" where
  \<comment> \<open>\<^verbatim>\<open>%0wd\<close>: the sign counts towards the width and precedes the zeros\<close>
  "format_int_pad w x =
     (if x < 0 then ''-'' @ pad_left (w - 1) (decimal (nat (- x))) else pad_left w (decimal (nat x)))"

fun parse_digits :: "nat \<Rightarrow> string \<Rightarrow> nat option" where
  "parse_digits acc [] = Some acc"
| "parse_digits acc (c # cs) =
     (case digit_val c of None \<Rightarrow> None | Some d \<Rightarrow> parse_digits (10 * acc + d) cs)"

definition parse_uint :: "string \<Rightarrow> nat option" where
  "parse_uint s = (if s = [] then None else parse_digits 0 s)"

definition parse_int64 :: "string \<Rightarrow> int option" where
  \<comment> \<open>\<^verbatim>\<open>strconv.ParseInt(s, 10, 64)\<close>: an optional sign, at least one digit, in range\<close>
  "parse_int64 s =
     (case s of
        [] \<Rightarrow> None
      | c # cs \<Rightarrow>
          let v = (if c = CHR ''-'' then map_option (\<lambda>n. - int n) (parse_uint cs)
                   else if c = CHR ''+'' then map_option int (parse_uint cs)
                   else map_option int (parse_uint s))
          in case v of None \<Rightarrow> None | Some x \<Rightarrow> if in_int64 x then Some x else None)"

lemma digit_val_digit_char [simp]: "d < 10 \<Longrightarrow> digit_val (digit_char d) = Some d"
  by (simp add: digit_val_def digit_char_def Let_def)

lemma digit_val_zero [simp]: "digit_val (CHR ''0'') = Some 0"
  by (simp add: digit_val_def)

lemma parse_digits_append:
  "parse_digits acc (s @ t) =
     (case parse_digits acc s of None \<Rightarrow> None | Some a \<Rightarrow> parse_digits a t)"
  by (induction acc s rule: parse_digits.induct) (auto split: option.split)

lemma parse_digits_decimal: "parse_digits 0 (decimal n) = Some n"
proof (induction n rule: decimal.induct)
  case (1 n)
  show ?case
  proof (cases "n < 10")
    case True
    then show ?thesis by (simp add: decimal.simps [of n])
  next
    case False
    with "1.IH" show ?thesis
      by (simp add: decimal.simps [of n] parse_digits_append)
  qed
qed

lemma parse_digits_zeros: "parse_digits 0 (replicate k (CHR ''0'') @ s) = parse_digits 0 s"
  by (induction k) auto

lemma decimal_nonempty [simp]: "decimal n \<noteq> []"
  by (simp add: decimal.simps [of n])

lemma decimal_digits: "c \<in> set (decimal n) \<Longrightarrow> \<exists>d < 10. c = digit_char d"
proof (induction n rule: decimal.induct)
  case (1 n)
  show ?case
  proof (cases "n < 10")
    case True
    with "1.prems" show ?thesis by (auto simp: decimal.simps [of n])
  next
    case False
    have "n mod 10 < 10" by simp
    with False "1.prems" "1.IH" show ?thesis
      by (subst (asm) decimal.simps) (auto simp del: mod_less_divisor)
  qed
qed

lemma pad_left_digits: "c \<in> set (pad_left w (decimal n)) \<Longrightarrow> \<exists>d < 10. c = digit_char d"
proof -
  assume "c \<in> set (pad_left w (decimal n))"
  then have "c = CHR ''0'' \<or> c \<in> set (decimal n)" by (auto simp: pad_left_def)
  moreover have "CHR ''0'' = digit_char 0" by code_simp
  then have "\<exists>d < 10. CHR ''0'' = digit_char d" by (intro exI [of _ 0]) simp
  ultimately show ?thesis by (auto dest: decimal_digits)
qed

lemma digit_char_not_sign: "d < 10 \<Longrightarrow> digit_char d \<noteq> CHR ''-'' \<and> digit_char d \<noteq> CHR ''+''"
proof -
  assume "d < 10"
  then have "digit_val (digit_char d) = Some d" by simp
  moreover have "digit_val (CHR ''-'') = None" "digit_val (CHR ''+'') = None"
    by (simp_all add: digit_val_def)
  ultimately show ?thesis by force
qed

lemma parse_int64_format_pad:
  assumes "0 \<le> x" and "in_int64 x"
  shows "parse_int64 (format_int_pad w x) = Some x"
proof -
  let ?s = "pad_left w (decimal (nat x))"
  have fmt: "format_int_pad w x = ?s" using assms(1) by (simp add: format_int_pad_def)
  have ne: "?s \<noteq> []" by (simp add: pad_left_def)
  then obtain c cs where s: "?s = c # cs" by (cases ?s) auto
  then obtain d where "d < 10" "c = digit_char d"
    using pad_left_digits [of c w "nat x"] by auto
  then have c: "c \<noteq> CHR ''-''" "c \<noteq> CHR ''+''" using digit_char_not_sign by auto
  have "parse_uint ?s = Some (nat x)"
    using ne by (simp add: parse_uint_def pad_left_def parse_digits_zeros parse_digits_decimal)
  then have "parse_uint (c # cs) = Some (nat x)" by (simp add: s)
  then show ?thesis using assms c by (simp add: fmt s parse_int64_def Let_def)
qed

subsection \<open>Maps\<close>

text \<open>A Go map whose values are shared objects: changing the object stored under a key.\<close>

definition al_update :: "'k \<Rightarrow> ('m \<Rightarrow> 'm) \<Rightarrow> ('k \<times> 'm) list \<Rightarrow> ('k \<times> 'm) list" where
  "al_update name f m = map (\<lambda>(k, v). (k, if k = name then f v else v)) m"

lemma map_of_al_update [simp]:
  "map_of (al_update k f m) k' = (if k' = k then map_option f (map_of m k') else map_of m k')"
  by (induction m) (auto simp: al_update_def)

lemma al_update_keys [simp]: "map fst (al_update k f m) = map fst m"
  by (induction m) (auto simp: al_update_def)

subsection \<open>Lists\<close>

text \<open>Filtering out some of the first \<open>k\<close> keys of a list with distinct keys keeps the rest.\<close>

lemma filter_taken_keys:
  assumes "distinct (map fst xs)" and "S \<subseteq> set (take k (map fst xs))"
  shows "suffix (drop k xs) (filter (\<lambda>x. fst x \<notin> S) xs)"
    and "S = set (take k (map fst xs)) \<Longrightarrow> filter (\<lambda>x. fst x \<notin> S) xs = drop k xs"
proof -
  have d: "distinct (map fst (take k xs) @ map fst (drop k xs))"
    using assms(1) by (metis append_take_drop_id map_append)
  then have "fst ` set (take k xs) \<inter> fst ` set (drop k xs) = {}" by (simp add: distinct_append)
  then have "\<forall>x \<in> set (drop k xs). fst x \<notin> S"
    using assms(2) by (auto simp: take_map)
  then have eq: "filter (\<lambda>x. fst x \<notin> S) (drop k xs) = drop k xs" by simp
  have sp: "filter (\<lambda>x. fst x \<notin> S) xs = filter (\<lambda>x. fst x \<notin> S) (take k xs) @ drop k xs"
    using eq by (metis append_take_drop_id filter_append)
  then show "suffix (drop k xs) (filter (\<lambda>x. fst x \<notin> S) xs)" by (simp add: suffix_def)
  assume "S = set (take k (map fst xs))"
  then have "filter (\<lambda>x. fst x \<notin> S) (take k xs) = []"
    by (auto simp: filter_empty_conv take_map)
  then show "filter (\<lambda>x. fst x \<notin> S) xs = drop k xs" using sp by simp
qed

lemma suffix_drop_append: "suffix (drop n (xs @ ys)) (xs @ ys)"
  by (rule suffix_drop)

lemma sum_list_map_drop_le:
  fixes f :: "'a \<Rightarrow> int"
  assumes "\<And>x. x \<in> set xs \<Longrightarrow> 0 \<le> f x"
  shows "sum_list (map f (drop n xs)) \<le> sum_list (map f xs)"
proof -
  have "sum_list (map f xs) = sum_list (map f (take n xs)) + sum_list (map f (drop n xs))"
    by (metis append_take_drop_id map_append sum_list_append)
  moreover have "0 \<le> sum_list (map f (take n xs))"
    by (rule sum_list_nonneg) (use assms in \<open>auto dest: in_set_takeD\<close>)
  ultimately show ?thesis by simp
qed

subsection \<open>Outcomes\<close>

text \<open>What a Go function that returns an error, and may panic, does.\<close>

datatype 'a outcome = Ok 'a | Fail string | Panic

end
