(* ===== verification/SchedTypes.thy ===== *)
theory SchedTypes
  imports GoBase
begin

text \<open>
  The data of the scheduler SDK (\<^verbatim>\<open>src/pkg/scheduler\<close>) that its parts share: error values, the
  submission options, the client configuration with its defaults and validation
  (\<^verbatim>\<open>config.go\<close>), request signing (\<^verbatim>\<open>signature.go\<close>) and the gRPC error classification
  (\<^verbatim>\<open>errors.go\<close>).  gRPC is not part of the repository: \<^verbatim>\<open>status.FromError\<close> is the argument
  \<open>from_error\<close> of every definition that calls it, and \<open>grpc_from_error\<close> states what its
  documentation promises.
\<close>

subsection \<open>Errors\<close>

datatype grpc_code =
    OK | Canceled | Unknown | InvalidArgument | DeadlineExceeded | NotFound | AlreadyExists
  | PermissionDenied | ResourceExhausted | FailedPrecondition | Aborted | OutOfRange
  | Unimplemented | Internal | Unavailable | DataLoss | Unauthenticated

text \<open>
  An error value: the package's sentinels, a plain \<^verbatim>\<open>errors.New\<close>, a \<^verbatim>\<open>fmt.Errorf\<close> with
  \<^verbatim>\<open>%w\<close> around another error, a gRPC status error, and the two errors of a context.
\<close>

datatype go_error =
    ErrLocalBufferDisabled
  | ErrLocalBufferFull
  | ErrLocalBufferSpillFull
  | ErrSubmitNotConnected
  | ErrAlreadyStarted
  | ErrNotStarted
  | ErrNew string
  | ErrWrap string go_error
  | ErrStatus grpc_code string
  | ErrCtxDeadline
  | ErrCtxCanceled
  | ErrEOF
  | ErrOS string
  | ErrJSON

type_synonym status_from_error = "go_error \<Rightarrow> grpc_code \<times> bool"

text \<open>
  What the documentation of \<^verbatim>\<open>status.FromError\<close> says: a status error yields its code, an error
  that wraps one yields the wrapped code, any other error yields \<^verbatim>\<open>ok = false\<close>.
\<close>

fun carries_status :: "go_error \<Rightarrow> grpc_code option" where
  "carries_status (ErrStatus c m) = Some c"
| "carries_status (ErrWrap m e) = carries_status e"
| "carries_status e = None"

definition grpc_from_error :: "status_from_error \<Rightarrow> bool" where
  "grpc_from_error from_error \<longleftrightarrow>
     (\<forall>e. case carries_status e of
            Some c \<Rightarrow> from_error e = (c, True)
          | None \<Rightarrow> \<not> snd (from_error e))"

text \<open>\<^verbatim>\<open>errors.go\<close>\<close>

fun code_string :: "grpc_code \<Rightarrow> string" where
  "code_string OK = ''OK''"
| "code_string Canceled = ''Canceled''"
| "code_string Unknown = ''Unknown''"
| "code_string InvalidArgument = ''InvalidArgument''"
| "code_string DeadlineExceeded = ''DeadlineExceeded''"
| "code_string NotFound = ''NotFound''"
| "code_string AlreadyExists = ''AlreadyExists''"
| "code_string PermissionDenied = ''PermissionDenied''"
| "code_string ResourceExhausted = ''ResourceExhausted''"
| "code_string FailedPrecondition = ''FailedPrecondition''"
| "code_string Aborted = ''Aborted''"
| "code_string OutOfRange = ''OutOfRange''"
| "code_string Unimplemented = ''Unimplemented''"
| "code_string Internal = ''Internal''"
| "code_string Unavailable = ''Unavailable''"
| "code_string DataLoss = ''DataLoss''"
| "code_string Unauthenticated = ''Unauthenticated''"

definition grpcStatus :: "status_from_error \<Rightarrow> go_error \<Rightarrow> string \<times> bool" where
  "grpcStatus from_error err =
     (let (st, ok) = from_error err in if \<not> ok then ('''', False) else (code_string st, True))"

definition isNotFoundErr :: "status_from_error \<Rightarrow> go_error \<Rightarrow> bool" where
  "isNotFoundErr from_error err = (let (st, ok) = from_error err in ok \<and> st = NotFound)"

definition isAlreadyExistsErr :: "status_from_error \<Rightarrow> go_error \<Rightarrow> bool" where
  "isAlreadyExistsErr from_error err = (let (st, ok) = from_error err in ok \<and> st = AlreadyExists)"

text \<open>\<^verbatim>\<open>isRetriableSubmitErr\<close> of \<^verbatim>\<open>submit_buffer.go\<close>; \<^const>\<open>None\<close> is the nil error.\<close>

definition isRetriableSubmitErr :: "status_from_error \<Rightarrow> go_error option \<Rightarrow> bool" where
  "isRetriableSubmitErr from_error err =
     (case err of
        None \<Rightarrow> False
      | Some e \<Rightarrow>
          (let (st, ok) = from_error e in
           if \<not> ok then True
           else case st of
                  Unavailable \<Rightarrow> True
                | DeadlineExceeded \<Rightarrow> True
                | Canceled \<Rightarrow> True
                | ResourceExhausted \<Rightarrow> True
                | Aborted \<Rightarrow> True
                | Internal \<Rightarrow> True
                | _ \<Rightarrow> False))"

subsection \<open>Submission options and buffered tasks\<close>

record SubmitOptions =
  JobName :: string
  BizKey :: string
  Payload :: string
  DedupeWindowSec :: int
  TraceID :: string
  SpanID :: string

record bufferedTask =
  opts :: SubmitOptions
  enqueuedAt :: instant
  attempts :: int

subsection \<open>Configuration\<close>

record Config =
  Endpoint :: string
  AppName :: string
  AppKey :: string
  AppSecret :: string
  WorkerID :: string
  InstanceID :: string
  IP :: string
  SDKVersion :: string
  MaxConcurrency :: int
  DialTimeout :: duration
  HeartbeatInterval :: duration
  ReconnectMinBackoff :: duration
  ReconnectMaxBackoff :: duration
  SubmitTimeout :: duration
  MaxRecvMsgSizeMB :: int
  MaxSendMsgSizeMB :: int
  LocalBufferEnabled :: bool
  LocalBufferCapacity :: int
  LocalBufferRetryInterval :: duration
  LocalBufferRetryBatch :: int
  LocalBufferDiskSpillEnabled :: bool
  LocalBufferDiskSpillDir :: string
  LocalBufferDiskSpillMaxBytes :: int

definition defaultDiskSpillMaxBytes :: int where
  "defaultDiskSpillMaxBytes = 100 * 1024 * 1024"

definition defaultDiskSpillDirName :: string where
  "defaultDiskSpillDirName = ''scheduler-spool''"

definition positive_or :: "int \<Rightarrow> int \<Rightarrow> int" where
  "positive_or d x = (if x \<le> 0 then d else x)"

text \<open>
  \<open>hostname\<close> is the result of \<^verbatim>\<open>os.Hostname()\<close> (\<^const>\<open>None\<close> when it fails), \<open>pid\<close> that of
  \<^verbatim>\<open>os.Getpid()\<close>.
\<close>

definition applyDefaults :: "string option \<Rightarrow> int \<Rightarrow> Config \<Rightarrow> Config" where
  "applyDefaults hostname pid c0 =
     (let c1 = c0\<lparr>
            MaxConcurrency := positive_or 50 (MaxConcurrency c0),
            DialTimeout := positive_or (5 * second) (DialTimeout c0),
            HeartbeatInterval := positive_or (5 * second) (HeartbeatInterval c0),
            ReconnectMinBackoff := positive_or (1 * second) (ReconnectMinBackoff c0),
            ReconnectMaxBackoff := positive_or (30 * second) (ReconnectMaxBackoff c0),
            SubmitTimeout := positive_or (5 * second) (SubmitTimeout c0),
            MaxRecvMsgSizeMB := positive_or 4 (MaxRecvMsgSizeMB c0),
            MaxSendMsgSizeMB := positive_or 4 (MaxSendMsgSizeMB c0),
            LocalBufferCapacity := positive_or 1024 (LocalBufferCapacity c0),
            LocalBufferRetryInterval := positive_or (5 * second) (LocalBufferRetryInterval c0),
            LocalBufferRetryBatch := positive_or 32 (LocalBufferRetryBatch c0),
            LocalBufferDiskSpillMaxBytes :=
              positive_or defaultDiskSpillMaxBytes (LocalBufferDiskSpillMaxBytes c0)\<rparr>;
          c2 = (if InstanceID c1 = '''' then
                  c1\<lparr>InstanceID := (case hostname of Some h \<Rightarrow> h | None \<Rightarrow> ''unknown'')\<rparr>
                else c1)
      in if WorkerID c2 = '''' then
           c2\<lparr>WorkerID := AppName c2 @ ''-'' @ InstanceID c2 @ ''-'' @ format_int pid\<rparr>
         else c2)"

definition Validate :: "Config \<Rightarrow> go_error option" where
  "Validate c =
     (if Endpoint c = '''' then Some (ErrNew ''scheduler: Config.Endpoint required'')
      else if AppName c = '''' then Some (ErrNew ''scheduler: Config.AppName required'')
      else if AppKey c = '''' then Some (ErrNew ''scheduler: Config.AppKey required'')
      else if AppSecret c = '''' then Some (ErrNew ''scheduler: Config.AppSecret required'')
      else if ReconnectMinBackoff c > ReconnectMaxBackoff c
        then Some (ErrNew ''scheduler: ReconnectMinBackoff must <= ReconnectMaxBackoff'')
      else None)"

text \<open>A configuration the rest of the SDK can rely on.\<close>

definition cfg_ok :: "Config \<Rightarrow> bool" where
  "cfg_ok c \<longleftrightarrow>
     Endpoint c \<noteq> '''' \<and> AppName c \<noteq> '''' \<and> AppKey c \<noteq> '''' \<and> AppSecret c \<noteq> '''' \<and>
     WorkerID c \<noteq> '''' \<and> 0 < MaxConcurrency c \<and> 0 < DialTimeout c \<and> 0 < HeartbeatInterval c \<and>
     0 < ReconnectMinBackoff c \<and> ReconnectMinBackoff c \<le> ReconnectMaxBackoff c \<and>
     0 < SubmitTimeout c \<and> 0 < MaxRecvMsgSizeMB c \<and> 0 < MaxSendMsgSizeMB c \<and>
     0 < LocalBufferCapacity c \<and> 0 < LocalBufferRetryInterval c \<and> 0 < LocalBufferRetryBatch c \<and>
     0 < LocalBufferDiskSpillMaxBytes c"

subsection \<open>Signing\<close>

text \<open>
  \<open>hmac\<close> is HMAC-SHA256 of a key and a message; the three writes of \<^verbatim>\<open>sign\<close> feed it the
  concatenation.  \<open>rand8\<close> is the result of \<^verbatim>\<open>rand.Read\<close> into eight bytes.
\<close>

definition hex_digit :: "nat \<Rightarrow> char" where
  "hex_digit d = (if d < 10 then char_of (48 + d) else char_of (87 + d))"

definition hex_encode :: "nat list \<Rightarrow> string" where
  "hex_encode bs = concat (map (\<lambda>b. [hex_digit (b div 16), hex_digit (b mod 16)]) bs)"

fun hex_nat :: "nat \<Rightarrow> string" where
  "hex_nat n = (if n < 16 then [hex_digit n] else hex_nat (n div 16) @ [hex_digit (n mod 16)])"

declare hex_nat.simps [simp del]

definition format_int_hex :: "int \<Rightarrow> string" where
  "format_int_hex x = (if x < 0 then ''-'' @ hex_nat (nat (- x)) else hex_nat (nat x))"

definition sign ::
    "(string \<Rightarrow> string \<Rightarrow> nat list) \<Rightarrow> string \<Rightarrow> string \<Rightarrow> string \<Rightarrow> int \<Rightarrow> string" where
  "sign hmac appSecret appKey nonce ts =
     hex_encode (hmac appSecret (appKey @ nonce @ format_int ts))"

definition newNonce :: "nat list option \<Rightarrow> instant \<Rightarrow> string" where
  "newNonce rand8 now =
     (case rand8 of None \<Rightarrow> format_int_hex now | Some b \<Rightarrow> hex_encode b)"

record signedCreds =
  Nonce :: string
  Ts :: int
  Signature :: string

definition newSignedCreds ::
    "(string \<Rightarrow> string \<Rightarrow> nat list) \<Rightarrow> nat list option \<Rightarrow> instant \<Rightarrow> string \<Rightarrow> string \<Rightarrow> signedCreds"
  where
  "newSignedCreds hmac rand8 now appKey appSecret =
     (let nonce = newNonce rand8 now; ts = now div second
      in \<lparr>Nonce = nonce, Ts = ts, Signature = sign hmac appSecret appKey nonce ts\<rparr>)"

subsection \<open>Facts\<close>

lemma positive_or_pos [simp]: "0 < d \<Longrightarrow> 0 < positive_or d x"
  by (simp add: positive_or_def)

lemma positive_or_idem [simp]: "0 < d \<Longrightarrow> positive_or d (positive_or d x) = positive_or d x"
  by (simp add: positive_or_def)

lemma second_pos [simp]: "0 < second"
  by (simp add: second_def)

lemma spill_default_pos [simp]: "0 < defaultDiskSpillMaxBytes"
  by (simp add: defaultDiskSpillMaxBytes_def)

lemma applyDefaults_simps [simp]:
  "Endpoint (applyDefaults h p c) = Endpoint c"
  "AppName (applyDefaults h p c) = AppName c"
  "AppKey (applyDefaults h p c) = AppKey c"
  "AppSecret (applyDefaults h p c) = AppSecret c"
  "IP (applyDefaults h p c) = IP c"
  "SDKVersion (applyDefaults h p c) = SDKVersion c"
  "LocalBufferEnabled (applyDefaults h p c) = LocalBufferEnabled c"
  "LocalBufferDiskSpillEnabled (applyDefaults h p c) = LocalBufferDiskSpillEnabled c"
  "LocalBufferDiskSpillDir (applyDefaults h p c) = LocalBufferDiskSpillDir c"
  "MaxConcurrency (applyDefaults h p c) = positive_or 50 (MaxConcurrency c)"
  "DialTimeout (applyDefaults h p c) = positive_or (5 * second) (DialTimeout c)"
  "HeartbeatInterval (applyDefaults h p c) = positive_or (5 * second) (HeartbeatInterval c)"
  "ReconnectMinBackoff (applyDefaults h p c) = positive_or second (ReconnectMinBackoff c)"
  "ReconnectMaxBackoff (applyDefaults h p c) = positive_or (30 * second) (ReconnectMaxBackoff c)"
  "SubmitTimeout (applyDefaults h p c) = positive_or (5 * second) (SubmitTimeout c)"
  "MaxRecvMsgSizeMB (applyDefaults h p c) = positive_or 4 (MaxRecvMsgSizeMB c)"
  "MaxSendMsgSizeMB (applyDefaults h p c) = positive_or 4 (MaxSendMsgSizeMB c)"
  "LocalBufferCapacity (applyDefaults h p c) = positive_or 1024 (LocalBufferCapacity c)"
  "LocalBufferRetryInterval (applyDefaults h p c) =
     positive_or (5 * second) (LocalBufferRetryInterval c)"
  "LocalBufferRetryBatch (applyDefaults h p c) = positive_or 32 (LocalBufferRetryBatch c)"
  "LocalBufferDiskSpillMaxBytes (applyDefaults h p c) =
     positive_or defaultDiskSpillMaxBytes (LocalBufferDiskSpillMaxBytes c)"
  by (simp_all add: applyDefaults_def Let_def)

lemma applyDefaults_InstanceID:
  "InstanceID (applyDefaults h p c) =
     (if InstanceID c = '''' then (case h of Some x \<Rightarrow> x | None \<Rightarrow> ''unknown'') else InstanceID c)"
  by (simp add: applyDefaults_def Let_def)

lemma applyDefaults_WorkerID:
  "WorkerID (applyDefaults h p c) =
     (if WorkerID c = ''''
      then AppName c @ ''-'' @ InstanceID (applyDefaults h p c) @ ''-'' @ format_int p
      else WorkerID c)"
  by (simp add: applyDefaults_def Let_def)

lemma applyDefaults_WorkerID_set [simp]: "WorkerID (applyDefaults h p c) \<noteq> ''''"
  by (simp add: applyDefaults_WorkerID)

lemma Validate_None:
  "Validate c = None \<longleftrightarrow>
     Endpoint c \<noteq> '''' \<and> AppName c \<noteq> '''' \<and> AppKey c \<noteq> '''' \<and> AppSecret c \<noteq> '''' \<and>
     ReconnectMinBackoff c \<le> ReconnectMaxBackoff c"
  by (auto simp: Validate_def)

lemma defaults_cfg_ok:
  "Validate (applyDefaults h p c) = None \<Longrightarrow> cfg_ok (applyDefaults h p c)"
  by (simp add: Validate_None cfg_ok_def)

lemma retriable_None [simp]: "\<not> isRetriableSubmitErr fe None"
  by (simp add: isRetriableSubmitErr_def)

lemma grpc_from_error_status:
  "grpc_from_error fe \<Longrightarrow> carries_status e = Some c \<Longrightarrow> fe e = (c, True)"
  unfolding grpc_from_error_def by (drule spec [of _ e]) simp

lemma grpc_from_error_plain:
  "grpc_from_error fe \<Longrightarrow> carries_status e = None \<Longrightarrow> \<not> snd (fe e)"
  unfolding grpc_from_error_def by (drule spec [of _ e]) simp

lemma isNotFoundErr_iff:
  "grpc_from_error fe \<Longrightarrow> isNotFoundErr fe e \<longleftrightarrow> carries_status e = Some NotFound"
  using grpc_from_error_status [of fe e] grpc_from_error_plain [of fe e]
  by (cases "carries_status e"; cases "fe e") (auto simp: isNotFoundErr_def)

lemma isAlreadyExistsErr_iff:
  "grpc_from_error fe \<Longrightarrow> isAlreadyExistsErr fe e \<longleftrightarrow> carries_status e = Some AlreadyExists"
  using grpc_from_error_status [of fe e] grpc_from_error_plain [of fe e]
  by (cases "carries_status e"; cases "fe e") (auto simp: isAlreadyExistsErr_def)

lemma grpcStatus_NotFound:
  assumes "grpc_from_error fe" and "grpcStatus fe e = (''NotFound'', True)"
  shows "carries_status e = Some NotFound"
proof (cases "carries_status e")
  case None
  then show ?thesis using grpc_from_error_plain [OF assms(1), of e] assms(2)
    by (auto simp: grpcStatus_def split: prod.splits)
next
  case (Some x)
  then show ?thesis using grpc_from_error_status [OF assms(1), of e] assms(2)
    by (cases x) (auto simp: grpcStatus_def)
qed

lemma retriable_cases:
  assumes "grpc_from_error fe"
  shows "isRetriableSubmitErr fe (Some e) \<longleftrightarrow>
     (case carries_status e of
        None \<Rightarrow> True
      | Some c \<Rightarrow> c \<in> {Unavailable, DeadlineExceeded, Canceled, ResourceExhausted, Aborted, Internal})"
proof (cases "carries_status e")
  case None
  with assms have "\<not> snd (fe e)" by (rule grpc_from_error_plain)
  with None show ?thesis by (cases "fe e") (simp add: isRetriableSubmitErr_def)
next
  case (Some c)
  with assms have "fe e = (c, True)" by (rule grpc_from_error_status)
  with Some show ?thesis by (cases c) (simp_all add: isRetriableSubmitErr_def)
qed

end
