(* ===== verification/TaskQueue.thy ===== *)
theory TaskQueue
  imports SchedTypes
begin

text \<open>
  The contract that both fallback queues of the scheduler SDK offer to \<^verbatim>\<open>enqueueBufferedTask\<close>:
  the memory queue (\<^verbatim>\<open>submit_buffer.go\<close>, theory \<open>SubmitBuffer\<close>) and the disk queue
  (\<^verbatim>\<open>submit_spool.go\<close>, theory \<open>SubmitSpool\<close>).  A push appends at the tail when it is accepted;
  accepted or not, it may at most discard oldest elements from the front, and it keeps the
  queue's invariant.  \<open>rep x t\<close> says that the stored element \<open>x\<close> represents the task \<open>t\<close>;
  \<open>ready\<close> is the condition under which a push may be issued at all.
\<close>

locale task_queue =
  fixes inv :: "'q \<Rightarrow> bool"
    and ready :: "'q \<Rightarrow> bool"
    and items :: "'q \<Rightarrow> 'v list"
    and rep :: "'v \<Rightarrow> 't \<Rightarrow> bool"
    and push :: "'t \<Rightarrow> 'q \<Rightarrow> 'q \<times> bool"
  assumes push_inv: "inv q \<Longrightarrow> ready q \<Longrightarrow> push t q = (q', ok) \<Longrightarrow> inv q'"
    and push_accept: "inv q \<Longrightarrow> ready q \<Longrightarrow> push t q = (q', True) \<Longrightarrow>
      \<exists>n x. items q' = drop n (items q) @ [x] \<and> rep x t"
    and push_reject: "inv q \<Longrightarrow> ready q \<Longrightarrow> push t q = (q', False) \<Longrightarrow>
      \<exists>n. items q' = drop n (items q)"
begin

fun push_all :: "'t list \<Rightarrow> 'q \<Rightarrow> 'q \<times> 't list" where
  "push_all [] q = (q, [])"
| "push_all (t # ts) q =
     (let (q1, ok) = push t q; (q2, acc) = push_all ts q1
      in (q2, if ok then t # acc else acc))"

fun all_ready :: "'t list \<Rightarrow> 'q \<Rightarrow> bool" where
  "all_ready [] q = True"
| "all_ready (t # ts) q = (ready q \<and> all_ready ts (fst (push t q)))"

lemma push_items_suffix:
  assumes "inv q" and "ready q" and "push t q = (q', ok)"
  shows "\<exists>xs. suffix (items q') (items q @ xs) \<and> list_all2 rep xs (if ok then [t] else [])"
proof (cases ok)
  case True
  then obtain n x where "items q' = drop n (items q) @ [x]" "rep x t"
    using push_accept [OF assms(1,2), of t q'] assms(3) by auto
  with True show ?thesis by (intro exI [of _ "[x]"]) (simp add: suffix_drop)
next
  case False
  then obtain n where "items q' = drop n (items q)"
    using push_reject [OF assms(1,2), of t q'] assms(3) by auto
  with False show ?thesis by (intro exI [of _ "[]"]) (simp add: suffix_drop)
qed

text \<open>
  First in, first out: after any run of pushes the queue holds a suffix of its old contents
  followed by representations of the accepted tasks, in the order of their pushes.
\<close>

lemma push_all_fifo:
  "inv q \<Longrightarrow> all_ready ts q \<Longrightarrow> push_all ts q = (q', acc) \<Longrightarrow>
     inv q' \<and> (\<exists>xs. suffix (items q') (items q @ xs) \<and> list_all2 rep xs acc)"
proof (induction ts arbitrary: q acc)
  case Nil
  then show ?case by (auto intro!: exI [of _ "[]"])
next
  case (Cons t ts)
  obtain q1 ok where p: "push t q = (q1, ok)" by (cases "push t q")
  obtain q2 acc' where r: "push_all ts q1 = (q2, acc')" by (cases "push_all ts q1")
  have q': "q' = q2" "acc = (if ok then [t] else []) @ acc'"
    using Cons.prems(3) by (auto simp: p r)
  have rdy: "ready q" "all_ready ts q1" using Cons.prems(2) p by auto
  have i1: "inv q1" using push_inv [OF Cons.prems(1) rdy(1) p] .
  obtain ys where ys: "inv q2" "suffix (items q2) (items q1 @ ys)" "list_all2 rep ys acc'"
    using Cons.IH [OF i1 rdy(2)] r q'(1) by blast
  obtain xs where xs: "suffix (items q1) (items q @ xs)"
      "list_all2 rep xs (if ok then [t] else [])"
    using push_items_suffix [OF Cons.prems(1) rdy(1) p] by blast
  have "suffix (items q1 @ ys) (items q @ xs @ ys)" using xs(1) by (auto simp: suffix_def)
  then have "suffix (items q2) (items q @ xs @ ys)"
    using ys(2) suffix_order.trans by blast
  moreover have "list_all2 rep (xs @ ys) acc"
    using xs(2) ys(3) q'(2) by (simp add: list_all2_appendI)
  ultimately show ?case using ys(1) q'(1) by blast
qed

end

end
