(* ===== verification/SubmitBuffer.thy ===== *)
theory SubmitBuffer
  imports TaskQueue
begin

text \<open>
  The memory fallback queue of the scheduler SDK (\<^verbatim>\<open>src/pkg/scheduler/submit_buffer.go\<close>, type
  \<^verbatim>\<open>submitBuffer\<close>): its state, one definition per method, its invariant, and its
  interpretation of the \<open>task_queue\<close> contract.  The one-slot \<^verbatim>\<open>notify\<close> channel is the flag
  \<open>notify\<close> (a pending signal).  The methods hold the mutex from beginning to end, so each is one
  atomic step.
\<close>

subsection \<open>State and operations\<close>

record submitBuffer =
  buf_cap :: int
  queue :: "bufferedTask list"
  notify :: bool

definition newSubmitBuffer :: "int \<Rightarrow> submitBuffer" where
  "newSubmitBuffer capacity = \<lparr>buf_cap = capacity, queue = [], notify = False\<rparr>"

definition submitBuffer_push :: "bufferedTask \<Rightarrow> submitBuffer \<Rightarrow> submitBuffer \<times> bool" where
  "submitBuffer_push t b =
     (if int (length (queue b)) \<ge> buf_cap b then (b, False)
      else (b\<lparr>queue := queue b @ [t], notify := True\<rparr>, True))"

definition submitBuffer_drain :: "int \<Rightarrow> submitBuffer \<Rightarrow> bufferedTask list \<times> submitBuffer" where
  "submitBuffer_drain mx b =
     (if queue b = [] then ([], b)
      else let n = length (queue b);
               m = (if mx \<le> 0 \<or> mx > int n then n else nat mx)
           in (take m (queue b), b\<lparr>queue := drop m (queue b)\<rparr>))"

definition submitBuffer_putBack :: "bufferedTask list \<Rightarrow> submitBuffer \<Rightarrow> submitBuffer" where
  "submitBuffer_putBack ts b =
     (if ts = [] then b
      else let merged = ts @ queue b
           in b\<lparr>queue := (if int (length merged) > buf_cap b
                          then drop (nat (int (length merged) - buf_cap b)) merged
                          else merged)\<rparr>)"

definition submitBuffer_Len :: "submitBuffer \<Rightarrow> int" where
  "submitBuffer_Len b = int (length (queue b))"

subsection \<open>Invariant\<close>

definition buffer_inv :: "submitBuffer \<Rightarrow> bool" where
  "buffer_inv b \<longleftrightarrow> 0 < buf_cap b \<and> int (length (queue b)) \<le> buf_cap b"

lemma new_buffer_inv [intro]: "0 < c \<Longrightarrow> buffer_inv (newSubmitBuffer c)"
  by (simp add: buffer_inv_def newSubmitBuffer_def)

lemma push_buffer_inv [intro]: "buffer_inv b \<Longrightarrow> buffer_inv (fst (submitBuffer_push t b))"
  by (simp add: buffer_inv_def submitBuffer_push_def)

lemma drain_buffer_inv [intro]: "buffer_inv b \<Longrightarrow> buffer_inv (snd (submitBuffer_drain n b))"
  by (auto simp: buffer_inv_def submitBuffer_drain_def Let_def)

lemma putBack_buffer_inv [intro]: "0 < buf_cap b \<Longrightarrow> int (length (queue b)) \<le> buf_cap b \<Longrightarrow>
    buffer_inv (submitBuffer_putBack ts b)"
  by (simp add: buffer_inv_def submitBuffer_putBack_def Let_def)

lemma buf_cap_simps [simp]:
  "buf_cap (newSubmitBuffer c) = c"
  "buf_cap (fst (submitBuffer_push t b)) = buf_cap b"
  "buf_cap (snd (submitBuffer_drain n b)) = buf_cap b"
  "buf_cap (submitBuffer_putBack ts b) = buf_cap b"
  by (simp_all add: newSubmitBuffer_def submitBuffer_push_def submitBuffer_drain_def
      submitBuffer_putBack_def Let_def)

subsection \<open>Behaviour of the operations\<close>

lemma push_accepted_iff: "snd (submitBuffer_push t b) \<longleftrightarrow> submitBuffer_Len b < buf_cap b"
  by (simp add: submitBuffer_push_def submitBuffer_Len_def)

lemma push_queue:
  "submitBuffer_push t b = (b', ok) \<Longrightarrow> queue b' = (if ok then queue b @ [t] else queue b)"
  by (auto simp: submitBuffer_push_def split: if_splits)

lemma drain_split:
  "submitBuffer_drain n b = (ts, b') \<Longrightarrow> ts @ queue b' = queue b"
  by (auto simp: submitBuffer_drain_def Let_def split: if_splits)

lemma drain_empty_iff:
  "submitBuffer_drain n b = (ts, b') \<Longrightarrow> ts = [] \<longleftrightarrow> queue b = []"
  by (auto simp: submitBuffer_drain_def Let_def split: if_splits)

lemma drain_bound:
  "submitBuffer_drain n b = (ts, b') \<Longrightarrow> 0 < n \<Longrightarrow> int (length ts) \<le> n"
  by (auto simp: submitBuffer_drain_def Let_def split: if_splits)

lemma drain_all:
  "submitBuffer_drain n b = (ts, b') \<Longrightarrow> n \<le> 0 \<Longrightarrow> queue b' = [] \<and> ts = queue b"
  by (auto simp: submitBuffer_drain_def Let_def split: if_splits)

text \<open>What \<^verbatim>\<open>putBack\<close> discards: the oldest tasks of the merged queue beyond the capacity.\<close>

definition putBack_lost :: "bufferedTask list \<Rightarrow> submitBuffer \<Rightarrow> bufferedTask list" where
  "putBack_lost ts b =
     (if ts = [] then [] else take (nat (int (length (ts @ queue b)) - buf_cap b)) (ts @ queue b))"

lemma putBack_split: "putBack_lost ts b @ queue (submitBuffer_putBack ts b) = ts @ queue b"
proof (cases "int (length (ts @ queue b)) > buf_cap b")
  case True
  then show ?thesis
    by (simp add: putBack_lost_def submitBuffer_putBack_def Let_def del: length_append take_append drop_append)
next
  case False
  then show ?thesis by (simp add: putBack_lost_def submitBuffer_putBack_def Let_def)
qed

lemma putBack_fits:
  "int (length ts + length (queue b)) \<le> buf_cap b \<Longrightarrow>
     queue (submitBuffer_putBack ts b) = ts @ queue b"
  by (auto simp: submitBuffer_putBack_def Let_def)

lemma putBack_lost_full:
  assumes "0 < buf_cap b" and "putBack_lost ts b \<noteq> []"
  shows "submitBuffer_Len (submitBuffer_putBack ts b) = buf_cap b"
  using assms by (auto simp: putBack_lost_def submitBuffer_putBack_def submitBuffer_Len_def Let_def
      split: if_splits)

lemma putBack_after_drain:
  "submitBuffer_drain n b = (ts, b') \<Longrightarrow> buffer_inv b \<Longrightarrow>
     queue (submitBuffer_putBack ts b') = queue b"
proof -
  assume d: "submitBuffer_drain n b = (ts, b')" and i: "buffer_inv b"
  have s: "ts @ queue b' = queue b" using drain_split [OF d] .
  moreover have "buf_cap b' = buf_cap b" using buf_cap_simps(3) [of n b] d by simp
  moreover have "length ts + length (queue b') = length (queue b)"
    using s by (metis length_append)
  ultimately show ?thesis using i by (simp add: putBack_fits buffer_inv_def)
qed

interpretation membuf: task_queue buffer_inv "\<lambda>_. True" queue "(=)" submitBuffer_push
proof unfold_locales
  fix q q' :: submitBuffer and t :: bufferedTask and ok
  assume "buffer_inv q" and "submitBuffer_push t q = (q', ok)"
  then show "buffer_inv q'" by (metis fst_conv push_buffer_inv)
next
  fix q q' :: submitBuffer and t :: bufferedTask
  assume "submitBuffer_push t q = (q', True)"
  then show "\<exists>n x. queue q' = drop n (queue q) @ [x] \<and> x = t"
    by (intro exI [of _ 0] exI [of _ t]) (simp add: push_queue)
next
  fix q q' :: submitBuffer and t :: bufferedTask
  assume "submitBuffer_push t q = (q', False)"
  then show "\<exists>n. queue q' = drop n (queue q)"
    by (intro exI [of _ 0]) (simp add: push_queue)
qed

end
