(* ===== verification/SubmitSpool.thy ===== *)
theory SubmitSpool
  imports TaskQueue "HOL-Library.Multiset"
begin

text \<open>
  The disk fallback queue of the scheduler SDK (\<^verbatim>\<open>src/pkg/scheduler/submit_spool.go\<close>, type
  \<^verbatim>\<open>submitSpool\<close>).  The spool directory is an association list from file names to entries; the
  calls of package \<^verbatim>\<open>os\<close> act on it and may fail as the record \<open>fs_faults\<close> says.  All paths of the
  source are \<^verbatim>\<open>filepath.Join(s.dir, name)\<close> with one directory, so a file is identified by its name.
  \<^verbatim>\<open>json.Marshal\<close> and \<^verbatim>\<open>json.Unmarshal\<close> on a \<^verbatim>\<open>spoolTask\<close> are the arguments \<open>marshal\<close> and
  \<open>unmarshal\<close>.  The theory shows the byte accounting and size bound, the first-in-first-out order,
  and that a restarted process recovers exactly the queue from the directory.
\<close>

subsection \<open>The directory\<close>

datatype dir_entry = File string | Dir

type_synonym disk = "(string \<times> dir_entry) list"

datatype os_error = NotExist | OtherIO

record fs_faults =
  mkdir_fails :: bool
  readdir_fails :: bool
  remove_fails :: "string \<Rightarrow> bool"
  write_fails :: "string \<Rightarrow> bool"
  write_leaves :: "string \<Rightarrow> string option"
  rename_fails :: "string \<Rightarrow> bool"
  read_fails :: "string \<Rightarrow> bool"
  stat_fails :: "string \<Rightarrow> bool"

definition no_faults :: fs_faults where
  "no_faults = \<lparr>mkdir_fails = False, readdir_fails = False, remove_fails = (\<lambda>_. False),
     write_fails = (\<lambda>_. False), write_leaves = (\<lambda>_. None), rename_fails = (\<lambda>_. False),
     read_fails = (\<lambda>_. False), stat_fails = (\<lambda>_. False)\<rparr>"

lemma no_faults_simps [simp]:
  "\<not> mkdir_fails no_faults" "\<not> readdir_fails no_faults" "\<not> remove_fails no_faults k"
  "\<not> write_fails no_faults k" "\<not> rename_fails no_faults k" "\<not> read_fails no_faults k"
  "\<not> stat_fails no_faults k"
  by (simp_all add: no_faults_def)

definition disk_del :: "string \<Rightarrow> disk \<Rightarrow> disk" where
  "disk_del k d = filter (\<lambda>p. fst p \<noteq> k) d"

definition disk_put :: "string \<Rightarrow> dir_entry \<Rightarrow> disk \<Rightarrow> disk" where
  "disk_put k v d = (k, v) # disk_del k d"

definition os_remove :: "fs_faults \<Rightarrow> string \<Rightarrow> disk \<Rightarrow> disk \<times> os_error option" where
  "os_remove ft k d =
     (if map_of d k = None then (d, Some NotExist)
      else if remove_fails ft k then (d, Some OtherIO)
      else (disk_del k d, None))"

definition os_write :: "fs_faults \<Rightarrow> string \<Rightarrow> string \<Rightarrow> disk \<Rightarrow> disk \<times> bool" where
  \<comment> \<open>\<^verbatim>\<open>os.WriteFile\<close>; a failed write may leave a partial file behind\<close>
  "os_write ft k c d =
     (if write_fails ft k
      then (case write_leaves ft k of None \<Rightarrow> d | Some c' \<Rightarrow> disk_put k (File c') d, False)
      else (disk_put k (File c) d, True))"

definition os_rename :: "fs_faults \<Rightarrow> string \<Rightarrow> string \<Rightarrow> disk \<Rightarrow> disk \<times> bool" where
  "os_rename ft k k' d =
     (case map_of d k of
        None \<Rightarrow> (d, False)
      | Some e \<Rightarrow> if rename_fails ft k then (d, False) else (disk_put k' e (disk_del k d), True))"

definition os_read :: "fs_faults \<Rightarrow> string \<Rightarrow> disk \<Rightarrow> string option" where
  "os_read ft k d =
     (case map_of d k of
        Some (File c) \<Rightarrow> if read_fails ft k then None else Some c
      | _ \<Rightarrow> None)"

subsection \<open>State and operations\<close>

record spoolTask =
  st_Seq :: int
  st_Opts :: SubmitOptions
  st_EnqueuedAt :: int
  st_Attempts :: int
  st_SizeBytes :: int

record spoolFile =
  sf_seq :: int
  sf_path :: string
  sf_size :: int

record submitSpool =
  spool_dir :: string
  maxBytes :: int
  nextSeq :: int
  currentBytes :: int
  files :: "spoolFile list"

text \<open>
  The eviction loop of \<^verbatim>\<open>push\<close> and of \<^verbatim>\<open>reloadLocked\<close>: while \<open>over\<close> holds of the byte count, the
  oldest file is removed.  The last component is the path whose removal failed.
\<close>

fun evict :: "fs_faults \<Rightarrow> (int \<Rightarrow> bool) \<Rightarrow> spoolFile list \<Rightarrow> int \<Rightarrow> disk \<Rightarrow>
    spoolFile list \<times> int \<times> disk \<times> string option" where
  "evict ft over [] cur d = ([], cur, d, None)"
| "evict ft over (f # fs) cur d =
     (if over cur then
        (case os_remove ft (sf_path f) d of
           (d', Some OtherIO) \<Rightarrow> (f # fs, cur, d', Some (sf_path f))
         | (d', _) \<Rightarrow> evict ft over fs (wrap64 (cur - sf_size f)) d')
      else (f # fs, cur, d, None))"

definition spool_name :: "int \<Rightarrow> string" where
  "spool_name s = format_int_pad 20 s @ ''.json''"

definition spool_make_room ::
    "fs_faults \<Rightarrow> int \<Rightarrow> submitSpool \<times> disk \<Rightarrow> (submitSpool \<times> disk) \<times> go_error option" where
  \<comment> \<open>the sz checks and the eviction loop of \<^verbatim>\<open>push\<close>\<close>
  "spool_make_room ft sz sd =
     (let (s, d) = sd in
      if sz > maxBytes s then ((s, d), Some ErrLocalBufferSpillFull)
      else let (fs, cur, d1, e) =
                 evict ft (\<lambda>cur. wrap64 (cur + sz) > maxBytes s) (files s) (currentBytes s) d;
               s1 = s\<lparr>files := fs, currentBytes := cur\<rparr>
           in case e of
                Some p \<Rightarrow>
                  ((s1, d1), Some (ErrWrap (''evict scheduler spool task '' @ p) (ErrOS ''remove'')))
              | None \<Rightarrow>
                  ((s1, d1),
                   if wrap64 (cur + sz) > maxBytes s1 then Some ErrLocalBufferSpillFull else None))"

definition spool_commit ::
    "fs_faults \<Rightarrow> int \<Rightarrow> string \<Rightarrow> submitSpool \<times> disk \<Rightarrow> (submitSpool \<times> disk) \<times> go_error option"
  where
  \<comment> \<open>the write to a temporary file, the rename and the bookkeeping of \<^verbatim>\<open>push\<close>\<close>
  "spool_commit ft sq data sd =
     (let (s, d) = sd;
          final = spool_name sq;
          tmp = final @ ''.tmp'';
          (d1, written) = os_write ft tmp data d
      in if \<not> written
         then ((s, d1), Some (ErrWrap ''write scheduler spool tmp'' (ErrOS ''write'')))
         else let (d2, renamed) = os_rename ft tmp final d1
              in if \<not> renamed
                 then ((s, fst (os_remove ft tmp d2)),
                       Some (ErrWrap ''rename scheduler spool task'' (ErrOS ''rename'')))
                 else ((s\<lparr>files := files s @
                            [\<lparr>sf_seq = sq, sf_path = final, sf_size = int (length data)\<rparr>],
                          currentBytes := wrap64 (currentBytes s + int (length data))\<rparr>, d2), None))"

definition submitSpool_push ::
    "(spoolTask \<Rightarrow> string option) \<Rightarrow> fs_faults \<Rightarrow> bufferedTask \<Rightarrow> submitSpool \<times> disk \<Rightarrow>
     (submitSpool \<times> disk) \<times> go_error option" where
  "submitSpool_push marshal ft t sd =
     (let (s0, d0) = sd;
          sq = nextSeq s0;
          s1 = s0\<lparr>nextSeq := wrap64 (sq + 1)\<rparr>;
          st = \<lparr>st_Seq = sq, st_Opts = opts t, st_EnqueuedAt = enqueuedAt t,
                st_Attempts = attempts t, st_SizeBytes = 0\<rparr>
      in case marshal st of
           None \<Rightarrow> ((s1, d0), Some (ErrWrap ''marshal scheduler spool task'' ErrJSON))
         | Some data0 \<Rightarrow>
             (case marshal (st\<lparr>st_SizeBytes := int (length data0)\<rparr>) of
                None \<Rightarrow> ((s1, d0), Some (ErrWrap ''marshal scheduler spool task with size'' ErrJSON))
              | Some data \<Rightarrow>
                  (case spool_make_room ft (int (length data)) (s1, d0) of
                     (sd1, Some e) \<Rightarrow> (sd1, Some e)
                   | (sd1, None) \<Rightarrow> spool_commit ft sq data sd1)))"

fun read_tasks ::
    "(string \<Rightarrow> spoolTask option) \<Rightarrow> fs_faults \<Rightarrow> disk \<Rightarrow> spoolFile list \<Rightarrow>
     go_error + spoolTask list" where
  "read_tasks unmarshal ft d [] = Inr []"
| "read_tasks unmarshal ft d (f # fs) =
     (case os_read ft (sf_path f) d of
        None \<Rightarrow> Inl (ErrWrap (''read scheduler spool task '' @ sf_path f) (ErrOS ''read''))
      | Some c \<Rightarrow>
          (case unmarshal c of
             None \<Rightarrow> Inl (ErrWrap (''decode scheduler spool task '' @ sf_path f) ErrJSON)
           | Some st \<Rightarrow>
               (case read_tasks unmarshal ft d fs of
                  Inl e \<Rightarrow> Inl e
                | Inr sts \<Rightarrow> Inr (st # sts))))"

definition submitSpool_drain ::
    "(string \<Rightarrow> spoolTask option) \<Rightarrow> fs_faults \<Rightarrow> int \<Rightarrow> submitSpool \<times> disk \<Rightarrow>
     go_error + spoolTask list" where
  "submitSpool_drain unmarshal ft mx sd =
     (let (s, d) = sd; n = length (files s) in
      if files s = [] then Inr []
      else read_tasks unmarshal ft d
             (take (if mx \<le> 0 \<or> mx > int n then n else nat mx) (files s)))"

fun ack_files ::
    "fs_faults \<Rightarrow> int \<Rightarrow> spoolFile list \<Rightarrow> int \<Rightarrow> disk \<Rightarrow>
     spoolFile list \<times> int \<times> disk \<times> go_error option" where
  "ack_files ft sq [] cur d = ([], cur, d, None)"
| "ack_files ft sq (f # fs) cur d =
     (if sf_seq f \<noteq> sq then
        (let (fs', cur', d', e) = ack_files ft sq fs cur d in (f # fs', cur', d', e))
      else
        (case os_remove ft (sf_path f) d of
           (d', Some OtherIO) \<Rightarrow>
             (f # fs, cur, d',
              Some (ErrWrap (''remove scheduler spool task '' @ sf_path f) (ErrOS ''remove'')))
         | (d', _) \<Rightarrow> (fs, wrap64 (cur - sf_size f), d', None)))"

definition submitSpool_ack ::
    "fs_faults \<Rightarrow> int \<Rightarrow> submitSpool \<times> disk \<Rightarrow> (submitSpool \<times> disk) \<times> go_error option" where
  "submitSpool_ack ft sq sd =
     (let (s, d) = sd;
          (fs, cur, d', e) = ack_files ft sq (files s) (currentBytes s) d
      in ((s\<lparr>files := fs, currentBytes := cur\<rparr>, d'), e))"

definition submitSpool_len :: "submitSpool \<Rightarrow> int" where
  "submitSpool_len s = int (length (files s))"

definition submitSpool_bytes :: "submitSpool \<Rightarrow> int" where
  "submitSpool_bytes s = currentBytes s"

text \<open>The directory scan of \<^verbatim>\<open>reloadLocked\<close>; \<^const>\<open>Inl\<close> is the name whose \<^verbatim>\<open>Info()\<close> failed.\<close>

definition spool_seq :: "string \<Rightarrow> int option" where
  "spool_seq nm =
     (if has_suffix nm ''.json'' then parse_int64 (trim_suffix nm ''.json'') else None)"

fun scan_entries :: "fs_faults \<Rightarrow> disk \<Rightarrow> string + spoolFile list" where
  "scan_entries ft [] = Inr []"
| "scan_entries ft ((nm, e) # es) =
     (case e of
        Dir \<Rightarrow> scan_entries ft es
      | File c \<Rightarrow>
          (case spool_seq nm of
             None \<Rightarrow> scan_entries ft es
           | Some sq \<Rightarrow>
               if stat_fails ft nm then Inl nm
               else (case scan_entries ft es of
                       Inl x \<Rightarrow> Inl x
                     | Inr fs \<Rightarrow>
                         Inr (\<lparr>sf_seq = sq, sf_path = nm, sf_size = int (length c)\<rparr> # fs))))"

definition reloadLocked ::
    "fs_faults \<Rightarrow> submitSpool \<times> disk \<Rightarrow> (submitSpool \<times> disk) \<times> go_error option" where
  "reloadLocked ft sd =
     (let (s, d) = sd in
      if readdir_fails ft then ((s, d), Some (ErrWrap ''read scheduler spool dir'' (ErrOS ''readdir'')))
      else case scan_entries ft d of
        Inl nm \<Rightarrow> ((s, d), Some (ErrWrap (''stat scheduler spool file '' @ nm) (ErrOS ''stat'')))
      | Inr fs \<Rightarrow>
          (let total = wrap64 (sum_list (map sf_size fs));
               maxSeq = foldl max 0 (map sf_seq fs);
               sorted_fs = sort_key sf_seq fs;
               nxt = (if maxSeq \<ge> nextSeq s then wrap64 (maxSeq + 1) else nextSeq s);
               (fs', cur', d', e) = evict ft (\<lambda>cur. cur > maxBytes s) sorted_fs total d
           in ((s\<lparr>files := fs', currentBytes := cur', nextSeq := nxt\<rparr>, d'),
               map_option (\<lambda>p. ErrWrap (''evict oversized scheduler spool '' @ p) (ErrOS ''remove'')) e)))"

definition newSubmitSpool ::
    "fs_faults \<Rightarrow> string \<Rightarrow> instant \<Rightarrow> string \<Rightarrow> int \<Rightarrow> disk \<Rightarrow>
     (go_error + submitSpool) \<times> disk" where
  "newSubmitSpool ft tmp_dir now dir0 max0 d =
     (let dir = (if dir0 = '''' then tmp_dir @ ''/'' @ defaultDiskSpillDirName else dir0);
          mx = (if max0 \<le> 0 then defaultDiskSpillMaxBytes else max0)
      in if mkdir_fails ft then (Inl (ErrWrap ''create scheduler spool dir'' (ErrOS ''mkdir'')), d)
         else case reloadLocked ft
                     (\<lparr>spool_dir = dir, maxBytes = mx, nextSeq = now, currentBytes = 0, files = []\<rparr>, d) of
                ((s, d'), Some e) \<Rightarrow> (Inl e, d')
              | ((s, d'), None) \<Rightarrow> (Inr s, d'))"

subsection \<open>The directory operations\<close>

lemma map_of_disk_del [simp]: "map_of (disk_del k d) = (map_of d)(k := None)"
  by (induction d) (auto simp: disk_del_def fun_eq_iff)

lemma map_of_disk_put [simp]: "map_of (disk_put k v d) = (map_of d)(k \<mapsto> v)"
  by (simp add: disk_put_def)

lemma distinct_disk_del [simp]: "distinct (map fst d) \<Longrightarrow> distinct (map fst (disk_del k d))"
  by (simp add: disk_del_def distinct_map_filter)

lemma distinct_disk_put [simp]: "distinct (map fst d) \<Longrightarrow> distinct (map fst (disk_put k v d))"
  by (auto simp: disk_put_def) (auto simp: disk_del_def)

lemma has_suffix_last: "has_suffix s p \<Longrightarrow> p \<noteq> [] \<Longrightarrow> last s = last p"
  by (metis append_take_drop_id has_suffix_def last_append)

lemma spool_seq_tmp [simp]: "spool_seq (n @ ''.tmp'') = None"
  using has_suffix_last [of "n @ ''.tmp''" "''.json''"] by (auto simp: spool_seq_def)

lemma spool_seq_name: "0 \<le> x \<Longrightarrow> in_int64 x \<Longrightarrow> spool_seq (spool_name x) = Some x"
  by (simp add: spool_seq_def spool_name_def parse_int64_format_pad)

text \<open>The eviction loop drops a prefix of the files, keeps the accounting exact and stops only
  when nothing is left, the limit is met, or a removal fails.\<close>

lemma evict_spec:
  assumes "evict ft over fs cur d = (fs', cur', d', e)"
    and "cur = sum_list (map sf_size fs)" and "\<forall>f \<in> set fs. 0 \<le> sf_size f"
    and "cur < 9223372036854775808"
  shows "\<exists>n. fs' = drop n fs \<and> cur' = sum_list (map sf_size fs') \<and> cur' \<le> cur \<and>
    (\<forall>k. k \<notin> sf_path ` set (take n fs) \<longrightarrow> map_of d' k = map_of d k) \<and>
    (\<forall>k v. map_of d' k = Some v \<longrightarrow> map_of d k = Some v) \<and>
    (\<forall>f \<in> set (take n fs). map_of d' (sf_path f) = None) \<and>
    (e = None \<longrightarrow> fs' = [] \<or> \<not> over cur') \<and>
    (distinct (map fst d) \<longrightarrow> distinct (map fst d'))"
  using assms
proof (induction fs arbitrary: cur d)
  case Nil
  then show ?case by (intro exI [of _ 0]) simp
next
  case (Cons f fs)
  have nn: "0 \<le> sf_size f" "\<forall>g \<in> set fs. 0 \<le> sf_size g" using Cons.prems(3) by auto
  have rest: "0 \<le> sum_list (map sf_size fs)" by (rule sum_list_nonneg) (use nn(2) in auto)
  have cur: "cur - sf_size f = sum_list (map sf_size fs)" using Cons.prems(2) by simp
  have small: "sum_list (map sf_size fs) < 9223372036854775808" using nn(1) cur Cons.prems(4) by simp
  have w: "wrap64 (cur - sf_size f) = sum_list (map sf_size fs)"
    using rest small by (simp add: cur in_int64_def)
  show ?case
  proof (cases "over cur")
    case False
    then have "fs' = f # fs" "cur' = cur" "d' = d" "e = None" using Cons.prems(1) by auto
    with False Cons.prems(2) show ?thesis by (intro exI [of _ 0]) simp
  next
    case True
    obtain d1 r where rm: "os_remove ft (sf_path f) d = (d1, r)" by (cases "os_remove ft (sf_path f) d")
    show ?thesis
    proof (cases "r = Some OtherIO")
      case io: True
      with rm have "d1 = d" by (auto simp: os_remove_def split: if_splits)
      with Cons.prems(1) True rm io
      have "fs' = f # fs" "cur' = cur" "d' = d" "e = Some (sf_path f)" by auto
      with Cons.prems(2) show ?thesis by (intro exI [of _ 0]) simp
    next
      case False
      have m1: "map_of d1 = (map_of d)(sf_path f := None)"
        using rm False by (auto simp: os_remove_def fun_eq_iff split: if_splits)
      have dd: "distinct (map fst d) \<longrightarrow> distinct (map fst d1)"
        using rm by (auto simp: os_remove_def split: if_splits)
      have ev: "evict ft over fs (sum_list (map sf_size fs)) d1 = (fs', cur', d', e)"
      proof (cases r)
        case None
        with Cons.prems(1) True rm w show ?thesis by simp
      next
        case (Some x)
        with False have "x = NotExist" by (cases x) auto
        with Some Cons.prems(1) True rm w show ?thesis by simp
      qed
      obtain n where n: "fs' = drop n fs" "cur' = sum_list (map sf_size fs')"
          "cur' \<le> sum_list (map sf_size fs)"
          "\<forall>k. k \<notin> sf_path ` set (take n fs) \<longrightarrow> map_of d' k = map_of d1 k"
          "\<forall>k v. map_of d' k = Some v \<longrightarrow> map_of d1 k = Some v"
          "\<forall>g \<in> set (take n fs). map_of d' (sf_path g) = None"
          "e = None \<longrightarrow> fs' = [] \<or> \<not> over cur'"
          "distinct (map fst d1) \<longrightarrow> distinct (map fst d')"
        using Cons.IH [OF ev refl nn(2) small] by (elim exE conjE) (rule that; assumption)
      have gone: "map_of d' (sf_path f) = None"
      proof (cases "map_of d' (sf_path f)")
        case (Some v)
        with n(5) have "map_of d1 (sf_path f) = Some v" by blast
        with m1 show ?thesis by simp
      qed
      have sub: "\<forall>k v. map_of d' k = Some v \<longrightarrow> map_of d k = Some v"
      proof (intro allI impI)
        fix k v assume "map_of d' k = Some v"
        then have "map_of d1 k = Some v" using n(5) by blast
        then show "map_of d k = Some v" using m1 by (simp split: if_splits)
      qed
      have "cur' \<le> cur" using n(3) cur nn(1) by simp
      moreover have "\<forall>k. k \<notin> sf_path ` set (take (Suc n) (f # fs)) \<longrightarrow> map_of d' k = map_of d k"
        using n(4) m1 by simp
      moreover have "\<forall>g \<in> set (take (Suc n) (f # fs)). map_of d' (sf_path g) = None"
        using n(6) gone by simp
      moreover have "distinct (map fst d) \<longrightarrow> distinct (map fst d')" using n(8) dd by blast
      moreover have "fs' = drop (Suc n) (f # fs)" using n(1) by simp
      ultimately show ?thesis using n(2,7) sub by (intro exI [of _ "Suc n"] conjI)
    qed
  qed
qed

subsection \<open>Invariant\<close>

definition file_ok :: "disk \<Rightarrow> spoolFile \<Rightarrow> bool" where
  "file_ok d f \<longleftrightarrow>
     spool_seq (sf_path f) = Some (sf_seq f) \<and>
     (\<exists>c. map_of d (sf_path f) = Some (File c) \<and> sf_size f = int (length c))"

definition file_content :: "disk \<Rightarrow> spoolFile \<Rightarrow> string" where
  "file_content d f = (case map_of d (sf_path f) of Some (File c) \<Rightarrow> c | _ \<Rightarrow> '''')"

definition spool_inv :: "submitSpool \<times> disk \<Rightarrow> bool" where
  "spool_inv sd \<longleftrightarrow>
     (let (s, d) = sd in
      0 < maxBytes s \<and> maxBytes s < 4611686018427387904 \<and>
      currentBytes s = sum_list (map sf_size (files s)) \<and> currentBytes s \<le> maxBytes s \<and>
      sorted_wrt (<) (map sf_seq (files s)) \<and>
      (\<forall>f \<in> set (files s). file_ok d f \<and> sf_seq f < nextSeq s) \<and>
      0 \<le> nextSeq s \<and> in_int64 (nextSeq s))"

text \<open>Every spool file of the directory belongs to the queue.\<close>

definition spool_exact :: "submitSpool \<times> disk \<Rightarrow> bool" where
  "spool_exact sd \<longleftrightarrow>
     (let (s, d) = sd in
      distinct (map fst d) \<and>
      (\<forall>nm c. map_of d nm = Some (File c) \<and> spool_seq nm \<noteq> None \<longrightarrow> nm \<in> sf_path ` set (files s)))"

definition file_item :: "disk \<Rightarrow> spoolFile \<Rightarrow> int \<times> string" where
  "file_item d f = (sf_seq f, file_content d f)"

definition spool_items :: "submitSpool \<times> disk \<Rightarrow> (int \<times> string) list" where
  "spool_items sd = (let (s, d) = sd in map (file_item d) (files s))"

lemma file_ok_size: "file_ok d f \<Longrightarrow> 0 \<le> sf_size f"
  by (auto simp: file_ok_def)

lemma spool_invD:
  assumes "spool_inv (s, d)"
  shows "0 < maxBytes s" "maxBytes s < 4611686018427387904"
    "currentBytes s = sum_list (map sf_size (files s))" "currentBytes s \<le> maxBytes s"
    "sorted_wrt (<) (map sf_seq (files s))"
    "\<forall>f \<in> set (files s). file_ok d f" "\<forall>f \<in> set (files s). sf_seq f < nextSeq s"
    "0 \<le> nextSeq s" "in_int64 (nextSeq s)"
    "\<forall>f \<in> set (files s). 0 \<le> sf_size f"
  using assms by (auto simp: spool_inv_def file_ok_size)

lemma sorted_files_paths:
  assumes "sorted_wrt (<) (map sf_seq fs)" and "\<forall>f \<in> set fs. file_ok d f"
  shows "distinct (map sf_path fs)"
proof -
  have "distinct (map sf_seq fs)" using assms(1) strict_sorted_iff by blast
  then have "distinct (map (\<lambda>f. the (spool_seq (sf_path f))) fs)"
    using assms(2) by (simp add: file_ok_def cong: map_cong)
  then have "distinct (map (\<lambda>p. the (spool_seq p)) (map sf_path fs))" by (simp add: comp_def)
  then show ?thesis using distinct_map by blast
qed

text \<open>Evicting from a good spool: the invariant stays, and the items lose a prefix.\<close>

lemma evict_keeps:
  assumes inv: "spool_inv (s, d)" and ev: "evict ft over (files s) (currentBytes s) d = (fs, cur, d1, e)"
    and nxt: "nextSeq s \<le> n'" "in_int64 n'"
  shows "spool_inv (s\<lparr>nextSeq := n', files := fs, currentBytes := cur\<rparr>, d1) \<and>
    (\<exists>n. map (file_item d1) fs = drop n (spool_items (s, d))) \<and> set fs \<subseteq> set (files s) \<and>
    (\<forall>k v. map_of d1 k = Some v \<longrightarrow> map_of d k = Some v) \<and>
    (spool_exact (s, d) \<longrightarrow>
       spool_exact (s\<lparr>nextSeq := n', files := fs, currentBytes := cur\<rparr>, d1))"
proof -
  note D = spool_invD [OF inv]
  have "currentBytes s < 9223372036854775808" using D(2,4) by simp
  then obtain n where n: "fs = drop n (files s)" "cur = sum_list (map sf_size fs)"
      "cur \<le> currentBytes s"
      "\<forall>k. k \<notin> sf_path ` set (take n (files s)) \<longrightarrow> map_of d1 k = map_of d k"
      "\<forall>k v. map_of d1 k = Some v \<longrightarrow> map_of d k = Some v"
      "\<forall>f \<in> set (take n (files s)). map_of d1 (sf_path f) = None"
      "distinct (map fst d) \<longrightarrow> distinct (map fst d1)"
    using evict_spec [OF ev D(3,10)] by blast
  have dist: "distinct (map sf_path (files s))" using sorted_files_paths D(5,6) by blast
  have sets: "sf_path ` set (files s) = sf_path ` set (take n (files s)) \<union> sf_path ` set fs"
    using n(1) by (metis append_take_drop_id image_Un set_append)
  have "distinct (map sf_path (take n (files s)) @ map sf_path fs)"
    using dist n(1) by (metis append_take_drop_id map_append)
  then have same: "map_of d1 (sf_path f) = map_of d (sf_path f)" if "f \<in> set fs" for f
    using n(4) that by auto
  have sub: "set fs \<subseteq> set (files s)" using n(1) set_drop_subset by metis
  have ok: "\<forall>f \<in> set fs. file_ok d1 f" using D(6) sub same by (auto simp: file_ok_def)
  have sorted: "sorted_wrt (<) (map sf_seq fs)"
    using D(5) n(1) by (simp add: drop_map [symmetric] sorted_wrt_drop)
  have inv': "spool_inv (s\<lparr>nextSeq := n', files := fs, currentBytes := cur\<rparr>, d1)"
    using D n(2,3) ok sorted sub nxt by (force simp: spool_inv_def)
  have items: "map (file_item d1) fs = drop n (spool_items (s, d))"
    using same n(1) by (auto simp: spool_items_def file_item_def file_content_def drop_map)
  have ex: "spool_exact (s\<lparr>nextSeq := n', files := fs, currentBytes := cur\<rparr>, d1)"
    if "spool_exact (s, d)"
    unfolding spool_exact_def
  proof (simp, intro conjI allI impI)
    show "distinct (map fst d1)" using that n(7) by (simp add: spool_exact_def)
  next
    fix nm assume a: "(\<exists>c. map_of d1 nm = Some (File c)) \<and> (\<exists>y. spool_seq nm = Some y)"
    then obtain c where c: "map_of d1 nm = Some (File c)" "spool_seq nm \<noteq> None" by blast
    then have "map_of d nm = Some (File c)" using n(5) by blast
    with c(2) have "nm \<in> sf_path ` set (files s)"
      using that unfolding spool_exact_def Let_def prod.case by blast
    moreover have "nm \<notin> sf_path ` set (take n (files s))" using a n(6) by auto
    ultimately show "nm \<in> sf_path ` set fs" using sets by blast
  qed
  show ?thesis using inv' items n(5) ex sub by blast
qed

subsection \<open>Push\<close>

definition stored :: "(spoolTask \<Rightarrow> string option) \<Rightarrow> int \<times> string \<Rightarrow> bufferedTask \<Rightarrow> bool" where
  "stored marshal x t \<longleftrightarrow>
     (\<exists>sz. marshal \<lparr>st_Seq = fst x, st_Opts = opts t, st_EnqueuedAt = enqueuedAt t,
                    st_Attempts = attempts t, st_SizeBytes = sz\<rparr> = Some (snd x))"

text \<open>A file that is not the temporary one is untouched by a write, a rename or a removal of it.\<close>

lemma os_write_frame:
  assumes "os_write ft k c d = (d', ok)"
  shows "j \<noteq> k \<Longrightarrow> map_of d' j = map_of d j"
    and "distinct (map fst d) \<Longrightarrow> distinct (map fst d')"
    and "ok \<Longrightarrow> map_of d' k = Some (File c)"
  using assms by (auto simp: os_write_def split: if_splits option.splits)

lemma os_rename_frame:
  assumes "os_rename ft k k' d = (d', ok)"
  shows "j \<noteq> k \<Longrightarrow> j \<noteq> k' \<Longrightarrow> map_of d' j = map_of d j"
    and "distinct (map fst d) \<Longrightarrow> distinct (map fst d')"
    and "ok \<Longrightarrow> map_of d' k' = map_of d k"
    and "\<not> ok \<Longrightarrow> d' = d"
  using assms by (auto simp: os_rename_def split: if_splits option.splits)

lemma os_remove_frame:
  "j \<noteq> k \<Longrightarrow> map_of (fst (os_remove ft k d)) j = map_of d j"
  "distinct (map fst d) \<Longrightarrow> distinct (map fst (fst (os_remove ft k d)))"
  by (auto simp: os_remove_def)

lemma not_tmp: "spool_seq k \<noteq> None \<Longrightarrow> k \<noteq> n @ ''.tmp''"
  using spool_seq_tmp by metis

text \<open>A change confined to names that are not spool files changes nothing the queue sees.\<close>

lemma spool_frame:
  assumes same: "\<And>k. spool_seq k \<noteq> None \<Longrightarrow> map_of d' k = map_of d k"
    and dist: "distinct (map fst d) \<Longrightarrow> distinct (map fst d')"
  shows "spool_inv (s, d) \<Longrightarrow> spool_inv (s, d') \<and> spool_items (s, d') = spool_items (s, d)"
    and "spool_exact (s, d) \<Longrightarrow> spool_exact (s, d')"
proof -
  assume i: "spool_inv (s, d)"
  note D = spool_invD [OF i]
  have m: "map_of d' (sf_path f) = map_of d (sf_path f)" if "f \<in> set (files s)" for f
    using same D(6) that by (auto simp: file_ok_def)
  then have "\<forall>f \<in> set (files s). file_ok d' f" using D(6) by (auto simp: file_ok_def)
  moreover have "spool_items (s, d') = spool_items (s, d)"
    using m by (auto simp: spool_items_def file_item_def file_content_def)
  ultimately show "spool_inv (s, d') \<and> spool_items (s, d') = spool_items (s, d)"
    using i by (auto simp: spool_inv_def)
next
  assume "spool_exact (s, d)"
  then show "spool_exact (s, d')" using same dist
    unfolding spool_exact_def Let_def prod.case by metis
qed

lemma make_room_keeps:
  assumes inv: "spool_inv (s, d)"
    and r: "spool_make_room ft sz (s, d) = ((s', d'), e)" and "0 \<le> sz"
  shows "spool_inv (s', d') \<and> (\<exists>n. spool_items (s', d') = drop n (spool_items (s, d))) \<and>
    nextSeq s' = nextSeq s \<and> maxBytes s' = maxBytes s \<and> spool_dir s' = spool_dir s \<and>
    set (files s') \<subseteq> set (files s) \<and> (e = None \<longrightarrow> currentBytes s' + sz \<le> maxBytes s') \<and>
    (spool_exact (s, d) \<longrightarrow> spool_exact (s', d'))"
proof (cases "sz > maxBytes s")
  case True
  with r inv show ?thesis by (auto simp: spool_make_room_def intro: exI [of _ 0])
next
  case False
  note D = spool_invD [OF inv]
  let ?over = "\<lambda>cur. wrap64 (cur + sz) > maxBytes s"
  obtain fs cur d1 e1 where ev: "evict ft ?over (files s) (currentBytes s) d = (fs, cur, d1, e1)"
    by (cases "evict ft ?over (files s) (currentBytes s) d") auto
  define s1 where "s1 = s\<lparr>files := fs, currentBytes := cur\<rparr>"
  have s1': "s\<lparr>nextSeq := nextSeq s, files := fs, currentBytes := cur\<rparr> = s1"
    by (simp add: s1_def)
  note K = evict_keeps [OF inv ev order_refl D(9), unfolded s1']
  have res: "s' = s1" "d' = d1"
    "e = None \<Longrightarrow> \<not> wrap64 (cur + sz) > maxBytes s"
    using r False by (auto simp: spool_make_room_def ev s1_def Let_def split: option.splits if_splits)
  have inv1: "spool_inv (s1, d1)" using K by blast
  have c: "0 \<le> cur" "cur \<le> maxBytes s" using spool_invD(3,4,10) [OF inv1]
    by (auto simp: s1_def intro!: sum_list_nonneg)
  have "wrap64 (cur + sz) = cur + sz" using c False D(2) assms(3) by (simp add: in_int64_def)
  moreover have "spool_items (s1, d1) = map (file_item d1) fs" by (simp add: spool_items_def s1_def)
  ultimately show ?thesis using K inv1 res by (auto simp: s1_def)
qed

lemma commit_keeps:
  assumes inv: "spool_inv (s, d)" and fresh: "\<forall>f \<in> set (files s). sf_seq f < sq"
    and sq: "0 \<le> sq" "sq < nextSeq s" and room: "currentBytes s + int (length data) \<le> maxBytes s"
    and r: "spool_commit ft sq data (s, d) = ((s', d'), e)"
  shows "spool_inv (s', d') \<and>
    spool_items (s', d') = spool_items (s, d) @ (if e = None then [(sq, data)] else []) \<and>
    (spool_exact (s, d) \<longrightarrow> spool_exact (s', d'))"
proof -
  let ?fin = "spool_name sq" and ?tmp = "spool_name sq @ ''.tmp''"
  note D = spool_invD [OF inv]
  have i64: "in_int64 sq" using sq D(9) by (auto simp: in_int64_def)
  have fin: "spool_seq ?fin = Some sq" using spool_seq_name sq(1) i64 by blast
  obtain d1 w where w: "os_write ft ?tmp data d = (d1, w)" by (cases "os_write ft ?tmp data d")
  obtain d2 rn where rn: "os_rename ft ?tmp ?fin d1 = (d2, rn)" by (cases "os_rename ft ?tmp ?fin d1")
  show ?thesis
  proof (cases "w \<and> rn")
    case False
    then have res: "s' = s" "e \<noteq> None" "d' = (if w then fst (os_remove ft ?tmp d1) else d1)"
      using r w rn os_rename_frame(4) [OF rn]
      by (auto simp: spool_commit_def Let_def split: if_splits)
    have "map_of d' k = map_of d k" if "spool_seq k \<noteq> None" for k
      using not_tmp [OF that] os_write_frame(1) [OF w] os_remove_frame(1) res(3) by auto
    moreover have "distinct (map fst d) \<Longrightarrow> distinct (map fst d')"
      using os_write_frame(2) [OF w] os_remove_frame(2) res(3) by auto
    ultimately show ?thesis using spool_frame [of d' d s] inv res(1,2) by auto
  next
    case True
    define f where "f = \<lparr>sf_seq = sq, sf_path = ?fin, sf_size = int (length data)\<rparr>"
    have cb: "0 \<le> currentBytes s" using D(3,10) by (auto intro!: sum_list_nonneg)
    then have wr: "wrap64 (currentBytes s + int (length data)) = currentBytes s + int (length data)"
      using room D(2) by (simp add: in_int64_def)
    have res: "e = None" "d' = d2"
      "s' = s\<lparr>files := files s @ [f], currentBytes := currentBytes s + int (length data)\<rparr>"
      using r w rn True wr by (auto simp: spool_commit_def f_def Let_def)
    have new: "map_of d' ?fin = Some (File data)"
      using os_rename_frame(3) [OF rn] os_write_frame(3) [OF w] True res(2) by simp
    have old: "map_of d' k = map_of d k" if "spool_seq k \<noteq> None" "k \<noteq> ?fin" for k
      using that not_tmp [OF that(1)] os_rename_frame(1) [OF rn] os_write_frame(1) [OF w] res(2) by auto
    have neq: "sf_path g \<noteq> ?fin" if "g \<in> set (files s)" for g
      using that fresh D(6) fin by (force simp: file_ok_def)
    have same: "map_of d' (sf_path g) = map_of d (sf_path g)" if "g \<in> set (files s)" for g
      using that old neq D(6) by (auto simp: file_ok_def)
    have ok: "\<forall>g \<in> set (files s @ [f]). file_ok d' g"
      using D(6) same new fin by (auto simp: file_ok_def f_def)
    have inv': "spool_inv (s', d')"
      using D ok fresh sq room by (auto simp: spool_inv_def res(3) f_def sorted_wrt_append)
    have items: "spool_items (s', d') = spool_items (s, d) @ [(sq, data)]"
      using same new by (auto simp: spool_items_def file_item_def file_content_def res(3) f_def)
    have ex: "spool_exact (s', d')" if "spool_exact (s, d)"
      unfolding spool_exact_def Let_def prod.case
    proof (intro conjI allI impI)
      show "distinct (map fst d')"
        using that os_rename_frame(2) [OF rn] os_write_frame(2) [OF w] res(2)
        by (auto simp: spool_exact_def)
      fix nm c assume a: "map_of d' nm = Some (File c) \<and> spool_seq nm \<noteq> None"
      show "nm \<in> sf_path ` set (files s')"
      proof (cases "nm = ?fin")
        case True
        then show ?thesis by (simp add: res(3) f_def)
      next
        case False
        then have "map_of d nm = Some (File c)" using old [of nm] a by simp
        then have "nm \<in> sf_path ` set (files s)"
          using that a unfolding spool_exact_def Let_def prod.case by blast
        then show ?thesis by (simp add: res(3))
      qed
    qed
    show ?thesis using inv' items ex res(1) by simp
  qed
qed

text \<open>
  A push is allowed while the sequence counter has not reached the largest 64-bit integer; at
  one number per nanosecond from \<^verbatim>\<open>time.Now().UnixNano()\<close> on, that is the year 2262.
\<close>

definition spool_ready :: "submitSpool \<times> disk \<Rightarrow> bool" where
  "spool_ready sd \<longleftrightarrow> nextSeq (fst sd) < max_int64"

lemma spool_inv_next:
  assumes "spool_inv (s, d)" and "spool_ready (s, d)"
  shows "spool_inv (s\<lparr>nextSeq := wrap64 (nextSeq s + 1)\<rparr>, d)"
    and "wrap64 (nextSeq s + 1) = nextSeq s + 1"
proof -
  note D = spool_invD [OF assms(1)]
  show w: "wrap64 (nextSeq s + 1) = nextSeq s + 1"
    using assms(2) D(8) by (simp add: spool_ready_def in_int64_def)
  have "in_int64 (nextSeq s + 1)" using w wrap64_range by metis
  then show "spool_inv (s\<lparr>nextSeq := wrap64 (nextSeq s + 1)\<rparr>, d)"
    using assms(1) D(8) by (auto simp: w spool_inv_def)
qed

lemma spool_push_keeps:
  assumes inv: "spool_inv sd" and rdy: "spool_ready sd"
    and p: "submitSpool_push marshal ft t sd = (sd', e)"
  shows "spool_inv sd'" and "spool_exact sd \<Longrightarrow> spool_exact sd'"
    and "e = None \<Longrightarrow> \<exists>n x. spool_items sd' = drop n (spool_items sd) @ [x] \<and> stored marshal x t"
    and "e \<noteq> None \<Longrightarrow> \<exists>n. spool_items sd' = drop n (spool_items sd)"
proof -
  obtain s d where sd: "sd = (s, d)" by (cases sd)
  note N = spool_inv_next [OF inv [unfolded sd] rdy [unfolded sd]]
  define s1 where "s1 = s\<lparr>nextSeq := wrap64 (nextSeq s + 1)\<rparr>"
  define st where "st = \<lparr>st_Seq = nextSeq s, st_Opts = opts t, st_EnqueuedAt = enqueuedAt t,
                st_Attempts = attempts t, st_SizeBytes = 0\<rparr>"
  have i1: "spool_inv (s1, d)" using N(1) by (simp add: s1_def)
  have it1: "spool_items (s1, d) = spool_items sd" and ex1: "spool_exact (s1, d) = spool_exact sd"
    by (simp_all add: sd s1_def spool_items_def spool_exact_def)
  have below: "\<forall>f \<in> set (files s). sf_seq f < nextSeq s" "0 \<le> nextSeq s"
    using spool_invD(7,8) [OF inv [unfolded sd]] .
  note P = p [unfolded submitSpool_push_def sd Let_def prod.case, folded st_def s1_def]
  have early: "spool_inv sd' \<and> (spool_exact sd \<longrightarrow> spool_exact sd') \<and>
      (\<exists>n. spool_items sd' = drop n (spool_items sd))" if "sd' = (s1, d)"
    using that i1 it1 ex1 by (auto intro: exI [of _ 0])
  have main: "spool_inv sd' \<and> (spool_exact sd \<longrightarrow> spool_exact sd') \<and>
    (e = None \<longrightarrow> (\<exists>n x. spool_items sd' = drop n (spool_items sd) @ [x] \<and> stored marshal x t)) \<and>
    (e \<noteq> None \<longrightarrow> (\<exists>n. spool_items sd' = drop n (spool_items sd)))"
  proof (cases "marshal st")
    case None
    with P early show ?thesis by auto
  next
    case (Some data0)
    note P0 = P [unfolded Some option.case]
    show ?thesis
    proof (cases "marshal (st\<lparr>st_SizeBytes := int (length data0)\<rparr>)")
      case None
      with P0 early show ?thesis by auto
    next
      case (Some data)
      note md = Some
      have sto: "stored marshal (nextSeq s, data) t" using Some by (auto simp: stored_def st_def)
      obtain s2 d2 e2 where mr: "spool_make_room ft (int (length data)) (s1, d) = ((s2, d2), e2)"
        by (metis surj_pair)
      have M: "spool_inv (s2, d2)" "\<exists>n. spool_items (s2, d2) = drop n (spool_items sd)"
        "nextSeq s2 = nextSeq s1"
        "e2 = None \<Longrightarrow> currentBytes s2 + int (length data) \<le> maxBytes s2"
        "spool_exact sd \<Longrightarrow> spool_exact (s2, d2)" "set (files s2) \<subseteq> set (files s1)"
        using make_room_keeps [OF i1 mr] it1 ex1 by simp_all
      have M6: "\<forall>f \<in> set (files s2). sf_seq f < nextSeq s"
        using M(6) below(1) by (auto simp: s1_def)
      show ?thesis
      proof (cases e2)
        case (Some x)
        with P0 md mr have "sd' = (s2, d2)" "e \<noteq> None" by auto
        with M(1,2,5) show ?thesis by auto
      next
        case None
        obtain s3 d3 where sd': "sd' = (s3, d3)" by (cases sd')
        have c: "spool_commit ft (nextSeq s) data (s2, d2) = ((s3, d3), e)"
          using P0 md mr None sd' by simp
        have "nextSeq s < nextSeq s2" using M(3) N(2) by (simp add: s1_def)
        note C = commit_keeps [OF M(1) M6 below(2) this M(4) [OF None] c]
        show ?thesis using C M(2,5) sto sd' by auto
      qed
    qed
  qed
  show "spool_inv sd'" "spool_exact sd \<Longrightarrow> spool_exact sd'"
    "e = None \<Longrightarrow> \<exists>n x. spool_items sd' = drop n (spool_items sd) @ [x] \<and> stored marshal x t"
    "e \<noteq> None \<Longrightarrow> \<exists>n. spool_items sd' = drop n (spool_items sd)"
    using main by blast+
qed

text \<open>The state a spool is in between two calls, and the contract it offers.\<close>

definition spool_good :: "submitSpool \<times> disk \<Rightarrow> bool" where
  "spool_good sd \<longleftrightarrow> spool_inv sd \<and> spool_exact sd"

definition spool_try_push ::
    "(spoolTask \<Rightarrow> string option) \<Rightarrow> fs_faults \<Rightarrow> bufferedTask \<Rightarrow> submitSpool \<times> disk \<Rightarrow>
     (submitSpool \<times> disk) \<times> bool" where
  "spool_try_push marshal ft t sd =
     (let (sd', e) = submitSpool_push marshal ft t sd in (sd', e = None))"

interpretation spoolq: task_queue spool_good spool_ready spool_items "stored marshal"
  "spool_try_push marshal ft" for marshal ft
proof unfold_locales
  fix q q' :: "submitSpool \<times> disk" and t ok
  assume a: "spool_good q" "spool_ready q" "spool_try_push marshal ft t q = (q', ok)"
  obtain e where p: "submitSpool_push marshal ft t q = (q', e)" "ok = (e = None)"
    using a(3) by (auto simp: spool_try_push_def split: prod.splits)
  note K = spool_push_keeps [OF _ a(2) p(1)]
  show "spool_good q'" using K(1,2) a(1) by (simp add: spool_good_def)
next
  fix q q' :: "submitSpool \<times> disk" and t
  assume a: "spool_good q" "spool_ready q" "spool_try_push marshal ft t q = (q', True)"
  then have p: "submitSpool_push marshal ft t q = (q', None)"
    by (auto simp: spool_try_push_def split: prod.splits)
  show "\<exists>n x. spool_items q' = drop n (spool_items q) @ [x] \<and> stored marshal x t"
    using spool_push_keeps(3) [OF _ a(2) p] a(1) by (simp add: spool_good_def)
next
  fix q q' :: "submitSpool \<times> disk" and t
  assume a: "spool_good q" "spool_ready q" "spool_try_push marshal ft t q = (q', False)"
  then obtain e where p: "submitSpool_push marshal ft t q = (q', e)" "e \<noteq> None"
    by (auto simp: spool_try_push_def split: prod.splits)
  show "\<exists>n. spool_items q' = drop n (spool_items q)"
    using spool_push_keeps(4) [OF _ a(2) p] a(1) by (simp add: spool_good_def)
qed

subsection \<open>Ack\<close>

lemma ack_files_absent: "sq \<notin> sf_seq ` set fs \<Longrightarrow> ack_files ft sq fs cur d = (fs, cur, d, None)"
  by (induction fs) auto

lemma os_remove_error: "os_remove ft k d = (d', Some OtherIO) \<Longrightarrow> d' = d"
  by (auto simp: os_remove_def split: if_splits)

lemma os_remove_gone:
  "os_remove ft k d = (d', e) \<Longrightarrow> e \<noteq> Some OtherIO \<Longrightarrow> map_of d' = (map_of d)(k := None)"
  by (auto simp: os_remove_def fun_eq_iff split: if_splits)

lemma ack_files_present:
  assumes "distinct (map sf_seq fs)" and "f \<in> set fs" and "sf_seq f = sq"
    and "os_remove ft (sf_path f) d = (d1, r)"
  shows "\<exists>x. ack_files ft sq fs cur d =
    (if r = Some OtherIO then (fs, cur, d1, Some x)
     else (filter (\<lambda>g. sf_seq g \<noteq> sq) fs, wrap64 (cur - sf_size f), d1, None))"
  using assms
proof (induction fs)
  case (Cons g fs)
  show ?case
  proof (cases "sf_seq g = sq")
    case True
    with Cons.prems have "g = f" by (force simp: image_iff)
    have "\<forall>h \<in> set fs. sf_seq h \<noteq> sq" using Cons.prems(1) True by (auto simp: image_iff)
    then have fil: "filter (\<lambda>g. sf_seq g \<noteq> sq) fs = fs" by simp
    show ?thesis
    proof (cases r)
      case (Some x)
      then show ?thesis using True \<open>g = f\<close> Cons.prems(4) fil by (cases x) auto
    qed (use True \<open>g = f\<close> Cons.prems(4) fil in auto)
  next
    case False
    with Cons.prems have "f \<in> set fs" by auto
    with Cons.IH Cons.prems False show ?thesis by auto
  qed
qed simp

lemma sum_list_filter_key:
  fixes k :: "'a \<Rightarrow> int" and w :: "'a \<Rightarrow> int"
  shows "distinct (map k xs) \<Longrightarrow> x \<in> set xs \<Longrightarrow>
    sum_list (map w (filter (\<lambda>y. k y \<noteq> k x) xs)) = sum_list (map w xs) - w x"
proof (induction xs)
  case (Cons y ys)
  show ?case
  proof (cases "y = x")
    case True
    with Cons.prems(1) have "\<forall>z \<in> set ys. k z \<noteq> k x" by (auto simp: image_iff)
    then have "filter (\<lambda>y. k y \<noteq> k x) ys = ys" by simp
    with True show ?thesis by simp
  next
    case False
    with Cons.prems have "x \<in> set ys" "k y \<noteq> k x" by (auto simp: image_iff)
    with Cons show ?thesis by simp
  qed
qed simp

text \<open>Forgetting one file of the queue together with its directory entry keeps the spool good.\<close>

lemma spool_drop_file:
  assumes good: "spool_good (s, d)" and f: "f \<in> set (files s)"
    and m: "map_of d' = (map_of d)(sf_path f := None)" and dd: "distinct (map fst d')"
  defines "fs \<equiv> filter (\<lambda>g. sf_seq g \<noteq> sf_seq f) (files s)"
  shows "spool_good (s\<lparr>files := fs, currentBytes := wrap64 (currentBytes s - sf_size f)\<rparr>, d')"
    and "\<forall>g \<in> set fs. map_of d' (sf_path g) = map_of d (sf_path g)"
proof -
  have inv: "spool_inv (s, d)" and ex: "spool_exact (s, d)" using good by (auto simp: spool_good_def)
  note D = spool_invD [OF inv]
  have dist: "distinct (map sf_seq (files s))" using D(5) strict_sorted_iff by blast
  have paths: "distinct (map sf_path (files s))" using sorted_files_paths D(5,6) by blast
  have sum: "sum_list (map sf_size fs) = currentBytes s - sf_size f"
    using sum_list_filter_key [OF dist f, of sf_size] D(3) by (simp add: fs_def)
  moreover have "0 \<le> sum_list (map sf_size fs)" "0 \<le> sf_size f"
    using D(10) f by (auto simp: fs_def intro!: sum_list_nonneg)
  ultimately have w: "wrap64 (currentBytes s - sf_size f) = sum_list (map sf_size fs)"
      "sum_list (map sf_size fs) \<le> maxBytes s"
    using D(2,4) by (simp_all add: in_int64_def)
  have other: "sf_path g \<noteq> sf_path f" if "g \<in> set fs" for g
    using that f paths by (auto simp: fs_def distinct_map inj_on_def)
  then show same: "\<forall>g \<in> set fs. map_of d' (sf_path g) = map_of d (sf_path g)" using m by simp
  have ok: "\<forall>g \<in> set fs. file_ok d' g" using D(6) same by (auto simp: fs_def file_ok_def)
  have "sorted_wrt (<) (map sf_seq fs)"
    using D(5) by (auto simp: fs_def sorted_wrt_map intro: sorted_wrt_filter)
  then have inv': "spool_inv (s\<lparr>files := fs, currentBytes := wrap64 (currentBytes s - sf_size f)\<rparr>, d')"
    using D w ok by (auto simp: spool_inv_def fs_def)
  have "nm \<in> sf_path ` set fs" if c: "map_of d' nm = Some (File c)" and q: "spool_seq nm \<noteq> None" for nm c
  proof -
    have "nm \<noteq> sf_path f" "map_of d nm = Some (File c)" using c m by (auto split: if_splits)
    then obtain g where "g \<in> set (files s)" "nm = sf_path g"
      using ex q unfolding spool_exact_def Let_def prod.case by blast
    with \<open>nm \<noteq> sf_path f\<close> f dist show ?thesis by (force simp: fs_def distinct_map inj_on_def)
  qed
  with dd inv' show "spool_good (s\<lparr>files := fs, currentBytes := wrap64 (currentBytes s - sf_size f)\<rparr>, d')"
    unfolding spool_good_def spool_exact_def Let_def prod.case by auto
qed

text \<open>The three outcomes of an \<^verbatim>\<open>ack\<close>: no such file, the file removed, the removal failed.\<close>

lemma spool_ack_cases:
  assumes good: "spool_good (s, d)" and a: "submitSpool_ack ft sq (s, d) = ((s', d'), e)"
  obtains (absent) "sq \<notin> sf_seq ` set (files s)" "s' = s" "d' = d" "e = None"
  | (failed) "s' = s" "d' = d" "e \<noteq> None"
  | (acked) f where "f \<in> set (files s)" "sf_seq f = sq" "e = None"
      "map_of d' = (map_of d)(sf_path f := None)" "distinct (map fst d')"
      "s' = s\<lparr>files := filter (\<lambda>g. sf_seq g \<noteq> sf_seq f) (files s),
              currentBytes := wrap64 (currentBytes s - sf_size f)\<rparr>"
proof (cases "sq \<in> sf_seq ` set (files s)")
  case False
  then show thesis using a by (intro absent) (auto simp: submitSpool_ack_def ack_files_absent)
next
  case True
  then obtain f where f: "f \<in> set (files s)" "sf_seq f = sq" by auto
  obtain d1 r where rm: "os_remove ft (sf_path f) d = (d1, r)" by (cases "os_remove ft (sf_path f) d")
  have dist: "distinct (map sf_seq (files s))"
    using good spool_invD(5) strict_sorted_iff unfolding spool_good_def by blast
  note P = ack_files_present [OF dist f rm, of "currentBytes s"]
  show thesis
  proof (cases "r = Some OtherIO")
    case True
    with P a os_remove_error rm show thesis by (intro failed) (auto simp: submitSpool_ack_def)
  next
    case False
    have "distinct (map fst d1)"
      using good os_remove_frame(2) [of d ft "sf_path f"] rm
      by (simp add: spool_good_def spool_exact_def)
    with P False a f os_remove_gone [OF rm False] show thesis
      by (intro acked [OF f]) (auto simp: submitSpool_ack_def)
  qed
qed

lemma spool_ack_keeps:
  assumes good: "spool_good (s, d)" and a: "submitSpool_ack ft sq (s, d) = ((s', d'), e)"
  shows "spool_good (s', d')" and "nextSeq s' = nextSeq s \<and> maxBytes s' = maxBytes s"
    and "files s' = (if e = None then filter (\<lambda>f. sf_seq f \<noteq> sq) (files s) else files s)"
    and "\<forall>f \<in> set (files s'). map_of d' (sf_path f) = map_of d (sf_path f)"
proof -
  have "spool_good (s', d') \<and> (nextSeq s' = nextSeq s \<and> maxBytes s' = maxBytes s) \<and>
    files s' = (if e = None then filter (\<lambda>f. sf_seq f \<noteq> sq) (files s) else files s) \<and>
    (\<forall>f \<in> set (files s'). map_of d' (sf_path f) = map_of d (sf_path f))"
    using good a
  proof (cases rule: spool_ack_cases)
    case absent
    then have "filter (\<lambda>f. sf_seq f \<noteq> sq) (files s) = files s" by (auto simp: filter_id_conv)
    with absent good show ?thesis by simp
  next
    case failed
    with good show ?thesis by auto
  next
    case (acked f)
    with spool_drop_file [OF good acked(1,4,5)] show ?thesis by simp
  qed
  then show "spool_good (s', d')" "nextSeq s' = nextSeq s \<and> maxBytes s' = maxBytes s"
    "files s' = (if e = None then filter (\<lambda>f. sf_seq f \<noteq> sq) (files s) else files s)"
    "\<forall>f \<in> set (files s'). map_of d' (sf_path f) = map_of d (sf_path f)"
    by blast+
qed

subsection \<open>Restart\<close>

lemma scan_entries_ok:
  "(\<And>nm. \<not> stat_fails ft nm) \<Longrightarrow> \<exists>fs. scan_entries ft d = Inr fs \<and>
     set fs = {\<lparr>sf_seq = sq, sf_path = nm, sf_size = int (length c)\<rparr> | nm c sq.
                 (nm, File c) \<in> set d \<and> spool_seq nm = Some sq} \<and>
     (distinct (map fst d) \<longrightarrow> distinct (map sf_path fs))"
proof (induction d)
  case (Cons x d)
  obtain nm e where x: "x = (nm, e)" by (cases x)
  obtain fs where fs: "scan_entries ft d = Inr fs"
     "set fs = {\<lparr>sf_seq = sq, sf_path = nm, sf_size = int (length c)\<rparr> | nm c sq.
                 (nm, File c) \<in> set d \<and> spool_seq nm = Some sq}"
     "distinct (map fst d) \<longrightarrow> distinct (map sf_path fs)"
    using Cons by blast
  have sub: "sf_path ` set fs \<subseteq> fst ` set d" using fs(2) by force
  show ?case
  proof (cases "\<exists>c sq. e = File c \<and> spool_seq nm = Some sq")
    case True
    then obtain c sq where c: "e = File c" "spool_seq nm = Some sq" by blast
    have "scan_entries ft (x # d) = Inr (\<lparr>sf_seq = sq, sf_path = nm, sf_size = int (length c)\<rparr> # fs)"
      using Cons.prems fs(1) by (simp add: x c)
    moreover have "distinct (map fst (x # d)) \<longrightarrow> nm \<notin> sf_path ` set fs" using sub x by auto
    ultimately show ?thesis using fs(2,3) x c by auto
  next
    case False
    then have "scan_entries ft (x # d) = Inr fs"
      using fs(1) by (auto simp: x split: dir_entry.splits option.splits)
    then show ?thesis using fs(2,3) x False by auto
  qed
qed simp

lemma scan_entries_good:
  assumes ns: "\<And>nm. \<not> stat_fails ft nm" and good: "spool_good (s, d)"
  shows "\<exists>fs. scan_entries ft d = Inr fs \<and> mset fs = mset (files s)"
proof -
  have ex: "spool_exact (s, d)" and inv: "spool_inv (s, d)" using good by (auto simp: spool_good_def)
  have dd: "distinct (map fst d)" using ex by (simp add: spool_exact_def)
  note D = spool_invD [OF inv]
  obtain fs where fs: "scan_entries ft d = Inr fs"
     "set fs = {\<lparr>sf_seq = sq, sf_path = nm, sf_size = int (length c)\<rparr> | nm c sq.
                 (nm, File c) \<in> set d \<and> spool_seq nm = Some sq}" "distinct (map sf_path fs)"
    using scan_entries_ok [OF ns, of d] dd by blast
  have "g \<in> set (files s)" if gin: "g \<in> set fs" for g
  proof -
    obtain nm c sq where g: "g = \<lparr>sf_seq = sq, sf_path = nm, sf_size = int (length c)\<rparr>"
        "(nm, File c) \<in> set d" "spool_seq nm = Some sq" using gin fs(2) by blast
    have m: "map_of d nm = Some (File c)" using g(2) dd by simp
    then obtain f where f: "f \<in> set (files s)" "nm = sf_path f"
      using ex g(3) unfolding spool_exact_def Let_def prod.case by blast
    then have "file_ok d f" using D(6) by blast
    then have "f = g" using f(2) g m by (auto simp: file_ok_def)
    then show ?thesis using f(1) by simp
  qed
  moreover have "f \<in> set fs" if "f \<in> set (files s)" for f
  proof -
    have "file_ok d f" using that D(6) by blast
    then obtain c where c: "map_of d (sf_path f) = Some (File c)" "sf_size f = int (length c)"
      "spool_seq (sf_path f) = Some (sf_seq f)" by (auto simp: file_ok_def)
    moreover have "(sf_path f, File c) \<in> set d" using c(1) map_of_SomeD by metis
    ultimately show ?thesis unfolding fs(2)
      by (intro CollectI exI [of _ "sf_path f"] exI [of _ c] exI [of _ "sf_seq f"]) simp
  qed
  ultimately have "set fs = set (files s)" by blast
  moreover have "distinct fs" "distinct (files s)"
    using fs(3) sorted_files_paths [OF D(5,6)] by (auto simp: distinct_map)
  ultimately have "mset fs = mset (files s)" using set_eq_iff_mset_eq_distinct by blast
  with fs(1) show ?thesis by blast
qed

lemma filter_own_key:
  "distinct (map f xs) \<Longrightarrow> k \<in> set xs \<Longrightarrow> filter (\<lambda>x. f k = f x) xs = [k]"
proof (induction xs)
  case (Cons x xs)
  show ?case
  proof (cases "k = x")
    case True
    with Cons.prems(1) have "\<forall>y \<in> set xs. f k \<noteq> f y" by (auto simp: image_iff)
    then have "filter (\<lambda>x. f k = f x) xs = []" by (simp add: filter_empty_conv)
    with True show ?thesis by simp
  next
    case False
    with Cons.prems have "k \<in> set xs" "f k \<noteq> f x" by (auto simp: image_iff)
    with Cons show ?thesis by simp
  qed
qed simp

lemma sort_key_unique:
  fixes f :: "'a \<Rightarrow> int"
  assumes "mset xs = mset ys" and "sorted_wrt (<) (map f ys)"
  shows "sort_key f xs = ys"
proof (rule properties_for_sort_key)
  show "mset ys = mset xs" using assms(1) by simp
  have dy: "distinct (map f ys)" and sy: "sorted (map f ys)"
    using assms(2) strict_sorted_iff by blast+
  show "sorted (map f ys)" by (rule sy)
  have "mset (map f xs) = mset (map f ys)" using assms(1) by simp
  then have dx: "distinct (map f xs)" using dy by (metis mset_eq_imp_distinct_iff)
  fix k assume k: "k \<in> set ys"
  then have "k \<in> set xs" using assms(1) by (metis mset_eq_setD)
  then show "filter (\<lambda>x. f k = f x) ys = filter (\<lambda>x. f k = f x) xs"
    using filter_own_key [OF dx] filter_own_key [OF dy k] by simp
qed

lemma foldl_max_Max: "foldl max (a :: int) xs = Max (set (a # xs))"
proof (induction xs arbitrary: a)
  case (Cons x xs)
  then show ?case by (cases "set xs = {}") (simp_all add: max.assoc)
qed simp

text \<open>
  A process that starts on the directory of a good spool rebuilds the same queue, and touches no
  file: \<^verbatim>\<open>newSubmitSpool\<close> reloads exactly what was accepted and not yet acknowledged.
\<close>

lemma evict_under: "\<not> over cur \<Longrightarrow> evict ft over fs cur d = (fs, cur, d, None)"
  by (cases fs) auto

lemma reload_good:
  assumes good: "spool_good (s, d)" and ns: "\<And>nm. \<not> stat_fails ft nm" and rd: "\<not> readdir_fails ft"
    and now: "0 \<le> nextSeq s0" "in_int64 (nextSeq s0)" and mx: "maxBytes s0 = maxBytes s"
  shows "\<exists>n'. reloadLocked ft (s0, d) =
           ((s0\<lparr>files := files s, currentBytes := currentBytes s, nextSeq := n'\<rparr>, d), None) \<and>
         nextSeq s0 \<le> n' \<and> in_int64 n' \<and> (\<forall>f \<in> set (files s). sf_seq f < n')"
proof -
  have inv: "spool_inv (s, d)" using good by (simp add: spool_good_def)
  note D = spool_invD [OF inv]
  obtain fs where fs: "scan_entries ft d = Inr fs" "mset fs = mset (files s)"
    using scan_entries_good [OF ns good] by blast
  have st: "set fs = set (files s)" using fs(2) by (metis mset_eq_setD)
  have srt: "sort_key sf_seq fs = files s" using sort_key_unique fs(2) D(5) by blast
  have "sum_list (map sf_size fs) = currentBytes s"
    using fs(2) D(3) by (metis mset_map sum_mset_sum_list)
  moreover have cb: "in_int64 (currentBytes s)"
    using D(2,3,4,10) by (auto simp: in_int64_def intro!: order_trans [OF _ sum_list_nonneg])
  ultimately have tot: "wrap64 (sum_list (map sf_size fs)) = currentBytes s" by simp
  define m where "m = foldl max 0 (map sf_seq fs)"
  have m: "m = Max (set (0 # map sf_seq (files s)))" by (simp add: m_def foldl_max_Max st)
  have ge: "sf_seq f \<le> m" if "f \<in> set (files s)" for f using that by (auto simp: m intro: Max_ge)
  have m_in: "m \<in> set (0 # map sf_seq (files s))" unfolding m by (rule Max_in) auto
  then have lt: "m < max_int64" using D(7,9) by (auto simp: in_int64_def)
  have nn: "0 \<le> m" by (auto simp: m intro: Max_ge)
  have w: "wrap64 (m + 1) = m + 1" using nn lt by (simp add: in_int64_def)
  let ?n = "if m \<ge> nextSeq s0 then m + 1 else nextSeq s0"
  have "reloadLocked ft (s0, d) =
      ((s0\<lparr>files := files s, currentBytes := currentBytes s, nextSeq := ?n\<rparr>, d), None)"
    using rd D(4) by (simp add: reloadLocked_def fs(1) srt tot mx evict_under w m_def [symmetric] Let_def)
  moreover have "nextSeq s0 \<le> ?n" "in_int64 ?n" using now nn lt by (auto simp: in_int64_def)
  moreover have "\<forall>f \<in> set (files s). sf_seq f < ?n" using ge by fastforce
  ultimately show ?thesis by blast
qed

lemma new_spool_recovers:
  assumes good: "spool_good (s, d)" and dir: "spool_dir s \<noteq> ''''"
    and ft: "\<not> mkdir_fails ft" "\<not> readdir_fails ft" "\<And>nm. \<not> stat_fails ft nm"
    and now: "0 \<le> now" "in_int64 now"
  shows "\<exists>s'. newSubmitSpool ft tmp now (spool_dir s) (maxBytes s) d = (Inr s', d) \<and>
     files s' = files s \<and> currentBytes s' = currentBytes s \<and> maxBytes s' = maxBytes s \<and>
     spool_items (s', d) = spool_items (s, d) \<and> now \<le> nextSeq s' \<and> spool_good (s', d)"
proof -
  let ?s0 = "\<lparr>spool_dir = spool_dir s, maxBytes = maxBytes s, nextSeq = now, currentBytes = 0, files = []\<rparr>"
  have inv: "spool_inv (s, d)" and ex: "spool_exact (s, d)" using good by (auto simp: spool_good_def)
  obtain n' where n: "reloadLocked ft (?s0, d) =
      ((?s0\<lparr>files := files s, currentBytes := currentBytes s, nextSeq := n'\<rparr>, d), None)"
      "now \<le> n'" "in_int64 n'" "\<forall>f \<in> set (files s). sf_seq f < n'"
    using reload_good [OF good ft(3,2), of ?s0] now by auto
  let ?s' = "?s0\<lparr>files := files s, currentBytes := currentBytes s, nextSeq := n'\<rparr>"
  have "newSubmitSpool ft tmp now (spool_dir s) (maxBytes s) d = (Inr ?s', d)"
    using spool_invD(1) [OF inv] dir ft(1) n(1) by (simp add: newSubmitSpool_def Let_def)
  moreover have "spool_good (?s', d)"
    using inv ex n(2,3,4) now by (auto simp: spool_good_def spool_inv_def spool_exact_def)
  ultimately show ?thesis using n(2) by (intro exI [of _ ?s']) (simp add: spool_items_def)
qed

subsection \<open>Replay\<close>

text \<open>What \<^verbatim>\<open>encoding/json\<close> is relied on for: decoding an encoded record gives it back.\<close>

definition json_roundtrip ::
    "(spoolTask \<Rightarrow> string option) \<Rightarrow> (string \<Rightarrow> spoolTask option) \<Rightarrow> bool" where
  "json_roundtrip marshal unmarshal \<longleftrightarrow>
     (\<forall>st data. marshal st = Some data \<longrightarrow> unmarshal data = Some st)"

definition task_of :: "spoolTask \<Rightarrow> bufferedTask" where
  "task_of st = \<lparr>opts = st_Opts st, enqueuedAt = st_EnqueuedAt st, attempts = st_Attempts st\<rparr>"

lemma stored_decode:
  assumes "json_roundtrip marshal unmarshal" and "stored marshal x t"
  shows "\<exists>st. unmarshal (snd x) = Some st \<and> task_of st = t \<and> st_Seq st = fst x"
  using assms by (force simp: json_roundtrip_def stored_def task_of_def)

lemma read_tasks_stored:
  assumes "json_roundtrip marshal unmarshal" and "\<And>k. \<not> read_fails ft k"
    and "\<forall>f \<in> set fs. file_ok d f"
    and "list_all2 (stored marshal) (map (file_item d) fs) ts"
  shows "\<exists>sts. read_tasks unmarshal ft d fs = Inr sts \<and> map task_of sts = ts \<and>
           map st_Seq sts = map sf_seq fs"
  using assms(3,4)
proof (induction fs arbitrary: ts)
  case (Cons f fs)
  then obtain t ts' where ts: "ts = t # ts'" "stored marshal (file_item d f) t"
      "list_all2 (stored marshal) (map (file_item d) fs) ts'"
    by (auto simp: list_all2_Cons1)
  obtain st where st: "unmarshal (file_content d f) = Some st" "task_of st = t" "st_Seq st = sf_seq f"
    using stored_decode [OF assms(1) ts(2)] by (auto simp: file_item_def)
  obtain sts where sts: "read_tasks unmarshal ft d fs = Inr sts" "map task_of sts = ts'"
      "map st_Seq sts = map sf_seq fs"
    using Cons.IH [OF _ ts(3)] Cons.prems(1) by auto
  have "os_read ft (sf_path f) d = Some (file_content d f)"
    using Cons.prems(1) assms(2) by (auto simp: os_read_def file_content_def file_ok_def)
  then show ?case using st sts ts(1) by auto
qed auto

text \<open>The poison file: a first file that cannot be read or decoded stops every drain.\<close>

lemma drain_poison:
  assumes "files s = f # fs"
    and "os_read ft (sf_path f) d = None \<or>
         (\<exists>c. os_read ft (sf_path f) d = Some c \<and> unmarshal c = None)"
  shows "\<exists>e. submitSpool_drain unmarshal ft mx (s, d) = Inl e"
proof -
  let ?n = "if mx \<le> 0 \<or> mx > int (length (files s)) then length (files s) else nat mx"
  have "take ?n (files s) = f # take (?n - 1) fs" using assms(1) by (cases ?n) (auto split: if_splits)
  then show ?thesis using assms by (auto simp: submitSpool_drain_def split: option.split)
qed

subsection \<open>Properties of the spool\<close>

lemma push_nextSeq:
  "nextSeq (fst (fst (submitSpool_push marshal ft t sd))) = wrap64 (nextSeq (fst sd) + 1)"
  by (cases sd) (auto simp: submitSpool_push_def spool_make_room_def spool_commit_def Let_def
      split: option.splits prod.splits)

lemma spool_all_ready:
  "spool_good sd \<Longrightarrow> nextSeq (fst sd) + int (length ts) \<le> max_int64 \<Longrightarrow>
     spoolq.all_ready marshal ft ts sd"
proof (induction ts arbitrary: sd)
  case (Cons t ts)
  have rdy: "spool_ready sd" using Cons.prems(2) by (simp add: spool_ready_def)
  have inv: "spool_inv (fst sd, snd sd)" using Cons.prems(1) by (simp add: spool_good_def)
  let ?sd = "fst (spool_try_push marshal ft t sd)"
  have "?sd = fst (submitSpool_push marshal ft t sd)" by (simp add: spool_try_push_def split: prod.split)
  then have "nextSeq (fst ?sd) = nextSeq (fst sd) + 1"
    using spool_inv_next(2) [OF inv] rdy by (simp add: push_nextSeq)
  moreover have "spool_good ?sd"
    using spoolq.push_inv [OF Cons.prems(1) rdy] by (metis prod.collapse)
  ultimately show ?case using Cons.IH [of ?sd] Cons.prems(2) rdy by simp
qed simp

lemma empty_spool_good:
  "0 < mx \<Longrightarrow> mx < 4611686018427387904 \<Longrightarrow> 0 \<le> now \<Longrightarrow> in_int64 now \<Longrightarrow>
     spool_good (\<lparr>spool_dir = dir, maxBytes = mx, nextSeq = now, currentBytes = 0, files = []\<rparr>, [])"
  by (simp add: spool_good_def spool_inv_def spool_exact_def)

lemma new_spool_empty:
  "dir \<noteq> '''' \<Longrightarrow> 0 < mx \<Longrightarrow> 0 \<le> now \<Longrightarrow> newSubmitSpool no_faults tmp now dir mx [] =
     (Inr \<lparr>spool_dir = dir, maxBytes = mx,
           nextSeq = (if now = 0 then 1 else now), currentBytes = 0, files = []\<rparr>, [])"
  by (auto simp: newSubmitSpool_def reloadLocked_def wrap64_def)

lemma push_all_dir:
  "spoolq.push_all marshal ft ts sd = (sd', acc) \<Longrightarrow>
     spool_dir (fst sd') = spool_dir (fst sd) \<and> maxBytes (fst sd') = maxBytes (fst sd)"
proof (induction ts arbitrary: sd acc)
  case (Cons t ts)
  have "spool_dir (fst (fst (spool_try_push marshal ft t sd))) = spool_dir (fst sd) \<and>
        maxBytes (fst (fst (spool_try_push marshal ft t sd))) = maxBytes (fst sd)"
    by (cases sd) (auto simp: spool_try_push_def submitSpool_push_def spool_make_room_def
        spool_commit_def Let_def split: option.splits prod.splits)
  with Cons show ?case by (auto simp: Let_def split: prod.splits)
qed simp

text \<open>A concrete codec for the witnesses: unary numbers around a separator, for one fixed task.\<close>

definition demo_opts :: SubmitOptions where
  "demo_opts = \<lparr>JobName = ''sync'', BizKey = ''k1'', Payload = '''', DedupeWindowSec = 60,
     TraceID = '''', SpanID = ''''\<rparr>"

definition demo_task :: bufferedTask where
  "demo_task = \<lparr>opts = demo_opts, enqueuedAt = 7, attempts = 0\<rparr>"

definition demo_marshal :: "spoolTask \<Rightarrow> string option" where
  "demo_marshal st =
     (if task_of st = demo_task \<and> 0 \<le> st_Seq st \<and> 0 \<le> st_SizeBytes st
      then Some (replicate (nat (st_Seq st)) (CHR ''a'') @ ''b'' @
                 replicate (nat (st_SizeBytes st)) (CHR ''a''))
      else None)"

definition demo_unmarshal :: "string \<Rightarrow> spoolTask option" where
  "demo_unmarshal c =
     (if c = [] then None
      else Some \<lparr>st_Seq = int (length (takeWhile (\<lambda>x. x = CHR ''a'') c)), st_Opts = demo_opts,
                 st_EnqueuedAt = 7, st_Attempts = 0,
                 st_SizeBytes = int (length c - 1 - length (takeWhile (\<lambda>x. x = CHR ''a'') c))\<rparr>)"

lemma demo_codec: "json_roundtrip demo_marshal demo_unmarshal"
  unfolding json_roundtrip_def
proof (intro allI impI)
  fix st data assume a: "demo_marshal st = Some data"
  then have t: "task_of st = demo_task" "0 \<le> st_Seq st" "0 \<le> st_SizeBytes st"
    and d: "data = replicate (nat (st_Seq st)) (CHR ''a'') @ ''b'' @
                 replicate (nat (st_SizeBytes st)) (CHR ''a'')"
    by (auto simp: demo_marshal_def split: if_splits)
  have "takeWhile (\<lambda>x. x = CHR ''a'') data = replicate (nat (st_Seq st)) (CHR ''a'')"
    by (simp add: d takeWhile_append)
  then show "demo_unmarshal data = Some st"
    using t by (cases st) (simp add: demo_unmarshal_def d task_of_def demo_task_def)
qed

text \<open>
  C6. The spool's invariant: the byte counter is the sum of the file sizes and within the limit,
  the files are strictly sorted by sequence number, each has its content on disk under a name that
  parses back to its number, all numbers are below the next one, and the directory holds no other
  spool file.  A push and an ack keep it whatever the file system does (each call may fail on its own).
\<close>

theorem spool_operations_keep_invariant:
  assumes "spool_good sd" and "spool_ready sd"
  shows "spool_good (fst (submitSpool_push marshal ft t sd)) \<and>
         spool_good (fst (submitSpool_ack ft sq sd))"
proof
  show "spool_good (fst (submitSpool_push marshal ft t sd))"
    using spool_push_keeps(1,2) [OF _ assms(2)] assms(1) unfolding spool_good_def
    by (metis prod.collapse)
  show "spool_good (fst (submitSpool_ack ft sq sd))"
    using spool_ack_keeps(1) [of "fst sd" "snd sd" ft sq] assms(1) by (metis prod.collapse)
qed

definition demo_spool :: submitSpool where
  "demo_spool = \<lparr>spool_dir = ''/spool'', maxBytes = 20, nextSeq = 5, currentBytes = 0, files = []\<rparr>"

lemma demo_spool_good [simp]: "spool_good (demo_spool, [])" "spool_ready (demo_spool, [])"
  by (simp_all add: demo_spool_def empty_spool_good in_int64_def spool_ready_def)

lemma demo_marshal_Some [simp]:
  "0 \<le> q \<Longrightarrow> 0 \<le> z \<Longrightarrow>
   demo_marshal \<lparr>st_Seq = q, st_Opts = opts demo_task, st_EnqueuedAt = enqueuedAt demo_task,
                 st_Attempts = attempts demo_task, st_SizeBytes = z\<rparr> =
     Some (replicate (nat q) (CHR ''a'') @ ''b'' @ replicate (nat z) (CHR ''a''))"
  by (simp add: demo_marshal_def task_of_def)

theorem spool_operations_keep_invariant_witness:
  "spool_good (fst (submitSpool_push demo_marshal no_faults demo_task (demo_spool, []))) \<and>
   spool_good (fst (submitSpool_ack no_faults 5 (demo_spool, [])))"
  by (rule spool_operations_keep_invariant) simp_all


definition demo_spool2 :: submitSpool where
  "demo_spool2 = \<lparr>spool_dir = ''/spool'', maxBytes = 20, nextSeq = 7, currentBytes = 14,
     files = [\<lparr>sf_seq = 6, sf_path = spool_name 6, sf_size = 14\<rparr>]\<rparr>"

lemma demo_names: "spool_name 5 = ''00000000000000000005.json''" "spool_name 6 = ''00000000000000000006.json''"
  by code_simp+

lemma demo_push1: "submitSpool_push demo_marshal no_faults demo_task (demo_spool, []) =
  ((demo_spool\<lparr>nextSeq := 6, currentBytes := 12,
      files := [\<lparr>sf_seq = 5, sf_path = spool_name 5, sf_size = 12\<rparr>]\<rparr>,
    [(spool_name 5, File ''aaaaabaaaaaa'')]), None)"
  by (simp add: submitSpool_push_def demo_spool_def spool_make_room_def spool_commit_def wrap64_def
      os_write_def os_rename_def disk_put_def disk_del_def Let_def eval_nat_numeral)

lemma demo_push2: "submitSpool_push demo_marshal no_faults demo_task
  (demo_spool\<lparr>nextSeq := 6, currentBytes := 12,
      files := [\<lparr>sf_seq = 5, sf_path = spool_name 5, sf_size = 12\<rparr>]\<rparr>,
    [(spool_name 5, File ''aaaaabaaaaaa'')]) =
  ((demo_spool2, [(spool_name 6, File ''aaaaaabaaaaaaa'')]), None)"
  by (simp add: submitSpool_push_def demo_spool_def demo_spool2_def spool_make_room_def spool_commit_def
      wrap64_def os_write_def os_rename_def os_remove_def disk_put_def disk_del_def Let_def
      eval_nat_numeral)


end
