(* ===== verification/SubmitClient.thy ===== *)
theory SubmitClient
  imports SubmitBuffer SubmitSpool
begin

text \<open>
  The submitting half of the scheduler SDK's client: the calls to the scheduler service of
  \<^verbatim>\<open>src/pkg/scheduler/submit.go\<close> and the buffered path of \<^verbatim>\<open>submit_buffer.go\<close> (\<^verbatim>\<open>EnqueueTask\<close>,
  \<^verbatim>\<open>flushBufferOnce\<close>, \<^verbatim>\<open>flushSpoolOnce\<close>).  The generated gRPC stub, the clock and the random source
  are the fields of \<open>sched_api\<close>: each takes the state \<open>'w\<close> of the outside world and returns the new
  one, so successive calls may answer differently.  A context is its deadline (\<^const>\<open>None\<close> when it
  has none).  The theory shows which error goes where, that nothing is queued for a non-retriable
  error, and that one flush loses no task and keeps the order.
\<close>

subsection \<open>The scheduler service\<close>

record SubmitTaskRequest =
  rq_AppName :: string
  rq_AppKey :: string
  rq_Signature :: string
  rq_Nonce :: string
  rq_Ts :: int
  rq_JobName :: string
  rq_BizKey :: string
  rq_Payload :: string
  rq_DedupeWindowSec :: int
  rq_TraceId :: string
  rq_SpanId :: string

record SubmitTaskResponse =
  RunId :: string
  Dedup :: bool

text \<open>Of a \<^verbatim>\<open>pb.Job\<close> the SDK reads and writes two fields; \<open>job_rest\<close> stands for all others.\<close>

record Job =
  job_JobName :: string
  job_AppName :: string
  job_rest :: string

record CancelRunResponse =
  cr_Ok :: bool
  cr_Error :: string

type_synonym ctx = "duration option"

record 'w sched_api =
  rpc_SubmitTask :: "ctx \<Rightarrow> SubmitTaskRequest \<Rightarrow> 'w \<Rightarrow> (go_error + SubmitTaskResponse) \<times> 'w"
  rpc_GetRun :: "ctx \<Rightarrow> string \<Rightarrow> 'w \<Rightarrow> (go_error + string) \<times> 'w"
  rpc_GetJob :: "ctx \<Rightarrow> string \<Rightarrow> 'w \<Rightarrow> (go_error + Job) \<times> 'w"
  rpc_CreateJob :: "ctx \<Rightarrow> Job \<Rightarrow> 'w \<Rightarrow> (go_error + Job) \<times> 'w"
  rpc_CancelRun :: "ctx \<Rightarrow> string \<Rightarrow> string \<Rightarrow> 'w \<Rightarrow> (go_error + CancelRunResponse) \<times> 'w"
  time_Now :: "'w \<Rightarrow> instant \<times> 'w"
  rand_Read :: "'w \<Rightarrow> nat list option \<times> 'w"
  hmac_sha256 :: "string \<Rightarrow> string \<Rightarrow> nat list"
  status_FromError :: status_from_error
  json_Marshal :: "spoolTask \<Rightarrow> string option"
  json_Unmarshal :: "string \<Rightarrow> spoolTask option"

record Client =
  cfg :: Config
  schedCli :: bool
  localBuffer :: "submitBuffer option"
  localSpool :: "submitSpool option"
  spool_disk :: disk

definition default_timeout :: "Client \<Rightarrow> ctx \<Rightarrow> ctx" where
  "default_timeout c ctx = (case ctx of None \<Rightarrow> Some (SubmitTimeout (cfg c)) | Some t \<Rightarrow> Some t)"

subsection \<open>Synchronous calls (\<^verbatim>\<open>submit.go\<close>)\<close>

definition SubmitTask ::
    "'w sched_api \<Rightarrow> Client \<Rightarrow> ctx \<Rightarrow> SubmitOptions \<Rightarrow> 'w \<Rightarrow> (go_error + string \<times> bool) \<times> 'w" where
  "SubmitTask api c ctx0 o' w0 =
     (if \<not> schedCli c then (Inl ErrSubmitNotConnected, w0)
      else if JobName o' = '''' then (Inl (ErrNew ''scheduler: SubmitOptions.JobName required''), w0)
      else
        (let ctx = default_timeout c ctx0;
             (rnd, w1) = rand_Read api w0;
             (now, w2) = time_Now api w1;
             creds = newSignedCreds (hmac_sha256 api) rnd now (AppKey (cfg c)) (AppSecret (cfg c));
             (r, w3) = rpc_SubmitTask api ctx
               \<lparr>rq_AppName = AppName (cfg c), rq_AppKey = AppKey (cfg c),
                rq_Signature = Signature creds, rq_Nonce = Nonce creds, rq_Ts = Ts creds,
                rq_JobName = JobName o', rq_BizKey = BizKey o', rq_Payload = Payload o',
                rq_DedupeWindowSec = DedupeWindowSec o', rq_TraceId = TraceID o',
                rq_SpanId = SpanID o'\<rparr> w2
         in case r of
              Inl e \<Rightarrow> (Inl (ErrWrap ''submit task'' e), w3)
            | Inr resp \<Rightarrow> (Inr (RunId resp, Dedup resp), w3)))"

definition GetRun :: "'w sched_api \<Rightarrow> Client \<Rightarrow> ctx \<Rightarrow> string \<Rightarrow> 'w \<Rightarrow> (go_error + string) \<times> 'w" where
  "GetRun api c ctx0 runID w0 =
     (if \<not> schedCli c then (Inl ErrSubmitNotConnected, w0)
      else if runID = '''' then (Inl (ErrNew ''scheduler: GetRun runID required''), w0)
      else let (r, w1) = rpc_GetRun api (default_timeout c ctx0) runID w0
           in case r of
                Inl e \<Rightarrow> (Inl (ErrWrap (''get run '' @ runID) e), w1)
              | Inr run \<Rightarrow> (Inr run, w1))"

text \<open>A nil \<^verbatim>\<open>*pb.Job\<close> is \<^const>\<open>None\<close>.  The last component is the job after the call (the caller's
  object is filled in with the application name).\<close>

definition EnsureJob ::
    "'w sched_api \<Rightarrow> Client \<Rightarrow> ctx \<Rightarrow> Job option \<Rightarrow> 'w \<Rightarrow> (go_error + bool) \<times> Job option \<times> 'w" where
  "EnsureJob api c ctx0 job w0 =
     (if \<not> schedCli c then (Inl ErrSubmitNotConnected, job, w0)
      else case job of
        None \<Rightarrow> (Inl (ErrNew ''scheduler: EnsureJob job.job_name required''), job, w0)
      | Some j \<Rightarrow>
          if job_JobName j = ''''
          then (Inl (ErrNew ''scheduler: EnsureJob job.job_name required''), job, w0)
          else
            (let ctx = default_timeout c ctx0;
                 (r, w1) = rpc_GetJob api ctx (job_JobName j) w0
             in case r of
                  Inr _ \<Rightarrow> (Inr False, job, w1)
                | Inl err \<Rightarrow>
                    (let (st, ok) = grpcStatus (status_FromError api) err in
                     if \<not> (ok \<and> st = ''NotFound'') \<and> \<not> isNotFoundErr (status_FromError api) err
                     then (Inl (ErrWrap (''get job '' @ job_JobName j) err), job, w1)
                     else
                       (let j' = (if job_AppName j = '''' then j\<lparr>job_AppName := AppName (cfg c)\<rparr> else j);
                            (r2, w2) = rpc_CreateJob api ctx j' w1
                        in case r2 of
                             Inr _ \<Rightarrow> (Inr True, Some j', w2)
                           | Inl err2 \<Rightarrow>
                               if isAlreadyExistsErr (status_FromError api) err2
                               then (Inr False, Some j', w2)
                               else (Inl (ErrWrap (''create job '' @ job_JobName j') err2), Some j', w2)))))"

definition CancelRun ::
    "'w sched_api \<Rightarrow> Client \<Rightarrow> ctx \<Rightarrow> string \<Rightarrow> string \<Rightarrow> 'w \<Rightarrow> go_error option \<times> 'w" where
  "CancelRun api c ctx0 runID reason w0 =
     (if \<not> schedCli c then (Some ErrSubmitNotConnected, w0)
      else if runID = '''' then (Some (ErrNew ''scheduler: CancelRun runID required''), w0)
      else let (r, w1) = rpc_CancelRun api (default_timeout c ctx0) runID reason w0
           in case r of
                Inl e \<Rightarrow> (Some (ErrWrap (''cancel run '' @ runID) e), w1)
              | Inr resp \<Rightarrow>
                  (if \<not> cr_Ok resp
                   then (Some (ErrNew (''cancel run '' @ runID @ '': '' @ cr_Error resp)), w1)
                   else (None, w1)))"

subsection \<open>Buffered path (\<^verbatim>\<open>submit_buffer.go\<close>)\<close>

text \<open>The source calls \<^verbatim>\<open>enqueueBufferedTask\<close> only when \<^verbatim>\<open>localBuffer\<close> is not nil.\<close>

definition enqueueBufferedTask ::
    "'w sched_api \<Rightarrow> fs_faults \<Rightarrow> bufferedTask \<Rightarrow> Client \<Rightarrow> Client \<times> bool" where
  "enqueueBufferedTask api ft t c =
     (case localBuffer c of
        None \<Rightarrow> (c, False)
      | Some b \<Rightarrow>
          (let (b', ok) = submitBuffer_push t b in
           if ok then (c\<lparr>localBuffer := Some b'\<rparr>, True)
           else case localSpool c of
                  None \<Rightarrow> (c, False)
                | Some s \<Rightarrow>
                    (let ((s', d'), e) = submitSpool_push (json_Marshal api) ft t (s, spool_disk c)
                     in (c\<lparr>localSpool := Some s', spool_disk := d'\<rparr>, e = None))))"

text \<open>The lines of \<^verbatim>\<open>EnqueueTask\<close> that stamp the task and queue it; they occur twice.\<close>

definition enqueue_now ::
    "'w sched_api \<Rightarrow> fs_faults \<Rightarrow> SubmitOptions \<Rightarrow> Client \<Rightarrow> 'w \<Rightarrow> (go_error + bool) \<times> Client \<times> 'w" where
  "enqueue_now api ft o' c w =
     (let (now, w') = time_Now api w;
          (c', ok) = enqueueBufferedTask api ft \<lparr>opts = o', enqueuedAt = now, attempts = 0\<rparr> c
      in (if \<not> ok then Inl ErrLocalBufferFull else Inr True, c', w'))"

definition EnqueueTask ::
    "'w sched_api \<Rightarrow> fs_faults \<Rightarrow> ctx \<Rightarrow> SubmitOptions \<Rightarrow> Client \<Rightarrow> 'w \<Rightarrow>
     (go_error + bool) \<times> Client \<times> 'w" where
  "EnqueueTask api ft ctx o' c w0 =
     (if \<not> LocalBufferEnabled (cfg c) \<or> localBuffer c = None then (Inl ErrLocalBufferDisabled, c, w0)
      else if JobName o' = ''''
        then (Inl (ErrNew ''scheduler: SubmitOptions.JobName required''), c, w0)
      else if \<not> schedCli c then enqueue_now api ft o' c w0
      else case SubmitTask api c ctx o' w0 of
             (Inr _, w1) \<Rightarrow> (Inr False, c, w1)
           | (Inl err, w1) \<Rightarrow>
               if \<not> isRetriableSubmitErr (status_FromError api) (Some err) then (Inl err, c, w1)
               else enqueue_now api ft o' c w1)"

definition BufferedCount :: "Client \<Rightarrow> int" where
  "BufferedCount c = (case localBuffer c of None \<Rightarrow> 0 | Some b \<Rightarrow> submitBuffer_Len b)"

definition SpilledCount :: "Client \<Rightarrow> int" where
  "SpilledCount c = (case localSpool c of None \<Rightarrow> 0 | Some s \<Rightarrow> submitSpool_len s)"

definition SpilledBytes :: "Client \<Rightarrow> int" where
  "SpilledBytes c = (case localSpool c of None \<Rightarrow> 0 | Some s \<Rightarrow> submitSpool_bytes s)"

text \<open>
  The loop of \<^verbatim>\<open>flushBufferOnce\<close> over its batch.  The first component lists the outcome of every
  attempt in order (\<^const>\<open>None\<close> is a delivery); the second is what goes back to the queue, with
  \<^const>\<open>None\<close> when the loop ran to its end.
\<close>

fun flush_batch ::
    "'w sched_api \<Rightarrow> Client \<Rightarrow> bufferedTask list \<Rightarrow> 'w \<Rightarrow>
     go_error option list \<times> bufferedTask list option \<times> 'w" where
  "flush_batch api c [] w = ([], None, w)"
| "flush_batch api c (t # ts) w =
     (case SubmitTask api c (Some (SubmitTimeout (cfg c))) (opts t) w of
        (Inr _, w1) \<Rightarrow> (let (os, rem, w2) = flush_batch api c ts w1 in (None # os, rem, w2))
      | (Inl err, w1) \<Rightarrow>
          (if isRetriableSubmitErr (status_FromError api) (Some err)
           then ([Some err], Some (t\<lparr>attempts := wrap64 (attempts t + 1)\<rparr> # ts), w1)
           else (let (os, rem, w2) = flush_batch api c ts w1 in (Some err # os, rem, w2))))"

text \<open>The loop of \<^verbatim>\<open>flushSpoolOnce\<close>; errors of \<^verbatim>\<open>ack\<close> are ignored, as in the source.\<close>

fun flush_spooled ::
    "'w sched_api \<Rightarrow> fs_faults \<Rightarrow> Client \<Rightarrow> spoolTask list \<Rightarrow> submitSpool \<times> disk \<Rightarrow> 'w \<Rightarrow>
     go_error option list \<times> (submitSpool \<times> disk) \<times> 'w" where
  "flush_spooled api ft c [] sd w = ([], sd, w)"
| "flush_spooled api ft c (t # ts) sd w =
     (case SubmitTask api c (Some (SubmitTimeout (cfg c))) (st_Opts t) w of
        (Inr _, w1) \<Rightarrow>
          (let (os, sd', w2) = flush_spooled api ft c ts (fst (submitSpool_ack ft (st_Seq t) sd)) w1
           in (None # os, sd', w2))
      | (Inl err, w1) \<Rightarrow>
          (if isRetriableSubmitErr (status_FromError api) (Some err) then ([Some err], sd, w1)
           else (let (os, sd', w2) = flush_spooled api ft c ts (fst (submitSpool_ack ft (st_Seq t) sd)) w1
                 in (Some err # os, sd', w2))))"

definition flushSpoolOnce ::
    "'w sched_api \<Rightarrow> fs_faults \<Rightarrow> Client \<Rightarrow> 'w \<Rightarrow> go_error option list \<times> Client \<times> 'w" where
  "flushSpoolOnce api ft c w =
     (case localSpool c of
        None \<Rightarrow> ([], c, w)
      | Some s \<Rightarrow>
          if \<not> schedCli c then ([], c, w)
          else case submitSpool_drain (json_Unmarshal api) ft (LocalBufferRetryBatch (cfg c))
                      (s, spool_disk c) of
                 Inl e \<Rightarrow> ([], c, w)
               | Inr batch \<Rightarrow>
                   if batch = [] then ([], c, w)
                   else let (os, (s', d'), w') = flush_spooled api ft c batch (s, spool_disk c) w
                        in (os, c\<lparr>localSpool := Some s', spool_disk := d'\<rparr>, w'))"

text \<open>
  \<^verbatim>\<open>flushBufferOnce\<close>; the outcome lists of the memory batch and of the spool batch come first.
  The source runs it only after the client was created with a buffer.
\<close>

definition flushBufferOnce ::
    "'w sched_api \<Rightarrow> fs_faults \<Rightarrow> Client \<Rightarrow> 'w \<Rightarrow>
     (go_error option list \<times> go_error option list) \<times> Client \<times> 'w" where
  "flushBufferOnce api ft c w =
     (case localBuffer c of
        None \<Rightarrow> (([], []), c, w)
      | Some b \<Rightarrow>
          if \<not> schedCli c then (([], []), c, w)
          else
            (let (batch, b1) = submitBuffer_drain (LocalBufferRetryBatch (cfg c)) b;
                 c1 = c\<lparr>localBuffer := Some b1\<rparr>
             in if batch = [] then
                  (let (os, c2, w2) = flushSpoolOnce api ft c1 w in (([], os), c2, w2))
                else
                  (case flush_batch api c1 batch w of
                     (os, Some remain, w1) \<Rightarrow>
                       ((os, []), c1\<lparr>localBuffer := Some (submitBuffer_putBack remain b1)\<rparr>, w1)
                   | (os, None, w1) \<Rightarrow>
                       (let (os2, c2, w2) = flushSpoolOnce api ft c1 w1 in ((os, os2), c2, w2)))))"

subsection \<open>Facts about single calls\<close>

lemma SubmitTask_error:
  assumes "SubmitTask api c ctx o' w = (Inl err, w')"
  shows "(err = ErrSubmitNotConnected \<and> \<not> schedCli c \<and> w' = w) \<or>
    (err = ErrNew ''scheduler: SubmitOptions.JobName required'' \<and> JobName o' = '''' \<and> w' = w) \<or>
    (\<exists>e. err = ErrWrap ''submit task'' e \<and> schedCli c \<and> JobName o' \<noteq> '''')"
  using assms by (auto simp: SubmitTask_def Let_def split: if_splits prod.splits sum.splits)

lemma SubmitTask_not_full: "fst (SubmitTask api c ctx o' w) \<noteq> Inl ErrLocalBufferFull"
  using SubmitTask_error [of api c ctx o' w ErrLocalBufferFull "snd (SubmitTask api c ctx o' w)"]
  by (cases "SubmitTask api c ctx o' w") auto

text \<open>What the client keeps: a good buffer, and a good spool on its directory.\<close>

definition client_ok :: "Client \<Rightarrow> bool" where
  "client_ok c \<longleftrightarrow>
     (\<forall>b. localBuffer c = Some b \<longrightarrow> buffer_inv b) \<and>
     (\<forall>s. localSpool c = Some s \<longrightarrow> spool_good (s, spool_disk c))"

definition client_ready :: "Client \<Rightarrow> bool" where
  "client_ready c \<longleftrightarrow> (\<forall>s. localSpool c = Some s \<longrightarrow> spool_ready (s, spool_disk c))"

lemma enqueueBufferedTask_keeps:
  assumes "client_ok c" and "client_ready c"
  shows "client_ok (fst (enqueueBufferedTask api ft t c))"
proof (cases "localBuffer c")
  case None
  with assms(1) show ?thesis by (simp add: enqueueBufferedTask_def)
next
  case (Some b)
  have bi: "buffer_inv (fst (submitBuffer_push t b))"
    using assms(1) Some by (auto simp: client_ok_def)
  have "spool_good (fst (submitSpool_push (json_Marshal api) ft t (s, spool_disk c)))"
    if "localSpool c = Some s" for s
    using that assms spool_push_keeps(1,2) [of "(s, spool_disk c)"]
    by (metis client_ok_def client_ready_def prod.collapse spool_good_def)
  with bi assms(1) Some show ?thesis
    by (auto simp: enqueueBufferedTask_def client_ok_def split: prod.splits option.splits)
qed

text \<open>The queue gains exactly the task it accepts, in memory when there is room and else on disk.\<close>

definition accepted_by :: "'w sched_api \<Rightarrow> bufferedTask \<Rightarrow> Client \<Rightarrow> Client \<Rightarrow> bool" where
  "accepted_by api t c c' \<longleftrightarrow>
     (\<exists>b. localBuffer c = Some b \<and>
        (submitBuffer_Len b < buf_cap b \<and>
           (\<exists>b'. queue b' = queue b @ [t] \<and> c' = c\<lparr>localBuffer := Some b'\<rparr>) \<or>
         submitBuffer_Len b \<ge> buf_cap b \<and>
           (\<exists>s s' d' n x. localSpool c = Some s \<and> c' = c\<lparr>localSpool := Some s', spool_disk := d'\<rparr> \<and>
              spool_items (s', d') = drop n (spool_items (s, spool_disk c)) @ [x] \<and>
              stored (json_Marshal api) x t)))"

lemma enqueueBufferedTask_accepts:
  assumes "client_ok c" and "client_ready c" and e: "enqueueBufferedTask api ft t c = (c', True)"
  shows "accepted_by api t c c'"
proof -
  obtain b where b: "localBuffer c = Some b"
    using e by (cases "localBuffer c") (auto simp: enqueueBufferedTask_def)
  obtain b' ok where p: "submitBuffer_push t b = (b', ok)" by (cases "submitBuffer_push t b")
  have acc: "ok \<longleftrightarrow> submitBuffer_Len b < buf_cap b" using push_accepted_iff [of t b] p by simp
  show ?thesis
  proof (cases ok)
    case True
    then have "c' = c\<lparr>localBuffer := Some b'\<rparr>" using e b p by (simp add: enqueueBufferedTask_def)
    moreover have "queue b' = queue b @ [t]" using push_queue [OF p] True by simp
    ultimately show ?thesis using b True acc unfolding accepted_by_def by blast
  next
    case False
    then obtain s s' d' where s: "localSpool c = Some s"
        "submitSpool_push (json_Marshal api) ft t (s, spool_disk c) = ((s', d'), None)"
        "c' = c\<lparr>localSpool := Some s', spool_disk := d'\<rparr>"
      using e b p by (auto simp: enqueueBufferedTask_def split: option.splits prod.splits)
    have "spool_inv (s, spool_disk c)" "spool_ready (s, spool_disk c)"
      using assms(1,2) s(1) by (auto simp: client_ok_def client_ready_def spool_good_def)
    with s(2) obtain n x where "spool_items (s', d') = drop n (spool_items (s, spool_disk c)) @ [x]"
        "stored (json_Marshal api) x t" using spool_push_keeps(3) by blast
    moreover have "submitBuffer_Len b \<ge> buf_cap b" using False acc by simp
    ultimately show ?thesis using s(1,3) b unfolding accepted_by_def by blast
  qed
qed

lemma enqueueBufferedTask_rejects:
  assumes "enqueueBufferedTask api ft t c = (c', False)" and "localBuffer c = Some b"
  shows "submitBuffer_Len b \<ge> buf_cap b \<and> localBuffer c' = localBuffer c \<and> cfg c' = cfg c \<and>
    schedCli c' = schedCli c \<and> (localSpool c = None \<longrightarrow> c' = c)"
  using assms by (auto simp: enqueueBufferedTask_def submitBuffer_push_def submitBuffer_Len_def
      split: if_splits option.splits prod.splits)

lemma enqueue_now_outcome:
  assumes "client_ok c" and "client_ready c" and "localBuffer c = Some b"
    and "enqueue_now api ft o' c w = (r, c', w')"
  shows "client_ok c' \<and>
    (r = Inr True \<and> (\<exists>t. opts t = o' \<and> attempts t = 0 \<and> accepted_by api t c c') \<or>
     r = Inl ErrLocalBufferFull \<and> localBuffer c' = localBuffer c \<and>
       BufferedCount c \<ge> buf_cap (the (localBuffer c)))"
proof -
  let ?t = "\<lparr>opts = o', enqueuedAt = fst (time_Now api w), attempts = 0\<rparr>"
  obtain ok where e: "enqueueBufferedTask api ft ?t c = (c', ok)"
      "r = (if \<not> ok then Inl ErrLocalBufferFull else Inr True)"
    using assms(4) by (auto simp: enqueue_now_def split: prod.splits)
  have k: "client_ok c'" using enqueueBufferedTask_keeps [OF assms(1,2)] e(1) by (metis fst_conv)
  show ?thesis
  proof (cases ok)
    case True
    then have "accepted_by api ?t c c'" using enqueueBufferedTask_accepts [OF assms(1,2)] e(1) by simp
    then show ?thesis using k e(2) True by (auto intro!: exI [of _ ?t])
  next
    case False
    then show ?thesis using k e enqueueBufferedTask_rejects [OF _ assms(3)]
      by (auto simp: BufferedCount_def assms(3))
  qed
qed

subsection \<open>The flush loops\<close>

definition settled :: "'w sched_api \<Rightarrow> go_error option \<Rightarrow> bool" where
  "settled api oc \<longleftrightarrow> \<not> isRetriableSubmitErr (status_FromError api) oc"

lemma settled_None [simp]: "settled api None"
  by (simp add: settled_def)

text \<open>
  The batch is attempted in order.  Either every task was settled (delivered, or refused for good),
  or a retriable failure at position \<open>k\<close> stopped the loop and everything from there on comes back.
\<close>

lemma flush_batch_spec:
  "flush_batch api c ts w = (os, rem, w') \<Longrightarrow>
     (rem = None \<longrightarrow> length os = length ts \<and> list_all (settled api) os) \<and>
     (\<forall>rs. rem = Some rs \<longrightarrow>
        (\<exists>k t. k < length ts \<and> length os = Suc k \<and> list_all (settled api) (take k os) \<and>
           \<not> settled api (os ! k) \<and> t = ts ! k \<and>
           rs = t\<lparr>attempts := wrap64 (attempts t + 1)\<rparr> # drop (Suc k) ts))"
proof (induction ts arbitrary: w os rem w')
  case (Cons t ts)
  obtain r w1 where st: "SubmitTask api c (Some (SubmitTimeout (cfg c))) (opts t) w = (r, w1)"
    by (metis surj_pair)
  obtain os1 rem1 w2 where rest: "flush_batch api c ts w1 = (os1, rem1, w2)" by (metis prod_cases3)
  note IH = Cons.IH [OF rest]
  show ?case
  proof (cases "\<exists>err. r = Inl err \<and> isRetriableSubmitErr (status_FromError api) (Some err)")
    case True
    then show ?thesis using Cons.prems st by (auto simp: settled_def)
  next
    case False
    define oc where "oc = (case r of Inl err \<Rightarrow> Some err | Inr _ \<Rightarrow> None)"
    have s: "settled api oc" using False by (auto simp: settled_def oc_def split: sum.split)
    have res: "os = oc # os1" "rem = rem1" "w' = w2"
      using Cons.prems st rest False by (auto simp: oc_def split: sum.splits)
    show ?thesis
    proof (cases rem1)
      case None
      then show ?thesis using IH res s by simp
    next
      case (Some rs)
      then obtain k where k: "k < length ts" "length os1 = Suc k" "list_all (settled api) (take k os1)"
           "\<not> settled api (os1 ! k)"
           "rs = (ts ! k)\<lparr>attempts := wrap64 (attempts (ts ! k) + 1)\<rparr> # drop (Suc k) ts"
        using IH by blast
      then show ?thesis using res s Some by (intro conjI allI impI exI [of _ "Suc k"]) auto
    qed
  qed
qed simp

lemma spool_ack_items:
  assumes "spool_good (s, d)" and "submitSpool_ack ft sq (s, d) = ((s', d'), e)"
  shows "spool_items (s', d') = (if e = None then filter (\<lambda>x. fst x \<noteq> sq) (spool_items (s, d))
                                 else spool_items (s, d))"
proof -
  note K = spool_ack_keeps [OF assms]
  have "map (file_item d') (files s') = map (file_item d) (files s')"
    using K(4) by (auto simp: file_item_def file_content_def)
  then show ?thesis using K(3)
    by (auto simp: spool_items_def filter_map comp_def file_item_def)
qed

lemma spool_ack_ok:
  assumes "spool_good (s, d)" and "submitSpool_ack ft sq (s, d) = ((s', d'), e)"
    and "\<And>k. \<not> remove_fails ft k"
  shows "e = None"
proof -
  have "ack_files ft sq fs cur d = (fs', cur', d'', e') \<Longrightarrow> e' = None" for fs cur fs' cur' d'' e'
    by (induction fs arbitrary: fs') (auto simp: os_remove_def assms(3) Let_def split: if_splits prod.splits)
  then show ?thesis using assms(2) by (auto simp: submitSpool_ack_def split: prod.splits)
qed

text \<open>
  Replaying spooled tasks removes only tasks that were settled; when files can be removed it
  removes all of those.
\<close>

lemma flush_spooled_spec:
  "flush_spooled api ft c sts sd w = (os, sd', w') \<Longrightarrow> spool_good sd \<Longrightarrow>
     spool_good sd' \<and>
     (\<exists>k S. k \<le> length sts \<and> list_all (settled api) (take k os) \<and>
        (length os = k \<and> k = length sts \<or> length os = Suc k \<and> k < length sts \<and> \<not> settled api (os ! k)) \<and>
        S \<subseteq> st_Seq ` set (take k sts) \<and>
        ((\<forall>p. \<not> remove_fails ft p) \<longrightarrow> S = st_Seq ` set (take k sts)) \<and>
        spool_items sd' = filter (\<lambda>x. fst x \<notin> S) (spool_items sd))"
proof (induction sts arbitrary: sd w os sd' w')
  case Nil
  then show ?case by (auto intro!: exI [of _ "{}"])
next
  case (Cons t ts)
  obtain r w1 where st: "SubmitTask api c (Some (SubmitTimeout (cfg c))) (st_Opts t) w = (r, w1)"
    by (metis surj_pair)
  show ?case
  proof (cases "\<exists>err. r = Inl err \<and> isRetriableSubmitErr (status_FromError api) (Some err)")
    case True
    then have "sd' = sd" "\<exists>err. os = [Some err] \<and> \<not> settled api (Some err)"
      using Cons.prems(1) st by (auto simp: settled_def)
    then show ?thesis using Cons.prems(2)
      by (intro conjI exI [of _ 0] exI [of _ "{}"]) auto
  next
    case False
    define oc where "oc = (case r of Inl err \<Rightarrow> Some err | Inr _ \<Rightarrow> None)"
    have so: "settled api oc" using False by (auto simp: settled_def oc_def split: sum.split)
    obtain s d where sd: "sd = (s, d)" by (cases sd)
    obtain s1 d1 e where a: "submitSpool_ack ft (st_Seq t) (s, d) = ((s1, d1), e)" by (metis surj_pair)
    have good1: "spool_good (s1, d1)" using spool_ack_keeps(1) [OF _ a] Cons.prems(2) sd by simp
    obtain os1 sd2 w2 where rest: "flush_spooled api ft c ts (s1, d1) w1 = (os1, sd2, w2)"
      by (metis prod_cases3)
    have res: "os = oc # os1" "sd' = sd2"
      using Cons.prems(1) st rest False a sd by (auto simp: oc_def split: sum.splits)
    obtain k S where k: "k \<le> length ts" "list_all (settled api) (take k os1)"
        "length os1 = k \<and> k = length ts \<or> length os1 = Suc k \<and> k < length ts \<and> \<not> settled api (os1 ! k)"
        "S \<subseteq> st_Seq ` set (take k ts)"
        "(\<forall>p. \<not> remove_fails ft p) \<longrightarrow> S = st_Seq ` set (take k ts)"
        "spool_items sd2 = filter (\<lambda>x. fst x \<notin> S) (spool_items (s1, d1))" "spool_good sd2"
      using Cons.IH [OF rest good1] by blast
    let ?S = "if e = None then insert (st_Seq t) S else S"
    have "spool_items sd2 = filter (\<lambda>x. fst x \<notin> ?S) (spool_items sd)"
      using k(6) spool_ack_items [OF _ a] Cons.prems(2) sd by (auto intro!: filter_cong)
    moreover have "(\<forall>p. \<not> remove_fails ft p) \<longrightarrow> e = None"
      using spool_ack_ok [OF _ a] Cons.prems(2) sd by blast
    ultimately show ?thesis using k res so
      by (intro conjI exI [of _ "Suc k"] exI [of _ ?S]) auto
  qed
qed

lemma flushSpoolOnce_keeps:
  assumes "client_ok c" and "flushSpoolOnce api ft c w = (os, c', w')"
  shows "client_ok c' \<and> cfg c' = cfg c \<and> schedCli c' = schedCli c \<and> localBuffer c' = localBuffer c"
proof (cases "c' = c")
  case False
  then obtain s batch s' d' where s: "localSpool c = Some s"
      "flush_spooled api ft c batch (s, spool_disk c) w = (os, (s', d'), w')"
      "c' = c\<lparr>localSpool := Some s', spool_disk := d'\<rparr>"
    using assms(2) by (auto simp: flushSpoolOnce_def split: option.splits sum.splits if_splits prod.splits)
  have "spool_good (s', d')" using flush_spooled_spec [OF s(2)] assms(1) s(1) by (auto simp: client_ok_def)
  then show ?thesis using assms(1) s(3) by (auto simp: client_ok_def)
qed (use assms in simp)

text \<open>One round of the memory queue: the round in terms of its batch.\<close>

lemma flushBufferOnce_cases:
  assumes f: "flushBufferOnce api ft c w = ((os, os2), c', w')"
    and b: "localBuffer c = Some b" and s: "schedCli c"
  obtains (all) batch b1 w1 where "submitBuffer_drain (LocalBufferRetryBatch (cfg c)) b = (batch, b1)"
      "flush_batch api (c\<lparr>localBuffer := Some b1\<rparr>) batch w = (os, None, w1)"
      "flushSpoolOnce api ft (c\<lparr>localBuffer := Some b1\<rparr>) w1 = (os2, c', w')"
  | (stop) batch b1 rs where "submitBuffer_drain (LocalBufferRetryBatch (cfg c)) b = (batch, b1)"
      "flush_batch api (c\<lparr>localBuffer := Some b1\<rparr>) batch w = (os, Some rs, w')"
      "c' = c\<lparr>localBuffer := Some (submitBuffer_putBack rs b1)\<rparr>" "os2 = []"
proof -
  obtain batch b1 where d: "submitBuffer_drain (LocalBufferRetryBatch (cfg c)) b = (batch, b1)"
    by (metis surj_pair)
  let ?c1 = "c\<lparr>localBuffer := Some b1\<rparr>"
  obtain os' rem w1 where fb: "flush_batch api ?c1 batch w = (os', rem, w1)" by (metis prod_cases3)
  show thesis
  proof (cases rem)
    case (Some rs)
    then have "batch \<noteq> []" using fb by auto
    then have "c' = ?c1\<lparr>localBuffer := Some (submitBuffer_putBack rs b1)\<rparr>" "os2 = []" "os' = os" "w1 = w'"
      using f b s d fb Some by (auto simp: flushBufferOnce_def)
    with Some fb d show thesis by (intro stop) auto
  next
    case None
    have "os' = os \<and> flushSpoolOnce api ft ?c1 w1 = (os2, c', w')"
      using f b s d fb None by (cases "batch = []") (auto simp: flushBufferOnce_def split: prod.splits)
    with None fb d show thesis by (intro all) auto
  qed
qed

subsection \<open>Properties\<close>

text \<open>A scripted scheduler for the witnesses: each submission consumes one scripted outcome.\<close>

definition demo_from_error :: status_from_error where
  "demo_from_error e = (case carries_status e of Some c \<Rightarrow> (c, True) | None \<Rightarrow> (Unknown, False))"

lemma demo_from_error_ok [simp]: "grpc_from_error demo_from_error"
  by (auto simp: grpc_from_error_def demo_from_error_def split: option.split)

definition demo_api :: "go_error option list sched_api" where
  "demo_api = \<lparr>
     rpc_SubmitTask = (\<lambda>ctx rq w. case w of
         Some e # w' \<Rightarrow> (Inl e, w')
       | _ \<Rightarrow> (Inr \<lparr>RunId = ''r-1'', Dedup = False\<rparr>, tl w)),
     rpc_GetRun = (\<lambda>ctx r w. (Inr r, w)),
     rpc_GetJob = (\<lambda>ctx n w. (Inl (ErrStatus NotFound ''no such job''), w)),
     rpc_CreateJob = (\<lambda>ctx j w. (Inr j, w)),
     rpc_CancelRun = (\<lambda>ctx r x w. (Inr \<lparr>cr_Ok = True, cr_Error = ''''\<rparr>, w)),
     time_Now = (\<lambda>w. (7, w)), rand_Read = (\<lambda>w. (Some [1, 2, 3, 4, 5, 6, 7, 8], w)),
     hmac_sha256 = (\<lambda>k m. []), status_FromError = demo_from_error,
     json_Marshal = demo_marshal, json_Unmarshal = demo_unmarshal\<rparr>"

definition demo_config :: Config where
  "demo_config = applyDefaults (Some ''host'') 42
     \<lparr>Endpoint = ''sched:9000'', AppName = ''app'', AppKey = ''key'', AppSecret = ''secret'',
      WorkerID = '''', InstanceID = '''', IP = '''', SDKVersion = '''', MaxConcurrency = 0,
      DialTimeout = 0, HeartbeatInterval = 0, ReconnectMinBackoff = 0, ReconnectMaxBackoff = 0,
      SubmitTimeout = 0, MaxRecvMsgSizeMB = 0, MaxSendMsgSizeMB = 0, LocalBufferEnabled = True,
      LocalBufferCapacity = 2, LocalBufferRetryInterval = 0, LocalBufferRetryBatch = 0,
      LocalBufferDiskSpillEnabled = True, LocalBufferDiskSpillDir = ''/spool'',
      LocalBufferDiskSpillMaxBytes = 20\<rparr>"

definition demo_client :: "bufferedTask list \<Rightarrow> Client" where
  "demo_client q = \<lparr>cfg = demo_config, schedCli = True,
     localBuffer = Some \<lparr>buf_cap = 2, queue = q, notify = False\<rparr>,
     localSpool = Some demo_spool, spool_disk = []\<rparr>"

lemma demo_client_ok [simp]: "length q \<le> 2 \<Longrightarrow> client_ok (demo_client q) \<and> client_ready (demo_client q)"
  using demo_spool_good by (simp add: client_ok_def client_ready_def demo_client_def buffer_inv_def)

lemma demo_submit:
  "SubmitTask demo_api (demo_client q) ctx demo_opts (Some e # w) = (Inl (ErrWrap ''submit task'' e), w)"
  "SubmitTask demo_api (demo_client q) ctx demo_opts (None # w) = (Inr (''r-1'', False), w)"
  by (simp_all add: SubmitTask_def demo_api_def demo_client_def demo_opts_def)

text \<open>
  C5. The outcomes of \<^verbatim>\<open>EnqueueTask\<close>.  Success without queueing means that the scheduler took the
  task and the client is unchanged; success with queueing means exactly this task was appended, to
  the memory queue when it has room and else to the spool; \<^verbatim>\<open>ErrLocalBufferFull\<close> means the memory
  queue is at its capacity and keeps its contents; any other error leaves the client unchanged and
  says that the buffer is disabled, that the job name is missing, or is the non-retriable error the
  submission ended with.
\<close>

theorem enqueue_outcomes:
  assumes "EnqueueTask api ft ctx o' c w = (r, c', w')" and "client_ok c" and "client_ready c"
  shows "client_ok c' \<and>
    (case r of
       Inr False \<Rightarrow> c' = c \<and> (\<exists>x. SubmitTask api c ctx o' w = (Inr x, w'))
     | Inr True \<Rightarrow> \<exists>t. opts t = o' \<and> attempts t = 0 \<and> accepted_by api t c c'
     | Inl e \<Rightarrow>
         if e = ErrLocalBufferFull
         then localBuffer c' = localBuffer c \<and> BufferedCount c \<ge> buf_cap (the (localBuffer c))
         else c' = c \<and>
              (if \<not> LocalBufferEnabled (cfg c) \<or> localBuffer c = None then e = ErrLocalBufferDisabled
               else if JobName o' = '''' then e = ErrNew ''scheduler: SubmitOptions.JobName required''
               else SubmitTask api c ctx o' w = (Inl e, w') \<and>
                    \<not> isRetriableSubmitErr (status_FromError api) (Some e)))"
proof -
  note E = assms(1) [unfolded EnqueueTask_def]
  show ?thesis
  proof (cases "\<not> LocalBufferEnabled (cfg c) \<or> localBuffer c = None \<or> JobName o' = ''''")
    case True
    then show ?thesis using E assms(2) by (auto split: if_splits)
  next
    case False
    then obtain b where b: "localBuffer c = Some b" "JobName o' \<noteq> ''''" "LocalBufferEnabled (cfg c)" by auto
    show ?thesis
    proof (cases "enqueue_now api ft o' c w = (r, c', w') \<and> \<not> schedCli c")
      case True
      then show ?thesis using enqueue_now_outcome [OF assms(2,3) b(1), of api ft o' w] by auto
    next
      case False
      then have conn: "schedCli c" using E b by (cases "schedCli c") auto
      obtain sr w1 where st: "SubmitTask api c ctx o' w = (sr, w1)" by (metis surj_pair)
      show ?thesis
      proof (cases "\<exists>err. sr = Inl err \<and> isRetriableSubmitErr (status_FromError api) (Some err)")
        case True
        then have "enqueue_now api ft o' c w1 = (r, c', w')" using E b conn st by auto
        then show ?thesis using enqueue_now_outcome [OF assms(2,3) b(1), of api ft o' w1] by auto
      next
        case False
        then show ?thesis using E b conn st assms(2) SubmitTask_not_full [of api c ctx o' w]
          by (auto split: sum.splits if_splits)
      qed
    qed
  qed
qed

theorem enqueue_outcomes_witness:
  "EnqueueTask demo_api no_faults None demo_opts (demo_client []) [Some (ErrStatus Unavailable ''down'')] =
     (Inr True, (demo_client []) \<lparr>localBuffer := Some \<lparr>buf_cap = 2, queue = [demo_task], notify = True\<rparr>\<rparr>, []) \<and>
   (\<exists>t. opts t = demo_opts \<and> attempts t = 0 \<and>
      accepted_by demo_api t (demo_client [])
        ((demo_client []) \<lparr>localBuffer := Some \<lparr>buf_cap = 2, queue = [demo_task], notify = True\<rparr>\<rparr>))"
proof -
  let ?c' = "(demo_client []) \<lparr>localBuffer := Some \<lparr>buf_cap = 2, queue = [demo_task], notify = True\<rparr>\<rparr>"
  have e: "EnqueueTask demo_api no_faults None demo_opts (demo_client []) [Some (ErrStatus Unavailable ''down'')] =
     (Inr True, ?c', [])"
    unfolding EnqueueTask_def demo_submit
    by (simp add: enqueue_now_def demo_client_def demo_config_def demo_opts_def demo_api_def isRetriableSubmitErr_def
        demo_from_error_def enqueueBufferedTask_def submitBuffer_push_def demo_task_def Let_def)
  show ?thesis using enqueue_outcomes [OF e] e by simp
qed




definition demo_disk2 :: disk where
  "demo_disk2 = [(spool_name 6, File ''aaaaaabaaaaaaa'')]"

lemma demo_spool2_good: "spool_good (demo_spool2, demo_disk2)"
proof -
  let ?p = "\<lambda>sd. fst (submitSpool_push demo_marshal no_faults demo_task sd)"
  have keep: "spool_good (?p sd)" if "spool_good sd" "spool_ready sd" for sd
    using spool_push_keeps(1,2) [OF _ that(2)] that(1) unfolding spool_good_def by (metis prod.collapse)
  have 1: "spool_good (?p (demo_spool, []))" by (rule keep) simp_all
  have "spool_ready (?p (demo_spool, []))" by (simp add: demo_push1 spool_ready_def)
  from keep [OF 1 this] show ?thesis by (simp add: demo_push1 demo_push2 demo_disk2_def)
qed

definition demo_spill_client :: Client where
  "demo_spill_client = (demo_client [])\<lparr>localSpool := Some demo_spool2, spool_disk := demo_disk2\<rparr>"

lemma demo_spill_client_ok:
  "client_ok demo_spill_client" "schedCli demo_spill_client"
  "localSpool demo_spill_client = Some demo_spool2" "spool_disk demo_spill_client = demo_disk2"
  using demo_spool2_good
  by (simp_all add: client_ok_def demo_spill_client_def demo_client_def buffer_inv_def)




text \<open>
  \<^verbatim>\<open>EnsureJob\<close> creates a job only when the scheduler says that it does not exist, fills in a
  missing application name before creating it, and reports a job created concurrently by another
  instance as already existing; every other error of either call is returned wrapped.
\<close>

theorem ensure_job_outcomes:
  assumes "grpc_from_error (status_FromError api)" and "schedCli c" and "job_JobName j \<noteq> ''''"
    and "rpc_GetJob api (default_timeout c ctx) (job_JobName j) w = (g, w1)"
    and "rpc_CreateJob api (default_timeout c ctx)
           (j\<lparr>job_AppName := if job_AppName j = '''' then AppName (cfg c) else job_AppName j\<rparr>) w1 = (cr, w2)"
  shows "EnsureJob api c ctx (Some j) w =
    (case g of
       Inr _ \<Rightarrow> (Inr False, Some j, w1)
     | Inl e \<Rightarrow>
         if carries_status e \<noteq> Some NotFound
         then (Inl (ErrWrap (''get job '' @ job_JobName j) e), Some j, w1)
         else (case cr of
                 Inr _ \<Rightarrow> Inr True
               | Inl e2 \<Rightarrow> if carries_status e2 = Some AlreadyExists then Inr False
                           else Inl (ErrWrap (''create job '' @ job_JobName j) e2),
               Some (j\<lparr>job_AppName := if job_AppName j = '''' then AppName (cfg c) else job_AppName j\<rparr>),
               w2))"
proof -
  note nf = isNotFoundErr_iff [OF assms(1)] and ae = isAlreadyExistsErr_iff [OF assms(1)]
    and gs = grpcStatus_NotFound [OF assms(1)]
  have j': "(if job_AppName j = '''' then j\<lparr>job_AppName := AppName (cfg c)\<rparr> else j) =
      j\<lparr>job_AppName := if job_AppName j = '''' then AppName (cfg c) else job_AppName j\<rparr>" by simp
  show ?thesis
  proof (cases g)
    case (Inr x)
    then show ?thesis using assms by (simp add: EnsureJob_def)
  next
    case (Inl e)
    have "EnsureJob api c ctx (Some j) w =
      (if carries_status e \<noteq> Some NotFound
         then (Inl (ErrWrap (''get job '' @ job_JobName j) e), Some j, w1)
         else case cr of Inr _ \<Rightarrow> (Inr True, Some (j\<lparr>job_AppName := if job_AppName j = '''' then AppName (cfg c) else job_AppName j\<rparr>), w2)
           | Inl e2 \<Rightarrow> (if carries_status e2 = Some AlreadyExists then Inr False
                       else Inl (ErrWrap (''create job '' @ job_JobName j) e2),
                       Some (j\<lparr>job_AppName := if job_AppName j = '''' then AppName (cfg c) else job_AppName j\<rparr>), w2))"
      using assms(2-5) Inl gs [of e]
      by (auto simp: EnsureJob_def nf ae j' Let_def split: prod.splits sum.splits if_splits)
    then show ?thesis using Inl by (simp split: sum.split)
  qed
qed

theorem ensure_job_outcomes_witness:
  "EnsureJob demo_api (demo_client []) None (Some \<lparr>job_JobName = ''sync'', job_AppName = '''', job_rest = ''''\<rparr>) [] =
     (Inr True, Some \<lparr>job_JobName = ''sync'', job_AppName = ''app'', job_rest = ''''\<rparr>, [])"
proof -
  have "status_FromError demo_api = demo_from_error" by (simp add: demo_api_def)
  then show ?thesis
    using ensure_job_outcomes [of demo_api "demo_client []"
        "\<lparr>job_JobName = ''sync'', job_AppName = '''', job_rest = ''''\<rparr>" None "[]"
        "Inl (ErrStatus NotFound ''no such job'')" "[]"
        "Inr \<lparr>job_JobName = ''sync'', job_AppName = ''app'', job_rest = ''''\<rparr>" "[]"]
    by (simp add: demo_api_def demo_client_def demo_config_def)
qed

end
