(* ===== verification/RetryLoop.thy ===== *)
theory RetryLoop
  imports SubmitClient
begin

text \<open>
  The retry loop of the scheduler SDK as a transition system (\<^verbatim>\<open>runBufferRetryLoop\<close> of
  \<^verbatim>\<open>src/pkg/scheduler/submit_buffer.go\<close>).  Application goroutines push into the memory queue at any
  moment, also between the \<^verbatim>\<open>drain\<close> of a flush round and its \<^verbatim>\<open>putBack\<close>; every critical section of
  the queue's mutex and every submission is one step.  Two ghost fields record history: the accepted
  tasks and those that left the system, each with the way it left.  The invariant says that the
  history is always the departed tasks followed by the pending ones in acceptance order, and that
  the queue never exceeds its capacity; a refinement lemma shows that \<open>flushBufferOnce\<close> of theory
  \<open>SubmitClient\<close> is a run of this system.
\<close>

datatype departure = Settled | Lost

record retry_sys =
  buf :: submitBuffer
  inflight :: "bufferedTask list option"
  accepted :: "SubmitOptions list"
  gone :: "(SubmitOptions \<times> departure) list"

definition retry_init :: "int \<Rightarrow> retry_sys" where
  "retry_init cap = \<lparr>buf = newSubmitBuffer cap, inflight = None, accepted = [], gone = []\<rparr>"

text \<open>\<open>n\<close> is \<^verbatim>\<open>LocalBufferRetryBatch\<close>.\<close>

inductive retry_step :: "int \<Rightarrow> retry_sys \<Rightarrow> retry_sys \<Rightarrow> bool" for n :: int where
  push: "submitBuffer_push t (buf s) = (b', True) \<Longrightarrow>
    retry_step n s (s\<lparr>buf := b', accepted := accepted s @ [opts t]\<rparr>)"
| take_batch: "inflight s = None \<Longrightarrow> submitBuffer_drain n (buf s) = (ts, b') \<Longrightarrow> ts \<noteq> [] \<Longrightarrow>
    retry_step n s (s\<lparr>buf := b', inflight := Some ts\<rparr>)"
| settle: "inflight s = Some (t # ts) \<Longrightarrow>
    retry_step n s (s\<lparr>inflight := Some ts, gone := gone s @ [(opts t, Settled)]\<rparr>)"
| put_back: "inflight s = Some (t # ts) \<Longrightarrow>
    rs = t\<lparr>attempts := wrap64 (attempts t + 1)\<rparr> # ts \<Longrightarrow>
    retry_step n s (s\<lparr>inflight := None, buf := submitBuffer_putBack rs (buf s),
      gone := gone s @ map (\<lambda>x. (opts x, Lost)) (putBack_lost rs (buf s))\<rparr>)"
| finish: "inflight s = Some [] \<Longrightarrow> retry_step n s (s\<lparr>inflight := None\<rparr>)"

inductive_cases retry_stepE: "retry_step n s s'"

definition pending :: "retry_sys \<Rightarrow> SubmitOptions list" where
  "pending s = map opts ((case inflight s of None \<Rightarrow> [] | Some ts \<Rightarrow> ts) @ queue (buf s))"

definition retry_inv :: "int \<Rightarrow> int \<Rightarrow> retry_sys \<Rightarrow> bool" where
  "retry_inv cap n s \<longleftrightarrow>
     buffer_inv (buf s) \<and> buf_cap (buf s) = cap \<and>
     (\<forall>ts. inflight s = Some ts \<longrightarrow> int (length ts) \<le> n) \<and>
     map fst (gone s) @ pending s = accepted s"

lemma retry_init_inv: "0 < cap \<Longrightarrow> retry_inv cap n (retry_init cap)"
  by (simp add: retry_inv_def retry_init_def pending_def new_buffer_inv newSubmitBuffer_def buffer_inv_def)

lemma retry_step_inv:
  assumes "retry_step n s s'" and "retry_inv cap n s" and "0 < n"
  shows "retry_inv cap n s'"
  using assms
proof (cases rule: retry_step.cases)
  case (push t b')
  have "queue b' = queue (buf s) @ [opts_t]" if "opts_t = t" for opts_t
    using push_queue [OF push(2)] that by simp
  moreover have "buffer_inv b'" "buf_cap b' = buf_cap (buf s)"
    using push(2) assms(2) push_buffer_inv [of "buf s" t] buf_cap_simps(2) [of t "buf s"]
    by (auto simp: retry_inv_def)
  ultimately show ?thesis using assms(2) push(1)
    by (auto simp: retry_inv_def pending_def)
next
  case (take_batch ts b')
  have "ts @ queue b' = queue (buf s)" using drain_split [OF take_batch(3)] .
  moreover have "buffer_inv b'" "buf_cap b' = buf_cap (buf s)"
    using take_batch(3) assms(2) drain_buffer_inv [of "buf s" n] buf_cap_simps(3) [of n "buf s"]
    by (auto simp: retry_inv_def)
  moreover have "int (length ts) \<le> n" using drain_bound [OF take_batch(3) assms(3)] .
  ultimately show ?thesis using assms(2) take_batch(1,2)
    by (auto simp: retry_inv_def pending_def simp flip: map_append)
next
  case (settle t ts)
  then show ?thesis using assms(2) by (auto simp: retry_inv_def pending_def)
next
  case (put_back t ts rs)
  have sp: "map opts (putBack_lost rs (buf s)) @ map opts (queue (submitBuffer_putBack rs (buf s))) =
      opts t # map opts ts @ map opts (queue (buf s))"
    using arg_cong [OF putBack_split [of rs "buf s"], of "map opts"] put_back(3) by simp
  have "buffer_inv (submitBuffer_putBack rs (buf s))"
    using assms(2) by (intro putBack_buffer_inv) (auto simp: retry_inv_def buffer_inv_def)
  then show ?thesis using assms(2) put_back(1,2) sp
    by (auto simp: retry_inv_def pending_def comp_def)
next
  case finish
  then show ?thesis using assms(2) by (auto simp: retry_inv_def pending_def)
qed

lemma retry_reachable_inv:
  "(retry_step n)\<^sup>*\<^sup>* s s' \<Longrightarrow> retry_inv cap n s \<Longrightarrow> 0 < n \<Longrightarrow> retry_inv cap n s'"
  by (induction rule: rtranclp_induct) (auto intro: retry_step_inv)

subsection \<open>Losses need an overload\<close>

text \<open>
  Only \<^verbatim>\<open>putBack\<close> loses tasks, and only when pushes accepted during the round have filled the queue
  beyond what the unsettled rest of the batch fits into.
\<close>

lemma lost_needs_overload:
  assumes "retry_step n s s'" and "x \<in> set (gone s') - set (gone s)" and "snd x = Lost"
  shows "\<exists>t ts. inflight s = Some (t # ts) \<and>
           int (length (t # ts) + length (queue (buf s))) > buf_cap (buf s)"
  using assms
proof (cases rule: retry_step.cases)
  case (put_back t ts rs)
  then obtain y where "y \<in> set (putBack_lost rs (buf s))" using assms(2) by auto
  then have "0 < nat (int (length (rs @ queue (buf s))) - buf_cap (buf s))"
    unfolding putBack_lost_def by (cases "nat (int (length (rs @ queue (buf s))) - buf_cap (buf s))")
      (auto split: if_splits)
  then show ?thesis using put_back(2,3) by auto
qed auto

subsection \<open>Refinement: a flush round is a run of the system\<close>

lemma settle_run:
  assumes "inflight s = Some (xs @ ys)"
  shows "(retry_step n)\<^sup>*\<^sup>* s
    (s\<lparr>inflight := Some ys, gone := gone s @ map (\<lambda>x. (opts x, Settled)) xs\<rparr>)"
  using assms
proof (induction xs arbitrary: s)
  case Nil
  have "s\<lparr>inflight := Some ys\<rparr> = s" using Nil by simp
  then show ?case by simp
next
  case (Cons x xs)
  let ?s1 = "s\<lparr>inflight := Some (xs @ ys), gone := gone s @ [(opts x, Settled)]\<rparr>"
  have "retry_step n s ?s1" using settle [of s x "xs @ ys"] Cons.prems by simp
  moreover have "(retry_step n)\<^sup>*\<^sup>* ?s1
      (?s1\<lparr>inflight := Some ys, gone := gone ?s1 @ map (\<lambda>x. (opts x, Settled)) xs\<rparr>)"
    by (rule Cons.IH) simp
  ultimately show ?case by (simp add: converse_rtranclp_into_rtranclp)
qed

lemma flush_is_run:
  assumes fl: "flushBufferOnce api ft c w = ((os, os2), c', w')"
    and b: "localBuffer c = Some b" and sc: "schedCli c" and ok: "client_ok c"
    and s: "buf s = b" "inflight s = None" and n: "n = LocalBufferRetryBatch (cfg c)"
  shows "\<exists>s' b'. (retry_step n)\<^sup>*\<^sup>* s s' \<and> localBuffer c' = Some b' \<and> buf s' = b' \<and>
           inflight s' = None \<and> accepted s' = accepted s"
  using fl b sc
proof (cases rule: flushBufferOnce_cases)
  case (all batch b1 w1)
  have "buffer_inv b1" using ok b all(1) drain_buffer_inv [of b n] by (auto simp: client_ok_def n)
  then have "client_ok (c\<lparr>localBuffer := Some b1\<rparr>)" using ok by (simp add: client_ok_def)
  then have lb: "localBuffer c' = Some b1" using flushSpoolOnce_keeps [OF _ all(3)] by simp
  show ?thesis
  proof (cases "batch = []")
    case True
    then have "b1 = b" using all(1) by (auto simp: submitBuffer_drain_def Let_def split: if_splits)
    then show ?thesis using lb s by (intro exI [of _ s] exI [of _ b1]) simp
  next
    case False
    let ?s1 = "s\<lparr>buf := b1, inflight := Some batch\<rparr>"
    let ?s2 = "?s1\<lparr>inflight := Some [], gone := gone ?s1 @ map (\<lambda>x. (opts x, Settled)) batch\<rparr>"
    have "retry_step n s ?s1" using take_batch [of s n batch b1] all(1) False s n by simp
    moreover have "(retry_step n)\<^sup>*\<^sup>* ?s1 ?s2" using settle_run [of ?s1 batch "[]"] by simp
    moreover have "retry_step n ?s2 (?s2\<lparr>inflight := None\<rparr>)" by (rule finish) simp
    ultimately have "(retry_step n)\<^sup>*\<^sup>* s (?s2\<lparr>inflight := None\<rparr>)"
      by (meson converse_rtranclp_into_rtranclp rtranclp.rtrancl_into_rtrancl)
    then show ?thesis using lb
      by (intro exI [of _ "?s2\<lparr>inflight := None\<rparr>"] exI [of _ b1] conjI) simp_all
  qed
next
  case (stop batch b1 rs)
  obtain k where k: "k < length batch"
      "rs = (batch ! k)\<lparr>attempts := wrap64 (attempts (batch ! k) + 1)\<rparr> # drop (Suc k) batch"
    using flush_batch_spec [OF stop(2)] by blast
  have sp: "batch = take k batch @ batch ! k # drop (Suc k) batch" using id_take_nth_drop [OF k(1)] .
  let ?s1 = "s\<lparr>buf := b1, inflight := Some batch\<rparr>"
  let ?s2 = "?s1\<lparr>inflight := Some (batch ! k # drop (Suc k) batch),
      gone := gone ?s1 @ map (\<lambda>x. (opts x, Settled)) (take k batch)\<rparr>"
  let ?s3 = "?s2\<lparr>inflight := None, buf := submitBuffer_putBack rs (buf ?s2),
      gone := gone ?s2 @ map (\<lambda>x. (opts x, Lost)) (putBack_lost rs (buf ?s2))\<rparr>"
  have "batch \<noteq> []" using k(1) by auto
  then have "retry_step n s ?s1" using take_batch [of s n batch b1] stop(1) s n by simp
  moreover have "(retry_step n)\<^sup>*\<^sup>* ?s1 ?s2" by (rule settle_run) (use sp in simp)
  moreover have "retry_step n ?s2 ?s3" by (rule put_back) (use k(2) in simp_all)
  ultimately have "(retry_step n)\<^sup>*\<^sup>* s ?s3"
    by (meson converse_rtranclp_into_rtranclp rtranclp.rtrancl_into_rtrancl)
  then show ?thesis using stop(3)
    by (intro exI [of _ ?s3] exI [of _ "submitBuffer_putBack rs b1"] conjI) simp_all
qed

subsection \<open>Properties\<close>

text \<open>
  C1. Under every interleaving of pushes with the retry loop the memory queue holds at most its
  capacity, a batch in flight at most \<^verbatim>\<open>LocalBufferRetryBatch\<close> tasks, and the accepted tasks are, in
  acceptance order, first those that left (settled, or lost to the capacity limit) and then those
  pending: no task is duplicated, reordered or dropped unrecorded.
\<close>

theorem retry_history:
  assumes "(retry_step n)\<^sup>*\<^sup>* (retry_init cap) s" and "0 < cap" and "0 < n"
  shows "submitBuffer_Len (buf s) \<le> cap \<and>
    (\<forall>ts. inflight s = Some ts \<longrightarrow> int (length ts) \<le> n) \<and>
    map fst (gone s) @ pending s = accepted s"
proof -
  have "retry_inv cap n s" using retry_reachable_inv [OF assms(1) retry_init_inv] assms(2,3) by blast
  then show ?thesis by (auto simp: retry_inv_def buffer_inv_def submitBuffer_Len_def)
qed

definition demo_run :: retry_sys where
  "demo_run = \<lparr>buf = \<lparr>buf_cap = 1, queue = [demo_task], notify = True\<rparr>, inflight = None,
     accepted = [demo_opts, demo_opts], gone = [(demo_opts, Lost)]\<rparr>"

definition demo_mid :: retry_sys where
  "demo_mid = \<lparr>buf = \<lparr>buf_cap = 1, queue = [demo_task], notify = True\<rparr>, inflight = Some [demo_task],
     accepted = [demo_opts, demo_opts], gone = []\<rparr>"

lemma demo_mid_reachable: "(retry_step 32)\<^sup>*\<^sup>* (retry_init 1) demo_mid"
proof -
  let ?q = "\<lambda>q. \<lparr>buf_cap = 1, queue = q, notify = True\<rparr>"
  let ?s1 = "\<lparr>buf = ?q [demo_task], inflight = None, accepted = [demo_opts], gone = []\<rparr>"
  let ?s2 = "?s1\<lparr>buf := ?q [], inflight := Some [demo_task]\<rparr>"
  have o: "opts demo_task = demo_opts" by (simp add: demo_task_def)
  have "retry_step 32 (retry_init 1) ?s1"
    using push [of demo_task "retry_init 1" "?q [demo_task]" 32]
    by (simp add: retry_init_def newSubmitBuffer_def submitBuffer_push_def o)
  moreover have "retry_step 32 ?s1 ?s2"
    using take_batch [of ?s1 32 "[demo_task]" "?q []"] by (simp add: submitBuffer_drain_def)
  moreover have "retry_step 32 ?s2 demo_mid"
    using push [of demo_task ?s2 "?q [demo_task]" 32] by (simp add: submitBuffer_push_def o demo_mid_def)
  ultimately show ?thesis by (meson converse_rtranclp_into_rtranclp rtranclp.rtrancl_refl)
qed

lemma demo_mid_step: "retry_step 32 demo_mid demo_run"
  using put_back [of demo_mid demo_task "[]" "[demo_task\<lparr>attempts := wrap64 (attempts demo_task + 1)\<rparr>]" 32]
  by (simp add: submitBuffer_putBack_def putBack_lost_def demo_run_def demo_mid_def demo_task_def)

lemma demo_run_reachable: "(retry_step 32)\<^sup>*\<^sup>* (retry_init 1) demo_run"
  using demo_mid_reachable demo_mid_step by (rule rtranclp.rtrancl_into_rtrancl)

theorem retry_history_witness:
  "submitBuffer_Len (buf demo_run) \<le> 1 \<and> map fst (gone demo_run) @ pending demo_run = accepted demo_run"
  using retry_history [OF demo_run_reachable] by simp



text \<open>
  The client's \<^verbatim>\<open>flushBufferOnce\<close> implements the retry system: each round is a run of its steps
  from an idle state on the client's queue to an idle state on the queue the round leaves.
\<close>

theorem flush_refines_retry:
  assumes "flushBufferOnce api ft c w = ((os, os2), c', w')"
    and "localBuffer c = Some b" and "schedCli c" and "client_ok c"
  shows "\<exists>s' b'. (retry_step (LocalBufferRetryBatch (cfg c)))\<^sup>*\<^sup>*
       \<lparr>buf = b, inflight = None, accepted = h, gone = g\<rparr> s' \<and>
     localBuffer c' = Some b' \<and> buf s' = b' \<and> inflight s' = None \<and> accepted s' = h"
  using flush_is_run [OF assms, where s = "\<lparr>buf = b, inflight = None, accepted = h, gone = g\<rparr>"] by simp

theorem flush_refines_retry_witness:
  "\<exists>c' s' b'. (\<exists>x w'. flushBufferOnce demo_api no_faults (demo_client [demo_task]) [None] = (x, c', w')) \<and>
     (retry_step (LocalBufferRetryBatch demo_config))\<^sup>*\<^sup>*
       \<lparr>buf = \<lparr>buf_cap = 2, queue = [demo_task], notify = False\<rparr>, inflight = None,
        accepted = [demo_opts], gone = []\<rparr> s' \<and>
     localBuffer c' = Some b' \<and> buf s' = b'"
proof -
  let ?c = "demo_client [demo_task]"
  obtain os os2 c' w' where f: "flushBufferOnce demo_api no_faults ?c [None] = ((os, os2), c', w')"
    by (metis prod.exhaust)
  have "localBuffer ?c = Some \<lparr>buf_cap = 2, queue = [demo_task], notify = False\<rparr>" "schedCli ?c"
    by (simp_all add: demo_client_def)
  moreover have "cfg ?c = demo_config" by (simp add: demo_client_def)
  ultimately show ?thesis
    using flush_refines_retry [OF f, where h = "[demo_opts]" and g = "[]"] f by auto
qed

end
