(* ===== verification/WorkerSession.thy ===== *)
theory WorkerSession
  imports SchedTypes "HOL-Library.Transitive_Closure_Table"
begin

text \<open>
  The worker half of the scheduler SDK: dispatch, cancellation and results
  (\<^verbatim>\<open>src/pkg/scheduler/executor.go\<close>), the session over the bidirectional stream, its heartbeat and
  the reconnect loop (\<^verbatim>\<open>stream.go\<close>).  The receiving goroutine, the sender, the heartbeat and one
  goroutine per running handler interleave; each of their atomic actions is a step of the relation
  \<open>wstep\<close>.  A Go \<^verbatim>\<open>select\<close> with several ready cases may take any of them, so \<open>sendOrDrop\<close> yields the
  list of possible outcomes; a send on a closed channel is the outcome \<open>SendPanic\<close>.
\<close>

subsection \<open>Messages and results\<close>

datatype RunStatus = RUN_STATUS_SUCCESS | RUN_STATUS_FAILED | RUN_STATUS_TIMEOUT | RUN_STATUS_CANCELED

record Dispatch =
  d_RunId :: string
  d_JobName :: string
  d_BizKey :: string
  d_Payload :: string
  d_TriggerType :: int
  d_RetryCount :: int
  d_RetryMax :: int
  d_ShardIndex :: int
  d_ShardTotal :: int
  d_TimeoutSec :: int
  d_TraceId :: string
  d_SpanId :: string
  d_DispatchedAt :: int

text \<open>The \<^verbatim>\<open>Job\<close> of \<^verbatim>\<open>handler.go\<close> that a handler gets.\<close>

record HandlerJob =
  j_RunID :: string
  j_JobName :: string
  j_BizKey :: string
  j_Payload :: string
  j_TriggerType :: int
  j_RetryCount :: int
  j_RetryMax :: int
  j_ShardIndex :: int
  j_ShardTotal :: int
  j_TimeoutSec :: int
  j_TraceID :: string
  j_SpanID :: string
  j_DispatchedAt :: int

definition dispatch_job :: "Dispatch \<Rightarrow> HandlerJob" where
  "dispatch_job d = \<lparr>j_RunID = d_RunId d, j_JobName = d_JobName d, j_BizKey = d_BizKey d,
     j_Payload = d_Payload d, j_TriggerType = d_TriggerType d, j_RetryCount = d_RetryCount d,
     j_RetryMax = d_RetryMax d, j_ShardIndex = d_ShardIndex d, j_ShardTotal = d_ShardTotal d,
     j_TimeoutSec = d_TimeoutSec d, j_TraceID = d_TraceId d, j_SpanID = d_SpanId d,
     j_DispatchedAt = d_DispatchedAt d\<rparr>"

text \<open>The timeout of the handler's context; \<^const>\<open>None\<close> is a context that is only cancellable.\<close>

definition handler_timeout :: "Dispatch \<Rightarrow> duration option" where
  "handler_timeout d = (if d_TimeoutSec d > 0 then Some (wrap64 (d_TimeoutSec d * second)) else None)"

record JobAck =
  ack_RunId :: string
  Accepted :: bool
  Reason :: string

record JobResult =
  res_RunId :: string
  res_Status :: RunStatus
  res_Output :: string
  res_Error :: string
  DurationMs :: int
  StartedAt :: int
  EndedAt :: int

record Heartbeat =
  hb_WorkerId :: string
  hb_Ts :: int
  hb_Inflight :: int
  hb_UptimeSec :: int

datatype WorkerMessage = Ack JobAck | Result JobResult | HeartbeatMsg Heartbeat

text \<open>What a business handler does: it returns an output and an error, or it panics.\<close>

datatype handler_outcome = Returned string "go_error option" | Panicked string

definition runHandlerSafe :: "string \<Rightarrow> handler_outcome \<Rightarrow> string \<times> go_error option" where
  \<comment> \<open>the first argument is the text of \<^verbatim>\<open>debug.Stack()\<close>\<close>
  "runHandlerSafe stack h =
     (case h of
        Returned output err \<Rightarrow> (output, err)
      | Panicked v \<Rightarrow> ('''', Some (ErrNew (''handler panic: '' @ v @ [CHR 0x0A] @ stack))))"

text \<open>\<^verbatim>\<open>errors.Is\<close> against a sentinel walks the chain of wrapped errors.\<close>

fun errors_is :: "go_error \<Rightarrow> go_error \<Rightarrow> bool" where
  "errors_is (ErrWrap m e) target = (ErrWrap m e = target \<or> errors_is e target)"
| "errors_is e target = (e = target)"

fun error_text :: "go_error \<Rightarrow> string" where
  "error_text ErrLocalBufferDisabled = ''scheduler: local buffer disabled, set Config.LocalBufferEnabled=true''"
| "error_text ErrLocalBufferFull = ''scheduler: local buffer full''"
| "error_text ErrLocalBufferSpillFull = ''scheduler: local buffer spill full''"
| "error_text ErrSubmitNotConnected = ''scheduler: SubmitTask requires Start() first''"
| "error_text ErrAlreadyStarted = ''scheduler: client already started''"
| "error_text ErrNotStarted = ''scheduler: client not started''"
| "error_text (ErrNew m) = m"
| "error_text (ErrWrap m e) = m @ '': '' @ error_text e"
| "error_text (ErrStatus c m) = ''rpc error: code = '' @ code_string c @ '' desc = '' @ m"
| "error_text ErrCtxDeadline = ''context deadline exceeded''"
| "error_text ErrCtxCanceled = ''context canceled''"
| "error_text ErrEOF = ''EOF''"
| "error_text (ErrOS m) = m"
| "error_text ErrJSON = ''json''"

definition result_status :: "go_error option \<Rightarrow> RunStatus \<times> string" where
  "result_status err =
     (case err of
        None \<Rightarrow> (RUN_STATUS_SUCCESS, '''')
      | Some e \<Rightarrow>
          (if errors_is e ErrCtxDeadline then RUN_STATUS_TIMEOUT
           else if errors_is e ErrCtxCanceled then RUN_STATUS_CANCELED
           else RUN_STATUS_FAILED,
           error_text e))"

definition job_result :: "string \<Rightarrow> instant \<Rightarrow> instant \<Rightarrow> Dispatch \<Rightarrow> handler_outcome \<Rightarrow> JobResult" where
  "job_result stack startedAt endedAt d h =
     (let (output, err) = runHandlerSafe stack h;
          (status, errStr) = result_status err
      in \<lparr>res_RunId = d_RunId d, res_Status = status, res_Output = output, res_Error = errStr,
          DurationMs = wrap32 (go_div (time_sub endedAt startedAt) millisecond),
          StartedAt = startedAt div millisecond, EndedAt = endedAt div millisecond\<rparr>)"

subsection \<open>The outbound channel\<close>

record chan =
  ch_buf :: "WorkerMessage list"
  ch_closed :: bool

definition sendCh_cap :: nat where
  "sendCh_cap = 64"

datatype send_result = Sent | Dropped | SendPanic

text \<open>
  The \<^verbatim>\<open>select\<close> of \<^verbatim>\<open>sendOrDrop\<close> (and of the heartbeat): the send case is ready when the channel has
  room or is closed, and then panics if it is closed; the other case is ready when the context is
  done.  No ready case: the goroutine blocks, and the list of outcomes is empty.
\<close>

definition sendOrDrop :: "chan \<Rightarrow> bool \<Rightarrow> WorkerMessage \<Rightarrow> (chan \<times> send_result) list" where
  "sendOrDrop ch ctx_done msg =
     (if ch_closed ch then [(ch, SendPanic)]
      else if length (ch_buf ch) < sendCh_cap then [(ch\<lparr>ch_buf := ch_buf ch @ [msg]\<rparr>, Sent)]
      else []) @
     (if ctx_done then [(ch, Dropped)] else [])"

subsection \<open>State\<close>

datatype stage = Executing | Reported

record goroutine =
  gid :: nat
  g_dispatch :: Dispatch
  g_timeout :: "duration option"
  g_sess :: nat
  g_stage :: stage
  g_canceled :: bool

datatype sess_phase = Receiving | Canceling | Closing | Ended

text \<open>
  The receiving goroutine is idle (in \<^verbatim>\<open>Recv\<close>), about to send a negative ack, or, with the semaphore
  acquired, about to send the positive ack of a dispatch and to start its handler.
\<close>

datatype recv_pc = InRecv | Rejecting JobAck | Accepting Dispatch

record session =
  s_chan :: chan
  s_done :: bool
  s_phase :: sess_phase
  s_recv :: recv_pc
  s_sender :: bool
  s_hb :: bool

record 'h worker =
  handlers :: "string \<Rightarrow> 'h option"
  sem :: nat
  cancels :: "string \<Rightarrow> nat option"
  inflightWG :: nat
  running :: "goroutine list"
  next_gid :: nat
  sessions :: "session list"
  negotiatedHbDelay :: duration
  crashed :: bool

definition new_session :: session where
  "new_session = \<lparr>s_chan = \<lparr>ch_buf = [], ch_closed = False\<rparr>, s_done = False, s_phase = Receiving,
     s_recv = InRecv, s_sender = True, s_hb = True\<rparr>"

definition lookupHandler :: "'h worker \<Rightarrow> string \<Rightarrow> 'h option" where
  "lookupHandler w jobName = handlers w jobName"

definition currentInflight :: "Config \<Rightarrow> 'h worker \<Rightarrow> int" where
  \<comment> \<open>\<^verbatim>\<open>cap(c.concurrencySem)\<close> is \<^verbatim>\<open>MaxConcurrency\<close> since \<^verbatim>\<open>New\<close>\<close>
  "currentInflight c w = MaxConcurrency c - (MaxConcurrency c - int (sem w))"

definition upd_session :: "nat \<Rightarrow> (session \<Rightarrow> session) \<Rightarrow> 'h worker \<Rightarrow> 'h worker" where
  "upd_session i f w = w\<lparr>sessions := (sessions w)[i := f (sessions w ! i)]\<rparr>"

subsection \<open>Operations\<close>

text \<open>\<^verbatim>\<open>onDispatch\<close> up to its first send: validation, handler lookup, semaphore.\<close>

definition onDispatch_begin :: "Config \<Rightarrow> nat \<Rightarrow> Dispatch option \<Rightarrow> 'h worker \<Rightarrow> 'h worker" where
  "onDispatch_begin c i d w =
     (case d of
        None \<Rightarrow> w
      | Some d \<Rightarrow>
          if d_RunId d = '''' then w
          else case lookupHandler w (d_JobName d) of
                 None \<Rightarrow>
                   upd_session i (\<lambda>s. s\<lparr>s_recv := Rejecting \<lparr>ack_RunId = d_RunId d, Accepted = False,
                     Reason = ''handler not registered: '' @ d_JobName d\<rparr>\<rparr>) w
               | Some h \<Rightarrow>
                   if int (sem w) \<ge> MaxConcurrency c
                   then upd_session i (\<lambda>s. s\<lparr>s_recv := Rejecting \<lparr>ack_RunId = d_RunId d,
                          Accepted = False, Reason = ''inflight full''\<rparr>\<rparr>) w
                   else upd_session i (\<lambda>s. s\<lparr>s_recv := Accepting d\<rparr>) (w\<lparr>sem := sem w + 1\<rparr>))"

text \<open>The rest of \<^verbatim>\<open>onDispatch\<close> after a positive ack: register the cancel function, start the
  goroutine.\<close>

definition onDispatch_spawn :: "nat \<Rightarrow> Dispatch \<Rightarrow> 'h worker \<Rightarrow> 'h worker" where
  "onDispatch_spawn i d w =
     w\<lparr>cancels := (cancels w)(d_RunId d \<mapsto> next_gid w),
       inflightWG := inflightWG w + 1,
       running := running w @ [\<lparr>gid = next_gid w, g_dispatch = d, g_timeout = handler_timeout d,
                                g_sess = i, g_stage = Executing, g_canceled = False\<rparr>],
       next_gid := next_gid w + 1\<rparr>"

text \<open>\<^verbatim>\<open>onCancel\<close>: the cancel function of the run is called if it is registered.\<close>

definition onCancel :: "string option \<Rightarrow> 'h worker \<Rightarrow> 'h worker" where
  "onCancel m w =
     (case m of
        None \<Rightarrow> w
      | Some rid \<Rightarrow>
          if rid = '''' then w
          else case cancels w rid of
                 None \<Rightarrow> w
               | Some g \<Rightarrow>
                   w\<lparr>running := map (\<lambda>x. if gid x = g then x\<lparr>g_canceled := True\<rparr> else x) (running w)\<rparr>)"

text \<open>The deferred calls of the handler goroutine.\<close>

definition handler_cleanup :: "goroutine \<Rightarrow> 'h worker \<Rightarrow> 'h worker" where
  "handler_cleanup g w =
     w\<lparr>cancels := (cancels w)(d_RunId (g_dispatch g) := None),
       sem := sem w - 1,
       inflightWG := inflightWG w - 1,
       running := filter (\<lambda>x. gid x \<noteq> gid g) (running w)\<rparr>"

definition heartbeat_delay :: "Config \<Rightarrow> 'h worker \<Rightarrow> duration" where
  "heartbeat_delay c w = (if negotiatedHbDelay w \<le> 0 then HeartbeatInterval c else negotiatedHbDelay w)"

definition heartbeat :: "Config \<Rightarrow> instant \<Rightarrow> instant \<Rightarrow> 'h worker \<Rightarrow> Heartbeat" where
  "heartbeat c start now w =
     \<lparr>hb_WorkerId = WorkerID c, hb_Ts = now div second, hb_Inflight = wrap32 (currentInflight c w),
      hb_UptimeSec = go_div (time_sub now start) second\<rparr>"

subsection \<open>Steps\<close>

inductive wstep :: "Config \<Rightarrow> 'h worker \<Rightarrow> 'h worker \<Rightarrow> bool" for c :: Config where
  open_session:
    "\<not> crashed w \<Longrightarrow> \<forall>s \<in> set (sessions w). s_phase s = Ended \<Longrightarrow>
     wstep c w (w\<lparr>sessions := sessions w @ [new_session],
                  negotiatedHbDelay := (if hb > 0 then hb * second else negotiatedHbDelay w)\<rparr>)"
| recv_dispatch:
    "\<not> crashed w \<Longrightarrow> i < length (sessions w) \<Longrightarrow> s_phase (sessions w ! i) = Receiving \<Longrightarrow>
     s_recv (sessions w ! i) = InRecv \<Longrightarrow>
     wstep c w (onDispatch_begin c i d w)"
| reject_ack:
    "\<not> crashed w \<Longrightarrow> i < length (sessions w) \<Longrightarrow> s_recv (sessions w ! i) = Rejecting a \<Longrightarrow>
     (ch, r) \<in> set (sendOrDrop (s_chan (sessions w ! i)) (s_done (sessions w ! i)) (Ack a)) \<Longrightarrow>
     wstep c w ((upd_session i (\<lambda>s. s\<lparr>s_chan := ch, s_recv := InRecv\<rparr>) w)\<lparr>crashed := (r = SendPanic)\<rparr>)"
| accept_ack:
    "\<not> crashed w \<Longrightarrow> i < length (sessions w) \<Longrightarrow> s_recv (sessions w ! i) = Accepting d \<Longrightarrow>
     (ch, r) \<in> set (sendOrDrop (s_chan (sessions w ! i)) (s_done (sessions w ! i))
        (Ack \<lparr>ack_RunId = d_RunId d, Accepted = True, Reason = ''''\<rparr>)) \<Longrightarrow>
     wstep c w ((onDispatch_spawn i d (upd_session i (\<lambda>s. s\<lparr>s_chan := ch, s_recv := InRecv\<rparr>) w))
        \<lparr>crashed := (r = SendPanic)\<rparr>)"
| recv_cancel:
    "\<not> crashed w \<Longrightarrow> i < length (sessions w) \<Longrightarrow> s_phase (sessions w ! i) = Receiving \<Longrightarrow>
     s_recv (sessions w ! i) = InRecv \<Longrightarrow>
     wstep c w (onCancel m w)"
| recv_end:
    "\<not> crashed w \<Longrightarrow> i < length (sessions w) \<Longrightarrow> s_phase (sessions w ! i) = Receiving \<Longrightarrow>
     s_recv (sessions w ! i) = InRecv \<Longrightarrow>
     wstep c w (upd_session i (\<lambda>s. s\<lparr>s_phase := Canceling, s_done := True\<rparr>) w)"
| close_chan:
    "\<not> crashed w \<Longrightarrow> i < length (sessions w) \<Longrightarrow> s_phase (sessions w ! i) = Canceling \<Longrightarrow>
     wstep c w (upd_session i (\<lambda>s. s\<lparr>s_phase := Closing, s_chan := (s_chan s)\<lparr>ch_closed := True\<rparr>\<rparr>) w)"
| root_cancel:
    "\<not> crashed w \<Longrightarrow> i < length (sessions w) \<Longrightarrow>
     wstep c w (upd_session i (\<lambda>s. s\<lparr>s_done := True\<rparr>) w)"
| sender_send:
    "\<not> crashed w \<Longrightarrow> i < length (sessions w) \<Longrightarrow> s_sender (sessions w ! i) \<Longrightarrow>
     ch_buf (s_chan (sessions w ! i)) = m # ms \<Longrightarrow>
     wstep c w (upd_session i (\<lambda>s. s\<lparr>s_chan := (s_chan s)\<lparr>ch_buf := ms\<rparr>, s_sender := ok\<rparr>) w)"
| sender_stop:
    "\<not> crashed w \<Longrightarrow> i < length (sessions w) \<Longrightarrow> ch_closed (s_chan (sessions w ! i)) \<Longrightarrow>
     ch_buf (s_chan (sessions w ! i)) = [] \<Longrightarrow>
     wstep c w (upd_session i (\<lambda>s. s\<lparr>s_sender := False\<rparr>) w)"
| heartbeat_tick:
    "\<not> crashed w \<Longrightarrow> i < length (sessions w) \<Longrightarrow> s_hb (sessions w ! i) \<Longrightarrow>
     (ch, r) \<in> set (sendOrDrop (s_chan (sessions w ! i)) (s_done (sessions w ! i))
        (HeartbeatMsg (heartbeat c start now w))) \<Longrightarrow>
     wstep c w ((upd_session i (\<lambda>s. s\<lparr>s_chan := ch, s_hb := (r \<noteq> Dropped)\<rparr>) w)\<lparr>crashed := (r = SendPanic)\<rparr>)"
| heartbeat_stop:
    "\<not> crashed w \<Longrightarrow> i < length (sessions w) \<Longrightarrow> s_done (sessions w ! i) \<Longrightarrow>
     wstep c w (upd_session i (\<lambda>s. s\<lparr>s_hb := False\<rparr>) w)"
| session_ended:
    "\<not> crashed w \<Longrightarrow> i < length (sessions w) \<Longrightarrow> s_phase (sessions w ! i) = Closing \<Longrightarrow>
     \<not> s_hb (sessions w ! i) \<Longrightarrow> \<not> s_sender (sessions w ! i) \<Longrightarrow>
     wstep c w (upd_session i (\<lambda>s. s\<lparr>s_phase := Ended\<rparr>) w)"
| handler_report:
    "\<not> crashed w \<Longrightarrow> g \<in> set (running w) \<Longrightarrow> g_stage g = Executing \<Longrightarrow> g_sess g < length (sessions w) \<Longrightarrow>
     (ch, r) \<in> set (sendOrDrop (s_chan (sessions w ! g_sess g)) (s_done (sessions w ! g_sess g))
        (Result (job_result stack st en (g_dispatch g) h))) \<Longrightarrow>
     wstep c w ((upd_session (g_sess g) (\<lambda>s. s\<lparr>s_chan := ch\<rparr>)
        (w\<lparr>running := map (\<lambda>x. if gid x = gid g then x\<lparr>g_stage := Reported\<rparr> else x) (running w)\<rparr>))
        \<lparr>crashed := (r = SendPanic)\<rparr>)"
| handler_done:
    "\<not> crashed w \<Longrightarrow> g \<in> set (running w) \<Longrightarrow> g_stage g = Reported \<Longrightarrow>
     wstep c w (handler_cleanup g w)"

definition new_worker :: "(string \<Rightarrow> 'h option) \<Rightarrow> Config \<Rightarrow> 'h worker" where
  "new_worker hs c = \<lparr>handlers = hs, sem = 0, cancels = (\<lambda>_. None), inflightWG = 0, running = [],
     next_gid = 0, sessions = [], negotiatedHbDelay = HeartbeatInterval c, crashed = False\<rparr>"

subsection \<open>Invariant\<close>

definition is_accepting :: "session \<Rightarrow> bool" where
  "is_accepting s = (case s_recv s of Accepting d \<Rightarrow> True | _ \<Rightarrow> False)"

definition session_ok :: "session \<Rightarrow> bool" where
  "session_ok s \<longleftrightarrow>
     (ch_closed (s_chan s) \<longleftrightarrow> s_phase s = Closing \<or> s_phase s = Ended) \<and>
     (s_recv s \<noteq> InRecv \<longrightarrow> s_phase s = Receiving) \<and>
     (s_phase s \<noteq> Receiving \<longrightarrow> s_done s)"

definition worker_inv :: "Config \<Rightarrow> 'h worker \<Rightarrow> bool" where
  "worker_inv c w \<longleftrightarrow>
     sem w = length (running w) + length (filter is_accepting (sessions w)) \<and>
     int (sem w) \<le> MaxConcurrency c \<and>
     inflightWG w = length (running w) \<and>
     distinct (map gid (running w)) \<and>
     (\<forall>g \<in> set (running w). gid g < next_gid w \<and> g_sess g < length (sessions w)) \<and>
     (\<forall>r n. cancels w r = Some n \<longrightarrow>
        (\<exists>g \<in> set (running w). gid g = n \<and> d_RunId (g_dispatch g) = r)) \<and>
     (\<forall>s \<in> set (sessions w). session_ok s)"

lemma new_worker_inv: "0 \<le> MaxConcurrency c \<Longrightarrow> worker_inv c (new_worker hs c)"
  by (simp add: worker_inv_def new_worker_def)

lemma upd_session_simps [simp]:
  "handlers (upd_session i f w) = handlers w" "sem (upd_session i f w) = sem w"
  "cancels (upd_session i f w) = cancels w" "inflightWG (upd_session i f w) = inflightWG w"
  "running (upd_session i f w) = running w" "next_gid (upd_session i f w) = next_gid w"
  "sessions (upd_session i f w) = (sessions w)[i := f (sessions w ! i)]"
  "negotiatedHbDelay (upd_session i f w) = negotiatedHbDelay w"
  "crashed (upd_session i f w) = crashed w"
  by (simp_all add: upd_session_def)

lemma length_filter_update:
  "i < length xs \<Longrightarrow>
     length (filter P (xs[i := y])) + (if P (xs ! i) then 1 else 0) =
     length (filter P xs) + (if P y then 1 else 0)"
proof (induction xs arbitrary: i)
  case (Cons x xs)
  then show ?case by (cases i) auto
qed simp

lemma session_ok_update:
  "\<forall>s \<in> set ss. session_ok s \<Longrightarrow> session_ok y \<Longrightarrow> \<forall>s \<in> set (ss[i := y]). session_ok s"
  using set_update_subset_insert [of ss i y] by blast

text \<open>A step that changes one session and not whether it is accepting keeps the invariant.\<close>

lemma upd_session_keeps:
  assumes "worker_inv c w" and "i < length (sessions w)"
    and "session_ok (f (sessions w ! i))" and "is_accepting (f (sessions w ! i)) = is_accepting (sessions w ! i)"
  shows "worker_inv c ((upd_session i f w)\<lparr>crashed := b\<rparr>)" and "worker_inv c (upd_session i f w)"
proof -
  have "length (filter is_accepting ((sessions w)[i := f (sessions w ! i)])) =
      length (filter is_accepting (sessions w))"
    using length_filter_update [OF assms(2), of is_accepting "f (sessions w ! i)"] assms(4)
    by (auto split: if_splits)
  moreover have "\<forall>s \<in> set ((sessions w)[i := f (sessions w ! i)]). session_ok s"
    using assms(1,3) by (intro session_ok_update) (auto simp: worker_inv_def)
  ultimately show "worker_inv c ((upd_session i f w)\<lparr>crashed := b\<rparr>)" "worker_inv c (upd_session i f w)"
    using assms(1) by (auto simp: worker_inv_def)
qed

lemma session_okD:
  "worker_inv c w \<Longrightarrow> i < length (sessions w) \<Longrightarrow> session_ok (sessions w ! i)"
  by (simp add: worker_inv_def)

lemma sendOrDrop_closed:
  "(ch', r) \<in> set (sendOrDrop ch dn m) \<Longrightarrow> ch_closed ch' = ch_closed ch \<and> (r = SendPanic \<longleftrightarrow> ch_closed ch \<and> r \<noteq> Dropped)"
  by (auto simp: sendOrDrop_def split: if_splits)

lemma onDispatch_begin_keeps:
  assumes "worker_inv c w" and i: "i < length (sessions w)"
    and ph: "s_phase (sessions w ! i) = Receiving" and rc: "s_recv (sessions w ! i) = InRecv"
  shows "worker_inv c (onDispatch_begin c i d w)"
proof -
  have ok: "session_ok (sessions w ! i)" using session_okD [OF assms(1) i] .
  have rej: "worker_inv c (upd_session i (\<lambda>s. s\<lparr>s_recv := Rejecting a\<rparr>) w)" for a
    by (rule upd_session_keeps(2) [OF assms(1) i])
      (use ok ph rc in \<open>auto simp: session_ok_def is_accepting_def\<close>)
  have acc: "worker_inv c (upd_session i (\<lambda>s. s\<lparr>s_recv := Accepting d'\<rparr>) (w\<lparr>sem := sem w + 1\<rparr>))"
    if "int (sem w) < MaxConcurrency c" for d'
  proof -
    let ?y = "(sessions w ! i)\<lparr>s_recv := Accepting d'\<rparr>"
    have "length (filter is_accepting ((sessions w)[i := ?y])) = length (filter is_accepting (sessions w)) + 1"
      using length_filter_update [OF i, of is_accepting ?y] rc by (simp add: is_accepting_def)
    moreover have "\<forall>s \<in> set ((sessions w)[i := ?y]). session_ok s"
      using assms(1) ok ph by (intro session_ok_update) (auto simp: worker_inv_def session_ok_def)
    ultimately show ?thesis using assms(1) that by (auto simp: worker_inv_def)
  qed
  show ?thesis using assms(1) rej acc
    by (auto simp: onDispatch_begin_def split: option.split)
qed

lemma onDispatch_spawn_keeps:
  assumes inv: "worker_inv c w" and i: "i < length (sessions w)"
    and rc: "s_recv (sessions w ! i) = Accepting d" and ch: "ch_closed ch = ch_closed (s_chan (sessions w ! i))"
  shows "worker_inv c ((onDispatch_spawn i d (upd_session i (\<lambda>s. s\<lparr>s_chan := ch, s_recv := InRecv\<rparr>) w))
     \<lparr>crashed := b\<rparr>)"
proof -
  let ?y = "(sessions w ! i)\<lparr>s_chan := ch, s_recv := InRecv\<rparr>"
  have ok: "session_ok (sessions w ! i)" using session_okD [OF inv i] .
  have n: "length (filter is_accepting ((sessions w)[i := ?y])) + 1 = length (filter is_accepting (sessions w))"
    using length_filter_update [OF i, of is_accepting ?y] rc by (simp add: is_accepting_def)
  have s: "\<forall>s \<in> set ((sessions w)[i := ?y]). session_ok s"
    using inv ok ch by (intro session_ok_update) (auto simp: worker_inv_def session_ok_def)
  have fresh: "next_gid w \<notin> gid ` set (running w)" using inv by (auto simp: worker_inv_def)
  show ?thesis using inv n s i fresh
    by (auto simp: worker_inv_def onDispatch_spawn_def less_Suc_eq)
qed

text \<open>Marking goroutines (canceled, reported) changes nothing the invariant sees.\<close>

lemma running_map_keeps:
  assumes inv: "worker_inv c w"
    and f: "\<And>g. gid (f g) = gid g" "\<And>g. g_dispatch (f g) = g_dispatch g" "\<And>g. g_sess (f g) = g_sess g"
  shows "worker_inv c (w\<lparr>running := map f (running w)\<rparr>)"
proof -
  have "map gid (map f (running w)) = map gid (running w)" using f by simp
  moreover have "\<exists>g \<in> set (map f (running w)). gid g = n \<and> d_RunId (g_dispatch g) = r"
    if c: "cancels w r = Some n" for r n
  proof -
    obtain g where "g \<in> set (running w)" "gid g = n" "d_RunId (g_dispatch g) = r"
      using inv c unfolding worker_inv_def by blast
    then show ?thesis using f by (intro bexI [of _ "f g"]) auto
  qed
  moreover have "distinct (map gid (map f (running w)))"
    using inv f by (simp add: worker_inv_def comp_def)
  ultimately show ?thesis using inv f unfolding worker_inv_def by auto
qed

lemma onCancel_keeps: "worker_inv c w \<Longrightarrow> worker_inv c (onCancel m w)"
  by (auto simp: onCancel_def split: option.split intro!: running_map_keeps)

lemma filter_gid:
  "distinct (map gid gs) \<Longrightarrow> g \<in> set gs \<Longrightarrow> length (filter (\<lambda>x. gid x \<noteq> gid g) gs) + 1 = length gs"
proof (induction gs)
  case (Cons x gs)
  show ?case
  proof (cases "x = g")
    case True
    then have "filter (\<lambda>x. gid x \<noteq> gid g) gs = gs" using Cons.prems(1) by (auto simp: filter_id_conv image_iff)
    with True show ?thesis by simp
  next
    case False
    then have "gid x \<noteq> gid g" "g \<in> set gs" using Cons.prems by (auto simp: image_iff)
    with Cons show ?thesis by simp
  qed
qed simp

lemma handler_cleanup_keeps:
  assumes inv: "worker_inv c w" and g: "g \<in> set (running w)"
  shows "worker_inv c (handler_cleanup g w)"
proof -
  have n: "length (filter (\<lambda>x. gid x \<noteq> gid g) (running w)) + 1 = length (running w)"
    using inv g by (intro filter_gid) (auto simp: worker_inv_def)
  have d: "distinct (map gid (running w))" using inv by (simp add: worker_inv_def)
  have c: "\<exists>x \<in> set (filter (\<lambda>x. gid x \<noteq> gid g) (running w)). gid x = m \<and> d_RunId (g_dispatch x) = r"
    if cs: "cancels w r = Some m" and ne: "r \<noteq> d_RunId (g_dispatch g)" for r m
  proof -
    obtain x where x: "x \<in> set (running w)" "gid x = m" "d_RunId (g_dispatch x) = r"
      using inv cs unfolding worker_inv_def by blast
    have "gid x \<noteq> gid g" using x(1,3) g d ne by (auto simp: distinct_map inj_on_def)
    with x show ?thesis by auto
  qed
  have "distinct (map gid (filter (\<lambda>x. gid x \<noteq> gid g) (running w)))"
    using d by (simp add: distinct_map_filter)
  then show ?thesis using inv n c unfolding worker_inv_def handler_cleanup_def
    by (auto split: if_splits)
qed

lemma upd_session_plain:
  assumes "worker_inv c w" and "i < length (sessions w)"
    and "session_ok (sessions w ! i) \<Longrightarrow> session_ok (f (sessions w ! i))"
    and "s_recv (f (sessions w ! i)) = s_recv (sessions w ! i)"
  shows "worker_inv c (upd_session i f w)"
  using assms session_okD [OF assms(1,2)]
  by (intro upd_session_keeps(2)) (auto simp: is_accepting_def)

lemma wstep_inv:
  assumes "wstep c w w'" and inv: "worker_inv c w"
  shows "worker_inv c w'"
  using assms(1)
proof (cases rule: wstep.cases)
  case (open_session hb)
  then show ?thesis using inv
    by (auto simp: worker_inv_def new_session_def session_ok_def is_accepting_def less_SucI)
next
  case (recv_dispatch i d)
  then show ?thesis using onDispatch_begin_keeps [OF inv] by simp
next
  case (reject_ack i a ch r)
  have "session_ok (sessions w ! i)" using session_okD [OF inv reject_ack(3)] .
  then show ?thesis unfolding reject_ack(1)
    by (intro upd_session_keeps(1) [OF inv reject_ack(3)])
      (use sendOrDrop_closed [OF reject_ack(5)] reject_ack(4) in
        \<open>auto simp: session_ok_def is_accepting_def\<close>)
next
  case (accept_ack i d ch r)
  then show ?thesis using onDispatch_spawn_keeps [OF inv] sendOrDrop_closed by blast
next
  case (recv_cancel i m)
  then show ?thesis using onCancel_keeps [OF inv] by simp
next
  case (handler_report g ch r stack st en h)
  let ?w = "w\<lparr>running := map (\<lambda>x. if gid x = gid g then x\<lparr>g_stage := Reported\<rparr> else x) (running w)\<rparr>"
  have i: "worker_inv c ?w" by (rule running_map_keeps [OF inv]) auto
  have ok: "session_ok (sessions w ! g_sess g)" using session_okD [OF inv handler_report(5)] .
  show ?thesis unfolding handler_report(1)
    by (rule upd_session_keeps(1) [OF i])
      (use handler_report(5) sendOrDrop_closed [OF handler_report(6)] ok in
        \<open>auto simp: session_ok_def is_accepting_def\<close>)
next
  case (handler_done g)
  then show ?thesis using handler_cleanup_keeps [OF inv] by simp
next
  case (heartbeat_tick i ch r start now)
  have "session_ok (sessions w ! i)" using session_okD [OF inv heartbeat_tick(3)] .
  then show ?thesis unfolding heartbeat_tick(1)
    by (intro upd_session_keeps(1) [OF inv heartbeat_tick(3)])
      (use sendOrDrop_closed [OF heartbeat_tick(5)] in \<open>auto simp: session_ok_def is_accepting_def\<close>)
next
  case (recv_end i)
  show ?thesis unfolding recv_end(1)
    by (rule upd_session_plain [OF inv recv_end(3)]) (use recv_end in \<open>auto simp: session_ok_def\<close>)
next
  case (close_chan i)
  show ?thesis unfolding close_chan(1)
    by (rule upd_session_plain [OF inv close_chan(3)]) (use close_chan in \<open>auto simp: session_ok_def\<close>)
next
  case (root_cancel i)
  show ?thesis unfolding root_cancel(1)
    by (rule upd_session_plain [OF inv root_cancel(3)]) (auto simp: session_ok_def)
next
  case (sender_send i m ms ok)
  show ?thesis unfolding sender_send(1)
    by (rule upd_session_plain [OF inv sender_send(3)]) (auto simp: session_ok_def)
next
  case (sender_stop i)
  show ?thesis unfolding sender_stop(1)
    by (rule upd_session_plain [OF inv sender_stop(3)]) (auto simp: session_ok_def)
next
  case (heartbeat_stop i)
  show ?thesis unfolding heartbeat_stop(1)
    by (rule upd_session_plain [OF inv heartbeat_stop(3)]) (auto simp: session_ok_def)
next
  case (session_ended i)
  show ?thesis unfolding session_ended(1)
    by (rule upd_session_plain [OF inv session_ended(3)]) (use session_ended in \<open>auto simp: session_ok_def\<close>)
qed

lemma wstep_reachable_inv:
  "(wstep c)\<^sup>*\<^sup>* w w' \<Longrightarrow> worker_inv c w \<Longrightarrow> worker_inv c w'"
  by (induction rule: rtranclp_induct) (auto intro: wstep_inv)

text \<open>
  Where a crash can come from: the receiving goroutine never sends on the closed channel, since it
  is the one that closes it; a crash is a heartbeat or a handler result that meets a session whose
  channel is closed.
\<close>

lemma crash_cases:
  assumes "wstep c w w'" and inv: "worker_inv c w" and "crashed w'"
  shows "\<exists>i < length (sessions w). ch_closed (s_chan (sessions w ! i)) \<and> s_done (sessions w ! i) \<and>
     (s_hb (sessions w ! i) \<or> (\<exists>g \<in> set (running w). g_sess g = i \<and> g_stage g = Executing))"
  using assms(1)
proof (cases rule: wstep.cases)
  case (reject_ack i a ch r)
  have "session_ok (sessions w ! i)" using session_okD [OF inv reject_ack(3)] .
  then have "\<not> ch_closed (s_chan (sessions w ! i))" using reject_ack(4) by (auto simp: session_ok_def)
  then show ?thesis using sendOrDrop_closed [OF reject_ack(5)] assms(3) reject_ack(1) by simp
next
  case (accept_ack i d ch r)
  have "session_ok (sessions w ! i)" using session_okD [OF inv accept_ack(3)] .
  then have "\<not> ch_closed (s_chan (sessions w ! i))" using accept_ack(4) by (auto simp: session_ok_def)
  then show ?thesis using sendOrDrop_closed [OF accept_ack(5)] assms(3) accept_ack(1) by simp
next
  case (heartbeat_tick i ch r start now)
  have "session_ok (sessions w ! i)" using session_okD [OF inv heartbeat_tick(3)] .
  then show ?thesis using sendOrDrop_closed [OF heartbeat_tick(5)] assms(3) heartbeat_tick
    by (auto simp: session_ok_def)
next
  case (handler_report g ch r stack st en h)
  have "session_ok (sessions w ! g_sess g)" using session_okD [OF inv handler_report(5)] .
  then show ?thesis using sendOrDrop_closed [OF handler_report(6)] assms(3) handler_report
    by (intro exI [of _ "g_sess g"]) (auto simp: session_ok_def)
qed (use assms(3) in \<open>auto simp: onDispatch_begin_def onCancel_def handler_cleanup_def split: option.splits if_splits\<close>)

subsection \<open>Session set-up and reconnect\<close>

datatype scheduler_first =
    RegisterResponse bool string int
  | OtherMessage

text \<open>
  The handshake of \<^verbatim>\<open>runOneSession\<close>: the results of \<^verbatim>\<open>Connect\<close>, of sending the registration and of
  the first \<^verbatim>\<open>Recv\<close> decide whether the session starts; on success the result is the new value of
  \<^verbatim>\<open>negotiatedHbDelay\<close>.
\<close>

definition handshake ::
    "go_error option \<Rightarrow> go_error option \<Rightarrow> go_error + scheduler_first \<Rightarrow> duration \<Rightarrow> go_error + duration" where
  "handshake connErr sendErr first hb0 =
     (case connErr of
        Some e \<Rightarrow> Inl e
      | None \<Rightarrow>
          (case sendErr of
             Some e \<Rightarrow> Inl e
           | None \<Rightarrow>
               (case first of
                  Inl e \<Rightarrow> Inl e
                | Inr OtherMessage \<Rightarrow> Inl (ErrNew ''first server message is not RegisterResponse'')
                | Inr (RegisterResponse ok err hb) \<Rightarrow>
                    if \<not> ok then Inl (ErrNew (''register denied: '' @ err))
                    else Inr (if hb > 0 then wrap64 (hb * second) else hb0))))"

text \<open>The error a session ends with: the sender's error first, and \<^verbatim>\<open>io.EOF\<close> is no error.\<close>

definition session_result :: "go_error option \<Rightarrow> go_error \<Rightarrow> go_error option" where
  "session_result sendErr recvErr =
     (case sendErr of
        Some e \<Rightarrow> Some e
      | None \<Rightarrow> if errors_is recvErr ErrEOF then None else Some recvErr)"

text \<open>
  One turn of \<^verbatim>\<open>runStreamLoop\<close>: from the current backoff and the time the session lasted, the wait
  before the next attempt and the new backoff.  \<open>stream_waits\<close> are the waits of a run of sessions.
\<close>

definition backoff_turn :: "Config \<Rightarrow> duration \<Rightarrow> duration \<Rightarrow> duration \<times> duration" where
  "backoff_turn c backoff elapsed =
     (let wait = (if elapsed > 30 * second then ReconnectMinBackoff c else backoff);
          nxt = wrap64 (wait * 2)
      in (wait, if nxt > ReconnectMaxBackoff c then ReconnectMaxBackoff c else nxt))"

fun stream_waits_from :: "Config \<Rightarrow> duration \<Rightarrow> duration list \<Rightarrow> duration list" where
  "stream_waits_from c backoff [] = []"
| "stream_waits_from c backoff (e # es) =
     (let (wait, nxt) = backoff_turn c backoff e in wait # stream_waits_from c nxt es)"

definition stream_waits :: "Config \<Rightarrow> duration list \<Rightarrow> duration list" where
  "stream_waits c es = stream_waits_from c (ReconnectMinBackoff c) es"

definition backoff_ok :: "Config \<Rightarrow> duration \<Rightarrow> bool" where
  "backoff_ok c b \<longleftrightarrow> ReconnectMinBackoff c \<le> b \<and> b \<le> ReconnectMaxBackoff c"

lemma backoff_turn_ok:
  assumes "cfg_ok c" and "ReconnectMaxBackoff c < 4611686018427387904" and "backoff_ok c b"
    and "backoff_turn c b e = (wait, nxt)"
  shows "backoff_ok c wait \<and> nxt = min (2 * wait) (ReconnectMaxBackoff c) \<and> backoff_ok c nxt"
proof -
  have w: "wait = (if e > 30 * second then ReconnectMinBackoff c else b)"
    and n: "nxt = (if wrap64 (wait * 2) > ReconnectMaxBackoff c then ReconnectMaxBackoff c else wrap64 (wait * 2))"
    using assms(4) by (auto simp: backoff_turn_def Let_def)
  have wok: "backoff_ok c wait" using w assms(1,3) by (auto simp: backoff_ok_def cfg_ok_def)
  moreover have "0 < ReconnectMinBackoff c" using assms(1) by (simp add: cfg_ok_def)
  ultimately have "wrap64 (wait * 2) = 2 * wait"
    using assms(2) by (simp add: backoff_ok_def in_int64_def)
  with n wok \<open>0 < ReconnectMinBackoff c\<close> show ?thesis by (auto simp: backoff_ok_def)
qed

lemma stream_waits_from_ok:
  assumes "cfg_ok c" and "ReconnectMaxBackoff c < 4611686018427387904"
  shows "backoff_ok c b \<Longrightarrow> list_all (backoff_ok c) (stream_waits_from c b es)"
proof (induction es arbitrary: b)
  case (Cons e es)
  obtain wait nxt where t: "backoff_turn c b e = (wait, nxt)" by (metis surj_pair)
  have "backoff_ok c wait" "backoff_ok c nxt" using backoff_turn_ok [OF assms Cons.prems t] by auto
  then show ?case using Cons.IH [of nxt] t by simp
qed simp

lemma stream_waits_short:
  assumes "cfg_ok c" and "ReconnectMaxBackoff c < 4611686018427387904"
  shows "backoff_ok c b \<Longrightarrow> \<forall>e \<in> set es. e \<le> 30 * second \<Longrightarrow> k < length es \<Longrightarrow>
     stream_waits_from c b es ! k = min (b * 2 ^ k) (ReconnectMaxBackoff c)"
proof (induction es arbitrary: b k)
  case (Cons e es)
  obtain wait nxt where t: "backoff_turn c b e = (wait, nxt)" by (metis surj_pair)
  have w: "wait = b" using t Cons.prems(2) by (auto simp: backoff_turn_def Let_def)
  note T = backoff_turn_ok [OF assms Cons.prems(1) t]
  have b: "0 < b" "b \<le> ReconnectMaxBackoff c" using Cons.prems(1) assms(1) by (auto simp: backoff_ok_def cfg_ok_def)
  show ?case
  proof (cases k)
    case 0
    then show ?thesis using t w b by simp
  next
    case (Suc j)
    have "stream_waits_from c b (e # es) ! k = stream_waits_from c nxt es ! j" using t Suc by simp
    also have "\<dots> = min (nxt * 2 ^ j) (ReconnectMaxBackoff c)"
      by (rule Cons.IH) (use T Cons.prems Suc in auto)
    also have "\<dots> = min (b * 2 ^ k) (ReconnectMaxBackoff c)"
    proof (cases "2 * b \<le> ReconnectMaxBackoff c")
      case True
      then show ?thesis using T w Suc by (simp add: algebra_simps)
    next
      case False
      then have n: "nxt = ReconnectMaxBackoff c" using T w by simp
      have 1: "1 \<le> (2::int) ^ j" by simp
      have "ReconnectMaxBackoff c * 1 \<le> ReconnectMaxBackoff c * 2 ^ j"
        using b 1 by (intro mult_left_mono) auto
      moreover have "2 * b * 1 \<le> 2 * b * 2 ^ j" using b 1 by (intro mult_left_mono) auto
      ultimately show ?thesis using False n Suc by (simp add: algebra_simps)
    qed
    finally show ?thesis .
  qed
qed simp

subsection \<open>A concrete run\<close>

definition demo_dispatch :: Dispatch where
  "demo_dispatch = \<lparr>d_RunId = ''run-1'', d_JobName = ''sync'', d_BizKey = '''', d_Payload = '''',
     d_TriggerType = 0, d_RetryCount = 0, d_RetryMax = 0, d_ShardIndex = 0, d_ShardTotal = 1,
     d_TimeoutSec = 10, d_TraceId = '''', d_SpanId = '''', d_DispatchedAt = 0\<rparr>"

definition demo_cfg :: Config where
  "demo_cfg = applyDefaults (Some ''host'') 42
     \<lparr>Endpoint = ''sched:9000'', AppName = ''app'', AppKey = ''key'', AppSecret = ''secret'',
      WorkerID = '''', InstanceID = '''', IP = '''', SDKVersion = '''', MaxConcurrency = 2,
      DialTimeout = 0, HeartbeatInterval = 0, ReconnectMinBackoff = 0, ReconnectMaxBackoff = 0,
      SubmitTimeout = 0, MaxRecvMsgSizeMB = 0, MaxSendMsgSizeMB = 0, LocalBufferEnabled = False,
      LocalBufferCapacity = 0, LocalBufferRetryInterval = 0, LocalBufferRetryBatch = 0,
      LocalBufferDiskSpillEnabled = False, LocalBufferDiskSpillDir = '''',
      LocalBufferDiskSpillMaxBytes = 0\<rparr>"

lemma demo_cfg_simps [simp]: "MaxConcurrency demo_cfg = 2" "HeartbeatInterval demo_cfg = 5000000000"
  "ReconnectMinBackoff demo_cfg = 1000000000" "ReconnectMaxBackoff demo_cfg = 30000000000" "cfg_ok demo_cfg"
  by (simp_all add: demo_cfg_def cfg_ok_def positive_or_def second_def)

definition demo_handlers :: "string \<Rightarrow> unit option" where
  "demo_handlers = [''sync'' \<mapsto> ()]"

text \<open>The state with \<open>k\<close> handlers of the same run started one after the other.\<close>

definition demo_goroutine :: "nat \<Rightarrow> goroutine" where
  "demo_goroutine k = \<lparr>gid = k, g_dispatch = demo_dispatch, g_timeout = handler_timeout demo_dispatch,
     g_sess = 0, g_stage = Executing, g_canceled = False\<rparr>"

definition demo_ack :: WorkerMessage where
  "demo_ack = Ack \<lparr>ack_RunId = ''run-1'', Accepted = True, Reason = ''''\<rparr>"

definition demo_started :: "nat \<Rightarrow> unit worker" where
  "demo_started k = \<lparr>handlers = demo_handlers, sem = k,
     cancels = (if k = 0 then (\<lambda>_. None) else [''run-1'' \<mapsto> k - 1]), inflightWG = k,
     running = map demo_goroutine [0..<k], next_gid = k,
     sessions = [new_session\<lparr>s_chan := \<lparr>ch_buf = replicate k demo_ack, ch_closed = False\<rparr>\<rparr>],
     negotiatedHbDelay = 5000000000, crashed = False\<rparr>"

lemma demo_open: "wstep demo_cfg (new_worker demo_handlers demo_cfg) (demo_started 0)"
proof -
  have "wstep demo_cfg (new_worker demo_handlers demo_cfg)
     ((new_worker demo_handlers demo_cfg)\<lparr>sessions := sessions (new_worker demo_handlers demo_cfg) @ [new_session],
        negotiatedHbDelay := (if (0::int) > 0 then 0 * second
           else negotiatedHbDelay (new_worker demo_handlers demo_cfg))\<rparr>)"
    by (rule open_session) (simp_all add: new_worker_def)
  then show ?thesis by (simp add: demo_started_def new_worker_def new_session_def)
qed

lemma demo_dispatch_step:
  assumes "k < 2"
  shows "(wstep demo_cfg)\<^sup>*\<^sup>* (demo_started k) (demo_started (Suc k))"
proof -
  let ?w = "demo_started k"
  define w1 where "w1 = ?w\<lparr>sem := Suc k, sessions := [(sessions ?w ! 0)\<lparr>s_recv := Accepting demo_dispatch\<rparr>]\<rparr>"
  have "onDispatch_begin demo_cfg 0 (Some demo_dispatch) ?w = w1"
    using assms by (simp add: w1_def onDispatch_begin_def lookupHandler_def demo_started_def demo_handlers_def
        demo_dispatch_def upd_session_def)
  moreover have "wstep demo_cfg ?w (onDispatch_begin demo_cfg 0 (Some demo_dispatch) ?w)"
    by (rule recv_dispatch) (simp_all add: demo_started_def new_session_def)
  ultimately have s1: "wstep demo_cfg ?w w1" by simp
  let ?ch = "\<lparr>ch_buf = replicate (Suc k) demo_ack, ch_closed = False\<rparr>"
  have out: "(?ch, Sent) \<in> set (sendOrDrop (s_chan (sessions w1 ! 0)) (s_done (sessions w1 ! 0))
         (Ack \<lparr>ack_RunId = d_RunId demo_dispatch, Accepted = True, Reason = ''''\<rparr>))"
    using assms by (simp add: w1_def sendOrDrop_def sendCh_cap_def demo_started_def new_session_def demo_ack_def
        demo_dispatch_def replicate_append_same)
  have "wstep demo_cfg w1 ((onDispatch_spawn 0 demo_dispatch
      (upd_session 0 (\<lambda>s. s\<lparr>s_chan := ?ch, s_recv := InRecv\<rparr>) w1))\<lparr>crashed := (Sent = SendPanic)\<rparr>)"
    by (rule accept_ack [OF _ _ _ out]) (simp_all add: w1_def demo_started_def)
  moreover have "((onDispatch_spawn 0 demo_dispatch
      (upd_session 0 (\<lambda>s. s\<lparr>s_chan := ?ch, s_recv := InRecv\<rparr>) w1))\<lparr>crashed := (Sent = SendPanic)\<rparr>) =
      demo_started (Suc k)"
    by (auto simp: w1_def onDispatch_spawn_def upd_session_def demo_started_def demo_goroutine_def
        new_session_def demo_dispatch_def fun_eq_iff)
  ultimately show ?thesis using s1
    by (metis converse_rtranclp_into_rtranclp rtranclp.rtrancl_refl)
qed

lemma demo_reach: "(wstep demo_cfg)\<^sup>*\<^sup>* (new_worker demo_handlers demo_cfg) (demo_started 1)"
  "(wstep demo_cfg)\<^sup>*\<^sup>* (new_worker demo_handlers demo_cfg) (demo_started 2)"
proof -
  show 1: "(wstep demo_cfg)\<^sup>*\<^sup>* (new_worker demo_handlers demo_cfg) (demo_started 1)"
    using demo_open demo_dispatch_step [of 0] by (simp add: converse_rtranclp_into_rtranclp)
  show "(wstep demo_cfg)\<^sup>*\<^sup>* (new_worker demo_handlers demo_cfg) (demo_started 2)"
    using 1 demo_dispatch_step [of 1] by (simp add: rtranclp_trans numeral_2_eq_2)
qed

subsection \<open>Properties\<close>



text \<open>
  C9. A crash of the process (a send on a closed channel) can only come from a heartbeat or a handler
  result that meets a session already cancelled and closed; the acknowledgements sent by the
  receiving goroutine are safe.
\<close>

theorem crash_only_after_close:
  assumes "(wstep c)\<^sup>*\<^sup>* (new_worker hs c) w" and "0 \<le> MaxConcurrency c"
    and "wstep c w w'" and "crashed w'"
  shows "\<exists>i < length (sessions w). ch_closed (s_chan (sessions w ! i)) \<and> s_done (sessions w ! i) \<and>
     (s_hb (sessions w ! i) \<or> (\<exists>g \<in> set (running w). g_sess g = i \<and> g_stage g = Executing))"
proof -
  have "worker_inv c w" using wstep_reachable_inv [OF assms(1) new_worker_inv] assms(2) by blast
  then show ?thesis using crash_cases [OF assms(3) _ assms(4)] by blast
qed

text \<open>The run of the finding: a handler is running when its session ends.\<close>

definition demo_closed :: "unit worker" where
  "demo_closed = upd_session 0 (\<lambda>s. s\<lparr>s_phase := Closing, s_chan := (s_chan s)\<lparr>ch_closed := True\<rparr>\<rparr>)
     (upd_session 0 (\<lambda>s. s\<lparr>s_phase := Canceling, s_done := True\<rparr>) (demo_started 1))"

lemma demo_closed_reach: "(wstep demo_cfg)\<^sup>*\<^sup>* (new_worker demo_handlers demo_cfg) demo_closed"
proof -
  let ?w = "upd_session 0 (\<lambda>s. s\<lparr>s_phase := Canceling, s_done := True\<rparr>) (demo_started 1)"
  have "wstep demo_cfg (demo_started 1) ?w"
    by (rule recv_end) (simp_all add: demo_started_def new_session_def)
  moreover have "wstep demo_cfg ?w demo_closed"
    unfolding demo_closed_def by (rule close_chan) (simp_all add: demo_started_def)
  ultimately show ?thesis using demo_reach(1) by (meson rtranclp.rtrancl_into_rtrancl)
qed

definition demo_crashed :: "unit worker" where
  "demo_crashed = (upd_session 0 (\<lambda>s. s\<lparr>s_chan := s_chan (sessions demo_closed ! 0)\<rparr>)
     (demo_closed\<lparr>running := map (\<lambda>x. if gid x = 0 then x\<lparr>g_stage := Reported\<rparr> else x)
        (running demo_closed)\<rparr>))\<lparr>crashed := (SendPanic = SendPanic)\<rparr>"

lemma demo_crash_step: "wstep demo_cfg demo_closed demo_crashed"
proof -
  let ?g = "demo_goroutine 0"
  have g: "gid ?g = 0" "g_sess ?g = 0" "g_stage ?g = Executing" by (simp_all add: demo_goroutine_def)
  have "wstep demo_cfg demo_closed
     ((upd_session (g_sess ?g) (\<lambda>s. s\<lparr>s_chan := s_chan (sessions demo_closed ! 0)\<rparr>)
       (demo_closed\<lparr>running := map (\<lambda>x. if gid x = gid ?g then x\<lparr>g_stage := Reported\<rparr> else x)
          (running demo_closed)\<rparr>))\<lparr>crashed := (SendPanic = SendPanic)\<rparr>)"
    by (rule handler_report [where stack = "''''" and st = 0 and en = 0 and h = "Returned '''' None"])
      (simp_all add: g demo_closed_def demo_started_def sendOrDrop_def)
  then show ?thesis by (simp add: g demo_crashed_def)
qed

theorem crash_only_after_close_witness:
  "\<exists>i < length (sessions demo_closed). ch_closed (s_chan (sessions demo_closed ! i)) \<and>
     s_done (sessions demo_closed ! i)"
  using crash_only_after_close [OF demo_closed_reach _ demo_crash_step] by (auto simp: demo_crashed_def)

text \<open>
  The crash is reachable: a handler that is still running when its session ends reports its
  result into the channel that \<^verbatim>\<open>runOneSession\<close> has closed, and the \<^verbatim>\<open>select\<close> may take the send.
\<close>

theorem crash_reachable:
  "\<exists>w. (wstep demo_cfg)\<^sup>*\<^sup>* (new_worker demo_handlers demo_cfg) w \<and> crashed w"
  using demo_closed_reach demo_crash_step
  by (intro exI [of _ demo_crashed]) (simp add: rtranclp.rtrancl_into_rtrancl demo_crashed_def)

text \<open>
  Two dispatches with the same run id share one entry of the cancel table: when the first handler
  finishes it removes the entry of the second, which keeps running and can no longer be cancelled.
\<close>

theorem duplicate_run_uncancellable:
  "\<exists>w g. (wstep demo_cfg)\<^sup>*\<^sup>* (new_worker demo_handlers demo_cfg) w \<and> g \<in> set (running w) \<and>
     g_stage g = Executing \<and> onCancel (Some (d_RunId (g_dispatch g))) w = w"
proof -
  let ?w = "demo_started 2" and ?g = "demo_goroutine 0"
  let ?rep = "\<lambda>x. if gid x = gid ?g then x\<lparr>g_stage := Reported\<rparr> else x"
  let ?ch = "\<lparr>ch_buf = ch_buf (s_chan (sessions ?w ! 0)) @
      [Result (job_result '''' 0 0 (g_dispatch ?g) (Returned '''' None))], ch_closed = False\<rparr>"
  let ?w1 = "(upd_session (g_sess ?g) (\<lambda>s. s\<lparr>s_chan := ?ch\<rparr>)
      (?w\<lparr>running := map ?rep (running ?w)\<rparr>))\<lparr>crashed := (Sent = SendPanic)\<rparr>"
  have run: "running ?w = [demo_goroutine 0, demo_goroutine 1]" by (simp add: demo_started_def numeral_2_eq_2)
  have g: "gid (demo_goroutine k) = k" "g_sess (demo_goroutine k) = 0" "g_stage (demo_goroutine k) = Executing"
    "d_RunId (g_dispatch (demo_goroutine k)) = ''run-1''" for k
    by (simp_all add: demo_goroutine_def demo_dispatch_def)
  have 1: "wstep demo_cfg ?w ?w1"
    by (rule handler_report [where stack = "''''" and st = 0 and en = 0 and h = "Returned '''' None"])
      (simp_all add: g run, simp_all add: demo_started_def new_session_def sendOrDrop_def sendCh_cap_def)
  have 2: "wstep demo_cfg ?w1 (handler_cleanup (?rep ?g) ?w1)"
    by (rule handler_done) (simp_all add: run)
  have r: "(wstep demo_cfg)\<^sup>*\<^sup>* (new_worker demo_handlers demo_cfg) (handler_cleanup (?rep ?g) ?w1)"
    using demo_reach(2) 1 2 by (meson rtranclp.rtrancl_into_rtrancl)
  have "onCancel (Some ''run-1'') (handler_cleanup (?rep ?g) ?w1) = handler_cleanup (?rep ?g) ?w1"
    by (simp add: onCancel_def handler_cleanup_def g)
  with r show ?thesis
    by (intro exI [of _ "handler_cleanup (?rep ?g) ?w1"] exI [of _ "demo_goroutine 1"])
      (simp add: g run handler_cleanup_def)
qed

text \<open>
  The reported status: success exactly when the handler returns without error; a panic is
  reported as a failure with an empty output and the panic value in the error text; an error that
  wraps the context's deadline or cancellation error is a timeout or a cancellation, any other a
  failure; and the error text is that of the returned error.
\<close>

theorem result_classification:
  "(res_Status (job_result stack st en d h) = RUN_STATUS_SUCCESS \<longleftrightarrow> (\<exists>out. h = Returned out None)) \<and>
   res_RunId (job_result stack st en d h) = d_RunId d \<and>
   (case h of
      Panicked v \<Rightarrow>
        res_Status (job_result stack st en d h) = RUN_STATUS_FAILED \<and>
        res_Output (job_result stack st en d h) = '''' \<and>
        res_Error (job_result stack st en d h) = ''handler panic: '' @ v @ [CHR 0x0A] @ stack
    | Returned out None \<Rightarrow>
        res_Output (job_result stack st en d h) = out \<and> res_Error (job_result stack st en d h) = ''''
    | Returned out (Some e) \<Rightarrow>
        res_Output (job_result stack st en d h) = out \<and>
        res_Error (job_result stack st en d h) = error_text e \<and>
        res_Status (job_result stack st en d h) =
          (if errors_is e ErrCtxDeadline then RUN_STATUS_TIMEOUT
           else if errors_is e ErrCtxCanceled then RUN_STATUS_CANCELED else RUN_STATUS_FAILED))"
  by (auto simp: job_result_def runHandlerSafe_def result_status_def
      split: handler_outcome.splits option.splits prod.splits if_splits)

text \<open>
  C40. Reconnect backoff: every wait lies between the two configured bounds, and while no session
  lasts longer than thirty seconds the \<open>k\<close>-th wait is the minimum doubled \<open>k\<close> times, capped at the
  maximum.
\<close>

theorem reconnect_backoff:
  assumes "cfg_ok c" and "ReconnectMaxBackoff c < 4611686018427387904"
  shows "list_all (\<lambda>d. ReconnectMinBackoff c \<le> d \<and> d \<le> ReconnectMaxBackoff c) (stream_waits c es) \<and>
    (\<forall>k < length es. list_all (\<lambda>e. e \<le> 30 * second) es \<longrightarrow>
       stream_waits c es ! k = min (ReconnectMinBackoff c * 2 ^ k) (ReconnectMaxBackoff c))"
proof -
  have b: "backoff_ok c (ReconnectMinBackoff c)" using assms(1) by (simp add: backoff_ok_def cfg_ok_def)
  show ?thesis
    using stream_waits_from_ok [OF assms b, of es] stream_waits_short [OF assms b, of es]
    by (auto simp: stream_waits_def backoff_ok_def list_all_iff)
qed

theorem reconnect_backoff_witness:
  "stream_waits demo_cfg [0, 0, 0, 0, 0, 0] ! 3 = 8000000000 \<and> stream_waits demo_cfg [0, 0, 0, 0, 0, 0] ! 5 = 30000000000"
  using reconnect_backoff [of demo_cfg "[0, 0, 0, 0, 0, 0]"] by (simp add: second_def)

end
