(* ===== verification/SchedClient.thy ===== *)
theory SchedClient
  imports RetryLoop WorkerSession
begin

text \<open>
  The life cycle of the scheduler SDK's client (\<^verbatim>\<open>src/pkg/scheduler/client.go\<close>): construction,
  handler registration, start and stop.  The submitting half is the record \<open>Client\<close> of theory
  \<open>SubmitClient\<close>, the worker half the record \<open>worker\<close> of theory \<open>WorkerSession\<close>; the record \<open>sdk\<close>
  joins them.  The result of dialling is an argument.
\<close>

record 'h sdk =
  sub :: Client
  wrk :: "'h worker"
  started :: bool
  conn_open :: bool
  stream_loop :: bool
  retry_loop :: bool

definition New ::
    "fs_faults \<Rightarrow> string option \<Rightarrow> int \<Rightarrow> string \<Rightarrow> instant \<Rightarrow> Config \<Rightarrow> disk \<Rightarrow>
     (go_error + 'h sdk) \<times> disk" where
  "New ft hostname pid tmp now cfg0 d =
     (let c = applyDefaults hostname pid cfg0 in
      case Validate c of
        Some e \<Rightarrow> (Inl e, d)
      | None \<Rightarrow>
          (let mk = (\<lambda>b sp d'. \<lparr>
                  sub = \<lparr>cfg = c, schedCli = False, localBuffer = b, localSpool = sp, spool_disk = d'\<rparr>,
                  wrk = new_worker (\<lambda>_. None) c, started = False, conn_open = False,
                  stream_loop = False, retry_loop = False\<rparr>)
           in if LocalBufferEnabled c then
                (let b = newSubmitBuffer (LocalBufferCapacity c) in
                 if LocalBufferDiskSpillEnabled c then
                   (case newSubmitSpool ft tmp now (LocalBufferDiskSpillDir c)
                           (LocalBufferDiskSpillMaxBytes c) d of
                      (Inl e, d') \<Rightarrow> (Inl e, d')
                    | (Inr sp, d') \<Rightarrow> (Inr (mk (Some b) (Some sp) d'), d'))
                 else (Inr (mk (Some b) None d), d))
              else (Inr (mk None None d), d)))"

text \<open>A panic is \<^const>\<open>Inl\<close> of its message; a nil handler is \<^const>\<open>None\<close>.\<close>

definition RegisterHandler :: "string \<Rightarrow> 'h option \<Rightarrow> 'h sdk \<Rightarrow> string + 'h sdk" where
  "RegisterHandler jobName h s =
     (if jobName = '''' then Inl ''scheduler: RegisterHandler with empty jobName''
      else case h of
             None \<Rightarrow> Inl ''scheduler: RegisterHandler with nil handler''
           | Some f \<Rightarrow> Inr (s\<lparr>wrk := (wrk s)\<lparr>handlers := (handlers (wrk s))(jobName \<mapsto> f)\<rparr>\<rparr>))"

definition handlerNames :: "'h sdk \<Rightarrow> string set" where
  "handlerNames s = dom (handlers (wrk s))"

definition Start :: "go_error option \<Rightarrow> 'h sdk \<Rightarrow> go_error option \<times> 'h sdk" where
  "Start dial s =
     (if started s then (Some ErrAlreadyStarted, s)
      else case dial of
             Some e \<Rightarrow>
               (Some (ErrWrap (''scheduler: dial '' @ Endpoint (cfg (sub s))) e), s\<lparr>started := False\<rparr>)
           | None \<Rightarrow>
               (None, s\<lparr>started := True, conn_open := True, sub := (sub s)\<lparr>schedCli := True\<rparr>,
                        stream_loop := True, retry_loop := (localBuffer (sub s) \<noteq> None)\<rparr>))"

text \<open>
  \<^verbatim>\<open>Stop\<close> once its two waits are over (each ends when the awaited goroutines are done or the
  caller's context expires): the root context is cancelled, hence every session's context, both
  background loops end, and the connection is closed.  The stub stays set.
\<close>

definition Stop :: "'h sdk \<Rightarrow> 'h sdk" where
  "Stop s =
     (if \<not> started s then s
      else s\<lparr>started := False, conn_open := False, stream_loop := False, retry_loop := False,
             wrk := (wrk s)\<lparr>sessions := map (\<lambda>x. x\<lparr>s_done := True\<rparr>) (sessions (wrk s))\<rparr>\<rparr>)"

subsection \<open>Properties\<close>

definition sdk_ok :: "'h sdk \<Rightarrow> bool" where
  "sdk_ok s \<longleftrightarrow>
     cfg_ok (cfg (sub s)) \<and> worker_inv (cfg (sub s)) (wrk s) \<and>
     (localBuffer (sub s) \<noteq> None \<longleftrightarrow> LocalBufferEnabled (cfg (sub s))) \<and>
     (localSpool (sub s) \<noteq> None \<longleftrightarrow>
        LocalBufferEnabled (cfg (sub s)) \<and> LocalBufferDiskSpillEnabled (cfg (sub s))) \<and>
     (\<forall>b. localBuffer (sub s) = Some b \<longrightarrow> buffer_inv b \<and> buf_cap b = LocalBufferCapacity (cfg (sub s)))"

lemma New_cases:
  assumes "New ft h pid tmp now c0 d = (Inr s, d')"
  defines "c \<equiv> applyDefaults h pid c0"
  shows "Validate c = None" and "cfg (sub s) = c" and "wrk s = new_worker (\<lambda>_. None) c"
    and "\<not> started s \<and> \<not> schedCli (sub s)"
    and "localBuffer (sub s) = (if LocalBufferEnabled c then Some (newSubmitBuffer (LocalBufferCapacity c)) else None)"
    and "localSpool (sub s) \<noteq> None \<longleftrightarrow> LocalBufferEnabled c \<and> LocalBufferDiskSpillEnabled c"
    and "spool_disk (sub s) = d'"
  using assms(1) by (auto simp: New_def c_def Let_def split: option.splits if_splits prod.splits sum.splits)

text \<open>
  A client that \<^verbatim>\<open>New\<close> returns is usable: its configuration has every required field and
  positive limits whatever zero or negative values were given, the buffer exists exactly when it is
  enabled and the spool exactly when both switches are on, the buffer is within its invariant and
  the worker in its initial, consistent state.
\<close>

theorem new_client_ok:
  assumes "New ft h pid tmp now c0 d = (Inr (s :: 'h sdk), d')"
  shows "sdk_ok s \<and> \<not> started s \<and> \<not> schedCli (sub s) \<and> handlerNames s = {}"
proof -
  note N = New_cases [OF assms]
  have c: "cfg_ok (applyDefaults h pid c0)" using defaults_cfg_ok [OF N(1)] .
  then have "worker_inv (applyDefaults h pid c0) (wrk s)"
    unfolding N(3) by (intro new_worker_inv) (simp add: cfg_ok_def del: applyDefaults_simps)
  then show ?thesis using N c
    by (auto simp del: applyDefaults_simps simp: sdk_ok_def handlerNames_def new_worker_def cfg_ok_def intro!: new_buffer_inv split: if_splits)
qed

definition demo_sdk :: "unit sdk" where
  "demo_sdk = \<lparr>sub = \<lparr>cfg = demo_cfg, schedCli = False, localBuffer = None, localSpool = None, spool_disk = []\<rparr>,
     wrk = new_worker (\<lambda>_. None) demo_cfg, started = False, conn_open = False, stream_loop = False,
     retry_loop = False\<rparr>"

definition demo_cfg0 :: Config where
  "demo_cfg0 = \<lparr>Endpoint = ''sched:9000'', AppName = ''app'', AppKey = ''key'', AppSecret = ''secret'',
      WorkerID = '''', InstanceID = '''', IP = '''', SDKVersion = '''', MaxConcurrency = 2,
      DialTimeout = 0, HeartbeatInterval = 0, ReconnectMinBackoff = 0, ReconnectMaxBackoff = 0,
      SubmitTimeout = 0, MaxRecvMsgSizeMB = 0, MaxSendMsgSizeMB = 0, LocalBufferEnabled = False,
      LocalBufferCapacity = 0, LocalBufferRetryInterval = 0, LocalBufferRetryBatch = 0,
      LocalBufferDiskSpillEnabled = False, LocalBufferDiskSpillDir = '''',
      LocalBufferDiskSpillMaxBytes = 0\<rparr>"

lemma demo_New: "New no_faults (Some ''host'') 42 ''/tmp'' 0 demo_cfg0 [] = (Inr demo_sdk, [])"
proof -
  have c: "applyDefaults (Some ''host'') 42 demo_cfg0 = demo_cfg" by (simp add: demo_cfg_def demo_cfg0_def)
  have "Validate demo_cfg = None" "\<not> LocalBufferEnabled demo_cfg"
    by (simp_all add: demo_cfg_def Validate_None positive_or_def second_def)
  then show ?thesis by (simp add: New_def c demo_sdk_def Let_def)
qed

theorem new_client_ok_witness:
  "sdk_ok demo_sdk \<and> \<not> started demo_sdk \<and> handlerNames demo_sdk = {}"
  using new_client_ok [OF demo_New] by simp

text \<open>
  Start and stop.  A second start is refused and changes nothing; a failed dial leaves the client
  as it was, so that a later start can succeed; a successful start enables submission and runs the
  retry loop exactly when there is a buffer; stopping is idempotent, stops both loops, and a stopped
  client can be started again.
\<close>

theorem client_lifecycle:
  assumes "\<not> started s"
  shows "Start (Some e) s = (Some (ErrWrap (''scheduler: dial '' @ Endpoint (cfg (sub s))) e), s) \<and>
    (\<exists>s'. Start None s = (None, s') \<and> started s' \<and> schedCli (sub s') \<and> stream_loop s' \<and>
       (retry_loop s' \<longleftrightarrow> localBuffer (sub s) \<noteq> None) \<and>
       (\<forall>d. Start d s' = (Some ErrAlreadyStarted, s')) \<and>
       \<not> stream_loop (Stop s') \<and> \<not> retry_loop (Stop s') \<and> \<not> conn_open (Stop s') \<and>
       Stop (Stop s') = Stop s' \<and> fst (Start None (Stop s')) = None) \<and>
    Stop s = s"
  using assms by (simp add: Start_def Stop_def)

theorem client_lifecycle_witness:
  "fst (Start None demo_sdk) = None \<and> fst (Start None (snd (Start None demo_sdk))) = Some ErrAlreadyStarted"
proof -
  have "\<not> started demo_sdk" by (simp add: demo_sdk_def)
  from client_lifecycle [OF this, of ErrEOF] show ?thesis by auto
qed

text \<open>
  Before \<^verbatim>\<open>Start\<close> the submission calls are refused, while \<^verbatim>\<open>EnqueueTask\<close> on a client with a
  buffer queues the task in memory without contacting the scheduler.
\<close>

theorem before_start:
  assumes "New ft h pid tmp now c0 d = (Inr (s :: 'h sdk), d')" and "LocalBufferEnabled c0" and "JobName o' \<noteq> ''''"
  shows "fst (SubmitTask api (sub s) ctx o' w) = Inl ErrSubmitNotConnected \<and>
    (\<exists>b'. EnqueueTask api ft ctx o' (sub s) w =
       (Inr True, (sub s)\<lparr>localBuffer := Some b'\<rparr>, snd (time_Now api w)) \<and>
       map opts (queue b') = [o'])"
proof -
  note N = New_cases [OF assms(1)]
  let ?c = "applyDefaults h pid c0"
  have "cfg_ok ?c" using defaults_cfg_ok [OF N(1)] .
  then obtain k where cap: "0 < k" "k = LocalBufferCapacity ?c" by (simp add: cfg_ok_def)
  have lb: "localBuffer (sub s) = Some (newSubmitBuffer k)" "LocalBufferEnabled (cfg (sub s))"
    using N(2,5) assms(2) cap(2) by simp_all
  have "EnqueueTask api ft ctx o' (sub s) w = enqueue_now api ft o' (sub s) w"
    using N(4) lb assms(3) by (simp add: EnqueueTask_def)
  also have "\<dots> = (Inr True, (sub s)\<lparr>localBuffer := Some ((newSubmitBuffer k)
      \<lparr>queue := [\<lparr>opts = o', enqueuedAt = fst (time_Now api w), attempts = 0\<rparr>], notify := True\<rparr>)\<rparr>, snd (time_Now api w))"
    using lb(1) cap(1)
    by (simp add: enqueue_now_def enqueueBufferedTask_def submitBuffer_push_def newSubmitBuffer_def
        split: prod.split)
  finally have "\<exists>b'. EnqueueTask api ft ctx o' (sub s) w =
       (Inr True, (sub s)\<lparr>localBuffer := Some b'\<rparr>, snd (time_Now api w)) \<and> map opts (queue b') = [o']"
    by (intro exI conjI, assumption) simp
  then show ?thesis using N(4) by (simp add: SubmitTask_def)
qed

definition demo_cfg1 :: Config where
  "demo_cfg1 = demo_cfg0\<lparr>LocalBufferEnabled := True\<rparr>"

theorem before_start_witness:
  "\<exists>s :: unit sdk. New no_faults (Some ''host'') 42 ''/tmp'' 0 demo_cfg1 [] = (Inr s, []) \<and>
     fst (SubmitTask demo_api (sub s) None demo_opts []) = Inl ErrSubmitNotConnected"
proof -
  let ?c = "applyDefaults (Some ''host'') 42 demo_cfg1"
  have "Validate ?c = None" "LocalBufferEnabled ?c" "\<not> LocalBufferDiskSpillEnabled ?c"
    by (simp_all add: demo_cfg1_def demo_cfg0_def Validate_None positive_or_def second_def)
  then obtain s :: "unit sdk" where s: "New no_faults (Some ''host'') 42 ''/tmp'' 0 demo_cfg1 [] = (Inr s, [])"
    by (simp add: New_def Let_def)
  have "LocalBufferEnabled demo_cfg1" "JobName demo_opts \<noteq> ''''"
    by (simp_all add: demo_cfg1_def demo_opts_def)
  from before_start [OF s this, of demo_api None "[]"] s show ?thesis by blast
qed

end
