(* ===== verification/GoFloat.thy ===== *)
theory GoFloat
  imports GoBase Complex_Main
begin

text \<open>
  Go's \<^verbatim>\<open>float64\<close>.  A finite value is the rational number it denotes (the two zeros are
  identified: no operation of the modelled code tells them apart); every arithmetic operation is the
  exact rational result rounded to the nearest double, ties to even, with gradual underflow and
  overflow to an infinity.  The main fact is that rounding is monotone and leaves the integers up to
  \<open>2 ^ 53\<close> alone.
\<close>

subsection \<open>Rounding to an integer\<close>

definition rne :: "rat \<Rightarrow> int" where
  \<comment> \<open>to the nearest integer, ties to even\<close>
  "rne q = (let f = \<lfloor>q\<rfloor>; d = q - of_int f
            in if d < 1 / 2 then f else if d > 1 / 2 then f + 1 else if even f then f else f + 1)"

lemma rne_of_int [simp]: "rne (of_int n) = n"
  by (simp add: rne_def)

lemma rne_bounds: "\<lfloor>q\<rfloor> \<le> rne q" "rne q \<le> \<lfloor>q\<rfloor> + 1"
  by (simp_all add: rne_def Let_def)

lemma rne_mono: "q \<le> r \<Longrightarrow> rne q \<le> rne r"
proof (cases "\<lfloor>q\<rfloor> = \<lfloor>r\<rfloor>")
  case True
  assume "q \<le> r"
  then have "q - of_int \<lfloor>r\<rfloor> \<le> r - of_int \<lfloor>r\<rfloor>" by simp
  then show ?thesis using True by (auto simp: rne_def Let_def)
next
  case False
  assume "q \<le> r"
  then have "\<lfloor>q\<rfloor> + 1 \<le> \<lfloor>r\<rfloor>" using False floor_mono [of q r] by linarith
  then show ?thesis using rne_bounds [of q] rne_bounds [of r] by linarith
qed

lemma rne_nonneg: "0 \<le> q \<Longrightarrow> 0 \<le> rne q"
  using rne_mono [of 0 q] rne_of_int [of 0] by simp

subsection \<open>The exponent of a positive rational\<close>

fun bl :: "nat \<Rightarrow> nat" where
  "bl n = (if n = 0 then 0 else Suc (bl (n div 2)))"

declare bl.simps [simp del]

lemma bl_bounds: "0 < n \<Longrightarrow> 2 ^ (bl n - 1) \<le> n \<and> n < 2 ^ bl n"
proof (induction n rule: bl.induct)
  case (1 n)
  show ?case
  proof (cases "n div 2 = 0")
    case True
    then have "n = 1" using "1.prems" by auto
    then show ?thesis by (simp add: bl.simps)
  next
    case False
    then have IH: "2 ^ (bl (n div 2) - 1) \<le> n div 2" "n div 2 < 2 ^ bl (n div 2)" using "1.IH" "1.prems" by auto
    have b: "bl n = Suc (bl (n div 2))" using "1.prems" by (simp add: bl.simps [of n])
    have pos: "0 < bl (n div 2)" using False by (subst bl.simps) simp
    then obtain k where k: "bl (n div 2) = Suc k" by (cases "bl (n div 2)") auto
    show ?thesis using IH b k by simp linarith
  qed
qed

definition pow2 :: "int \<Rightarrow> rat" where
  "pow2 k = (if 0 \<le> k then 2 ^ nat k else 1 / 2 ^ nat (- k))"

lemma pow2_pos [simp]: "0 < pow2 k"
  by (simp add: pow2_def)

lemma pow2_powi: "pow2 k = 2 powi k"
  by (auto simp: pow2_def power_int_def power_one_over inverse_eq_divide)

lemma pow2_add: "pow2 (a + b) = pow2 a * pow2 b"
  by (simp add: pow2_powi power_int_add)

lemma pow2_diff: "pow2 (a - b) = pow2 a / pow2 b"
  by (simp add: pow2_powi power_int_diff)

lemma pow2_mono: "a \<le> b \<Longrightarrow> pow2 a \<le> pow2 b"
  by (simp add: pow2_powi power_int_increasing)

lemma pow2_nat: "0 \<le> k \<Longrightarrow> pow2 k = of_int (2 ^ nat k)"
  by (simp add: pow2_def)

definition expo :: "rat \<Rightarrow> int" where
  "expo x = (let (p, q) = quotient_of x; n = int (bl (nat p)) - int (bl (nat q))
             in if pow2 n \<le> x then n else n - 1)"

lemma pow2_int: "pow2 (int k) = of_nat (2 ^ k)"
  by (simp add: pow2_def)

lemma bl_rat:
  assumes "0 < p"
  shows "pow2 (int (bl (nat p)) - 1) \<le> of_int p" and "of_int p < pow2 (int (bl (nat p)))"
proof -
  have b: "2 ^ (bl (nat p) - 1) \<le> nat p" "nat p < 2 ^ bl (nat p)" using bl_bounds [of "nat p"] assms by auto
  have pos: "0 < bl (nat p)" using assms by (subst bl.simps) simp
  have eq: "(of_int p :: rat) = of_nat (nat p)" using assms by simp
  have "(of_nat (nat p) :: rat) < of_nat (2 ^ bl (nat p))" using b(2) by (simp only: of_nat_less_iff)
  then show "of_int p < pow2 (int (bl (nat p)))" by (simp only: eq pow2_int)
  have "(of_nat (2 ^ (bl (nat p) - 1)) :: rat) \<le> of_nat (nat p)" using b(1) by (simp only: of_nat_le_iff)
  moreover have "int (bl (nat p)) - 1 = int (bl (nat p) - 1)" using pos by simp
  ultimately show "pow2 (int (bl (nat p)) - 1) \<le> of_int p" by (simp only: eq pow2_int)
qed

lemma expo_bounds:
  assumes "0 < x"
  shows "pow2 (expo x) \<le> x" "x < pow2 (expo x + 1)"
proof -
  obtain p q where pq: "quotient_of x = (p, q)" by (cases "quotient_of x")
  have q: "0 < q" using quotient_of_denom_pos [OF pq] .
  have x: "x = of_int p / of_int q" using quotient_of_div [OF pq] .
  have p: "0 < p" using assms q by (simp add: x zero_less_divide_iff)
  define a b where "a = int (bl (nat p))" and "b = int (bl (nat q))"
  have P: "pow2 (a - 1) \<le> of_int p" "of_int p < pow2 a" using bl_rat [OF p] by (simp_all add: a_def)
  have Q: "pow2 (b - 1) \<le> of_int q" "of_int q < pow2 b" using bl_rat [OF q] by (simp_all add: b_def)
  have lo: "pow2 (a - b - 1) \<le> x"
  proof -
    have "pow2 (a - b - 1) = pow2 (a - 1) / pow2 b" by (simp add: algebra_simps flip: pow2_diff)
    also have "\<dots> \<le> of_int p / of_int q" using P(1) Q(2) q p by (intro frac_le) auto
    finally show ?thesis by (simp add: x)
  qed
  have hi: "x < pow2 (a - b + 1)"
  proof -
    have "x < pow2 a / pow2 (b - 1)" unfolding x using P(2) Q(1) q p by (intro frac_less) auto
    also have "\<dots> = pow2 (a - b + 1)" by (simp add: algebra_simps flip: pow2_diff)
    finally show ?thesis .
  qed
  have e: "expo x = (if pow2 (a - b) \<le> x then a - b else a - b - 1)"
    by (simp add: expo_def pq a_def b_def Let_def)
  show "pow2 (expo x) \<le> x" using e lo by auto
  show "x < pow2 (expo x + 1)" using e hi by auto
qed

lemma expo_mono:
  assumes "0 < x" and "x \<le> y"
  shows "expo x \<le> expo y"
proof (rule ccontr)
  assume "\<not> expo x \<le> expo y"
  then have "pow2 (expo y + 1) \<le> pow2 (expo x)" by (intro pow2_mono) simp
  also have "\<dots> \<le> x" using expo_bounds(1) [OF assms(1)] .
  finally show False using expo_bounds(2) [of y] assms by simp
qed

subsection \<open>Rounding to a double\<close>

definition ulp_exp :: "rat \<Rightarrow> int" where
  "ulp_exp x = max (expo x - 52) (- 1074)"

definition rnd_pos :: "rat \<Rightarrow> rat" where
  "rnd_pos x = of_int (rne (x / pow2 (ulp_exp x))) * pow2 (ulp_exp x)"

lemma rnd_pos_le_pow:
  assumes "0 < x" and "x \<le> pow2 k" and "ulp_exp x \<le> k"
  shows "rnd_pos x \<le> pow2 k"
proof -
  let ?u = "pow2 (ulp_exp x)"
  have "x / ?u \<le> pow2 (k - ulp_exp x)"
    using divide_right_mono [OF assms(2), of ?u] by (simp add: pow2_diff less_imp_le)
  also have "\<dots> = of_int (2 ^ nat (k - ulp_exp x))" using assms(3) by (simp add: pow2_nat)
  finally have "rne (x / ?u) \<le> 2 ^ nat (k - ulp_exp x)" using rne_mono rne_of_int by metis
  then have "(of_int (rne (x / ?u)) :: rat) \<le> pow2 (k - ulp_exp x)"
    using assms(3) by (simp only: pow2_nat of_int_le_iff diff_ge_0_iff_ge)
  then have "rnd_pos x \<le> pow2 (k - ulp_exp x) * ?u"
    unfolding rnd_pos_def by (intro mult_right_mono) (auto simp: less_imp_le)
  then show ?thesis by (simp flip: pow2_add)
qed

lemma rnd_pos_ge_pow:
  assumes "pow2 k \<le> x" and "ulp_exp x \<le> k"
  shows "pow2 k \<le> rnd_pos x"
proof -
  let ?u = "pow2 (ulp_exp x)"
  have "of_int (2 ^ nat (k - ulp_exp x)) = pow2 (k - ulp_exp x)" using assms(2) by (simp add: pow2_nat)
  also have "\<dots> \<le> x / ?u"
    using divide_right_mono [OF assms(1), of ?u] by (simp add: pow2_diff less_imp_le)
  finally have "2 ^ nat (k - ulp_exp x) \<le> rne (x / ?u)" using rne_mono rne_of_int by metis
  then have "pow2 (k - ulp_exp x) \<le> (of_int (rne (x / ?u)) :: rat)"
    using assms(2) by (simp only: pow2_nat of_int_le_iff diff_ge_0_iff_ge)
  then have "pow2 (k - ulp_exp x) * ?u \<le> rnd_pos x"
    unfolding rnd_pos_def by (intro mult_right_mono) (auto simp: less_imp_le)
  then show ?thesis by (simp flip: pow2_add)
qed

lemma rnd_pos_mono:
  assumes "0 < x" and "x \<le> y"
  shows "rnd_pos x \<le> rnd_pos y"
proof (cases "ulp_exp x = ulp_exp y")
  case True
  have "x / pow2 (ulp_exp y) \<le> y / pow2 (ulp_exp y)"
    using assms(2) by (intro divide_right_mono) (auto simp: less_imp_le)
  then have "(of_int (rne (x / pow2 (ulp_exp y))) :: rat) \<le> of_int (rne (y / pow2 (ulp_exp y)))"
    using rne_mono by simp
  then show ?thesis unfolding rnd_pos_def True
    by (intro mult_right_mono) (auto simp: less_imp_le)
next
  case False
  have e: "expo x \<le> expo y" using expo_mono assms by blast
  then have lt: "expo x < expo y" "- 1074 < expo y - 52" using False by (auto simp: ulp_exp_def max_def split: if_splits)
  have "x \<le> pow2 (expo y)"
    using expo_bounds(2) [OF assms(1)] pow2_mono [of "expo x + 1" "expo y"] lt(1) by simp
  then have "rnd_pos x \<le> pow2 (expo y)"
    using assms(1) lt by (intro rnd_pos_le_pow) (auto simp: ulp_exp_def)
  also have "\<dots> \<le> rnd_pos y"
    using expo_bounds(1) [of y] assms lt by (intro rnd_pos_ge_pow) (auto simp: ulp_exp_def)
  finally show ?thesis .
qed

lemma rnd_pos_nonneg: "0 < x \<Longrightarrow> 0 \<le> rnd_pos x"
  unfolding rnd_pos_def by (intro mult_nonneg_nonneg) (auto intro!: rne_nonneg divide_nonneg_pos simp: less_imp_le)

lemma expo_pow2: "expo (pow2 k) = k"
proof -
  have b: "pow2 (expo (pow2 k)) \<le> pow2 k" "pow2 k < pow2 (expo (pow2 k) + 1)"
    using expo_bounds [of "pow2 k"] by simp_all
  have "\<not> expo (pow2 k) + 1 \<le> k" using b(2) pow2_mono by (meson leD)
  moreover have "\<not> k + 1 \<le> expo (pow2 k)"
  proof
    assume "k + 1 \<le> expo (pow2 k)"
    then have "pow2 (k + 1) \<le> pow2 k" using pow2_mono b(1) by (meson order_trans)
    moreover have "pow2 (k + 1) = 2 * pow2 k" by (simp add: pow2_add) (simp add: pow2_def)
    ultimately show False using pow2_pos [of k] by linarith
  qed
  ultimately show ?thesis by linarith
qed

lemma rnd_pos_pow2: "- 1074 \<le> k \<Longrightarrow> rnd_pos (pow2 k) = pow2 k"
  by (intro antisym rnd_pos_le_pow rnd_pos_ge_pow) (auto simp: ulp_exp_def expo_pow2)

lemma pow2_nonpos: "k \<le> 0 \<Longrightarrow> pow2 k = 1 / of_int (2 ^ nat (- k))"
  by (cases "k = 0") (simp_all add: pow2_def)

text \<open>Positive integers up to \<open>2 ^ 53\<close> are doubles.\<close>

lemma rnd_pos_int:
  assumes "0 < n" and "n \<le> 2 ^ 53"
  shows "rnd_pos (of_int n) = of_int n"
proof (cases "n = 2 ^ 53")
  case True
  have "of_int n = pow2 53" by (simp add: True pow2_def)
  then show ?thesis by (simp add: rnd_pos_pow2)
next
  case False
  then have lt: "n < 2 ^ 53" using assms(2) by simp
  let ?x = "of_int n :: rat"
  have "\<not> 53 \<le> expo ?x"
  proof
    assume "53 \<le> expo ?x"
    then have "pow2 53 \<le> ?x" using expo_bounds(1) [of ?x] pow2_mono [of 53 "expo ?x"] assms(1) by simp
    then have "of_int (2 ^ 53) \<le> ?x" by (simp add: pow2_def)
    then show False using lt by (simp only: of_int_le_iff)
  qed
  then have u: "ulp_exp ?x \<le> 0" by (simp add: ulp_exp_def)
  define c where "c = (2 :: int) ^ nat (- ulp_exp ?x)"
  have c: "pow2 (ulp_exp ?x) = 1 / of_int c" "c \<noteq> 0" using pow2_nonpos [OF u] by (simp_all add: c_def)
  have "?x / pow2 (ulp_exp ?x) = of_int (n * c)" using c by simp
  then have "rne (?x / pow2 (ulp_exp ?x)) = n * c" using rne_of_int by metis
  then show ?thesis using c by (simp add: rnd_pos_def)
qed

subsection \<open>Values and operations\<close>

datatype f64 = NaN | NegInf | Fin rat | PosInf

definition rnd :: "rat \<Rightarrow> f64" where
  "rnd x = (if x = 0 then Fin 0
            else let y = rnd_pos \<bar>x\<bar> in
              if y \<ge> 2 ^ 1024 then (if x < 0 then NegInf else PosInf)
              else Fin (if x < 0 then - y else y))"

definition f64_of_int :: "int \<Rightarrow> f64" where
  "f64_of_int n = rnd (of_int n)"

text \<open>Go's comparison operators: false when an operand is not a number.\<close>

fun flt :: "f64 \<Rightarrow> f64 \<Rightarrow> bool" where
  "flt NaN y = False"
| "flt x NaN = False"
| "flt (Fin x) (Fin y) = (x < y)"
| "flt NegInf y = (y \<noteq> NegInf)"
| "flt x NegInf = False"
| "flt PosInf y = False"
| "flt x PosInf = True"

definition feq :: "f64 \<Rightarrow> f64 \<Rightarrow> bool" where
  "feq x y \<longleftrightarrow> x = y \<and> x \<noteq> NaN"

definition fle :: "f64 \<Rightarrow> f64 \<Rightarrow> bool" where
  "fle x y \<longleftrightarrow> flt x y \<or> feq x y"

fun fneg :: "f64 \<Rightarrow> f64" where
  "fneg NaN = NaN"
| "fneg NegInf = PosInf"
| "fneg PosInf = NegInf"
| "fneg (Fin x) = Fin (- x)"

fun fabs :: "f64 \<Rightarrow> f64" where
  "fabs NaN = NaN"
| "fabs NegInf = PosInf"
| "fabs PosInf = PosInf"
| "fabs (Fin x) = Fin \<bar>x\<bar>"

fun fadd :: "f64 \<Rightarrow> f64 \<Rightarrow> f64" where
  "fadd NaN y = NaN"
| "fadd x NaN = NaN"
| "fadd (Fin x) (Fin y) = rnd (x + y)"
| "fadd (Fin x) y = y"
| "fadd x (Fin y) = x"
| "fadd x y = (if x = y then x else NaN)"

definition fsub :: "f64 \<Rightarrow> f64 \<Rightarrow> f64" where
  "fsub x y = fadd x (fneg y)"

definition finf :: "rat \<Rightarrow> f64" where
  "finf s = (if s < 0 then NegInf else if s = 0 then NaN else PosInf)"

fun fsgn :: "f64 \<Rightarrow> rat" where
  "fsgn NaN = 0"
| "fsgn NegInf = - 1"
| "fsgn PosInf = 1"
| "fsgn (Fin x) = sgn x"

fun fmul :: "f64 \<Rightarrow> f64 \<Rightarrow> f64" where
  "fmul NaN y = NaN"
| "fmul x NaN = NaN"
| "fmul (Fin x) (Fin y) = rnd (x * y)"
| "fmul x y = finf (fsgn x * fsgn y)"

text \<open>A division by zero is an infinity of the dividend's sign (the zero is taken as positive).\<close>

fun fdiv :: "f64 \<Rightarrow> f64 \<Rightarrow> f64" where
  "fdiv NaN y = NaN"
| "fdiv x NaN = NaN"
| "fdiv (Fin x) (Fin y) = (if y = 0 then finf (sgn x) else rnd (x / y))"
| "fdiv (Fin x) y = Fin 0"
| "fdiv x (Fin y) = finf (fsgn x * (if y < 0 then - 1 else 1))"
| "fdiv x y = NaN"

text \<open>\<^verbatim>\<open>int(x)\<close> truncates; the conversion of a value out of range is unspecified in Go and 0 here.\<close>

fun f64_trunc :: "f64 \<Rightarrow> int" where
  "f64_trunc (Fin x) = (if x < 0 then - \<lfloor>- x\<rfloor> else \<lfloor>x\<rfloor>)"
| "f64_trunc x = 0"

text \<open>The order of \<^verbatim>\<open>sort.Float64s\<close>: as \<open>flt\<close>, with the not-a-numbers first.\<close>

fun f64_rank :: "f64 \<Rightarrow> nat" where
  "f64_rank NaN = 0"
| "f64_rank NegInf = 1"
| "f64_rank (Fin x) = 2"
| "f64_rank PosInf = 3"

fun f64_le :: "f64 \<Rightarrow> f64 \<Rightarrow> bool" where
  "f64_le (Fin x) (Fin y) = (x \<le> y)"
| "f64_le x y = (f64_rank x \<le> f64_rank y)"

instantiation f64 :: linorder
begin

definition less_eq_f64 :: "f64 \<Rightarrow> f64 \<Rightarrow> bool" where
  "less_eq_f64 = f64_le"

definition less_f64 :: "f64 \<Rightarrow> f64 \<Rightarrow> bool" where
  "less_f64 x y \<longleftrightarrow> f64_le x y \<and> \<not> f64_le y x"

instance
proof
  fix x y z :: f64
  show "x < y \<longleftrightarrow> x \<le> y \<and> \<not> y \<le> x" by (simp add: less_f64_def less_eq_f64_def)
  show "x \<le> x" by (cases x) (auto simp: less_eq_f64_def)
  show "x \<le> y \<Longrightarrow> y \<le> z \<Longrightarrow> x \<le> z" by (cases x; cases y; cases z) (auto simp: less_eq_f64_def)
  show "x \<le> y \<Longrightarrow> y \<le> x \<Longrightarrow> x = y" by (cases x; cases y) (auto simp: less_eq_f64_def)
  show "x \<le> y \<or> y \<le> x" by (cases x; cases y) (auto simp: less_eq_f64_def)
qed

end

lemma le_f64_simps [simp]:
  "Fin x \<le> Fin y \<longleftrightarrow> x \<le> y" "NegInf \<le> Fin y" "\<not> PosInf \<le> Fin y" "\<not> Fin x \<le> NegInf"
  "NaN \<le> z" "z \<le> PosInf"
  by (simp_all add: less_eq_f64_def, (cases z, simp_all)+)

lemma flt_iff: "flt x y \<longleftrightarrow> x < y \<and> x \<noteq> NaN"
  by (cases x; cases y) (auto simp: less_f64_def)

lemma fle_iff: "fle x y \<longleftrightarrow> x \<le> y \<and> x \<noteq> NaN"
  by (cases x; cases y) (auto simp: fle_def feq_def less_eq_f64_def flt_iff less_f64_def)

text \<open>\<^verbatim>\<open>%.nf\<close>: the exact value rounded half-even to \<open>n\<close> decimals.\<close>

definition format_fixed :: "nat \<Rightarrow> f64 \<Rightarrow> string" where
  "format_fixed n x =
     (case x of
        NaN \<Rightarrow> ''NaN''
      | PosInf \<Rightarrow> ''+Inf''
      | NegInf \<Rightarrow> ''-Inf''
      | Fin q \<Rightarrow>
          (let k = nat (rne (\<bar>q\<bar> * 10 ^ n))
           in (if q < 0 then ''-'' else '''') @ decimal (k div 10 ^ n) @
              (if n = 0 then '''' else ''.'' @ pad_left n (decimal (k mod 10 ^ n)))))"

subsection \<open>Facts\<close>

lemma rnd_zero [simp]: "rnd 0 = Fin 0"
  by (simp add: rnd_def)

lemma rnd_not_NaN [simp]: "rnd x \<noteq> NaN"
  by (simp add: rnd_def Let_def)

lemma rnd_mono: "x \<le> y \<Longrightarrow> rnd x \<le> rnd y"
proof -
  assume le: "x \<le> y"
  have pos: "rnd a \<le> rnd b" if "0 < a" "a \<le> b" for a b
    using rnd_pos_mono [OF that] that by (auto simp: rnd_def Let_def)
  have neg: "rnd a \<le> rnd b" if "a \<le> b" "b < 0" for a b
    using rnd_pos_mono [of "- b" "- a"] that by (auto simp: rnd_def Let_def)
  have sgn1: "rnd a \<le> Fin 0" if "a < 0" for a
    using rnd_pos_nonneg [of "- a"] that by (auto simp: rnd_def Let_def)
  have sgn2: "Fin 0 \<le> rnd a" if "0 < a" for a
    using rnd_pos_nonneg [of a] that by (auto simp: rnd_def Let_def)
  consider "0 < x" | "y < 0" | "x \<le> 0" "0 \<le> y" by linarith
  then show ?thesis
  proof cases
    case 3
    have "rnd x \<le> Fin 0" using sgn1 [of x] 3(1) by (cases "x = 0") auto
    also have "Fin 0 \<le> rnd y" using sgn2 [of y] 3(2) by (cases "y = 0") auto
    finally show ?thesis .
  qed (use pos neg le in auto)
qed

lemma rnd_int: "\<bar>n\<bar> \<le> 2 ^ 53 \<Longrightarrow> rnd (of_int n) = Fin (of_int n)"
proof -
  assume a: "\<bar>n\<bar> \<le> 2 ^ 53"
  show ?thesis
  proof (cases "n = 0")
    case False
    have "rnd_pos (of_int \<bar>n\<bar>) = of_int \<bar>n\<bar>" using rnd_pos_int [of "\<bar>n\<bar>"] a False by simp
    moreover have "(of_int \<bar>n\<bar> :: rat) \<le> of_int (2 ^ 53)" using a by (simp only: of_int_le_iff)
    then have "(of_int \<bar>n\<bar> :: rat) < 2 ^ 1024" by (rule le_less_trans) simp
    ultimately show ?thesis using False by (auto simp: rnd_def Let_def abs_if split: if_splits)
  qed simp
qed

lemma f64_of_int_small: "\<bar>n\<bar> \<le> 2 ^ 53 \<Longrightarrow> f64_of_int n = Fin (of_int n)"
  by (simp add: f64_of_int_def rnd_int)

lemma f64_of_int_mono: "m \<le> n \<Longrightarrow> f64_of_int m \<le> f64_of_int n"
  by (simp add: f64_of_int_def rnd_mono)

lemma f64_of_int_not_NaN [simp]: "f64_of_int n \<noteq> NaN"
  by (simp add: f64_of_int_def)

end
