(* ===== verification/Metrics.thy ===== *)
theory Metrics
  imports GoFloat
begin

text \<open>
  The metrics package (\<^verbatim>\<open>src/pkg/metrics\<close>): the four kinds of metric, the registry that creates and
  collects them, and the package-level functions on the global registry.  Every method on a metric is
  one atomic operation (\<^verbatim>\<open>sync/atomic\<close>, a compare-and-swap loop, or a mutex), hence a function on its
  state.  A \<^verbatim>\<open>sync.Map\<close> is an association list with distinct keys; a tag map is a HOL map.  The theory
  shows that no count is lost between collections, that rates lie in the unit interval, which
  histogram statistics are right, and what happens when two kinds share a name.
\<close>

type_synonym tags = "string \<Rightarrow> string option"

subsection \<open>Counter (\<^verbatim>\<open>counter.go\<close>)\<close>

record CounterMetric =
  cm_name :: string
  cm_value :: int
  cm_tags :: tags

definition newCounter :: "string \<Rightarrow> CounterMetric" where
  "newCounter name = \<lparr>cm_name = name, cm_value = 0, cm_tags = (\<lambda>_. None)\<rparr>"

definition Counter_Add :: "int \<Rightarrow> CounterMetric \<Rightarrow> CounterMetric" where
  "Counter_Add delta c = c\<lparr>cm_value := wrap64 (cm_value c + delta)\<rparr>"

definition Counter_Inc :: "CounterMetric \<Rightarrow> CounterMetric" where
  "Counter_Inc c = c\<lparr>cm_value := wrap64 (cm_value c + 1)\<rparr>"

definition Counter_Value :: "CounterMetric \<Rightarrow> int" where
  "Counter_Value c = cm_value c"

definition Counter_Reset :: "CounterMetric \<Rightarrow> int \<times> CounterMetric" where
  "Counter_Reset c = (cm_value c, c\<lparr>cm_value := 0\<rparr>)"

definition Counter_WithTags :: "tags \<Rightarrow> CounterMetric \<Rightarrow> CounterMetric" where
  "Counter_WithTags t c = c\<lparr>cm_tags := cm_tags c ++ t\<rparr>"

subsection \<open>Gauge (\<^verbatim>\<open>gauge.go\<close>)\<close>

record GaugeMetric =
  gm_name :: string
  gm_value :: f64
  gm_tags :: tags

definition newGauge :: "string \<Rightarrow> GaugeMetric" where
  "newGauge name = \<lparr>gm_name = name, gm_value = Fin 0, gm_tags = (\<lambda>_. None)\<rparr>"

definition Gauge_Set :: "f64 \<Rightarrow> GaugeMetric \<Rightarrow> GaugeMetric" where
  "Gauge_Set v g = g\<lparr>gm_value := v\<rparr>"

text \<open>The compare-and-swap loops of \<^verbatim>\<open>Inc\<close>, \<^verbatim>\<open>Dec\<close> and \<^verbatim>\<open>Add\<close> take effect at the successful swap.\<close>

definition Gauge_Add :: "f64 \<Rightarrow> GaugeMetric \<Rightarrow> GaugeMetric" where
  "Gauge_Add delta g = g\<lparr>gm_value := fadd (gm_value g) delta\<rparr>"

definition Gauge_Inc :: "GaugeMetric \<Rightarrow> GaugeMetric" where
  "Gauge_Inc g = g\<lparr>gm_value := fadd (gm_value g) (Fin 1)\<rparr>"

definition Gauge_Dec :: "GaugeMetric \<Rightarrow> GaugeMetric" where
  "Gauge_Dec g = g\<lparr>gm_value := fsub (gm_value g) (Fin 1)\<rparr>"

definition Gauge_Value :: "GaugeMetric \<Rightarrow> f64" where
  "Gauge_Value g = gm_value g"

definition Gauge_WithTags :: "tags \<Rightarrow> GaugeMetric \<Rightarrow> GaugeMetric" where
  "Gauge_WithTags t g = g\<lparr>gm_tags := gm_tags g ++ t\<rparr>"

subsection \<open>Rate (\<^verbatim>\<open>rate.go\<close>)\<close>

record RateMetric =
  rm_name :: string
  rm_success :: int
  rm_fail :: int
  rm_tags :: tags

record RateSnapshot =
  rs_Total :: int
  rs_Success :: int
  rs_Fail :: int
  rs_Rate :: f64

definition newRate :: "string \<Rightarrow> RateMetric" where
  "newRate name = \<lparr>rm_name = name, rm_success = 0, rm_fail = 0, rm_tags = (\<lambda>_. None)\<rparr>"

definition RecordSuccess :: "RateMetric \<Rightarrow> RateMetric" where
  "RecordSuccess r = r\<lparr>rm_success := wrap64 (rm_success r + 1)\<rparr>"

definition RecordFail :: "RateMetric \<Rightarrow> RateMetric" where
  "RecordFail r = r\<lparr>rm_fail := wrap64 (rm_fail r + 1)\<rparr>"

definition buildRateSnapshot :: "int \<Rightarrow> int \<Rightarrow> RateSnapshot" where
  "buildRateSnapshot success fail =
     (let total = wrap64 (success + fail);
          rate = (if total > 0 then fdiv (f64_of_int fail) (f64_of_int total) else Fin 0)
      in \<lparr>rs_Total = total, rs_Success = success, rs_Fail = fail, rs_Rate = rate\<rparr>)"

definition Rate_Snapshot :: "RateMetric \<Rightarrow> RateSnapshot" where
  "Rate_Snapshot r = buildRateSnapshot (rm_success r) (rm_fail r)"

definition Rate_Reset :: "RateMetric \<Rightarrow> RateSnapshot \<times> RateMetric" where
  "Rate_Reset r = (buildRateSnapshot (rm_success r) (rm_fail r), r\<lparr>rm_success := 0, rm_fail := 0\<rparr>)"

definition Rate_WithTags :: "tags \<Rightarrow> RateMetric \<Rightarrow> RateMetric" where
  "Rate_WithTags t r = r\<lparr>rm_tags := rm_tags r ++ t\<rparr>"

subsection \<open>Histogram (\<^verbatim>\<open>histogram.go\<close>)\<close>

record HistogramMetric =
  hm_name :: string
  hm_values :: "f64 list"
  hm_tags :: tags
  hm_maxSize :: int

record HistogramSnapshot =
  hs_Count :: int
  hs_P50 :: f64
  hs_P95 :: f64
  hs_P99 :: f64
  hs_Avg :: f64
  hs_Max :: f64
  hs_Min :: f64

definition defaultMaxSampleSize :: int where
  "defaultMaxSampleSize = 10000"

definition newHistogram :: "string \<Rightarrow> HistogramMetric" where
  "newHistogram name = \<lparr>hm_name = name, hm_values = [], hm_tags = (\<lambda>_. None),
     hm_maxSize = defaultMaxSampleSize\<rparr>"

definition Observe :: "f64 \<Rightarrow> HistogramMetric \<Rightarrow> HistogramMetric" where
  "Observe v h = (if int (length (hm_values h)) < hm_maxSize h
                  then h\<lparr>hm_values := hm_values h @ [v]\<rparr> else h)"

definition smallest_nonzero :: f64 where
  "smallest_nonzero = Fin (pow2 (- 1074))"

definition max_float :: f64 where
  "max_float = Fin ((2 ^ 53 - 1) * 2 ^ 971)"

definition percentile :: "f64 list \<Rightarrow> f64 \<Rightarrow> f64" where
  "percentile xs p =
     (let n = length xs in
      if n = 0 then Fin 0
      else if n = 1 then xs ! 0
      else (let idx = fmul p (f64_of_int (int n - 1));
                lower = f64_trunc idx;
                upper = lower + 1
            in if upper \<ge> int n then xs ! (n - 1)
               else (let frac = fsub idx (f64_of_int lower)
                     in fadd (fmul (xs ! nat lower) (fsub (Fin 1) frac))
                             (fmul (xs ! nat upper) frac))))"

definition calcSnapshot :: "f64 list \<Rightarrow> HistogramSnapshot" where
  "calcSnapshot values0 =
     (let n = length values0 in
      if n = 0 then \<lparr>hs_Count = 0, hs_P50 = Fin 0, hs_P95 = Fin 0, hs_P99 = Fin 0, hs_Avg = Fin 0,
                      hs_Max = Fin 0, hs_Min = Fin 0\<rparr>
      else (let values = sort values0;
                (sum, maxVal, minVal) =
                  foldl (\<lambda>(s, mx, mn) v. (fadd s v, if flt mx v then v else mx, if flt v mn then v else mn))
                    (Fin 0, smallest_nonzero, max_float) values
            in \<lparr>hs_Count = int n,
                hs_P50 = percentile values (rnd (50 / 100)),
                hs_P95 = percentile values (rnd (95 / 100)),
                hs_P99 = percentile values (rnd (99 / 100)),
                hs_Avg = fdiv sum (f64_of_int (int n)), hs_Max = maxVal, hs_Min = minVal\<rparr>))"

definition Histogram_Snapshot :: "HistogramMetric \<Rightarrow> HistogramSnapshot" where
  "Histogram_Snapshot h = calcSnapshot (hm_values h)"

definition Histogram_Reset :: "HistogramMetric \<Rightarrow> HistogramSnapshot \<times> HistogramMetric" where
  "Histogram_Reset h = (calcSnapshot (hm_values h), h\<lparr>hm_values := []\<rparr>)"

definition Histogram_WithTags :: "tags \<Rightarrow> HistogramMetric \<Rightarrow> HistogramMetric" where
  "Histogram_WithTags t h = h\<lparr>hm_tags := hm_tags h ++ t\<rparr>"

subsection \<open>Registry (\<^verbatim>\<open>registry.go\<close>, \<^verbatim>\<open>snapshot.go\<close>)\<close>

datatype MetricType = MetricTypeCounter | MetricTypeGauge | MetricTypeHistogram | MetricTypeRate

record Snapshot =
  sn_Name :: string
  sn_Type :: MetricType
  sn_Counter :: "int option"
  sn_Gauge :: "f64 option"
  sn_Histogram :: "HistogramSnapshot option"
  sn_Rate :: "RateSnapshot option"
  sn_Tags :: tags
  sn_ServiceName :: string
  sn_Timestamp :: instant

text \<open>
  The callback is the list of receivers it reaches: the Prometheus exporter, the function the caller
  gave.  \<^const>\<open>None\<close> is a nil callback.
\<close>

datatype sink = PromExporter | UserCallback

record Registry =
  counters :: "(string \<times> CounterMetric) list"
  gauges :: "(string \<times> GaugeMetric) list"
  histograms :: "(string \<times> HistogramMetric) list"
  rates :: "(string \<times> RateMetric) list"
  reg_serviceName :: string
  reg_interval :: duration
  onSnapshot :: "sink list option"
  stopCh_closed :: bool

definition newRegistry :: "string \<Rightarrow> duration \<Rightarrow> sink list option \<Rightarrow> Registry" where
  "newRegistry sn iv cb = \<lparr>counters = [], gauges = [], histograms = [], rates = [],
     reg_serviceName = sn, reg_interval = iv, onSnapshot = cb, stopCh_closed = False\<rparr>"

text \<open>\<^verbatim>\<open>Load\<close>, then \<^verbatim>\<open>LoadOrStore\<close> of a new metric: the same body for the four kinds.\<close>

definition get_or_create :: "(string \<Rightarrow> 'm) \<Rightarrow> string \<Rightarrow> (string \<times> 'm) list \<Rightarrow> 'm \<times> (string \<times> 'm) list" where
  "get_or_create new name m =
     (case map_of m name of
        Some v \<Rightarrow> (v, m)
      | None \<Rightarrow> (new name, m @ [(name, new name)]))"

definition GetOrCreateCounter :: "string \<Rightarrow> Registry \<Rightarrow> CounterMetric \<times> Registry" where
  "GetOrCreateCounter name r =
     (let (c, m) = get_or_create newCounter name (counters r) in (c, r\<lparr>counters := m\<rparr>))"

definition GetOrCreateGauge :: "string \<Rightarrow> Registry \<Rightarrow> GaugeMetric \<times> Registry" where
  "GetOrCreateGauge name r =
     (let (g, m) = get_or_create newGauge name (gauges r) in (g, r\<lparr>gauges := m\<rparr>))"

definition GetOrCreateHistogram :: "string \<Rightarrow> Registry \<Rightarrow> HistogramMetric \<times> Registry" where
  "GetOrCreateHistogram name r =
     (let (h, m) = get_or_create newHistogram name (histograms r) in (h, r\<lparr>histograms := m\<rparr>))"

definition GetOrCreateRate :: "string \<Rightarrow> Registry \<Rightarrow> RateMetric \<times> Registry" where
  "GetOrCreateRate name r =
     (let (x, m) = get_or_create newRate name (rates r) in (x, r\<lparr>rates := m\<rparr>))"

text \<open>A method call on the metric a \<^verbatim>\<open>GetOrCreate\<close> returned changes the shared object.\<close>

definition on_counter :: "string \<Rightarrow> (CounterMetric \<Rightarrow> CounterMetric) \<Rightarrow> Registry \<Rightarrow> Registry" where
  "on_counter name f r =
     (let r1 = snd (GetOrCreateCounter name r) in r1\<lparr>counters := al_update name f (counters r1)\<rparr>)"

definition snap_put :: "string \<Rightarrow> Snapshot \<Rightarrow> (string \<times> Snapshot) list \<Rightarrow> (string \<times> Snapshot) list" where
  "snap_put k s xs = (k, s) # filter (\<lambda>p. fst p \<noteq> k) xs"

definition base_snapshot :: "Registry \<Rightarrow> instant \<Rightarrow> string \<Rightarrow> MetricType \<Rightarrow> tags \<Rightarrow> Snapshot" where
  "base_snapshot r now name ty t = \<lparr>sn_Name = name, sn_Type = ty, sn_Counter = None, sn_Gauge = None,
     sn_Histogram = None, sn_Rate = None, sn_Tags = t, sn_ServiceName = reg_serviceName r,
     sn_Timestamp = now\<rparr>"

text \<open>The four passes of \<^verbatim>\<open>collectAndNotify\<close>, in their order; each writes into the same map.\<close>

definition snap_counter :: "Registry \<Rightarrow> instant \<Rightarrow> string \<times> CounterMetric \<Rightarrow> Snapshot" where
  "snap_counter r now p = (base_snapshot r now (fst p) MetricTypeCounter (cm_tags (snd p)))
     \<lparr>sn_Counter := Some (fst (Counter_Reset (snd p)))\<rparr>"

definition snap_gauge :: "Registry \<Rightarrow> instant \<Rightarrow> string \<times> GaugeMetric \<Rightarrow> Snapshot" where
  "snap_gauge r now p = (base_snapshot r now (fst p) MetricTypeGauge (gm_tags (snd p)))
     \<lparr>sn_Gauge := Some (Gauge_Value (snd p))\<rparr>"

definition snap_histogram :: "Registry \<Rightarrow> instant \<Rightarrow> string \<times> HistogramMetric \<Rightarrow> Snapshot" where
  "snap_histogram r now p = (base_snapshot r now (fst p) MetricTypeHistogram (hm_tags (snd p)))
     \<lparr>sn_Histogram := Some (fst (Histogram_Reset (snd p)))\<rparr>"

definition snap_rate :: "Registry \<Rightarrow> instant \<Rightarrow> string \<times> RateMetric \<Rightarrow> Snapshot" where
  "snap_rate r now p = (base_snapshot r now (fst p) MetricTypeRate (rm_tags (snd p)))
     \<lparr>sn_Rate := Some (fst (Rate_Reset (snd p)))\<rparr>"

definition put_all :: "(string \<times> 'm \<Rightarrow> Snapshot) \<Rightarrow> (string \<times> 'm) list \<Rightarrow>
    (string \<times> Snapshot) list \<Rightarrow> (string \<times> Snapshot) list" where
  "put_all mk m xs = foldl (\<lambda>acc p. snap_put (fst p) (mk p) acc) xs m"

definition collect :: "instant \<Rightarrow> Registry \<Rightarrow> (string \<times> Snapshot) list \<times> Registry" where
  "collect now r =
     (put_all (snap_rate r now) (rates r)
       (put_all (snap_histogram r now) (histograms r)
         (put_all (snap_gauge r now) (gauges r)
           (put_all (snap_counter r now) (counters r) []))),
      r\<lparr>counters := map (map_prod id (snd \<circ> Counter_Reset)) (counters r),
        histograms := map (map_prod id (snd \<circ> Histogram_Reset)) (histograms r),
        rates := map (map_prod id (snd \<circ> Rate_Reset)) (rates r)\<rparr>)"

text \<open>\<^verbatim>\<open>collectAndNotify\<close>: the map of snapshots, when it is delivered, and the registry afterwards.\<close>

definition collectAndNotify ::
    "instant \<Rightarrow> Registry \<Rightarrow> (string \<times> Snapshot) list option \<times> Registry" where
  "collectAndNotify now r =
     (if onSnapshot r = None then (None, r)
      else let (ss, r') = collect now r in (if ss = [] then None else Some ss, r'))"

text \<open>\<^verbatim>\<open>Stop\<close> closes the channel, which panics when it is closed already; the loop then collects once
  more.\<close>

definition Registry_Stop ::
    "instant \<Rightarrow> Registry \<Rightarrow> string + (string \<times> Snapshot) list option \<times> Registry" where
  "Registry_Stop now r =
     (if stopCh_closed r then Inl ''close of closed channel''
      else let (ss, r') = collectAndNotify now r in Inr (ss, r'\<lparr>stopCh_closed := True\<rparr>))"

subsection \<open>Package functions (\<^verbatim>\<open>metrics.go\<close>)\<close>

record MetricsConfig =
  mc_ServiceName :: string
  mc_AggregateInterval :: duration
  mc_OnSnapshot :: bool
  mc_EnablePrometheus :: bool

definition defaultAggregateInterval :: duration where
  "defaultAggregateInterval = 10 * second"

definition final_callback :: "MetricsConfig \<Rightarrow> sink list option" where
  "final_callback c =
     (let user = (if mc_OnSnapshot c then [UserCallback] else [])
      in if mc_EnablePrometheus c then Some (PromExporter # user)
         else if mc_OnSnapshot c then Some user else None)"

text \<open>The global registry is the state; \<^const>\<open>Inl\<close> is a panic.\<close>

definition metrics_Init ::
    "instant \<Rightarrow> MetricsConfig \<Rightarrow> Registry option \<Rightarrow> string + (string \<times> Snapshot) list option \<times> Registry option" where
  "metrics_Init now c g =
     (let iv = (if mc_AggregateInterval c \<le> 0 then defaultAggregateInterval else mc_AggregateInterval c);
          new = newRegistry (mc_ServiceName c) iv (final_callback c)
      in case g of
           None \<Rightarrow> Inr (None, Some new)
         | Some r \<Rightarrow> (case Registry_Stop now r of
                        Inl e \<Rightarrow> Inl e
                      | Inr (ss, r') \<Rightarrow> Inr (ss, Some new)))"

definition metrics_Stop ::
    "instant \<Rightarrow> Registry option \<Rightarrow> string + (string \<times> Snapshot) list option \<times> Registry option" where
  "metrics_Stop now g =
     (case g of
        None \<Rightarrow> Inr (None, None)
      | Some r \<Rightarrow> (case Registry_Stop now r of Inl e \<Rightarrow> Inl e | Inr (ss, r') \<Rightarrow> Inr (ss, Some r')))"

definition ensureRegistry :: "Registry option \<Rightarrow> Registry" where
  "ensureRegistry g = (case g of None \<Rightarrow> newRegistry '''' defaultAggregateInterval None | Some r \<Rightarrow> r)"

definition Counter :: "string \<Rightarrow> Registry option \<Rightarrow> CounterMetric \<times> Registry option" where
  "Counter name g = (let (c, r) = GetOrCreateCounter name (ensureRegistry g) in (c, Some r))"

definition Gauge :: "string \<Rightarrow> Registry option \<Rightarrow> GaugeMetric \<times> Registry option" where
  "Gauge name g = (let (c, r) = GetOrCreateGauge name (ensureRegistry g) in (c, Some r))"

definition Histogram :: "string \<Rightarrow> Registry option \<Rightarrow> HistogramMetric \<times> Registry option" where
  "Histogram name g = (let (c, r) = GetOrCreateHistogram name (ensureRegistry g) in (c, Some r))"

definition Rate :: "string \<Rightarrow> Registry option \<Rightarrow> RateMetric \<times> Registry option" where
  "Rate name g = (let (c, r) = GetOrCreateRate name (ensureRegistry g) in (c, Some r))"

subsection \<open>The contract of the four metric maps\<close>

text \<open>
  What the four \<^verbatim>\<open>GetOrCreate\<close> functions rely on: a new metric carries the name it is created under.
  Then every entry of the map is stored under its own name, names stay distinct, and a second call
  returns the object of the first.
\<close>

locale metric_map =
  fixes new :: "string \<Rightarrow> 'm" and name_of :: "'m \<Rightarrow> string"
  assumes name_new: "name_of (new n) = n"
begin

definition well_named :: "(string \<times> 'm) list \<Rightarrow> bool" where
  "well_named m \<longleftrightarrow> distinct (map fst m) \<and> (\<forall>(k, v) \<in> set m. name_of v = k)"

lemma well_named_empty: "well_named []"
  by (simp add: well_named_def)

lemma get_or_create_keeps:
  assumes "well_named m" and "get_or_create new n m = (v, m')"
  shows "well_named m' \<and> map_of m' n = Some v \<and> name_of v = n \<and>
    (\<forall>k v'. map_of m k = Some v' \<longrightarrow> map_of m' k = Some v')"
proof (cases "map_of m n")
  case None
  then have "n \<notin> fst ` set m" by (simp add: map_of_eq_None_iff)
  with None assms show ?thesis
    by (auto simp: get_or_create_def well_named_def name_new map_add_def split: option.splits)
next
  case (Some x)
  then have "(n, x) \<in> set m" by (rule map_of_SomeD)
  with Some assms show ?thesis by (auto simp: get_or_create_def well_named_def)
qed

lemma get_or_create_again:
  "well_named m \<Longrightarrow> get_or_create new n m = (v, m') \<Longrightarrow> get_or_create new n m' = (v, m')"
  using get_or_create_keeps [of m n v m'] by (simp add: get_or_create_def)

lemma al_update_keeps:
  assumes "well_named m" and "\<And>v. name_of (f v) = name_of v"
  shows "well_named (al_update n f m)"
proof -
  have "map fst (al_update n f m) = map fst m" by (auto simp: al_update_def)
  then have "distinct (map fst (al_update n f m))" using assms(1) by (simp add: well_named_def)
  moreover have "name_of v = k" if "(k, v) \<in> set (al_update n f m)" for k v
    using that assms by (auto simp: well_named_def al_update_def split: if_splits)
  ultimately show ?thesis by (auto simp: well_named_def)
qed

end

interpretation counter_map: metric_map newCounter cm_name
  by unfold_locales (simp add: newCounter_def)

interpretation gauge_map: metric_map newGauge gm_name
  by unfold_locales (simp add: newGauge_def)

interpretation histogram_map: metric_map newHistogram hm_name
  by unfold_locales (simp add: newHistogram_def)

interpretation rate_map: metric_map newRate rm_name
  by unfold_locales (simp add: newRate_def)

definition registry_ok :: "Registry \<Rightarrow> bool" where
  "registry_ok r \<longleftrightarrow>
     counter_map.well_named (counters r) \<and> gauge_map.well_named (gauges r) \<and>
     histogram_map.well_named (histograms r) \<and> rate_map.well_named (rates r)"

lemmas well_named_defs =
  counter_map.well_named_def gauge_map.well_named_def histogram_map.well_named_def
  rate_map.well_named_def

lemma newRegistry_ok: "registry_ok (newRegistry sn iv cb)"
  by (simp add: registry_ok_def newRegistry_def counter_map.well_named_empty gauge_map.well_named_empty
      histogram_map.well_named_empty rate_map.well_named_empty)

subsection \<open>Collection\<close>

lemma map_of_snap_put: "map_of (snap_put k s xs) = (map_of xs)(k \<mapsto> s)"
proof
  fix x
  have "map_of (filter (\<lambda>p. fst p \<noteq> k) xs) x = map_of xs x" if "x \<noteq> k"
    using that by (induction xs) auto
  then show "map_of (snap_put k s xs) x = ((map_of xs)(k \<mapsto> s)) x" by (simp add: snap_put_def)
qed

lemma map_of_put_all:
  "distinct (map fst m) \<Longrightarrow>
     map_of (put_all mk m xs) k =
       (case map_of m k of Some v \<Rightarrow> Some (mk (k, v)) | None \<Rightarrow> map_of xs k)"
  unfolding put_all_def
proof (induction m arbitrary: xs)
  case (Cons p m)
  obtain a b where p: "p = (a, b)" by (cases p)
  have "a \<notin> fst ` set m" using Cons.prems p by simp
  then have "map_of m a = None" by (simp add: map_of_eq_None_iff)
  then show ?case using Cons p by (auto simp: map_of_snap_put split: option.split)
qed simp

lemma collect_lookup:
  assumes "registry_ok r"
  shows "map_of (fst (collect now r)) k =
    (case map_of (rates r) k of Some v \<Rightarrow> Some (snap_rate r now (k, v))
     | None \<Rightarrow> (case map_of (histograms r) k of Some v \<Rightarrow> Some (snap_histogram r now (k, v))
     | None \<Rightarrow> (case map_of (gauges r) k of Some v \<Rightarrow> Some (snap_gauge r now (k, v))
     | None \<Rightarrow> (case map_of (counters r) k of Some v \<Rightarrow> Some (snap_counter r now (k, v))
     | None \<Rightarrow> None))))"
  using assms
  by (simp add: collect_def map_of_put_all registry_ok_def well_named_defs split: option.split)

lemma map_of_map_prod: "map_of (map (map_prod id f) m) k = map_option f (map_of m k)"
  by (induction m) auto

lemma collect_resets:
  "map_of (counters (snd (collect now r))) k = map_option (snd \<circ> Counter_Reset) (map_of (counters r) k)"
  by (simp add: collect_def map_of_map_prod comp_def)

lemma collect_ok: "registry_ok r \<Longrightarrow> registry_ok (snd (collect now r))"
  by (auto simp: registry_ok_def well_named_defs collect_def comp_def Counter_Reset_def
      Histogram_Reset_def Rate_Reset_def)

subsection \<open>Arithmetic\<close>

lemma f64_of_int_pos:
  assumes "0 \<le> n" and "n \<le> 9223372036854775808"
  obtains q where "f64_of_int n = Fin q" "0 \<le> q" "0 < n \<Longrightarrow> 1 \<le> q"
proof -
  have "rnd (pow2 63) = Fin (pow2 63)" by (simp add: rnd_def rnd_pos_pow2) (simp add: pow2_def)
  then have top: "f64_of_int 9223372036854775808 = Fin 9223372036854775808"
    by (simp add: f64_of_int_def pow2_def)
  have lo: "Fin 0 \<le> f64_of_int n" using f64_of_int_mono [OF assms(1)] by (simp add: f64_of_int_def)
  have hi: "f64_of_int n \<le> Fin 9223372036854775808" using f64_of_int_mono [OF assms(2)] top by simp
  obtain q where q: "f64_of_int n = Fin q" using lo hi by (cases "f64_of_int n") auto
  have "1 \<le> q" if "0 < n"
    using f64_of_int_mono [of 1 n] that q by (simp add: f64_of_int_small)
  with q lo that show thesis by auto
qed

lemma rate_unit:
  assumes "0 \<le> s" and "0 \<le> f" and "s + f \<le> max_int64"
  shows "\<exists>q. rs_Rate (buildRateSnapshot s f) = Fin q \<and> 0 \<le> q \<and> q \<le> 1 \<and>
    (f = 0 \<longrightarrow> q = 0) \<and> (s = 0 \<and> 0 < f \<longrightarrow> q = 1)"
proof (cases "0 < s + f")
  case False
  then have "s = 0" "f = 0" using assms by auto
  then show ?thesis by (simp add: buildRateSnapshot_def Let_def wrap64_def)
next
  case True
  have w: "wrap64 (s + f) = s + f" using assms by (simp add: in_int64_def)
  obtain a where a: "f64_of_int f = Fin a" "0 \<le> a" using f64_of_int_pos [of f] assms by auto
  obtain b where b: "f64_of_int (s + f) = Fin b" "1 \<le> b" using f64_of_int_pos [of "s + f"] assms True by auto
  have ab: "a \<le> b" using f64_of_int_mono [of f "s + f"] assms(1) a b by simp
  have d: "rs_Rate (buildRateSnapshot s f) = rnd (a / b)"
    using True w a b by (simp add: buildRateSnapshot_def Let_def)
  have "Fin 0 \<le> rnd (a / b)" using rnd_mono [of 0 "a / b"] a b by simp
  moreover have "rnd (a / b) \<le> Fin 1" using rnd_mono [of "a / b" 1] rnd_int [of 1] ab b by simp
  ultimately obtain q where q: "rnd (a / b) = Fin q" "0 \<le> q" "q \<le> 1" by (cases "rnd (a / b)") auto
  moreover have "f = 0 \<Longrightarrow> q = 0" using a q(1) by (simp add: f64_of_int_def)
  moreover have "s = 0 \<Longrightarrow> q = 1" using a b q(1) rnd_int [of 1] by simp
  ultimately show ?thesis using d by auto
qed

text \<open>The extrema of a histogram without not-a-numbers, started from Go's two constants.\<close>

lemma fold_extrema:
  "NaN \<notin> set vs \<Longrightarrow> mx \<noteq> NaN \<Longrightarrow> mn \<noteq> NaN \<Longrightarrow>
   \<exists>s'. foldl (\<lambda>(s, mx, mn) v. (fadd s v, if flt mx v then v else mx, if flt v mn then v else mn))
      (s, mx, mn) vs = (s', Max (insert mx (set vs)), Min (insert mn (set vs)))"
proof (induction vs arbitrary: s mx mn)
  case (Cons v vs)
  let ?mx = "if flt mx v then v else mx" and ?mn = "if flt v mn then v else mn"
  have e: "?mx = max mx v" "?mn = min mn v"
    using Cons.prems by (auto simp: flt_iff max_def min_def)
  have "?mx \<noteq> NaN" "?mn \<noteq> NaN" "NaN \<notin> set vs" using Cons.prems by auto
  then obtain s' where "foldl (\<lambda>(s, mx, mn) v. (fadd s v, if flt mx v then v else mx, if flt v mn then v else mn))
      (fadd s v, ?mx, ?mn) vs = (s', Max (insert ?mx (set vs)), Min (insert ?mn (set vs)))"
    using Cons.IH by blast
  moreover have "Max (insert (max mx v) (set vs)) = Max (insert mx (set (v # vs)))"
    by (cases "set vs = {}") (simp_all add: max.assoc)
  moreover have "Min (insert (min mn v) (set vs)) = Min (insert mn (set (v # vs)))"
    by (cases "set vs = {}") (simp_all add: min.assoc)
  ultimately show ?case using e by auto
qed simp

text \<open>The product of a percentile and the last index, and the fraction of a double.\<close>

lemma fmul_index:
  assumes "0 \<le> p" and "p \<le> 1" and "2 \<le> n" and "n \<le> 2 ^ 53"
  shows "\<exists>q. fmul (Fin p) (f64_of_int (n - 1)) = Fin q \<and> 0 \<le> q \<and> q \<le> of_int (n - 1)"
proof -
  have i: "f64_of_int (n - 1) = Fin (of_int (n - 1))" using assms(3,4) by (intro f64_of_int_small) simp
  have nn: "(0 :: rat) \<le> of_int (n - 1)" using assms(3) by simp
  have "p * of_int (n - 1) \<le> 1 * of_int (n - 1)" using assms(2) nn by (intro mult_right_mono) auto
  then have "rnd (p * of_int (n - 1)) \<le> Fin (of_int (n - 1))"
    using rnd_mono [of "p * of_int (n - 1)" "of_int (n - 1)"] i by (simp add: f64_of_int_def)
  moreover have "Fin 0 \<le> rnd (p * of_int (n - 1))"
    using rnd_mono [of 0 "p * of_int (n - 1)"] assms(1) nn by simp
  ultimately show ?thesis using i by (cases "rnd (p * of_int (n - 1))") auto
qed

lemma frac_unit: "\<exists>w. fsub (Fin q) (Fin (of_int \<lfloor>q\<rfloor>)) = Fin w \<and> 0 \<le> w \<and> w \<le> 1"
proof -
  have b: "0 \<le> q - of_int \<lfloor>q\<rfloor>" "q - of_int \<lfloor>q\<rfloor> \<le> 1" by linarith+
  have "Fin 0 \<le> rnd (q - of_int \<lfloor>q\<rfloor>)" using rnd_mono [OF b(1)] by simp
  moreover have "rnd (q - of_int \<lfloor>q\<rfloor>) \<le> Fin 1" using rnd_mono [OF b(2)] rnd_int [of 1] by simp
  ultimately show ?thesis by (cases "rnd (q - of_int \<lfloor>q\<rfloor>)") (auto simp: fsub_def)
qed

subsection \<open>Properties\<close>

datatype counter_op = OpInc | OpAdd int | OpReset

fun run_counter :: "counter_op list \<Rightarrow> CounterMetric \<Rightarrow> int list \<times> CounterMetric" where
  "run_counter [] c = ([], c)"
| "run_counter (OpInc # os) c = run_counter os (Counter_Inc c)"
| "run_counter (OpAdd n # os) c = run_counter os (Counter_Add n c)"
| "run_counter (OpReset # os) c =
     (let (v, c1) = Counter_Reset c; (vs, c2) = run_counter os c1 in (v # vs, c2))"

fun op_delta :: "counter_op \<Rightarrow> int" where
  "op_delta OpInc = 1"
| "op_delta (OpAdd n) = n"
| "op_delta OpReset = 0"

text \<open>
  No count is lost or counted twice: in every sequence of increments, additions and resets by
  any number of goroutines, the values the resets returned and the value left in the counter sum up
  to the initial value and all the increments, modulo \<open>2 ^ 64\<close>.
\<close>

theorem counter_conservation:
  "wrap64 (sum_list (fst (run_counter os c)) + cm_value (snd (run_counter os c))) =
   wrap64 (cm_value c + sum_list (map op_delta os))"
proof (induction os arbitrary: c)
  case (Cons x os)
  show ?case
  proof (cases x)
    case OpInc
    then show ?thesis using Cons.IH [of "Counter_Inc c"]
      by (simp add: Counter_Inc_def wrap64_add_left add.assoc)
  next
    case (OpAdd n)
    then show ?thesis using Cons.IH [of "Counter_Add n c"]
      by (simp add: Counter_Add_def wrap64_add_left add.assoc)
  next
    case OpReset
    obtain vs c2 where r: "run_counter os (c\<lparr>cm_value := 0\<rparr>) = (vs, c2)" by (metis surj_pair)
    have "wrap64 (sum_list vs + cm_value c2) = wrap64 (sum_list (map op_delta os))"
      using Cons.IH [of "c\<lparr>cm_value := 0\<rparr>"] r by simp
    then have "wrap64 (cm_value c + wrap64 (sum_list vs + cm_value c2)) =
        wrap64 (cm_value c + wrap64 (sum_list (map op_delta os)))" by simp
    then show ?thesis using OpReset r by (simp add: Counter_Reset_def wrap64_add_right add.assoc)
  qed
qed simp

text \<open>
  A reported rate is a number in the unit interval: 0 when there were no failures and 1 when
  there were only failures.
\<close>

theorem rate_in_unit_interval:
  assumes "0 \<le> rm_success r" and "0 \<le> rm_fail r" and "rm_success r + rm_fail r \<le> max_int64"
  shows "\<exists>q. rs_Rate (fst (Rate_Reset r)) = Fin q \<and> 0 \<le> q \<and> q \<le> 1 \<and>
    (rm_fail r = 0 \<longrightarrow> q = 0) \<and> (rm_success r = 0 \<and> 0 < rm_fail r \<longrightarrow> q = 1) \<and>
    rs_Total (fst (Rate_Reset r)) = rm_success r + rm_fail r"
proof -
  have "wrap64 (rm_success r + rm_fail r) = rm_success r + rm_fail r"
    using assms by (simp add: in_int64_def)
  then show ?thesis using rate_unit [OF assms] by (auto simp: Rate_Reset_def buildRateSnapshot_def Let_def)
qed

theorem rate_in_unit_interval_witness:
  "\<exists>q. rs_Rate (fst (Rate_Reset (RecordFail (newRate ''io'')))) = Fin q \<and> q = 1"
  using rate_in_unit_interval [of "RecordFail (newRate ''io'')"]
  by (simp add: RecordFail_def newRate_def wrap64_def)

text \<open>
  The extrema of a histogram whose samples are numbers: the minimum is the smallest sample (or
  the largest finite double, if every sample is larger), but the maximum is the larger of the largest
  sample and the smallest positive double, since the loop starts from \<^verbatim>\<open>math.SmallestNonzeroFloat64\<close>;
  so it is right exactly when some sample is positive.
\<close>

theorem histogram_extrema:
  assumes "hm_values h \<noteq> []" and "NaN \<notin> set (hm_values h)"
  shows "hs_Count (Histogram_Snapshot h) = int (length (hm_values h)) \<and>
    hs_Min (Histogram_Snapshot h) = min max_float (Min (set (hm_values h))) \<and>
    hs_Max (Histogram_Snapshot h) = max smallest_nonzero (Max (set (hm_values h)))"
proof -
  have "NaN \<notin> set (sort (hm_values h))" "smallest_nonzero \<noteq> NaN" "max_float \<noteq> NaN"
    using assms(2) by (simp_all add: smallest_nonzero_def max_float_def)
  then obtain s' where "foldl (\<lambda>(s, mx, mn) v. (fadd s v, if flt mx v then v else mx, if flt v mn then v else mn))
      (Fin 0, smallest_nonzero, max_float) (sort (hm_values h)) =
      (s', Max (insert smallest_nonzero (set (hm_values h))), Min (insert max_float (set (hm_values h))))"
    using fold_extrema [of "sort (hm_values h)" smallest_nonzero max_float "Fin 0"] by auto
  then show ?thesis using assms(1) by (simp add: Histogram_Snapshot_def calcSnapshot_def Let_def)
qed

theorem histogram_extrema_witness:
  "hs_Max (Histogram_Snapshot (Observe (Fin (- 3)) (newHistogram ''t''))) = smallest_nonzero \<and>
   hs_Min (Histogram_Snapshot (Observe (Fin (- 3)) (newHistogram ''t''))) = Fin (- 3)"
proof -
  let ?h = "Observe (Fin (- 3)) (newHistogram ''t'')"
  have v: "hm_values ?h = [Fin (- 3)]" by (simp add: Observe_def newHistogram_def defaultMaxSampleSize_def)
  have p: "Fin (- 3) \<le> smallest_nonzero" "Fin (- 3) \<le> max_float"
    using order_less_trans [OF _ pow2_pos [of "- 1074"], of "- 3"]
    by (simp_all add: smallest_nonzero_def max_float_def)
  show ?thesis using histogram_extrema [of ?h] p by (simp add: v max_def min_def)
qed

text \<open>
  The percentile interpolation is total and reads neighbouring samples: for a percentile between
  0 and 1 and up to \<open>2 ^ 53\<close> sorted samples, its value is the last sample, or the combination of the
  samples at an index and the next one, both inside the slice, with weights between 0 and 1.
\<close>

theorem percentile_index_in_range:
  assumes "0 \<le> p" and "p \<le> 1" and "2 \<le> length xs" and "int (length xs) \<le> 2 ^ 53"
  shows "percentile xs (Fin p) = xs ! (length xs - 1) \<or>
    (\<exists>i w. i + 1 < length xs \<and> 0 \<le> w \<and> w \<le> 1 \<and>
       percentile xs (Fin p) =
         fadd (fmul (xs ! i) (fsub (Fin 1) (Fin w))) (fmul (xs ! (i + 1)) (Fin w)))"
proof -
  let ?n = "int (length xs)"
  obtain q where q: "fmul (Fin p) (f64_of_int (?n - 1)) = Fin q" "0 \<le> q" "q \<le> of_int (?n - 1)"
    using fmul_index [of p ?n] assms by auto
  have fl: "0 \<le> \<lfloor>q\<rfloor>" "\<lfloor>q\<rfloor> \<le> ?n - 1" using q(2) floor_mono [OF q(3)] by simp_all
  have tr: "f64_trunc (Fin q) = \<lfloor>q\<rfloor>" using q(2) by simp
  have ne: "xs \<noteq> []" "length xs \<noteq> 1" using assms(3) by auto
  show ?thesis
  proof (cases "\<lfloor>q\<rfloor> + 1 \<ge> ?n")
    case True
    then show ?thesis using ne q tr by (simp add: percentile_def Let_def)
  next
    case False
    have fi: "f64_of_int \<lfloor>q\<rfloor> = Fin (of_int \<lfloor>q\<rfloor>)"
      using fl assms(4) by (intro f64_of_int_small) linarith
    obtain w where w: "fsub (Fin q) (Fin (of_int \<lfloor>q\<rfloor>)) = Fin w" "0 \<le> w" "w \<le> 1"
      using frac_unit by blast
    have "nat \<lfloor>q\<rfloor> + 1 < length xs" "nat (\<lfloor>q\<rfloor> + 1) = nat \<lfloor>q\<rfloor> + 1" using False fl(1) by linarith+
    then show ?thesis using False ne q tr fi w
      by (intro disjI2 exI [of _ "nat \<lfloor>q\<rfloor>"] exI [of _ w]) (simp add: percentile_def Let_def)
  qed
qed

theorem percentile_index_in_range_witness:
  "\<exists>i w. i + 1 < length [Fin 1, Fin 2, Fin 7] \<and> 0 \<le> w \<and> w \<le> 1 \<and>
     (percentile [Fin 1, Fin 2, Fin 7] (Fin (1 / 2)) = Fin 7 \<or>
      percentile [Fin 1, Fin 2, Fin 7] (Fin (1 / 2)) =
        fadd (fmul ([Fin 1, Fin 2, Fin 7] ! i) (fsub (Fin 1) (Fin w)))
          (fmul ([Fin 1, Fin 2, Fin 7] ! (i + 1)) (Fin w)))"
proof -
  from percentile_index_in_range [of "1 / 2" "[Fin 1, Fin 2, Fin 7]"]
  consider "percentile [Fin 1, Fin 2, Fin 7] (Fin (1 / 2)) = Fin 7"
    | i w where "i + 1 < length [Fin 1, Fin 2, Fin 7]" "0 \<le> w" "w \<le> 1"
      "percentile [Fin 1, Fin 2, Fin 7] (Fin (1 / 2)) =
        fadd (fmul ([Fin 1, Fin 2, Fin 7] ! i) (fsub (Fin 1) (Fin w)))
          (fmul ([Fin 1, Fin 2, Fin 7] ! (i + 1)) (Fin w))" by auto
  then show ?thesis
  proof cases
    case 1
    then show ?thesis by (intro exI [of _ 0] exI [of _ 0]) simp
  next
    case (2 i w)
    then show ?thesis by blast
  qed
qed

text \<open>
  What a collection reports.  The snapshot under a name is that of the last of the four passes
  (counters, gauges, histograms, rates) that knows the name.  So a counter whose name no other kind
  uses is reported with its value and restarts from 0, while a counter that shares its name with a
  rate is reset too but its value appears in no snapshot.
\<close>

theorem collect_reports:
  assumes "registry_ok r" and "map_of (counters r) k = Some c"
  shows "map_of (counters (snd (collect now r))) k = Some (c\<lparr>cm_value := 0\<rparr>) \<and>
    (map_of (gauges r) k = None \<and> map_of (histograms r) k = None \<and> map_of (rates r) k = None \<longrightarrow>
       (\<exists>s. map_of (fst (collect now r)) k = Some s \<and> sn_Type s = MetricTypeCounter \<and>
            sn_Counter s = Some (cm_value c))) \<and>
    (map_of (rates r) k \<noteq> None \<longrightarrow>
       (\<exists>s. map_of (fst (collect now r)) k = Some s \<and> sn_Type s = MetricTypeRate \<and> sn_Counter s = None))"
  using assms(2)
  by (auto simp: collect_resets collect_lookup [OF assms(1)] Counter_Reset_def snap_counter_def
      snap_rate_def base_snapshot_def)

definition demo_registry :: Registry where
  "demo_registry = snd (GetOrCreateRate ''io''
     (on_counter ''io'' (Counter_Add 7) (newRegistry ''svc'' second (Some [UserCallback]))))"

lemma demo_registry_eq: "demo_registry = (newRegistry ''svc'' second (Some [UserCallback]))
    \<lparr>counters := [(''io'', \<lparr>cm_name = ''io'', cm_value = 7, cm_tags = (\<lambda>_. None)\<rparr>)],
     rates := [(''io'', newRate ''io'')]\<rparr>"
  by (simp add: demo_registry_def on_counter_def GetOrCreateCounter_def GetOrCreateRate_def
      get_or_create_def al_update_def newRegistry_def newCounter_def Counter_Add_def wrap64_def)

theorem collect_reports_witness:
  "\<exists>s. map_of (fst (collect 0 demo_registry)) ''io'' = Some s \<and> sn_Counter s = None \<and>
     map_of (counters (snd (collect 0 demo_registry))) ''io'' =
       Some \<lparr>cm_name = ''io'', cm_value = 0, cm_tags = (\<lambda>_. None)\<rparr>"
proof -
  have "registry_ok demo_registry"
    by (simp add: demo_registry_eq registry_ok_def well_named_defs newRegistry_def newRate_def)
  moreover have "map_of (counters demo_registry) ''io'' = Some \<lparr>cm_name = ''io'', cm_value = 7, cm_tags = (\<lambda>_. None)\<rparr>"
    "map_of (rates demo_registry) ''io'' \<noteq> None" by (simp_all add: demo_registry_eq)
  ultimately show ?thesis using collect_reports [of demo_registry "''io''" _ 0] by fastforce
qed

text \<open>
  Re-initialisation after a stop panics: the package-level \<^verbatim>\<open>Stop\<close> leaves the stopped registry in
  place, so a following \<^verbatim>\<open>Init\<close> (or \<^verbatim>\<open>Stop\<close>) closes its channel a second time; without the stop in
  between, \<^verbatim>\<open>Init\<close> replaces the registry after a last collection of the old one.
\<close>

theorem init_after_stop_panics:
  assumes "\<not> stopCh_closed r"
  shows "(\<exists>ss g. metrics_Stop now (Some r) = Inr (ss, g) \<and>
       metrics_Init now' c g = Inl ''close of closed channel'' \<and>
       metrics_Stop now' g = Inl ''close of closed channel'') \<and>
    (\<exists>ss r'. metrics_Init now c (Some r) = Inr (ss, Some r') \<and> \<not> stopCh_closed r' \<and>
       ss = fst (collectAndNotify now r) \<and> 0 < reg_interval r')"
  using assms
  by (auto simp: metrics_Stop_def metrics_Init_def Registry_Stop_def newRegistry_def Let_def
      defaultAggregateInterval_def second_def split: prod.splits)

theorem init_after_stop_panics_witness:
  "\<exists>ss g. metrics_Stop 0 (Some demo_registry) = Inr (ss, g) \<and>
     metrics_Stop 1 g = Inl ''close of closed channel''"
proof -
  have "\<not> stopCh_closed demo_registry" by (simp add: demo_registry_eq newRegistry_def)
  from init_after_stop_panics [OF this, of 0 1 "\<lparr>mc_ServiceName = ''svc'', mc_AggregateInterval = 0,
      mc_OnSnapshot = True, mc_EnablePrometheus = False\<rparr>"] show ?thesis by blast
qed

end
