(* ===== verification/AlertEngine.thy ===== *)
theory AlertEngine
  imports Metrics SchedTypes
begin

text \<open>
  The alert engine (\<^verbatim>\<open>src/pkg/alert\<close>: \<^verbatim>\<open>types.go\<close>, \<^verbatim>\<open>rule.go\<close>, \<^verbatim>\<open>engine.go\<close>, \<^verbatim>\<open>alert.go\<close>).  \<open>Evaluate\<close>
  runs all rules over one collection of metric snapshots; its result is the list of deliveries (each
  event goes to every notifier in order and then to the store), the engine afterwards and the state
  of the configuration provider.  The \<^verbatim>\<open>sync.Map\<close>s are HOL maps.  \<^verbatim>\<open>%v\<close> of a \<^verbatim>\<open>float64\<close> (shortest
  decimal) is the argument \<open>fmt_g\<close>.  The theory shows the cooldown guarantee over whole runs and what
  the consecutive and surge rules really do.
\<close>

subsection \<open>Types (\<^verbatim>\<open>types.go\<close>, \<^verbatim>\<open>rule.go\<close>)\<close>

datatype Level = LevelP0 | LevelP1 | LevelP2 | LevelOther int

fun Level_Text :: "Level \<Rightarrow> string" where
  "Level_Text LevelP0 = ''P0''"
| "Level_Text LevelP1 = ''P1''"
| "Level_Text LevelP2 = ''P2''"
| "Level_Text (LevelOther n) = ''UNKNOWN''"

definition level_of_int :: "int \<Rightarrow> Level" where
  "level_of_int n = (if n = 0 then LevelP0 else if n = 1 then LevelP1 else if n = 2 then LevelP2
                     else LevelOther n)"

datatype RuleType =
    RuleTypeThreshold | RuleTypeRate | RuleTypeSurge | RuleTypeConsecutive | RuleTypeImmediate
  | RuleTypeOther int

fun RuleType_Text :: "RuleType \<Rightarrow> string" where
  "RuleType_Text RuleTypeThreshold = ''threshold''"
| "RuleType_Text RuleTypeRate = ''rate''"
| "RuleType_Text RuleTypeSurge = ''surge''"
| "RuleType_Text RuleTypeConsecutive = ''consecutive''"
| "RuleType_Text RuleTypeImmediate = ''immediate''"
| "RuleType_Text (RuleTypeOther n) = ''unknown''"

definition ParseRuleType :: "string \<Rightarrow> RuleType" where
  "ParseRuleType s =
     (if s = ''threshold'' then RuleTypeThreshold
      else if s = ''rate'' then RuleTypeRate
      else if s = ''surge'' then RuleTypeSurge
      else if s = ''consecutive'' then RuleTypeConsecutive
      else if s = ''immediate'' then RuleTypeImmediate
      else RuleTypeThreshold)"

record Rule =
  ru_MetricName :: string
  ru_RuleType :: RuleType
  ru_Level :: Level
  ru_Title :: string
  ru_Threshold :: f64
  ru_ConsecutiveN :: int
  ru_MinSamples :: int
  ru_CooldownPeriod :: duration

definition defaultMinSamples :: int where
  "defaultMinSamples = 5"

datatype alert_value = AvInt int | AvFloat f64 | AvStr string

record AlertEvent =
  ae_ServiceName :: string
  ae_MetricName :: string
  ae_Level :: Level
  ae_Title :: string
  ae_Message :: string
  ae_Value :: alert_value
  ae_Threshold :: alert_value
  ae_Tags :: tags
  ae_Timestamp :: instant

record NotifierConfig =
  nc_DingTalkWebhook :: string
  nc_DingTalkSecret :: string
  nc_Enabled :: bool

subsection \<open>Engine (\<^verbatim>\<open>engine.go\<close>)\<close>

record Engine =
  rules :: "Rule list"
  notifiers :: "nat list"
  cooldowns :: "string \<Rightarrow> instant option"
  prevGauges :: "string \<Rightarrow> f64 option"
  prevCounters :: "string \<Rightarrow> int option"
  consecutive :: "string \<Rightarrow> int option"
  store :: bool
  configProvider :: bool
  eng_serviceName :: string

definition NewEngine :: "string \<Rightarrow> Rule list \<Rightarrow> bool \<Rightarrow> bool \<Rightarrow> Engine" where
  \<comment> \<open>the two flags are the options \<^verbatim>\<open>WithStore\<close> and \<^verbatim>\<open>WithConfigProvider\<close>\<close>
  "NewEngine sn rs st cp = \<lparr>rules = rs, notifiers = [], cooldowns = (\<lambda>_. None),
     prevGauges = (\<lambda>_. None), prevCounters = (\<lambda>_. None), consecutive = (\<lambda>_. None), store = st,
     configProvider = cp, eng_serviceName = sn\<rparr>"

definition AddNotifier :: "nat \<Rightarrow> Engine \<Rightarrow> Engine" where
  "AddNotifier n e = e\<lparr>notifiers := notifiers e @ [n]\<rparr>"

definition SetStore :: "bool \<Rightarrow> Engine \<Rightarrow> Engine" where
  "SetStore s e = e\<lparr>store := s\<rparr>"

definition SetConfigProvider :: "bool \<Rightarrow> Engine \<Rightarrow> Engine" where
  "SetConfigProvider p e = e\<lparr>configProvider := p\<rparr>"

definition UpdateRules :: "Rule list \<Rightarrow> Engine \<Rightarrow> Engine" where
  "UpdateRules rs e = e\<lparr>rules := rs\<rparr>"

text \<open>A check yields the value and the threshold to report, or \<^const>\<open>None\<close> when not triggered.\<close>

type_synonym check = "(alert_value \<times> alert_value) option"

definition checkImmediate :: "Snapshot \<Rightarrow> check" where
  "checkImmediate snap =
     (case sn_Type snap of
        MetricTypeCounter \<Rightarrow>
          (case sn_Counter snap of
             Some v \<Rightarrow> if v > 0 then Some (AvInt v, AvInt 0) else None
           | None \<Rightarrow> None)
      | MetricTypeGauge \<Rightarrow>
          (case sn_Gauge snap of
             Some v \<Rightarrow> if flt (Fin 0) v then Some (AvFloat v, AvFloat (Fin 0)) else None
           | None \<Rightarrow> None)
      | _ \<Rightarrow> None)"

definition checkThreshold :: "Rule \<Rightarrow> Snapshot \<Rightarrow> check" where
  "checkThreshold rule snap =
     (case sn_Type snap of
        MetricTypeCounter \<Rightarrow>
          (case sn_Counter snap of
             Some v \<Rightarrow> if flt (ru_Threshold rule) (f64_of_int v)
                       then Some (AvInt v, AvFloat (ru_Threshold rule)) else None
           | None \<Rightarrow> None)
      | MetricTypeGauge \<Rightarrow>
          (case sn_Gauge snap of
             Some v \<Rightarrow> if flt (ru_Threshold rule) v
                       then Some (AvFloat v, AvFloat (ru_Threshold rule)) else None
           | None \<Rightarrow> None)
      | MetricTypeHistogram \<Rightarrow>
          (case sn_Histogram snap of
             Some h \<Rightarrow> if flt (ru_Threshold rule) (hs_P99 h)
                       then Some (AvFloat (hs_P99 h), AvFloat (ru_Threshold rule)) else None
           | None \<Rightarrow> None)
      | MetricTypeRate \<Rightarrow>
          (case sn_Rate snap of
             Some r \<Rightarrow> if flt (ru_Threshold rule) (rs_Rate r)
                       then Some (AvFloat (rs_Rate r), AvFloat (ru_Threshold rule)) else None
           | None \<Rightarrow> None))"

definition hundred :: f64 where
  "hundred = Fin 100"

definition checkRate :: "Rule \<Rightarrow> Snapshot \<Rightarrow> check" where
  "checkRate rule snap =
     (case (sn_Type snap, sn_Rate snap) of
        (MetricTypeRate, Some r) \<Rightarrow>
          (let minSamples = (if ru_MinSamples rule \<le> 0 then defaultMinSamples else ru_MinSamples rule) in
           if rs_Total r \<ge> minSamples \<and> flt (ru_Threshold rule) (rs_Rate r)
           then Some (AvStr (format_fixed 2 (fmul (rs_Rate r) hundred) @ ''% ('' @
                        format_int (rs_Fail r) @ ''/'' @ format_int (rs_Total r) @ '')''),
                      AvStr (format_fixed 2 (fmul (ru_Threshold rule) hundred) @ ''%''))
           else None)
      | _ \<Rightarrow> None)"

text \<open>The current value a surge rule looks at, if the snapshot has one.\<close>

definition surge_value :: "Snapshot \<Rightarrow> f64 option" where
  "surge_value snap =
     (case sn_Type snap of
        MetricTypeGauge \<Rightarrow> sn_Gauge snap
      | MetricTypeCounter \<Rightarrow> map_option f64_of_int (sn_Counter snap)
      | _ \<Rightarrow> None)"

definition surge_prev :: "Engine \<Rightarrow> string \<Rightarrow> f64" where
  "surge_prev e name =
     (case prevGauges e name of
        Some v \<Rightarrow> v
      | None \<Rightarrow> (case prevCounters e name of Some n \<Rightarrow> f64_of_int n | None \<Rightarrow> Fin 0))"

definition surge_change :: "f64 \<Rightarrow> f64 \<Rightarrow> f64" where
  "surge_change prevVal currentVal =
     (if feq prevVal (Fin 0) then hundred
      else fmul (fdiv (fabs (fsub currentVal prevVal)) (fabs prevVal)) hundred)"

definition arrow_utf8 :: string where
  "arrow_utf8 = map char_of [0xE2, 0x86, 0x92 :: nat]"

definition checkSurge :: "Engine \<Rightarrow> Rule \<Rightarrow> Snapshot \<Rightarrow> check" where
  "checkSurge e rule snap =
     (case surge_value snap of
        None \<Rightarrow> None
      | Some currentVal \<Rightarrow>
          (let prevVal = surge_prev e (sn_Name snap) in
           if feq prevVal (Fin 0) \<and> feq currentVal (Fin 0) then None
           else (let changePercent = surge_change prevVal currentVal in
                 if flt (ru_Threshold rule) changePercent
                 then Some (AvStr (format_fixed 1 changePercent @ ''% ('' @ format_fixed 0 prevVal @
                              arrow_utf8 @ format_fixed 0 currentVal @ '')''),
                            AvStr (format_fixed 0 (ru_Threshold rule) @ ''%''))
                 else None)))"

text \<open>\<^verbatim>\<open>formatValue\<close> and \<^verbatim>\<open>%v\<close>.\<close>

definition formatValue :: "alert_value \<Rightarrow> string" where
  "formatValue v = (case v of AvFloat x \<Rightarrow> format_fixed 2 x | AvInt n \<Rightarrow> format_int n | AvStr s \<Rightarrow> s)"

definition fmt_v :: "(f64 \<Rightarrow> string) \<Rightarrow> alert_value \<Rightarrow> string" where
  "fmt_v fmt_g v = (case v of AvFloat x \<Rightarrow> fmt_g x | AvInt n \<Rightarrow> format_int n | AvStr s \<Rightarrow> s)"

definition lianxu_utf8 :: string where
  "lianxu_utf8 = map char_of [0xE8, 0xBF, 0x9E, 0xE7, 0xBB, 0xAD :: nat]"

definition ci_utf8 :: string where
  "ci_utf8 = map char_of [0xE6, 0xAC, 0xA1 :: nat]"

definition checkConsecutive :: "(f64 \<Rightarrow> string) \<Rightarrow> Rule \<Rightarrow> Snapshot \<Rightarrow> Engine \<Rightarrow> check \<times> Engine" where
  "checkConsecutive fmt_g rule snap e =
     (let trig = (case checkThreshold rule snap of Some x \<Rightarrow> Some x | None \<Rightarrow> checkImmediate snap);
          count = (case consecutive e (ru_MetricName rule) of Some n \<Rightarrow> n | None \<Rightarrow> 0)
      in case trig of
           Some (value, threshold) \<Rightarrow>
             (let count' = wrap64 (count + 1);
                  e' = e\<lparr>consecutive := (consecutive e)(ru_MetricName rule \<mapsto> count')\<rparr>
              in (if count' \<ge> ru_ConsecutiveN rule
                  then Some (AvStr (fmt_v fmt_g value @ '' ('' @ lianxu_utf8 @ format_int count' @ ci_utf8 @ '')''),
                             threshold)
                  else None, e'))
         | None \<Rightarrow> (None, e\<lparr>consecutive := (consecutive e)(ru_MetricName rule \<mapsto> 0)\<rparr>))"

definition checkRule :: "(f64 \<Rightarrow> string) \<Rightarrow> Rule \<Rightarrow> Snapshot \<Rightarrow> Engine \<Rightarrow> check \<times> Engine" where
  "checkRule fmt_g rule snap e =
     (case ru_RuleType rule of
        RuleTypeImmediate \<Rightarrow> (checkImmediate snap, e)
      | RuleTypeThreshold \<Rightarrow> (checkThreshold rule snap, e)
      | RuleTypeRate \<Rightarrow> (checkRate rule snap, e)
      | RuleTypeSurge \<Rightarrow> (checkSurge e rule snap, e)
      | RuleTypeConsecutive \<Rightarrow> checkConsecutive fmt_g rule snap e
      | RuleTypeOther n \<Rightarrow> (None, e))"

text \<open>What leaves the engine: an event for a notifier, or an event for the store.\<close>

datatype delivery = Notify nat AlertEvent | Save AlertEvent

type_synonym 'w get_config = "'w \<Rightarrow> (go_error + NotifierConfig option) \<times> 'w"

definition message_text :: "string \<Rightarrow> string \<Rightarrow> string \<Rightarrow> string \<Rightarrow> string" where
  "message_text sn metric v th =
     map char_of [0xE6, 0x9C, 0x8D, 0xE5, 0x8A, 0xA1 :: nat] @ ''['' @ sn @ ''] '' @
     map char_of [0xE6, 0x8C, 0x87, 0xE6, 0xA0, 0x87 :: nat] @ ''['' @ metric @ ''] '' @
     map char_of [0xE5, 0xBD, 0x93, 0xE5, 0x89, 0x8D, 0xE5, 0x80, 0xBC :: nat] @ '': '' @ v @ '', '' @
     map char_of [0xE9, 0x98, 0x88, 0xE5, 0x80, 0xBC :: nat] @ '': '' @ th"

definition alert_event ::
    "Rule \<Rightarrow> alert_value \<Rightarrow> alert_value \<Rightarrow> instant \<Rightarrow> Snapshot \<Rightarrow> Engine \<Rightarrow> AlertEvent" where
  "alert_event rule value threshold now snap e =
     \<lparr>ae_ServiceName = eng_serviceName e, ae_MetricName = ru_MetricName rule,
      ae_Level = ru_Level rule, ae_Title = ru_Title rule,
      ae_Message = message_text (eng_serviceName e) (ru_MetricName rule)
        (formatValue value) (formatValue threshold),
      ae_Value = value, ae_Threshold = threshold, ae_Tags = sn_Tags snap, ae_Timestamp = now\<rparr>"

definition handleTriggered ::
    "'w get_config \<Rightarrow> Rule \<Rightarrow> alert_value \<Rightarrow> alert_value \<Rightarrow> instant \<Rightarrow> Snapshot \<Rightarrow> Engine \<Rightarrow> 'w \<Rightarrow>
     delivery list \<times> Engine \<times> 'w" where
  "handleTriggered getc rule value threshold now snap e w =
     (if (case cooldowns e (ru_MetricName rule) of
            Some lastTime \<Rightarrow> time_sub now lastTime < ru_CooldownPeriod rule | None \<Rightarrow> False)
      then ([], e, w)
      else
        (let (disabled, w') =
               (if configProvider e
                then (let (r, w1) = getc w
                      in (case r of Inr (Some cfg) \<Rightarrow> \<not> nc_Enabled cfg | _ \<Rightarrow> False, w1))
                else (False, w))
         in if disabled then ([], e, w')
            else
              (let event = alert_event rule value threshold now snap e
               in (map (\<lambda>n. Notify n event) (notifiers e) @ (if store e then [Save event] else []),
                   e\<lparr>cooldowns := (cooldowns e)(ru_MetricName rule \<mapsto> now)\<rparr>, w'))))"

definition savePrevValues :: "string \<Rightarrow> Snapshot \<Rightarrow> Engine \<Rightarrow> Engine" where
  "savePrevValues name snap e =
     (case sn_Type snap of
        MetricTypeGauge \<Rightarrow>
          (case sn_Gauge snap of Some v \<Rightarrow> e\<lparr>prevGauges := (prevGauges e)(name \<mapsto> v)\<rparr> | None \<Rightarrow> e)
      | MetricTypeCounter \<Rightarrow>
          (case sn_Counter snap of Some v \<Rightarrow> e\<lparr>prevCounters := (prevCounters e)(name \<mapsto> v)\<rparr> | None \<Rightarrow> e)
      | _ \<Rightarrow> e)"

text \<open>The body of the loop of \<^verbatim>\<open>Evaluate\<close> for one rule whose metric has a snapshot.\<close>

definition eval_rule ::
    "(f64 \<Rightarrow> string) \<Rightarrow> 'w get_config \<Rightarrow> instant \<Rightarrow> Snapshot \<Rightarrow> Rule \<Rightarrow> Engine \<Rightarrow> 'w \<Rightarrow>
     delivery list \<times> Engine \<times> 'w" where
  "eval_rule fmt_g getc now snap rule e w =
     (let (res, e1) = checkRule fmt_g rule snap e;
          (ds, e2, w') =
            (case res of
               Some (value, threshold) \<Rightarrow> handleTriggered getc rule value threshold now snap e1 w
             | None \<Rightarrow>
                 ([], if ru_RuleType rule = RuleTypeConsecutive
                      then e1\<lparr>consecutive := (consecutive e1)(ru_MetricName rule \<mapsto> 0)\<rparr> else e1, w))
      in (ds, savePrevValues (ru_MetricName rule) snap e2, w'))"

fun eval_rules ::
    "(f64 \<Rightarrow> string) \<Rightarrow> 'w get_config \<Rightarrow> instant \<Rightarrow> (string \<Rightarrow> Snapshot option) \<Rightarrow> Rule list \<Rightarrow> Engine \<Rightarrow> 'w \<Rightarrow>
     delivery list \<times> Engine \<times> 'w" where
  "eval_rules fmt_g getc now snaps [] e w = ([], e, w)"
| "eval_rules fmt_g getc now snaps (rule # rs) e w =
     (case snaps (ru_MetricName rule) of
        None \<Rightarrow> eval_rules fmt_g getc now snaps rs e w
      | Some snap \<Rightarrow>
          (let (ds, e1, w1) = eval_rule fmt_g getc now snap rule e w;
               (ds', e2, w2) = eval_rules fmt_g getc now snaps rs e1 w1
           in (ds @ ds', e2, w2)))"

definition Evaluate ::
    "(f64 \<Rightarrow> string) \<Rightarrow> 'w get_config \<Rightarrow> instant \<Rightarrow> (string \<Rightarrow> Snapshot option) \<Rightarrow> Engine \<Rightarrow> 'w \<Rightarrow>
     delivery list \<times> Engine \<times> 'w" where
  "Evaluate fmt_g getc now snaps e w = eval_rules fmt_g getc now snaps (rules e) e w"

text \<open>A run: one evaluation per collection.\<close>

fun run_engine ::
    "(f64 \<Rightarrow> string) \<Rightarrow> 'w get_config \<Rightarrow> (instant \<times> (string \<Rightarrow> Snapshot option)) list \<Rightarrow> Engine \<Rightarrow> 'w \<Rightarrow>
     delivery list \<times> Engine \<times> 'w" where
  "run_engine fmt_g getc [] e w = ([], e, w)"
| "run_engine fmt_g getc ((now, snaps) # cs) e w =
     (let (ds, e1, w1) = Evaluate fmt_g getc now snaps e w;
          (ds', e2, w2) = run_engine fmt_g getc cs e1 w1
      in (ds @ ds', e2, w2))"

subsection \<open>Frame facts\<close>

lemma checkRule_frame:
  "checkRule fmt_g rule snap e = (res, e') \<Longrightarrow>
     rules e' = rules e \<and> notifiers e' = notifiers e \<and> cooldowns e' = cooldowns e \<and>
     prevGauges e' = prevGauges e \<and> prevCounters e' = prevCounters e"
  by (auto simp: checkRule_def checkConsecutive_def Let_def split: RuleType.splits option.splits prod.splits)

lemma savePrevValues_frame [simp]:
  "rules (savePrevValues k snap e) = rules e" "notifiers (savePrevValues k snap e) = notifiers e"
  "cooldowns (savePrevValues k snap e) = cooldowns e" "consecutive (savePrevValues k snap e) = consecutive e"
  by (auto simp: savePrevValues_def split: MetricType.splits option.splits)

lemma handleTriggered_frame:
  "handleTriggered getc rule v th now snap e w = (ds, e', w') \<Longrightarrow>
     rules e' = rules e \<and> notifiers e' = notifiers e \<and> consecutive e' = consecutive e \<and>
     prevGauges e' = prevGauges e \<and> prevCounters e' = prevCounters e"
  by (auto simp: handleTriggered_def Let_def split: if_splits prod.splits)

lemma eval_rule_frame:
  "eval_rule fmt_g getc now snap rule e w = (ds, e', w') \<Longrightarrow>
     rules e' = rules e \<and> notifiers e' = notifiers e"
  using checkRule_frame [of fmt_g rule snap e]
  by (cases "checkRule fmt_g rule snap e")
    (auto simp: eval_rule_def dest: handleTriggered_frame split: option.splits if_splits prod.splits)

lemma eval_rules_frame:
  "eval_rules fmt_g getc now snaps rs e w = (ds, e', w') \<Longrightarrow>
     rules e' = rules e \<and> notifiers e' = notifiers e"
proof (induction rs arbitrary: e w ds)
  case (Cons rule rs)
  show ?case
  proof (cases "snaps (ru_MetricName rule)")
    case None
    then show ?thesis using Cons by simp
  next
    case (Some snap)
    obtain d1 e1 w1 where r: "eval_rule fmt_g getc now snap rule e w = (d1, e1, w1)" by (metis prod_cases3)
    obtain d2 where "eval_rules fmt_g getc now snaps rs e1 w1 = (d2, e', w')"
      using Cons.prems Some r by (auto split: prod.splits)
    then show ?thesis using Cons.IH [of e1 w1 d2] eval_rule_frame [OF r] by simp
  qed
qed simp

subsection \<open>Cooldown\<close>

text \<open>The times at which a notifier got an event for a metric.\<close>

fun alert_times :: "nat \<Rightarrow> string \<Rightarrow> delivery list \<Rightarrow> instant list" where
  "alert_times n k [] = []"
| "alert_times n k (Notify m ev # ds) =
     (if m = n \<and> ae_MetricName ev = k then ae_Timestamp ev # alert_times n k ds else alert_times n k ds)"
| "alert_times n k (Save ev # ds) = alert_times n k ds"

lemma alert_times_append: "alert_times n k (xs @ ys) = alert_times n k xs @ alert_times n k ys"
  by (induction n k xs rule: alert_times.induct) auto

lemma alert_times_fanout:
  "distinct ns \<Longrightarrow> n \<in> set ns \<Longrightarrow>
     alert_times n k (map (\<lambda>m. Notify m ev) ns @ (if s then [Save ev] else [])) =
       (if ae_MetricName ev = k then [ae_Timestamp ev] else [])"
proof (induction ns)
  case (Cons m ns)
  have none: "alert_times n k (map (\<lambda>m. Notify m ev) ns @ (if s then [Save ev] else [])) = []"
    if "n \<notin> set ns" using that by (induction ns) auto
  show ?case using Cons none by (cases "m = n") auto
qed simp

text \<open>A chain of alerts: each at least \<open>d\<close> after the previous one, from the recorded last time to
  the new one.\<close>

fun chain :: "duration \<Rightarrow> instant option \<Rightarrow> instant list \<Rightarrow> instant option \<Rightarrow> bool" where
  "chain d c [] c' = (c' = c)"
| "chain d c (t # ts) c' = ((\<forall>t0. c = Some t0 \<longrightarrow> d \<le> t - t0) \<and> chain d (Some t) ts c')"

lemma chain_append: "chain d c xs c1 \<Longrightarrow> chain d c1 ys c2 \<Longrightarrow> chain d c (xs @ ys) c2"
  by (induction xs arbitrary: c) auto

lemma chain_gaps:
  assumes "0 \<le> d"
  shows "chain d c ts c' \<Longrightarrow> sorted_wrt (\<lambda>a b. d \<le> b - a) ts \<and> (\<forall>t0 t. c = Some t0 \<and> t \<in> set ts \<longrightarrow> d \<le> t - t0)"
proof (induction ts arbitrary: c)
  case (Cons t ts)
  then have IH: "sorted_wrt (\<lambda>a b. d \<le> b - a) ts" "\<forall>x \<in> set ts. d \<le> x - t" by auto
  then show ?case using Cons.prems assms by fastforce
qed simp

definition cooldown_at_least :: "duration \<Rightarrow> string \<Rightarrow> Rule list \<Rightarrow> bool" where
  "cooldown_at_least d k rs \<longleftrightarrow>
     (\<forall>r \<in> set rs. ru_MetricName r = k \<longrightarrow> d \<le> ru_CooldownPeriod r \<and> ru_CooldownPeriod r \<le> max_int64)"

lemma handleTriggered_chain:
  assumes h: "handleTriggered getc rule v th now snap e w = (ds, e', w')"
    and n: "n \<in> set (notifiers e)" "distinct (notifiers e)"
    and c: "ru_MetricName rule = k \<Longrightarrow> d \<le> ru_CooldownPeriod rule \<and> ru_CooldownPeriod rule \<le> max_int64"
    and d: "0 < d"
  shows "chain d (cooldowns e k) (alert_times n k ds) (cooldowns e' k)"
proof (cases "ds = [] \<and> e' = e")
  case False
  then have cold: "\<not> (case cooldowns e (ru_MetricName rule) of
        Some lastTime \<Rightarrow> time_sub now lastTime < ru_CooldownPeriod rule | None \<Rightarrow> False)"
    using h by (auto simp: handleTriggered_def split: if_splits)
  define ev where "ev = alert_event rule v th now snap e"
  have ev: "ds = map (\<lambda>m. Notify m ev) (notifiers e) @ (if store e then [Save ev] else [])"
      "ae_MetricName ev = ru_MetricName rule" "ae_Timestamp ev = now"
      "cooldowns e' = (cooldowns e)(ru_MetricName rule \<mapsto> now)"
    using h False unfolding ev_def
    by (auto simp: handleTriggered_def Let_def alert_event_def split: if_splits prod.splits)
  have t: "alert_times n k ds = (if ru_MetricName rule = k then [now] else [])"
    unfolding ev(1) alert_times_fanout [OF n(2,1)] ev(2,3) by simp
  show ?thesis
  proof (cases "ru_MetricName rule = k")
    case True
    have "d \<le> now - t0" if "cooldowns e k = Some t0" for t0
    proof -
      have "\<not> time_sub now t0 < ru_CooldownPeriod rule" using cold that True by simp
      then show ?thesis using c [OF True] d by (subst (asm) time_sub_less) auto
    qed
    then show ?thesis using t True ev(4) by simp
  next
    case False
    then show ?thesis using t ev(4) by simp
  qed
qed simp

lemma eval_rule_chain:
  assumes r: "eval_rule fmt_g getc now snap rule e w = (ds, e', w')"
    and n: "n \<in> set (notifiers e)" "distinct (notifiers e)"
    and c: "ru_MetricName rule = k \<Longrightarrow> d \<le> ru_CooldownPeriod rule \<and> ru_CooldownPeriod rule \<le> max_int64"
    and d: "0 < d"
  shows "chain d (cooldowns e k) (alert_times n k ds) (cooldowns e' k)"
proof -
  obtain res e1 where k: "checkRule fmt_g rule snap e = (res, e1)" by (metis surj_pair)
  note F = checkRule_frame [OF k]
  show ?thesis
  proof (cases res)
    case None
    then show ?thesis using r k F by (auto simp: eval_rule_def)
  next
    case (Some x)
    obtain v th where x: "x = (v, th)" by (cases x)
    obtain e2 where h: "handleTriggered getc rule v th now snap e1 w = (ds, e2, w')"
        "e' = savePrevValues (ru_MetricName rule) snap e2"
      using r k Some x by (auto simp: eval_rule_def split: prod.splits)
    show ?thesis using handleTriggered_chain [OF h(1) _ _ c d] n F h(2) by simp
  qed
qed

lemma eval_rules_chain:
  "eval_rules fmt_g getc now snaps rs e w = (ds, e', w') \<Longrightarrow> n \<in> set (notifiers e) \<Longrightarrow>
   distinct (notifiers e) \<Longrightarrow> cooldown_at_least d k rs \<Longrightarrow> 0 < d \<Longrightarrow>
   chain d (cooldowns e k) (alert_times n k ds) (cooldowns e' k)"
proof (induction rs arbitrary: e w ds)
  case (Cons rule rs)
  have cs: "cooldown_at_least d k rs"
    "ru_MetricName rule = k \<Longrightarrow> d \<le> ru_CooldownPeriod rule \<and> ru_CooldownPeriod rule \<le> max_int64"
    using Cons.prems(4) by (simp_all add: cooldown_at_least_def)
  show ?case
  proof (cases "snaps (ru_MetricName rule)")
    case None
    then show ?thesis using Cons.IH [of e w ds] Cons.prems cs(1) by simp
  next
    case (Some snap)
    obtain d1 e1 w1 where r: "eval_rule fmt_g getc now snap rule e w = (d1, e1, w1)" by (metis prod_cases3)
    obtain d2 where r2: "eval_rules fmt_g getc now snaps rs e1 w1 = (d2, e', w')" "ds = d1 @ d2"
      using Cons.prems(1) Some r by (auto split: prod.splits)
    have "chain d (cooldowns e k) (alert_times n k d1) (cooldowns e1 k)"
      using eval_rule_chain [OF r Cons.prems(2,3) cs(2) Cons.prems(5)] .
    moreover have "chain d (cooldowns e1 k) (alert_times n k d2) (cooldowns e' k)"
      using Cons.IH [OF r2(1) _ _ cs(1) Cons.prems(5)] Cons.prems(2,3) eval_rule_frame [OF r] by simp
    ultimately show ?thesis using r2(2) by (simp add: alert_times_append chain_append)
  qed
qed simp

lemma run_engine_chain:
  "run_engine fmt_g getc cs e w = (ds, e', w') \<Longrightarrow> n \<in> set (notifiers e) \<Longrightarrow>
   distinct (notifiers e) \<Longrightarrow> cooldown_at_least d k (rules e) \<Longrightarrow> 0 < d \<Longrightarrow>
   chain d (cooldowns e k) (alert_times n k ds) (cooldowns e' k)"
proof (induction cs arbitrary: e w ds)
  case (Cons x cs)
  obtain now snaps where x: "x = (now, snaps)" by (cases x)
  obtain d1 e1 w1 where r: "eval_rules fmt_g getc now snaps (rules e) e w = (d1, e1, w1)" by (metis prod_cases3)
  obtain d2 where r2: "run_engine fmt_g getc cs e1 w1 = (d2, e', w')" "ds = d1 @ d2"
    using Cons.prems(1) x r by (auto simp: Evaluate_def split: prod.splits)
  have "chain d (cooldowns e k) (alert_times n k d1) (cooldowns e1 k)"
    using eval_rules_chain [OF r Cons.prems(2,3,4,5)] .
  moreover have "chain d (cooldowns e1 k) (alert_times n k d2) (cooldowns e' k)"
    using Cons.IH [OF r2(1)] Cons.prems eval_rules_frame [OF r] by simp
  ultimately show ?case using r2(2) by (simp add: alert_times_append chain_append)
qed simp

subsection \<open>Consecutive rules\<close>

definition only_consecutive :: "Engine \<Rightarrow> bool" where
  "only_consecutive e \<longleftrightarrow>
     (\<forall>r \<in> set (rules e). ru_RuleType r = RuleTypeConsecutive \<and> 2 \<le> ru_ConsecutiveN r) \<and>
     (\<forall>k n. consecutive e k = Some n \<longrightarrow> n = 0)"

lemma eval_rule_consecutive:
  assumes "ru_RuleType rule = RuleTypeConsecutive" and "2 \<le> ru_ConsecutiveN rule"
    and "\<forall>k n. consecutive e k = Some n \<longrightarrow> n = 0"
    and "eval_rule fmt_g getc now snap rule e w = (ds, e', w')"
  shows "ds = [] \<and> (\<forall>k n. consecutive e' k = Some n \<longrightarrow> n = 0)"
proof -
  have "(case consecutive e (ru_MetricName rule) of Some n \<Rightarrow> n | None \<Rightarrow> 0) = 0"
    using assms(3) by (auto split: option.split)
  moreover have "wrap64 (0 + 1) = 1" by (simp add: wrap64_def)
  ultimately have "fst (checkConsecutive fmt_g rule snap e) = None"
    "snd (checkConsecutive fmt_g rule snap e) =
       e\<lparr>consecutive := (consecutive e)(ru_MetricName rule \<mapsto> (case (case checkThreshold rule snap of
           Some x \<Rightarrow> Some x | None \<Rightarrow> checkImmediate snap) of Some x \<Rightarrow> 1 | None \<Rightarrow> 0))\<rparr>"
    using assms(2) by (simp_all add: checkConsecutive_def Let_def split: option.split)
  then obtain c where "checkRule fmt_g rule snap e = (None, e\<lparr>consecutive := (consecutive e)(ru_MetricName rule \<mapsto> c)\<rparr>)"
    using assms(1) by (cases "checkConsecutive fmt_g rule snap e") (auto simp: checkRule_def)
  then show ?thesis using assms(1,3,4) by (auto simp: eval_rule_def split: if_splits)
qed

lemma eval_rules_consecutive:
  "eval_rules fmt_g getc now snaps rs e w = (ds, e', w') \<Longrightarrow>
   \<forall>r \<in> set rs. ru_RuleType r = RuleTypeConsecutive \<and> 2 \<le> ru_ConsecutiveN r \<Longrightarrow>
   \<forall>k n. consecutive e k = Some n \<longrightarrow> n = 0 \<Longrightarrow> ds = [] \<and> (\<forall>k n. consecutive e' k = Some n \<longrightarrow> n = 0)"
proof (induction rs arbitrary: e w ds)
  case (Cons rule rs)
  show ?case
  proof (cases "snaps (ru_MetricName rule)")
    case None
    then show ?thesis using Cons by simp
  next
    case (Some snap)
    obtain d1 e1 w1 where r: "eval_rule fmt_g getc now snap rule e w = (d1, e1, w1)" by (metis prod_cases3)
    obtain d2 where r2: "eval_rules fmt_g getc now snaps rs e1 w1 = (d2, e', w')" "ds = d1 @ d2"
      using Cons.prems(1) Some r by (auto split: prod.splits)
    have "d1 = [] \<and> (\<forall>k n. consecutive e1 k = Some n \<longrightarrow> n = 0)"
      using eval_rule_consecutive [OF _ _ Cons.prems(3) r] Cons.prems(2) by simp
    then show ?thesis using Cons.IH [OF r2(1)] Cons.prems(2) r2(2) by simp
  qed
qed simp

lemma run_engine_consecutive:
  "run_engine fmt_g getc cs e w = (ds, e', w') \<Longrightarrow> only_consecutive e \<Longrightarrow> ds = []"
proof (induction cs arbitrary: e w ds)
  case (Cons x cs)
  obtain now snaps where x: "x = (now, snaps)" by (cases x)
  obtain d1 e1 w1 where r: "eval_rules fmt_g getc now snaps (rules e) e w = (d1, e1, w1)" by (metis prod_cases3)
  obtain d2 where r2: "run_engine fmt_g getc cs e1 w1 = (d2, e', w')" "ds = d1 @ d2"
    using Cons.prems(1) x r by (auto simp: Evaluate_def split: prod.splits)
  have "d1 = [] \<and> only_consecutive e1"
    using eval_rules_consecutive [OF r] Cons.prems(2) eval_rules_frame [OF r]
    by (auto simp: only_consecutive_def)
  then show ?case using Cons.IH [OF r2(1)] r2(2) by simp
qed simp

subsection \<open>Properties\<close>

text \<open>
  C16. The cooldown holds over whole runs: if every rule on a metric has a cooldown of at least \<open>d\<close>,
  then in any run over any snapshots, with any clock and whatever the configuration provider
  answers, two alerts for that metric reach a notifier at least \<open>d\<close> apart.
\<close>

theorem cooldown_separates_alerts:
  assumes "n \<in> set (notifiers e)" and "distinct (notifiers e)"
    and "cooldown_at_least d k (rules e)" and "0 < d"
  shows "sorted_wrt (\<lambda>a b. d \<le> b - a) (alert_times n k (fst (run_engine fmt_g getc cs e w)))"
proof -
  obtain ds e' w' where r: "run_engine fmt_g getc cs e w = (ds, e', w')" by (metis prod_cases3)
  have "chain d (cooldowns e k) (alert_times n k ds) (cooldowns e' k)"
    using run_engine_chain [OF r assms] .
  then show ?thesis using chain_gaps [of d] assms(4) r by simp
qed

definition demo_rule :: "RuleType \<Rightarrow> f64 \<Rightarrow> int \<Rightarrow> Rule" where
  "demo_rule ty th n = \<lparr>ru_MetricName = ''queue'', ru_RuleType = ty, ru_Level = LevelP0,
     ru_Title = ''queue'', ru_Threshold = th, ru_ConsecutiveN = n, ru_MinSamples = 0,
     ru_CooldownPeriod = minute\<rparr>"

definition demo_snap :: "f64 \<Rightarrow> Snapshot" where
  "demo_snap v = \<lparr>sn_Name = ''queue'', sn_Type = MetricTypeGauge, sn_Counter = None, sn_Gauge = Some v,
     sn_Histogram = None, sn_Rate = None, sn_Tags = (\<lambda>_. None), sn_ServiceName = ''svc'',
     sn_Timestamp = 0\<rparr>"

definition demo_engine :: "Rule list \<Rightarrow> Engine" where
  "demo_engine rs = AddNotifier 1 (NewEngine ''svc'' rs False False)"

definition demo_getc :: "unit get_config" where
  "demo_getc w = (Inr None, w)"

theorem cooldown_separates_alerts_witness:
  "sorted_wrt (\<lambda>a b. minute \<le> b - a) (alert_times 1 ''queue'' (fst (run_engine (\<lambda>_. '''') demo_getc
     [(0, [''queue'' \<mapsto> demo_snap (Fin 5)]), (second, [''queue'' \<mapsto> demo_snap (Fin 5)]),
      (2 * minute, [''queue'' \<mapsto> demo_snap (Fin 5)])]
     (demo_engine [demo_rule RuleTypeImmediate (Fin 0) 0]) ())))"
  by (rule cooldown_separates_alerts)
    (simp_all add: demo_engine_def AddNotifier_def NewEngine_def cooldown_at_least_def demo_rule_def minute_def)

text \<open>
  A consecutive rule that asks for two or more cycles never alerts: \<^verbatim>\<open>checkConsecutive\<close> reports
  "not triggered" until its counter reaches the number, and \<^verbatim>\<open>Evaluate\<close> answers that by setting the
  counter back to 0.  An engine whose rules are all of this kind delivers nothing in any run.
\<close>

theorem consecutive_rules_never_alert:
  assumes "\<forall>r \<in> set rs. ru_RuleType r = RuleTypeConsecutive \<and> 2 \<le> ru_ConsecutiveN r"
  shows "fst (run_engine fmt_g getc cs (AddNotifier n (NewEngine sn rs st cp)) w) = []"
proof -
  obtain ds e' w' where r: "run_engine fmt_g getc cs (AddNotifier n (NewEngine sn rs st cp)) w = (ds, e', w')"
    by (metis prod_cases3)
  have "only_consecutive (AddNotifier n (NewEngine sn rs st cp))"
    using assms by (simp add: only_consecutive_def AddNotifier_def NewEngine_def)
  then show ?thesis using run_engine_consecutive [OF r] r by simp
qed

theorem consecutive_rules_never_alert_witness:
  "fst (run_engine (\<lambda>_. '''') demo_getc
     [(0, [''queue'' \<mapsto> demo_snap (Fin 500)]), (hour, [''queue'' \<mapsto> demo_snap (Fin 500)]),
      (2 * hour, [''queue'' \<mapsto> demo_snap (Fin 500)])]
     (AddNotifier 1 (NewEngine ''svc'' [demo_rule RuleTypeConsecutive (Fin 100) 2] False False)) ()) = []"
  by (rule consecutive_rules_never_alert) (simp add: demo_rule_def)

text \<open>
  A consecutive rule with a number of at most one ignores its threshold for positive values: on a
  gauge it triggers when the value exceeds the threshold or is merely greater than zero, since the
  check falls back to the immediate condition.
\<close>

theorem consecutive_ignores_threshold:
  assumes "sn_Type snap = MetricTypeGauge" and "sn_Gauge snap = Some v"
    and "ru_ConsecutiveN rule \<le> 1" and "consecutive e (ru_MetricName rule) = None"
  shows "fst (checkConsecutive fmt_g rule snap e) \<noteq> None \<longleftrightarrow> flt (ru_Threshold rule) v \<or> flt (Fin 0) v"
proof -
  have "wrap64 1 = 1" by (simp add: wrap64_def)
  then show ?thesis using assms
    by (simp add: checkConsecutive_def checkThreshold_def checkImmediate_def Let_def)
qed

theorem consecutive_ignores_threshold_witness:
  "fst (checkConsecutive (\<lambda>_. '''') (demo_rule RuleTypeConsecutive (Fin 100) 1) (demo_snap (Fin 1))
     (demo_engine [])) \<noteq> None"
  using consecutive_ignores_threshold [of "demo_snap (Fin 1)" "Fin 1" "demo_rule RuleTypeConsecutive (Fin 100) 1"
      "demo_engine []" "\<lambda>_. ''''"]
  by (simp add: demo_snap_def demo_rule_def demo_engine_def AddNotifier_def NewEngine_def)

text \<open>
  A surge rule is dead behind any other rule on the same gauge: the earlier rule's iteration
  already stores the current value as the previous one, so the change is zero.
\<close>

theorem surge_masked_by_earlier_rule:
  assumes "ru_MetricName r1 = k" and "ru_MetricName r2 = k" and "ru_RuleType r2 = RuleTypeSurge"
    and "ru_Threshold r2 = Fin t" and "0 \<le> t"
    and "snaps k = Some snap" and "sn_Name snap = k" and "sn_Type snap = MetricTypeGauge"
    and "sn_Gauge snap = Some (Fin v)"
  shows "fst (Evaluate fmt_g getc now snaps (e\<lparr>rules := [r1, r2]\<rparr>) w) =
         fst (eval_rule fmt_g getc now snap r1 (e\<lparr>rules := [r1, r2]\<rparr>) w)"
proof -
  obtain ds e1 w1 where r: "eval_rule fmt_g getc now snap r1 (e\<lparr>rules := [r1, r2]\<rparr>) w = (ds, e1, w1)"
    by (metis prod_cases3)
  have p: "prevGauges e1 k = Some (Fin v)"
    using r assms(1,8,9) by (auto simp: eval_rule_def savePrevValues_def Let_def split: prod.splits)
  have "checkSurge e1 r2 snap = None"
  proof (cases "v = 0")
    case True
    then show ?thesis using p assms(7-9) by (simp add: checkSurge_def surge_value_def surge_prev_def feq_def)
  next
    case False
    have "surge_change (Fin v) (Fin v) = Fin 0"
      using False by (simp add: surge_change_def feq_def fsub_def hundred_def)
    then show ?thesis using p assms(4,5,7-9) False
      by (simp add: checkSurge_def surge_value_def surge_prev_def feq_def Let_def)
  qed
  then have "fst (eval_rule fmt_g getc now snap r2 e1 w1) = []"
    using assms(3) by (simp add: eval_rule_def checkRule_def)
  then show ?thesis using r assms(1,2,6)
    by (cases "eval_rule fmt_g getc now snap r2 e1 w1") (simp add: Evaluate_def)
qed

theorem surge_masked_by_earlier_rule_witness:
  "fst (Evaluate (\<lambda>_. '''') demo_getc 0 [''queue'' \<mapsto> demo_snap (Fin 500)]
     ((demo_engine [])\<lparr>rules := [demo_rule RuleTypeThreshold (Fin 900) 0, demo_rule RuleTypeSurge (Fin 50) 0]\<rparr>) ()) =
   fst (eval_rule (\<lambda>_. '''') demo_getc 0 (demo_snap (Fin 500)) (demo_rule RuleTypeThreshold (Fin 900) 0)
     ((demo_engine [])\<lparr>rules := [demo_rule RuleTypeThreshold (Fin 900) 0, demo_rule RuleTypeSurge (Fin 50) 0]\<rparr>) ())"
  by (rule surge_masked_by_earlier_rule [where k = "''queue''" and t = 50 and v = 500])
    (simp_all add: demo_rule_def demo_snap_def)

text \<open>
  The first sample of a gauge does trigger a surge rule: with no history a finite value other
  than zero counts as a change of one hundred percent.
\<close>

theorem surge_first_sample:
  assumes "sn_Type snap = MetricTypeGauge" and "sn_Gauge snap = Some (Fin v)"
    and "prevGauges e (sn_Name snap) = None" and "prevCounters e (sn_Name snap) = None"
  shows "checkSurge e rule snap \<noteq> None \<longleftrightarrow> v \<noteq> 0 \<and> flt (ru_Threshold rule) (Fin 100)"
  using assms
  by (simp add: checkSurge_def surge_value_def surge_prev_def surge_change_def feq_def hundred_def Let_def)

theorem surge_first_sample_witness:
  "checkSurge (demo_engine []) (demo_rule RuleTypeSurge (Fin 50) 0) (demo_snap (Fin 1)) \<noteq> None"
  using surge_first_sample [of "demo_snap (Fin 1)" 1 "demo_engine []" "demo_rule RuleTypeSurge (Fin 50) 0"]
  by (simp add: demo_snap_def demo_rule_def demo_engine_def AddNotifier_def NewEngine_def)

end
