(* ===== verification/AlertProvider.thy ===== *)
theory AlertProvider
  imports AlertEngine
begin

text \<open>
  The key-value configuration provider of the alert engine
  (\<^verbatim>\<open>src/pkg/alert/provider/provider.go\<close>) and the package-level set-up (\<^verbatim>\<open>alert.go\<close>).  The reader is
  the function \<open>kv_get\<close> on the state \<open>'w\<close> of the store, \<^verbatim>\<open>time.Now()\<close> an argument;
  \<^verbatim>\<open>json.Unmarshal\<close> into the two target types are arguments.  The theory shows what the provider
  answers and that every rule it loads has a positive cooldown, which is what the engine's cooldown
  guarantee needs.
\<close>

record KVConfigProvider =
  kv_key :: string
  cache :: "NotifierConfig option"
  cacheAt :: instant
  cacheTTL :: duration
  fallback :: "NotifierConfig option"

definition defaultRedisKey :: string where
  "defaultRedisKey = ''alert:config''"

definition defaultCacheTTL :: duration where
  "defaultCacheTTL = 30 * second"

text \<open>The options \<^verbatim>\<open>WithKey\<close> and \<^verbatim>\<open>WithCacheTTL\<close>, applied in order.\<close>

datatype KVOption = WithKey string | WithCacheTTL duration

fun apply_kv_option :: "KVOption \<Rightarrow> KVConfigProvider \<Rightarrow> KVConfigProvider" where
  "apply_kv_option (WithKey k) p = p\<lparr>kv_key := k\<rparr>"
| "apply_kv_option (WithCacheTTL t) p = p\<lparr>cacheTTL := t\<rparr>"

definition NewKVProvider :: "NotifierConfig option \<Rightarrow> KVOption list \<Rightarrow> KVConfigProvider" where
  "NewKVProvider fb os = foldl (\<lambda>p o'. apply_kv_option o' p)
     \<lparr>kv_key = defaultRedisKey, cache = None, cacheAt = 0, cacheTTL = defaultCacheTTL, fallback = fb\<rparr> os"

type_synonym 'w kv_get = "string \<Rightarrow> 'w \<Rightarrow> (go_error + string) \<times> 'w"

definition GetNotifierConfig ::
    "'w kv_get \<Rightarrow> (string \<Rightarrow> NotifierConfig option) \<Rightarrow> instant \<Rightarrow> KVConfigProvider \<Rightarrow> 'w \<Rightarrow>
     (go_error + NotifierConfig) \<times> KVConfigProvider \<times> 'w" where
  "GetNotifierConfig kv parse now p w =
     (case (if time_sub now (cacheAt p) < cacheTTL p then cache p else None) of
        Some cfg \<Rightarrow> (Inr cfg, p, w)
      | None \<Rightarrow>
          (let (r, w1) = kv (kv_key p) w;
               degrade = (\<lambda>err. (case fallback p of Some f \<Rightarrow> Inr f | None \<Rightarrow> Inl err, p, w1))
           in case r of
                Inl err \<Rightarrow> degrade err
              | Inr val \<Rightarrow>
                  (case parse val of
                     None \<Rightarrow> degrade ErrJSON
                   | Some cfg \<Rightarrow> (Inr cfg, p\<lparr>cache := Some cfg, cacheAt := now\<rparr>, w1))))"

definition InvalidateCache :: "KVConfigProvider \<Rightarrow> KVConfigProvider" where
  "InvalidateCache p = p\<lparr>cache := None\<rparr>"

subsection \<open>Rules\<close>

record RuleJSON =
  rj_MetricName :: string
  rj_RuleType :: string
  rj_Level :: int
  rj_Title :: string
  rj_Threshold :: f64
  rj_ConsecutiveN :: int
  rj_CooldownSeconds :: int

definition rule_of_json :: "RuleJSON \<Rightarrow> Rule" where
  "rule_of_json jr =
     (let c = wrap64 (rj_CooldownSeconds jr * second)
      in \<lparr>ru_MetricName = rj_MetricName jr, ru_RuleType = ParseRuleType (rj_RuleType jr),
          ru_Level = level_of_int (rj_Level jr), ru_Title = rj_Title jr,
          ru_Threshold = rj_Threshold jr, ru_ConsecutiveN = rj_ConsecutiveN jr, ru_MinSamples = 0,
          ru_CooldownPeriod = (if c \<le> 0 then 5 * minute else c)\<rparr>)"

definition GetRules ::
    "'w kv_get \<Rightarrow> (string \<Rightarrow> RuleJSON list option) \<Rightarrow> string \<Rightarrow> 'w \<Rightarrow> (go_error + Rule list) \<times> 'w" where
  "GetRules kv parse rulesKey w =
     (let (r, w1) = kv rulesKey w in
      (case r of
         Inl err \<Rightarrow> Inl err
       | Inr val \<Rightarrow>
           if val = '''' then Inr []
           else case parse val of
                  None \<Rightarrow> Inl (ErrWrap ''parse rules json'' ErrJSON)
                | Some js \<Rightarrow> Inr (map rule_of_json (filter (\<lambda>jr. rj_MetricName jr \<noteq> '''') js)), w1))"

text \<open>The provider as the engine's source of configuration.\<close>

definition provider_config ::
    "'w kv_get \<Rightarrow> (string \<Rightarrow> NotifierConfig option) \<Rightarrow> instant \<Rightarrow> (KVConfigProvider \<times> 'w) get_config" where
  "provider_config kv parse now pw =
     (let (r, p', w') = GetNotifierConfig kv parse now (fst pw) (snd pw)
      in (map_sum id Some r, (p', w')))"

subsection \<open>Set-up (\<^verbatim>\<open>alert.go\<close>)\<close>

record AlertConfig =
  ac_ServiceName :: string
  ac_Rules :: "Rule list"
  ac_ConfigProvider :: bool
  ac_Store :: bool

definition alert_Init :: "AlertConfig \<Rightarrow> Engine option" where
  "alert_Init c = Some (NewEngine (ac_ServiceName c) (ac_Rules c) (ac_Store c) (ac_ConfigProvider c))"

definition EvaluateFunc ::
    "(f64 \<Rightarrow> string) \<Rightarrow> 'w get_config \<Rightarrow> instant \<Rightarrow> (string \<Rightarrow> Snapshot option) \<Rightarrow> Engine option \<Rightarrow> 'w \<Rightarrow>
     delivery list \<times> Engine option \<times> 'w" where
  "EvaluateFunc fmt_g getc now snaps de w =
     (case de of
        None \<Rightarrow> ([], None, w)
      | Some e \<Rightarrow> (let (ds, e', w') = Evaluate fmt_g getc now snaps e w in (ds, Some e', w')))"

subsection \<open>Properties\<close>

lemma rule_of_json_cooldown:
  "0 < ru_CooldownPeriod (rule_of_json jr) \<and> ru_CooldownPeriod (rule_of_json jr) \<le> max_int64"
  using wrap64_range [of "rj_CooldownSeconds jr * second"]
  by (auto simp: rule_of_json_def Let_def in_int64_def minute_def)

text \<open>
  What the provider answers: within the time to live it returns the cached configuration without
  reading; otherwise it reads once, caches and returns a configuration that decodes, and answers a
  failed read or an undecodable value with the fallback, or with the error when there is none,
  leaving the (expired) cache alone.
\<close>

theorem provider_outcomes:
  assumes "kv (kv_key p) w = (r, w1)"
  shows "GetNotifierConfig kv parse now p w =
    (if time_sub now (cacheAt p) < cacheTTL p \<and> cache p \<noteq> None then (Inr (the (cache p)), p, w)
     else case (case r of Inl err \<Rightarrow> Inl err
                | Inr val \<Rightarrow> (case parse val of None \<Rightarrow> Inl ErrJSON | Some cfg \<Rightarrow> Inr cfg)) of
            Inr cfg \<Rightarrow> (Inr cfg, p\<lparr>cache := Some cfg, cacheAt := now\<rparr>, w1)
          | Inl err \<Rightarrow> (case fallback p of Some f \<Rightarrow> Inr f | None \<Rightarrow> Inl err, p, w1))"
  using assms by (auto simp: GetNotifierConfig_def Let_def split: option.splits sum.splits)

definition demo_nc :: NotifierConfig where
  "demo_nc = \<lparr>nc_DingTalkWebhook = ''w'', nc_DingTalkSecret = '''', nc_Enabled = True\<rparr>"

theorem provider_outcomes_witness:
  "fst (GetNotifierConfig (\<lambda>k w. (Inl ErrEOF, w)) (\<lambda>_. None) 5 (NewKVProvider (Some demo_nc) []) ()) = Inr demo_nc"
  using provider_outcomes [of "\<lambda>k w. (Inl ErrEOF, w)" "NewKVProvider (Some demo_nc) []" "()" "Inl ErrEOF" "()" "\<lambda>_. None" 5]
  by (simp add: NewKVProvider_def)

text \<open>
  Every rule the provider loads names a metric and has a positive cooldown (five minutes where the
  configured seconds are not positive or overflow to a non-positive duration), so engines running
  loaded rules are separated by the smallest of them.
\<close>

theorem loaded_rules_ok:
  assumes "GetRules kv parse key w = (Inr rs, w')"
  shows "\<forall>r \<in> set rs. ru_MetricName r \<noteq> '''' \<and> 0 < ru_CooldownPeriod r \<and>
    cooldown_at_least (ru_CooldownPeriod r) (ru_MetricName r) [r]"
proof
  fix r assume r: "r \<in> set rs"
  then obtain jr where jr: "r = rule_of_json jr" "rj_MetricName jr \<noteq> ''''"
    using assms by (auto simp: GetRules_def split: prod.splits sum.splits if_splits option.splits)
  then show "ru_MetricName r \<noteq> '''' \<and> 0 < ru_CooldownPeriod r \<and>
    cooldown_at_least (ru_CooldownPeriod r) (ru_MetricName r) [r]"
    using rule_of_json_cooldown [of jr] by (simp add: cooldown_at_least_def) (simp add: rule_of_json_def Let_def)
qed

definition demo_json :: RuleJSON where
  "demo_json = \<lparr>rj_MetricName = ''queue'', rj_RuleType = ''surge'', rj_Level = 1, rj_Title = ''q'',
     rj_Threshold = Fin 50, rj_ConsecutiveN = 0, rj_CooldownSeconds = 0\<rparr>"

theorem loaded_rules_ok_witness:
  "ru_MetricName (rule_of_json demo_json) \<noteq> '''' \<and> 0 < ru_CooldownPeriod (rule_of_json demo_json)"
proof -
  have "GetRules (\<lambda>k w. (Inr ''x'', w)) (\<lambda>_. Some [demo_json]) ''alert:rules'' () = (Inr [rule_of_json demo_json], ())"
    by (simp add: GetRules_def demo_json_def)
  from loaded_rules_ok [OF this] show ?thesis by simp
qed

end
