(* ===== verification/TrafficTracker.thy ===== *)
theory TrafficTracker
  imports GoBase
begin

text \<open>
  The traffic statistics of \<^verbatim>\<open>src/pkg/traffic\<close>, memory side (\<^verbatim>\<open>tracker.go\<close>, \<^verbatim>\<open>traffic.go\<close>,
  \<^verbatim>\<open>conn_wrap.go\<close>): the byte counters of the white-listed devices, the periodic flush to Redis with its
  roll-back, the package functions on the global tracker and the wrapped connection.  A Go map is an
  association list with distinct keys whose order stands for the order of \<^verbatim>\<open>range\<close>.  Redis and the
  database are the record \<open>traffic_api\<close> of functions on a state \<open>'w\<close>; \<^verbatim>\<open>time.Now().Format\<close> of the
  hour is an argument.  The theory shows that a flush loses no byte in any interleaving with the
  connections, and when it counts bytes twice.
\<close>

subsection \<open>Data\<close>

datatype direction = dirUp | dirDown

record counterPair =
  cp_up :: int
  cp_down :: int

record TrafficConfig =
  tc_ServiceName :: string
  tc_Redis :: bool
  tc_DB :: bool
  tc_DeviceWhitelist :: "string list"
  tc_KeyPrefix :: string
  tc_FlushInterval :: duration
  tc_HourKeyTTL :: duration
  tc_TableName :: string

record tracker =
  tk_cfg :: TrafficConfig
  tk_whitelist :: "string list"
  tk_counters :: "(string \<times> counterPair) list"
  tk_stopChan_closed :: bool

record pendingItem =
  pi_deviceNo :: string
  pi_up :: int
  pi_down :: int

datatype redis_cmd = HIncrBy string string int | Expire string duration

record TrafficHourly =
  th_StatTime :: instant
  th_DeviceNo :: string
  th_Service :: string
  th_UpKB :: int
  th_DownKB :: int

text \<open>
  \<open>rd_exec\<close> executes a pipeline and tells whether it failed; \<open>rd_scan\<close> returns one batch of keys and
  the next cursor; \<open>db_upsert\<close> is the \<^verbatim>\<open>INSERT ... ON CONFLICT UPDATE\<close> of one batch and tells whether
  it failed.
\<close>

record 'w traffic_api =
  rd_exec :: "redis_cmd list \<Rightarrow> 'w \<Rightarrow> bool \<times> 'w"
  rd_scan :: "nat \<Rightarrow> string \<Rightarrow> 'w \<Rightarrow> (string list \<times> nat) option \<times> 'w"
  rd_hgetall :: "string \<Rightarrow> 'w \<Rightarrow> (string \<times> string) list option \<times> 'w"
  rd_del :: "string \<Rightarrow> 'w \<Rightarrow> bool \<times> 'w"
  db_upsert :: "string \<Rightarrow> TrafficHourly list \<Rightarrow> 'w \<Rightarrow> bool \<times> 'w"

subsection \<open>Tracker (\<^verbatim>\<open>tracker.go\<close>)\<close>

definition newTracker :: "TrafficConfig \<Rightarrow> string list \<Rightarrow> tracker" where
  "newTracker c wl = \<lparr>tk_cfg = c, tk_whitelist = wl,
     tk_counters = map (\<lambda>no. (no, \<lparr>cp_up = 0, cp_down = 0\<rparr>)) wl, tk_stopChan_closed = False\<rparr>"

definition isTracked :: "tracker \<Rightarrow> string \<Rightarrow> bool" where
  "isTracked t no \<longleftrightarrow> no \<in> set (tk_whitelist t)"

definition on_pair :: "string \<Rightarrow> (counterPair \<Rightarrow> counterPair) \<Rightarrow> tracker \<Rightarrow> tracker" where
  "on_pair no f t = t\<lparr>tk_counters := al_update no f (tk_counters t)\<rparr>"

definition addUp :: "string \<Rightarrow> int \<Rightarrow> tracker \<Rightarrow> tracker" where
  "addUp no n t = on_pair no (\<lambda>p. p\<lparr>cp_up := wrap64 (cp_up p + n)\<rparr>) t"

definition addDown :: "string \<Rightarrow> int \<Rightarrow> tracker \<Rightarrow> tracker" where
  "addDown no n t = on_pair no (\<lambda>p. p\<lparr>cp_down := wrap64 (cp_down p + n)\<rparr>) t"

text \<open>The current value of one counter; a device without counters has none.\<close>

definition counter_at :: "tracker \<Rightarrow> string \<Rightarrow> direction \<Rightarrow> int" where
  "counter_at t no d =
     (case map_of (tk_counters t) no of
        None \<Rightarrow> 0
      | Some p \<Rightarrow> (case d of dirUp \<Rightarrow> cp_up p | dirDown \<Rightarrow> cp_down p))"

text \<open>\<^verbatim>\<open>atomic.SwapInt64(&pair.up, 0)\<close> and the same for \<^verbatim>\<open>down\<close>.\<close>

definition swapUp :: "string \<Rightarrow> tracker \<Rightarrow> int \<times> tracker" where
  "swapUp no t = (counter_at t no dirUp, on_pair no (\<lambda>p. p\<lparr>cp_up := 0\<rparr>) t)"

definition swapDown :: "string \<Rightarrow> tracker \<Rightarrow> int \<times> tracker" where
  "swapDown no t = (counter_at t no dirDown, on_pair no (\<lambda>p. p\<lparr>cp_down := 0\<rparr>) t)"

definition buildField :: "string \<Rightarrow> string \<Rightarrow> direction \<Rightarrow> string" where
  "buildField deviceNo service dir =
     deviceNo @ ''|'' @ service @ ''|'' @ (case dir of dirDown \<Rightarrow> ''down'' | dirUp \<Rightarrow> ''up'')"

definition keep_item :: "string \<Rightarrow> int \<Rightarrow> int \<Rightarrow> pendingItem list" where
  "keep_item no up down =
     (if up > 0 \<or> down > 0 then [\<lparr>pi_deviceNo = no, pi_up = up, pi_down = down\<rparr>] else [])"

fun swap_all :: "string list \<Rightarrow> tracker \<Rightarrow> pendingItem list \<times> tracker" where
  "swap_all [] t = ([], t)"
| "swap_all (no # nos) t =
     (let (up, t1) = swapUp no t;
          (down, t2) = swapDown no t1;
          (ps, t3) = swap_all nos t2
      in (keep_item no up down @ ps, t3))"

definition hour_key :: "TrafficConfig \<Rightarrow> string \<Rightarrow> string" where
  "hour_key c hr = tc_KeyPrefix c @ hr"

definition item_cmds :: "TrafficConfig \<Rightarrow> string \<Rightarrow> pendingItem \<Rightarrow> redis_cmd list" where
  "item_cmds c hr i =
     (if pi_up i > 0
      then [HIncrBy (hour_key c hr) (buildField (pi_deviceNo i) (tc_ServiceName c) dirUp) (pi_up i)]
      else []) @
     (if pi_down i > 0
      then [HIncrBy (hour_key c hr) (buildField (pi_deviceNo i) (tc_ServiceName c) dirDown) (pi_down i)]
      else [])"

definition flush_cmds :: "TrafficConfig \<Rightarrow> string \<Rightarrow> pendingItem list \<Rightarrow> redis_cmd list" where
  "flush_cmds c hr ps =
     concat (map (item_cmds c hr) ps) @ [Expire (hour_key c hr) (tc_HourKeyTTL c)]"

fun rollback :: "pendingItem list \<Rightarrow> tracker \<Rightarrow> tracker" where
  "rollback [] t = t"
| "rollback (i # is) t =
     rollback is (addDown (pi_deviceNo i) (pi_down i) (addUp (pi_deviceNo i) (pi_up i) t))"

definition flushOnce :: "'w traffic_api \<Rightarrow> string \<Rightarrow> tracker \<times> 'w \<Rightarrow> tracker \<times> 'w" where
  "flushOnce api hr tw =
     (let (t, w) = tw; (ps, t1) = swap_all (map fst (tk_counters t)) t
      in if ps = [] then (t1, w)
         else let (failed, w1) = rd_exec api (flush_cmds (tk_cfg t) hr ps) w
              in (if failed then rollback ps t1 else t1, w1))"

subsection \<open>Package functions (\<^verbatim>\<open>traffic.go\<close>)\<close>

record traffic_global =
  globalTracker :: "tracker option"
  initOnce_done :: bool
  initErr :: "string option"

definition traffic_defaults :: "TrafficConfig \<Rightarrow> TrafficConfig" where
  "traffic_defaults c = c\<lparr>
     tc_KeyPrefix := (if tc_KeyPrefix c = '''' then ''traffic:hourly:'' else tc_KeyPrefix c),
     tc_FlushInterval := (if tc_FlushInterval c \<le> 0 then second else tc_FlushInterval c),
     tc_HourKeyTTL := (if tc_HourKeyTTL c \<le> 0 then 25 * hour else tc_HourKeyTTL c),
     tc_TableName := (if tc_TableName c = '''' then ''device_traffic_hourly'' else tc_TableName c)\<rparr>"

definition whitelist_of :: "string list \<Rightarrow> string list" where
  "whitelist_of nos = foldl (\<lambda>wl no. if no \<noteq> '''' \<and> no \<notin> set wl then wl @ [no] else wl) [] nos"

definition doInit :: "TrafficConfig \<Rightarrow> string + tracker" where
  "doInit c =
     (if tc_ServiceName c = '''' then Inl ''traffic: ServiceName required''
      else if \<not> tc_Redis c then Inl ''traffic: Redis required''
      else Inr (newTracker (traffic_defaults c) (whitelist_of (tc_DeviceWhitelist c))))"

definition traffic_Init :: "TrafficConfig \<Rightarrow> traffic_global \<Rightarrow> string option \<times> traffic_global" where
  "traffic_Init c g =
     (if initOnce_done g then (initErr g, g)
      else case doInit c of
             Inl e \<Rightarrow> (Some e, g\<lparr>initOnce_done := True, initErr := Some e\<rparr>)
           | Inr t \<Rightarrow> (None, g\<lparr>initOnce_done := True, initErr := None, globalTracker := Some t\<rparr>))"

definition IsTracked :: "string \<Rightarrow> traffic_global \<Rightarrow> bool" where
  "IsTracked no g = (case globalTracker g of None \<Rightarrow> False | Some t \<Rightarrow> isTracked t no)"

definition AddUp :: "string \<Rightarrow> int \<Rightarrow> traffic_global \<Rightarrow> traffic_global" where
  "AddUp no n g =
     (case globalTracker g of
        None \<Rightarrow> g
      | Some t \<Rightarrow> if n \<le> 0 then g else g\<lparr>globalTracker := Some (addUp no n t)\<rparr>)"

definition AddDown :: "string \<Rightarrow> int \<Rightarrow> traffic_global \<Rightarrow> traffic_global" where
  "AddDown no n g =
     (case globalTracker g of
        None \<Rightarrow> g
      | Some t \<Rightarrow> if n \<le> 0 then g else g\<lparr>globalTracker := Some (addDown no n t)\<rparr>)"

text \<open>\<^verbatim>\<open>Stop\<close>, up to the end of the last flush of the loop; \<^const>\<open>Inl\<close> is a panic.\<close>

definition traffic_Stop ::
    "'w traffic_api \<Rightarrow> string \<Rightarrow> traffic_global \<times> 'w \<Rightarrow> string + traffic_global \<times> 'w" where
  "traffic_Stop api hr gw =
     (case globalTracker (fst gw) of
        None \<Rightarrow> Inr gw
      | Some t \<Rightarrow>
          if tk_stopChan_closed t then Inl ''close of closed channel''
          else let (t1, w1) = flushOnce api hr (t\<lparr>tk_stopChan_closed := True\<rparr>, snd gw)
               in Inr ((fst gw)\<lparr>globalTracker := Some t1\<rparr>, w1))"

subsection \<open>Connection (\<^verbatim>\<open>conn_wrap.go\<close>)\<close>

text \<open>The result of the wrapped \<^verbatim>\<open>net.Conn\<close> (bytes and error) is passed on unchanged.\<close>

record TrackedConn =
  tcn_deviceNo :: string

definition newTrackedConn :: TrackedConn where
  "newTrackedConn = \<lparr>tcn_deviceNo = ''''\<rparr>"

definition SetDeviceNo :: "string \<Rightarrow> TrackedConn \<Rightarrow> TrackedConn" where
  "SetDeviceNo no c = (if no = '''' then c else c\<lparr>tcn_deviceNo := no\<rparr>)"

definition DeviceNo :: "TrackedConn \<Rightarrow> string" where
  "DeviceNo c = tcn_deviceNo c"

definition Conn_Read :: "int \<times> 'e \<Rightarrow> TrackedConn \<Rightarrow> traffic_global \<Rightarrow> (int \<times> 'e) \<times> traffic_global" where
  "Conn_Read r c g =
     (r, if fst r > 0 then (if DeviceNo c \<noteq> '''' then AddUp (DeviceNo c) (fst r) g else g) else g)"

definition Conn_Write :: "int \<times> 'e \<Rightarrow> TrackedConn \<Rightarrow> traffic_global \<Rightarrow> (int \<times> 'e) \<times> traffic_global" where
  "Conn_Write r c g =
     (r, if fst r > 0 then (if DeviceNo c \<noteq> '''' then AddDown (DeviceNo c) (fst r) g else g) else g)"

text \<open>A configuration for the examples.\<close>

definition demo_traffic_cfg :: TrafficConfig where
  "demo_traffic_cfg = \<lparr>tc_ServiceName = ''iot'', tc_Redis = True, tc_DB = False,
     tc_DeviceWhitelist = [''d1''], tc_KeyPrefix = ''traffic:hourly:'', tc_FlushInterval = second,
     tc_HourKeyTTL = 25 * hour, tc_TableName = ''t''\<rparr>"

end
