(* ===== verification/TrafficFlow.thy ===== *)
theory TrafficFlow
  imports TrafficTracker
begin

text \<open>
  The flush loop of the traffic tracker under concurrency (\<^verbatim>\<open>tracker.go\<close>: \<^verbatim>\<open>flushLoop\<close>,
  \<^verbatim>\<open>flushOnce\<close>).  Every \<^verbatim>\<open>sync/atomic\<close> operation of the loop is one step, the execution of the
  pipeline is one step, and connections add bytes between any two of them.  The theory shows
  conservation of the counted bytes over all interleavings, that the sequential \<^verbatim>\<open>flushOnce\<close> is a run
  of these steps, and its outcomes.
\<close>

subsection \<open>Steps\<close>

datatype flush_pc =
    PIdle
  | PSwap "string list" "pendingItem list"
  | PSwapDown string int "string list" "pendingItem list"
  | PExec "pendingItem list"
  | PBack "pendingItem list"
  | PBackDown pendingItem "pendingItem list"
  | PStopped

text \<open>\<open>last\<close> tells that the flush under way was started by the stop signal.\<close>

record 'w flow =
  trk :: tracker
  fpc :: flush_pc
  final_flush :: bool
  remote :: 'w

datatype flow_label = Counted string direction int | Silent

definition after_flush :: "'w flow \<Rightarrow> flush_pc" where
  "after_flush s = (if final_flush s then PStopped else PIdle)"

inductive tstep :: "'w traffic_api \<Rightarrow> 'w flow \<Rightarrow> flow_label \<Rightarrow> 'w flow \<Rightarrow> bool" for api where
  count_up: "0 < n \<Longrightarrow> tstep api s (Counted no dirUp n) (s\<lparr>trk := addUp no n (trk s)\<rparr>)"
| count_down: "0 < n \<Longrightarrow> tstep api s (Counted no dirDown n) (s\<lparr>trk := addDown no n (trk s)\<rparr>)"
| close_stop: "tstep api s Silent (s\<lparr>trk := (trk s)\<lparr>tk_stopChan_closed := True\<rparr>\<rparr>)"
| tick: "fpc s = PIdle \<Longrightarrow>
    tstep api s Silent (s\<lparr>fpc := PSwap (map fst (tk_counters (trk s))) []\<rparr>)"
| stop_signal: "fpc s = PIdle \<Longrightarrow> tk_stopChan_closed (trk s) \<Longrightarrow>
    tstep api s Silent (s\<lparr>fpc := PSwap (map fst (tk_counters (trk s))) [], final_flush := True\<rparr>)"
| swap_up: "fpc s = PSwap nos ps \<Longrightarrow> no \<in> set nos \<Longrightarrow> swapUp no (trk s) = (up, t') \<Longrightarrow>
    tstep api s Silent (s\<lparr>trk := t', fpc := PSwapDown no up (remove1 no nos) ps\<rparr>)"
| swap_down: "fpc s = PSwapDown no up nos ps \<Longrightarrow> swapDown no (trk s) = (down, t') \<Longrightarrow>
    tstep api s Silent (s\<lparr>trk := t', fpc := PSwap nos (ps @ keep_item no up down)\<rparr>)"
| nothing_pending: "fpc s = PSwap [] [] \<Longrightarrow> tstep api s Silent (s\<lparr>fpc := after_flush s\<rparr>)"
| all_swapped: "fpc s = PSwap [] ps \<Longrightarrow> ps \<noteq> [] \<Longrightarrow> tstep api s Silent (s\<lparr>fpc := PExec ps\<rparr>)"
| exec: "fpc s = PExec ps \<Longrightarrow>
    rd_exec api (flush_cmds (tk_cfg (trk s)) hr ps) (remote s) = (failed, w') \<Longrightarrow>
    tstep api s Silent (s\<lparr>fpc := (if failed then PBack ps else after_flush s), remote := w'\<rparr>)"
| back_up: "fpc s = PBack (i # is) \<Longrightarrow>
    tstep api s Silent (s\<lparr>trk := addUp (pi_deviceNo i) (pi_up i) (trk s), fpc := PBackDown i is\<rparr>)"
| back_down: "fpc s = PBackDown i is \<Longrightarrow>
    tstep api s Silent (s\<lparr>trk := addDown (pi_deviceNo i) (pi_down i) (trk s), fpc := PBack is\<rparr>)"
| back_done: "fpc s = PBack [] \<Longrightarrow> tstep api s Silent (s\<lparr>fpc := after_flush s\<rparr>)"

inductive_cases tstep_elim: "tstep api s l s'"

lemmas tstep_cases = tstep_elim [consumes 1, case_names count_up count_down close_stop tick stop_signal swap_up
  swap_down nothing_pending all_swapped exec back_up back_down back_done]

inductive tsteps :: "'w traffic_api \<Rightarrow> 'w flow \<Rightarrow> flow_label list \<Rightarrow> 'w flow \<Rightarrow> bool" for api where
  tsteps_refl: "tsteps api s [] s"
| tsteps_step: "tsteps api s ls s1 \<Longrightarrow> tstep api s1 l s2 \<Longrightarrow> tsteps api s (ls @ [l]) s2"

text \<open>The bytes the labels counted for one device and direction.\<close>

fun label_bytes :: "string \<Rightarrow> direction \<Rightarrow> flow_label \<Rightarrow> int" where
  "label_bytes no d (Counted no' d' n) = (if no' = no \<and> d' = d then n else 0)"
| "label_bytes no d Silent = 0"

definition counted :: "string \<Rightarrow> direction \<Rightarrow> flow_label list \<Rightarrow> int" where
  "counted no d ls = sum_list (map (label_bytes no d) ls)"

text \<open>The bytes the flush under way has taken out of the counters.\<close>

fun item_bytes :: "string \<Rightarrow> direction \<Rightarrow> pendingItem \<Rightarrow> int" where
  "item_bytes no dirUp i = (if pi_deviceNo i = no then pi_up i else 0)"
| "item_bytes no dirDown i = (if pi_deviceNo i = no then pi_down i else 0)"

definition items_bytes :: "string \<Rightarrow> direction \<Rightarrow> pendingItem list \<Rightarrow> int" where
  "items_bytes no d ps = sum_list (map (item_bytes no d) ps)"

fun in_flight :: "string \<Rightarrow> direction \<Rightarrow> flush_pc \<Rightarrow> int" where
  "in_flight no d (PSwap nos ps) = items_bytes no d ps"
| "in_flight no d (PSwapDown no' up nos ps) =
     items_bytes no d ps + (if no' = no \<and> d = dirUp then up else 0)"
| "in_flight no d (PExec ps) = items_bytes no d ps"
| "in_flight no d (PBack ps) = items_bytes no d ps"
| "in_flight no d (PBackDown i is) =
     items_bytes no d is + (if pi_deviceNo i = no \<and> d = dirDown then pi_down i else 0)"
| "in_flight no d _ = 0"

subsection \<open>What Redis promises\<close>

text \<open>
  \<open>applied w f\<close> is the sum of all increments ever applied to the hash field \<open>f\<close>.  A pipeline that
  succeeds has applied each of its commands; one that fails may have applied any part of them.  It is
  all or nothing if a failed one has applied nothing.
\<close>

fun cmd_inc :: "string \<Rightarrow> redis_cmd \<Rightarrow> int" where
  "cmd_inc f (HIncrBy k f' n) = (if f' = f then n else 0)"
| "cmd_inc f (Expire k ttl) = 0"

definition incs :: "string \<Rightarrow> redis_cmd list \<Rightarrow> int" where
  "incs f cs = sum_list (map (cmd_inc f) cs)"

definition pipeline_contract :: "'w traffic_api \<Rightarrow> ('w \<Rightarrow> string \<Rightarrow> int) \<Rightarrow> bool" where
  "pipeline_contract api applied \<longleftrightarrow>
     (\<forall>cs w w' f failed. (\<forall>k g n. HIncrBy k g n \<in> set cs \<longrightarrow> 0 < n) \<longrightarrow> rd_exec api cs w = (failed, w') \<longrightarrow>
        applied w f \<le> applied w' f \<and> (\<not> failed \<longrightarrow> applied w' f = applied w f + incs f cs))"

definition all_or_nothing :: "'w traffic_api \<Rightarrow> ('w \<Rightarrow> string \<Rightarrow> int) \<Rightarrow> bool" where
  "all_or_nothing api applied \<longleftrightarrow>
     (\<forall>cs w w' f. rd_exec api cs w = (True, w') \<longrightarrow> applied w' f = applied w f)"

subsection \<open>Lemmas on the operations\<close>

named_theorems cell \<open>the counters after an operation\<close>

definition has_device :: "tracker \<Rightarrow> string \<Rightarrow> bool" where
  "has_device t no \<longleftrightarrow> no \<in> fst ` set (tk_counters t)"

lemma has_device_iff: "has_device t no \<longleftrightarrow> map_of (tk_counters t) no \<noteq> None"
  by (simp add: has_device_def map_of_eq_None_iff)

lemma tk_counters_on_pair [simp]: "tk_counters (on_pair no f t) = al_update no f (tk_counters t)"
  by (simp add: on_pair_def)

lemma has_device_on_pair [cell, simp]: "has_device (on_pair no f t) no' = has_device t no'"
  by (simp add: has_device_iff)

lemma has_device_ops [cell, simp]:
  "has_device (addUp no n t) no' = has_device t no'"
  "has_device (addDown no n t) no' = has_device t no'"
  "has_device (snd (swapUp no t)) no' = has_device t no'"
  "has_device (snd (swapDown no t)) no' = has_device t no'"
  by (simp_all add: addUp_def addDown_def swapUp_def swapDown_def)

lemma has_device_stop [simp]:
  "has_device (t\<lparr>tk_stopChan_closed := b\<rparr>) no = has_device t no"
  "counter_at (t\<lparr>tk_stopChan_closed := b\<rparr>) no d = counter_at t no d"
  by (simp_all add: has_device_def counter_at_def)

lemma counter_at_unknown [simp]: "\<not> has_device t no \<Longrightarrow> counter_at t no d = 0"
  by (simp add: has_device_iff counter_at_def)

lemma counter_at_addUp [cell]:
  "counter_at (addUp no n t) no' d =
     (if no' = no \<and> d = dirUp \<and> has_device t no then wrap64 (counter_at t no' d + n)
      else counter_at t no' d)"
  by (auto simp: addUp_def counter_at_def has_device_iff split: option.split direction.split)

lemma counter_at_addDown [cell]:
  "counter_at (addDown no n t) no' d =
     (if no' = no \<and> d = dirDown \<and> has_device t no then wrap64 (counter_at t no' d + n)
      else counter_at t no' d)"
  by (auto simp: addDown_def counter_at_def has_device_iff split: option.split direction.split)

lemma counter_at_swapUp [cell]:
  "counter_at (snd (swapUp no t)) no' d = (if no' = no \<and> d = dirUp then 0 else counter_at t no' d)"
  by (auto simp: swapUp_def counter_at_def split: option.split direction.split)

lemma counter_at_swapDown [cell]:
  "counter_at (snd (swapDown no t)) no' d = (if no' = no \<and> d = dirDown then 0 else counter_at t no' d)"
  by (auto simp: swapDown_def counter_at_def split: option.split direction.split)


text \<open>The field of a counter determines its device and direction.\<close>

lemma buildField_inj:
  "buildField no svc d = buildField no' svc d' \<longleftrightarrow> no = no' \<and> d = d'"
proof
  assume eq: "buildField no svc d = buildField no' svc d'"
  have "last (buildField no svc d) = (case d of dirDown \<Rightarrow> CHR ''n'' | dirUp \<Rightarrow> CHR ''p'')" for no d
    by (cases d) (simp_all add: buildField_def)
  with eq have "d = d'" by (cases d; cases d') (auto dest: arg_cong [of _ _ last])
  with eq show "no = no' \<and> d = d'" by (simp add: buildField_def)
qed simp

definition good_items :: "tracker \<Rightarrow> pendingItem list \<Rightarrow> bool" where
  "good_items t ps \<longleftrightarrow> (\<forall>i \<in> set ps. 0 \<le> pi_up i \<and> 0 \<le> pi_down i \<and> has_device t (pi_deviceNo i))"

lemma good_items_simps [simp]:
  "good_items t []"
  "good_items t (i # is) \<longleftrightarrow>
     0 \<le> pi_up i \<and> 0 \<le> pi_down i \<and> has_device t (pi_deviceNo i) \<and> good_items t is"
  "good_items t (ps @ qs) \<longleftrightarrow> good_items t ps \<and> good_items t qs"
  by (auto simp: good_items_def)

lemma items_bytes_simps [simp]:
  "items_bytes no d [] = 0"
  "items_bytes no d (i # is) = item_bytes no d i + items_bytes no d is"
  "items_bytes no d (ps @ qs) = items_bytes no d ps + items_bytes no d qs"
  by (simp_all add: items_bytes_def)

lemma items_bytes_nonneg: "good_items t ps \<Longrightarrow> 0 \<le> items_bytes no d ps"
  by (induction ps) (auto, (cases d; auto))

lemma keep_item_bytes [simp]:
  "0 \<le> up \<Longrightarrow> 0 \<le> down \<Longrightarrow>
   items_bytes no d (keep_item no' up down) =
     (if no' = no then (case d of dirUp \<Rightarrow> up | dirDown \<Rightarrow> down) else 0)"
  by (cases d) (auto simp: keep_item_def)

lemma keep_item_good:
  "0 \<le> up \<Longrightarrow> 0 \<le> down \<Longrightarrow> has_device t no \<Longrightarrow> good_items t (keep_item no up down)"
  by (simp add: keep_item_def)

lemma set_keep_item:
  "i \<in> set (keep_item no up down) \<longleftrightarrow>
     (up > 0 \<or> down > 0) \<and> i = \<lparr>pi_deviceNo = no, pi_up = up, pi_down = down\<rparr>"
  by (auto simp: keep_item_def)

lemma incs_simps [simp]:
  "incs f [] = 0" "incs f (c # cs) = cmd_inc f c + incs f cs" "incs f (cs @ ds) = incs f cs + incs f ds"
  by (simp_all add: incs_def)

lemma incs_item:
  "0 \<le> pi_up i \<Longrightarrow> 0 \<le> pi_down i \<Longrightarrow>
   incs (buildField no (tc_ServiceName c) d) (item_cmds c hr i) = item_bytes no d i"
  by (cases d) (auto simp: item_cmds_def buildField_inj)

text \<open>The pipeline adds to each field exactly the bytes that were taken for it.\<close>

lemma incs_flush:
  "good_items t ps \<Longrightarrow>
   incs (buildField no (tc_ServiceName c) d) (flush_cmds c hr ps) = items_bytes no d ps"
proof (induction ps)
  case Nil
  then show ?case by (simp add: flush_cmds_def)
next
  case (Cons i ps)
  then show ?case by (simp add: flush_cmds_def incs_item)
qed

lemma flush_cmds_positive: "HIncrBy k g n \<in> set (flush_cmds c hr ps) \<Longrightarrow> 0 < n"
  by (auto simp: flush_cmds_def item_cmds_def split: if_splits)

subsection \<open>The invariant\<close>

fun pc_ok :: "tracker \<Rightarrow> flush_pc \<Rightarrow> bool" where
  "pc_ok t (PSwap nos ps) \<longleftrightarrow> (\<forall>no \<in> set nos. has_device t no) \<and> good_items t ps"
| "pc_ok t (PSwapDown no up nos ps) \<longleftrightarrow>
     has_device t no \<and> 0 \<le> up \<and> (\<forall>no \<in> set nos. has_device t no) \<and> good_items t ps"
| "pc_ok t (PExec ps) \<longleftrightarrow> good_items t ps"
| "pc_ok t (PBack ps) \<longleftrightarrow> good_items t ps"
| "pc_ok t (PBackDown i is) \<longleftrightarrow> good_items t (i # is)"
| "pc_ok t _ \<longleftrightarrow> True"

lemma pc_ok_cong: "(\<And>no. has_device t' no = has_device t no) \<Longrightarrow> pc_ok t' pc = pc_ok t pc"
  by (cases pc) (simp_all add: good_items_def)

lemma in_flight_nonneg: "pc_ok t pc \<Longrightarrow> 0 \<le> in_flight no d pc"
  using items_bytes_nonneg [of t _ no d] by (cases pc) (simp_all add: add_nonneg_nonneg)

definition flow_inv :: "(string \<Rightarrow> direction \<Rightarrow> int) \<Rightarrow> 'w flow \<Rightarrow> bool" where
  "flow_inv tot s \<longleftrightarrow> pc_ok (trk s) (fpc s) \<and>
     (\<forall>no d. 0 \<le> counter_at (trk s) no d \<and>
        counter_at (trk s) no d + in_flight no d (fpc s) \<le> tot no d \<and> tot no d \<le> max_int64)"

text \<open>The bytes counted, as far as the device has counters.\<close>

definition add_label :: "tracker \<Rightarrow> flow_label \<Rightarrow> (string \<Rightarrow> direction \<Rightarrow> int) \<Rightarrow> string \<Rightarrow> direction \<Rightarrow> int" where
  "add_label t l tot no d = tot no d + (if has_device t no then label_bytes no d l else 0)"

lemma tstep_devices: "tstep api s l s' \<Longrightarrow> has_device (trk s') no = has_device (trk s) no"
  by (erule tstep_cases) (auto simp: swapUp_def swapDown_def)

lemma on_pair_cfg [simp]: "tk_cfg (on_pair no f t) = tk_cfg t"
  by (simp add: on_pair_def)

lemma tstep_cfg: "tstep api s l s' \<Longrightarrow> tk_cfg (trk s') = tk_cfg (trk s)"
  by (erule tstep_cases) (auto simp: swapUp_def swapDown_def addUp_def addDown_def)

lemma tstep_label_pos: "tstep api s l s' \<Longrightarrow> 0 \<le> label_bytes no d l"
  by (erule tstep_cases) auto

text \<open>
  One step keeps the invariant, and the bytes in memory and in flight change by the counted bytes
  except when a pipeline succeeds, which takes its bytes out.
\<close>

lemma wrap_in_bound: "0 \<le> x \<Longrightarrow> x \<le> max_int64 \<Longrightarrow> wrap64 x = x"
  by (simp add: in_int64_def)

definition held :: "'w flow \<Rightarrow> string \<Rightarrow> direction \<Rightarrow> int" where
  "held s no d = counter_at (trk s) no d + in_flight no d (fpc s)"


text \<open>What one step does to the bytes held and to the invariant.\<close>

lemma count_step:
  assumes "flow_inv tot s" and "0 < n" and "has_device (trk s) no \<Longrightarrow> tot no d + n \<le> max_int64"
    and "s' = s\<lparr>trk := (case d of dirUp \<Rightarrow> addUp no n (trk s) | dirDown \<Rightarrow> addDown no n (trk s))\<rparr>"
  shows "flow_inv (add_label (trk s) (Counted no d n) tot) s'"
    and "held s' no' d' = held s no' d' +
      (if has_device (trk s) no' then label_bytes no' d' (Counted no d n) else 0)"
proof -
  have pc: "fpc s' = fpc s" using assms(4) by simp
  have dev: "has_device (trk s') k = has_device (trk s) k" for k
    using assms(4) by (cases d) simp_all
  have c: "counter_at (trk s') k e = counter_at (trk s) k e +
      (if k = no \<and> e = d \<and> has_device (trk s) no then n else 0)" for k e
  proof (cases "k = no \<and> e = d \<and> has_device (trk s) no")
    case True
    have "0 \<le> counter_at (trk s) no d" "counter_at (trk s) no d + n \<le> max_int64"
      using assms(1-3) True in_flight_nonneg [of "trk s" "fpc s" no d]
      by (simp_all add: flow_inv_def) (smt (verit))
    then show ?thesis using True assms(2,4) wrap_in_bound [of "counter_at (trk s) no d + n"]
      by (cases d) (simp_all add: cell)
  next
    case False
    then show ?thesis using assms(4) by (cases d) (auto simp: cell)
  qed
  show "held s' no' d' = held s no' d' +
      (if has_device (trk s) no' then label_bytes no' d' (Counted no d n) else 0)"
    using c [of no' d'] pc by (auto simp: held_def)
  have ok: "pc_ok (trk s') (fpc s')" using assms(1) pc dev pc_ok_cong [of "trk s'" "trk s"]
    by (simp add: flow_inv_def)
  have "0 \<le> counter_at (trk s') k e \<and>
      counter_at (trk s') k e + in_flight k e (fpc s') \<le> add_label (trk s) (Counted no d n) tot k e \<and>
      add_label (trk s) (Counted no d n) tot k e \<le> max_int64" for k e
  proof -
    have i: "0 \<le> counter_at (trk s) k e"
        "counter_at (trk s) k e + in_flight k e (fpc s) \<le> tot k e" "tot k e \<le> max_int64"
      using assms(1) by (simp_all add: flow_inv_def)
    show ?thesis using c [of k e] i assms(2,3) by (auto simp: add_label_def pc)
  qed
  with ok show "flow_inv (add_label (trk s) (Counted no d n) tot) s'" by (simp add: flow_inv_def)
qed

text \<open>Steps of the loop that keep the bytes held.\<close>

definition same_held :: "'w flow \<Rightarrow> 'w flow \<Rightarrow> bool" where
  "same_held s s' \<longleftrightarrow> (\<forall>no d. held s' no d = held s no d) \<and> pc_ok (trk s') (fpc s') \<and>
     (\<forall>no d. 0 \<le> counter_at (trk s') no d)"

lemma same_held_inv: "flow_inv tot s \<Longrightarrow> same_held s s' \<Longrightarrow> flow_inv tot s'"
  by (simp add: flow_inv_def same_held_def held_def)

lemma swap_up_step:
  assumes "flow_inv tot s" and "fpc s = PSwap nos ps" and "no \<in> set nos"
    and "swapUp no (trk s) = (up, t')"
  shows "same_held s (s\<lparr>trk := t', fpc := PSwapDown no up (remove1 no nos) ps\<rparr>)"
proof -
  have t': "t' = snd (swapUp no (trk s))" "up = counter_at (trk s) no dirUp"
    using assms(4) by (auto simp: swapUp_def)
  have "set (remove1 no nos) \<subseteq> set nos" by (rule set_remove1_subset)
  then show ?thesis using assms(1-3) unfolding t'
    by (auto simp: same_held_def held_def flow_inv_def cell good_items_def)
qed

lemma swap_down_step:
  assumes "flow_inv tot s" and "fpc s = PSwapDown no up nos ps"
    and "swapDown no (trk s) = (down, t')"
  shows "same_held s (s\<lparr>trk := t', fpc := PSwap nos (ps @ keep_item no up down)\<rparr>)"
proof -
  have t': "t' = snd (swapDown no (trk s))" "down = counter_at (trk s) no dirDown"
    using assms(3) by (auto simp: swapDown_def)
  have "0 \<le> counter_at (trk s) no dirDown" using assms(1) by (simp add: flow_inv_def)
  then show ?thesis using assms(1,2) unfolding t'
    by (auto simp: same_held_def held_def flow_inv_def cell set_keep_item good_items_def split: direction.split)
qed

lemma back_up_step:
  assumes "flow_inv tot s" and "fpc s = PBack (i # is)"
  shows "same_held s (s\<lparr>trk := addUp (pi_deviceNo i) (pi_up i) (trk s), fpc := PBackDown i is\<rparr>)"
proof -
  have ok: "good_items (trk s) (i # is)" using assms by (simp add: flow_inv_def)
  have nn: "0 \<le> items_bytes (pi_deviceNo i) dirUp is"
    using ok items_bytes_nonneg [of "trk s" "is"] by simp
  have b: "0 \<le> counter_at (trk s) (pi_deviceNo i) dirUp"
      "counter_at (trk s) (pi_deviceNo i) dirUp + in_flight (pi_deviceNo i) dirUp (fpc s) \<le> max_int64"
    using assms(1) unfolding flow_inv_def by (blast, meson order_trans)
  have w: "wrap64 (counter_at (trk s) (pi_deviceNo i) dirUp + pi_up i) =
      counter_at (trk s) (pi_deviceNo i) dirUp + pi_up i"
    using b ok nn assms(2) by (intro wrap_in_bound) simp_all
  have "held (s\<lparr>trk := addUp (pi_deviceNo i) (pi_up i) (trk s), fpc := PBackDown i is\<rparr>) no d = held s no d"
    for no d using ok w assms(2) by (cases d) (auto simp: held_def cell)
  then show ?thesis using assms ok w b
    by (auto simp: same_held_def flow_inv_def cell good_items_def)
qed

lemma back_down_step:
  assumes "flow_inv tot s" and "fpc s = PBackDown i is"
  shows "same_held s (s\<lparr>trk := addDown (pi_deviceNo i) (pi_down i) (trk s), fpc := PBack is\<rparr>)"
proof -
  have ok: "good_items (trk s) (i # is)" using assms by (simp add: flow_inv_def)
  have nn: "0 \<le> items_bytes (pi_deviceNo i) dirDown is"
    using ok items_bytes_nonneg [of "trk s" "is"] by simp
  have b: "0 \<le> counter_at (trk s) (pi_deviceNo i) dirDown"
      "counter_at (trk s) (pi_deviceNo i) dirDown + in_flight (pi_deviceNo i) dirDown (fpc s) \<le> max_int64"
    using assms(1) unfolding flow_inv_def by (blast, meson order_trans)
  have w: "wrap64 (counter_at (trk s) (pi_deviceNo i) dirDown + pi_down i) =
      counter_at (trk s) (pi_deviceNo i) dirDown + pi_down i"
    using b ok nn assms(2) by (intro wrap_in_bound) simp_all
  have "held (s\<lparr>trk := addDown (pi_deviceNo i) (pi_down i) (trk s), fpc := PBack is\<rparr>) no d = held s no d"
    for no d using ok w assms(2) by (cases d) (auto simp: held_def cell)
  then show ?thesis using assms ok w b
    by (auto simp: same_held_def flow_inv_def cell good_items_def)
qed


text \<open>A step counts bytes, keeps the bytes held, or executes the pipeline.\<close>

lemma tstep_kinds [consumes 3, case_names counts quiet executes]:
  assumes "flow_inv tot s" and "tstep api s l s'"
    and "\<forall>no d. has_device (trk s) no \<longrightarrow> tot no d + label_bytes no d l \<le> max_int64"
  obtains (counts) no d n where "l = Counted no d n" and "remote s' = remote s"
      and "flow_inv (add_label (trk s) l tot) s'"
      and "\<And>no d. held s' no d = held s no d + (if has_device (trk s) no then label_bytes no d l else 0)"
  | (quiet) "l = Silent" and "remote s' = remote s" and "same_held s s'"
  | (executes) hr ps failed where "l = Silent" and "fpc s = PExec ps" and "trk s' = trk s"
      and "rd_exec api (flush_cmds (tk_cfg (trk s)) hr ps) (remote s) = (failed, remote s')"
      and "fpc s' = (if failed then PBack ps else after_flush s)"
  using assms(2)
proof (cases rule: tstep_cases)
  case (count_up n no)
  have b: "tot no dirUp + n \<le> max_int64" if "has_device (trk s) no"
    using assms(3) [rule_format, of no dirUp] that count_up by simp
  have e: "s' = s\<lparr>trk := (case dirUp of dirUp \<Rightarrow> addUp no n (trk s) | dirDown \<Rightarrow> addDown no n (trk s))\<rparr>"
    using count_up by simp
  show thesis using count_step [OF assms(1) \<open>0 < n\<close> b e] count_up by (intro counts) simp_all
next
  case (count_down n no)
  have b: "tot no dirDown + n \<le> max_int64" if "has_device (trk s) no"
    using assms(3) [rule_format, of no dirDown] that count_down by simp
  have e: "s' = s\<lparr>trk := (case dirDown of dirUp \<Rightarrow> addUp no n (trk s) | dirDown \<Rightarrow> addDown no n (trk s))\<rparr>"
    using count_down by simp
  show thesis using count_step [OF assms(1) \<open>0 < n\<close> b e] count_down by (intro counts) simp_all
next
  case close_stop
  have "pc_ok ((trk s)\<lparr>tk_stopChan_closed := True\<rparr>) (fpc s)"
    using assms(1) pc_ok_cong [of "(trk s)\<lparr>tk_stopChan_closed := True\<rparr>" "trk s"] by (simp add: flow_inv_def)
  then show thesis using close_stop assms(1)
    by (intro quiet) (simp_all add: same_held_def held_def flow_inv_def)
next
  case tick
  then show thesis using assms(1)
    by (intro quiet) (auto simp: same_held_def held_def flow_inv_def has_device_def)
next
  case stop_signal
  then show thesis using assms(1)
    by (intro quiet) (auto simp: same_held_def held_def flow_inv_def has_device_def)
next
  case (swap_up nos ps no up t')
  then show thesis using swap_up_step [OF assms(1)] by (intro quiet) simp_all
next
  case (swap_down no up nos ps down t')
  then show thesis using swap_down_step [OF assms(1)] by (intro quiet) simp_all
next
  case nothing_pending
  then show thesis using assms(1)
    by (intro quiet) (auto simp: same_held_def held_def flow_inv_def after_flush_def)
next
  case (all_swapped ps)
  then show thesis using assms(1) by (intro quiet) (auto simp: same_held_def held_def flow_inv_def)
next
  case (exec ps hr failed w')
  then show thesis by (intro executes [of ps hr failed]) simp_all
next
  case (back_up i "is")
  then show thesis using back_up_step [OF assms(1)] by (intro quiet) simp_all
next
  case (back_down i "is")
  then show thesis using back_down_step [OF assms(1)] by (intro quiet) simp_all
next
  case back_done
  then show thesis using assms(1)
    by (intro quiet) (auto simp: same_held_def held_def flow_inv_def after_flush_def)
qed

text \<open>The bytes held and the bytes applied to Redis, over one step.\<close>

definition balance :: "('w \<Rightarrow> string \<Rightarrow> int) \<Rightarrow> 'w flow \<Rightarrow> string \<Rightarrow> direction \<Rightarrow> int" where
  "balance applied s no d =
     held s no d + applied (remote s) (buildField no (tc_ServiceName (tk_cfg (trk s))) d)"

lemma tstep_balance:
  assumes "pipeline_contract api applied" and "flow_inv tot s" and "tstep api s l s'"
    and "\<forall>no d. has_device (trk s) no \<longrightarrow> tot no d + label_bytes no d l \<le> max_int64"
  shows "flow_inv (add_label (trk s) l tot) s' \<and>
    balance applied s no d + (if has_device (trk s) no then label_bytes no d l else 0)
      \<le> balance applied s' no d \<and>
    (all_or_nothing api applied \<longrightarrow>
      balance applied s' no d = balance applied s no d + (if has_device (trk s) no then label_bytes no d l else 0))"
  using assms(2,3,4)
proof (cases rule: tstep_kinds)
  case (counts no' d' n)
  then show ?thesis using tstep_cfg [OF assms(3)] by (simp add: balance_def)
next
  case quiet
  have "add_label (trk s) Silent tot = tot" by (intro ext) (simp add: add_label_def)
  then show ?thesis using quiet tstep_cfg [OF assms(3)] same_held_inv [OF assms(2)]
    by (simp add: balance_def same_held_def)
next
  case (executes hr ps failed)
  let ?f = "buildField no (tc_ServiceName (tk_cfg (trk s))) d"
  have ok: "good_items (trk s) ps" using assms(2) executes by (simp add: flow_inv_def)
  have a: "applied (remote s) ?f \<le> applied (remote s') ?f"
      "\<not> failed \<Longrightarrow> applied (remote s') ?f = applied (remote s) ?f + items_bytes no d ps"
    using assms(1) executes(4) flush_cmds_positive incs_flush [OF ok]
    unfolding pipeline_contract_def by (metis, metis)
  have n: "failed \<Longrightarrow> all_or_nothing api applied \<Longrightarrow> applied (remote s') ?f = applied (remote s) ?f"
    using executes(4) by (simp add: all_or_nothing_def)
  have "add_label (trk s) Silent tot = tot" by (intro ext) (simp add: add_label_def)
  moreover have "flow_inv tot s'"
  proof -
    have "in_flight no' d' (fpc s') \<le> in_flight no' d' (fpc s)" for no' d'
      using executes ok items_bytes_nonneg [OF ok, of no' d'] by (simp add: after_flush_def)
    then have "counter_at (trk s') no' d' + in_flight no' d' (fpc s') \<le> tot no' d'" for no' d'
      using assms(2) executes(3) unfolding flow_inv_def by (metis add_left_mono order_trans)
    moreover have "pc_ok (trk s') (fpc s')" using executes ok by (simp add: after_flush_def)
    ultimately show ?thesis using assms(2) executes(3) by (simp add: flow_inv_def)
  qed
  ultimately show ?thesis using a n executes
    by (cases failed) (simp_all add: balance_def held_def after_flush_def)
qed


subsection \<open>Properties\<close>

text \<open>The bytes counted for a device with counters.\<close>

lemma counted_simps [simp]:
  "counted no d [] = 0" "counted no d (ls @ [l]) = counted no d ls + label_bytes no d l"
  by (simp_all add: counted_def)

lemma counted_nonneg: "tsteps api s ls s' \<Longrightarrow> 0 \<le> counted no d ls"
  by (induction rule: tsteps.induct) (auto dest: tstep_label_pos [of api _ _ _ no d])

lemma tsteps_same:
  "tsteps api s ls s' \<Longrightarrow> tk_cfg (trk s') = tk_cfg (trk s) \<and> (\<forall>no. has_device (trk s') no = has_device (trk s) no)"
  by (induction rule: tsteps.induct) (simp_all add: tstep_cfg tstep_devices)

definition fresh_flow :: "TrafficConfig \<Rightarrow> string list \<Rightarrow> 'w \<Rightarrow> 'w flow" where
  "fresh_flow c wl w = \<lparr>trk = newTracker c wl, fpc = PIdle, final_flush = False, remote = w\<rparr>"

lemma fresh_flow_simps [simp]:
  "counter_at (trk (fresh_flow c wl w)) no d = 0" "fpc (fresh_flow c wl w) = PIdle"
  "tk_cfg (trk (fresh_flow c wl w)) = c" "remote (fresh_flow c wl w) = w"
  "has_device (trk (fresh_flow c wl w)) no \<longleftrightarrow> no \<in> set wl"
  "held (fresh_flow c wl w) no d = 0"
proof -
  have "map_of (map (\<lambda>no. (no, \<lparr>cp_up = 0, cp_down = 0\<rparr>)) wl) no =
      (if no \<in> set wl then Some \<lparr>cp_up = 0, cp_down = 0\<rparr> else None)"
    by (induction wl) auto
  then show c: "counter_at (trk (fresh_flow c wl w)) no d = 0"
    by (simp add: fresh_flow_def counter_at_def newTracker_def split: direction.split)
  show "has_device (trk (fresh_flow c wl w)) no \<longleftrightarrow> no \<in> set wl"
    by (force simp: fresh_flow_def has_device_def newTracker_def)
  show "held (fresh_flow c wl w) no d = 0" using c by (simp add: held_def) (simp add: fresh_flow_def)
qed (simp_all add: fresh_flow_def newTracker_def)

lemma tsteps_balance:
  assumes "pipeline_contract api applied" and "tsteps api s ls s'"
    and "s = fresh_flow c wl w" and "\<forall>no \<in> set wl. \<forall>d. counted no d ls \<le> max_int64"
  shows "flow_inv (\<lambda>no d. if no \<in> set wl then counted no d ls else 0) s' \<and>
    (\<forall>no d. applied w (buildField no (tc_ServiceName c) d) + (if no \<in> set wl then counted no d ls else 0)
       \<le> balance applied s' no d) \<and>
    (all_or_nothing api applied \<longrightarrow> (\<forall>no d.
       balance applied s' no d =
       applied w (buildField no (tc_ServiceName c) d) + (if no \<in> set wl then counted no d ls else 0)))"
  using assms(2-4)
proof (induction rule: tsteps.induct)
  case (tsteps_refl s)
  then show ?case by (simp add: flow_inv_def balance_def)
next
  case (tsteps_step s ls s1 l s2)
  let ?tot = "\<lambda>no d. if no \<in> set wl then counted no d ls else 0"
  have dev: "has_device (trk s1) no \<longleftrightarrow> no \<in> set wl" for no
    using tsteps_same [OF tsteps_step.hyps(1)] tsteps_step.prems(1) by simp
  have nn: "0 \<le> label_bytes no d l" for no d using tstep_label_pos [OF tsteps_step.hyps(2)] .
  have "\<forall>no \<in> set wl. \<forall>d. counted no d ls \<le> max_int64"
    using tsteps_step.prems(2) nn by (simp) (smt (verit))
  note ih = tsteps_step.IH [OF tsteps_step.prems(1) this]
  have b: "\<forall>no d. has_device (trk s1) no \<longrightarrow> ?tot no d + label_bytes no d l \<le> max_int64"
    using tsteps_step.prems(2) by (simp add: dev)
  have inv: "flow_inv ?tot s1" using ih by blast
  have tot: "add_label (trk s1) l ?tot = (\<lambda>no d. if no \<in> set wl then counted no d (ls @ [l]) else 0)"
    by (intro ext) (simp add: add_label_def dev)
  note st = tstep_balance [OF assms(1) inv tsteps_step.hyps(2) b, unfolded tot]
  show ?case
  proof (intro conjI impI allI)
    show "flow_inv (\<lambda>no d. if no \<in> set wl then counted no d (ls @ [l]) else 0) s2" using st by blast
  next
    fix no d
    show "applied w (buildField no (tc_ServiceName c) d) +
        (if no \<in> set wl then counted no d (ls @ [l]) else 0) \<le> balance applied s2 no d"
      using st [of no d] ih by (cases "no \<in> set wl") (simp_all add: dev, smt (verit), smt (verit))
  next
    fix no d assume "all_or_nothing api applied"
    then show "balance applied s2 no d = applied w (buildField no (tc_ServiceName c) d) +
        (if no \<in> set wl then counted no d (ls @ [l]) else 0)"
      using st [of no d] ih by (cases "no \<in> set wl") (simp_all add: dev)
  qed
qed


text \<open>Runs of the flush loop alone.\<close>

definition quiet_run :: "'w traffic_api \<Rightarrow> 'w flow \<Rightarrow> 'w flow \<Rightarrow> bool" where
  "quiet_run api s s' \<longleftrightarrow> (\<exists>n. tsteps api s (replicate n Silent) s')"

lemma tsteps_trans: "tsteps api s1 ls' s2 \<Longrightarrow> tsteps api s ls s1 \<Longrightarrow> tsteps api s (ls @ ls') s2"
proof (induction rule: tsteps.induct)
  case (tsteps_step s1 ls' s2 l s3)
  then show ?case using tsteps.tsteps_step [of api s "ls @ ls'" s2 l s3] by simp
qed simp

lemma quiet_refl [simp]: "quiet_run api s s"
  unfolding quiet_run_def by (rule exI [of _ 0]) (simp add: tsteps_refl)

lemma quiet_trans: "quiet_run api s s1 \<Longrightarrow> quiet_run api s1 s2 \<Longrightarrow> quiet_run api s s2"
  unfolding quiet_run_def by (metis replicate_add tsteps_trans)

lemma quiet_one: "tstep api s Silent s' \<Longrightarrow> quiet_run api s s'"
  unfolding quiet_run_def using tsteps_step [OF tsteps_refl, of api s Silent s']
  by (intro exI [of _ 1]) simp

lemma quiet_first: "tstep api s Silent s1 \<Longrightarrow> quiet_run api s1 s2 \<Longrightarrow> quiet_run api s s2"
  by (rule quiet_trans [OF quiet_one])

lemma quiet_last: "quiet_run api s s1 \<Longrightarrow> tstep api s1 Silent s2 \<Longrightarrow> quiet_run api s s2"
  by (rule quiet_trans [OF _ quiet_one])

lemma quiet_swaps:
  "fpc s = PSwap nos ps \<Longrightarrow> swap_all nos (trk s) = (qs, t') \<Longrightarrow>
   quiet_run api s (s\<lparr>trk := t', fpc := PSwap [] (ps @ qs)\<rparr>)"
proof (induction nos arbitrary: s ps qs t')
  case Nil
  then have "s\<lparr>trk := t', fpc := PSwap [] (ps @ qs)\<rparr> = s" by simp
  then show ?case by simp
next
  case (Cons no nos)
  obtain up t1 where u: "swapUp no (trk s) = (up, t1)" by (metis surj_pair)
  obtain down t2 where d: "swapDown no t1 = (down, t2)" by (metis surj_pair)
  obtain rs t3 where r: "swap_all nos t2 = (rs, t3)" by (metis surj_pair)
  let ?s1 = "s\<lparr>trk := t1, fpc := PSwapDown no up nos ps\<rparr>"
  let ?s2 = "?s1\<lparr>trk := t2, fpc := PSwap nos (ps @ keep_item no up down)\<rparr>"
  have 1: "tstep api s Silent ?s1" using swap_up [OF Cons.prems(1) _ u] by simp
  have 2: "tstep api ?s1 Silent ?s2" using swap_down [of ?s1 no up nos ps down t2] d by simp
  have 3: "quiet_run api ?s2 (?s2\<lparr>trk := t3, fpc := PSwap [] ((ps @ keep_item no up down) @ rs)\<rparr>)"
    using Cons.IH [of ?s2 "ps @ keep_item no up down" rs t3] r by simp
  have e: "?s2\<lparr>trk := t3, fpc := PSwap [] ((ps @ keep_item no up down) @ rs)\<rparr> =
      s\<lparr>trk := t', fpc := PSwap [] (ps @ qs)\<rparr>"
    using Cons.prems(2) u d r by simp
  show ?case using quiet_first [OF 1 quiet_first [OF 2 3]] unfolding e .
qed

lemma quiet_rollback:
  "fpc s = PBack is \<Longrightarrow> quiet_run api s (s\<lparr>trk := rollback is (trk s), fpc := PBack []\<rparr>)"
proof (induction "is" arbitrary: s)
  case Nil
  then have "s\<lparr>trk := rollback [] (trk s), fpc := PBack []\<rparr> = s" by simp
  then show ?case by simp
next
  case (Cons i "is")
  let ?s1 = "s\<lparr>trk := addUp (pi_deviceNo i) (pi_up i) (trk s), fpc := PBackDown i is\<rparr>"
  let ?s2 = "?s1\<lparr>trk := addDown (pi_deviceNo i) (pi_down i) (trk ?s1), fpc := PBack is\<rparr>"
  have 1: "tstep api s Silent ?s1" using back_up [OF Cons.prems] .
  have 2: "tstep api ?s1 Silent ?s2" using back_down [of ?s1 i "is"] by simp
  have 3: "quiet_run api ?s2 (?s2\<lparr>trk := rollback is (trk ?s2), fpc := PBack []\<rparr>)"
    using Cons.IH [of ?s2] by simp
  show ?case using quiet_first [OF 1 quiet_first [OF 2 3]] by simp
qed

lemma swap_all_cfg: "swap_all nos t = (ps, t') \<Longrightarrow> tk_cfg t' = tk_cfg t"
  by (induction nos arbitrary: t ps t') (auto simp: swapUp_def swapDown_def Let_def split: prod.splits)

text \<open>The flush after the start of the swaps, from any state of the loop.\<close>

lemma quiet_exec:
  assumes "fpc s = PSwap [] ps" and "ps \<noteq> []"
    and "rd_exec api (flush_cmds (tk_cfg (trk s)) hr ps) (remote s) = (failed, w')"
  shows "quiet_run api s (s\<lparr>trk := (if failed then rollback ps (trk s) else trk s), remote := w',
    fpc := after_flush s\<rparr>)"
proof -
  let ?s3 = "s\<lparr>fpc := PExec ps\<rparr>"
  let ?s4 = "?s3\<lparr>fpc := (if failed then PBack ps else after_flush ?s3), remote := w'\<rparr>"
  have a: "tstep api s Silent ?s3" using assms(1,2) by (rule all_swapped)
  have b: "tstep api ?s3 Silent ?s4" using exec [of ?s3 ps api hr failed w'] assms(3) by simp
  have q4: "quiet_run api s ?s4" by (rule quiet_last [OF quiet_one [OF a] b])
  show ?thesis
  proof (cases failed)
    case True
    let ?s5 = "?s4\<lparr>trk := rollback ps (trk ?s4), fpc := PBack []\<rparr>"
    have c: "quiet_run api ?s4 ?s5" using quiet_rollback [of ?s4 ps api] True by simp
    have d: "tstep api ?s5 Silent (?s5\<lparr>fpc := after_flush ?s5\<rparr>)" by (intro back_done) simp
    have e: "?s5\<lparr>fpc := after_flush ?s5\<rparr> = s\<lparr>trk := (if failed then rollback ps (trk s) else trk s),
        remote := w', fpc := after_flush s\<rparr>"
      using True by (intro flow.equality) (simp_all add: after_flush_def)
    from quiet_last [OF quiet_trans [OF q4 c] d] show ?thesis unfolding e .
  next
    case False
    then have e: "?s4 = s\<lparr>trk := (if failed then rollback ps (trk s) else trk s), remote := w',
        fpc := after_flush s\<rparr>"
      by (intro flow.equality) (simp_all add: after_flush_def)
    from q4 show ?thesis unfolding e .
  qed
qed

lemma quiet_flush:
  assumes "fpc s = PSwap (map fst (tk_counters (trk s))) []"
    and "flushOnce api hr (trk s, remote s) = (t', w')"
  shows "quiet_run api s (s\<lparr>trk := t', remote := w', fpc := after_flush s\<rparr>)"
proof -
  obtain ps t1 where sw: "swap_all (map fst (tk_counters (trk s))) (trk s) = (ps, t1)" by (metis surj_pair)
  let ?s2 = "s\<lparr>trk := t1, fpc := PSwap [] ps\<rparr>"
  have q: "quiet_run api s ?s2" using quiet_swaps [OF assms(1) sw, of api] by simp
  show ?thesis
  proof (cases "ps = []")
    case True
    have n: "tstep api ?s2 Silent (?s2\<lparr>fpc := after_flush ?s2\<rparr>)" using True by (intro nothing_pending) simp
    have e: "?s2\<lparr>fpc := after_flush ?s2\<rparr> = s\<lparr>trk := t', remote := w', fpc := after_flush s\<rparr>"
      using assms(2) sw True by (intro flow.equality) (simp_all add: flushOnce_def after_flush_def)
    from quiet_last [OF q n] show ?thesis unfolding e .
  next
    case False
    obtain failed w1 where x: "rd_exec api (flush_cmds (tk_cfg (trk s)) hr ps) (remote s) = (failed, w1)"
      by (metis surj_pair)
    have "quiet_run api ?s2 (?s2\<lparr>trk := (if failed then rollback ps t1 else t1), remote := w1,
        fpc := after_flush s\<rparr>)"
      using quiet_exec [of ?s2 ps api hr failed w1] False x swap_all_cfg [OF sw]
      by (simp add: after_flush_def split del: if_split cong: if_cong)
    from quiet_trans [OF q this] show ?thesis using assms(2) sw False x by (simp add: flushOnce_def)
  qed
qed



lemma swap_all_zero:
  "swap_all nos t = (ps, t') \<Longrightarrow>
   counter_at t' no d = (if no \<in> set nos then 0 else counter_at t no d)"
proof (induction nos arbitrary: t ps t')
  case (Cons k nos)
  obtain qs where "swap_all nos (snd (swapDown k (snd (swapUp k t)))) = (qs, t')"
    using Cons.prems by (auto simp: Let_def split: prod.splits)
  from Cons.IH [OF this] show ?case by (cases d) (auto simp: cell)
qed simp

lemma counter_at_rollback:
  "good_items t ps \<Longrightarrow> distinct (map pi_deviceNo ps) \<Longrightarrow>
   (\<forall>no d. in_int64 (counter_at t no d + items_bytes no d ps)) \<Longrightarrow> (\<forall>no d. 0 \<le> counter_at t no d) \<Longrightarrow>
   counter_at (rollback ps t) no d = counter_at t no d + items_bytes no d ps"
proof (induction ps arbitrary: t)
  case (Cons i ps)
  let ?t = "addDown (pi_deviceNo i) (pi_down i) (addUp (pi_deviceNo i) (pi_up i) t)"
  have z: "items_bytes (pi_deviceNo i) e ps = 0" for e
    using Cons.prems(2) by (cases e; induction ps) auto
  have w: "wrap64 (counter_at t (pi_deviceNo i) dirUp + pi_up i) = counter_at t (pi_deviceNo i) dirUp + pi_up i"
      "wrap64 (counter_at t (pi_deviceNo i) dirDown + pi_down i) = counter_at t (pi_deviceNo i) dirDown + pi_down i"
    using Cons.prems(3) [rule_format, of "pi_deviceNo i" dirUp]
      Cons.prems(3) [rule_format, of "pi_deviceNo i" dirDown] z by simp_all
  have c: "counter_at ?t k e = counter_at t k e + item_bytes k e i" for k e
    using w Cons.prems(1) by (cases e) (auto simp: cell)
  have "good_items ?t ps" using Cons.prems(1) by (simp add: good_items_def)
  moreover have "\<forall>no d. in_int64 (counter_at ?t no d + items_bytes no d ps)"
    using Cons.prems(3) by (simp add: c add.assoc)
  moreover have "\<forall>no d. 0 \<le> counter_at ?t no d"
  proof (intro allI)
    fix k e show "0 \<le> counter_at ?t k e"
      using Cons.prems(1,4) unfolding c by (cases e) (auto intro: add_nonneg_nonneg)
  qed
  ultimately show ?case using Cons.IH [of ?t] Cons.prems(2) by (simp add: c)
qed simp

lemma swap_all_items:
  "swap_all nos t = (ps, t') \<Longrightarrow> distinct nos \<Longrightarrow> \<forall>no d. 0 \<le> counter_at t no d \<Longrightarrow>
   \<forall>no \<in> set nos. has_device t no \<Longrightarrow>
   good_items t ps \<and> distinct (map pi_deviceNo ps) \<and> set (map pi_deviceNo ps) \<subseteq> set nos \<and>
   (\<forall>no. has_device t' no = has_device t no) \<and>
   items_bytes no d ps = (if no \<in> set nos then counter_at t no d else 0)"
proof (induction nos arbitrary: t ps t')
  case (Cons k nos)
  let ?t = "snd (swapDown k (snd (swapUp k t)))"
  obtain qs where q: "swap_all nos ?t = (qs, t')"
    and ps: "ps = keep_item k (counter_at t k dirUp) (counter_at t k dirDown) @ qs"
    using Cons.prems(1) by (auto simp: Let_def swapUp_def swapDown_def cell split: prod.splits)
      (auto simp: counter_at_def split: option.splits)
  have "\<forall>no d. 0 \<le> counter_at ?t no d" using Cons.prems(3) by (auto simp: cell)
  then have ih: "good_items ?t qs" "distinct (map pi_deviceNo qs)" "set (map pi_deviceNo qs) \<subseteq> set nos"
      "\<forall>no. has_device t' no = has_device ?t no"
      "items_bytes no d qs = (if no \<in> set nos then counter_at ?t no d else 0)"
    using Cons.IH [OF q] Cons.prems(2,4) by auto
  have n: "0 \<le> counter_at t k dirUp" "0 \<le> counter_at t k dirDown" using Cons.prems(3) by simp_all
  have "items_bytes no d ps = (if no \<in> set (k # nos) then counter_at t no d else 0)"
    using ih(5) Cons.prems(2) unfolding ps items_bytes_simps keep_item_bytes [OF n]
    by (cases d) (auto simp: cell)
  then show ?case using ih(1-4) Cons.prems(2-4) n unfolding ps
    by (auto simp: good_items_def set_keep_item keep_item_def)
qed simp


text \<open>
  C33. The outcomes of one flush when the counters are not negative.  If every counter is zero there
  is no call to Redis.  Otherwise one pipeline is executed whose increments are exactly the counters;
  if it succeeds every counter is zero afterwards, and if it fails every counter is as before,
  whatever part of the pipeline Redis had already applied (so that part is counted twice).
\<close>

theorem flush_outcomes:
  assumes "distinct (map fst (tk_counters t))" and "\<forall>no d. 0 \<le> counter_at t no d \<and> counter_at t no d \<le> max_int64"
    and "flushOnce api hr (t, w) = (t', w')"
  shows "(\<forall>no d. counter_at t no d = 0) \<and> w' = w \<and> (\<forall>no d. counter_at t' no d = 0) \<or>
    (\<exists>cs failed. rd_exec api cs w = (failed, w') \<and>
       (\<forall>no d. incs (buildField no (tc_ServiceName (tk_cfg t)) d) cs = counter_at t no d) \<and>
       (\<forall>no d. counter_at t' no d = (if failed then counter_at t no d else 0)))"
proof -
  obtain ps t1 where sw: "swap_all (map fst (tk_counters t)) t = (ps, t1)" by (metis surj_pair)
  have dev: "no \<in> set (map fst (tk_counters t)) \<longleftrightarrow> has_device t no" for no by (simp add: has_device_def)
  have k: "\<forall>no \<in> set (map fst (tk_counters t)). has_device t no" using dev by blast
  have nn: "\<forall>no d. 0 \<le> counter_at t no d" using assms(2) by blast
  have it: "good_items t ps" "distinct (map pi_deviceNo ps)" "\<forall>no. has_device t1 no = has_device t no"
      "items_bytes no d ps = counter_at t no d" for no d
    using swap_all_items [OF sw assms(1) nn k, of no d] counter_at_unknown [of t no d] dev [of no]
    by (auto split: if_splits)
  have zero: "counter_at t1 no d = 0" for no d
    using swap_all_zero [OF sw, of no d] dev [of no] by auto
  show ?thesis
  proof (cases "ps = []")
    case True
    then show ?thesis using assms(3) sw it(4) zero by (simp add: flushOnce_def)
  next
    case False
    obtain failed where x: "rd_exec api (flush_cmds (tk_cfg t) hr ps) w = (failed, w')"
        "t' = (if failed then rollback ps t1 else t1)"
      using assms(3) sw False by (auto simp: flushOnce_def split: prod.splits)
    have i64: "in_int64 (counter_at t no d)" for no d
      using assms(2) [rule_format, of no d] by (simp add: in_int64_def)
    have "good_items t1 ps" using it(1,3) by (simp add: good_items_def)
    then have "counter_at (rollback ps t1) no d = counter_at t no d" for no d
      using counter_at_rollback [of t1 ps no d] it(2,4) zero i64 by simp
    with x zero incs_flush [OF it(1)] it(4) show ?thesis by (intro disjI2 exI conjI) auto
  qed
qed

text \<open>
  C10. No byte is lost between a connection and Redis, whatever the interleaving of connections, flush
  steps, stop signals and Redis failures.  From a fresh tracker, for every white-listed device and
  direction whose counted bytes fit in 64 bits: the bytes still held (in the counter or in a flush
  under way) never exceed the counted ones, and together with what Redis applied they are at least
  the counted bytes; they are exactly the counted bytes if failed pipelines apply nothing.
\<close>

theorem traffic_conservation:
  assumes "pipeline_contract api applied" and "tsteps api (fresh_flow c wl w) ls s"
    and "\<forall>no \<in> set wl. \<forall>d. counted no d ls \<le> max_int64" and "no \<in> set wl"
  shows "held s no d \<le> counted no d ls \<and>
    counted no d ls \<le> held s no d +
      (applied (remote s) (buildField no (tc_ServiceName c) d) - applied w (buildField no (tc_ServiceName c) d)) \<and>
    (all_or_nothing api applied \<longrightarrow>
      counted no d ls = held s no d +
        (applied (remote s) (buildField no (tc_ServiceName c) d) - applied w (buildField no (tc_ServiceName c) d)))"
proof -
  have cfg: "tk_cfg (trk s) = c" using tsteps_same [OF assms(2)] by simp
  note b = tsteps_balance [OF assms(1,2) refl assms(3)]
  have "held s no d \<le> (if no \<in> set wl then counted no d ls else 0)"
    using b unfolding flow_inv_def held_def by blast
  then have "held s no d \<le> counted no d ls" using assms(4) by simp
  moreover have "applied w (buildField no (tc_ServiceName c) d) + counted no d ls \<le> balance applied s no d"
    using conjunct1 [OF conjunct2 [OF b], rule_format, of no d] assms(4) by simp
  moreover have "balance applied s no d = applied w (buildField no (tc_ServiceName c) d) + counted no d ls"
    if "all_or_nothing api applied"
    using conjunct2 [OF conjunct2 [OF b], rule_format, OF that, of no d] assms(4) by simp
  ultimately show ?thesis by (auto simp: balance_def cfg)
qed


text \<open>A Redis that records its commands, never failing or failing after having applied them.\<close>

definition demo_traffic_api :: "bool \<Rightarrow> redis_cmd list traffic_api" where
  "demo_traffic_api failing = \<lparr>rd_exec = (\<lambda>cs w. (failing, w @ cs)), rd_scan = (\<lambda>_ _ w. (None, w)),
     rd_hgetall = (\<lambda>_ w. (None, w)), rd_del = (\<lambda>_ w. (True, w)), db_upsert = (\<lambda>_ _ w. (True, w))\<rparr>"

lemma incs_nonneg: "\<forall>k g n. HIncrBy k g n \<in> set cs \<longrightarrow> 0 < n \<Longrightarrow> 0 \<le> incs f cs"
proof (induction cs)
  case (Cons c cs)
  have "0 \<le> cmd_inc f c" using Cons.prems by (cases c) (auto intro: less_imp_le)
  then show ?case using Cons by simp
qed simp

lemma demo_contract: "pipeline_contract (demo_traffic_api failing) (\<lambda>w f. incs f w)"
  by (auto simp: pipeline_contract_def demo_traffic_api_def incs_nonneg)

definition demo_counting :: tracker where
  "demo_counting = addUp ''d1'' 700 (newTracker demo_traffic_cfg [''d1''])"

lemma demo_counting_eq: "tk_counters demo_counting = [(''d1'', \<lparr>cp_up = 700, cp_down = 0\<rparr>)]"
  "tk_cfg demo_counting = demo_traffic_cfg"
  by (simp_all add: demo_counting_def newTracker_def addUp_def al_update_def wrap64_def)

lemma demo_flush: "\<exists>t' w'. flushOnce (demo_traffic_api failing) ''2026010100'' (demo_counting, []) = (t', w') \<and>
    counter_at t' ''d1'' dirUp = (if failing then 700 else 0) \<and> incs (buildField ''d1'' ''iot'' dirUp) w' = 700"
  by (simp add: flushOnce_def demo_counting_eq swapUp_def swapDown_def counter_at_def keep_item_def
      demo_traffic_api_def demo_traffic_cfg_def flush_cmds_def item_cmds_def addUp_def addDown_def
      wrap64_def al_update_def)


theorem flush_outcomes_witness:
  "\<exists>cs failed w' t'. rd_exec (demo_traffic_api True) cs [] = (failed, w') \<and>
     incs (buildField ''d1'' ''iot'' dirUp) cs = 700 \<and>
     flushOnce (demo_traffic_api True) ''2026010100'' (demo_counting, []) = (t', w') \<and>
     counter_at t' ''d1'' dirUp = (if failed then 700 else 0)"
proof -
  obtain t' w' where f: "flushOnce (demo_traffic_api True) ''2026010100'' (demo_counting, []) = (t', w')"
    by (metis surj_pair)
  have d: "distinct (map fst (tk_counters demo_counting))" by (simp add: demo_counting_eq)
  have c: "counter_at demo_counting ''d1'' dirUp = 700" by (simp add: counter_at_def demo_counting_eq)
  have n: "\<forall>no d. 0 \<le> counter_at demo_counting no d \<and> counter_at demo_counting no d \<le> max_int64"
    by (simp add: counter_at_def demo_counting_eq split: direction.split)
  have "tc_ServiceName (tk_cfg demo_counting) = ''iot''" by (simp add: demo_counting_eq demo_traffic_cfg_def)
  with flush_outcomes [OF d n f] c f show ?thesis by (metis (no_types, lifting) zero_neq_numeral)
qed

theorem traffic_conservation_witness:
  "\<exists>ls s. tsteps (demo_traffic_api False) (fresh_flow demo_traffic_cfg [''d1''] []) ls s \<and>
     counted ''d1'' dirUp ls = 700 \<and> held s ''d1'' dirUp \<le> 700 \<and>
     700 \<le> held s ''d1'' dirUp + incs (buildField ''d1'' ''iot'' dirUp) (remote s)"
proof -
  let ?s0 = "fresh_flow demo_traffic_cfg [''d1''] [] :: redis_cmd list flow"
  let ?ls = "[] @ [Counted ''d1'' dirUp 700]"
  have r: "tsteps (demo_traffic_api False) ?s0 ?ls (?s0\<lparr>trk := addUp ''d1'' 700 (trk ?s0)\<rparr>)"
    by (rule tsteps.tsteps_step [OF tsteps.tsteps_refl count_up]) simp
  have b: "\<forall>no \<in> set [''d1'']. \<forall>d. counted no d ?ls \<le> max_int64" by (simp add: counted_def)
  have n: "tc_ServiceName demo_traffic_cfg = ''iot''" by (simp add: demo_traffic_cfg_def)
  have "counted ''d1'' dirUp ?ls = 700" by (simp add: counted_def)
  with traffic_conservation [OF demo_contract r b, of "''d1''" dirUp] r n show ?thesis
    by (intro exI [of _ ?ls] exI conjI) (auto simp: incs_def)
qed

end
