(* ===== verification/TrafficDump.thy ===== *)
theory TrafficDump
  imports TrafficTracker
begin

text \<open>
  The traffic statistics of \<^verbatim>\<open>src/pkg/traffic\<close>, database side (\<^verbatim>\<open>store.go\<close>, \<^verbatim>\<open>dao.go\<close>, and
  \<^verbatim>\<open>DumpPending\<close> of \<^verbatim>\<open>traffic.go\<close>): the scan of the hourly Redis hashes, their aggregation per device
  and service, and the dump into the table.  Parsing an hour in the local time zone is the argument
  \<open>parse_hour\<close>, the current hour an argument.  The scan is a loop driven by Redis' cursor, so it is a
  partial function whose \<^const>\<open>None\<close> is not returning.  The theory shows what the aggregation computes
  and that the dump deletes no hash whose bytes are not in the table.
\<close>

subsection \<open>Keys and fields (\<^verbatim>\<open>store.go\<close>)\<close>

partial_function (option) scan_loop ::
    "'w traffic_api \<Rightarrow> string \<Rightarrow> nat \<Rightarrow> string list \<Rightarrow> 'w \<Rightarrow> (string list option \<times> 'w) option" where
  "scan_loop api pat cursor acc w =
     (case rd_scan api cursor pat w of
        (r, w1) \<Rightarrow>
          (case r of
             None \<Rightarrow> Some (None, w1)
           | Some (batch, nxt) \<Rightarrow>
               if nxt = 0 then Some (Some (acc @ batch), w1)
               else scan_loop api pat nxt (acc @ batch) w1))"

definition scanHourlyKeys :: "'w traffic_api \<Rightarrow> TrafficConfig \<Rightarrow> 'w \<Rightarrow> (string list option \<times> 'w) option" where
  "scanHourlyKeys api c w = scan_loop api (tc_KeyPrefix c @ ''*'') 0 [] w"

definition extractHourFromKey :: "(string \<Rightarrow> instant option) \<Rightarrow> TrafficConfig \<Rightarrow> string \<Rightarrow> instant option" where
  "extractHourFromKey parse_hour c key = parse_hour (trim_prefix key (tc_KeyPrefix c))"

definition currentHourKey :: "TrafficConfig \<Rightarrow> string \<Rightarrow> string" where
  "currentHourKey c hr = tc_KeyPrefix c @ hr"

definition parseField :: "string \<Rightarrow> (string \<times> string \<times> string) option" where
  "parseField field =
     (let parts = split_n (CHR ''|'') 3 field
      in if length parts \<noteq> 3 then None else Some (parts ! 0, parts ! 1, parts ! 2))"

subsection \<open>Aggregation and upsert (\<^verbatim>\<open>dao.go\<close>)\<close>

definition bytesToKB :: "int \<Rightarrow> int" where
  "bytesToKB bytes = (if bytes \<le> 0 then 0 else go_div (wrap64 (bytes + 512)) 1024)"

type_synonym agg = "((string \<times> string) \<times> int \<times> int) list"

definition agg_add :: "string \<Rightarrow> int \<Rightarrow> int \<times> int \<Rightarrow> int \<times> int" where
  "agg_add dir n v =
     (if dir = ''up'' then (wrap64 (fst v + n), snd v)
      else if dir = ''down'' then (fst v, wrap64 (snd v + n))
      else v)"

definition agg_field :: "agg \<Rightarrow> string \<times> string \<Rightarrow> agg" where
  "agg_field a fv =
     (case parseField (fst fv) of
        None \<Rightarrow> a
      | Some (dev, svc, dir) \<Rightarrow>
          (case parse_int64 (snd fv) of
             None \<Rightarrow> a
           | Some n \<Rightarrow>
               if n \<le> 0 then a
               else al_update (dev, svc) (agg_add dir n)
                      (if map_of a (dev, svc) = None then a @ [((dev, svc), (0, 0))] else a)))"

definition aggregateHashToRecords :: "(string \<times> string) list \<Rightarrow> instant \<Rightarrow> TrafficHourly list" where
  "aggregateHashToRecords data st =
     map (\<lambda>((dev, svc), (up, down)).
            \<lparr>th_StatTime = st, th_DeviceNo = dev, th_Service = svc, th_UpKB = bytesToKB up,
             th_DownKB = bytesToKB down\<rparr>)
       (foldl agg_field [] data)"

definition upsertBatch :: "'w traffic_api \<Rightarrow> TrafficConfig \<Rightarrow> TrafficHourly list \<Rightarrow> 'w \<Rightarrow> bool \<times> 'w" where
  \<comment> \<open>the flag tells of an error\<close>
  "upsertBatch api c recs w = (if recs = [] then (False, w) else db_upsert api (tc_TableName c) recs w)"

subsection \<open>The dump (\<^verbatim>\<open>dao.go\<close>, \<^verbatim>\<open>traffic.go\<close>)\<close>

datatype dump_outcome = Processed | Skipped | Failed | Removed

definition dump_key ::
    "'w traffic_api \<Rightarrow> (string \<Rightarrow> instant option) \<Rightarrow> TrafficConfig \<Rightarrow> string \<Rightarrow> string \<Rightarrow> 'w \<Rightarrow>
     dump_outcome \<times> 'w" where
  "dump_key api parse_hour c currentKey key w =
     (if key = currentKey then (Skipped, w)
      else case extractHourFromKey parse_hour c key of
             None \<Rightarrow> (Skipped, w)
           | Some statTime \<Rightarrow>
               (let (r, w1) = rd_hgetall api key w
                in case r of
                     None \<Rightarrow> (Failed, w1)
                   | Some data \<Rightarrow>
                       if data = [] then (Removed, snd (rd_del api key w1))
                       else (let records = aggregateHashToRecords data statTime
                             in if records = [] then (Removed, snd (rd_del api key w1))
                                else (let (err, w2) = upsertBatch api c records w1
                                      in if err then (Failed, w2)
                                         else (Processed, snd (rd_del api key w2))))))"

fun dump_keys ::
    "'w traffic_api \<Rightarrow> (string \<Rightarrow> instant option) \<Rightarrow> TrafficConfig \<Rightarrow> string \<Rightarrow> string list \<Rightarrow> 'w \<Rightarrow>
     dump_outcome list \<times> 'w" where
  "dump_keys api parse_hour c cur [] w = ([], w)"
| "dump_keys api parse_hour c cur (k # ks) w =
     (let (x, w1) = dump_key api parse_hour c cur k w;
          (xs, w2) = dump_keys api parse_hour c cur ks w1
      in (x # xs, w2))"

definition dumpPending ::
    "'w traffic_api \<Rightarrow> (string \<Rightarrow> instant option) \<Rightarrow> TrafficConfig \<Rightarrow> string \<Rightarrow> 'w \<Rightarrow>
     (string option \<times> 'w) option" where
  "dumpPending api parse_hour c hr w =
     (case scanHourlyKeys api c w of
        None \<Rightarrow> None
      | Some (None, w1) \<Rightarrow> Some (Some ''scan hourly keys'', w1)
      | Some (Some keys, w1) \<Rightarrow>
          if keys = [] then Some (None, w1)
          else (let (xs, w2) = dump_keys api parse_hour c (currentHourKey c hr) keys w1;
                    failed = length (filter (\<lambda>x. x = Failed) xs)
                in Some (if failed > 0
                         then Some (''dump failed for '' @ decimal failed @ '' hourly keys'')
                         else None, w2)))"

definition DumpPending ::
    "'w traffic_api \<Rightarrow> (string \<Rightarrow> instant option) \<Rightarrow> string \<Rightarrow> traffic_global \<times> 'w \<Rightarrow>
     (string option \<times> 'w) option" where
  "DumpPending api parse_hour hr gw =
     (case globalTracker (fst gw) of
        None \<Rightarrow> Some (Some ''traffic: not initialized'', snd gw)
      | Some t \<Rightarrow>
          if \<not> tc_DB (tk_cfg t)
          then Some (Some ''traffic: DB not configured, this instance is not responsible for dumping'', snd gw)
          else dumpPending api parse_hour (tk_cfg t) hr (snd gw))"

subsection \<open>Fields\<close>

definition field_of :: "string \<Rightarrow> string \<Rightarrow> string \<Rightarrow> string" where
  "field_of dev svc dir = dev @ ''|'' @ svc @ ''|'' @ dir"

lemma buildField_field_of:
  "buildField dev svc d = field_of dev svc (case d of dirDown \<Rightarrow> ''down'' | dirUp \<Rightarrow> ''up'')"
  by (simp add: buildField_def field_of_def)

lemma parseField_eq:
  "parseField f =
     (let b = dropWhile (\<lambda>x. x \<noteq> CHR ''|'') f; c = dropWhile (\<lambda>x. x \<noteq> CHR ''|'') (tl b)
      in if b = [] \<or> c = [] then None
         else Some (takeWhile (\<lambda>x. x \<noteq> CHR ''|'') f, takeWhile (\<lambda>x. x \<noteq> CHR ''|'') (tl b), tl c))"
  unfolding parseField_def numeral_3_eq_3 split_n.simps Let_def by (simp del: dropWhile_eq_Nil_conv)

lemma parseField_iff:
  "parseField f = Some (dev, svc, dir) \<longleftrightarrow>
     f = field_of dev svc dir \<and> CHR ''|'' \<notin> set dev \<and> CHR ''|'' \<notin> set svc"
proof
  assume "f = field_of dev svc dir \<and> CHR ''|'' \<notin> set dev \<and> CHR ''|'' \<notin> set svc"
  then show "parseField f = Some (dev, svc, dir)"
    by (simp add: parseField_eq field_of_def dropWhile_sep takeWhile_sep Let_def del: dropWhile_eq_Nil_conv)
next
  assume p: "parseField f = Some (dev, svc, dir)"
  define b where "b = dropWhile (\<lambda>x. x \<noteq> CHR ''|'') f"
  define c where "c = dropWhile (\<lambda>x. x \<noteq> CHR ''|'') (tl b)"
  have d: "b \<noteq> []" "c \<noteq> []" "dev = takeWhile (\<lambda>x. x \<noteq> CHR ''|'') f"
      "svc = takeWhile (\<lambda>x. x \<noteq> CHR ''|'') (tl b)" "dir = tl c"
    using p unfolding parseField_eq Let_def b_def [symmetric] c_def [symmetric] by (simp_all split: if_splits)
  have "dev @ CHR ''|'' # tl b = f" using split_first [of "CHR ''|''" f] d unfolding b_def by simp
  moreover have "svc @ CHR ''|'' # dir = tl b"
    using split_first [of "CHR ''|''" "tl b"] d unfolding c_def by simp
  ultimately have "f = field_of dev svc dir" by (simp add: field_of_def)
  then show "f = field_of dev svc dir \<and> CHR ''|'' \<notin> set dev \<and> CHR ''|'' \<notin> set svc"
    unfolding d(3,4) by (auto dest: set_takeWhileD)
qed

subsection \<open>What the aggregation computes\<close>

text \<open>The bytes under a field of a hash, as the code reads them: 0 unless a positive number.\<close>

definition bytes_of :: "string \<Rightarrow> int" where
  "bytes_of v = (case parse_int64 v of None \<Rightarrow> 0 | Some n \<Rightarrow> max 0 n)"

definition field_bytes :: "(string \<Rightarrow> string option) \<Rightarrow> string \<Rightarrow> int" where
  "field_bytes h f = (case h f of None \<Rightarrow> 0 | Some v \<Rightarrow> bytes_of v)"

definition counted_pair :: "(string \<Rightarrow> string option) \<Rightarrow> string \<Rightarrow> string \<Rightarrow> bool" where
  "counted_pair h dev svc \<longleftrightarrow>
     CHR ''|'' \<notin> set dev \<and> CHR ''|'' \<notin> set svc \<and> (\<exists>dir. 0 < field_bytes h (field_of dev svc dir))"

lemma parse_int64_range: "parse_int64 s = Some n \<Longrightarrow> in_int64 n"
  by (auto simp: parse_int64_def Let_def split: list.splits if_splits option.splits)

lemma map_of_snoc: "f \<notin> fst ` set data \<Longrightarrow> map_of (data @ [(f, v)]) = (map_of data)(f \<mapsto> v)"
  by (induction data) (auto simp: fun_eq_iff)

lemma field_bytes_upd [simp]:
  "field_bytes (h(f \<mapsto> v)) g = (if g = f then bytes_of v else field_bytes h g)"
  by (simp add: field_bytes_def)

lemma field_bytes_absent: "h f = None \<Longrightarrow> field_bytes h f = 0"
  by (simp add: field_bytes_def)

lemma field_bytes_nonneg: "0 \<le> field_bytes h f"
  by (auto simp: field_bytes_def bytes_of_def split: option.split)

lemma field_of_eq_parsed:
  "parseField f = Some (dev, svc, dir) \<Longrightarrow> CHR ''|'' \<notin> set dev' \<Longrightarrow> CHR ''|'' \<notin> set svc' \<Longrightarrow>
   field_of dev' svc' dir' = f \<longleftrightarrow> dev' = dev \<and> svc' = svc \<and> dir' = dir"
  by (metis option.inject parseField_iff prod.inject)

text \<open>The aggregate after some fields of the hash.\<close>

definition agg_spec :: "(string \<Rightarrow> string option) \<Rightarrow> string \<times> string \<Rightarrow> (int \<times> int) option" where
  "agg_spec h k =
     (if counted_pair h (fst k) (snd k)
      then Some (field_bytes h (field_of (fst k) (snd k) ''up''), field_bytes h (field_of (fst k) (snd k) ''down''))
      else None)"

lemma agg_spec_skip:
  assumes "h f = None" and "bytes_of v = 0 \<or> parseField f = None"
  shows "agg_spec (h(f \<mapsto> v)) k = agg_spec h k"
proof -
  have e: "field_bytes (h(f \<mapsto> v)) (field_of dev svc dir) = field_bytes h (field_of dev svc dir)"
    if "CHR ''|'' \<notin> set dev" "CHR ''|'' \<notin> set svc" for dev svc dir
    using assms(2) that parseField_iff [of f dev svc dir] field_bytes_absent [of h f, OF assms(1)] by auto
  then show ?thesis
    by (cases "CHR ''|'' \<notin> set (fst k) \<and> CHR ''|'' \<notin> set (snd k)")
      (auto simp: agg_spec_def counted_pair_def simp del: field_bytes_upd)
qed

lemma agg_spec_add:
  assumes "h f = None" and "parseField f = Some (dev, svc, dir)"
    and "parse_int64 v = Some n" and "0 < n"
  shows "agg_spec (h(f \<mapsto> v)) k =
    (if k = (dev, svc)
     then Some (agg_add dir n (case agg_spec h k of None \<Rightarrow> (0, 0) | Some u \<Rightarrow> u))
     else agg_spec h k)"
proof -
  have b: "bytes_of v = n" using assms(3,4) by (simp add: bytes_of_def)
  have np: "CHR ''|'' \<notin> set dev" "CHR ''|'' \<notin> set svc" and f: "f = field_of dev svc dir"
    using assms(2) by (simp_all add: parseField_iff)
  have w: "wrap64 n = n" using parse_int64_range [OF assms(3)] by simp
  have old: "field_bytes h (field_of dev svc dir) = 0"
    using field_bytes_absent [of h f, OF assms(1)] f by simp
  show ?thesis
  proof (cases "k = (dev, svc)")
    case True
    have c: "counted_pair (h(f \<mapsto> v)) dev svc"
      using np assms(4) b f unfolding counted_pair_def by auto
    have nc: "field_bytes h (field_of dev svc d) = 0" if "\<not> counted_pair h dev svc" for d
      using field_bytes_nonneg [of h "field_of dev svc d"] that np
      by (simp add: counted_pair_def) (metis order_antisym_conv linorder_not_less)
    have eq: "field_of dev svc d = f \<longleftrightarrow> d = dir" for d using field_of_eq_parsed [OF assms(2) np] by simp
    have old': "dir = d \<Longrightarrow> field_bytes h (field_of dev svc d) = 0" for d using old by simp
    show ?thesis using c True old' [of "''up''"] old' [of "''down''"] nc w
      by (auto simp: agg_spec_def eq b agg_add_def split: option.split)
  next
    case False
    have "field_bytes (h(f \<mapsto> v)) (field_of (fst k) (snd k) d) = field_bytes h (field_of (fst k) (snd k) d)"
      if "CHR ''|'' \<notin> set (fst k)" "CHR ''|'' \<notin> set (snd k)" for d
      using field_of_eq_parsed [OF assms(2) that] False by (cases k) auto
    then show ?thesis using False
      by (cases "CHR ''|'' \<notin> set (fst k) \<and> CHR ''|'' \<notin> set (snd k)")
        (auto simp: agg_spec_def counted_pair_def simp del: field_bytes_upd)
  qed
qed

lemma agg_correct:
  "distinct (map fst data) \<Longrightarrow>
   distinct (map fst (foldl agg_field [] data)) \<and>
   map_of (foldl agg_field [] data) = agg_spec (map_of data)"
proof (induction data rule: rev_induct)
  case Nil
  then show ?case by (auto simp: agg_spec_def counted_pair_def field_bytes_def)
next
  case (snoc p data)
  obtain f v where p: "p = (f, v)" by (cases p)
  let ?a = "foldl agg_field [] data"
  have f: "map_of data f = None" "f \<notin> fst ` set data"
    and ih: "distinct (map fst ?a)" "map_of ?a = agg_spec (map_of data)"
    using snoc p by (auto simp: map_of_eq_None_iff)
  show ?case
  proof (cases "parseField f = None \<or> bytes_of v = 0")
    case True
    then have "agg_field ?a p = ?a"
      using p by (auto simp: agg_field_def bytes_of_def split: option.splits)
    moreover have "map_of (data @ [p]) = (map_of data)(f \<mapsto> v)" using map_of_snoc [OF f(2)] p by simp
    moreover have "agg_spec ((map_of data)(f \<mapsto> v)) = agg_spec (map_of data)"
      using True by (intro ext agg_spec_skip [of "map_of data" f, OF f(1)]) auto
    ultimately show ?thesis using ih by (simp del: map_of_append fun_upd_apply)
  next
    case False
    then obtain dev svc dir n where q: "parseField f = Some (dev, svc, dir)" "parse_int64 v = Some n" "0 < n"
      by (auto simp: bytes_of_def split: option.splits)
    define b where "b = (if map_of ?a (dev, svc) = None then ?a @ [((dev, svc), (0, 0))] else ?a)"
    have g: "agg_field ?a p = al_update (dev, svc) (agg_add dir n) b"
      using q p by (simp add: agg_field_def b_def)
    have "distinct (map fst b)" using ih(1) by (auto simp: b_def map_of_eq_None_iff)
    moreover have mb: "map_of b =
        (if map_of ?a (dev, svc) = None then (map_of ?a)((dev, svc) \<mapsto> (0, 0)) else map_of ?a)"
      using map_of_snoc [of "(dev, svc)" ?a "(0, 0)"]
      by (simp add: b_def map_of_eq_None_iff del: map_of_append)
    moreover have "map_of (agg_field ?a p) k = agg_spec (map_of (data @ [p])) k" for k
      unfolding g unfolding p map_of_snoc [OF f(2)] agg_spec_add [of "map_of data" f, OF f(1) q] ih(2) [symmetric]
      by (cases "map_of ?a (dev, svc)") (simp_all add: mb)
    ultimately show ?thesis using g by (auto simp del: map_of_append)
  qed
qed

text \<open>The rounding to kilobytes.\<close>

lemma bytesToKB_round:
  "0 \<le> b \<Longrightarrow> b + 512 \<le> max_int64 \<Longrightarrow> \<bar>1024 * bytesToKB b - b\<bar> \<le> 512"
proof (cases "b = 0")
  case False
  assume b: "0 \<le> b" "b + 512 \<le> max_int64"
  have w: "wrap64 (b + 512) = b + 512" using b by (simp add: in_int64_def)
  then have "bytesToKB b = (b + 512) div 1024" using b False by (simp add: bytesToKB_def go_div_nonneg)
  then show ?thesis by arith
qed (simp add: bytesToKB_def)

text \<open>The records of an hour are exactly those of the pairs with counted bytes.\<close>

definition record_of :: "instant \<Rightarrow> (string \<Rightarrow> string option) \<Rightarrow> string \<Rightarrow> string \<Rightarrow> TrafficHourly" where
  "record_of st h dev svc = \<lparr>th_StatTime = st, th_DeviceNo = dev, th_Service = svc,
     th_UpKB = bytesToKB (field_bytes h (field_of dev svc ''up'')),
     th_DownKB = bytesToKB (field_bytes h (field_of dev svc ''down''))\<rparr>"

lemma aggregate_records:
  assumes "distinct (map fst data)"
  shows "distinct (map (\<lambda>r. (th_DeviceNo r, th_Service r)) (aggregateHashToRecords data st)) \<and>
    set (aggregateHashToRecords data st) =
      {record_of st (map_of data) dev svc | dev svc. counted_pair (map_of data) dev svc}"
proof -
  let ?a = "foldl agg_field [] data"
  have a: "distinct (map fst ?a)" "map_of ?a = agg_spec (map_of data)" using agg_correct [OF assms] by auto
  have "map (\<lambda>r. (th_DeviceNo r, th_Service r)) (aggregateHashToRecords data st) = map fst ?a"
    by (auto simp: aggregateHashToRecords_def)
  moreover have "x \<in> set ?a \<longleftrightarrow> agg_spec (map_of data) (fst x) = Some (snd x)" for x
    using a by (metis map_of_eq_Some_iff prod.collapse)
  then have "set ?a = {((dev, svc), (field_bytes (map_of data) (field_of dev svc ''up''),
      field_bytes (map_of data) (field_of dev svc ''down''))) | dev svc. counted_pair (map_of data) dev svc}"
    by (auto simp: agg_spec_def split: if_splits)
  then have "set (aggregateHashToRecords data st) =
      {record_of st (map_of data) dev svc | dev svc. counted_pair (map_of data) dev svc}"
    by (force simp: aggregateHashToRecords_def record_of_def)
  ultimately show ?thesis using a(1) by simp
qed

subsection \<open>What the dump relies on\<close>

text \<open>
  \<open>hashes\<close> reads the hashes of Redis (\<^const>\<open>None\<close> for an absent key), \<open>rows\<close> the table by its unique key.
  Reading does not change them and returns each field once; a deletion removes its key or, when it
  reports an error, may have left it; a batch insert that reports an error has no effect, and a
  successful one writes its rows, whose keys must be distinct.
\<close>

type_synonym 'w hash_view = "'w \<Rightarrow> string \<Rightarrow> (string \<Rightarrow> string option) option"
type_synonym 'w row_view = "'w \<Rightarrow> instant \<times> string \<times> string \<Rightarrow> (int \<times> int) option"

definition row_key :: "TrafficHourly \<Rightarrow> instant \<times> string \<times> string" where
  "row_key r = (th_StatTime r, th_DeviceNo r, th_Service r)"

definition scan_contract :: "'w traffic_api \<Rightarrow> 'w hash_view \<Rightarrow> 'w row_view \<Rightarrow> bool" where
  "scan_contract api hashes rows \<longleftrightarrow>
     (\<forall>cursor pat w. hashes (snd (rd_scan api cursor pat w)) = hashes w \<and>
        rows (snd (rd_scan api cursor pat w)) = rows w)"

definition hgetall_contract :: "'w traffic_api \<Rightarrow> 'w hash_view \<Rightarrow> 'w row_view \<Rightarrow> bool" where
  "hgetall_contract api hashes rows \<longleftrightarrow>
     (\<forall>k w w' r. rd_hgetall api k w = (r, w') \<longrightarrow> hashes w' = hashes w \<and> rows w' = rows w \<and>
        (\<forall>data. r = Some data \<longrightarrow> distinct (map fst data) \<and>
           map_of data = (case hashes w k of None \<Rightarrow> (\<lambda>_. None) | Some h \<Rightarrow> h)))"

definition del_contract :: "'w traffic_api \<Rightarrow> 'w hash_view \<Rightarrow> 'w row_view \<Rightarrow> bool" where
  "del_contract api hashes rows \<longleftrightarrow>
     (\<forall>k w w' err. rd_del api k w = (err, w') \<longrightarrow> rows w' = rows w \<and>
        (hashes w' = (hashes w)(k := None) \<or> err \<and> hashes w' = hashes w))"

definition upsert_contract :: "'w traffic_api \<Rightarrow> 'w hash_view \<Rightarrow> 'w row_view \<Rightarrow> bool" where
  "upsert_contract api hashes rows \<longleftrightarrow>
     (\<forall>tab recs w w' err. db_upsert api tab recs w = (err, w') \<longrightarrow> distinct (map row_key recs) \<longrightarrow>
        hashes w' = hashes w \<and> (err \<longrightarrow> rows w' = rows w) \<and>
        (\<not> err \<longrightarrow> (\<forall>r \<in> set recs. rows w' (row_key r) = Some (th_UpKB r, th_DownKB r)) \<and>
           (\<forall>k. k \<notin> row_key ` set recs \<longrightarrow> rows w' k = rows w k)))"

definition store_contract :: "'w traffic_api \<Rightarrow> 'w hash_view \<Rightarrow> 'w row_view \<Rightarrow> bool" where
  "store_contract api hashes rows \<longleftrightarrow> scan_contract api hashes rows \<and>
     hgetall_contract api hashes rows \<and> del_contract api hashes rows \<and> upsert_contract api hashes rows"

text \<open>The table holds the bytes of a hash under an hour.\<close>

definition stored :: "'w row_view \<Rightarrow> 'w \<Rightarrow> instant \<Rightarrow> (string \<Rightarrow> string option) \<Rightarrow> bool" where
  "stored rows w st h \<longleftrightarrow>
     (\<forall>dev svc. counted_pair h dev svc \<longrightarrow>
        rows w (st, dev, svc) = Some (bytesToKB (field_bytes h (field_of dev svc ''up'')),
                                      bytesToKB (field_bytes h (field_of dev svc ''down''))))"


lemma row_keys_distinct:
  "distinct (map fst data) \<Longrightarrow> distinct (map row_key (aggregateHashToRecords data st))"
  using conjunct1 [OF aggregate_records [of data st]] by (auto simp: distinct_map inj_on_def row_key_def)

text \<open>One successful upsert of an aggregated hash puts it into the table and touches no other hour.\<close>

lemma upsert_stores:
  assumes "upsert_contract api hashes rows" and "distinct (map fst data)"
    and "aggregateHashToRecords data st \<noteq> []"
    and "upsertBatch api c (aggregateHashToRecords data st) w = (err, w')"
  shows "hashes w' = hashes w" and "err \<Longrightarrow> rows w' = rows w" and "\<not> err \<Longrightarrow> stored rows w' st (map_of data)"
    and "t \<noteq> st \<Longrightarrow> rows w' (t, dev, svc) = rows w (t, dev, svc)"
proof -
  let ?rs = "aggregateHashToRecords data st"
  have u: "db_upsert api (tc_TableName c) ?rs w = (err, w')" using assms(3,4) by (simp add: upsertBatch_def)
  note ct = assms(1) [unfolded upsert_contract_def, rule_format, OF u row_keys_distinct [OF assms(2)]]
  show "hashes w' = hashes w" and "err \<Longrightarrow> rows w' = rows w" using ct by blast+
  have rs: "set ?rs = {record_of st (map_of data) dev svc | dev svc. counted_pair (map_of data) dev svc}"
    using aggregate_records [OF assms(2)] by blast
  show "stored rows w' st (map_of data)" if "\<not> err" unfolding stored_def
  proof (intro allI impI)
    fix dev svc assume "counted_pair (map_of data) dev svc"
    then have "record_of st (map_of data) dev svc \<in> set ?rs" using rs by blast
    then have "rows w' (row_key (record_of st (map_of data) dev svc)) =
        Some (th_UpKB (record_of st (map_of data) dev svc), th_DownKB (record_of st (map_of data) dev svc))"
      using ct that by blast
    then show "rows w' (st, dev, svc) = Some (bytesToKB (field_bytes (map_of data) (field_of dev svc ''up'')),
        bytesToKB (field_bytes (map_of data) (field_of dev svc ''down'')))"
      by (simp add: record_of_def row_key_def)
  qed
  show "rows w' (t, dev, svc) = rows w (t, dev, svc)" if "t \<noteq> st"
  proof (cases err)
    case False
    have "(t, dev, svc) \<notin> row_key ` set ?rs" using that rs by (auto simp: record_of_def row_key_def)
    then show ?thesis using ct False by blast
  qed (use ct in simp)
qed

lemma stored_empty: "distinct (map fst data) \<Longrightarrow> aggregateHashToRecords data st = [] \<Longrightarrow> stored rows w st (map_of data)"
  using aggregate_records [of data st] by (auto simp: stored_def)

lemma stored_cong: "(\<And>dev svc. rows w' (st, dev, svc) = rows w (st, dev, svc)) \<Longrightarrow> stored rows w' st h = stored rows w st h"
  by (simp add: stored_def)

text \<open>What the dump does to the key it handles and to the others.\<close>

definition key_done :: "'w hash_view \<Rightarrow> 'w row_view \<Rightarrow> (string \<Rightarrow> instant option) \<Rightarrow> string \<Rightarrow> string \<Rightarrow>
    (string \<Rightarrow> string option) \<Rightarrow> 'w \<Rightarrow> bool" where
  "key_done hashes rows hr cur k h w' \<longleftrightarrow>
     hashes w' k = Some h \<or>
     (hashes w' k = None \<and> k \<noteq> cur \<and> (\<exists>st. hr k = Some st \<and> stored rows w' st h))"

lemma del_step:
  assumes "del_contract api hashes rows"
  shows "rows (snd (rd_del api k w)) = rows w" and "j \<noteq> k \<Longrightarrow> hashes (snd (rd_del api k w)) j = hashes w j"
    and "hashes (snd (rd_del api k w)) k \<in> {None, hashes w k}"
proof -
  obtain err w' where d: "rd_del api k w = (err, w')" by (metis surj_pair)
  note ct = assms [unfolded del_contract_def, rule_format, OF d]
  show "rows (snd (rd_del api k w)) = rows w" and "j \<noteq> k \<Longrightarrow> hashes (snd (rd_del api k w)) j = hashes w j"
    and "hashes (snd (rd_del api k w)) k \<in> {None, hashes w k}"
    using ct d by auto
qed

lemma dump_key_step:
  assumes "store_contract api hashes rows" and "dump_key api ph c cur k w = (x, w')"
  shows "j \<noteq> k \<Longrightarrow> hashes w' j = hashes w j"
    and "extractHourFromKey ph c k \<noteq> Some t \<Longrightarrow> rows w' (t, dev, svc) = rows w (t, dev, svc)"
    and "hashes w k = None \<Longrightarrow> rows w' = rows w \<and> hashes w' k = None"
    and "hashes w k = Some h \<Longrightarrow> key_done hashes rows (extractHourFromKey ph c) cur k h w' \<and>
      (\<forall>st. extractHourFromKey ph c k = Some st \<longrightarrow>
         (x \<noteq> Failed \<and> k \<noteq> cur \<longrightarrow> stored rows w' st h) \<and>
         (stored rows w st h \<longrightarrow> stored rows w' st h))"
proof -
  let ?hr = "extractHourFromKey ph c k"
  have del: "del_contract api hashes rows" and get: "hgetall_contract api hashes rows"
    and ups: "upsert_contract api hashes rows" using assms(1) by (simp_all add: store_contract_def)
  consider (skip) "w' = w" "k = cur \<or> ?hr = None"
    | (unread) st w1 where "?hr = Some st" "k \<noteq> cur" "rd_hgetall api k w = (None, w1)" "x = Failed" "w' = w1"
    | (gone) st w1 data where "?hr = Some st" "k \<noteq> cur" "rd_hgetall api k w = (Some data, w1)"
        "data = [] \<or> aggregateHashToRecords data st = []" "w' = snd (rd_del api k w1)"
    | (ups) st w1 data err w2 where "?hr = Some st" "k \<noteq> cur" "rd_hgetall api k w = (Some data, w1)"
        "aggregateHashToRecords data st \<noteq> []" "data \<noteq> []"
        "upsertBatch api c (aggregateHashToRecords data st) w1 = (err, w2)"
        "if err then x = Failed \<and> w' = w2 else w' = snd (rd_del api k w2)"
    using assms(2) by (auto simp: dump_key_def Let_def split: if_splits option.splits prod.splits)
  then have "(j \<noteq> k \<longrightarrow> hashes w' j = hashes w j) \<and>
      (?hr \<noteq> Some t \<longrightarrow> rows w' (t, dev, svc) = rows w (t, dev, svc)) \<and>
      (hashes w k = None \<longrightarrow> rows w' = rows w \<and> hashes w' k = None) \<and>
      (hashes w k = Some h \<longrightarrow> key_done hashes rows (extractHourFromKey ph c) cur k h w' \<and>
        (\<forall>st. ?hr = Some st \<longrightarrow> (x \<noteq> Failed \<and> k \<noteq> cur \<longrightarrow> stored rows w' st h) \<and>
          (stored rows w st h \<longrightarrow> stored rows w' st h)))"
  proof cases
    case skip
    then show ?thesis by (auto simp: key_done_def)
  next
    case (unread st w1)
    then have "hashes w1 = hashes w" "rows w1 = rows w"
      using get by (simp_all add: hgetall_contract_def)
    then show ?thesis using unread by (simp add: key_done_def stored_def)
  next
    case (gone st w1 data)
    have g: "hashes w1 = hashes w" "rows w1 = rows w" "distinct (map fst data)"
        "map_of data = (case hashes w k of None \<Rightarrow> (\<lambda>_. None) | Some h \<Rightarrow> h)"
      using get gone(3) by (simp_all add: hgetall_contract_def)
    have e: "aggregateHashToRecords data st = []" using gone(4) by (auto simp: aggregateHashToRecords_def)
    have s: "hashes w k = Some h \<Longrightarrow> stored rows w' st h" using stored_empty [OF g(3) e, of rows w'] g(4) by simp
    show ?thesis using del_step [OF del, where k = k and w = w1] g s gone
      by (auto simp: key_done_def)
  next
    case (ups st w1 data err w2)
    have g: "hashes w1 = hashes w" "rows w1 = rows w" "distinct (map fst data)"
        "map_of data = (case hashes w k of None \<Rightarrow> (\<lambda>_. None) | Some h \<Rightarrow> h)"
      using get ups(3) by (simp_all add: hgetall_contract_def)
    have h: "\<exists>h. hashes w k = Some h \<and> map_of data = h"
    proof -
      have "map_of data (fst (hd data)) \<noteq> None" using ups(5) by (simp add: map_of_eq_None_iff)
      then show ?thesis using g(4) by (cases "hashes w k") simp_all
    qed
    note u = upsert_stores [OF \<open>upsert_contract api hashes rows\<close> g(3) ups(4) ups(6)]
    show ?thesis
    proof (cases err)
      case True
      then show ?thesis using u(1,2) ups(1,2,7) g h by (auto simp: key_done_def stored_def)
    next
      case False
      note d = del_step [OF del, where k = k and w = w2]
      have "stored rows w' st (map_of data)" using u(3) False ups(7) d(1) by (simp add: stored_def)
      then show ?thesis using False u(1) u(4) [of t dev svc] ups(1,2,7) g h d
        by (auto simp: key_done_def)
    qed
  qed
  then show "j \<noteq> k \<Longrightarrow> hashes w' j = hashes w j"
    and "?hr \<noteq> Some t \<Longrightarrow> rows w' (t, dev, svc) = rows w (t, dev, svc)"
    and "hashes w k = None \<Longrightarrow> rows w' = rows w \<and> hashes w' k = None"
    and "hashes w k = Some h \<Longrightarrow> key_done hashes rows (extractHourFromKey ph c) cur k h w' \<and>
      (\<forall>st. ?hr = Some st \<longrightarrow>
         (x \<noteq> Failed \<and> k \<noteq> cur \<longrightarrow> stored rows w' st h) \<and> (stored rows w st h \<longrightarrow> stored rows w' st h))"
    by blast+
qed


text \<open>Once the bytes of a hash are stored and no other key has its hour, the rest keeps them.\<close>

lemma dump_keys_keeps:
  assumes "store_contract api hashes rows"
    and "\<And>j. j \<in> set ks \<Longrightarrow> extractHourFromKey ph c j = Some st \<Longrightarrow> j = k"
    and "dump_keys api ph c cur ks w = (xs, w')" and "extractHourFromKey ph c k = Some st"
    and "stored rows w st h" and "hashes w k = None \<or> hashes w k = Some h" and "hashes w k = None \<or> k \<noteq> cur"
  shows "stored rows w' st h \<and> (hashes w' k = None \<or> hashes w' k = Some h \<and> hashes w k = Some h)"
  using assms(2-)
proof (induction ks arbitrary: w xs)
  case (Cons j ks)
  obtain x w1 where d: "dump_key api ph c cur j w = (x, w1)" by (metis surj_pair)
  obtain ys where r: "dump_keys api ph c cur ks w1 = (ys, w')"
    using Cons.prems(2) d by (auto split: prod.splits)
  note st = dump_key_step [OF assms(1) d]
  have "stored rows w1 st h \<and> (hashes w1 k = None \<or> hashes w1 k = Some h \<and> hashes w k = Some h)"
  proof (cases "j = k")
    case True
    show ?thesis
    proof (cases "hashes w k")
      case None
      then show ?thesis using st(3) True Cons.prems(4) by (simp add: stored_def)
    next
      case (Some h')
      then have "hashes w k = Some h" using Cons.prems(5) by simp
      then show ?thesis using st(4) [of h] True Cons.prems(3,4) by (auto simp: key_done_def)
    qed
  next
    case False
    then have "extractHourFromKey ph c j \<noteq> Some st" using Cons.prems(1) [of j] by auto
    then have "stored rows w1 st h" using st(2) Cons.prems(4) by (simp add: stored_def)
    moreover have "hashes w1 k = hashes w k" using st(1) [of k] False by simp
    ultimately show ?thesis using Cons.prems(5) by auto
  qed
  then show ?case using Cons.IH [OF _ r, of ] Cons.prems(1,3,6) by (auto 0 3)
qed auto

lemma dump_keys_done:
  assumes "store_contract api hashes rows"
    and "\<And>i j t. i \<in> set ks \<Longrightarrow> j \<in> set ks \<Longrightarrow> extractHourFromKey ph c i = Some t \<Longrightarrow>
      extractHourFromKey ph c j = Some t \<Longrightarrow> i = j"
    and "dump_keys api ph c cur ks w = (xs, w')" and "hashes w k = Some h"
  shows "(hashes w' k = Some h \<or> (hashes w' k = None \<and> k \<in> set ks \<and> k \<noteq> cur \<and>
            (\<exists>st. extractHourFromKey ph c k = Some st \<and> stored rows w' st h))) \<and>
    (Failed \<notin> set xs \<and> k \<in> set ks \<and> k \<noteq> cur \<longrightarrow>
       (\<forall>st. extractHourFromKey ph c k = Some st \<longrightarrow> stored rows w' st h))"
  using assms(2-)
proof (induction ks arbitrary: w xs)
  case (Cons j ks)
  let ?hr = "extractHourFromKey ph c"
  obtain x w1 where d: "dump_key api ph c cur j w = (x, w1)" by (metis surj_pair)
  obtain ys where r: "dump_keys api ph c cur ks w1 = (ys, w')" and xs: "xs = x # ys"
    using Cons.prems(2) d by (auto split: prod.splits)
  note st = dump_key_step [OF assms(1) d]
  have inj: "i = k" if "k \<in> set (j # ks)" "i \<in> set ks" "?hr i = Some t" "?hr k = Some t" for i t
    using Cons.prems(1) [of i k t] that by simp
  show ?case
  proof (cases "hashes w1 k = Some h")
    case True
    have ih: "(hashes w' k = Some h \<or> (hashes w' k = None \<and> k \<in> set ks \<and> k \<noteq> cur \<and>
            (\<exists>st. ?hr k = Some st \<and> stored rows w' st h))) \<and>
        (Failed \<notin> set ys \<and> k \<in> set ks \<and> k \<noteq> cur \<longrightarrow> (\<forall>st. ?hr k = Some st \<longrightarrow> stored rows w' st h))"
      using Cons.IH [OF _ r True] Cons.prems(1) by simp
    have "stored rows w' t h" if "j = k" "x \<noteq> Failed" "k \<noteq> cur" "?hr k = Some t" for t
    proof -
      have "stored rows w1 t h" using st(4) [of h] Cons.prems(3) that by simp
      then show ?thesis
        using dump_keys_keeps [OF assms(1) _ r that(4)] inj that True by (metis list.set_intros(1))
    qed
    then show ?thesis using ih xs by auto
  next
    case False
    then have j: "j = k" using st(1) [of k] Cons.prems(3) by auto
    obtain t where t: "hashes w1 k = None" "k \<noteq> cur" "?hr k = Some t" "stored rows w1 t h"
      using st(4) [of h] Cons.prems(3) j False by (auto simp: key_done_def)
    have "stored rows w' t h \<and> hashes w' k = None"
      using dump_keys_keeps [OF assms(1) _ r t(3,4)] inj j t by auto
    then show ?thesis using t j by auto
  qed
qed simp


subsection \<open>Properties\<close>

lemma scan_keeps:
  fixes api :: "'w traffic_api"
  assumes "scan_contract api hashes rows"
  shows "scan_loop api pat cursor acc w = Some r \<Longrightarrow> hashes (snd r) = hashes w \<and> rows (snd r) = rows w"
proof -
  assume "scan_loop api pat cursor acc w = Some r"
  then have "scan_contract api hashes rows \<longrightarrow> hashes (snd r) = hashes w \<and> rows (snd r) = rows w"
  proof (rule scan_loop.raw_induct [where P = "\<lambda>api pat cursor acc w r. scan_contract api hashes rows \<longrightarrow>
      hashes (snd r) = hashes w \<and> rows (snd r) = rows w", rotated])
    fix f and api' :: "'w traffic_api" and pat cursor acc w y
    assume ih: "\<And>api' pat cursor acc w y. f api' pat cursor acc w = Some y \<Longrightarrow>
        scan_contract api' hashes rows \<longrightarrow> hashes (snd y) = hashes w \<and> rows (snd y) = rows w"
      and f: "(case rd_scan api' cursor pat w of (r, w1) \<Rightarrow> (case r of None \<Rightarrow> Some (None, w1)
         | Some (batch, nxt) \<Rightarrow> if nxt = 0 then Some (Some (acc @ batch), w1)
             else f api' pat nxt (acc @ batch) w1)) = Some y"
    obtain r w1 where s: "rd_scan api' cursor pat w = (r, w1)" by (metis surj_pair)
    have "hashes w1 = hashes w \<and> rows w1 = rows w" if "scan_contract api' hashes rows"
      using that s unfolding scan_contract_def by (metis snd_conv)
    then show "scan_contract api' hashes rows \<longrightarrow> hashes (snd y) = hashes w \<and> rows (snd y) = rows w"
      using f ih [of api' pat "snd (the r)" "acc @ fst (the r)" w1 y] s
      by (cases r) (auto split: if_splits)
  qed
  with assms show ?thesis by blast
qed

text \<open>
  C12. The aggregation of an hourly hash is exact: one record per device and service, for exactly the
  pairs under which some field of three parts holds a positive number; its kilobytes are the bytes
  of the two fields the tracker writes, rounded to the nearest (as long as the 512 added for the
  rounding do not overflow).
\<close>

theorem aggregation_exact:
  assumes "distinct (map fst data)"
  shows "distinct (map (\<lambda>r. (th_DeviceNo r, th_Service r)) (aggregateHashToRecords data st)) \<and>
    set (aggregateHashToRecords data st) =
      {record_of st (map_of data) dev svc | dev svc. counted_pair (map_of data) dev svc} \<and>
    (\<forall>r \<in> set (aggregateHashToRecords data st). \<forall>d.
       field_bytes (map_of data) (buildField (th_DeviceNo r) (th_Service r) d) + 512 \<le> max_int64 \<longrightarrow>
       \<bar>1024 * (case d of dirUp \<Rightarrow> th_UpKB r | dirDown \<Rightarrow> th_DownKB r) -
         field_bytes (map_of data) (buildField (th_DeviceNo r) (th_Service r) d)\<bar> \<le> 512)"
proof -
  have "\<bar>1024 * (case d of dirUp \<Rightarrow> th_UpKB r | dirDown \<Rightarrow> th_DownKB r) -
         field_bytes (map_of data) (buildField (th_DeviceNo r) (th_Service r) d)\<bar> \<le> 512"
    if r: "r \<in> set (aggregateHashToRecords data st)"
      and b: "field_bytes (map_of data) (buildField (th_DeviceNo r) (th_Service r) d) + 512 \<le> max_int64" for r d
  proof -
    obtain dev svc where "r = record_of st (map_of data) dev svc"
      using r conjunct2 [OF aggregate_records [OF assms, of st]] by blast
    then show ?thesis using b bytesToKB_round [OF field_bytes_nonneg]
      by (cases d) (simp_all add: record_of_def buildField_field_of)
  qed
  with aggregate_records [OF assms, of st] show ?thesis by blast
qed

theorem aggregation_exact_witness:
  "record_of 0 (map_of [(''d1|iot|up'', ''700''), (''bad'', ''3'')]) ''d1'' ''iot''
     \<in> set (aggregateHashToRecords [(''d1|iot|up'', ''700''), (''bad'', ''3'')] 0) \<and>
   th_UpKB (record_of 0 (map_of [(''d1|iot|up'', ''700''), (''bad'', ''3'')]) ''d1'' ''iot'') = 1"
proof -
  let ?d = "[(''d1|iot|up'', ''700''), (''bad'', ''3'')]"
  have p: "parse_int64 ''700'' = Some 700" by code_simp
  have b: "field_bytes (map_of ?d) (field_of ''d1'' ''iot'' ''up'') = 700"
    by (simp add: field_bytes_def field_of_def bytes_of_def p)
  then have "counted_pair (map_of ?d) ''d1'' ''iot''"
    by (auto simp: counted_pair_def intro!: exI [of _ "''up''"])
  then have "record_of 0 (map_of ?d) ''d1'' ''iot'' \<in> set (aggregateHashToRecords ?d 0)"
    using aggregation_exact [of ?d 0] by auto
  moreover have "bytesToKB 700 = 1" by code_simp
  ultimately show ?thesis using b by (simp add: record_of_def)
qed

text \<open>
  C11. The dump deletes no bytes that are not in the table.  Under the contract of Redis and the
  database, if no two scanned keys stand for the same hour, then after a dump every hash is still
  there as it was, or it was a scanned hash of another than the current hour and the table holds its
  kilobytes.  If the dump returns no error, the table holds the kilobytes of every scanned hash of a
  valid hour other than the current one; it then holds the bytes of the hash as it is now, whatever
  an earlier dump of the same hour had stored.
\<close>

theorem dump_loses_nothing:
  assumes "store_contract api hashes rows"
    and "scanHourlyKeys api c w = Some (Some keys, w1)"
    and "\<forall>i \<in> set keys. \<forall>j \<in> set keys. \<forall>t. extractHourFromKey ph c i = Some t \<longrightarrow>
      extractHourFromKey ph c j = Some t \<longrightarrow> i = j"
    and "dumpPending api ph c hr w = Some (err, w')" and "hashes w k = Some h"
  shows "(hashes w' k = Some h \<or> (hashes w' k = None \<and> k \<in> set keys \<and> k \<noteq> currentHourKey c hr \<and>
            (\<exists>st. extractHourFromKey ph c k = Some st \<and> stored rows w' st h))) \<and>
    (err = None \<and> k \<in> set keys \<and> k \<noteq> currentHourKey c hr \<longrightarrow>
       (\<forall>st. extractHourFromKey ph c k = Some st \<longrightarrow> stored rows w' st h))"
proof -
  have "hashes w1 = hashes w"
    using scan_keeps [of api hashes rows _ _ _ w] assms(1,2) by (force simp: store_contract_def scanHourlyKeys_def)
  then have h: "hashes w1 k = Some h" using assms(5) by simp
  show ?thesis
  proof (cases "keys = []")
    case True
    then show ?thesis using assms(2,4) h by (simp add: dumpPending_def)
  next
    case False
    obtain xs w2 where d: "dump_keys api ph c (currentHourKey c hr) keys w1 = (xs, w2)" by (metis surj_pair)
    have "w' = w2" "err = None \<longleftrightarrow> Failed \<notin> set xs"
      using assms(2,4) d False by (auto simp: dumpPending_def Let_def filter_empty_conv split: if_splits)
    moreover have "i = j" if "i \<in> set keys" "j \<in> set keys" "extractHourFromKey ph c i = Some t"
        "extractHourFromKey ph c j = Some t" for i j t using assms(3) that by blast
    note dump_keys_done [OF assms(1) this d h]
    ultimately show ?thesis by simp
  qed
qed



text \<open>A store of two maps, without failures.\<close>

type_synonym demo_store =
  "(string \<Rightarrow> (string \<times> string) list option) \<times> (instant \<times> string \<times> string \<Rightarrow> (int \<times> int) option)"

definition demo_store_api :: "string list \<Rightarrow> demo_store traffic_api" where
  "demo_store_api ks = \<lparr>rd_exec = (\<lambda>_ w. (True, w)), rd_scan = (\<lambda>_ _ w. (Some (ks, 0), w)),
     rd_hgetall = (\<lambda>k w. (Some (case fst w k of None \<Rightarrow> [] | Some h \<Rightarrow> if distinct (map fst h) then h else []), w)),
     rd_del = (\<lambda>k w. (False, (fst w)(k := None), snd w)),
     db_upsert = (\<lambda>_ recs w. (False, fst w,
       (\<lambda>k. case find (\<lambda>r. row_key r = k) recs of None \<Rightarrow> snd w k | Some r \<Rightarrow> Some (th_UpKB r, th_DownKB r))))\<rparr>"

definition demo_hashes :: "demo_store hash_view" where
  "demo_hashes w k = map_option (\<lambda>h. if distinct (map fst h) then map_of h else (\<lambda>_. None)) (fst w k)"

lemma find_distinct:
  "distinct (map f xs) \<Longrightarrow> x \<in> set xs \<Longrightarrow> find (\<lambda>r. f r = f x) xs = Some x"
  by (induction xs) auto

lemma find_absent: "k \<notin> f ` set xs \<Longrightarrow> find (\<lambda>r. f r = k) xs = None"
  by (induction xs) auto

lemma demo_store_contract: "store_contract (demo_store_api ks) demo_hashes snd"
proof -
  have "hgetall_contract (demo_store_api ks) demo_hashes snd"
    by (auto simp: hgetall_contract_def demo_store_api_def demo_hashes_def split: option.split)
  moreover have "del_contract (demo_store_api ks) demo_hashes snd"
    by (auto simp: del_contract_def demo_store_api_def demo_hashes_def)
  moreover have "upsert_contract (demo_store_api ks) demo_hashes snd"
    by (auto simp: upsert_contract_def demo_store_api_def demo_hashes_def find_distinct find_absent
        intro!: ext)
  ultimately show ?thesis by (simp add: store_contract_def scan_contract_def demo_store_api_def)
qed

definition demo_store_init :: demo_store where
  "demo_store_init = ([''traffic:hourly:2026010100'' \<mapsto> [(''d1|iot|up'', ''700'')]], \<lambda>_. Some (9, 9))"

definition demo_hour :: "string \<Rightarrow> instant option" where
  "demo_hour s = (if s = ''2026010100'' then Some 0 else None)"

lemma demo_scan: "scanHourlyKeys (demo_store_api ks) c w = Some (Some ks, w)"
  unfolding scanHourlyKeys_def by (subst scan_loop.simps) (simp add: demo_store_api_def)

lemma demo_never_fails: "fst (dump_key (demo_store_api ks) ph c cur k w) \<noteq> Failed"
  by (auto simp: dump_key_def upsertBatch_def demo_store_api_def Let_def split: option.split)

theorem dump_loses_nothing_witness:
  "\<exists>w'. dumpPending (demo_store_api [''traffic:hourly:2026010100'']) demo_hour demo_traffic_cfg ''2026010101''
      demo_store_init = Some (None, w') \<and> snd w' (0, ''d1'', ''iot'') = Some (1, 0)"
proof -
  let ?k = "''traffic:hourly:2026010100''" and ?api = "demo_store_api [''traffic:hourly:2026010100'']"
  let ?h = "map_of [(''d1|iot|up'', ''700'')]"
  obtain err w' where d: "dumpPending ?api demo_hour demo_traffic_cfg ''2026010101'' demo_store_init = Some (err, w')"
    by (cases "dumpPending ?api demo_hour demo_traffic_cfg ''2026010101'' demo_store_init")
      (auto simp: dumpPending_def demo_scan split: prod.splits)
  obtain x w2 where x: "dump_key ?api demo_hour demo_traffic_cfg (currentHourKey demo_traffic_cfg ''2026010101'')
      ?k demo_store_init = (x, w2)" by (metis surj_pair)
  have "x \<noteq> Failed" using demo_never_fails x by (metis fst_conv)
  then have "err = None" using d x by (simp add: dumpPending_def demo_scan)
  moreover have e: "extractHourFromKey demo_hour demo_traffic_cfg ?k = Some 0"
    by (simp add: extractHourFromKey_def demo_traffic_cfg_def demo_hour_def trim_prefix_def has_prefix_def)
  moreover have "?k \<noteq> currentHourKey demo_traffic_cfg ''2026010101''"
    by (simp add: currentHourKey_def demo_traffic_cfg_def)
  moreover have "demo_hashes demo_store_init ?k = Some ?h" by (simp add: demo_hashes_def demo_store_init_def)
  ultimately have s: "stored snd w' 0 ?h"
    using dump_loses_nothing [OF demo_store_contract demo_scan _ d, of ?k ?h] by simp
  have p: "parse_int64 ''700'' = Some 700" by code_simp
  have b: "field_bytes ?h (field_of ''d1'' ''iot'' ''up'') = 700" "field_bytes ?h (field_of ''d1'' ''iot'' ''down'') = 0"
    by (simp_all add: field_bytes_def field_of_def bytes_of_def p)
  then have "counted_pair ?h ''d1'' ''iot''" by (auto simp: counted_pair_def intro!: exI [of _ "''up''"])
  moreover have "bytesToKB 700 = 1" "bytesToKB 0 = 0" by code_simp+
  ultimately have "snd w' (0, ''d1'', ''iot'') = Some (1, 0)" using s b by (simp add: stored_def)
  then show ?thesis using d \<open>err = None\<close> by blast
qed


end
