(* ===== verification/Gopool.thy ===== *)
theory Gopool
  imports GoBase "HOL-Library.Multiset"
begin

text \<open>
  The goroutine pool (\<^verbatim>\<open>src/pkg/gopool\<close>).  The linked task list is a list (a task that is the tail of
  an emptied list is never reached again); every atomic operation of \<^verbatim>\<open>CtxGo\<close> and every critical
  section of the worker loop is one step, so all interleavings of submitters and workers are covered.
  Tasks are numbers.  Ghost fields record the order in which tasks are pushed, started and finished.
  The theory shows that no task is lost or run twice, that tasks start in the order of submission,
  and that the capacity is not a strict bound.
\<close>

subsection \<open>State (\<^verbatim>\<open>pool.go\<close>, \<^verbatim>\<open>config.go\<close>)\<close>

record GopoolConfig =
  ScaleThreshold :: int

definition defaultScalaThreshold :: int where
  "defaultScalaThreshold = 1"

definition NewConfig :: GopoolConfig where
  "NewConfig = \<lparr>ScaleThreshold = defaultScalaThreshold\<rparr>"

record pool =
  p_name :: string
  p_cap :: int
  p_config :: GopoolConfig
  p_tasks :: "nat list"
  p_taskCount :: int
  p_workerCount :: int
  p_panicHandler :: bool

definition NewPool :: "string \<Rightarrow> int \<Rightarrow> GopoolConfig \<Rightarrow> pool" where
  "NewPool name c config = \<lparr>p_name = name, p_cap = c, p_config = config, p_tasks = [],
     p_taskCount = 0, p_workerCount = 0, p_panicHandler = False\<rparr>"

definition SetCap :: "int \<Rightarrow> pool \<Rightarrow> pool" where
  "SetCap c p = p\<lparr>p_cap := c\<rparr>"

definition SetPanicHandler :: "bool \<Rightarrow> pool \<Rightarrow> pool" where
  "SetPanicHandler h p = p\<lparr>p_panicHandler := h\<rparr>"

definition WorkerCount :: "pool \<Rightarrow> int" where
  "WorkerCount p = p_workerCount p"

definition incWorkerCount :: "pool \<Rightarrow> pool" where
  "incWorkerCount p = p\<lparr>p_workerCount := wrap32 (p_workerCount p + 1)\<rparr>"

definition decWorkerCount :: "pool \<Rightarrow> pool" where
  "decWorkerCount p = p\<lparr>p_workerCount := wrap32 (p_workerCount p - 1)\<rparr>"

text \<open>The critical sections: appending a task, and taking the first one.\<close>

definition push_task :: "nat \<Rightarrow> pool \<Rightarrow> pool" where
  "push_task t p = p\<lparr>p_tasks := p_tasks p @ [t]\<rparr>"

definition take_task :: "pool \<Rightarrow> (nat \<times> pool) option" where
  "take_task p =
     (case p_tasks p of
        [] \<Rightarrow> None
      | t # ts \<Rightarrow> Some (t, p\<lparr>p_tasks := ts, p_taskCount := wrap32 (p_taskCount p - 1)\<rparr>))"

text \<open>The registry of pools (\<^verbatim>\<open>gopool.go\<close>).\<close>

definition RegisterPool :: "pool \<Rightarrow> (string \<Rightarrow> pool option) \<Rightarrow> string option \<times> (string \<Rightarrow> pool option)" where
  "RegisterPool p m =
     (if m (p_name p) \<noteq> None then (Some (''name: '' @ p_name p @ '' already registered''), m)
      else (None, m(p_name p \<mapsto> p)))"

definition GetPool :: "string \<Rightarrow> (string \<Rightarrow> pool option) \<Rightarrow> pool option" where
  "GetPool name m = m name"

definition defaultPool :: pool where
  "defaultPool = NewPool ''gopool.DefaultPool'' 2147483647 NewConfig"

subsection \<open>Steps (\<^verbatim>\<open>CtxGo\<close>, \<^verbatim>\<open>worker.run\<close>)\<close>

text \<open>
  Where a call of \<^verbatim>\<open>CtxGo\<close> is: after the push, after the count, after the first comparison held, after
  loading the number of workers, before the last comparison, before starting a worker.
\<close>

datatype submit_pc = Pushed | CountedTask | Above | Loaded int | LastTest | Spawn

datatype worker_pc = Fetch | Running nat

record gopool =
  gp :: pool
  subs :: "submit_pc multiset"
  wks :: "worker_pc multiset"
  pushed :: "nat list"
  started :: "nat list"
  finished :: "nat multiset"
  panics :: "(nat \<times> bool) list"

definition new_gopool :: "pool \<Rightarrow> gopool" where
  "new_gopool p = \<lparr>gp = p, subs = {#}, wks = {#}, pushed = [], started = [], finished = {#}, panics = []\<rparr>"

text \<open>The flag tells an action of the environment from a step of the pool.\<close>

inductive gstep :: "gopool \<Rightarrow> bool \<Rightarrow> gopool \<Rightarrow> bool" where
  submit: "gstep s True (s\<lparr>gp := push_task t (gp s), subs := add_mset Pushed (subs s),
    pushed := pushed s @ [t]\<rparr>)"
| set_cap: "gstep s True (s\<lparr>gp := SetCap c (gp s)\<rparr>)"
| set_handler: "gstep s True (s\<lparr>gp := SetPanicHandler h (gp s)\<rparr>)"
| count: "Pushed \<in># subs s \<Longrightarrow>
    gstep s False (s\<lparr>gp := (gp s)\<lparr>p_taskCount := wrap32 (p_taskCount (gp s) + 1)\<rparr>,
      subs := add_mset CountedTask (subs s - {#Pushed#})\<rparr>)"
| load_tasks: "CountedTask \<in># subs s \<Longrightarrow>
    gstep s False (s\<lparr>subs := add_mset
      (if p_taskCount (gp s) \<ge> ScaleThreshold (p_config (gp s)) then Above else LastTest)
      (subs s - {#CountedTask#})\<rparr>)"
| load_workers: "Above \<in># subs s \<Longrightarrow>
    gstep s False (s\<lparr>subs := add_mset (Loaded (WorkerCount (gp s))) (subs s - {#Above#})\<rparr>)"
| load_cap: "Loaded n \<in># subs s \<Longrightarrow>
    gstep s False (s\<lparr>subs := add_mset (if n < p_cap (gp s) then Spawn else LastTest)
      (subs s - {#Loaded n#})\<rparr>)"
| last_test_spawn: "LastTest \<in># subs s \<Longrightarrow> WorkerCount (gp s) = 0 \<Longrightarrow>
    gstep s False (s\<lparr>subs := add_mset Spawn (subs s - {#LastTest#})\<rparr>)"
| last_test_done: "LastTest \<in># subs s \<Longrightarrow> WorkerCount (gp s) \<noteq> 0 \<Longrightarrow>
    gstep s False (s\<lparr>subs := subs s - {#LastTest#}\<rparr>)"
| spawn: "Spawn \<in># subs s \<Longrightarrow>
    gstep s False (s\<lparr>gp := incWorkerCount (gp s), subs := subs s - {#Spawn#},
      wks := add_mset Fetch (wks s)\<rparr>)"
| fetch: "Fetch \<in># wks s \<Longrightarrow> take_task (gp s) = Some (t, p') \<Longrightarrow>
    gstep s False (s\<lparr>gp := p', wks := add_mset (Running t) (wks s - {#Fetch#}),
      started := started s @ [t]\<rparr>)"
| leave: "Fetch \<in># wks s \<Longrightarrow> take_task (gp s) = None \<Longrightarrow>
    gstep s False (s\<lparr>gp := decWorkerCount (gp s), wks := wks s - {#Fetch#}\<rparr>)"
| finish: "Running t \<in># wks s \<Longrightarrow>
    gstep s False (s\<lparr>wks := add_mset Fetch (wks s - {#Running t#}), finished := add_mset t (finished s),
      panics := panics s @ (if panicked then [(t, p_panicHandler (gp s))] else [])\<rparr>)"

inductive_cases gstep_elim: "gstep s e s'"
inductive_cases internal_elim: "gstep s False s'"

inductive greach :: "gopool \<Rightarrow> gopool \<Rightarrow> bool" for s0 where
  greach_init: "greach s0 s0"
| greach_step: "greach s0 s \<Longrightarrow> gstep s e s' \<Longrightarrow> greach s0 s'"

text \<open>A run of the pool alone, with its number of steps.\<close>

inductive internal_run :: "gopool \<Rightarrow> nat \<Rightarrow> gopool \<Rightarrow> bool" where
  run_nil: "internal_run s 0 s"
| run_step: "internal_run s n s1 \<Longrightarrow> gstep s1 False s2 \<Longrightarrow> internal_run s (Suc n) s2"

subsection \<open>Invariant\<close>

fun running_of :: "worker_pc \<Rightarrow> nat multiset" where
  "running_of Fetch = {#}"
| "running_of (Running t) = {#t#}"

text \<open>
  Tasks start in the order of submission; started tasks are finished or running; the worker count is
  the number of workers; and as long as tasks wait, there is a worker or a call of \<^verbatim>\<open>CtxGo\<close> that has
  not made its last test.
\<close>

definition gopool_inv :: "gopool \<Rightarrow> bool" where
  "gopool_inv s \<longleftrightarrow>
     pushed s = started s @ p_tasks (gp s) \<and>
     mset (started s) = finished s + (\<Sum>w \<in># wks s. running_of w) \<and>
     p_workerCount (gp s) = wrap32 (int (size (wks s))) \<and>
     (p_tasks (gp s) \<noteq> [] \<longrightarrow> wks s \<noteq> {#} \<or> subs s \<noteq> {#})"

lemma new_gopool_inv: "p_tasks p = [] \<Longrightarrow> p_workerCount p = 0 \<Longrightarrow> gopool_inv (new_gopool p)"
  by (simp add: gopool_inv_def new_gopool_def wrap32_def)


lemma take_task_Some:
  "take_task p = Some (t, p') \<longleftrightarrow>
     (\<exists>ts. p_tasks p = t # ts \<and> p' = p\<lparr>p_tasks := ts, p_taskCount := wrap32 (p_taskCount p - 1)\<rparr>)"
  by (auto simp: take_task_def split: list.splits)

lemma take_task_None [simp]: "take_task p = None \<longleftrightarrow> p_tasks p = []"
  by (simp add: take_task_def split: list.splits)

text \<open>Replacing and removing an element under a sum.\<close>

lemma sum_move:
  fixes f :: "'a \<Rightarrow> 'b::comm_monoid_add"
  shows "w \<in># W \<Longrightarrow> (\<Sum>x \<in># add_mset v (W - {#w#}). f x) + f w = f v + (\<Sum>x \<in># W. f x)"
  by (drule multi_member_split) (auto simp: ac_simps)

lemma sum_drop:
  fixes f :: "'a \<Rightarrow> 'b::comm_monoid_add"
  shows "w \<in># W \<Longrightarrow> (\<Sum>x \<in># W - {#w#}. f x) + f w = (\<Sum>x \<in># W. f x)"
  by (drule multi_member_split) (auto simp: ac_simps)

lemma size_move: "w \<in># W \<Longrightarrow> size (add_mset v (W - {#w#})) = size W"
  by (drule multi_member_split) auto

lemma size_drop: "w \<in># W \<Longrightarrow> int (size (W - {#w#})) = int (size W) - 1"
  by (drule multi_member_split) auto

text \<open>The number of workers read as 0 when there are none, so the last test starts one.\<close>

lemma no_workers: "gopool_inv s \<Longrightarrow> wks s = {#} \<Longrightarrow> WorkerCount (gp s) = 0"
  by (simp add: gopool_inv_def WorkerCount_def wrap32_def)

lemma gstep_inv: "gopool_inv s \<Longrightarrow> gstep s e s' \<Longrightarrow> gopool_inv s'"
proof (erule gstep_elim)
  assume i: "gopool_inv s"
  fix n assume "s' = s\<lparr>subs := subs s - {#LastTest#}\<rparr>" "WorkerCount (gp s) \<noteq> 0"
  then show "gopool_inv s'" using i no_workers [OF i] by (auto simp: gopool_inv_def)
next
  assume i: "gopool_inv s"
  fix t p' assume f: "s' = s\<lparr>gp := p', wks := add_mset (Running t) (wks s - {#Fetch#}),
      started := started s @ [t]\<rparr>" "Fetch \<in># wks s" "take_task (gp s) = Some (t, p')"
  show "gopool_inv s'" using i f sum_move [OF f(2), of running_of "Running t"] size_move [OF f(2), of "Running t"]
    by (auto simp: gopool_inv_def take_task_Some)
next
  assume i: "gopool_inv s"
  assume f: "s' = s\<lparr>gp := decWorkerCount (gp s), wks := wks s - {#Fetch#}\<rparr>" "Fetch \<in># wks s"
      "take_task (gp s) = None"
  then show "gopool_inv s'" using i size_drop [OF f(2)] sum_drop [OF f(2), of running_of]
    by (auto simp: gopool_inv_def decWorkerCount_def wrap32_sub_left)
next
  assume i: "gopool_inv s"
  fix t panicked assume f: "Running t \<in># wks s"
    "s' = s\<lparr>wks := add_mset Fetch (wks s - {#Running t#}), finished := add_mset t (finished s),
      panics := panics s @ (if panicked then [(t, p_panicHandler (gp s))] else [])\<rparr>"
  show "gopool_inv s'" using i f(2) sum_move [OF f(1), of running_of Fetch] size_move [OF f(1), of Fetch]
    by (auto simp: gopool_inv_def)
qed (auto simp: gopool_inv_def push_task_def SetCap_def SetPanicHandler_def incWorkerCount_def
      wrap32_add_right add.commute)

lemma greach_inv: "greach s0 s \<Longrightarrow> gopool_inv s0 \<Longrightarrow> gopool_inv s"
  by (induction rule: greach.induct) (auto dest: gstep_inv)

subsection \<open>Progress\<close>

fun sub_weight :: "submit_pc \<Rightarrow> nat" where
  "sub_weight Pushed = 7"
| "sub_weight CountedTask = 6"
| "sub_weight Above = 5"
| "sub_weight (Loaded n) = 4"
| "sub_weight LastTest = 3"
| "sub_weight Spawn = 2"

fun wk_weight :: "worker_pc \<Rightarrow> nat" where
  "wk_weight Fetch = 1"
| "wk_weight (Running t) = 2"

text \<open>Bounds the number of steps the pool can take without a new submission.\<close>

definition work_left :: "gopool \<Rightarrow> nat" where
  "work_left s = (\<Sum>x \<in># subs s. sub_weight x) + (\<Sum>w \<in># wks s. wk_weight w) + 2 * length (p_tasks (gp s))"

lemma internal_decreases: "gstep s False s' \<Longrightarrow> work_left s' < work_left s"
proof (erule internal_elim)
  assume "Pushed \<in># subs s" "s' = s\<lparr>gp := (gp s)\<lparr>p_taskCount := wrap32 (p_taskCount (gp s) + 1)\<rparr>,
      subs := add_mset CountedTask (subs s - {#Pushed#})\<rparr>"
  then show ?thesis using sum_move [where w = Pushed and W = "subs s" and v = CountedTask and f = sub_weight] by (simp add: work_left_def)
next
  assume "CountedTask \<in># subs s" "s' = s\<lparr>subs := add_mset
      (if p_taskCount (gp s) \<ge> ScaleThreshold (p_config (gp s)) then Above else LastTest)
      (subs s - {#CountedTask#})\<rparr>"
  then show ?thesis using sum_move [where w = CountedTask and W = "subs s" and v = Above and f = sub_weight]
    sum_move [where w = CountedTask and W = "subs s" and v = LastTest and f = sub_weight] by (simp add: work_left_def)
next
  assume "Above \<in># subs s" "s' = s\<lparr>subs := add_mset (Loaded (WorkerCount (gp s))) (subs s - {#Above#})\<rparr>"
  then show ?thesis using sum_move [where w = Above and W = "subs s" and v = "Loaded (WorkerCount (gp s))" and f = sub_weight]
    by (simp add: work_left_def)
next
  fix n assume "Loaded n \<in># subs s" "s' = s\<lparr>subs := add_mset (if n < p_cap (gp s) then Spawn else LastTest)
      (subs s - {#Loaded n#})\<rparr>"
  then show ?thesis using sum_move [where w = "Loaded n" and W = "subs s" and v = Spawn and f = sub_weight]
    sum_move [where w = "Loaded n" and W = "subs s" and v = LastTest and f = sub_weight] by (simp add: work_left_def)
next
  assume "LastTest \<in># subs s" "s' = s\<lparr>subs := add_mset Spawn (subs s - {#LastTest#})\<rparr>"
  then show ?thesis using sum_move [where w = LastTest and W = "subs s" and v = Spawn and f = sub_weight] by (simp add: work_left_def)
next
  assume "LastTest \<in># subs s" "s' = s\<lparr>subs := subs s - {#LastTest#}\<rparr>"
  then show ?thesis using sum_drop [where w = LastTest and W = "subs s" and f = sub_weight] by (simp add: work_left_def)
next
  assume "Spawn \<in># subs s" "s' = s\<lparr>gp := incWorkerCount (gp s), subs := subs s - {#Spawn#},
      wks := add_mset Fetch (wks s)\<rparr>"
  then show ?thesis using sum_drop [where w = Spawn and W = "subs s" and f = sub_weight]
    by (simp add: work_left_def incWorkerCount_def)
next
  fix t p' assume "Fetch \<in># wks s" "take_task (gp s) = Some (t, p')"
    "s' = s\<lparr>gp := p', wks := add_mset (Running t) (wks s - {#Fetch#}), started := started s @ [t]\<rparr>"
  then show ?thesis using sum_move [where w = Fetch and W = "wks s" and v = "Running t" and f = wk_weight]
    by (auto simp: work_left_def take_task_Some)
next
  assume "Fetch \<in># wks s" "s' = s\<lparr>gp := decWorkerCount (gp s), wks := wks s - {#Fetch#}\<rparr>"
  then show ?thesis using sum_drop [where w = Fetch and W = "wks s" and f = wk_weight] by (simp add: work_left_def decWorkerCount_def)
next
  fix t panicked assume "Running t \<in># wks s"
    "s' = s\<lparr>wks := add_mset Fetch (wks s - {#Running t#}), finished := add_mset t (finished s),
      panics := panics s @ (if panicked then [(t, p_panicHandler (gp s))] else [])\<rparr>"
  then show ?thesis using sum_move [where w = "Running t" and W = "wks s" and v = Fetch and f = wk_weight] by (simp add: work_left_def)
qed

lemma stuck_empty:
  assumes "\<nexists>s'. gstep s False s'"
  shows "subs s = {#}" and "wks s = {#}"
proof -
  show "subs s = {#}"
  proof (rule ccontr)
    assume "subs s \<noteq> {#}"
    then obtain x where "x \<in># subs s" by blast
    then show False using assms
      by (cases x) (metis count, metis load_tasks, metis load_workers, metis load_cap,
        metis last_test_spawn last_test_done, metis spawn)
  qed
  show "wks s = {#}"
  proof (rule ccontr)
    assume "wks s \<noteq> {#}"
    then obtain w where "w \<in># wks s" by blast
    then show False using assms
      by (cases w) (metis fetch leave option.exhaust prod.collapse, metis finish)
  qed
qed


lemma internal_pushed: "gstep s False s' \<Longrightarrow> pushed s' = pushed s"
  by (erule internal_elim) auto

lemma internal_run_facts:
  "internal_run s n s' \<Longrightarrow> gopool_inv s \<Longrightarrow>
   gopool_inv s' \<and> pushed s' = pushed s \<and> n + work_left s' \<le> work_left s"
proof (induction rule: internal_run.induct)
  case (run_step s n s1 s2)
  then show ?case using gstep_inv internal_pushed internal_decreases [of s1 s2] by fastforce
qed simp

lemma internal_run_trans: "internal_run s1 m s2 \<Longrightarrow> internal_run s n s1 \<Longrightarrow> internal_run s (n + m) s2"
proof (induction rule: internal_run.induct)
  case (run_step s1 m s2 s3)
  then show ?case using internal_run.run_step [of s "n + m" s2 s3] by simp
qed simp

lemma internal_run_ends: "\<exists>n s'. internal_run s n s' \<and> (\<nexists>s''. gstep s' False s'')"
proof (induction "work_left s" arbitrary: s rule: less_induct)
  case less
  show ?case
  proof (cases "\<exists>s1. gstep s False s1")
    case True
    then obtain s1 where s1: "gstep s False s1" by blast
    then obtain n s' where r: "internal_run s1 n s'" "\<nexists>s''. gstep s' False s''"
      using less internal_decreases by blast
    have "internal_run s (Suc 0 + n) s'"
      by (rule internal_run_trans [OF r(1) run_step [OF run_nil s1]])
    with r(2) show ?thesis by blast
  qed (use run_nil in blast)
qed

lemma stuck_all_done:
  assumes "gopool_inv s" and "\<nexists>s'. gstep s False s'"
  shows "p_tasks (gp s) = [] \<and> started s = pushed s \<and> finished s = mset (pushed s) \<and> WorkerCount (gp s) = 0"
proof -
  note e = stuck_empty [OF assms(2)]
  then show ?thesis using assms(1) no_workers [OF assms(1) e(2)] by (auto simp: gopool_inv_def)
qed

subsection \<open>Properties\<close>

text \<open>
  C14. Every submitted task is run, exactly once, and tasks start in the order of submission.  In every
  reachable state of a new pool (any interleaving of submitters and workers, any changes of the
  capacity, panicking tasks included) the submitted tasks are the started ones followed by the waiting
  ones, and the started ones are finished or running.  The pool alone can take only boundedly many
  further steps, and when it can take none, every submitted task is finished and no worker is left.
\<close>

theorem gopool_runs_every_task:
  assumes "greach (new_gopool (NewPool name c config)) s"
  shows "pushed s = started s @ p_tasks (gp s) \<and>
    mset (started s) = finished s + (\<Sum>w \<in># wks s. running_of w) \<and>
    (\<forall>n s'. internal_run s n s' \<longrightarrow> n \<le> work_left s) \<and>
    (\<exists>n s'. internal_run s n s' \<and> (\<nexists>s''. gstep s' False s'')) \<and>
    (\<forall>n s'. internal_run s n s' \<and> (\<nexists>s''. gstep s' False s'') \<longrightarrow>
       started s' = pushed s \<and> finished s' = mset (pushed s) \<and> p_tasks (gp s') = [] \<and> WorkerCount (gp s') = 0)"
proof -
  have i: "gopool_inv s"
    using greach_inv [OF assms] new_gopool_inv [of "NewPool name c config"] by (simp add: NewPool_def)
  have "n \<le> work_left s" if "internal_run s n s'" for n s'
    using internal_run_facts [OF that i] by simp
  moreover have "started s' = pushed s \<and> finished s' = mset (pushed s) \<and> p_tasks (gp s') = [] \<and> WorkerCount (gp s') = 0"
    if "internal_run s n s'" "\<nexists>s''. gstep s' False s''" for n s'
    using internal_run_facts [OF that(1) i] stuck_all_done [of s'] that(2) by metis
  ultimately show ?thesis using i internal_run_ends [of s] unfolding gopool_inv_def by blast
qed

theorem gopool_runs_every_task_witness:
  "\<exists>n s. internal_run (new_gopool (NewPool ''p'' 1 NewConfig)
       \<lparr>gp := push_task 5 (NewPool ''p'' 1 NewConfig), subs := {#Pushed#}, pushed := [5]\<rparr>) n s \<and>
     started s = [5] \<and> finished s = {#5#}"
proof -
  let ?s = "new_gopool (NewPool ''p'' 1 NewConfig)
    \<lparr>gp := push_task 5 (NewPool ''p'' 1 NewConfig), subs := {#Pushed#}, pushed := [5]\<rparr>"
  have "greach (new_gopool (NewPool ''p'' 1 NewConfig)) ?s"
    using greach_step [OF greach_init submit [of "new_gopool (NewPool ''p'' 1 NewConfig)" 5]]
    by (simp add: new_gopool_def)
  note t = gopool_runs_every_task [OF this]
  obtain n s' where r: "internal_run ?s n s'" "\<nexists>s''. gstep s' False s''" using t by blast
  have "pushed ?s = [5]" by simp
  then have "started s' = [5] \<and> finished s' = {#5#}" using t r by (metis mset.simps add_mset_add_single empty_neutral(1))
  with r(1) show ?thesis by blast
qed

lemma two_spawns:
  assumes "subs s = {#Spawn, Spawn#}" and "p_workerCount (gp s) = 0" and "greach s0 s"
  shows "\<exists>s'. greach s0 s' \<and> WorkerCount (gp s') = 2 \<and> p_cap (gp s') = p_cap (gp s)"
proof -
  let ?s1 = "s\<lparr>gp := incWorkerCount (gp s), subs := subs s - {#Spawn#}, wks := add_mset Fetch (wks s)\<rparr>"
  let ?s2 = "?s1\<lparr>gp := incWorkerCount (gp ?s1), subs := subs ?s1 - {#Spawn#}, wks := add_mset Fetch (wks ?s1)\<rparr>"
  have "gstep s False ?s1" using assms(1) by (intro spawn) simp
  moreover have "gstep ?s1 False ?s2" using assms(1) by (intro spawn) simp
  ultimately have "greach s0 ?s2" using assms(3) greach_step by blast
  moreover have "WorkerCount (gp ?s2) = 2"
    using assms(2) by (simp add: WorkerCount_def incWorkerCount_def wrap32_def)
  moreover have "p_cap (gp ?s2) = p_cap (gp s)" by (simp add: incWorkerCount_def)
  ultimately show ?thesis by blast
qed

text \<open>
  The capacity is not the maximum number of workers its comment announces: two concurrent calls
  of \<^verbatim>\<open>CtxGo\<close> may both read a count of 0 before either starts a worker, so a pool of capacity 1 runs
  two.
\<close>

theorem capacity_not_strict:
  "\<exists>s. greach (new_gopool (NewPool ''p'' 1 NewConfig)) s \<and> p_cap (gp s) = 1 \<and> WorkerCount (gp s) = 2"
proof -
  let ?s0 = "new_gopool (NewPool ''p'' 1 NewConfig)"
  let ?s1 = "?s0\<lparr>gp := push_task 1 (gp ?s0), subs := add_mset Pushed (subs ?s0), pushed := pushed ?s0 @ [1]\<rparr>"
  let ?s2 = "?s1\<lparr>gp := push_task 2 (gp ?s1), subs := add_mset Pushed (subs ?s1), pushed := pushed ?s1 @ [2]\<rparr>"
  let ?s3 = "?s2\<lparr>gp := (gp ?s2)\<lparr>p_taskCount := wrap32 (p_taskCount (gp ?s2) + 1)\<rparr>,
      subs := add_mset CountedTask (subs ?s2 - {#Pushed#})\<rparr>"
  let ?s4 = "?s3\<lparr>gp := (gp ?s3)\<lparr>p_taskCount := wrap32 (p_taskCount (gp ?s3) + 1)\<rparr>,
      subs := add_mset CountedTask (subs ?s3 - {#Pushed#})\<rparr>"
  let ?g = "(NewPool ''p'' 1 NewConfig)\<lparr>p_tasks := [1, 2], p_taskCount := 2\<rparr>"
  have "greach ?s0 ?s1" by (rule greach_step [OF greach_init submit])
  then have "greach ?s0 ?s2" by (rule greach_step [OF _ submit])
  moreover have "gstep ?s2 False ?s3" by (rule count) simp
  moreover have "gstep ?s3 False ?s4" by (rule count) (simp add: new_gopool_def)
  ultimately have "greach ?s0 ?s4" by (blast intro: greach_step)
  moreover have "?s4 = ?s0\<lparr>gp := ?g, pushed := [1, 2], subs := {#CountedTask, CountedTask#}\<rparr>"
    by (simp add: new_gopool_def push_task_def NewPool_def wrap32_def)
  ultimately have r: "greach ?s0 (?s0\<lparr>gp := ?g, pushed := [1, 2], subs := {#CountedTask, CountedTask#}\<rparr>)" by simp
  have e: "p_taskCount ?g \<ge> ScaleThreshold (p_config ?g)" "WorkerCount ?g = 0" "(0 :: int) < p_cap ?g"
    by (simp_all add: NewPool_def NewConfig_def defaultScalaThreshold_def WorkerCount_def)
  define mk where "mk a b = ?s0\<lparr>gp := ?g, pushed := [1, 2], subs := {#a, b#}\<rparr>" for a b
  have 1: "gstep (mk CountedTask b) False (mk Above b)" for b
    using load_tasks [of "mk CountedTask b"] e by (simp add: mk_def)
  have 2: "gstep (mk Above b) False (mk (Loaded 0) b)" for b
    using load_workers [of "mk Above b"] e by (simp add: mk_def)
  have 3: "gstep (mk (Loaded 0) b) False (mk Spawn b)" for b
    using load_cap [of 0 "mk (Loaded 0) b"] e by (simp add: mk_def)
  have sw: "mk a b = mk b a" for a b by (simp add: mk_def add_mset_commute)
  have right: "gstep (mk b a) False (mk b a')" if "gstep (mk a b) False (mk a' b)" for a a' b
    using that unfolding sw [of b a] sw [of b a'] .
  have "greach ?s0 (mk CountedTask CountedTask)" using r by (simp add: mk_def)
  then have "greach ?s0 (mk Above CountedTask)" by (rule greach_step [OF _ 1])
  then have "greach ?s0 (mk Above Above)" by (rule greach_step [OF _ right [OF 1]])
  then have "greach ?s0 (mk (Loaded 0) Above)" by (rule greach_step [OF _ 2])
  then have "greach ?s0 (mk (Loaded 0) (Loaded 0))" by (rule greach_step [OF _ right [OF 2]])
  then have "greach ?s0 (mk Spawn (Loaded 0))" by (rule greach_step [OF _ 3])
  then have g: "greach ?s0 (mk Spawn Spawn)" by (rule greach_step [OF _ right [OF 3]])
  have "subs (mk Spawn Spawn) = {#Spawn, Spawn#}" "p_workerCount (gp (mk Spawn Spawn)) = 0"
      "p_cap (gp (mk Spawn Spawn)) = 1" by (simp_all add: mk_def NewPool_def)
  with two_spawns [OF _ _ g] show ?thesis by metis
qed

end
