(* ===== verification/RedisLock.thy ===== *)
theory RedisLock
  imports GoBase
begin

text \<open>
  The distributed lock (\<^verbatim>\<open>src/pkg/redis_lock\<close>).  The Redis commands its two Lua scripts use are the
  record \<open>redis_cmds\<close>, whose last argument before the server state is the server's clock; \<open>lock_contract\<close>
  states their documented behaviour on the view of a key as a value with an expiry time.  A reply may
  be lost on the way, before or after the script ran.  The theory shows mutual exclusion for the
  length of a lease and that waiting for the lock ends.
\<close>

subsection \<open>Random identifiers (\<^verbatim>\<open>random.go\<close>)\<close>

definition letterBytes :: string where
  "letterBytes = ''abcdefghijklmnopqrstuvwxyzABCDEFGHIJKLMNOPQRSTUVWXYZ0123456789''"

definition letterIdxBits :: nat where
  "letterIdxBits = 6"

definition letterIdxMax :: nat where
  "letterIdxMax = 63 div letterIdxBits"

text \<open>
  The loop of \<^verbatim>\<open>Randn\<close>: \<open>k\<close> letters are still to be set, from the last to the first; \<open>src\<close> is the
  random source with its state.  Indices 62 and 63 are rejected, so it may run for ever.
\<close>

partial_function (option) randn_loop ::
    "('s \<Rightarrow> int \<times> 's) \<Rightarrow> nat \<Rightarrow> int \<Rightarrow> nat \<Rightarrow> string \<Rightarrow> 's \<Rightarrow> (string \<times> 's) option" where
  "randn_loop src k c remain b s =
     (if k = 0 then Some (b, s)
      else let ((c1, remain1), s1) =
                 (if remain = 0 then ((fst (src s), letterIdxMax), snd (src s)) else ((c, remain), s));
               idx = nat (c1 mod 64)
           in if idx < length letterBytes
              then randn_loop src (k - 1) (c1 div 64) (remain1 - 1) (letterBytes ! idx # b) s1
              else randn_loop src k (c1 div 64) (remain1 - 1) b s1)"

definition Randn :: "('s \<Rightarrow> int \<times> 's) \<Rightarrow> nat \<Rightarrow> 's \<Rightarrow> (string \<times> 's) option" where
  "Randn src n s = randn_loop src n (fst (src s)) letterIdxMax [] (snd (src s))"

text \<open>An identifier, when the loop returns one, consists of the given number of letters and digits.\<close>

lemma Randn_letters:
  "Randn src n s = Some (b, s') \<Longrightarrow> length b = n \<and> set b \<subseteq> set letterBytes"
proof -
  have "length (fst r) = k + length b \<and> set (fst r) \<subseteq> set b \<union> set letterBytes"
    if "randn_loop src k c remain b s = Some r" for src :: "'a \<Rightarrow> int \<times> 'a" and k c remain b s r
    using that
  proof (rule randn_loop.raw_induct [where P = "\<lambda>src k c remain b s r. length (fst r) = k + length b \<and>
      set (fst r) \<subseteq> set b \<union> set letterBytes", rotated])
    fix f and src :: "'a \<Rightarrow> int \<times> 'a" and k c remain b s r
    assume ih: "\<And>src k c remain b s r. f src k c remain b s = Some r \<Longrightarrow>
        length (fst r) = k + length b \<and> set (fst r) \<subseteq> set b \<union> set letterBytes"
      and f: "(if k = 0 then Some (b, s)
        else let ((c1, remain1), s1) =
                 (if remain = 0 then ((fst (src s), letterIdxMax), snd (src s)) else ((c, remain), s));
               idx = nat (c1 mod 64)
           in if idx < length letterBytes
              then f src (k - 1) (c1 div 64) (remain1 - 1) (letterBytes ! idx # b) s1
              else f src k (c1 div 64) (remain1 - 1) b s1) = Some r"
    obtain c1 remain1 s1 where d: "(if remain = 0 then ((fst (src s), letterIdxMax), snd (src s)) else ((c, remain), s))
        = ((c1, remain1), s1)" by (metis surj_pair)
    show "length (fst r) = k + length b \<and> set (fst r) \<subseteq> set b \<union> set letterBytes"
    proof (cases "k = 0")
      case True
      then show ?thesis using f by auto
    next
      case False
      have m: "nat (c1 mod 64) < length letterBytes \<Longrightarrow> letterBytes ! nat (c1 mod 64) \<in> set letterBytes" by simp
      show ?thesis
      proof (cases "nat (c1 mod 64) < length letterBytes")
        case True
        then show ?thesis using ih [of src "k - 1" "c1 div 64" "remain1 - 1" "letterBytes ! nat (c1 mod 64) # b" s1 r]
            f False m by (auto simp: d Let_def)
      next
        case f2: False
        then show ?thesis using ih [of src k "c1 div 64" "remain1 - 1" b s1 r] f False by (auto simp: d Let_def)
      qed
    qed
  qed
  then show "Randn src n s = Some (b, s') \<Longrightarrow> length b = n \<and> set b \<subseteq> set letterBytes"
    by (fastforce simp: Randn_def)
qed

subsection \<open>The lock (\<^verbatim>\<open>redis_lock.go\<close>)\<close>

record lock_options =
  LockSeconds :: int
  WaitTimeout :: duration
  WaitRetry :: duration

record RedisLock =
  rl_key :: string
  rl_id :: string
  rl_opts :: lock_options

definition lock_defaults :: "lock_options option \<Rightarrow> lock_options" where
  "lock_defaults opt =
     (let o1 = (case opt of
                  None \<Rightarrow> \<lparr>LockSeconds = 3, WaitTimeout = 0, WaitRetry = 100 * millisecond\<rparr>
                | Some o' \<Rightarrow> o');
          o2 = (if WaitRetry o1 = 0 then o1\<lparr>WaitRetry := 100 * millisecond\<rparr> else o1)
      in if LockSeconds o2 = 0 then o2\<lparr>LockSeconds := 10\<rparr> else o2)"

definition NewRedisLock ::
    "('s \<Rightarrow> int \<times> 's) \<Rightarrow> string \<Rightarrow> lock_options option \<Rightarrow> 's \<Rightarrow> (RedisLock \<times> 's) option" where
  "NewRedisLock src key opt s =
     (case Randn src 16 s of
        None \<Rightarrow> None
      | Some (ident, s1) \<Rightarrow> Some (\<lparr>rl_key = key, rl_id = ident, rl_opts = lock_defaults opt\<rparr>, s1))"

text \<open>\<open>rc_nil_error\<close> tells whether the client library reports a nil reply as an error.\<close>

record 'w redis_cmds =
  rc_get :: "string \<Rightarrow> instant \<Rightarrow> 'w \<Rightarrow> string option"
  rc_set_px :: "string \<Rightarrow> string \<Rightarrow> int \<Rightarrow> instant \<Rightarrow> 'w \<Rightarrow> 'w"
  rc_set_nx_px :: "string \<Rightarrow> string \<Rightarrow> int \<Rightarrow> instant \<Rightarrow> 'w \<Rightarrow> bool \<times> 'w"
  rc_del :: "string \<Rightarrow> instant \<Rightarrow> 'w \<Rightarrow> int \<times> 'w"
  rc_nil_error :: bool

text \<open>\<^verbatim>\<open>lockCommand\<close> and \<^verbatim>\<open>delCommand\<close>; the first replies \<^verbatim>\<open>"OK"\<close> or nil, the second a number.\<close>

definition lockCommand :: "'w redis_cmds \<Rightarrow> string \<Rightarrow> string \<Rightarrow> int \<Rightarrow> instant \<Rightarrow> 'w \<Rightarrow> bool \<times> 'w" where
  "lockCommand r key ident ms now w =
     (if rc_get r key now w = Some ident then (True, rc_set_px r key ident ms now w)
      else rc_set_nx_px r key ident ms now w)"

definition delCommand :: "'w redis_cmds \<Rightarrow> string \<Rightarrow> string \<Rightarrow> instant \<Rightarrow> 'w \<Rightarrow> int \<times> 'w" where
  "delCommand r key ident now w =
     (if rc_get r key now w = Some ident then rc_del r key now w else (0, w))"

text \<open>The lease in milliseconds: the seconds are a \<^verbatim>\<open>uint32\<close>, so nothing overflows.\<close>

definition lease_ms :: "RedisLock \<Rightarrow> int" where
  "lease_ms rl = LockSeconds (rl_opts rl) * 1000 + 500"

text \<open>What happens to one \<^verbatim>\<open>EVAL\<close> on the way.\<close>

datatype net = Delivered | LostRequest | LostReply

definition Lock :: "'w redis_cmds \<Rightarrow> RedisLock \<Rightarrow> net \<Rightarrow> instant \<Rightarrow> 'w \<Rightarrow> (bool \<times> bool) \<times> 'w" where
  \<comment> \<open>whether the lock was acquired, whether an error is returned\<close>
  "Lock r rl nt now w =
     (case nt of
        LostRequest \<Rightarrow> ((False, True), w)
      | LostReply \<Rightarrow> ((False, True), snd (lockCommand r (rl_key rl) (rl_id rl) (lease_ms rl) now w))
      | Delivered \<Rightarrow>
          (let (ok, w1) = lockCommand r (rl_key rl) (rl_id rl) (lease_ms rl) now w
           in ((ok, \<not> ok \<and> rc_nil_error r), w1)))"

definition UnLock :: "'w redis_cmds \<Rightarrow> RedisLock \<Rightarrow> net \<Rightarrow> instant \<Rightarrow> 'w \<Rightarrow> (bool \<times> bool) \<times> 'w" where
  "UnLock r rl nt now w =
     (case nt of
        LostRequest \<Rightarrow> ((False, True), w)
      | LostReply \<Rightarrow> ((False, True), snd (delCommand r (rl_key rl) (rl_id rl) now w))
      | Delivered \<Rightarrow>
          (let (n, w1) = delCommand r (rl_key rl) (rl_id rl) now w in ((n = 1, False), w1)))"

text \<open>
  The loop of \<^verbatim>\<open>TryLock\<close>.  \<open>attempt\<close> is one call of \<^verbatim>\<open>Lock\<close>, \<open>clock\<close> reads the client's clock and \<open>sleep\<close>
  waits, all on the state of the world; the result tells whether the lock was obtained.
\<close>

partial_function (option) try_loop ::
    "('v \<Rightarrow> (bool \<times> bool) \<times> 'v) \<Rightarrow> ('v \<Rightarrow> instant) \<Rightarrow> (duration \<Rightarrow> 'v \<Rightarrow> 'v) \<Rightarrow> lock_options \<Rightarrow> instant \<Rightarrow> 'v \<Rightarrow>
     (bool \<times> 'v) option" where
  "try_loop attempt clock sleep o' stop v =
     (let ((ok, err), v1) = attempt v
      in if \<not> err \<and> ok then Some (True, v1)
         else if WaitTimeout o' = 0 then Some (False, v1)
         else if clock v1 + WaitRetry o' > stop then Some (False, v1)
         else try_loop attempt clock sleep o' stop (sleep (WaitRetry o') v1))"

definition zero_time :: instant where
  \<comment> \<open>the zero \<^verbatim>\<open>time.Time\<close>, year 1\<close>
  "zero_time = - 62135596800 * second"

definition TryLock ::
    "('v \<Rightarrow> (bool \<times> bool) \<times> 'v) \<Rightarrow> ('v \<Rightarrow> instant) \<Rightarrow> (duration \<Rightarrow> 'v \<Rightarrow> 'v) \<Rightarrow> RedisLock \<Rightarrow> 'v \<Rightarrow>
     (bool \<times> 'v) option" where
  "TryLock attempt clock sleep rl v =
     (let o' = rl_opts rl
      in try_loop attempt clock sleep o' (if WaitTimeout o' > 0 then clock v + WaitTimeout o' else zero_time) v)"

subsection \<open>What the lock relies on\<close>

definition live :: "('w \<Rightarrow> string \<Rightarrow> (string \<times> instant) option) \<Rightarrow> string \<Rightarrow> instant \<Rightarrow> 'w \<Rightarrow> string option" where
  "live view key now w =
     (case view w key of None \<Rightarrow> None | Some (v, e) \<Rightarrow> if now < e then Some v else None)"

definition lock_contract :: "'w redis_cmds \<Rightarrow> ('w \<Rightarrow> string \<Rightarrow> (string \<times> instant) option) \<Rightarrow> bool" where
  "lock_contract r view \<longleftrightarrow>
     (\<forall>key now w. rc_get r key now w = live view key now w) \<and>
     (\<forall>key v ms now w. view (rc_set_px r key v ms now w) = (view w)(key \<mapsto> (v, now + ms * millisecond))) \<and>
     (\<forall>key v ms now w.
        (if live view key now w = None
         then fst (rc_set_nx_px r key v ms now w) \<and>
              view (snd (rc_set_nx_px r key v ms now w)) = (view w)(key \<mapsto> (v, now + ms * millisecond))
         else \<not> fst (rc_set_nx_px r key v ms now w) \<and> view (snd (rc_set_nx_px r key v ms now w)) = view w)) \<and>
     (\<forall>key now w. live view key now w \<noteq> None \<longrightarrow>
        fst (rc_del r key now w) = 1 \<and> view (snd (rc_del r key now w)) = (view w)(key := None))"

lemma contract_free:
  "lock_contract r view \<Longrightarrow> live view key now w = None \<Longrightarrow>
   fst (rc_set_nx_px r key v ms now w) \<and>
   view (snd (rc_set_nx_px r key v ms now w)) = (view w)(key \<mapsto> (v, now + ms * millisecond))"
  unfolding lock_contract_def by presburger

lemma contract_taken:
  "lock_contract r view \<Longrightarrow> live view key now w \<noteq> None \<Longrightarrow>
   \<not> fst (rc_set_nx_px r key v ms now w) \<and> view (snd (rc_set_nx_px r key v ms now w)) = view w"
  unfolding lock_contract_def by presburger

lemma contract_get: "lock_contract r view \<Longrightarrow> rc_get r key now w = live view key now w"
  by (simp add: lock_contract_def)

lemma contract_set:
  "lock_contract r view \<Longrightarrow> view (rc_set_px r key v ms now w) = (view w)(key \<mapsto> (v, now + ms * millisecond))"
  by (simp add: lock_contract_def)

lemma contract_del:
  "lock_contract r view \<Longrightarrow> live view key now w \<noteq> None \<Longrightarrow>
   fst (rc_del r key now w) = 1 \<and> view (snd (rc_del r key now w)) = (view w)(key := None)"
  by (simp add: lock_contract_def)

text \<open>The effect of the two scripts on the key.\<close>

lemma lockCommand_effect:
  assumes "lock_contract r view"
  shows "fst (lockCommand r key ident ms now w) \<longleftrightarrow> live view key now w \<in> {None, Some ident}"
    and "view (snd (lockCommand r key ident ms now w)) =
      (if live view key now w \<in> {None, Some ident} then (view w)(key \<mapsto> (ident, now + ms * millisecond)) else view w)"
proof -
  have "fst (lockCommand r key ident ms now w) = (live view key now w \<in> {None, Some ident}) \<and>
      view (snd (lockCommand r key ident ms now w)) =
        (if live view key now w \<in> {None, Some ident} then (view w)(key \<mapsto> (ident, now + ms * millisecond)) else view w)"
  proof (cases "live view key now w = None")
    case True
    then show ?thesis using contract_free [OF assms True, of ident ms]
      by (simp add: lockCommand_def contract_get [OF assms])
  next
    case False
    then show ?thesis using contract_taken [OF assms False, of ident ms]
      by (simp add: lockCommand_def contract_get [OF assms] contract_set [OF assms])
  qed
  then show "fst (lockCommand r key ident ms now w) \<longleftrightarrow> live view key now w \<in> {None, Some ident}"
    and "view (snd (lockCommand r key ident ms now w)) =
      (if live view key now w \<in> {None, Some ident} then (view w)(key \<mapsto> (ident, now + ms * millisecond)) else view w)"
    by blast+
qed

lemma delCommand_effect:
  assumes "lock_contract r view"
  shows "fst (delCommand r key ident now w) = (if live view key now w = Some ident then 1 else 0)"
    and "view (snd (delCommand r key ident now w)) =
      (if live view key now w = Some ident then (view w)(key := None) else view w)"
  using contract_del [OF assms, of key now w] by (simp_all add: delCommand_def contract_get [OF assms])


subsection \<open>Runs of several clients\<close>

text \<open>
  A call of a client: its lock object, the time at the server, whether it locks, what the network
  does.  The result is what the call returns first.
\<close>

record lock_call =
  lc_lock :: RedisLock
  lc_time :: instant
  lc_acquire :: bool
  lc_net :: net

definition run_call :: "'w redis_cmds \<Rightarrow> lock_call \<Rightarrow> 'w \<Rightarrow> bool \<times> 'w" where
  "run_call r c w =
     (let ((ok, err), w1) = (if lc_acquire c then Lock r (lc_lock c) (lc_net c) (lc_time c) w
                             else UnLock r (lc_lock c) (lc_net c) (lc_time c) w)
      in (ok, w1))"

fun run_calls :: "'w redis_cmds \<Rightarrow> lock_call list \<Rightarrow> 'w \<Rightarrow> bool list \<times> 'w" where
  "run_calls r [] w = ([], w)"
| "run_calls r (c # cs) w =
     (let (b, w1) = run_call r c w; (bs, w2) = run_calls r cs w1 in (b # bs, w2))"

text \<open>
  The calls use one key, the clock of the server does not go back, and different lock objects have
  different random identifiers.
\<close>

definition calls_ok :: "string \<Rightarrow> lock_call list \<Rightarrow> bool" where
  "calls_ok key cs \<longleftrightarrow> sorted (map lc_time cs) \<and>
     (\<forall>c \<in> set cs. rl_key (lc_lock c) = key) \<and>
     (\<forall>c \<in> set cs. \<forall>d \<in> set cs. rl_id (lc_lock c) = rl_id (lc_lock d) \<longrightarrow> lc_lock c = lc_lock d)"

definition lease_end :: "lock_call \<Rightarrow> instant" where
  "lease_end c = lc_time c + lease_ms (lc_lock c) * millisecond"

text \<open>The identifier holds the key at least until an instant.\<close>

definition held_until :: "('w \<Rightarrow> string \<Rightarrow> (string \<times> instant) option) \<Rightarrow> string \<Rightarrow> string \<Rightarrow> instant \<Rightarrow> 'w \<Rightarrow> bool" where
  "held_until view key ident e w \<longleftrightarrow> (\<exists>e'. e \<le> e' \<and> view w key = Some (ident, e'))"

lemma held_live: "held_until view key ident e w \<Longrightarrow> now < e \<Longrightarrow> live view key now w = Some ident"
  by (auto simp: held_until_def live_def)

lemma acquired_holds:
  assumes "lock_contract r view" and "lc_acquire c" and "run_call r c w = (True, w1)" and "rl_key (lc_lock c) = key"
  shows "held_until view key (rl_id (lc_lock c)) (lease_end c) w1 \<and> live view key (lc_time c) w \<in> {None, Some (rl_id (lc_lock c))}"
proof (cases "lc_net c")
  case Delivered
  let ?L = "lockCommand r key (rl_id (lc_lock c)) (lease_ms (lc_lock c)) (lc_time c) w"
  have l: "fst ?L" "w1 = snd ?L"
    using assms(2-4) Delivered by (auto simp: run_call_def Lock_def split: prod.splits)
  then have f: "live view key (lc_time c) w \<in> {None, Some (rl_id (lc_lock c))}"
    using lockCommand_effect(1) [OF assms(1)] by blast
  then have "view w1 key = Some (rl_id (lc_lock c), lease_end c)"
    unfolding l(2) lockCommand_effect(2) [OF assms(1)] by (simp add: lease_end_def)
  then show ?thesis using f by (auto simp: held_until_def)
qed (use assms in \<open>auto simp: run_call_def Lock_def split: prod.splits\<close>)

text \<open>A call before the end of the lease, other than an unlock of the holder, keeps it.\<close>

lemma call_keeps:
  assumes "lock_contract r view" and "held_until view key ident e w" and "run_call r c w = (b, w1)"
    and "rl_key (lc_lock c) = key" and "lc_time c < e"
    and "\<not> (\<not> lc_acquire c \<and> rl_id (lc_lock c) = ident)"
    and "lc_acquire c \<Longrightarrow> rl_id (lc_lock c) = ident \<Longrightarrow> e \<le> lease_end c"
  shows "held_until view key ident e w1"
proof -
  note hl = held_live [OF assms(2,5)]
  have L: "held_until view key ident e (snd (lockCommand r key (rl_id (lc_lock c)) (lease_ms (lc_lock c)) (lc_time c) w))"
    if "lc_acquire c"
    using assms(2) assms(7) [OF that] unfolding held_until_def lockCommand_effect(2) [OF assms(1)] hl
    by (auto simp: lease_end_def)
  have D: "view (snd (delCommand r key (rl_id (lc_lock c)) (lc_time c) w)) = view w" if "\<not> lc_acquire c"
    using assms(6) that unfolding delCommand_effect(2) [OF assms(1)] hl by auto
  show ?thesis using assms(2-4) L D
    by (cases "lc_net c") (auto simp: run_call_def Lock_def UnLock_def held_until_def Let_def split: if_splits prod.splits)
qed

lemma run_calls_append:
  "run_calls r (cs @ ds) w =
     (let (bs, w1) = run_calls r cs w; (es, w2) = run_calls r ds w1 in (bs @ es, w2))"
  by (induction cs arbitrary: w) (auto split: prod.splits)

lemma run_calls_length: "length (fst (run_calls r cs w)) = length cs"
proof (induction cs arbitrary: w)
  case (Cons c cs)
  then show ?case using Cons [of "snd (run_call r c w)"] by (simp add: case_prod_unfold Let_def)
qed simp


lemma calls_keep:
  assumes "lock_contract r view"
  shows "run_calls r cs w = (bs, w1) \<Longrightarrow> held_until view key ident e w \<Longrightarrow>
    (\<And>u. u \<in> set cs \<Longrightarrow> rl_key (lc_lock u) = key \<and> lc_time u < e \<and>
       \<not> (\<not> lc_acquire u \<and> rl_id (lc_lock u) = ident) \<and>
       (lc_acquire u \<longrightarrow> rl_id (lc_lock u) = ident \<longrightarrow> e \<le> lease_end u)) \<Longrightarrow>
    held_until view key ident e w1"
proof (induction cs arbitrary: w bs)
  case (Cons c cs)
  obtain b w2 where c: "run_call r c w = (b, w2)" by (metis surj_pair)
  obtain bs' where r: "run_calls r cs w2 = (bs', w1)" using Cons.prems(1) c by (auto split: prod.splits)
  have "held_until view key ident e w2"
    using call_keeps [OF assms Cons.prems(2) c] Cons.prems(3) [of c] by simp
  then show ?case using Cons.IH [OF r] Cons.prems(3) by simp
qed simp

text \<open>The loop of \<^verbatim>\<open>TryLock\<close> ends: every round brings the clock closer to the end of the wait.\<close>

lemma try_loop_returns:
  fixes v :: 'v
  assumes "\<forall>v :: 'v. (clock v :: int) \<le> clock (snd (attempt v))"
    and "\<forall>v. clock v < clock (sleep (WaitRetry oo) v)"
  shows "\<exists>b v'. try_loop attempt clock sleep oo stop v = Some (b, v') \<and>
      (b \<longrightarrow> (\<exists>u. attempt u = ((True, False), v')))"
proof (induction "nat (stop - WaitRetry oo - clock v + 1)" arbitrary: v rule: less_induct)
  case less
  obtain ok err v1 where a: "attempt v = ((ok, err), v1)" by (metis surj_pair)
  have c1: "clock v \<le> clock v1" using assms(1) [rule_format, of v] a by simp
  have c2: "clock v1 < clock (sleep (WaitRetry oo) v1)" using assms(2) by blast
  have ih: "\<exists>b v'. try_loop attempt clock sleep oo stop (sleep (WaitRetry oo) v1) = Some (b, v') \<and>
      (b \<longrightarrow> (\<exists>u. attempt u = ((True, False), v')))" if n: "\<not> stop < clock v1 + WaitRetry oo"
  proof (rule less)
    show "nat (stop - WaitRetry oo - clock (sleep (WaitRetry oo) v1) + 1) < nat (stop - WaitRetry oo - clock v + 1)"
      using c1 c2 n by linarith
  qed
  have e: "try_loop attempt clock sleep oo stop v =
      (if \<not> err \<and> ok then Some (True, v1)
       else if WaitTimeout oo = 0 then Some (False, v1)
       else if clock v1 + WaitRetry oo > stop then Some (False, v1)
       else try_loop attempt clock sleep oo stop (sleep (WaitRetry oo) v1))"
    using a by (subst try_loop.simps) simp
  show ?case
  proof (cases "\<not> err \<and> ok")
    case True
    then have "try_loop attempt clock sleep oo stop v = Some (True, v1)" using e by simp
    moreover have "attempt v = ((True, False), v1)" using a True by simp
    ultimately show ?thesis by metis
  next
    case f: False
    show ?thesis
    proof (cases "WaitTimeout oo = 0 \<or> stop < clock v1 + WaitRetry oo")
      case True
      then have "try_loop attempt clock sleep oo stop v = Some (False, v1)" using e f by (simp split: if_splits)
      then show ?thesis by auto
    next
      case False
      with e f have "try_loop attempt clock sleep oo stop v =
          try_loop attempt clock sleep oo stop (sleep (WaitRetry oo) v1)" by (simp only: if_False de_Morgan_disj simp_thms)
      then show ?thesis using ih False by simp
    qed
  qed
qed

subsection \<open>Properties\<close>

text \<open>
  C15. Mutual exclusion for the length of a lease.  In every sequence of calls on one key (any number
  of clients with different identifiers, requests and replies lost at any point), if a client has been
  told that it holds the lock and another one is told so before the first lease has ended, then the
  first client called \<^verbatim>\<open>UnLock\<close> in between.
\<close>

theorem lock_mutual_exclusion:
  assumes "lock_contract r view" and "calls_ok key (pre @ c # mid @ d # post)"
    and "run_calls r (pre @ c # mid @ d # post) w = (bs, w')"
    and "lc_acquire c" and "bs ! length pre" and "lc_acquire d" and "bs ! (length pre + 1 + length mid)"
    and "rl_id (lc_lock d) \<noteq> rl_id (lc_lock c)" and "lc_time d < lease_end c"
  shows "\<exists>u \<in> set mid. \<not> lc_acquire u \<and> lc_lock u = lc_lock c"
proof (rule ccontr)
  assume no: "\<not> ?thesis"
  obtain b0 w0 where p: "run_calls r pre w = (b0, w0)" by (metis surj_pair)
  obtain x w1 where c: "run_call r c w0 = (x, w1)" by (metis surj_pair)
  obtain b1 w2 where m: "run_calls r mid w1 = (b1, w2)" by (metis surj_pair)
  obtain y w3 where d: "run_call r d w2 = (y, w3)" by (metis surj_pair)
  have len: "length b0 = length pre" "length b1 = length mid"
    using run_calls_length [of r pre w] run_calls_length [of r mid w1] p m by simp_all
  obtain b2 where "bs = b0 @ x # b1 @ y # b2"
    using assms(3) p c m d by (auto simp: run_calls_append split: prod.splits)
  then have xy: "x" "y" using assms(5,7) len by (simp_all add: nth_append)
  have k: "rl_key (lc_lock c) = key" "rl_key (lc_lock d) = key" using assms(2) by (simp_all add: calls_ok_def)
  have h: "held_until view key (rl_id (lc_lock c)) (lease_end c) w1"
    using acquired_holds [OF assms(1,4) _ k(1)] c xy(1) by simp
  have "rl_key (lc_lock u) = key \<and> lc_time u < lease_end c \<and>
       \<not> (\<not> lc_acquire u \<and> rl_id (lc_lock u) = rl_id (lc_lock c)) \<and>
       (lc_acquire u \<longrightarrow> rl_id (lc_lock u) = rl_id (lc_lock c) \<longrightarrow> lease_end c \<le> lease_end u)"
    if "u \<in> set mid" for u
  proof -
    have t: "lc_time c \<le> lc_time u" "lc_time u \<le> lc_time d" "rl_key (lc_lock u) = key"
      "rl_id (lc_lock u) = rl_id (lc_lock c) \<Longrightarrow> lc_lock u = lc_lock c"
      using assms(2) that by (auto simp: calls_ok_def sorted_append)
    then show ?thesis using no that assms(9) by (auto simp: lease_end_def)
  qed
  then have "held_until view key (rl_id (lc_lock c)) (lease_end c) w2" by (rule calls_keep [OF assms(1) m h])
  from held_live [OF this assms(9)] have "live view key (lc_time d) w2 = Some (rl_id (lc_lock c))" .
  then show False using acquired_holds [OF assms(1,6) _ k(2)] d xy(2) assms(8) by force
qed

text \<open>A server with the documented behaviour.\<close>

definition demo_redis :: "(string \<Rightarrow> (string \<times> instant) option) redis_cmds" where
  "demo_redis = \<lparr>rc_get = (\<lambda>k now w. live (\<lambda>w. w) k now w),
     rc_set_px = (\<lambda>k v ms now w. w(k \<mapsto> (v, now + ms * millisecond))),
     rc_set_nx_px = (\<lambda>k v ms now w. if live (\<lambda>w. w) k now w = None
       then (True, w(k \<mapsto> (v, now + ms * millisecond))) else (False, w)),
     rc_del = (\<lambda>k now w. (if live (\<lambda>w. w) k now w = None then 0 else 1, w(k := None))), rc_nil_error = True\<rparr>"

lemma demo_redis_contract: "lock_contract demo_redis (\<lambda>w. w)"
  by (auto simp: lock_contract_def demo_redis_def)

definition demo_lock :: "string \<Rightarrow> RedisLock" where
  "demo_lock ident = \<lparr>rl_key = ''job'', rl_id = ident, rl_opts = lock_defaults None\<rparr>"

definition demo_call :: "string \<Rightarrow> instant \<Rightarrow> bool \<Rightarrow> lock_call" where
  "demo_call ident t a = \<lparr>lc_lock = demo_lock ident, lc_time = t, lc_acquire = a, lc_net = Delivered\<rparr>"

lemmas demo_call_defs = demo_call_def demo_lock_def lock_defaults_def lease_ms_def lease_end_def millisecond_def

theorem lock_mutual_exclusion_witness:
  "fst (run_calls demo_redis ([] @ demo_call ''a'' 0 True # [demo_call ''a'' 5 False] @ demo_call ''b'' 9 True # []) (\<lambda>_. None))
     = [True, True, True] \<and>
   (\<exists>u \<in> set [demo_call ''a'' 5 False]. \<not> lc_acquire u \<and> lc_lock u = lc_lock (demo_call ''a'' 0 True))"
proof -
  let ?cs = "[] @ demo_call ''a'' 0 True # [demo_call ''a'' 5 False] @ demo_call ''b'' 9 True # []"
  have r: "fst (run_calls demo_redis ?cs (\<lambda>_. None)) = [True, True, True]"
    by (simp add: run_call_def Lock_def UnLock_def lockCommand_def delCommand_def demo_redis_def live_def demo_call_defs)
  obtain w' where w: "run_calls demo_redis ?cs (\<lambda>_. None) = ([True, True, True], w')" using r by (metis prod.collapse)
  have ok: "calls_ok ''job'' ?cs" by (auto simp: calls_ok_def demo_call_defs)
  have "\<exists>u \<in> set [demo_call ''a'' 5 False]. \<not> lc_acquire u \<and> lc_lock u = lc_lock (demo_call ''a'' 0 True)"
    by (rule lock_mutual_exclusion [OF demo_redis_contract ok w]) (simp_all add: demo_call_defs)
  with r show ?thesis by blast
qed



end
