(* ===== verification/Timer.thy ===== *)
theory Timer
  imports GoBase
begin

text \<open>
  The interval timers (\<^verbatim>\<open>src/pkg/timer/timer.go\<close>) and the Redis limit that is to make a timer run on
  one instance only (\<^verbatim>\<open>src/pkg/timer/uniquer/go_redis.go\<close>).  The global variables are the record
  \<open>timers\<close>; the timer map is an association list whose order stands for the order of \<^verbatim>\<open>range\<close>, hence is
  arbitrary; every function takes the time it reads.  The mutex makes each function atomic.  Firing a
  timer starts a goroutine; the model records which timers an iteration fires.  The theory shows the
  invariant of the unique keys, which timers an iteration fires, that a timer can silence the others,
  and that the limit excludes nobody.
\<close>

subsection \<open>State\<close>

record ExtendParams =
  ep_UniqueKey :: string
  ep_Params :: "(string \<times> string) list"

record timerStr =
  ti_Callback :: nat
  ti_BeginTime :: instant
  ti_NextTime :: instant
  ti_SpaceTime :: duration
  ti_UniqueKey :: string
  ti_TimerType :: string
  ti_Extend :: ExtendParams

record timers =
  timerMap :: "(int \<times> timerStr) list"
  timerCount :: int
  nextTime :: instant
  timerUnique :: bool

definition initial_timers :: "instant \<Rightarrow> timers" where
  "initial_timers now = \<lparr>timerMap = [], timerCount = 0, nextTime = now, timerUnique = False\<rparr>"

definition InitTimer :: "bool \<Rightarrow> timers \<Rightarrow> timers" where
  "InitTimer uni s = s\<lparr>timerUnique := uni\<rparr>"

definition AddTimer :: "duration \<Rightarrow> nat \<Rightarrow> ExtendParams \<Rightarrow> instant \<Rightarrow> timers \<Rightarrow> (string + int) \<times> timers" where
  "AddTimer space call ext nowTime s =
     (if ep_UniqueKey ext \<noteq> '''' \<and> \<not> timerUnique s then (Inl ''no unique limit'', s)
      else if ep_UniqueKey ext \<noteq> '''' \<and>
              (\<exists>kv \<in> set (timerMap s). ti_UniqueKey (snd kv) = ep_UniqueKey ext)
      then (Inl ''uniqueKey used'', s)
      else
        (let n = wrap64 (timerCount s + 1);
             t = \<lparr>ti_Callback = call, ti_BeginTime = nowTime, ti_NextTime = nowTime,
                  ti_SpaceTime = space, ti_UniqueKey = ep_UniqueKey ext,
                  ti_TimerType = (if ep_UniqueKey ext \<noteq> '''' then ''unique'' else ''default''),
                  ti_Extend = ext\<rparr>
         in (Inr n, s\<lparr>timerCount := n, timerMap := filter (\<lambda>kv. fst kv \<noteq> n) (timerMap s) @ [(n, t)],
                     nextTime := (if ti_NextTime t < nextTime s then ti_NextTime t else nextTime s)\<rparr>)))"

definition AddToTimer :: "duration \<Rightarrow> nat \<Rightarrow> instant \<Rightarrow> timers \<Rightarrow> int \<times> timers" where
  "AddToTimer space call nowTime s =
     (let (r, s1) = AddTimer space call \<lparr>ep_UniqueKey = '''', ep_Params = []\<rparr> nowTime s
      in (case r of Inl e \<Rightarrow> 0 | Inr n \<Rightarrow> n, s1))"

definition AddUniqueTimer :: "duration \<Rightarrow> nat \<Rightarrow> string \<Rightarrow> instant \<Rightarrow> timers \<Rightarrow> (string + int) \<times> timers" where
  "AddUniqueTimer space call key nowTime s =
     AddTimer space call \<lparr>ep_UniqueKey = key, ep_Params = []\<rparr> nowTime s"

definition DelToTimer :: "int \<Rightarrow> timers \<Rightarrow> timers" where
  "DelToTimer index s = s\<lparr>timerMap := filter (\<lambda>kv. fst kv \<noteq> index) (timerMap s)\<rparr>"

subsection \<open>Iteration\<close>

text \<open>The next time of a timer that is due.\<close>

definition advance :: "instant \<Rightarrow> timerStr \<Rightarrow> instant" where
  "advance nowTime v =
     (let n = ti_NextTime v + ti_SpaceTime v
      in if n < nowTime then nowTime + ti_SpaceTime v else n)"

definition due :: "instant \<Rightarrow> timerStr \<Rightarrow> bool" where
  "due nowTime v \<longleftrightarrow> ti_NextTime v < nowTime"

text \<open>
  The loop over the map: \<open>first\<close> tells whether this is the first element, \<open>nn\<close> is \<^verbatim>\<open>newNextTime\<close>.  The
  result has the indices of the timers fired.
\<close>

fun iterate :: "instant \<Rightarrow> bool \<Rightarrow> instant \<Rightarrow> (int \<times> timerStr) list \<Rightarrow>
    (int \<times> timerStr) list \<times> instant \<times> int list" where
  "iterate nowTime first nn [] = ([], nn, [])"
| "iterate nowTime first nn ((k, v) # kvs) =
     (if due nowTime v then
        (let n = advance nowTime v;
             nn1 = (if first then n else nn);
             nn2 = (if n < nn1 then n else nn1);
             (kvs', nn', fired) = iterate nowTime False nn2 kvs
         in ((k, v\<lparr>ti_NextTime := n\<rparr>) # kvs', nn', k # fired))
      else (let (kvs', nn', fired) = iterate nowTime False nn kvs in ((k, v) # kvs', nn', fired)))"

definition iteratorTimer :: "instant \<Rightarrow> timers \<Rightarrow> int list \<times> timers" where
  "iteratorTimer nowTime s =
     (let (kvs, newNextTime, fired) = iterate nowTime True (nowTime + 5 * second) (timerMap s);
          s1 = s\<lparr>timerMap := kvs\<rparr>
      in (fired,
          if nextTime s < newNextTime
          then s1\<lparr>nextTime := (if newNextTime < nowTime then nowTime else newNextTime)\<rparr>
          else s1))"

text \<open>One tick of the loop in \<^verbatim>\<open>InitTimer\<close>.\<close>

definition tick :: "instant \<Rightarrow> timers \<Rightarrow> int list \<times> timers" where
  "tick t s = (if t < nextTime s then ([], s) else iteratorTimer t s)"

fun ticks :: "instant list \<Rightarrow> timers \<Rightarrow> int list \<times> timers" where
  "ticks [] s = ([], s)"
| "ticks (t # ts) s = (let (f, s1) = tick t s; (fs, s2) = ticks ts s1 in (f @ fs, s2))"

text \<open>
  The goroutine of a fired timer: \<open>busy\<close> is the token in \<^verbatim>\<open>CanRunning\<close>; a timer whose previous run has not
  ended is skipped.
\<close>

definition try_start :: "bool \<Rightarrow> bool \<times> bool" where
  \<comment> \<open>whether the action runs, and the token afterwards\<close>
  "try_start busy = (\<not> busy, True)"

subsection \<open>The unique limit (\<^verbatim>\<open>go_redis.go\<close>) and the action\<close>

datatype tx_cmd = TxDel string | TxExpire string duration

record 'w uniq_redis =
  uq_setnx :: "string \<Rightarrow> string \<Rightarrow> duration \<Rightarrow> 'w \<Rightarrow> (string + bool) \<times> 'w"
  uq_watch :: "string \<Rightarrow> 'w \<Rightarrow> string option"
  uq_get_val :: "string \<Rightarrow> 'w \<Rightarrow> string"
  uq_tx :: "tx_cmd \<Rightarrow> 'w \<Rightarrow> string option \<times> 'w"

definition expireSecond :: duration where
  "expireSecond = 15 * second"

definition SetLimit :: "'w uniq_redis \<Rightarrow> string \<Rightarrow> string \<Rightarrow> 'w \<Rightarrow> string option \<times> 'w" where
  "SetLimit r key val w =
     (let (res, w1) = uq_setnx r key val expireSecond w
      in (case res of Inl e \<Rightarrow> Some e | Inr b \<Rightarrow> None, w1))"

definition watched :: "'w uniq_redis \<Rightarrow> string \<Rightarrow> string \<Rightarrow> tx_cmd \<Rightarrow> 'w \<Rightarrow> string option \<times> 'w" where
  "watched r key val c w =
     (case uq_watch r key w of
        Some e \<Rightarrow> (Some e, w)
      | None \<Rightarrow> if uq_get_val r key w \<noteq> val then (Some ''value differs'', w) else uq_tx r c w)"

definition DeleteLimit :: "'w uniq_redis \<Rightarrow> string \<Rightarrow> string \<Rightarrow> 'w \<Rightarrow> string option \<times> 'w" where
  "DeleteLimit r key val w = watched r key val (TxDel key) w"

definition RefreshLimit :: "'w uniq_redis \<Rightarrow> string \<Rightarrow> string \<Rightarrow> 'w \<Rightarrow> string option \<times> 'w" where
  "RefreshLimit r key val w = watched r key val (TxExpire key expireSecond) w"

datatype cb_outcome = Returns bool | Panics

text \<open>\<^verbatim>\<open>timerAction\<close>: whether the callback is called, and the result; a panic is recovered.\<close>

definition timerAction ::
    "'w uniq_redis \<Rightarrow> cb_outcome \<Rightarrow> string \<Rightarrow> string \<Rightarrow> instant \<Rightarrow> 'w \<Rightarrow> (bool \<times> bool) \<times> 'w" where
  "timerAction r call timerType uniqueKey now w =
     (let run = (True, (case call of Returns b \<Rightarrow> b | Panics \<Rightarrow> False))
      in if timerType = ''unique''
         then (let (err, w1) = SetLimit r uniqueKey (format_int now) w
               in if err \<noteq> None then ((False, False), w1) else (run, w1))
         else (run, w))"

subsection \<open>Lemmas\<close>

lemma iterate_fired: "iterate t f nn kvs = (kvs', nn', fired) \<Longrightarrow> fired = map fst (filter (\<lambda>kv. due t (snd kv)) kvs)"
  by (induction t f nn kvs arbitrary: kvs' nn' fired rule: iterate.induct) (auto simp: Let_def split: prod.splits if_splits)

lemma iterate_map:
  "iterate t f nn kvs = (kvs', nn', fired) \<Longrightarrow>
   kvs' = map (\<lambda>(k, v). (k, if due t v then v\<lparr>ti_NextTime := advance t v\<rparr> else v)) kvs"
  by (induction t f nn kvs arbitrary: kvs' nn' fired rule: iterate.induct) (auto simp: Let_def split: prod.splits if_splits)

lemma iterate_none: "\<forall>kv \<in> set kvs. \<not> due t (snd kv) \<Longrightarrow> iterate t f nn kvs = (kvs, nn, [])"
  by (induction kvs arbitrary: f) (auto split: prod.splits)

text \<open>The new next time is the least one of the fired timers, bounded by the start value.\<close>

lemma iterate_next_le:
  "iterate t f nn kvs = (kvs', nn', fired) \<Longrightarrow>
   (\<forall>kv \<in> set kvs. due t (snd kv) \<longrightarrow> nn' \<le> advance t (snd kv)) \<and> (\<not> f \<longrightarrow> nn' \<le> nn)"
proof (induction t f nn kvs arbitrary: kvs' nn' fired rule: iterate.induct)
  case (2 t f nn k v kvs)
  show ?case
  proof (cases "due t v")
    case True
    let ?nn1 = "if f then advance t v else nn"
    let ?nn2 = "if advance t v < ?nn1 then advance t v else ?nn1"
    obtain a b c where r: "iterate t False ?nn2 kvs = (a, b, c)" by (metis prod_cases3)
    have e: "nn' = b" using 2(3) True r by (simp add: Let_def)
    have "(\<forall>kv \<in> set kvs. due t (snd kv) \<longrightarrow> b \<le> advance t (snd kv)) \<and> b \<le> ?nn2"
      using 2(1) [OF True refl refl refl r] by simp
    then show ?thesis using e by (auto split: if_splits)
  next
    case False
    obtain a b c where r: "iterate t False nn kvs = (a, b, c)" by (metis prod_cases3)
    have e: "nn' = b" using 2(3) False r by simp
    have "(\<forall>kv \<in> set kvs. due t (snd kv) \<longrightarrow> b \<le> advance t (snd kv)) \<and> b \<le> nn"
      using 2(2) [OF False r] by simp
    then show ?thesis using e False by auto
  qed
qed simp

lemma advance_later: "due t v \<Longrightarrow> 0 \<le> ti_SpaceTime v \<Longrightarrow> t \<le> advance t v"
  by (auto simp: advance_def Let_def)

lemma ticks_before: "\<forall>t \<in> set ts. t < nextTime s \<Longrightarrow> ticks ts s = ([], s)"
  by (induction ts) (simp_all add: tick_def)

subsection \<open>Refreshing the limit while the callback runs\<close>

text \<open>
  The goroutine that keeps the limit alive: every tick of its ticker refreshes the key (an error is only
  printed), the end of the callback deletes it.  \<open>False\<close> stands for a tick and \<open>True\<close> for the end.
\<close>

fun refresh_loop :: "'w uniq_redis \<Rightarrow> string \<Rightarrow> string \<Rightarrow> bool list \<Rightarrow> 'w \<Rightarrow> 'w" where
  "refresh_loop r key val [] w = w"
| "refresh_loop r key val (False # es) w = refresh_loop r key val es (snd (RefreshLimit r key val w))"
| "refresh_loop r key val (True # es) w = snd (DeleteLimit r key val w)"

subsection \<open>Properties\<close>

definition unique_keys :: "timers \<Rightarrow> string list" where
  "unique_keys s = filter (\<lambda>k. k \<noteq> '''') (map (\<lambda>kv. ti_UniqueKey (snd kv)) (timerMap s))"

datatype timer_call =
    CAdd duration nat ExtendParams instant
  | CDel int
  | CTick instant

fun call_timers :: "timer_call \<Rightarrow> timers \<Rightarrow> timers" where
  "call_timers (CAdd space call ext now) s = snd (AddTimer space call ext now s)"
| "call_timers (CDel i) s = DelToTimer i s"
| "call_timers (CTick t) s = snd (tick t s)"

lemma distinct_filter_map_filter:
  "distinct (filter P (map f xs)) \<Longrightarrow> distinct (filter P (map f (filter Q xs)))"
  by (induction xs) auto

lemma iterate_unique_keys:
  "iterate t f nn kvs = (kvs', nn', fired) \<Longrightarrow>
   map (\<lambda>kv. ti_UniqueKey (snd kv)) kvs' = map (\<lambda>kv. ti_UniqueKey (snd kv)) kvs"
  by (drule iterate_map) auto

lemma iteratorTimer_map: "iterate t True (t + 5 * second) (timerMap s) = (kvs, nn, fired) \<Longrightarrow>
   timerMap (snd (iteratorTimer t s)) = kvs \<and> fst (iteratorTimer t s) = fired \<and>
   timerUnique (snd (iteratorTimer t s)) = timerUnique s"
  by (simp add: iteratorTimer_def Let_def)

lemma tick_unique_keys: "unique_keys (snd (tick t s)) = unique_keys s"
proof (cases "t < nextTime s")
  case False
  obtain kvs nn fired where it: "iterate t True (t + 5 * second) (timerMap s) = (kvs, nn, fired)"
    by (metis prod_cases3)
  show ?thesis
    using iterate_unique_keys [OF it] iteratorTimer_map [OF it] False
    by (simp add: tick_def unique_keys_def)
qed (simp add: tick_def)

lemma AddTimer_unique_keys:
  assumes "distinct (unique_keys s)"
  shows "distinct (unique_keys (snd (AddTimer space call ext now s)))"
proof -
  let ?k = "\<lambda>kv :: int \<times> timerStr. ti_UniqueKey (snd kv)"
  let ?ks = "filter (\<lambda>k. k \<noteq> '''') (map ?k (filter (\<lambda>kv. fst kv \<noteq> wrap64 (timerCount s + 1)) (timerMap s)))"
  have d: "distinct ?ks"
    using assms unfolding unique_keys_def by (rule distinct_filter_map_filter)
  have sub: "set ?ks \<subseteq> ?k ` set (timerMap s)" by auto
  consider (refused) "snd (AddTimer space call ext now s) = s"
    | (added) "unique_keys (snd (AddTimer space call ext now s)) =
                 ?ks @ (if ep_UniqueKey ext = '''' then [] else [ep_UniqueKey ext])"
        "ep_UniqueKey ext \<noteq> '''' \<longrightarrow> ep_UniqueKey ext \<notin> ?k ` set (timerMap s)"
  proof (cases "ep_UniqueKey ext = ''''")
    case True
    then show thesis by (intro that(2)) (simp_all add: AddTimer_def unique_keys_def Let_def)
  next
    case False
    show thesis
    proof (cases "timerUnique s \<and> ep_UniqueKey ext \<notin> ?k ` set (timerMap s)")
      case True
      then have "\<not> (\<exists>kv \<in> set (timerMap s). ?k kv = ep_UniqueKey ext)" by force
      with False True show thesis
        by (intro that(2)) (simp_all add: AddTimer_def unique_keys_def Let_def)
    next
      assume "\<not> (timerUnique s \<and> ep_UniqueKey ext \<notin> ?k ` set (timerMap s))"
      with False show thesis by (intro that(1)) (force simp: AddTimer_def)
    qed
  qed
  then show ?thesis
    by cases (use assms d sub in auto)
qed

text \<open>
  At every moment no two timers share a non-empty unique key, whatever calls of \<open>AddTimer\<close> and
  \<open>DelToTimer\<close> and whatever ticks have happened since the package was initialised; and a timer with a
  unique key is refused if its key is taken or no limit was configured, which changes nothing.
\<close>

theorem unique_keys_distinct:
  assumes "s = fold call_timers cs (InitTimer u (initial_timers t0))"
    and "ep_UniqueKey ext \<noteq> ''''"
  shows "distinct (unique_keys s) \<and>
    ((\<exists>e. AddTimer space call ext now s = (Inl e, s)) \<longleftrightarrow>
       \<not> timerUnique s \<or> ep_UniqueKey ext \<in> set (unique_keys s))"
proof -
  have "distinct (unique_keys s0) \<Longrightarrow> distinct (unique_keys (fold call_timers cs s0))" for s0
  proof (induction cs arbitrary: s0)
    case (Cons c cs)
    have "distinct (unique_keys (call_timers c s0))"
      using Cons.prems
      by (cases c) (simp_all add: AddTimer_unique_keys tick_unique_keys,
          simp add: DelToTimer_def unique_keys_def distinct_filter_map_filter)
    then show ?case using Cons.IH by simp
  qed simp
  then have "distinct (unique_keys s)"
    by (simp add: assms(1) initial_timers_def InitTimer_def unique_keys_def)
  moreover have "(\<exists>e. AddTimer space call ext now s = (Inl e, s)) \<longleftrightarrow>
       \<not> timerUnique s \<or> ep_UniqueKey ext \<in> set (unique_keys s)"
    using assms(2) by (auto simp: AddTimer_def unique_keys_def Let_def intro: rev_image_eqI)
  ultimately show ?thesis ..
qed

definition key_a :: ExtendParams where
  "key_a = \<lparr>ep_UniqueKey = ''a'', ep_Params = []\<rparr>"

lemma unique_keys_distinct_witness:
  "\<exists>e. AddTimer 5 2 key_a 13 (fold call_timers [CAdd 5 0 key_a 10, CTick 11, CAdd 5 1 key_a 12]
     (InitTimer True (initial_timers 0))) =
     (Inl e, fold call_timers [CAdd 5 0 key_a 10, CTick 11, CAdd 5 1 key_a 12]
     (InitTimer True (initial_timers 0)))"
  by (rule iffD2 [OF conjunct2 [OF unique_keys_distinct [OF refl]]])
     (simp_all add: key_a_def unique_keys_def AddTimer_def tick_def iteratorTimer_def due_def
        initial_timers_def InitTimer_def wrap64_def Let_def advance_def go_time)

text \<open>
  One tick at or after the next time fires exactly the timers that were due, each once, in the order
  of the map; it moves only those timers, to a time that is not in the past if the interval is not
  negative, and it leaves the other fields of every timer as they are.  If it moves the next time at all, then to
  a time no later than the next time of every fired timer.
\<close>

theorem tick_fires_due:
  assumes "nextTime s \<le> t"
  shows "fst (tick t s) = map fst (filter (\<lambda>kv. due t (snd kv)) (timerMap s)) \<and>
    timerMap (snd (tick t s)) =
      map (\<lambda>(k, v). (k, if due t v then v\<lparr>ti_NextTime := advance t v\<rparr> else v)) (timerMap s) \<and>
    (\<forall>kv \<in> set (timerMap s). 0 \<le> ti_SpaceTime (snd kv) \<and> due t (snd kv) \<longrightarrow>
       t \<le> advance t (snd kv) \<and> nextTime (snd (tick t s)) \<le> advance t (snd kv))"
proof (intro conjI)
  obtain kvs nn fired where it: "iterate t True (t + 5 * second) (timerMap s) = (kvs, nn, fired)"
    by (metis prod_cases3)
  have e: "tick t s = iteratorTimer t s" using assms by (simp add: tick_def)
  then show "fst (tick t s) = map fst (filter (\<lambda>kv. due t (snd kv)) (timerMap s))"
    using iterate_fired [OF it] iteratorTimer_map [OF it] by simp
  show "timerMap (snd (tick t s)) =
         map (\<lambda>(k, v). (k, if due t v then v\<lparr>ti_NextTime := advance t v\<rparr> else v)) (timerMap s)"
    using iterate_map [OF it] iteratorTimer_map [OF it] by (simp add: e)
  have n: "nextTime (snd (tick t s)) \<le> max t nn"
    using assms by (auto simp: e iteratorTimer_def it Let_def)
  show "\<forall>kv \<in> set (timerMap s). 0 \<le> ti_SpaceTime (snd kv) \<and> due t (snd kv) \<longrightarrow>
           t \<le> advance t (snd kv) \<and> nextTime (snd (tick t s)) \<le> advance t (snd kv)"
    using iterate_next_le [OF it] advance_later n by fastforce
qed

definition timer_at :: "instant \<Rightarrow> duration \<Rightarrow> timerStr" where
  "timer_at t space = \<lparr>ti_Callback = 0, ti_BeginTime = t, ti_NextTime = t, ti_SpaceTime = space,
     ti_UniqueKey = '''', ti_TimerType = ''default'',
     ti_Extend = \<lparr>ep_UniqueKey = '''', ep_Params = []\<rparr>\<rparr>"

definition two_timers :: timers where
  "two_timers = \<lparr>timerMap = [(1, timer_at 0 hour), (2, timer_at 20 millisecond)], timerCount = 2,
     nextTime = 0, timerUnique = False\<rparr>"

lemma tick_fires_due_witness: "fst (tick 10 two_timers) = [1]"
  by (subst conjunct1 [OF tick_fires_due]) (simp_all add: two_timers_def timer_at_def due_def)

text \<open>
  A timer can silence all the others.  If the one timer that is due is the first of the iteration,
  the next time becomes the next time of this timer, however far away it is: the value replaces the
  default of five seconds, and the timers that are not due do not enter the minimum.  Every tick before
  it fires nothing, also when other timers have become due.
\<close>

theorem timer_silenced:
  assumes "timerMap s = (k, a) # rest" and "due t a" and "\<forall>kv \<in> set rest. \<not> due t (snd kv)"
    and "nextTime s \<le> t" and "0 \<le> ti_SpaceTime a"
    and "\<forall>t' \<in> set ts. t' < advance t a"
  shows "nextTime (snd (tick t s)) = advance t a \<and> ticks (t # ts) s = ([k], snd (tick t s))"
proof -
  have it: "iterate t True (t + 5 * second) (timerMap s) =
        ((k, a\<lparr>ti_NextTime := advance t a\<rparr>) # rest, advance t a, [k])"
    using assms(2) by (simp add: assms(1) iterate_none [OF assms(3)] Let_def)
  have e: "tick t s = iteratorTimer t s" using assms(4) by (simp add: tick_def)
  have "t \<le> advance t a" by (rule advance_later [OF assms(2) assms(5)])
  then have n: "nextTime (snd (tick t s)) = advance t a"
    using assms(4) by (auto simp: e iteratorTimer_def it Let_def)
  moreover have "ticks (t # ts) s = ([k], snd (tick t s))"
    using ticks_before [of ts "snd (tick t s)"] assms(6) n iteratorTimer_map [OF it]
    by (cases "iteratorTimer t s") (simp add: e)
  ultimately show ?thesis ..
qed

lemma timer_silenced_witness:
  "fst (ticks [10, 5 * second, minute, 59 * minute] two_timers) = [1]"
  by (subst conjunct2 [OF timer_silenced [of _ 1 "timer_at 0 hour" "[(2, timer_at 20 millisecond)]"]])
     (simp_all add: two_timers_def timer_at_def due_def advance_def go_time)

text \<open>
  The limit excludes nobody: as long as Redis answers, \<open>SetLimit\<close> reports no error whether or not
  the key was free, because the boolean result of \<^verbatim>\<open>SETNX\<close> is not looked at; so the callback of a unique
  timer runs also while another process holds the key, and only an error of Redis prevents it.
\<close>

theorem unique_limit_no_exclusion:
  assumes "uq_setnx r key (format_int now) expireSecond w = (Inr b, w')"
  shows "timerAction r call ''unique'' key now w =
         ((True, (case call of Returns x \<Rightarrow> x | Panics \<Rightarrow> False)), w')"
  using assms by (simp add: timerAction_def SetLimit_def)

text \<open>A Redis that holds one key.\<close>

definition one_key :: "(string \<times> string) option uniq_redis" where
  "one_key = \<lparr>
     uq_setnx = (\<lambda>k v d w. if w = None then (Inr True, Some (k, v)) else (Inr False, w)),
     uq_watch = (\<lambda>k w. None),
     uq_get_val = (\<lambda>k w. case w of Some (k', v) \<Rightarrow> if k = k' then v else '''' | None \<Rightarrow> ''''),
     uq_tx = (\<lambda>c w. case c of TxDel k \<Rightarrow> (None, None) | TxExpire k d \<Rightarrow> (None, w))\<rparr>"

lemma unique_limit_no_exclusion_witness:
  "timerAction one_key (Returns True) ''unique'' ''job'' 7 (Some (''job'', ''5'')) =
     ((True, True), Some (''job'', ''5''))"
  by (subst unique_limit_no_exclusion [where b = False and w' = "Some (''job'', ''5'')"])
     (simp_all add: one_key_def)

end
