(* ===== verification/Bytes.thy ===== *)
theory Bytes
  imports GoBase
begin

unbundle bit_operations_syntax

text \<open>
  Bytes and their text encodings, as the standard library has them: the value of a byte, exclusive or,
  \<^verbatim>\<open>encoding/base64\<close> (\<^verbatim>\<open>StdEncoding\<close> and \<^verbatim>\<open>URLEncoding\<close>) and \<^verbatim>\<open>hex.EncodeToString\<close>.  The theory shows
  that decoding inverts encoding.
\<close>

named_theorems bytes \<open>facts about the value of a byte\<close>

subsection \<open>Bytes\<close>

definition byte :: "char \<Rightarrow> nat" where
  "byte c = of_char c"

definition mk_byte :: "nat \<Rightarrow> char" where
  "mk_byte n = char_of n"

lemma byte_less [simp, bytes]: "byte c < 256"
  by (simp add: byte_def)

lemma mk_byte_byte [simp, bytes]: "mk_byte (byte c) = c"
  by (simp add: byte_def mk_byte_def)

lemma byte_mk_byte [bytes]: "byte (mk_byte n) = n mod 256"
  by (simp add: byte_def mk_byte_def)

lemma byte_eq_iff: "byte c = byte d \<longleftrightarrow> c = d"
  by (simp add: byte_def)

definition xor_byte :: "char \<Rightarrow> char \<Rightarrow> char" where
  "xor_byte c d = mk_byte (byte c XOR byte d)"

lemma xor_byte_cancel [simp]: "xor_byte (xor_byte c d) d = c"
proof -
  have "(byte c XOR byte d) mod 256 = byte c XOR byte d"
  proof -
    have "take_bit 8 (byte c XOR byte d) = take_bit 8 (byte c) XOR take_bit 8 (byte d)" by simp
    then show ?thesis by (simp add: take_bit_eq_mod)
  qed
  then show ?thesis by (simp add: xor_byte_def byte_mk_byte xor.assoc)
qed

definition xor_bytes :: "string \<Rightarrow> string \<Rightarrow> string" where
  "xor_bytes = map2 xor_byte"

lemma xor_bytes_length [simp]: "length (xor_bytes a b) = min (length a) (length b)"
  by (simp add: xor_bytes_def)

lemma xor_bytes_cancel: "length a = length b \<Longrightarrow> xor_bytes (xor_bytes a b) b = a"
  by (induction a b rule: list_induct2) (simp_all add: xor_bytes_def)

subsection \<open>Base 64\<close>

definition std_alphabet :: string where
  "std_alphabet = ''ABCDEFGHIJKLMNOPQRSTUVWXYZabcdefghijklmnopqrstuvwxyz0123456789+/''"

definition url_alphabet :: string where
  "url_alphabet = ''ABCDEFGHIJKLMNOPQRSTUVWXYZabcdefghijklmnopqrstuvwxyz0123456789-_''"

text \<open>Three bytes become four letters; one or two bytes at the end are filled up with \<^verbatim>\<open>=\<close>.\<close>

fun b64_encode :: "string \<Rightarrow> string \<Rightarrow> string" where
  "b64_encode al [] = []"
| "b64_encode al [x] = [al ! (byte x div 4), al ! (byte x mod 4 * 16), CHR ''='', CHR ''='']"
| "b64_encode al [x, y] =
     [al ! (byte x div 4), al ! (byte x mod 4 * 16 + byte y div 16), al ! (byte y mod 16 * 4), CHR ''='']"
| "b64_encode al (x # y # z # s) =
     al ! (byte x div 4) # al ! (byte x mod 4 * 16 + byte y div 16) #
     al ! (byte y mod 16 * 4 + byte z div 64) # al ! (byte z mod 64) # b64_encode al s"

definition letter_val :: "string \<Rightarrow> char \<Rightarrow> nat option" where
  "letter_val al c = (let n = length (takeWhile (\<lambda>d. d \<noteq> c) al) in if n < length al then Some n else None)"

text \<open>
  Decoding, after line breaks have been skipped: the bytes decoded and whether the input was well formed.
  A quantum that is ill formed contributes nothing; input behind the padding is an error that keeps the
  bytes of the quantum.
\<close>

fun b64_quanta :: "string \<Rightarrow> string \<Rightarrow> string \<times> bool" where
  "b64_quanta al (a # b # c # d # s) =
     (case (letter_val al a, letter_val al b, letter_val al c, letter_val al d) of
        (Some i, Some j, Some k, Some l) \<Rightarrow>
          (let (out, ok) = b64_quanta al s
           in ([mk_byte (i * 4 + j div 16), mk_byte (j mod 16 * 16 + k div 4), mk_byte (k mod 4 * 64 + l)] @ out, ok))
      | (Some i, Some j, Some k, None) \<Rightarrow>
          if d = CHR ''='' then ([mk_byte (i * 4 + j div 16), mk_byte (j mod 16 * 16 + k div 4)], s = [])
          else ([], False)
      | (Some i, Some j, None, _) \<Rightarrow>
          if c = CHR ''='' \<and> d = CHR ''='' then ([mk_byte (i * 4 + j div 16)], s = []) else ([], False)
      | _ \<Rightarrow> ([], False))"
| "b64_quanta al [] = ([], True)"
| "b64_quanta al s = ([], False)"

definition b64_decode :: "string \<Rightarrow> string \<Rightarrow> string \<times> bool" where
  "b64_decode al s = b64_quanta al (filter (\<lambda>c. c \<noteq> char_of (10 :: nat) \<and> c \<noteq> char_of (13 :: nat)) s)"

definition std_encode :: "string \<Rightarrow> string" where
  "std_encode = b64_encode std_alphabet"

definition std_decode :: "string \<Rightarrow> string \<times> bool" where
  "std_decode = b64_decode std_alphabet"

definition url_encode :: "string \<Rightarrow> string" where
  "url_encode = b64_encode url_alphabet"

definition good_alphabet :: "string \<Rightarrow> bool" where
  "good_alphabet al \<longleftrightarrow> length al = 64 \<and> distinct al \<and> CHR ''='' \<notin> set al \<and>
     char_of (10 :: nat) \<notin> set al \<and> char_of (13 :: nat) \<notin> set al"

lemma std_alphabet_good [simp]: "good_alphabet std_alphabet"
  by code_simp

lemma url_alphabet_good [simp]: "good_alphabet url_alphabet"
  by code_simp

lemma letter_val_nth:
  assumes "distinct al" and "n < length al"
  shows "letter_val al (al ! n) = Some n"
proof -
  have "takeWhile (\<lambda>d. d \<noteq> al ! n) al = take n al"
    using assms by (intro takeWhile_eq_take_P_nth) (auto simp: nth_eq_iff_index_eq)
  then show ?thesis using assms by (simp add: letter_val_def)
qed

lemma letter_val_absent: "c \<notin> set al \<Longrightarrow> letter_val al c = None"
proof -
  assume "c \<notin> set al"
  then have "takeWhile (\<lambda>d. d \<noteq> c) al = al" by (auto simp: takeWhile_eq_all_conv)
  then show ?thesis unfolding letter_val_def by (simp only: Let_def less_irrefl if_False)
qed

lemma quot_rem:
  fixes m r k :: nat
  assumes "r < k"
  shows "(m * k + r) div k = m" and "(m * k + r) mod k = r"
  using assms by simp_all

lemma byte_div: "byte x div 4 < 64" "byte x div 16 < 16" "byte x div 64 < 4"
  by (rule less_mult_imp_div_less, simp)+

lemma sextets [bytes]:
  "byte x div 4 < 64" "byte x mod 4 * 16 < 64" "byte x mod 16 * 4 < 64" "byte x mod 64 < 64"
  "byte x mod 4 * 16 + byte y div 16 < 64" "byte x mod 16 * 4 + byte y div 64 < 64"
proof -
  have "byte x mod 4 \<le> 3" "byte x mod 16 \<le> 15" by (simp_all flip: less_Suc_eq_le)
  then show "byte x div 4 < 64" "byte x mod 4 * 16 < 64" "byte x mod 16 * 4 < 64" "byte x mod 64 < 64"
    "byte x mod 4 * 16 + byte y div 16 < 64" "byte x mod 16 * 4 + byte y div 64 < 64"
    using byte_div [of x] byte_div [of y] by linarith+
qed

lemma unsextet [bytes]:
  "byte x div 4 * 4 + byte x mod 4 * 16 div 16 = byte x"
  "byte x div 4 * 4 + (byte x mod 4 * 16 + byte y div 16) div 16 = byte x"
  "(byte x mod 4 * 16 + byte y div 16) mod 16 * 16 + byte y mod 16 * 4 div 4 = byte y"
  "(byte x mod 4 * 16 + byte y div 16) mod 16 * 16 + (byte y mod 16 * 4 + byte z div 64) div 4 = byte y"
  "(byte y mod 16 * 4 + byte z div 64) mod 4 * 64 + byte z mod 64 = byte z"
proof -
  have s: "byte y div 16 < 16" "byte z div 64 < 4" by (rule byte_div)+
  show "byte x div 4 * 4 + byte x mod 4 * 16 div 16 = byte x"
    "byte x div 4 * 4 + (byte x mod 4 * 16 + byte y div 16) div 16 = byte x"
    "(byte x mod 4 * 16 + byte y div 16) mod 16 * 16 + byte y mod 16 * 4 div 4 = byte y"
    "(byte x mod 4 * 16 + byte y div 16) mod 16 * 16 + (byte y mod 16 * 4 + byte z div 64) div 4 = byte y"
    "(byte y mod 16 * 4 + byte z div 64) mod 4 * 64 + byte z mod 64 = byte z"
    by (simp_all only: quot_rem [OF s(1)] quot_rem [OF s(2)] div_mult_mod_eq nonzero_mult_div_cancel_right
        zero_neq_numeral [symmetric] not_False_eq_True)
qed

lemma b64_round_quanta:
  assumes "good_alphabet al"
  shows "b64_quanta al (b64_encode al s) = (s, True)"
proof -
  have "\<forall>n < 64. letter_val al (al ! n) = Some n"
    using assms by (simp add: good_alphabet_def letter_val_nth)
  moreover have "letter_val al (CHR ''='') = None"
    using assms by (simp add: good_alphabet_def letter_val_absent)
  ultimately show ?thesis
    by (induction al s rule: b64_encode.induct) (simp_all only: b64_encode.simps b64_quanta.simps
        sextets unsextet mk_byte_byte option.case prod.case Let_def append.simps simp_thms if_True)
qed

lemma b64_letters:
  assumes "good_alphabet al"
  shows "set (b64_encode al s) \<subseteq> insert (CHR ''='') (set al)"
  using assms
proof (induction al s rule: b64_encode.induct)
  case (4 al x y z s)
  have "length al = 64" using 4 by (simp add: good_alphabet_def)
  then show ?case using 4 sextets by simp
qed (auto simp: good_alphabet_def sextets)

theorem b64_round:
  assumes "good_alphabet al"
  shows "b64_decode al (b64_encode al s) = (s, True)"
proof -
  have "CHR ''='' \<noteq> char_of (10 :: nat) \<and> CHR ''='' \<noteq> char_of (13 :: nat)" by code_simp
  then have "filter (\<lambda>c. c \<noteq> char_of (10 :: nat) \<and> c \<noteq> char_of (13 :: nat)) (b64_encode al s) = b64_encode al s"
    using b64_letters [OF assms, of s] assms
    by (intro filter_True) (auto simp: good_alphabet_def)
  then show ?thesis by (simp add: b64_decode_def b64_round_quanta [OF assms])
qed

lemma std_round [simp]: "std_decode (std_encode s) = (s, True)"
  by (simp add: std_decode_def std_encode_def b64_round)

lemma std_letters: "c \<in> set (std_encode s) \<Longrightarrow> c \<in> insert (CHR ''='') (set std_alphabet)"
  using b64_letters [of std_alphabet s] by (auto simp: std_encode_def)

lemma std_encode_nonempty:
  "s \<noteq> [] \<Longrightarrow> std_encode s \<noteq> []"
  by (cases "(std_alphabet, s)" rule: b64_encode.cases) (auto simp: std_encode_def)

subsection \<open>Hexadecimal\<close>

definition hex_digit :: "nat \<Rightarrow> char" where
  "hex_digit n = ''0123456789abcdef'' ! n"

definition hex_encode :: "string \<Rightarrow> string" where
  "hex_encode s = concat (map (\<lambda>c. [hex_digit (byte c div 16), hex_digit (byte c mod 16)]) s)"

end
