(* ===== verification/Aes.thy ===== *)
theory Aes
  imports Bytes
begin

text \<open>
  AES encryption (\<^verbatim>\<open>src/pkg/encrypt/aes.go\<close>).  The block cipher of \<^verbatim>\<open>crypto/aes\<close>, the authenticated encryption of
  \<^verbatim>\<open>cipher.NewGCM\<close> and the random source are arguments; the modes of operation, the paddings and the text encoding are modelled.  The theory shows
  when decryption inverts encryption: always with PKCS7, and with zero padding exactly when the data do
  not end with a zero byte, otherwise the trailing zero bytes are lost, or all of the data are zero and
  the decryption panics.
\<close>

subsection \<open>Types and constants\<close>

definition BlockSize :: nat where
  "BlockSize = 16"

text \<open>An \<open>AesType\<close> is an integer; the two maps have entries for 0 and 1.\<close>

definition AesTypeCBCZeroPadding :: int where
  "AesTypeCBCZeroPadding = 0"

definition AesTypeCBCPKCS7Padding :: int where
  "AesTypeCBCPKCS7Padding = 1"

datatype mode = CBC | ECB

record AesCbc =
  ac_AesType :: int
  ac_Key :: string
  ac_Iv :: string

record AesEcb =
  ae_AesType :: int
  ae_Key :: string

definition NewAesCbc :: "int \<Rightarrow> string \<Rightarrow> string \<Rightarrow> AesCbc" where
  "NewAesCbc aesType key iv = \<lparr>ac_AesType = aesType, ac_Key = key, ac_Iv = iv\<rparr>"

definition NewAesEcb :: "int \<Rightarrow> string \<Rightarrow> AesEcb" where
  "NewAesEcb aesType key = \<lparr>ae_AesType = aesType, ae_Key = key\<rparr>"

text \<open>The block cipher: \<^verbatim>\<open>Encrypt\<close> and \<^verbatim>\<open>Decrypt\<close> of one block under a key.\<close>

record block_cipher =
  bc_encrypt :: "string \<Rightarrow> string \<Rightarrow> string"
  bc_decrypt :: "string \<Rightarrow> string \<Rightarrow> string"

text \<open>\<^verbatim>\<open>aes.NewCipher\<close> accepts the three key sizes of AES.\<close>

definition key_ok :: "string \<Rightarrow> bool" where
  "key_ok key \<longleftrightarrow> length key = 16 \<or> length key = 24 \<or> length key = 32"

subsection \<open>Paddings\<close>

definition pKCS7Padding :: "string \<Rightarrow> nat \<Rightarrow> string" where
  "pKCS7Padding data blockSize =
     (let padding = blockSize - length data mod blockSize in data @ replicate padding (mk_byte padding))"

definition pKCS7UnPadding :: "string \<Rightarrow> string outcome" where
  "pKCS7UnPadding data =
     (if data = [] then Panic
      else let unpadding = byte (last data)
           in if length data < unpadding then Panic else Ok (take (length data - unpadding) data))"

definition zeroPadding :: "string \<Rightarrow> nat \<Rightarrow> string" where
  "zeroPadding data blockSize =
     (let padding = blockSize - length data mod blockSize in data @ replicate padding (mk_byte 0))"

text \<open>The loop runs over the trailing zero bytes; without another byte the index becomes negative.\<close>

definition zeroUnPadding :: "string \<Rightarrow> string outcome" where
  "zeroUnPadding data =
     (let i = length (takeWhile (\<lambda>c. byte c = 0) (rev data))
      in if i = length data then Panic else Ok (take (length data - i) data))"

definition paddingFuncMap :: "int \<Rightarrow> (string \<Rightarrow> nat \<Rightarrow> string) option" where
  "paddingFuncMap t =
     (if t = AesTypeCBCPKCS7Padding then Some pKCS7Padding
      else if t = AesTypeCBCZeroPadding then Some zeroPadding else None)"

definition unPaddingFuncMap :: "int \<Rightarrow> (string \<Rightarrow> string outcome) option" where
  "unPaddingFuncMap t =
     (if t = AesTypeCBCZeroPadding then Some zeroUnPadding
      else if t = AesTypeCBCPKCS7Padding then Some pKCS7UnPadding else None)"

subsection \<open>Modes of operation\<close>

text \<open>
  The loop over the blocks of the source, which ends with a panic before it starts unless the length is
  a multiple of the block size.
\<close>

function ecb_blocks :: "(string \<Rightarrow> string) \<Rightarrow> string \<Rightarrow> string" where
  "ecb_blocks f src = (if src = [] then [] else f (take BlockSize src) @ ecb_blocks f (drop BlockSize src))"
  by auto
termination by (relation "measure (\<lambda>(f, src). length src)") (simp_all add: BlockSize_def)

declare ecb_blocks.simps [simp del]

definition ecb_CryptBlocks :: "(string \<Rightarrow> string) \<Rightarrow> string \<Rightarrow> string outcome" where
  "ecb_CryptBlocks f src = (if length src mod BlockSize \<noteq> 0 then Panic else Ok (ecb_blocks f src))"

text \<open>Cipher block chaining, as \<^verbatim>\<open>cipher.NewCBCEncrypter\<close> and \<^verbatim>\<open>NewCBCDecrypter\<close> document it.\<close>

function cbc_encrypt :: "(string \<Rightarrow> string) \<Rightarrow> string \<Rightarrow> string \<Rightarrow> string" where
  "cbc_encrypt f iv src =
     (if src = [] then []
      else let c = f (xor_bytes (take BlockSize src) iv) in c @ cbc_encrypt f c (drop BlockSize src))"
  by auto
termination by (relation "measure (\<lambda>(f, iv, src). length src)") (simp_all add: BlockSize_def)

function cbc_decrypt :: "(string \<Rightarrow> string) \<Rightarrow> string \<Rightarrow> string \<Rightarrow> string" where
  "cbc_decrypt f iv src =
     (if src = [] then []
      else let c = take BlockSize src in xor_bytes (f c) iv @ cbc_decrypt f c (drop BlockSize src))"
  by auto
termination by (relation "measure (\<lambda>(f, iv, src). length src)") (simp_all add: BlockSize_def)

declare cbc_encrypt.simps [simp del] cbc_decrypt.simps [simp del]

definition crypt_blocks :: "mode \<Rightarrow> (string \<Rightarrow> string \<Rightarrow> string) \<Rightarrow> (string \<Rightarrow> string) \<Rightarrow> string \<Rightarrow> string \<Rightarrow> string outcome" where
  "crypt_blocks m cbc f iv src =
     (case m of
        CBC \<Rightarrow> if length iv \<noteq> BlockSize then Panic
               else if length src mod BlockSize \<noteq> 0 then Panic else Ok (cbc iv src)
      | ECB \<Rightarrow> ecb_CryptBlocks f src)"

subsection \<open>Encryption and decryption\<close>

definition decrypt :: "block_cipher \<Rightarrow> (string \<Rightarrow> string outcome) \<Rightarrow> string \<Rightarrow> string \<Rightarrow> mode \<Rightarrow> string \<Rightarrow> string outcome" where
  "decrypt bc unPaddingFn key iv m ciphertext =
     (if \<not> key_ok key then Fail ''invalid key size''
      else let f = bc_decrypt bc key; base64In = fst (std_decode ciphertext)
           in case crypt_blocks m (cbc_decrypt f) f iv base64In of
                Ok inn \<Rightarrow> unPaddingFn inn
              | Fail e \<Rightarrow> Fail e
              | Panic \<Rightarrow> Panic)"

definition encrypt :: "block_cipher \<Rightarrow> (string \<Rightarrow> nat \<Rightarrow> string) \<Rightarrow> string \<Rightarrow> string \<Rightarrow> mode \<Rightarrow> string \<Rightarrow> string outcome" where
  "encrypt bc paddingFn key iv m srcData =
     (if \<not> key_ok key then Fail ''invalid key size''
      else let f = bc_encrypt bc key
           in case crypt_blocks m (cbc_encrypt f) f iv (paddingFn srcData BlockSize) of
                Ok out \<Rightarrow> Ok (std_encode out)
              | Fail e \<Rightarrow> Fail e
              | Panic \<Rightarrow> Panic)"

definition AesCbcDecrypt :: "block_cipher \<Rightarrow> AesCbc \<Rightarrow> string \<Rightarrow> string outcome" where
  "AesCbcDecrypt bc a ciphertext =
     (case unPaddingFuncMap (ac_AesType a) of
        None \<Rightarrow> Fail ''unsupported Aes type''
      | Some unPaddingFunc \<Rightarrow> decrypt bc unPaddingFunc (ac_Key a) (ac_Iv a) CBC ciphertext)"

definition AesCbcEncrypt :: "block_cipher \<Rightarrow> AesCbc \<Rightarrow> string \<Rightarrow> string outcome" where
  "AesCbcEncrypt bc a srcData =
     (case paddingFuncMap (ac_AesType a) of
        None \<Rightarrow> Fail ''unsupported aes type''
      | Some paddingFn \<Rightarrow> encrypt bc paddingFn (ac_Key a) (ac_Iv a) CBC srcData)"

definition AesEcbDecrypt :: "block_cipher \<Rightarrow> AesEcb \<Rightarrow> string \<Rightarrow> string outcome" where
  "AesEcbDecrypt bc a ciphertext =
     (case unPaddingFuncMap (ae_AesType a) of
        None \<Rightarrow> Fail ''unsupported Aes type''
      | Some unPaddingFunc \<Rightarrow> decrypt bc unPaddingFunc (ae_Key a) '''' ECB ciphertext)"

definition AesEcbEncrypt :: "block_cipher \<Rightarrow> AesEcb \<Rightarrow> string \<Rightarrow> string outcome" where
  "AesEcbEncrypt bc a srcData =
     (case paddingFuncMap (ae_AesType a) of
        None \<Rightarrow> Fail ''unsupported aes type''
      | Some paddingFn \<Rightarrow> encrypt bc paddingFn (ae_Key a) '''' ECB srcData)"

subsection \<open>Galois counter mode\<close>

text \<open>The functions \<^verbatim>\<open>Seal\<close> and \<^verbatim>\<open>Open\<close> of \<^verbatim>\<open>cipher.NewGCM\<close>, whose nonce has twelve bytes.\<close>

record gcm =
  gcm_seal :: "string \<Rightarrow> string \<Rightarrow> string \<Rightarrow> string"
  gcm_open :: "string \<Rightarrow> string \<Rightarrow> string \<Rightarrow> string option"

definition gcm_nonce_size :: nat where
  "gcm_nonce_size = 12"

text \<open>The nonce read from the random source is an argument; \<open>None\<close> when the source fails.\<close>

definition AesGcm_Encrypt :: "gcm \<Rightarrow> string \<Rightarrow> string option \<Rightarrow> string \<Rightarrow> string + string" where
  "AesGcm_Encrypt g key nonce origData =
     (if origData = '''' then Inl ''empty data''
      else if \<not> key_ok key then Inl ''invalid key size''
      else case nonce of
        None \<Rightarrow> Inl ''random source''
      | Some n \<Rightarrow> Inr (std_encode (n @ gcm_seal g key n origData)))"

definition AesGcm_Decrypt :: "gcm \<Rightarrow> string \<Rightarrow> string \<Rightarrow> string + string" where
  "AesGcm_Decrypt g key crypted =
     (if length key \<noteq> 16 then Inl ''key must be 16 bytes for AES-128''
      else if length crypted < gcm_nonce_size then Inl ''ciphertext too short''
      else case gcm_open g key (take gcm_nonce_size crypted) (drop gcm_nonce_size crypted) of
             None \<Rightarrow> Inl ''message authentication failed''
           | Some plaintext \<Rightarrow> Inr plaintext)"

subsection \<open>Lemmas on the modes\<close>

text \<open>What \<^verbatim>\<open>cipher.Block\<close> documents: blocks of the block size, and decryption inverts encryption.\<close>

definition good_cipher :: "block_cipher \<Rightarrow> string \<Rightarrow> bool" where
  "good_cipher bc key \<longleftrightarrow>
     (\<forall>b. length b = BlockSize \<longrightarrow>
        length (bc_encrypt bc key b) = BlockSize \<and> bc_decrypt bc key (bc_encrypt bc key b) = b)"

lemma block_split:
  assumes "length src mod BlockSize = 0" and "src \<noteq> []"
  shows "length (take BlockSize src) = BlockSize" and "length (drop BlockSize src) mod BlockSize = 0"
proof -
  have "BlockSize \<le> length src"
    using assms by (metis length_0_conv linorder_not_less mod_less)
  then show "length (take BlockSize src) = BlockSize" "length (drop BlockSize src) mod BlockSize = 0"
    using assms(1) by (simp_all add: mod_if [of "length src"])
qed

lemma ecb_round:
  assumes "\<And>b. length b = BlockSize \<Longrightarrow> length (f b) = BlockSize \<and> g (f b) = b"
    and "length src mod BlockSize = 0"
  shows "ecb_blocks g (ecb_blocks f src) = src \<and> length (ecb_blocks f src) = length src"
  using assms
proof (induction f src rule: ecb_blocks.induct)
  case (1 f src)
  show ?case
  proof (cases "src = []")
    case False
    note b = block_split [OF 1(3) False]
    have f: "length (f (take BlockSize src)) = BlockSize" "g (f (take BlockSize src)) = take BlockSize src"
      using 1(2) [OF b(1)] by auto
    then have ne: "f (take BlockSize src) \<noteq> []" by (auto simp: BlockSize_def)
    have "length (ecb_blocks f src) = length (take BlockSize src) + length (drop BlockSize src)"
      using 1(1) [OF False 1(2) b(2)] False f(1) b(1) by (simp add: ecb_blocks.simps [of f src])
    moreover have "ecb_blocks g (ecb_blocks f src) = take BlockSize src @ drop BlockSize src"
      using 1(1) [OF False 1(2) b(2)] False f ne
      by (simp add: ecb_blocks.simps [of f src] ecb_blocks.simps [of g "f (take BlockSize src) @ _"])
    ultimately show ?thesis
      by (metis append_take_drop_id length_append)
  qed (simp add: ecb_blocks.simps)
qed

lemma cbc_round:
  assumes "\<And>b. length b = BlockSize \<Longrightarrow> length (f b) = BlockSize \<and> g (f b) = b"
    and "length src mod BlockSize = 0" and "length iv = BlockSize"
  shows "cbc_decrypt g iv (cbc_encrypt f iv src) = src \<and> length (cbc_encrypt f iv src) = length src"
  using assms
proof (induction f iv src rule: cbc_encrypt.induct)
  case (1 f iv src)
  show ?case
  proof (cases "src = []")
    case False
    note b = block_split [OF 1(3) False]
    let ?x = "xor_bytes (take BlockSize src) iv"
    have f: "length (f ?x) = BlockSize" "g (f ?x) = ?x"
      using 1(2) [of ?x] b(1) 1(4) by auto
    then have ne: "f ?x \<noteq> []" by (auto simp: BlockSize_def)
    note ih = 1(1) [OF False refl 1(2) b(2) f(1)]
    have x: "xor_bytes ?x iv = take BlockSize src"
      by (rule xor_bytes_cancel) (simp only: b(1) 1(4))
    have e: "cbc_encrypt f iv src = f ?x @ cbc_encrypt f (f ?x) (drop BlockSize src)"
      using False by (simp add: cbc_encrypt.simps [of f iv src] Let_def)
    have "length (cbc_encrypt f iv src) = length (take BlockSize src) + length (drop BlockSize src)"
      using ih f(1) b(1) by (simp add: e)
    moreover have "cbc_decrypt g iv (cbc_encrypt f iv src) = take BlockSize src @ drop BlockSize src"
      using ih f ne x by (simp add: e cbc_decrypt.simps [of g iv "f ?x @ _"] Let_def)
    ultimately show ?thesis
      by (metis append_take_drop_id length_append)
  qed (simp add: cbc_encrypt.simps cbc_decrypt.simps)
qed

lemma crypt_round:
  assumes "good_cipher bc key" and "length src mod BlockSize = 0" and "m = CBC \<longrightarrow> length iv = BlockSize"
  shows "\<exists>out. crypt_blocks m (cbc_encrypt (bc_encrypt bc key)) (bc_encrypt bc key) iv src = Ok out \<and>
    length out = length src \<and>
    crypt_blocks m (cbc_decrypt (bc_decrypt bc key)) (bc_decrypt bc key) iv out = Ok src"
proof -
  have c: "length b = BlockSize \<Longrightarrow>
      length (bc_encrypt bc key b) = BlockSize \<and> bc_decrypt bc key (bc_encrypt bc key b) = b" for b
    using assms(1) by (simp add: good_cipher_def)
  show ?thesis
    by (cases m) (use ecb_round [OF c assms(2)] cbc_round [OF c assms(2), of iv] assms(2, 3) in
        \<open>auto simp: crypt_blocks_def ecb_CryptBlocks_def\<close>)
qed

subsection \<open>Paddings as an interface\<close>

text \<open>
  What the modes need of a padding: it fills up to full blocks and, on the data it is good for, the
  removal inverts it.
\<close>

locale padding =
  fixes pad :: "string \<Rightarrow> nat \<Rightarrow> string"
    and unpad :: "string \<Rightarrow> string outcome"
    and good :: "string \<Rightarrow> bool"
  assumes pad_full: "length (pad d BlockSize) mod BlockSize = 0"
    and unpad_pad: "good d \<Longrightarrow> unpad (pad d BlockSize) = Ok d"
begin

lemma round_trip:
  assumes "good_cipher bc key" and "key_ok key" and "m = CBC \<longrightarrow> length iv = BlockSize"
  shows "\<exists>c. encrypt bc pad key iv m d = Ok c \<and> decrypt bc unpad key iv m c = unpad (pad d BlockSize)"
  using crypt_round [OF assms(1) pad_full [of d] assms(3)] assms(2)
  by (auto simp: encrypt_def decrypt_def Let_def)

lemma round_trip_good:
  assumes "good_cipher bc key" and "key_ok key" and "m = CBC \<longrightarrow> length iv = BlockSize" and "good d"
  shows "\<exists>c. encrypt bc pad key iv m d = Ok c \<and> decrypt bc unpad key iv m c = Ok d"
  using round_trip [OF assms(1-3), where d = d] unpad_pad [OF assms(4)] by simp

end

lemma fill_mod: "(n + (BlockSize - n mod BlockSize)) mod BlockSize = 0"
proof -
  have "n mod BlockSize \<le> BlockSize" by (simp add: BlockSize_def)
  then have "(n mod BlockSize + (BlockSize - n mod BlockSize)) mod BlockSize = 0" by simp
  then show ?thesis by (simp only: mod_add_left_eq)
qed

lemma fill_pos: "0 < BlockSize - n mod BlockSize" "BlockSize - n mod BlockSize < 256"
  by (simp_all add: BlockSize_def)

lemma unpad_pkcs7: "pKCS7UnPadding (pKCS7Padding d BlockSize) = Ok d"
proof -
  let ?p = "BlockSize - length d mod BlockSize"
  have "byte (mk_byte ?p) = ?p" using fill_pos(2) by (simp add: byte_mk_byte)
  then show ?thesis
    using fill_pos(1) [of "length d"] by (simp add: pKCS7Padding_def pKCS7UnPadding_def Let_def last_replicate)
qed

text \<open>Removing a zero padding removes all trailing zero bytes.\<close>

definition strip_zeros :: "string \<Rightarrow> string" where
  "strip_zeros d = rev (dropWhile (\<lambda>c. byte c = 0) (rev d))"

lemma byte_zero [simp]: "byte (mk_byte 0) = 0"
  by (simp add: byte_mk_byte)

lemma strip_zeros_fill: "strip_zeros (d @ replicate k (mk_byte 0)) = strip_zeros d"
proof -
  have "dropWhile (\<lambda>c. byte c = 0) (replicate k (mk_byte 0) @ r) = dropWhile (\<lambda>c. byte c = 0) r" for r
    by (induction k) simp_all
  then show ?thesis by (simp add: strip_zeros_def)
qed

lemma zeroUnPadding_strip:
  "zeroUnPadding d = (if strip_zeros d = [] then Panic else Ok (strip_zeros d))"
proof -
  have l: "length (takeWhile (\<lambda>c. byte c = 0) (rev d)) + length (dropWhile (\<lambda>c. byte c = 0) (rev d)) = length d"
    by (metis length_append length_rev takeWhile_dropWhile_id)
  have "rev (drop (length (takeWhile (\<lambda>c. byte c = 0) (rev d))) (rev d)) =
      take (length d - length (takeWhile (\<lambda>c. byte c = 0) (rev d))) d"
    by (simp add: rev_drop)
  then have "strip_zeros d = take (length d - length (takeWhile (\<lambda>c. byte c = 0) (rev d))) d"
    by (simp add: strip_zeros_def dropWhile_eq_drop)
  then show ?thesis using l by (auto simp: zeroUnPadding_def Let_def)
qed

lemma unpad_zero: "zeroUnPadding (zeroPadding d BlockSize) = (if strip_zeros d = [] then Panic else Ok (strip_zeros d))"
  by (simp add: zeroUnPadding_strip zeroPadding_def Let_def strip_zeros_fill)

lemma strip_zeros_id: "d \<noteq> [] \<Longrightarrow> byte (last d) \<noteq> 0 \<Longrightarrow> strip_zeros d = d"
  by (induction d rule: rev_induct) (simp_all add: strip_zeros_def)

interpretation pkcs7: padding pKCS7Padding pKCS7UnPadding "\<lambda>d. True"
proof
  fix d show "length (pKCS7Padding d BlockSize) mod BlockSize = 0"
    using fill_mod by (simp add: pKCS7Padding_def Let_def)
qed (rule unpad_pkcs7)

interpretation zero: padding zeroPadding zeroUnPadding "\<lambda>d. d \<noteq> [] \<and> byte (last d) \<noteq> 0"
proof
  fix d show "length (zeroPadding d BlockSize) mod BlockSize = 0"
    using fill_mod by (simp add: zeroPadding_def Let_def)
qed (simp add: unpad_zero strip_zeros_id)

subsection \<open>Properties\<close>

text \<open>
  What the two modes encrypt with PKCS7 padding they decrypt again: for every key of a legal size, every
  initialisation vector of one block and all data, also empty data and data that end in bytes that look
  like a padding.
\<close>

theorem pkcs7_round_trip:
  assumes "good_cipher bc key" and "key_ok key" and "length iv = BlockSize"
  shows "(\<exists>c. AesCbcEncrypt bc (NewAesCbc AesTypeCBCPKCS7Padding key iv) d = Ok c \<and>
              AesCbcDecrypt bc (NewAesCbc AesTypeCBCPKCS7Padding key iv) c = Ok d) \<and>
         (\<exists>c. AesEcbEncrypt bc (NewAesEcb AesTypeCBCPKCS7Padding key) d = Ok c \<and>
              AesEcbDecrypt bc (NewAesEcb AesTypeCBCPKCS7Padding key) c = Ok d)"
  using pkcs7.round_trip_good [OF assms(1, 2), of CBC iv d] pkcs7.round_trip_good [OF assms(1, 2), of ECB "''''" d] assms(3)
  by (simp add: AesCbcEncrypt_def AesCbcDecrypt_def AesEcbEncrypt_def AesEcbDecrypt_def NewAesCbc_def
      NewAesEcb_def paddingFuncMap_def unPaddingFuncMap_def AesTypeCBCPKCS7Padding_def
      AesTypeCBCZeroPadding_def)

text \<open>A cipher that adds the key to the block.\<close>

definition demo_cipher :: block_cipher where
  "demo_cipher = \<lparr>bc_encrypt = (\<lambda>k b. xor_bytes b (take BlockSize k)),
     bc_decrypt = (\<lambda>k b. xor_bytes b (take BlockSize k))\<rparr>"

lemma demo_cipher_good: "key_ok key \<Longrightarrow> good_cipher demo_cipher key"
  by (auto simp: good_cipher_def demo_cipher_def key_ok_def BlockSize_def xor_bytes_cancel)

definition demo_key :: string where
  "demo_key = ''0123456789abcdef''"

lemma demo_key_facts: "key_ok demo_key" "length demo_key = BlockSize" "good_cipher demo_cipher demo_key"
  by (simp_all add: demo_cipher_good key_ok_def demo_key_def BlockSize_def)

lemma pkcs7_round_trip_witness:
  "\<exists>c. AesCbcEncrypt demo_cipher (NewAesCbc AesTypeCBCPKCS7Padding demo_key demo_key) ''attack at dawn'' = Ok c \<and>
       AesCbcDecrypt demo_cipher (NewAesCbc AesTypeCBCPKCS7Padding demo_key demo_key) c = Ok ''attack at dawn''"
  by (rule conjunct1 [OF pkcs7_round_trip [OF demo_key_facts(3) demo_key_facts(1, 2)]])

text \<open>
  Zero padding loses data.  Encryption with it always succeeds, but decryption yields the data without
  their trailing zero bytes; when nothing else is left (empty data, or zero bytes only) the index of the
  loop becomes negative and the decryption panics.
\<close>

theorem zero_padding_lossy:
  assumes "good_cipher bc key" and "key_ok key" and "length iv = BlockSize"
  shows "\<exists>c. AesCbcEncrypt bc (NewAesCbc AesTypeCBCZeroPadding key iv) d = Ok c \<and>
             AesCbcDecrypt bc (NewAesCbc AesTypeCBCZeroPadding key iv) c =
               (if strip_zeros d = [] then Panic else Ok (strip_zeros d))"
  using zero.round_trip [OF assms(1, 2), of CBC iv d] assms(3)
  by (simp add: AesCbcEncrypt_def AesCbcDecrypt_def NewAesCbc_def unpad_zero
      paddingFuncMap_def unPaddingFuncMap_def AesTypeCBCPKCS7Padding_def AesTypeCBCZeroPadding_def)

lemma zero_padding_lossy_witness:
  "\<exists>c. AesCbcEncrypt demo_cipher (NewAesCbc AesTypeCBCZeroPadding demo_key demo_key) '''' = Ok c \<and>
       AesCbcDecrypt demo_cipher (NewAesCbc AesTypeCBCZeroPadding demo_key demo_key) c = Panic"
  using zero_padding_lossy [OF demo_key_facts(3) demo_key_facts(1, 2), of "''''"]
  by (simp add: strip_zeros_def)

text \<open>Decryption panics on inputs that are not produced by encryption, and ignores malformed text.\<close>

lemma decrypt_empty_panics:
  "key_ok key \<Longrightarrow> AesEcbDecrypt bc (NewAesEcb AesTypeCBCPKCS7Padding key) ''!'' = Panic"
  by (simp add: AesEcbDecrypt_def NewAesEcb_def unPaddingFuncMap_def AesTypeCBCPKCS7Padding_def
      AesTypeCBCZeroPadding_def decrypt_def std_decode_def b64_decode_def crypt_blocks_def
      ecb_CryptBlocks_def pKCS7UnPadding_def ecb_blocks.simps BlockSize_def)

end
