(* ===== verification/ConfigCrypt.thy ===== *)
theory ConfigCrypt
  imports Aes
begin

text \<open>
  Encrypted configuration values (\<^verbatim>\<open>src/pkg/encrypt/config.go\<close>): single values, the trees of settings
  that viper yields, and the values of a Go struct seen through reflection.  A map is an association list
  in the order in which it is visited.  Functions that change their argument in place return the changed
  value beside the error, so that a change made before an error shows.  The theory shows that decrypting
  a tree of settings inverts encrypting any choice of its values, and which values \<open>DecryptStruct\<close> reaches.
\<close>

definition EncryptPrefix :: string where
  "EncryptPrefix = ''ENC(''"

definition EncryptSuffix :: string where
  "EncryptSuffix = '')''"

definition IsEncrypted :: "string \<Rightarrow> bool" where
  "IsEncrypted v \<longleftrightarrow> has_prefix v EncryptPrefix \<and> has_suffix v EncryptSuffix"

definition EncryptConfigValue :: "gcm \<Rightarrow> string \<Rightarrow> string option \<Rightarrow> string \<Rightarrow> string + string" where
  "EncryptConfigValue g key nonce plaintext =
     (if plaintext = '''' then Inr ''''
      else case AesGcm_Encrypt g key nonce plaintext of
             Inl e \<Rightarrow> Inl (''encrypt: '' @ e)
           | Inr encrypted \<Rightarrow> Inr (EncryptPrefix @ encrypted @ EncryptSuffix))"

definition DecryptConfigValue :: "gcm \<Rightarrow> string \<Rightarrow> string \<Rightarrow> string + string" where
  "DecryptConfigValue g key ciphertext =
     (if \<not> IsEncrypted ciphertext then Inr ciphertext
      else let encrypted = take (length ciphertext - length EncryptSuffix - length EncryptPrefix)
                             (drop (length EncryptPrefix) ciphertext);
               (cryptedBytes, ok) = std_decode encrypted
           in if \<not> ok then Inl ''base64''
              else case AesGcm_Decrypt g key cryptedBytes of
                     Inl e \<Rightarrow> Inl (''decrypt: '' @ e)
                   | Inr plaintext \<Rightarrow> Inr plaintext)"

definition ParseEncryptKey :: "string \<Rightarrow> string + string" where
  "ParseEncryptKey keyStr =
     (if keyStr = '''' then Inl ''empty key''
      else let (key, ok) = std_decode keyStr
           in if \<not> ok then Inl ''base64''
              else if length key \<noteq> 16 then Inl ''key length''
              else Inr key)"

subsection \<open>Trees of settings\<close>

text \<open>A value of type \<^verbatim>\<open>interface{}\<close>: a string, a map, a slice, or something the code does not look at.\<close>

datatype cval = CStr string | CMap "(string \<times> cval) list" | CSlice "cval list" | COther nat

function decryptMap :: "gcm \<Rightarrow> string \<Rightarrow> (string \<times> cval) list \<Rightarrow> (string \<times> cval) list \<times> string option"
  and decryptSlice :: "gcm \<Rightarrow> string \<Rightarrow> cval list \<Rightarrow> cval list \<times> string option" where
  "decryptMap g key [] = ([], None)"
| "decryptMap g key ((k, CStr val) # m) =
     (if IsEncrypted val then
        (case DecryptConfigValue g key val of
           Inl e \<Rightarrow> ((k, CStr val) # m, Some (k @ '': '' @ e))
         | Inr decrypted \<Rightarrow> (let (m', e) = decryptMap g key m in ((k, CStr decrypted) # m', e)))
      else (let (m', e) = decryptMap g key m in ((k, CStr val) # m', e)))"
| "decryptMap g key ((k, CMap val) # m) =
     (case decryptMap g key val of
        (val', Some e) \<Rightarrow> ((k, CMap val') # m, Some e)
      | (val', None) \<Rightarrow> (let (m', e) = decryptMap g key m in ((k, CMap val') # m', e)))"
| "decryptMap g key ((k, CSlice val) # m) =
     (case decryptSlice g key val of
        (val', Some e) \<Rightarrow> ((k, CSlice val') # m, Some e)
      | (val', None) \<Rightarrow> (let (m', e) = decryptMap g key m in ((k, CSlice val') # m', e)))"
| "decryptMap g key ((k, COther n) # m) = (let (m', e) = decryptMap g key m in ((k, COther n) # m', e))"
| "decryptSlice g key [] = ([], None)"
| "decryptSlice g key (CStr val # s) =
     (if IsEncrypted val then
        (case DecryptConfigValue g key val of
           Inl e \<Rightarrow> (CStr val # s, Some e)
         | Inr decrypted \<Rightarrow> (let (s', e) = decryptSlice g key s in (CStr decrypted # s', e)))
      else (let (s', e) = decryptSlice g key s in (CStr val # s', e)))"
| "decryptSlice g key (CMap val # s) =
     (case decryptMap g key val of
        (val', Some e) \<Rightarrow> (CMap val' # s, Some e)
      | (val', None) \<Rightarrow> (let (s', e) = decryptSlice g key s in (CMap val' # s', e)))"
| "decryptSlice g key (CSlice val # s) =
     (case decryptSlice g key val of
        (val', Some e) \<Rightarrow> (CSlice val' # s, Some e)
      | (val', None) \<Rightarrow> (let (s', e) = decryptSlice g key s in (CSlice val' # s', e)))"
| "decryptSlice g key (COther n # s) = (let (s', e) = decryptSlice g key s in (COther n # s', e))"
  by pat_completeness auto
termination
  by (relation "measure (case_sum (\<lambda>(g, key, m). size (CMap m)) (\<lambda>(g, key, s). size (CSlice s)))") simp_all

definition DecryptMap :: "gcm \<Rightarrow> string \<Rightarrow> (string \<times> cval) list \<Rightarrow> (string \<times> cval) list \<times> string option" where
  "DecryptMap g key settings = decryptMap g key settings"

subsection \<open>Values seen through reflection\<close>

text \<open>
  The kinds of \<^verbatim>\<open>reflect.Value\<close> that the code tells apart.  A struct field carries whether it is exported;
  the values of a map are strings of the type \<^verbatim>\<open>string\<close>, strings of a named type (for which
  \<^verbatim>\<open>SetMapIndex\<close> with a \<^verbatim>\<open>string\<close> panics) or interface values, of which only strings matter;
  \<open>ROther\<close> holds every other kind, among them arrays, interface fields and maps of structs.
\<close>

datatype mval = MString string | MNamed string | MIface "string option"

datatype rval =
    RPtr "rval option"
  | RStruct "(bool \<times> rval) list"
  | RString string
  | RSlice "rval list"
  | RMap "(string \<times> mval) list"
  | ROther cval

fun decrypt_entries :: "gcm \<Rightarrow> string \<Rightarrow> (string \<times> mval) list \<Rightarrow> (string \<times> mval) list \<times> unit outcome" where
  "decrypt_entries g key [] = ([], Ok ())"
| "decrypt_entries g key ((k, v) # m) =
     (let skip = (let (m', r) = decrypt_entries g key m in ((k, v) # m', r))
      in case v of
           MString str \<Rightarrow>
             if IsEncrypted str then
               (case DecryptConfigValue g key str of
                  Inl e \<Rightarrow> ((k, v) # m, Fail e)
                | Inr decrypted \<Rightarrow> (let (m', r) = decrypt_entries g key m in ((k, MString decrypted) # m', r)))
             else skip
         | MNamed str \<Rightarrow>
             if IsEncrypted str then
               (case DecryptConfigValue g key str of
                  Inl e \<Rightarrow> ((k, v) # m, Fail e)
                | Inr decrypted \<Rightarrow> ((k, v) # m, Panic))
             else skip
         | MIface (Some str) \<Rightarrow>
             if IsEncrypted str then
               (case DecryptConfigValue g key str of
                  Inl e \<Rightarrow> ((k, v) # m, Fail e)
                | Inr decrypted \<Rightarrow>
                    (let (m', r) = decrypt_entries g key m in ((k, MIface (Some decrypted)) # m', r)))
             else skip
         | MIface None \<Rightarrow> skip)"

text \<open>The flag tells whether the value can be set; the elements of a slice always can.\<close>

function decryptValue :: "gcm \<Rightarrow> string \<Rightarrow> bool \<Rightarrow> rval \<Rightarrow> rval \<times> unit outcome"
  and decrypt_fields :: "gcm \<Rightarrow> string \<Rightarrow> bool \<Rightarrow> (bool \<times> rval) list \<Rightarrow> (bool \<times> rval) list \<times> unit outcome"
  and decrypt_elems :: "gcm \<Rightarrow> string \<Rightarrow> rval list \<Rightarrow> rval list \<times> unit outcome" where
  "decryptValue g key settable (RPtr None) = (RPtr None, Ok ())"
| "decryptValue g key settable (RPtr (Some v)) =
     (let (v', r) = decryptValue g key True v in (RPtr (Some v'), r))"
| "decryptValue g key settable (RStruct fs) =
     (let (fs', r) = decrypt_fields g key settable fs in (RStruct fs', r))"
| "decryptValue g key settable (RString str) =
     (if settable \<and> IsEncrypted str then
        (case DecryptConfigValue g key str of
           Inl e \<Rightarrow> (RString str, Fail e)
         | Inr decrypted \<Rightarrow> (RString decrypted, Ok ()))
      else (RString str, Ok ()))"
| "decryptValue g key settable (RSlice vs) =
     (let (vs', r) = decrypt_elems g key vs in (RSlice vs', r))"
| "decryptValue g key settable (RMap m) = (let (m', r) = decrypt_entries g key m in (RMap m', r))"
| "decryptValue g key settable (ROther v) = (ROther v, Ok ())"
| "decrypt_fields g key settable [] = ([], Ok ())"
| "decrypt_fields g key settable ((exported, v) # fs) =
     (if \<not> (settable \<and> exported)
      then (let (fs', r) = decrypt_fields g key settable fs in ((exported, v) # fs', r))
      else (let (v', r) = decryptValue g key True v
            in if r = Ok ()
               then (let (fs', r') = decrypt_fields g key settable fs in ((exported, v') # fs', r'))
               else ((exported, v') # fs, r)))"
| "decrypt_elems g key [] = ([], Ok ())"
| "decrypt_elems g key (v # vs) =
     (let (v', r) = decryptValue g key True v
      in if r = Ok () then (let (vs', r') = decrypt_elems g key vs in (v' # vs', r')) else (v' # vs, r))"
  by pat_completeness auto
termination
  by (relation "measure (case_sum (\<lambda>(g, key, b, v). 2 * size v + 1)
        (case_sum (\<lambda>(g, key, b, fs). 2 * size (RStruct fs)) (\<lambda>(g, key, vs). 2 * size (RSlice vs))))")
     simp_all

definition DecryptStruct :: "gcm \<Rightarrow> string \<Rightarrow> rval \<Rightarrow> rval \<times> unit outcome" where
  "DecryptStruct g key v = decryptValue g key False v"

subsection \<open>Properties\<close>

text \<open>What \<^verbatim>\<open>cipher.AEAD\<close> documents: opening with the same key and nonce yields the plaintext sealed.\<close>

definition good_gcm :: "gcm \<Rightarrow> string \<Rightarrow> bool" where
  "good_gcm g key \<longleftrightarrow>
     (\<forall>n p. length n = gcm_nonce_size \<longrightarrow> gcm_open g key n (gcm_seal g key n p) = Some p)"

lemma IsEncrypted_wrap [simp]: "IsEncrypted (EncryptPrefix @ s @ EncryptSuffix)"
  using has_suffix_append [of "EncryptPrefix @ s" EncryptSuffix] by (simp add: IsEncrypted_def)

lemma DecryptConfigValue_wrap:
  "DecryptConfigValue g key (EncryptPrefix @ s @ EncryptSuffix) =
     (let (cryptedBytes, ok) = std_decode s
      in if \<not> ok then Inl ''base64''
         else case AesGcm_Decrypt g key cryptedBytes of
                Inl e \<Rightarrow> Inl (''decrypt: '' @ e) | Inr plaintext \<Rightarrow> Inr plaintext)"
proof -
  have "take (length (EncryptPrefix @ s @ EncryptSuffix) - length EncryptSuffix - length EncryptPrefix)
      (drop (length EncryptPrefix) (EncryptPrefix @ s @ EncryptSuffix)) = s" by simp
  then show ?thesis
    by (simp only: DecryptConfigValue_def IsEncrypted_wrap not_True_eq_False if_False Let_def)
qed

lemma gcm_round:
  assumes "good_gcm g key" and "length key = 16" and "length n = gcm_nonce_size"
  shows "AesGcm_Decrypt g key (n @ gcm_seal g key n p) = Inr p"
  using assms by (simp add: AesGcm_Decrypt_def good_gcm_def)

lemma config_value_round:
  assumes "good_gcm g key" and "key_ok key" and "length n = gcm_nonce_size"
  shows "\<exists>c. EncryptConfigValue g key (Some n) p = Inr c \<and>
    (if p = '''' then c = '''' else IsEncrypted c) \<and>
    DecryptConfigValue g key c =
      (if p \<noteq> '''' \<and> length key \<noteq> 16 then Inl ''decrypt: key must be 16 bytes for AES-128'' else Inr p)"
proof (cases "p = ''''")
  case True
  then show ?thesis
    by (simp add: EncryptConfigValue_def DecryptConfigValue_def IsEncrypted_def has_prefix_def EncryptPrefix_def)
next
  case False
  let ?c = "EncryptPrefix @ std_encode (n @ gcm_seal g key n p) @ EncryptSuffix"
  have "EncryptConfigValue g key (Some n) p = Inr ?c"
    using False assms(2) by (simp add: EncryptConfigValue_def AesGcm_Encrypt_def)
  moreover have "DecryptConfigValue g key ?c =
      (if length key \<noteq> 16 then Inl ''decrypt: key must be 16 bytes for AES-128'' else Inr p)"
    using gcm_round [OF assms(1) _ assms(3), of p]
    by (simp add: DecryptConfigValue_wrap) (simp add: AesGcm_Decrypt_def)
  ultimately show ?thesis using False by simp
qed

text \<open>
  An encrypted configuration value can be decrypted again with the key that encrypted it if the key has
  16 bytes.  With a key of 24 or 32 bytes, which encryption accepts, every value encrypted is refused
  by decryption.  The empty value is not encrypted.
\<close>

theorem config_value_round_trip:
  assumes "good_gcm g key" and "key_ok key" and "length n = gcm_nonce_size"
  shows "\<exists>c. EncryptConfigValue g key (Some n) p = Inr c \<and>
    (if p = '''' then c = '''' else IsEncrypted c) \<and>
    DecryptConfigValue g key c =
      (if p \<noteq> '''' \<and> length key \<noteq> 16 then Inl ''decrypt: key must be 16 bytes for AES-128'' else Inr p)"
  by (rule config_value_round [OF assms])

text \<open>A mode that appends the key.\<close>

definition demo_gcm :: gcm where
  "demo_gcm = \<lparr>gcm_seal = (\<lambda>k n p. p @ k),
     gcm_open = (\<lambda>k n c. if has_suffix c k then Some (trim_suffix c k) else None)\<rparr>"

definition demo_nonce :: string where
  "demo_nonce = ''123456789012''"

lemma demo_gcm_good: "good_gcm demo_gcm key" "length demo_nonce = gcm_nonce_size"
  by (simp_all add: good_gcm_def demo_gcm_def demo_nonce_def gcm_nonce_size_def)

lemma config_value_round_trip_witness:
  "\<exists>c. EncryptConfigValue demo_gcm (demo_key @ ''01234567'') (Some demo_nonce) ''secret'' = Inr c \<and>
       DecryptConfigValue demo_gcm (demo_key @ ''01234567'') c =
         Inl ''decrypt: key must be 16 bytes for AES-128''"
  using config_value_round_trip [OF demo_gcm_good(1), of "demo_key @ ''01234567''" demo_nonce "''secret''"]
  by (simp add: key_ok_def demo_key_def demo_gcm_good(2)) blast

text \<open>
  \<open>sealed_as g key v w\<close>: the tree \<open>w\<close> is \<open>v\<close> with any choice of its strings replaced by an encryption of
  them; a string that is kept must not look like an encrypted one.
\<close>

inductive sealed_as :: "gcm \<Rightarrow> string \<Rightarrow> cval \<Rightarrow> cval \<Rightarrow> bool" for g key where
  plain: "\<not> IsEncrypted p \<Longrightarrow> sealed_as g key (CStr p) (CStr p)"
| crypted: "p \<noteq> '''' \<Longrightarrow> length n = gcm_nonce_size \<Longrightarrow> EncryptConfigValue g key (Some n) p = Inr c \<Longrightarrow>
    sealed_as g key (CStr p) (CStr c)"
| seal_map: "list_all2 (\<lambda>kv kv'. fst kv = fst kv' \<and> sealed_as g key (snd kv) (snd kv')) m m' \<Longrightarrow>
    sealed_as g key (CMap m) (CMap m')"
| seal_slice: "list_all2 (sealed_as g key) s s' \<Longrightarrow> sealed_as g key (CSlice s) (CSlice s')"
| seal_other: "sealed_as g key (COther n) (COther n)"

text \<open>Decrypting the head of a map or a slice: one lemma for each, for all kinds of value.\<close>

definition unsealed :: "gcm \<Rightarrow> string \<Rightarrow> cval \<Rightarrow> cval \<Rightarrow> bool" where
  "unsealed g key v w \<longleftrightarrow>
     (\<forall>k m m'. decryptMap g key m' = (m, None) \<longrightarrow> decryptMap g key ((k, w) # m') = ((k, v) # m, None)) \<and>
     (\<forall>s s'. decryptSlice g key s' = (s, None) \<longrightarrow> decryptSlice g key (w # s') = (v # s, None))"

lemma unsealed_map:
  "list_all2 (\<lambda>kv kv'. fst kv = fst kv' \<and> unsealed g key (snd kv) (snd kv')) m m' \<Longrightarrow>
   decryptMap g key m' = (m, None)"
  by (induction m m' rule: list_all2_induct) (auto simp: unsealed_def)

lemma unsealed_slice: "list_all2 (unsealed g key) s s' \<Longrightarrow> decryptSlice g key s' = (s, None)"
  by (induction s s' rule: list_all2_induct) (auto simp: unsealed_def)

lemma sealed_unsealed:
  assumes "good_gcm g key" and "length key = 16"
  shows "sealed_as g key v w \<Longrightarrow> unsealed g key v w"
proof (induction v w rule: sealed_as.induct)
  case (crypted p n c)
  have k: "key_ok key" using assms(2) by (simp add: key_ok_def)
  from config_value_round [OF assms(1) k crypted(2), of p] crypted(1, 3) assms(2)
  show ?case by (simp add: unsealed_def)
next
  case (seal_map m m')
  then have "list_all2 (\<lambda>kv kv'. fst kv = fst kv' \<and> unsealed g key (snd kv) (snd kv')) m m'"
    by (auto elim!: list_all2_mono)
  from unsealed_map [OF this] show ?case by (simp add: unsealed_def)
next
  case (seal_slice s s')
  then have "list_all2 (unsealed g key) s s'" by (auto elim!: list_all2_mono)
  from unsealed_slice [OF this] show ?case by (simp add: unsealed_def)
qed (simp_all add: unsealed_def)

inductive_cases sealed_map_elim: "sealed_as g key (CMap m) w"

lemma settings_round:
  assumes "good_gcm g key" and "length key = 16" and "sealed_as g key (CMap m) (CMap m')"
  shows "DecryptMap g key m' = (m, None)"
proof -
  have "list_all2 (\<lambda>kv kv'. fst kv = fst kv' \<and> sealed_as g key (snd kv) (snd kv')) m m'"
    using assms(3) by (auto elim: sealed_map_elim)
  then have "list_all2 (\<lambda>kv kv'. fst kv = fst kv' \<and> unsealed g key (snd kv) (snd kv')) m m'"
    by (rule list_all2_mono) (auto intro: sealed_unsealed [OF assms(1, 2)])
  then show ?thesis by (simp add: DecryptMap_def unsealed_map)
qed

text \<open>
  C24. Decrypting a tree of settings with a 16-byte key inverts encrypting any choice of its strings at any
  depth, in maps and slices: it returns without error, every encrypted string has its plaintext again and
  everything else is as it was.
\<close>

theorem settings_round_trip:
  assumes "good_gcm g key" and "length key = 16" and "sealed_as g key (CMap m) (CMap m')"
  shows "DecryptMap g key m' = (m, None)"
  by (rule settings_round [OF assms])

definition demo_settings :: "(string \<times> cval) list" where
  "demo_settings = [(''host'', CStr ''db''), (''auth'', CMap [(''password'', CStr ''pw'')]), (''hosts'', CSlice [CStr ''pw''])]"

definition demo_sealed :: "(string \<times> cval) list" where
  "demo_sealed =
     (let c = EncryptPrefix @ std_encode (demo_nonce @ gcm_seal demo_gcm demo_key demo_nonce ''pw'') @ EncryptSuffix
      in [(''host'', CStr ''db''), (''auth'', CMap [(''password'', CStr c)]), (''hosts'', CSlice [CStr c])])"

lemma settings_round_trip_witness: "DecryptMap demo_gcm demo_key demo_sealed = (demo_settings, None)"
proof (rule settings_round_trip [OF demo_gcm_good(1)])
  let ?c = "EncryptPrefix @ std_encode (demo_nonce @ gcm_seal demo_gcm demo_key demo_nonce ''pw'') @ EncryptSuffix"
  have "sealed_as demo_gcm demo_key (CStr ''pw'') (CStr ?c)"
    by (rule crypted [OF _ demo_gcm_good(2)])
       (simp_all add: EncryptConfigValue_def AesGcm_Encrypt_def demo_key_facts(1))
  moreover have "sealed_as demo_gcm demo_key (CStr ''db'') (CStr ''db'')"
    by (rule plain) (simp add: IsEncrypted_def has_prefix_def EncryptPrefix_def)
  ultimately show "sealed_as demo_gcm demo_key (CMap demo_settings) (CMap demo_sealed)"
    by (auto simp: demo_settings_def demo_sealed_def Let_def intro!: seal_map seal_slice)
qed (simp add: demo_key_def)

subsection \<open>Decrypting structs\<close>


text \<open>A struct or a string passed by value is left as it is, and no error says so.\<close>

lemma by_value_fields: "decrypt_fields g key False fs = (fs, Ok ())"
  by (induction fs) auto

lemma decrypt_by_value:
  "DecryptStruct g key (RStruct fs) = (RStruct fs, Ok ())"
  "DecryptStruct g key (RString s) = (RString s, Ok ())"
  by (simp_all add: DecryptStruct_def by_value_fields)

text \<open>A pointer to a struct whose exported string fields hold encrypted values has all of them decrypted.\<close>

lemma decrypt_string_fields:
  assumes "good_gcm g key" and "length key = 16"
    and "list_all2 (\<lambda>p c. p \<noteq> '''' \<and>
           (\<exists>n. length n = gcm_nonce_size \<and> EncryptConfigValue g key (Some n) p = Inr c)) ps cs"
  shows "DecryptStruct g key (RPtr (Some (RStruct (map (\<lambda>c. (True, RString c)) cs)))) =
    (RPtr (Some (RStruct (map (\<lambda>p. (True, RString p)) ps))), Ok ())"
proof -
  have k: "key_ok key" using assms(2) by (simp add: key_ok_def)
  have "decrypt_fields g key True (map (\<lambda>c. (True, RString c)) cs) = (map (\<lambda>p. (True, RString p)) ps, Ok ())"
    using assms(3)
  proof (induction ps cs rule: list_all2_induct)
    case (Cons p ps c cs)
    then obtain n where "length n = gcm_nonce_size" "EncryptConfigValue g key (Some n) p = Inr c" by auto
    with config_value_round [OF assms(1) k, of n p] assms(2) Cons show ?case by auto
  qed simp
  then show ?thesis by (simp add: DecryptStruct_def)
qed

text \<open>
  A map whose values have a named string type makes \<open>DecryptStruct\<close> panic as soon as one of them is
  encrypted properly.
\<close>

lemma named_map_panics:
  assumes "IsEncrypted c" and "DecryptConfigValue g key c = Inr p"
  shows "snd (DecryptStruct g key (RMap ((k, MNamed c) # m))) = Panic"
  using assms by (simp add: DecryptStruct_def)

end
