(* ===== verification/GoStrings.thy ===== *)
theory GoStrings
  imports GoBase
begin

text \<open>
  More of the \<^verbatim>\<open>strings\<close> package: \<^verbatim>\<open>TrimSpace\<close> (on UTF-8 text), \<^verbatim>\<open>Contains\<close>, \<^verbatim>\<open>Replace\<close> of a prefix, and
  the substitution of one \<^verbatim>\<open>%s\<close> in a format.
\<close>

subsection \<open>White space\<close>

text \<open>The encodings of the characters \<^verbatim>\<open>unicode.IsSpace\<close> accepts.\<close>

definition spaces :: "string list" where
  "spaces = map (\<lambda>bs. map (char_of :: nat \<Rightarrow> char) bs)
     ([[9], [10], [11], [12], [13], [32], [194, 133], [194, 160], [225, 154, 128], [226, 128, 168],
       [226, 128, 169], [226, 128, 175], [226, 129, 159], [227, 128, 128]] @
      map (\<lambda>x. [226, 128, 128 + x]) [0..<11])"

definition space_prefix :: "string list \<Rightarrow> string \<Rightarrow> nat" where
  \<comment> \<open>the length of the first of the given sequences that the text starts with, or 0\<close>
  "space_prefix sp s = (case find (has_prefix s) sp of None \<Rightarrow> 0 | Some p \<Rightarrow> length p)"

function trim_left :: "string list \<Rightarrow> string \<Rightarrow> string" where
  "trim_left sp s = (if space_prefix sp s = 0 \<or> s = [] then s else trim_left sp (drop (space_prefix sp s) s))"
  by auto
termination by (relation "measure (\<lambda>(sp, s). length s)") auto

declare trim_left.simps [simp del]

definition trim_space :: "string \<Rightarrow> string" where
  "trim_space s = rev (trim_left (map rev spaces) (rev (trim_left spaces s)))"

lemma trim_left_suffix: "suffix (trim_left sp s) s"
proof (induction sp s rule: trim_left.induct)
  case (1 sp s)
  show ?case
  proof (cases "space_prefix sp s = 0 \<or> s = []")
    case False
    with 1 have "suffix (trim_left sp (drop (space_prefix sp s) s)) (drop (space_prefix sp s) s)" by simp
    then show ?thesis
      using False by (metis trim_left.simps suffix_drop suffix_order.trans)
  qed (simp add: trim_left.simps)
qed

lemma trim_left_done: "space_prefix sp (trim_left sp s) = 0 \<or> trim_left sp s = []"
proof (induction sp s rule: trim_left.induct)
  case (1 sp s)
  then show ?case by (cases "space_prefix sp s = 0 \<or> s = []") (simp_all add: trim_left.simps [of sp s])
qed

lemma trim_left_idem [simp]: "trim_left sp (trim_left sp s) = trim_left sp s"
  using trim_left_done [of sp s] by (simp add: trim_left.simps [of sp "trim_left sp s"])

lemma trim_space_sublist: "sublist (trim_space s) s"
proof -
  obtain a where a: "s = a @ trim_left spaces s" using trim_left_suffix [of spaces s] by (auto simp: suffix_def)
  obtain b where b: "rev (trim_left spaces s) = b @ trim_left (map rev spaces) (rev (trim_left spaces s))"
    using trim_left_suffix [of "map rev spaces" "rev (trim_left spaces s)"] by (auto simp: suffix_def)
  have "trim_left spaces s = trim_space s @ rev b"
    using arg_cong [OF b, of rev] by (simp add: trim_space_def)
  with a show ?thesis by (auto simp: sublist_def)
qed

lemma trim_space_empty [simp]: "trim_space '''' = ''''"
  by (simp add: trim_space_def trim_left.simps)

text \<open>A text that starts and ends with visible ASCII characters is left as it is.\<close>

definition visible :: "char \<Rightarrow> bool" where
  "visible c \<longleftrightarrow> 33 \<le> (of_char c :: nat) \<and> (of_char c :: nat) < 128"

lemma spaces_not_visible: "\<forall>p \<in> set spaces. p \<noteq> [] \<and> \<not> visible (hd p) \<and> \<not> visible (last p)"
  by code_simp

lemma space_prefix_visible:
  assumes "visible c" and "\<forall>p \<in> set sp. p \<noteq> [] \<and> \<not> visible (hd p)"
  shows "space_prefix sp (c # s) = 0"
proof -
  have "\<not> has_prefix (c # s) p" if "p \<in> set sp" for p
    using assms that by (cases p) (auto simp: has_prefix_def)
  then have "find (has_prefix (c # s)) sp = None" by (simp add: find_None_iff)
  then show ?thesis by (simp add: space_prefix_def)
qed

lemma trim_left_visible:
  "visible c \<Longrightarrow> \<forall>p \<in> set sp. p \<noteq> [] \<and> \<not> visible (hd p) \<Longrightarrow> trim_left sp (c # s) = c # s"
  by (subst trim_left.simps) (simp add: space_prefix_visible)

lemma trim_space_visible:
  assumes "s \<noteq> ''''" and "visible (hd s)" and "visible (last s)"
  shows "trim_space s = s"
proof -
  have "\<forall>p \<in> set (map rev spaces). p \<noteq> [] \<and> \<not> visible (hd p)"
    using spaces_not_visible by (auto simp: hd_rev)
  moreover have "rev s = last s # tl (rev s)" using assms(1) by (metis hd_Cons_tl hd_rev rev_is_Nil_conv)
  ultimately have "trim_left (map rev spaces) (rev s) = rev s"
    using trim_left_visible [of "last s"] assms(3) by metis
  moreover have "trim_left spaces s = s"
    using trim_left_visible [of "hd s" spaces "tl s"] spaces_not_visible assms by simp
  ultimately show ?thesis by (simp add: trim_space_def)
qed

subsection \<open>Formats\<close>

text \<open>\<^verbatim>\<open>fmt.Sprintf\<close> for a format with one \<^verbatim>\<open>%s\<close>.\<close>

fun sprintf_s :: "string \<Rightarrow> string \<Rightarrow> string" where
  "sprintf_s (CHR ''%'' # CHR ''s'' # f) a = a @ f"
| "sprintf_s (c # f) a = c # sprintf_s f a"
| "sprintf_s [] a = []"

subsection \<open>Searching\<close>

definition contains :: "string \<Rightarrow> string \<Rightarrow> bool" where
  "contains s sub \<longleftrightarrow> sublist sub s"

end
