(* ===== verification/EnvExpand.thy ===== *)
theory EnvExpand
  imports GoStrings
begin

text \<open>
  Expansion of environment variables in configuration values (\<^verbatim>\<open>expandStr\<close> in
  \<^verbatim>\<open>src/pkg/config/loader.go\<close>) with \<^verbatim>\<open>os.Expand\<close> of the standard library, written out.  The theory shows
  what expansion does to a text made of literal parts and placeholders, and that a dollar sign outside of
  a placeholder changes the value.
\<close>

definition shell_special :: "char \<Rightarrow> bool" where
  "shell_special c \<longleftrightarrow> c \<in> set ''*#$@!?-0123456789''"

definition alpha_num :: "char \<Rightarrow> bool" where
  "alpha_num c \<longleftrightarrow>
     c \<in> set ''_0123456789abcdefghijklmnopqrstuvwxyzABCDEFGHIJKLMNOPQRSTUVWXYZ''"

text \<open>The name after a dollar sign and the number of bytes it takes; no name and some bytes is bad syntax.\<close>

definition shell_name :: "string \<Rightarrow> string \<times> nat" where
  "shell_name s =
     (case s of
        [] \<Rightarrow> ('''', 0)
      | c # r \<Rightarrow>
          if c = CHR ''{'' then
            (if length r > 1 \<and> shell_special (r ! 0) \<and> r ! 1 = CHR ''}'' then ([r ! 0], 3)
             else let n = takeWhile (\<lambda>d. d \<noteq> CHR ''}'') r
                  in if length n = length r then ('''', 1)
                     else if n = '''' then ('''', 2)
                     else (n, length n + 2))
          else if shell_special c then ([c], 1)
          else let n = takeWhile alpha_num s in (n, length n))"

function os_expand :: "(string \<Rightarrow> string) \<Rightarrow> string \<Rightarrow> string" where
  "os_expand m [] = []"
| "os_expand m (c # r) =
     (if c = CHR ''$'' \<and> r \<noteq> [] then
        (let (name, w) = shell_name r
         in (if name = '''' \<and> w > 0 then '''' else if name = '''' then ''$'' else m name) @
            os_expand m (drop w r))
      else c # os_expand m r)"
  by pat_completeness auto
termination by (relation "measure (\<lambda>(m, s). length s)") auto

definition expandStr :: "string set \<Rightarrow> (string \<Rightarrow> string) \<Rightarrow> string \<Rightarrow> string" where
  "expandStr whitelist getenv s =
     (if \<not> contains s ''${'' then s
      else os_expand (\<lambda>name. if name \<notin> whitelist then ''${'' @ name @ ''}'' else getenv name) s)"

subsection \<open>Texts with placeholders\<close>

datatype piece = Lit string | Ph string

fun render :: "piece \<Rightarrow> string" where
  "render (Lit s) = s"
| "render (Ph n) = ''${'' @ n @ ''}''"

fun piece_ok :: "piece \<Rightarrow> bool" where
  "piece_ok (Lit s) \<longleftrightarrow> CHR ''$'' \<notin> set s"
| "piece_ok (Ph n) \<longleftrightarrow> n \<noteq> '''' \<and> CHR ''}'' \<notin> set n"

fun substitute :: "string set \<Rightarrow> (string \<Rightarrow> string) \<Rightarrow> piece \<Rightarrow> string" where
  "substitute whitelist getenv (Lit s) = s"
| "substitute whitelist getenv (Ph n) = (if n \<in> whitelist then getenv n else ''${'' @ n @ ''}'')"

lemma takeWhile_until: "c \<notin> set n \<Longrightarrow> takeWhile (\<lambda>d. d \<noteq> c) (n @ c # t) = n"
  by (induction n) auto

lemma shell_name_braced:
  assumes "n \<noteq> ''''" and "CHR ''}'' \<notin> set n"
  shows "shell_name (CHR ''{'' # n @ CHR ''}'' # t) = (n, length n + 2)"
proof (cases "length n = 1")
  case True
  then obtain a where "n = [a]" by (auto simp: length_Suc_conv)
  with assms show ?thesis by (simp add: shell_name_def Let_def)
next
  case False
  with assms(1) obtain a b r where n: "n = a # b # r" by (metis length_Cons list.exhaust list.size(3) One_nat_def)
  with assms(2) have "b \<noteq> CHR ''}''" by auto
  with n takeWhile_until [OF assms(2), of t] show ?thesis by (simp add: shell_name_def Let_def)
qed

lemma os_expand_literal: "CHR ''$'' \<notin> set s \<Longrightarrow> os_expand m (s @ t) = s @ os_expand m t"
  by (induction s) auto

lemma os_expand_braced:
  "n \<noteq> '''' \<Longrightarrow> CHR ''}'' \<notin> set n \<Longrightarrow> os_expand m (''${'' @ n @ ''}'' @ t) = m n @ os_expand m t"
  by (simp add: shell_name_braced)

lemma os_expand_pieces:
  "list_all piece_ok ps \<Longrightarrow>
   os_expand (\<lambda>name. if name \<notin> whitelist then ''${'' @ name @ ''}'' else getenv name) (concat (map render ps) @ t) =
   concat (map (substitute whitelist getenv) ps) @
     os_expand (\<lambda>name. if name \<notin> whitelist then ''${'' @ name @ ''}'' else getenv name) t"
proof (induction ps)
  case (Cons p ps)
  then show ?case
    by (cases p) (use os_expand_literal os_expand_braced in \<open>simp_all del: os_expand.simps\<close>)
qed simp

lemma contains_append: "contains s u \<Longrightarrow> contains (p @ s @ q) u"
  by (auto simp: contains_def sublist_def) (metis append.assoc)

lemma no_placeholder:
  "list_all piece_ok ps \<Longrightarrow> \<not> contains (concat (map render ps)) ''${'' \<Longrightarrow>
   concat (map (substitute whitelist getenv) ps) = concat (map render ps)"
proof (induction ps)
  case (Cons p ps)
  have "\<not> contains (concat (map render ps)) ''${''"
    using Cons.prems(2) contains_append [of "concat (map render ps)" "''${''" "render p" "''''"] by auto
  moreover have "\<exists>s. p = Lit s"
  proof (cases p)
    case (Ph n)
    have "contains (''${'' @ n @ ''}'' @ concat (map render ps)) ''${''"
      unfolding contains_def sublist_def
      by (intro exI [of _ "''''"] exI [of _ "n @ ''}'' @ concat (map render ps)"]) simp
    with Ph Cons.prems(2) show ?thesis by simp
  qed simp
  ultimately show ?case using Cons by auto
qed simp

lemma expand_pieces_plain:
  assumes "list_all piece_ok ps"
  shows "expandStr whitelist getenv (concat (map render ps)) = concat (map (substitute whitelist getenv) ps)"
  using os_expand_pieces [OF assms, of whitelist getenv "''''"] no_placeholder [OF assms, of whitelist getenv]
  by (auto simp: expandStr_def)

text \<open>
  In a text made of literal parts without a dollar sign and of placeholders, expansion replaces exactly
  the placeholders whose name is whitelisted by the value of the variable and keeps everything else,
  the other placeholders included.
\<close>

theorem expand_placeholders:
  assumes "list_all piece_ok ps"
  shows "expandStr whitelist getenv (concat (map render ps)) = concat (map (substitute whitelist getenv) ps)"
  by (rule expand_pieces_plain [OF assms])

lemma expand_placeholders_witness:
  "expandStr {''POD_IP''} (\<lambda>n. ''10.0.0.1'') ''http://${POD_IP}:80/${DB_PASSWORD}'' =
   ''http://10.0.0.1:80/${DB_PASSWORD}''"
  using expand_placeholders [of "[Lit ''http://'', Ph ''POD_IP'', Lit '':80/'', Ph ''DB_PASSWORD'']"
      "{''POD_IP''}" "\<lambda>n. ''10.0.0.1''"] by simp

text \<open>
  Only placeholders are documented to be looked at, but a dollar sign in front of a name changes a value
  that also has a placeholder: a name that is not whitelisted gets braces around it, and a whitelisted
  name is replaced.
\<close>

theorem bare_dollar_changes_value:
  assumes "list_all piece_ok ps" and "list_all piece_ok qs" and "Ph x \<in> set qs"
    and "n \<noteq> ''''" and "list_all alpha_num n" and "\<not> shell_special (hd n)"
    and "t = concat (map render qs)" and "\<not> alpha_num (hd t)"
  shows "expandStr whitelist getenv (concat (map render ps) @ ''$'' @ n @ t) =
    concat (map (substitute whitelist getenv) ps) @
    (if n \<in> whitelist then getenv n else ''${'' @ n @ ''}'') @
    concat (map (substitute whitelist getenv) qs)"
proof -
  obtain q1 q2 where "qs = q1 @ Ph x # q2" using assms(3) by (meson split_list)
  then have t: "t = concat (map render q1) @ ''${'' @ (x @ ''}'' @ concat (map render q2))"
    using assms(7) by simp
  have "contains (concat (map render ps) @ ''$'' @ n @ t) ''${''"
    unfolding t contains_def sublist_def
    by (intro exI [of _ "concat (map render ps) @ ''$'' @ n @ concat (map render q1)"]
        exI [of _ "x @ ''}'' @ concat (map render q2)"]) simp
  moreover have ne: "t \<noteq> ''''" using t by simp
  obtain c cs where n: "n = c # cs" using assms(4) by (cases n) auto
  have c: "alpha_num c" "\<not> shell_special c" "c \<noteq> CHR ''{''"
    using assms(5, 6) n by (auto simp: alpha_num_def)
  have "takeWhile alpha_num (n @ t) = n"
    using assms(5, 8) ne by (cases t) (auto simp: list_all_iff takeWhile_append)
  then have "shell_name (n @ t) = (n, length n)"
    using c n by (simp add: shell_name_def Let_def)
  then have "os_expand m (CHR ''$'' # n @ t) = m n @ os_expand m t" for m
    using assms(4) by simp
  ultimately show ?thesis
    using os_expand_pieces [OF assms(1), of whitelist getenv "CHR ''$'' # n @ t"]
      os_expand_pieces [OF assms(2), of whitelist getenv "''''"] assms(7)
    by (simp add: expandStr_def del: os_expand.simps(2))
qed

lemma bare_dollar_changes_value_witness:
  "expandStr {''POD_IP''} (\<lambda>n. ''10.0.0.1'') ''pa$word@${POD_IP}'' = ''pa${word}@10.0.0.1''"
  using bare_dollar_changes_value [of "[Lit ''pa'']" "[Lit ''@'', Ph ''POD_IP'']" "''POD_IP''" "''word''" "''@${POD_IP}''"
      "{''POD_IP''}" "\<lambda>n. ''10.0.0.1''"]
  by (simp add: alpha_num_def shell_special_def)

end
