(* ===== verification/Crc32.thy ===== *)
theory Crc32
  imports Bytes
begin

text \<open>
  The checksum \<^verbatim>\<open>hash/crc32.ChecksumIEEE\<close>, bit by bit, which the feature flags and the table sharding use
  to spread keys over buckets.
\<close>

definition crc_bit :: "32 word \<Rightarrow> 32 word" where
  "crc_bit c = (if bit c 0 then drop_bit 1 c XOR 0xEDB88320 else drop_bit 1 c)"

definition crc_byte :: "char \<Rightarrow> 32 word \<Rightarrow> 32 word" where
  "crc_byte b c = (crc_bit ^^ 8) (c XOR word_of_nat (byte b))"

definition ChecksumIEEE :: "string \<Rightarrow> 32 word" where
  "ChecksumIEEE data = NOT (fold crc_byte data (NOT 0))"

text \<open>The bucket of a text among \<open>n\<close>.\<close>

definition crc_bucket :: "string \<Rightarrow> nat \<Rightarrow> nat" where
  "crc_bucket s n = unat (ChecksumIEEE s) mod n"

lemma crc_bucket_less: "0 < n \<Longrightarrow> crc_bucket s n < n"
  by (simp add: crc_bucket_def)

end
