(* ===== verification/ConfigLoader.thy ===== *)
theory ConfigLoader
  imports ConfigCrypt EnvExpand Crc32 "HOL-Library.AList"
begin

text \<open>
  The configuration loader (\<^verbatim>\<open>src/pkg/config\<close>: \<^verbatim>\<open>loader.go\<close>, \<^verbatim>\<open>options.go\<close>, \<^verbatim>\<open>schema.go\<close>).  Viper and the JSON
  schema library are the record \<open>viper_api\<close> over an arbitrary type of stores; the trees of settings are those
  of \<open>ConfigCrypt\<close>.  What a call reads from outside is an argument: the outcome of reading the
  local file and of the remote fetch, the environment, the clock.  A map is an association list; where the code ranges
  over a map, the order is an argument.  Logs and metrics are a list of events.  Values are never shared, so
  \<^verbatim>\<open>deepClone\<close> is the identity.  The theory shows what a reload does on every branch, that only
  valid configurations are served, that concurrent reloads can leave a stale configuration, and how
  feature flags roll out.
\<close>

subsection \<open>Options and libraries\<close>

record BootstrapOptions =
  o_ServiceName :: string
  o_Namespace :: string
  o_LocalPath :: string
  o_LocalConfigType :: string
  o_Remote :: "string option"
  o_EncryptKeyPath :: string
  o_EnvWhitelist :: "string list"
  o_HotReloadable :: "string list"
  o_FetchTimeout :: duration
  o_Schema :: string

record FeatureContext =
  fc_DeviceNo :: string
  fc_AccountId :: int
  fc_InstanceId :: string

record FeatureFlag =
  ff_Enabled :: bool
  ff_Rollout :: int

type_synonym settings = "(string \<times> cval) list"

text \<open>A validation error of the schema library: location, message and causes.\<close>

datatype verr = VErr (ve_InstanceLocation: string) (ve_Message: string) (ve_Causes: "verr list")

datatype schema_err = Validation verr | OtherErr string

record ('v, 's) viper_api =
  vp_new :: "string \<Rightarrow> 'v"
  vp_parse_yaml :: "string \<Rightarrow> string + settings"
  vp_merge :: "settings \<Rightarrow> 'v \<Rightarrow> string option \<times> 'v"
  vp_set :: "string \<Rightarrow> cval \<Rightarrow> 'v \<Rightarrow> 'v"
  vp_all :: "'v \<Rightarrow> settings"
  vp_is_set :: "string \<Rightarrow> 'v \<Rightarrow> bool"
  vp_get :: "string \<Rightarrow> 'v \<Rightarrow> cval"
  vp_flag :: "string \<Rightarrow> 'v \<Rightarrow> string + FeatureFlag"
  js_compile :: "string \<Rightarrow> string + 's"
  js_validate :: "'s \<Rightarrow> settings \<Rightarrow> schema_err option"
  show_val :: "cval \<Rightarrow> string"

datatype cfg_event = Log string string | Metric string "string list"

text \<open>A listener is a number; what it is called with stands in the list of calls.\<close>

record ('v, 's) Loader =
  l_opts :: BootstrapOptions
  l_vp :: 'v
  l_subscribed :: bool
  l_listeners :: "(string \<times> nat list) list"
  l_envWhitelist :: "string set"
  l_hotReload :: "string list option"
  l_remoteRaw :: "(string \<times> string) list"
  l_schema :: "'s option"
  l_events :: "cfg_event list"
  l_calls :: "(nat \<times> cval option \<times> cval option) list"

definition defaultEnvWhitelist :: "string list" where
  "defaultEnvWhitelist = [''POD_IP'', ''HOSTNAME'', ''VERSION'', ''NODE_NAME'', ''NAMESPACE'']"

definition toSet :: "string list \<Rightarrow> string list \<Rightarrow> string set" where
  "toSet vs fallback = set (filter (\<lambda>v. v \<noteq> '''') (if vs = [] then fallback else vs))"

definition toSetOrNil :: "string list \<Rightarrow> string list option" where
  "toSetOrNil vs = (if vs = [] then None else Some (remdups vs))"

definition labelOrEmpty :: "string \<Rightarrow> string" where
  "labelOrEmpty s = (if s = '''' then ''unknown'' else s)"

subsection \<open>Schema (\<^verbatim>\<open>schema.go\<close>)\<close>

definition compileSchema :: "('v, 's) viper_api \<Rightarrow> string \<Rightarrow> string + 's option" where
  "compileSchema api raw =
     (if trim_space raw = '''' then Inr None
      else case js_compile api (trim_space raw) of Inl e \<Rightarrow> Inl (''config: compile schema: '' @ e) | Inr s \<Rightarrow> Inr (Some s))"

fun collectLeafErrs :: "verr \<Rightarrow> string list" where
  "collectLeafErrs (VErr loc msg causes) =
     (if causes = [] then [(if loc = '''' then ''/'' else loc) @ '': '' @ msg]
      else concat (map collectLeafErrs causes))"

fun join_with :: "string \<Rightarrow> string list \<Rightarrow> string" where
  "join_with sep [] = ''''"
| "join_with sep [x] = x"
| "join_with sep (x # y # xs) = x @ sep @ join_with sep (y # xs)"

fun prettifySchemaErr :: "schema_err \<Rightarrow> string" where
  "prettifySchemaErr (OtherErr e) = e"
| "prettifySchemaErr (Validation ve) = join_with ''; '' (collectLeafErrs ve)"

definition validateAgainstSchema :: "('v, 's) viper_api \<Rightarrow> 's option \<Rightarrow> settings \<Rightarrow> string option" where
  "validateAgainstSchema api s settings =
     (case s of
        None \<Rightarrow> None
      | Some sc \<Rightarrow> map_option (\<lambda>e. ''config: schema validation failed: '' @ prettifySchemaErr e) (js_validate api sc settings))"

subsection \<open>Settings\<close>

definition mergeYamlInto :: "('v, 's) viper_api \<Rightarrow> 'v \<Rightarrow> string \<Rightarrow> string option \<times> 'v" where
  "mergeYamlInto api vp raw =
     (if trim_space raw = '''' then (None, vp)
      else case vp_parse_yaml api raw of
             Inl e \<Rightarrow> (Some e, vp)
           | Inr m \<Rightarrow> vp_merge api m vp)"

text \<open>Expansion reaches the strings of a slice and of the maps in it, but no slice inside a slice.\<close>

function expandEnvInPlace :: "string set \<Rightarrow> (string \<Rightarrow> string) \<Rightarrow> settings \<Rightarrow> settings"
  and expand_elems :: "string set \<Rightarrow> (string \<Rightarrow> string) \<Rightarrow> cval list \<Rightarrow> cval list" where
  "expandEnvInPlace wl env [] = []"
| "expandEnvInPlace wl env ((k, CStr s) # m) = (k, CStr (expandStr wl env s)) # expandEnvInPlace wl env m"
| "expandEnvInPlace wl env ((k, CMap sub) # m) = (k, CMap (expandEnvInPlace wl env sub)) # expandEnvInPlace wl env m"
| "expandEnvInPlace wl env ((k, CSlice es) # m) = (k, CSlice (expand_elems wl env es)) # expandEnvInPlace wl env m"
| "expandEnvInPlace wl env ((k, COther n) # m) = (k, COther n) # expandEnvInPlace wl env m"
| "expand_elems wl env [] = []"
| "expand_elems wl env (CStr s # es) = CStr (expandStr wl env s) # expand_elems wl env es"
| "expand_elems wl env (CMap sub # es) = CMap (expandEnvInPlace wl env sub) # expand_elems wl env es"
| "expand_elems wl env (CSlice s # es) = CSlice s # expand_elems wl env es"
| "expand_elems wl env (COther n # es) = COther n # expand_elems wl env es"
  by pat_completeness auto
termination
  by (relation "measure (case_sum (\<lambda>(wl, env, m). size (CMap m)) (\<lambda>(wl, env, es). size (CSlice es)))") simp_all

function hasEncrypted :: "settings \<Rightarrow> bool"
  and elems_encrypted :: "cval list \<Rightarrow> bool" where
  "hasEncrypted [] = False"
| "hasEncrypted ((k, CStr s) # m) = (IsEncrypted s \<or> hasEncrypted m)"
| "hasEncrypted ((k, CMap sub) # m) = (hasEncrypted sub \<or> hasEncrypted m)"
| "hasEncrypted ((k, CSlice es) # m) = (elems_encrypted es \<or> hasEncrypted m)"
| "hasEncrypted ((k, COther n) # m) = hasEncrypted m"
| "elems_encrypted [] = False"
| "elems_encrypted (CStr s # es) = (IsEncrypted s \<or> elems_encrypted es)"
| "elems_encrypted (CMap sub # es) = (hasEncrypted sub \<or> elems_encrypted es)"
| "elems_encrypted (CSlice s # es) = elems_encrypted es"
| "elems_encrypted (COther n # es) = elems_encrypted es"
  by pat_completeness auto
termination
  by (relation "measure (case_sum (\<lambda>m. size (CMap m)) (\<lambda>es. size (CSlice es)))") simp_all

text \<open>
  The keys.  The value is read after the expansion of the settings, which changes the slices of the
  source in place, so that a list of keys is expanded and a single string is not.
\<close>

fun key_elems :: "string set \<Rightarrow> (string \<Rightarrow> string) \<Rightarrow> cval list \<Rightarrow> string list" where
  "key_elems wl env [] = []"
| "key_elems wl env (CStr s # es) =
     (let t = trim_space (expandStr wl env s) in (if t \<noteq> '''' then [t] else []) @ key_elems wl env es)"
| "key_elems wl env (e # es) = key_elems wl env es"

fun split_commas :: "nat \<Rightarrow> string \<Rightarrow> string list" where
  "split_commas 0 s = [s]"
| "split_commas (Suc n) s =
     (if CHR '','' \<in> set s
      then takeWhile (\<lambda>c. c \<noteq> CHR '','') s # split_commas n (tl (dropWhile (\<lambda>c. c \<noteq> CHR '','') s))
      else [s])"

fun parse_keys :: "string \<Rightarrow> string list \<Rightarrow> string + string list" where
  "parse_keys path [] = Inr []"
| "parse_keys path (raw # raws) =
     (case ParseEncryptKey raw of
        Inl e \<Rightarrow> Inl (''config: parse encrypt key at '' @ path @ '': '' @ e)
      | Inr k \<Rightarrow> (case parse_keys path raws of Inl e \<Rightarrow> Inl e | Inr ks \<Rightarrow> Inr (k # ks)))"

definition parseEncryptKeysFromConfig ::
    "('v, 's) viper_api \<Rightarrow> string set \<Rightarrow> (string \<Rightarrow> string) \<Rightarrow> string \<Rightarrow> 'v \<Rightarrow> string + string list" where
  "parseEncryptKeysFromConfig api wl env path vp =
     (if \<not> vp_is_set api path vp then Inr []
      else case vp_get api path vp of
             CStr v \<Rightarrow> parse_keys path (filter (\<lambda>k. k \<noteq> '''') (map trim_space (split_commas (length v) v)))
           | CSlice es \<Rightarrow> parse_keys path (key_elems wl env es)
           | _ \<Rightarrow> Inl (''config: '' @ path @ '' must be string or []string''))"

fun try_keys :: "gcm \<Rightarrow> string list \<Rightarrow> settings \<Rightarrow> string \<Rightarrow> string + settings" where
  "try_keys g [] settings lastErr = Inl (''config: decrypt failed with all keys: '' @ lastErr)"
| "try_keys g (k # ks) settings lastErr =
     (case DecryptMap g k settings of
        (m, None) \<Rightarrow> Inr m
      | (m, Some e) \<Rightarrow> try_keys g ks settings e)"

text \<open>The settings after expansion and decryption.\<close>

definition final_settings ::
    "('v, 's) viper_api \<Rightarrow> gcm \<Rightarrow> string set \<Rightarrow> (string \<Rightarrow> string) \<Rightarrow> string \<Rightarrow> 'v \<Rightarrow> string + settings" where
  "final_settings api g wl env path src =
     (let settings = expandEnvInPlace wl env (vp_all api src)
      in if \<not> hasEncrypted settings then Inr settings
         else case parseEncryptKeysFromConfig api wl env path src of
                Inl e \<Rightarrow> Inl e
              | Inr encKeys \<Rightarrow>
                  if encKeys = [] then Inl (''config: encrypted value found but '' @ path @ '' is empty in config'')
                  else try_keys g encKeys settings '''')"

definition normalize ::
    "('v, 's) viper_api \<Rightarrow> gcm \<Rightarrow> BootstrapOptions \<Rightarrow> string set \<Rightarrow> (string \<Rightarrow> string) \<Rightarrow> 'v \<Rightarrow> string + 'v" where
  "normalize api g opts wl env src =
     (case final_settings api g wl env (o_EncryptKeyPath opts) src of
        Inl e \<Rightarrow> Inl e
      | Inr settings \<Rightarrow> Inr (fold (\<lambda>(k, v). vp_set api k v) settings (vp_new api (o_LocalConfigType opts))))"

subsection \<open>Differences and listeners\<close>

function flatten :: "string \<Rightarrow> settings \<Rightarrow> (string \<times> cval) list" where
  "flatten pre [] = []"
| "flatten pre ((k, v) # m) =
     (let key = (if pre = '''' then k else pre @ ''.'' @ k)
      in (case v of
            CMap sub \<Rightarrow> flatten key sub
          | _ \<Rightarrow> [(key, v)]) @ flatten pre m)"
  by pat_completeness auto
termination by (relation "measure (\<lambda>(pre, m). size (CMap m))") auto

definition flat_map :: "settings \<Rightarrow> string \<Rightarrow> cval option" where
  \<comment> \<open>the map that \<^verbatim>\<open>flatten\<close> fills: a later entry replaces an earlier one of the same key\<close>
  "flat_map m = map_of (rev (flatten '''' m))"

definition equalScalar :: "('v, 's) viper_api \<Rightarrow> cval \<Rightarrow> cval \<Rightarrow> bool" where
  "equalScalar api a b \<longleftrightarrow> show_val api a = show_val api b"

text \<open>The changed keys with the old and the new value, in the order \<open>ord\<close> of the map.\<close>

definition changed_keys :: "('v, 's) viper_api \<Rightarrow> settings \<Rightarrow> settings \<Rightarrow> (string \<times> cval option \<times> cval option) list" where
  "changed_keys api old new =
     (let oldFlat = flat_map old; newFlat = flat_map new
      in concat (map (\<lambda>k. case newFlat k of
             None \<Rightarrow> []
           | Some v \<Rightarrow> (case oldFlat k of
                None \<Rightarrow> [(k, None, Some v)]
              | Some ov \<Rightarrow> if equalScalar api ov v then [] else [(k, Some ov, Some v)]))
           (remdups (map fst (flatten '''' new)))) @
         concat (map (\<lambda>k. case oldFlat k of
             None \<Rightarrow> []
           | Some v \<Rightarrow> if newFlat k = None then [(k, Some v, None)] else [])
           (remdups (map fst (flatten '''' old)))))"

definition keyMatchesPrefix :: "string \<Rightarrow> string \<Rightarrow> bool" where
  "keyMatchesPrefix key pre \<longleftrightarrow> pre = '''' \<or> key = pre \<or> has_prefix key (pre @ ''.'')"

definition isHotReloadable :: "string list option \<Rightarrow> string \<Rightarrow> bool" where
  "isHotReloadable hot key \<longleftrightarrow> (case hot of None \<Rightarrow> True | Some ps \<Rightarrow> list_ex (keyMatchesPrefix key) ps)"

text \<open>The inner loop for one prefix: the first changed key that matches and may be reloaded fires.\<close>

fun fire_prefix :: "string list option \<Rightarrow> string \<Rightarrow> nat list \<Rightarrow> (string \<times> cval option \<times> cval option) list \<Rightarrow>
    cfg_event list \<times> (nat \<times> cval option \<times> cval option) list" where
  "fire_prefix hot pre fns [] = ([], [])"
| "fire_prefix hot pre fns ((k, ov) # ch) =
     (if \<not> keyMatchesPrefix k pre then fire_prefix hot pre fns ch
      else if \<not> isHotReloadable hot k then
        (let (es, cs) = fire_prefix hot pre fns ch
         in (Log ''warn'' ''config change requires restart, skip listener'' # es, cs))
      else ([], map (\<lambda>f. (f, ov)) fns))"

text \<open>The order in which the changed keys are visited is an argument for every prefix.\<close>

type_synonym key_order =
  "string \<Rightarrow> (string \<times> cval option \<times> cval option) list \<Rightarrow> (string \<times> cval option \<times> cval option) list"

definition fireDiff :: "('v, 's) viper_api \<Rightarrow> key_order \<Rightarrow> 'v \<Rightarrow> 'v \<Rightarrow> ('v, 's) Loader \<Rightarrow> ('v, 's) Loader" where
  "fireDiff api ord oldVp newVp l =
     (let changed = changed_keys api (vp_all api oldVp) (vp_all api newVp);
          rs = map (\<lambda>(pre, fns). fire_prefix (l_hotReload l) pre fns (ord pre changed)) (l_listeners l)
      in if changed = [] then l
         else l\<lparr>l_events := l_events l @ concat (map fst rs), l_calls := l_calls l @ concat (map snd rs)\<rparr>)"

subsection \<open>Start and reload\<close>

definition log :: "string \<Rightarrow> string \<Rightarrow> ('v, 's) Loader \<Rightarrow> ('v, 's) Loader" where
  "log level msg l = l\<lparr>l_events := l_events l @ [Log level msg]\<rparr>"

definition metric :: "string \<Rightarrow> string list \<Rightarrow> ('v, 's) Loader \<Rightarrow> ('v, 's) Loader" where
  "metric name labels l = l\<lparr>l_events := l_events l @ [Metric name labels]\<rparr>"

text \<open>Merging the remote documents in the given order; a document that cannot be merged is logged.\<close>

fun merge_remote :: "('v, 's) viper_api \<Rightarrow> (string \<times> string) list \<Rightarrow> 'v \<Rightarrow> cfg_event list \<times> 'v" where
  "merge_remote api [] vp = ([], vp)"
| "merge_remote api ((dataId, raw) # raws) vp =
     (let (e, vp1) = mergeYamlInto api vp raw;
          (es, vp2) = merge_remote api raws vp1
      in ((case e of None \<Rightarrow> [] | Some m \<Rightarrow> [Log ''warn'' ''remote merge failed'']) @ es, vp2))"

definition opts_defaults :: "BootstrapOptions \<Rightarrow> BootstrapOptions" where
  "opts_defaults o0 =
     (let o1 = (if o_LocalConfigType o0 = '''' then o0\<lparr>o_LocalConfigType := ''yaml''\<rparr> else o0);
          o2 = (if o_FetchTimeout o1 \<le> 0 then o1\<lparr>o_FetchTimeout := 5 * second\<rparr> else o1)
      in if o_EncryptKeyPath o2 = '''' then o2\<lparr>o_EncryptKeyPath := ''config.encryptKey''\<rparr> else o2)"

text \<open>
  \<open>local\<close> is the outcome of reading the local file with viper, \<open>fetch\<close> that of the remote fetch, and
  \<open>listen\<close> that of the subscription; the events of a failed start are lost with the loader.
\<close>

definition Bootstrap ::
    "('v, 's) viper_api \<Rightarrow> gcm \<Rightarrow> (string \<Rightarrow> string) \<Rightarrow> string + 'v \<Rightarrow> string + (string \<times> string) list \<Rightarrow>
     string option \<Rightarrow> BootstrapOptions \<Rightarrow> string + ('v, 's) Loader" where
  "Bootstrap api g env loc fetch listen opts0 =
     (if o_LocalPath opts0 = '''' then Inl ''config: LocalPath is required''
      else
        (let opts = opts_defaults opts0
         in case compileSchema api (o_Schema opts) of
              Inl e \<Rightarrow> Inl e
            | Inr schema \<Rightarrow>
                (case loc of
                   Inl e \<Rightarrow> Inl (''config: read local: '' @ e)
                 | Inr vp0 \<Rightarrow>
                     (let l0 = \<lparr>l_opts = opts, l_vp = vp0, l_subscribed = False, l_listeners = [],
                                l_envWhitelist = toSet (o_EnvWhitelist opts) defaultEnvWhitelist,
                                l_hotReload = toSetOrNil (o_HotReloadable opts), l_remoteRaw = [],
                                l_schema = schema, l_events = [], l_calls = []\<rparr>;
                          svc = labelOrEmpty (o_ServiceName opts);
                          (l1, vp1) =
                            (case o_Remote opts of
                               None \<Rightarrow> (l0, vp0)
                             | Some name \<Rightarrow>
                                 (let l' = metric ''config_fetch_duration_ms'' [svc, labelOrEmpty name] l0
                                  in case fetch of
                                       Inl e \<Rightarrow>
                                         (log ''warn'' ''remote fetch failed, fall back to local''
                                            (metric ''config_local_fallback_used_total'' [svc]
                                              (metric ''config_nacos_disconnect_total'' []
                                                (metric ''config_fetch_total'' [svc, labelOrEmpty name, ''error''] l'))), vp0)
                                     | Inr raws \<Rightarrow>
                                         (let (es, vp') = merge_remote api raws vp0;
                                              l2 = metric ''config_fetch_total'' [svc, labelOrEmpty name, ''ok''] l'
                                          in (l2\<lparr>l_remoteRaw := raws, l_events := l_events l2 @ es\<rparr>, vp'))))
                      in case normalize api g opts (l_envWhitelist l1) env vp1 of
                           Inl e \<Rightarrow> Inl e
                         | Inr finalVp \<Rightarrow>
                             (case validateAgainstSchema api schema (vp_all api finalVp) of
                                Some e \<Rightarrow> Inl e
                              | None \<Rightarrow>
                                  (let l3 = l1\<lparr>l_vp := finalVp\<rparr>
                                   in Inr (case o_Remote opts of
                                        None \<Rightarrow> l3
                                      | Some name \<Rightarrow>
                                          (case listen of
                                             None \<Rightarrow> l3\<lparr>l_subscribed := True\<rparr>
                                           | Some e \<Rightarrow> log ''warn'' ''remote listen failed'' l3))))))))"

text \<open>
  The callback of the remote source in three parts, as the code locks: recording the document and copying
  all documents, building a configuration from a copy, and putting it into service.
\<close>

definition record_raw :: "string \<Rightarrow> string \<Rightarrow> ('v, 's) Loader \<Rightarrow> ('v, 's) Loader" where
  "record_raw dataId raw l = l\<lparr>l_remoteRaw := AList.update dataId raw (l_remoteRaw l)\<rparr>"

text \<open>Building reads nothing of the loader that changes: its result is the events and the new store, or none.\<close>

definition rebuild ::
    "('v, 's) viper_api \<Rightarrow> gcm \<Rightarrow> (string \<Rightarrow> string) \<Rightarrow> string + 'v \<Rightarrow> ('v, 's) Loader \<Rightarrow> (string \<times> string) list \<Rightarrow>
     cfg_event list \<times> 'v option" where
  "rebuild api g env loc l rawCopies =
     (case loc of
        Inl e \<Rightarrow> ([Log ''error'' ''reload local fail on remote change''], None)
      | Inr vp0 \<Rightarrow>
          (let (es, rebuilt) = merge_remote api rawCopies vp0
           in case normalize api g (l_opts l) (l_envWhitelist l) env rebuilt of
                Inl e \<Rightarrow> (es @ [Log ''error'' ''normalize on remote change''], None)
              | Inr final \<Rightarrow>
                  (case validateAgainstSchema api (l_schema l) (vp_all api final) of
                     Some e \<Rightarrow>
                       (es @ [Metric ''config_validation_failure_total'' [labelOrEmpty (o_ServiceName (l_opts l))],
                              Log ''error'' ''schema validation failed on hot reload, keep previous config''], None)
                   | None \<Rightarrow> (es, Some final))))"

definition install ::
    "('v, 's) viper_api \<Rightarrow> key_order \<Rightarrow> string \<Rightarrow> cfg_event list \<times> 'v option \<Rightarrow> ('v, 's) Loader \<Rightarrow> ('v, 's) Loader" where
  "install api ord dataId built l0 =
     (let l = l0\<lparr>l_events := l_events l0 @ fst built\<rparr>
      in case snd built of
           None \<Rightarrow> l
         | Some final \<Rightarrow>
             metric ''config_listen_total'' [labelOrEmpty (o_ServiceName (l_opts l)), labelOrEmpty dataId]
               (log ''info'' ''config reloaded'' (fireDiff api ord (l_vp l) final (l\<lparr>l_vp := final\<rparr>))))"

text \<open>\<open>copy\<close> puts the copied documents into the order in which they are merged.\<close>

definition onRemoteChange ::
    "('v, 's) viper_api \<Rightarrow> gcm \<Rightarrow> (string \<Rightarrow> string) \<Rightarrow> key_order \<Rightarrow> ((string \<times> string) list \<Rightarrow> (string \<times> string) list) \<Rightarrow>
     string + 'v \<Rightarrow> string \<Rightarrow> string \<Rightarrow> ('v, 's) Loader \<Rightarrow> ('v, 's) Loader" where
  "onRemoteChange api g env ord copy loc dataId raw l =
     (let l1 = record_raw dataId raw l
      in install api ord dataId (rebuild api g env loc l1 (copy (l_remoteRaw l1))) l1)"

subsection \<open>Reading\<close>

definition Loader_Get :: "('v, 's) viper_api \<Rightarrow> string \<Rightarrow> ('v, 's) Loader \<Rightarrow> cval" where
  "Loader_Get api key l = vp_get api key (l_vp l)"

definition Loader_IsSet :: "('v, 's) viper_api \<Rightarrow> string \<Rightarrow> ('v, 's) Loader \<Rightarrow> bool" where
  "Loader_IsSet api key l = vp_is_set api key (l_vp l)"

definition AllSettings :: "('v, 's) viper_api \<Rightarrow> ('v, 's) Loader \<Rightarrow> settings" where
  "AllSettings api l = vp_all api (l_vp l)"

definition OnChange :: "string \<Rightarrow> nat \<Rightarrow> ('v, 's) Loader \<Rightarrow> ('v, 's) Loader" where
  "OnChange pre fn l =
     l\<lparr>l_listeners := AList.map_default pre [fn] (\<lambda>fns. fns @ [fn]) (l_listeners l)\<rparr>"

definition Loader_Set :: "('v, 's) viper_api \<Rightarrow> string \<Rightarrow> cval \<Rightarrow> ('v, 's) Loader \<Rightarrow> ('v, 's) Loader" where
  "Loader_Set api key v l = l\<lparr>l_vp := vp_set api key v (l_vp l)\<rparr>"

text \<open>\<^verbatim>\<open>Close\<close> calls what \<^verbatim>\<open>Listen\<close> returned, if anything; \<open>cancelled\<close> is the outcome of that call.\<close>

definition Loader_Close :: "string option \<Rightarrow> ('v, 's) Loader \<Rightarrow> string option" where
  "Loader_Close cancelled l = (if l_subscribed l then cancelled else None)"

subsection \<open>Feature flags\<close>

definition featureBucket :: "FeatureContext \<Rightarrow> nat" where
  "featureBucket ctx =
     crc_bucket (fc_DeviceNo ctx @ ''|'' @ format_int (fc_AccountId ctx) @ ''|'' @ fc_InstanceId ctx) 100"

definition Feature :: "('v, 's) viper_api \<Rightarrow> string \<Rightarrow> FeatureContext \<Rightarrow> ('v, 's) Loader \<Rightarrow> bool \<times> ('v, 's) Loader" where
  "Feature api name ctx l =
     (let key = ''flags.'' @ name
      in if \<not> Loader_IsSet api key l then (False, l)
         else case vp_flag api key (l_vp l) of
                Inl e \<Rightarrow> (False, log ''warn'' ''feature bind fail'' l)
              | Inr f \<Rightarrow>
                  (if \<not> ff_Enabled f then False
                   else if ff_Rollout f \<ge> 100 then True
                   else if ff_Rollout f \<le> 0 then False
                   else int (featureBucket ctx) < ff_Rollout f, l))"

subsection \<open>Lemmas\<close>

lemma fire_prefix_calls:
  "snd (fire_prefix hot pre fns ch) =
     (case find (\<lambda>kv. keyMatchesPrefix (fst kv) pre \<and> isHotReloadable hot (fst kv)) ch of
        None \<Rightarrow> [] | Some kv \<Rightarrow> map (\<lambda>f. (f, snd kv)) fns)"
  by (induction ch) (auto split: prod.split)

text \<open>Whether a key counts as changed.\<close>

definition differs :: "('v, 's) viper_api \<Rightarrow> cval option \<Rightarrow> cval option \<Rightarrow> bool" where
  "differs api old new =
     (case (old, new) of (Some a, Some b) \<Rightarrow> \<not> equalScalar api a b | (None, None) \<Rightarrow> False | _ \<Rightarrow> True)"

lemma flat_map_dom: "k \<in> set (map fst (flatten '''' m)) \<longleftrightarrow> flat_map m k \<noteq> None"
proof -
  have "dom (map_of (rev (flatten '''' m))) = set (map fst (flatten '''' m))"
    by (simp add: dom_map_of_conv_image_fst)
  then show ?thesis unfolding flat_map_def by blast
qed

lemma in_concat_map: "x \<in> set (concat (map f (remdups xs))) \<longleftrightarrow> (\<exists>y \<in> set xs. x \<in> set (f y))"
  by auto

lemma in_changed_keys:
  "(k, old, new) \<in> set (changed_keys api m m') \<longleftrightarrow>
     old = flat_map m k \<and> new = flat_map m' k \<and> differs api old new"
proof -
  let ?A = "\<lambda>k. case flat_map m' k of None \<Rightarrow> [] | Some v \<Rightarrow> (case flat_map m k of
                None \<Rightarrow> [(k, None, Some v)] | Some ov \<Rightarrow> if equalScalar api ov v then [] else [(k, Some ov, Some v)])"
  let ?B = "\<lambda>k. case flat_map m k of None \<Rightarrow> [] | Some v \<Rightarrow> if flat_map m' k = None then [(k, Some v, None)] else []"
  have "(k, old, new) \<in> set (changed_keys api m m') \<longleftrightarrow>
      (\<exists>x. flat_map m' x \<noteq> None \<and> (k, old, new) \<in> set (?A x)) \<or>
      (\<exists>x. flat_map m x \<noteq> None \<and> (k, old, new) \<in> set (?B x))"
    by (simp only: changed_keys_def Let_def set_append Un_iff in_concat_map Bex_def flat_map_dom)
  also have "\<dots> \<longleftrightarrow> (\<exists>x. x = k \<and> flat_map m' x \<noteq> None \<and> (k, old, new) \<in> set (?A x)) \<or>
      (\<exists>x. x = k \<and> flat_map m x \<noteq> None \<and> (k, old, new) \<in> set (?B x))"
  proof -
    have "(k, old, new) \<in> set (?A x) \<Longrightarrow> x = k" for x
      by (cases "flat_map m' x"; cases "flat_map m x") (auto split: if_splits)
    moreover have "(k, old, new) \<in> set (?B x) \<Longrightarrow> x = k" for x
      by (cases "flat_map m x") (auto split: if_splits)
    ultimately show ?thesis by blast
  qed
  also have "\<dots> \<longleftrightarrow> old = flat_map m k \<and> new = flat_map m' k \<and> differs api old new"
    by (cases "flat_map m k"; cases "flat_map m' k") (auto simp: differs_def)
  finally show ?thesis .
qed

lemma fireDiff_fields [simp]:
  "l_vp (fireDiff api ord v v' l) = l_vp l" "l_opts (fireDiff api ord v v' l) = l_opts l"
  "l_schema (fireDiff api ord v v' l) = l_schema l" "l_remoteRaw (fireDiff api ord v v' l) = l_remoteRaw l"
  "l_envWhitelist (fireDiff api ord v v' l) = l_envWhitelist l" "l_listeners (fireDiff api ord v v' l) = l_listeners l"
  by (simp_all add: fireDiff_def Let_def)

lemma event_fields [simp]:
  "l_vp (log a b l) = l_vp l" "l_vp (metric a c l) = l_vp l" "l_opts (log a b l) = l_opts l"
  "l_opts (metric a c l) = l_opts l" "l_schema (log a b l) = l_schema l" "l_schema (metric a c l) = l_schema l"
  "l_remoteRaw (log a b l) = l_remoteRaw l" "l_remoteRaw (metric a c l) = l_remoteRaw l"
  "l_calls (log a b l) = l_calls l" "l_calls (metric a c l) = l_calls l"
  "l_listeners (log a b l) = l_listeners l" "l_listeners (metric a c l) = l_listeners l"
  "l_envWhitelist (log a b l) = l_envWhitelist l" "l_envWhitelist (metric a c l) = l_envWhitelist l"
  "l_hotReload (log a b l) = l_hotReload l" "l_hotReload (metric a c l) = l_hotReload l"
  by (simp_all add: log_def metric_def)

lemma install_fields [simp]:
  "l_vp (install api ord d b l) = (case snd b of None \<Rightarrow> l_vp l | Some v \<Rightarrow> v)"
  "l_opts (install api ord d b l) = l_opts l" "l_schema (install api ord d b l) = l_schema l"
  "l_remoteRaw (install api ord d b l) = l_remoteRaw l" "l_listeners (install api ord d b l) = l_listeners l"
  "l_envWhitelist (install api ord d b l) = l_envWhitelist l"
  by (simp_all add: install_def Let_def split: option.split)

lemma record_raw_fields [simp]:
  "l_vp (record_raw d r l) = l_vp l" "l_opts (record_raw d r l) = l_opts l" "l_schema (record_raw d r l) = l_schema l"
  "l_listeners (record_raw d r l) = l_listeners l" "l_hotReload (record_raw d r l) = l_hotReload l"
  "l_calls (record_raw d r l) = l_calls l" "l_envWhitelist (record_raw d r l) = l_envWhitelist l"
  "l_remoteRaw (record_raw d r l) = AList.update d r (l_remoteRaw l)"
  by (simp_all add: record_raw_def)

lemma rebuild_valid:
  "snd (rebuild api g env loc l raws) = Some v \<Longrightarrow> validateAgainstSchema api (l_schema l) (vp_all api v) = None"
  by (auto simp: rebuild_def split: sum.splits option.splits prod.splits)

text \<open>The calls a reload adds, by prefix.\<close>

definition prefix_calls :: "('v, 's) viper_api \<Rightarrow> key_order \<Rightarrow> string list option \<Rightarrow> settings \<Rightarrow> settings \<Rightarrow>
    string \<times> nat list \<Rightarrow> (nat \<times> cval option \<times> cval option) list" where
  "prefix_calls api ord hot m m' pf = snd (fire_prefix hot (fst pf) (snd pf) (ord (fst pf) (changed_keys api m m')))"

lemma fireDiff_calls:
  assumes "\<And>p xs. set (ord p xs) = set xs"
  shows "l_calls (fireDiff api ord v v' l) =
    l_calls l @ concat (map (prefix_calls api ord (l_hotReload l) (vp_all api v) (vp_all api v')) (l_listeners l))"
proof (cases "changed_keys api (vp_all api v) (vp_all api v') = []")
  case True
  then have "ord p (changed_keys api (vp_all api v) (vp_all api v')) = []" for p
    using assms [of p "[]"] by simp
  then have "prefix_calls api ord (l_hotReload l) (vp_all api v) (vp_all api v') = (\<lambda>pf. [])"
    by (simp add: prefix_calls_def fun_eq_iff)
  then show ?thesis using True by (simp add: fireDiff_def Let_def)
next
  case False
  then show ?thesis
    by (simp add: fireDiff_def Let_def prefix_calls_def [abs_def] comp_def case_prod_beta')
qed

text \<open>The key \<open>k\<close> makes the listeners of a prefix be called when \<open>m\<close> is replaced by \<open>m'\<close>.\<close>

definition fires :: "('v, 's) viper_api \<Rightarrow> string list option \<Rightarrow> settings \<Rightarrow> settings \<Rightarrow> string \<Rightarrow> string \<Rightarrow> bool" where
  "fires api hot m m' pre k \<longleftrightarrow>
     differs api (flat_map m k) (flat_map m' k) \<and> keyMatchesPrefix k pre \<and> isHotReloadable hot k"

lemma find_in: "find P xs = Some x \<Longrightarrow> x \<in> set xs \<and> P x"
  by (induction xs) (auto split: if_splits)

lemma prefix_calls_spec:
  assumes "\<And>p xs. set (ord p xs) = set xs"
  shows "if \<exists>k. fires api hot m m' pre k
    then \<exists>k. fires api hot m m' pre k \<and> prefix_calls api ord hot m m' (pre, fns) = map (\<lambda>f. (f, flat_map m k, flat_map m' k)) fns
    else prefix_calls api ord hot m m' (pre, fns) = []"
proof (cases "find (\<lambda>kv. keyMatchesPrefix (fst kv) pre \<and> isHotReloadable hot (fst kv)) (ord pre (changed_keys api m m'))")
  case None
  then have "\<not> (\<exists>k. fires api hot m m' pre k)"
    using assms(1) [of pre] in_changed_keys [of _ _ _ api m m'] by (fastforce simp: find_None_iff fires_def)
  with None show ?thesis by (simp add: prefix_calls_def fire_prefix_calls)
next
  case (Some kv)
  obtain k ov nv where kv: "kv = (k, ov, nv)" by (metis prod_cases3)
  have "kv \<in> set (changed_keys api m m')" "keyMatchesPrefix k pre \<and> isHotReloadable hot k"
    using find_in [OF Some] kv assms(1) [of pre] by simp_all
  then have "fires api hot m m' pre k" "ov = flat_map m k" "nv = flat_map m' k"
    unfolding kv in_changed_keys fires_def by auto
  then show ?thesis using Some kv by (auto simp: prefix_calls_def fire_prefix_calls)
qed

subsection \<open>Properties\<close>

text \<open>
  C19. What a change of one remote document does.  If no configuration can be built from the local file and all
  documents received so far (the file is unreadable, a value cannot be decrypted, the schema is violated),
  the configuration in service stays and no listener is called.  Otherwise the new configuration is in
  service, it satisfies the schema, and the listeners of a prefix are called, once each and with the old
  and the new value of one changed key, if and only if some changed key is under the prefix and may
  be reloaded while running.
\<close>

theorem reload_outcomes:
  assumes "\<And>p xs. set (ord p xs) = set xs"
    and "l' = onRemoteChange api g env ord copy loc d raw l"
  shows "l_remoteRaw l' = AList.update d raw (l_remoteRaw l) \<and>
    (case snd (rebuild api g env loc (record_raw d raw l) (copy (AList.update d raw (l_remoteRaw l)))) of
       None \<Rightarrow> l_vp l' = l_vp l \<and> l_calls l' = l_calls l
     | Some v \<Rightarrow> l_vp l' = v \<and> validateAgainstSchema api (l_schema l) (vp_all api v) = None \<and>
         (\<exists>calls. l_calls l' = l_calls l @ concat (map calls (l_listeners l)) \<and>
            (\<forall>pre fns. if \<exists>k. fires api (l_hotReload l) (vp_all api (l_vp l)) (vp_all api v) pre k
               then \<exists>k. fires api (l_hotReload l) (vp_all api (l_vp l)) (vp_all api v) pre k \<and>
                    calls (pre, fns) = map (\<lambda>f. (f, flat_map (vp_all api (l_vp l)) k, flat_map (vp_all api v) k)) fns
               else calls (pre, fns) = [])))"
proof (cases "snd (rebuild api g env loc (record_raw d raw l) (copy (AList.update d raw (l_remoteRaw l))))")
  case None
  then show ?thesis by (simp add: assms(2) onRemoteChange_def Let_def) (simp add: install_def)
next
  case (Some v)
  let ?calls = "prefix_calls api ord (l_hotReload l) (vp_all api (l_vp l)) (vp_all api v)"
  have "l_calls l' = l_calls l @ concat (map ?calls (l_listeners l))"
    using Some fireDiff_calls [of ord api "l_vp l" v, OF assms(1)]
    by (simp add: assms(2) onRemoteChange_def Let_def install_def)
  moreover have "l_vp l' = v" "l_remoteRaw l' = AList.update d raw (l_remoteRaw l)"
    using Some by (simp_all add: assms(2) onRemoteChange_def Let_def)
  moreover have "validateAgainstSchema api (l_schema l) (vp_all api v) = None"
    using rebuild_valid [OF Some] by simp
  ultimately show ?thesis
    unfolding Some option.case
    by (intro conjI exI [of _ ?calls] allI prefix_calls_spec [OF assms(1)]) simp_all
qed

datatype loader_op =
    Change string string "string \<Rightarrow> string" "(string \<times> string) list \<Rightarrow> (string \<times> string) list"
  | Subscribe string nat

fun run_op :: "('v, 's) viper_api \<Rightarrow> gcm \<Rightarrow> key_order \<Rightarrow> (nat \<Rightarrow> string + 'v) \<Rightarrow> nat \<times> loader_op \<Rightarrow>
    ('v, 's) Loader \<Rightarrow> ('v, 's) Loader" where
  "run_op api g ord loc (n, Change d raw env copy) l = onRemoteChange api g env ord copy (loc n) d raw l"
| "run_op api g ord loc (n, Subscribe pre f) l = OnChange pre f l"

definition serves_valid :: "('v, 's) viper_api \<Rightarrow> ('v, 's) Loader \<Rightarrow> bool" where
  "serves_valid api l \<longleftrightarrow> validateAgainstSchema api (l_schema l) (vp_all api (l_vp l)) = None"

lemma serves_valid_log [simp]: "serves_valid api (log a b l) = serves_valid api l"
  by (simp add: serves_valid_def)

lemma serves_valid_OnChange [simp]: "serves_valid api (OnChange pre f l) = serves_valid api l"
  by (simp add: serves_valid_def OnChange_def)

lemma Bootstrap_valid:
  assumes "Bootstrap api g env loc fetch listen opts = Inr l"
  shows "serves_valid api l"
  using assms
  by (auto simp: Bootstrap_def Let_def serves_valid_def log_def metric_def
      split: if_splits sum.splits option.splits prod.splits)

lemma onRemoteChange_valid:
  assumes "serves_valid api l"
  shows "serves_valid api (onRemoteChange api g env ord copy loc d raw l)"
proof (cases "snd (rebuild api g env loc (record_raw d raw l) (copy (AList.update d raw (l_remoteRaw l))))")
  case None
  then show ?thesis using assms by (simp add: onRemoteChange_def serves_valid_def Let_def)
next
  case (Some v)
  then show ?thesis using rebuild_valid [OF Some] by (simp add: onRemoteChange_def serves_valid_def Let_def)
qed

text \<open>
  C18. The loader only ever serves configurations that satisfy its schema: the one it starts with does, and
  so does the one in service after any sequence of remote changes (with whatever documents, local files and
  environments, whether they are accepted or refused) and subscriptions.
\<close>

theorem loader_serves_valid:
  assumes "Bootstrap api g env loc0 fetch listen opts = Inr l"
  shows "serves_valid api (fold (run_op api g ord loc) ops l)"
proof -
  have "serves_valid api l' \<Longrightarrow> serves_valid api (fold (run_op api g ord loc) ops l')" for l'
  proof (induction ops arbitrary: l')
    case (Cons op ops)
    obtain n c where op: "op = (n, c)" by fastforce
    have "serves_valid api (run_op api g ord loc op l')"
      using Cons.prems onRemoteChange_valid unfolding op
      by (cases c) simp_all
    then show ?case using Cons.IH by simp
  qed simp
  then show ?thesis using Bootstrap_valid [OF assms] by blast
qed

subsection \<open>Concurrent changes\<close>

text \<open>
  The remote source may call the callback from several goroutines.  A call first records its document and copies all
  documents under the lock; it builds and installs a configuration from its copy later, without a lock.
\<close>

record ('v, 's) loader_sys =
  sys_loader :: "('v, 's) Loader"
  sys_running :: "(string \<times> (string \<times> string) list) list"

inductive load_step :: "('v, 's) viper_api \<Rightarrow> gcm \<Rightarrow> (string \<Rightarrow> string) \<Rightarrow> key_order \<Rightarrow> string + 'v \<Rightarrow>
    ('v, 's) loader_sys \<Rightarrow> ('v, 's) loader_sys \<Rightarrow> bool" for api g env ord loc where
  arrive: "load_step api g env ord loc s
     (s\<lparr>sys_loader := record_raw d raw (sys_loader s),
        sys_running := sys_running s @ [(d, AList.update d raw (l_remoteRaw (sys_loader s)))]\<rparr>)"
| finish: "(d, copy) \<in> set (sys_running s) \<Longrightarrow> load_step api g env ord loc s
     (s\<lparr>sys_loader := install api ord d (rebuild api g env loc (sys_loader s) copy) (sys_loader s),
        sys_running := remove1 (d, copy) (sys_running s)\<rparr>)"

inductive load_reach :: "('v, 's) viper_api \<Rightarrow> gcm \<Rightarrow> (string \<Rightarrow> string) \<Rightarrow> key_order \<Rightarrow> string + 'v \<Rightarrow>
    ('v, 's) loader_sys \<Rightarrow> ('v, 's) loader_sys \<Rightarrow> bool" for api g env ord loc where
  load_init: "load_reach api g env ord loc s s"
| load_more: "load_reach api g env ord loc s s1 \<Longrightarrow> load_step api g env ord loc s1 s2 \<Longrightarrow> load_reach api g env ord loc s s2"

text \<open>Building depends on the options, the whitelist and the schema only.\<close>

lemma rebuild_cong:
  assumes "l_opts l = l_opts l'" and "l_envWhitelist l = l_envWhitelist l'" and "l_schema l = l_schema l'"
  shows "rebuild api g env loc l c = rebuild api g env loc l' c"
  unfolding rebuild_def assms by (rule refl)

text \<open>
  C30. A reload can be lost.  When two documents change at the same time, the call for the first may have copied
  the documents before the second arrived and install its configuration after the second call has
  installed the newer one.  Then all calls have returned, the loader has recorded both documents, and
  the configuration in service is the one without the second document, until some document changes again.
\<close>

theorem concurrent_reload_stale:
  assumes "d1 \<noteq> d2"
    and "snd (rebuild api g env loc l (AList.update d1 r1 (l_remoteRaw l))) = Some v1"
    and "snd (rebuild api g env loc l (AList.update d2 r2 (AList.update d1 r1 (l_remoteRaw l)))) = Some v2"
  shows "\<exists>l'. load_reach api g env ord loc \<lparr>sys_loader = l, sys_running = []\<rparr> \<lparr>sys_loader = l', sys_running = []\<rparr> \<and>
    l_remoteRaw l' = AList.update d2 r2 (AList.update d1 r1 (l_remoteRaw l)) \<and>
    l_vp l' = v1 \<and> snd (rebuild api g env loc l' (l_remoteRaw l')) = Some v2"
proof -
  let ?c1 = "AList.update d1 r1 (l_remoteRaw l)" and ?c2 = "AList.update d2 r2 (AList.update d1 r1 (l_remoteRaw l))"
  let ?step = "load_step api g env ord loc" and ?reach = "load_reach api g env ord loc \<lparr>sys_loader = l, sys_running = []\<rparr>"
  let ?l2 = "record_raw d2 r2 (record_raw d1 r1 l)"
  let ?l3 = "install api ord d2 (rebuild api g env loc ?l2 ?c2) ?l2"
  let ?l4 = "install api ord d1 (rebuild api g env loc ?l3 ?c1) ?l3"
  have "?reach \<lparr>sys_loader = record_raw d1 r1 l, sys_running = [(d1, ?c1)]\<rparr>"
    using load_more [OF load_init arrive [of api g env ord loc "\<lparr>sys_loader = l, sys_running = []\<rparr>" d1 r1]] by simp
  from load_more [OF this arrive [of api g env ord loc "\<lparr>sys_loader = record_raw d1 r1 l, sys_running = [(d1, ?c1)]\<rparr>" d2 r2]]
  have "?reach \<lparr>sys_loader = ?l2, sys_running = [(d1, ?c1), (d2, ?c2)]\<rparr>" by simp
  from load_more [OF this finish [of d2 ?c2 "\<lparr>sys_loader = ?l2, sys_running = [(d1, ?c1), (d2, ?c2)]\<rparr>"]]
  have r3: "?reach \<lparr>sys_loader = ?l3, sys_running = [(d1, ?c1)]\<rparr>" using assms(1) by simp
  from load_more [OF this finish [of d1 ?c1 "\<lparr>sys_loader = ?l3, sys_running = [(d1, ?c1)]\<rparr>"]]
  have "?reach \<lparr>sys_loader = ?l4, sys_running = []\<rparr>" by simp
  moreover have "rebuild api g env loc ?l3 ?c1 = rebuild api g env loc l ?c1"
      "rebuild api g env loc ?l4 ?c2 = rebuild api g env loc l ?c2"
    by (rule rebuild_cong; simp)+
  ultimately show ?thesis using assms by (intro exI [of _ ?l4]) simp
qed

subsection \<open>Encrypted values and feature flags\<close>

lemma try_keys_skip:
  "\<forall>k \<in> set ks. snd (DecryptMap g k m) \<noteq> None \<Longrightarrow>
   \<exists>e'. try_keys g (ks @ rest) m e = try_keys g rest m e'"
  by (induction ks arbitrary: e) (auto split: prod.splits option.splits)

text \<open>
  C22. During a rotation of keys the settings are decrypted with the first key that fits: if a tree of settings
  was encrypted with a key (any choice of its strings, at any depth), this key is in the list of
  configured keys and the keys before it do not fit, then the final settings are the original tree.
\<close>

theorem config_decrypts_with_any_key:
  assumes "good_gcm g key" and "length key = 16" and "sealed_as g key (CMap m) (CMap m')"
    and "expandEnvInPlace wl env (vp_all api src) = m'" and "hasEncrypted m'"
    and "parseEncryptKeysFromConfig api wl env path src = Inr (before @ key # after)"
    and "\<forall>k \<in> set before. snd (DecryptMap g k m') \<noteq> None"
  shows "final_settings api g wl env path src = Inr m"
proof -
  have d: "DecryptMap g key m' = (m, None)"
    by (rule settings_round [OF assms(1-3)])
  obtain e where "try_keys g (before @ key # after) m' '''' = try_keys g (key # after) m' e"
    using try_keys_skip [OF assms(7)] by blast
  then show ?thesis using d assms(4-6) by (simp add: final_settings_def Let_def)
qed

text \<open>
  A value encrypted in a slice inside a slice is not noticed: with no other encrypted value the configuration is
  accepted with the encrypted text, whether or not a key is configured.
\<close>

lemma nested_slice_stays_encrypted:
  assumes "vp_all api src = [(k, CSlice [CSlice [CStr c]])]"
  shows "final_settings api g wl env path src = Inr [(k, CSlice [CSlice [CStr c]])]"
  using assms by (simp add: final_settings_def)

text \<open>
  A feature flag rolls out monotonically: at 0 percent (or when disabled, or missing) nobody has the
  feature, from 100 percent on everybody has it, in between exactly those whose bucket, which depends
  on the context alone and is below 100, is below the percentage; so whoever has the feature keeps it when the
  percentage grows.
\<close>

theorem feature_rollout:
  assumes "vp_is_set api (''flags.'' @ name) (l_vp l)" and "vp_flag api (''flags.'' @ name) (l_vp l) = Inr f"
    and "vp_is_set api (''flags.'' @ name) (l_vp l')" and "vp_flag api (''flags.'' @ name) (l_vp l') = Inr f'"
    and "ff_Enabled f'" and "ff_Rollout f \<le> ff_Rollout f'"
  shows "fst (Feature api name ctx l) = (ff_Enabled f \<and> int (featureBucket ctx) < ff_Rollout f) \<and>
    featureBucket ctx < 100 \<and> (fst (Feature api name ctx l) \<longrightarrow> fst (Feature api name ctx l'))"
proof -
  have b: "featureBucket ctx < 100" by (simp add: featureBucket_def crc_bucket_less)
  have e: "fst (Feature api name ctx x) = (ff_Enabled h \<and> int (featureBucket ctx) < ff_Rollout h)"
    if "vp_is_set api (''flags.'' @ name) (l_vp x)" "vp_flag api (''flags.'' @ name) (l_vp x) = Inr h" for x h
    using that b by (auto simp: Feature_def Loader_IsSet_def Let_def)
  show ?thesis using b e [OF assms(1, 2)] e [OF assms(3, 4)] assms(5, 6) by auto
qed

subsection \<open>A small store\<close>

text \<open>A store that is its tree of settings; a document is the name of one key, and \<^verbatim>\<open>bad\<close> violates the schema.\<close>

definition demo_viper :: "(settings, unit) viper_api" where
  "demo_viper = \<lparr>
     vp_new = (\<lambda>t. []), vp_parse_yaml = (\<lambda>raw. Inr [(raw, CStr raw)]),
     vp_merge = (\<lambda>m v. (None, fold (\<lambda>(k, x). AList.update k x) m v)),
     vp_set = AList.update, vp_all = (\<lambda>v. v), vp_is_set = (\<lambda>k v. map_of v k \<noteq> None),
     vp_get = (\<lambda>k v. case map_of v k of None \<Rightarrow> COther 0 | Some x \<Rightarrow> x),
     vp_flag = (\<lambda>k v. case map_of v k of Some (COther n) \<Rightarrow> Inr \<lparr>ff_Enabled = True, ff_Rollout = int n\<rparr> | _ \<Rightarrow> Inl ''''),
     js_compile = (\<lambda>s. Inr ()),
     js_validate = (\<lambda>s m. if map_of m ''bad'' \<noteq> None then Some (OtherErr ''bad'') else None),
     show_val = (\<lambda>v. case v of CStr s \<Rightarrow> s | _ \<Rightarrow> '''')\<rparr>"

definition demo_opts :: BootstrapOptions where
  "demo_opts = \<lparr>o_ServiceName = ''svc'', o_Namespace = ''dev'', o_LocalPath = ''cfg.yaml'', o_LocalConfigType = '''',
     o_Remote = Some ''nacos'', o_EncryptKeyPath = '''', o_EnvWhitelist = [], o_HotReloadable = [''a''],
     o_FetchTimeout = 0, o_Schema = ''s''\<rparr>"

definition demo_loader :: "(settings, unit) Loader" where
  "demo_loader = \<lparr>l_opts = opts_defaults demo_opts, l_vp = [(''x'', CStr ''1'')], l_subscribed = True,
     l_listeners = [(''a'', [7]), (''b'', [8])], l_envWhitelist = {}, l_hotReload = Some [''a''], l_remoteRaw = [],
     l_schema = Some (), l_events = [], l_calls = []\<rparr>"

lemma demo_trim: "trim_space ''a'' = ''a''" "trim_space ''bad'' = ''bad''" "trim_space ''d'' = ''d''"
  by (rule trim_space_visible; simp add: visible_def)+

lemma demo_expand: "CHR ''$'' \<notin> set s \<Longrightarrow> expandStr wl env s = s"
  using expand_pieces_plain [of "[Lit s]" wl env] by simp

lemma demo_rebuild:
  assumes "raw = ''a'' \<or> raw = ''bad'' \<or> raw = ''d''"
    and "l_opts l = opts_defaults demo_opts" and "l_envWhitelist l = {}" and "l_schema l = Some ()"
  shows "snd (rebuild demo_viper demo_gcm env (Inr [(''x'', CStr ''1'')]) l [(doc, raw)]) =
    (if raw = ''bad'' then None else Some [(''x'', CStr ''1''), (raw, CStr raw)])"
  using assms
  by (auto simp: rebuild_def mergeYamlInto_def demo_trim demo_viper_def normalize_def final_settings_def demo_expand
      IsEncrypted_def has_prefix_def EncryptPrefix_def validateAgainstSchema_def)

lemma demo_loader_fields: "l_opts demo_loader = opts_defaults demo_opts" "l_envWhitelist demo_loader = {}"
  "l_schema demo_loader = Some ()" "l_remoteRaw demo_loader = []" "l_vp demo_loader = [(''x'', CStr ''1'')]"
  by (simp_all add: demo_loader_def)

lemma reload_outcomes_witness:
  "l_vp (onRemoteChange demo_viper demo_gcm (\<lambda>n. '''') (\<lambda>p xs. xs) (\<lambda>c. c) (Inr [(''x'', CStr ''1'')]) ''doc'' ''a'' demo_loader) =
     [(''x'', CStr ''1''), (''a'', CStr ''a'')] \<and>
   l_vp (onRemoteChange demo_viper demo_gcm (\<lambda>n. '''') (\<lambda>p xs. xs) (\<lambda>c. c) (Inr [(''x'', CStr ''1'')]) ''doc'' ''bad'' demo_loader) =
     [(''x'', CStr ''1'')]"
proof -
  have "snd (rebuild demo_viper demo_gcm (\<lambda>n. '''') (Inr [(''x'', CStr ''1'')]) (record_raw ''doc'' ''a'' demo_loader)
      (AList.update ''doc'' ''a'' (l_remoteRaw demo_loader))) = Some [(''x'', CStr ''1''), (''a'', CStr ''a'')]"
    "snd (rebuild demo_viper demo_gcm (\<lambda>n. '''') (Inr [(''x'', CStr ''1'')]) (record_raw ''doc'' ''bad'' demo_loader)
      (AList.update ''doc'' ''bad'' (l_remoteRaw demo_loader))) = None"
    by (simp_all add: demo_rebuild demo_loader_fields)
  with reload_outcomes [of "\<lambda>p xs. xs", OF refl refl, of demo_viper demo_gcm "\<lambda>n. ''''" "\<lambda>c. c" "Inr [(''x'', CStr ''1'')]" "''doc''" "''a''" demo_loader]
    reload_outcomes [of "\<lambda>p xs. xs", OF refl refl, of demo_viper demo_gcm "\<lambda>n. ''''" "\<lambda>c. c" "Inr [(''x'', CStr ''1'')]" "''doc''" "''bad''" demo_loader]
  show ?thesis by (simp only: option.case demo_loader_fields)
qed

lemma demo_bootstrap:
  "\<exists>l. Bootstrap demo_viper demo_gcm (\<lambda>n. '''') (Inr [(''x'', CStr ''1'')]) (Inl ''unreachable'') None demo_opts = Inr l"
  by (simp add: Bootstrap_def demo_opts_def opts_defaults_def compileSchema_def demo_viper_def normalize_def
      final_settings_def demo_expand IsEncrypted_def has_prefix_def EncryptPrefix_def validateAgainstSchema_def
      log_def metric_def Let_def split: prod.split)

lemma loader_serves_valid_witness:
  "\<exists>l. Bootstrap demo_viper demo_gcm (\<lambda>n. '''') (Inr [(''x'', CStr ''1'')]) (Inl ''unreachable'') None demo_opts = Inr l \<and>
     serves_valid demo_viper (fold (run_op demo_viper demo_gcm (\<lambda>p xs. xs) (\<lambda>n. Inr []))
       [(0, Change ''doc'' ''bad'' (\<lambda>n. '''') (\<lambda>c. c)), (1, Subscribe ''a'' 7)] l)"
  using demo_bootstrap loader_serves_valid by blast

lemma concurrent_reload_stale_witness:
  "\<exists>l'. load_reach demo_viper demo_gcm (\<lambda>n. '''') (\<lambda>p xs. xs) (Inr [(''x'', CStr ''1'')])
      \<lparr>sys_loader = demo_loader, sys_running = []\<rparr> \<lparr>sys_loader = l', sys_running = []\<rparr> \<and>
    l_remoteRaw l' = [(''d1'', ''a''), (''d2'', ''d'')] \<and> l_vp l' = [(''x'', CStr ''1''), (''a'', CStr ''a'')]"
proof -
  have "snd (rebuild demo_viper demo_gcm (\<lambda>n. '''') (Inr [(''x'', CStr ''1'')]) demo_loader
      (AList.update ''d1'' ''a'' (l_remoteRaw demo_loader))) = Some [(''x'', CStr ''1''), (''a'', CStr ''a'')]"
    by (simp add: demo_rebuild demo_loader_fields)
  moreover have "\<exists>v. snd (rebuild demo_viper demo_gcm (\<lambda>n. '''') (Inr [(''x'', CStr ''1'')]) demo_loader
      (AList.update ''d2'' ''d'' (AList.update ''d1'' ''a'' (l_remoteRaw demo_loader)))) = Some v"
    by (simp add: demo_loader_fields rebuild_def mergeYamlInto_def demo_trim demo_viper_def normalize_def final_settings_def
        demo_expand IsEncrypted_def has_prefix_def EncryptPrefix_def validateAgainstSchema_def)
  ultimately obtain v2 where "snd (rebuild demo_viper demo_gcm (\<lambda>n. '''') (Inr [(''x'', CStr ''1'')]) demo_loader
      (AList.update ''d1'' ''a'' (l_remoteRaw demo_loader))) = Some [(''x'', CStr ''1''), (''a'', CStr ''a'')]"
    "snd (rebuild demo_viper demo_gcm (\<lambda>n. '''') (Inr [(''x'', CStr ''1'')]) demo_loader
      (AList.update ''d2'' ''d'' (AList.update ''d1'' ''a'' (l_remoteRaw demo_loader)))) = Some v2" by blast
  from concurrent_reload_stale [OF _ this, of "\<lambda>p xs. xs"] show ?thesis
    by (simp add: demo_loader_fields) blast
qed

lemma feature_rollout_witness:
  "fst (Feature demo_viper ''f'' \<lparr>fc_DeviceNo = ''dev'', fc_AccountId = 7, fc_InstanceId = ''i''\<rparr>
     (demo_loader\<lparr>l_vp := [(''flags.f'', COther 30)]\<rparr>)) =
     (featureBucket \<lparr>fc_DeviceNo = ''dev'', fc_AccountId = 7, fc_InstanceId = ''i''\<rparr> < 30) \<and>
   featureBucket \<lparr>fc_DeviceNo = ''dev'', fc_AccountId = 7, fc_InstanceId = ''i''\<rparr> < 100"
  using feature_rollout [of demo_viper "''f''" "demo_loader\<lparr>l_vp := [(''flags.f'', COther 30)]\<rparr>"
      "\<lparr>ff_Enabled = True, ff_Rollout = 30\<rparr>" "demo_loader\<lparr>l_vp := [(''flags.f'', COther 50)]\<rparr>"
      "\<lparr>ff_Enabled = True, ff_Rollout = 50\<rparr>" "\<lparr>fc_DeviceNo = ''dev'', fc_AccountId = 7, fc_InstanceId = ''i''\<rparr>"]
  by (simp add: demo_viper_def)

text \<open>The letters of base 64 need no trimming, splitting or expansion.\<close>

lemma std_alphabet_plain:
  "\<forall>c \<in> insert (CHR ''='') (set std_alphabet). visible c \<and> c \<noteq> CHR ''$'' \<and> c \<noteq> CHR '',''"
  by code_simp

lemma std_encode_plain:
  assumes "s \<noteq> ''''"
  shows "trim_space (std_encode s) = std_encode s" and "CHR ''$'' \<notin> set (std_encode s)"
    and "split_commas n (std_encode s) = [std_encode s]"
proof -
  have l: "visible c \<and> c \<noteq> CHR ''$'' \<and> c \<noteq> CHR '',''" if "c \<in> set (std_encode s)" for c
    using std_letters [OF that] std_alphabet_plain by blast
  have "hd (std_encode s) \<in> set (std_encode s)" "last (std_encode s) \<in> set (std_encode s)"
    using std_encode_nonempty [OF assms] by auto
  then show "trim_space (std_encode s) = std_encode s"
    using l by (intro trim_space_visible std_encode_nonempty [OF assms]) auto
  show "CHR ''$'' \<notin> set (std_encode s)" using l by blast
  have "CHR '','' \<notin> set (std_encode s)" using l by blast
  then show "split_commas n (std_encode s) = [std_encode s]" by (cases n) auto
qed

definition other_key :: string where
  "other_key = ''fedcba9876543210''"

definition demo_sealed_value :: string where
  "demo_sealed_value =
     EncryptPrefix @ std_encode (demo_nonce @ gcm_seal demo_gcm demo_key demo_nonce ''pw'') @ EncryptSuffix"

definition demo_keys :: cval where
  "demo_keys = CSlice [CStr (std_encode other_key), CStr (std_encode demo_key)]"

lemma config_decrypts_with_any_key_witness:
  "final_settings demo_viper demo_gcm {} (\<lambda>n. '''') ''config.encryptKey''
     [(''config.encryptKey'', demo_keys), (''password'', CStr demo_sealed_value)] =
   Inr [(''config.encryptKey'', demo_keys), (''password'', CStr ''pw'')]"
proof (rule config_decrypts_with_any_key [OF demo_gcm_good(1), of demo_key _
      "[(''config.encryptKey'', demo_keys), (''password'', CStr demo_sealed_value)]" _ _ _ _ _ "[other_key]" "[]"])
  have ne: "demo_key \<noteq> ''''" "other_key \<noteq> ''''" "length demo_key = 16" "length other_key = 16"
    by (simp_all add: demo_key_def other_key_def)
  have k: "ParseEncryptKey (std_encode demo_key) = Inr demo_key" "ParseEncryptKey (std_encode other_key) = Inr other_key"
    using ne std_encode_nonempty [of demo_key] std_encode_nonempty [of other_key] by (simp_all add: ParseEncryptKey_def)
  have plain_key: "\<not> IsEncrypted (std_encode demo_key)" "\<not> IsEncrypted (std_encode other_key)"
    by code_simp+
  have x: "CHR ''$'' \<notin> set demo_sealed_value"
    using std_encode_plain(2) [of "demo_nonce @ gcm_seal demo_gcm demo_key demo_nonce ''pw''"]
    by (simp add: demo_sealed_value_def EncryptPrefix_def EncryptSuffix_def demo_nonce_def)
  have e: "IsEncrypted demo_sealed_value" by (simp add: demo_sealed_value_def)
  show "length demo_key = 16" by (rule ne)
  have "sealed_as demo_gcm demo_key (CStr ''pw'') (CStr demo_sealed_value)"
    by (rule crypted [OF _ demo_gcm_good(2)])
       (simp_all add: demo_sealed_value_def EncryptConfigValue_def AesGcm_Encrypt_def demo_key_facts(1))
  moreover have "sealed_as demo_gcm demo_key demo_keys demo_keys"
    by (auto simp: demo_keys_def intro!: seal_slice plain plain_key)
  ultimately show "sealed_as demo_gcm demo_key (CMap [(''config.encryptKey'', demo_keys), (''password'', CStr ''pw'')])
      (CMap [(''config.encryptKey'', demo_keys), (''password'', CStr demo_sealed_value)])"
    by (auto intro!: seal_map)
  show "expandEnvInPlace {} (\<lambda>n. '''') (vp_all demo_viper [(''config.encryptKey'', demo_keys), (''password'', CStr demo_sealed_value)]) =
      [(''config.encryptKey'', demo_keys), (''password'', CStr demo_sealed_value)]"
    using x std_encode_plain(2) ne by (simp add: demo_viper_def demo_keys_def demo_expand)
  show "hasEncrypted [(''config.encryptKey'', demo_keys), (''password'', CStr demo_sealed_value)]"
    using e by (simp add: demo_keys_def)
  show "parseEncryptKeysFromConfig demo_viper {} (\<lambda>n. '''') ''config.encryptKey''
      [(''config.encryptKey'', demo_keys), (''password'', CStr demo_sealed_value)] = Inr ([other_key] @ demo_key # [])"
    using ne std_encode_plain(1, 2) std_encode_nonempty k
    by (simp add: parseEncryptKeysFromConfig_def demo_viper_def demo_keys_def demo_expand Let_def)
  have "\<not> has_suffix (''pw'' @ demo_key) other_key" by code_simp
  then have "AesGcm_Decrypt demo_gcm other_key (demo_nonce @ gcm_seal demo_gcm demo_key demo_nonce ''pw'') =
      Inl ''message authentication failed''"
    using ne by (simp add: AesGcm_Decrypt_def demo_gcm_def demo_nonce_def gcm_nonce_size_def)
  then have "\<exists>er. DecryptConfigValue demo_gcm other_key demo_sealed_value = Inl er"
    unfolding demo_sealed_value_def by (simp add: DecryptConfigValue_wrap)
  then show "\<forall>k \<in> set [other_key]. snd (DecryptMap demo_gcm k [(''config.encryptKey'', demo_keys), (''password'', CStr demo_sealed_value)]) \<noteq> None"
    using e plain_key by (auto simp: DecryptMap_def demo_keys_def)
qed

end
