(* ===== verification/Stringsx.thy ===== *)
theory Stringsx
  imports GoText "HOL-Library.List_Lexorder" "HOL-Library.Multiset"
begin

text \<open>
  The string helpers of \<^verbatim>\<open>pkg/stringsx\<close>: search in an array, conversions between numbers and texts, snake and camel
  case.  Texts are valid UTF-8; the case functions change ASCII letters only and look at neighbouring bytes, so
  they are modelled byte by byte.  Strings are compared byte by byte as in Go.
\<close>

subsection \<open>Search in an array\<close>

text \<open>\<^verbatim>\<open>sort.SearchStrings\<close>: binary search for the first place whose element is not below the target.\<close>

function search_loop :: "string list \<Rightarrow> string \<Rightarrow> nat \<Rightarrow> nat \<Rightarrow> nat" where
  "search_loop a x i j =
     (if i < j
      then let h = (i + j) div 2
           in if a ! h < x then search_loop a x (h + 1) j else search_loop a x i h
      else i)"
  by auto
termination by (relation "measure (\<lambda>(a, x, i, j). j - i)") auto

declare search_loop.simps [simp del]

definition SearchStrings :: "string list \<Rightarrow> string \<Rightarrow> nat" where
  "SearchStrings a x = search_loop a x 0 (length a)"

text \<open>\<^verbatim>\<open>InStringArray\<close> sorts the caller's array: the new array is part of the result.\<close>

definition InStringArray :: "string \<Rightarrow> string list \<Rightarrow> bool \<times> string list" where
  "InStringArray target strArray =
     (let a = sort strArray;
          index = SearchStrings a target
      in (index < length a \<and> a ! index = target, a))"

lemma search_loop_bounds:
  assumes "sorted a" and "i \<le> j" and "j \<le> length a"
    and "\<forall>k < i. a ! k < x" and "\<forall>k. j \<le> k \<and> k < length a \<longrightarrow> x \<le> a ! k"
  shows "search_loop a x i j \<le> length a \<and> (\<forall>k < search_loop a x i j. a ! k < x) \<and>
    (\<forall>k. search_loop a x i j \<le> k \<and> k < length a \<longrightarrow> x \<le> a ! k)"
  using assms
proof (induction a x i j rule: search_loop.induct)
  case (1 a x i j)
  show ?case
  proof (cases "i < j")
    case False
    then have "search_loop a x i j = i" by (subst search_loop.simps) simp
    with False "1.prems" show ?thesis by simp
  next
    case True
    define h where "h = (i + j) div 2"
    have h: "i \<le> h" "h < j" using True by (auto simp: h_def)
    note IH = "1.IH" [OF True h_def]
    show ?thesis
    proof (cases "a ! h < x")
      case below: True
      have "\<forall>k < h + 1. a ! k < x"
      proof (intro allI impI)
        fix k assume "k < h + 1"
        then have "a ! k \<le> a ! h" using "1.prems"(1, 3) h by (intro sorted_nth_mono) auto
        with below show "a ! k < x" by (rule order.strict_trans1 [rotated])
      qed
      moreover have "search_loop a x i j = search_loop a x (h + 1) j"
        using True below by (subst search_loop.simps) (simp add: h_def [symmetric] Let_def)
      moreover have "h + 1 \<le> j" using h by simp
      ultimately show ?thesis using IH(1) [OF below "1.prems"(1) _ "1.prems"(3) _ "1.prems"(5)] by simp
    next
      case False
      have "\<forall>k. h \<le> k \<and> k < length a \<longrightarrow> x \<le> a ! k"
        using False "1.prems"(1) by (meson leI order.trans sorted_nth_mono)
      moreover have "search_loop a x i j = search_loop a x i h"
        using True False by (subst search_loop.simps) (simp add: h_def [symmetric] Let_def)
      moreover have "h \<le> length a" using h "1.prems"(3) by simp
      ultimately show ?thesis using IH(2) [OF False "1.prems"(1) h(1) _ "1.prems"(4)] by simp
    qed
  qed
qed

text \<open>
  Searching a string in an array by sorting it and bisecting gives the same answer as looking at every element,
  for every array, also an empty one or one with duplicates; what the caller is left with is the sorted array with the
  same elements.
\<close>

theorem in_array_is_membership:
  shows "fst (InStringArray target arr) = (target \<in> set arr) \<and> sorted (snd (InStringArray target arr)) \<and>
    mset (snd (InStringArray target arr)) = mset arr"
proof -
  let ?a = "sort arr" and ?i = "SearchStrings (sort arr) target"
  have "search_loop ?a target 0 (length ?a) \<le> length ?a \<and> (\<forall>k < search_loop ?a target 0 (length ?a). ?a ! k < target) \<and>
    (\<forall>k. search_loop ?a target 0 (length ?a) \<le> k \<and> k < length ?a \<longrightarrow> target \<le> ?a ! k)"
    by (rule search_loop_bounds) auto
  then have b: "?i \<le> length ?a" "\<forall>k < ?i. ?a ! k < target" "\<forall>k. ?i \<le> k \<and> k < length ?a \<longrightarrow> target \<le> ?a ! k"
    unfolding SearchStrings_def by blast+
  have "?i < length ?a \<and> ?a ! ?i = target" if t: "target \<in> set arr"
  proof -
    obtain k where k: "k < length ?a" "?a ! k = target" using t by (metis in_set_conv_nth set_sort)
    then have "?i \<le> k" using b(2) by (metis leI less_irrefl)
    with k have "?a ! ?i \<le> target" using sorted_nth_mono [of ?a ?i k] by simp
    with b(3) k \<open>?i \<le> k\<close> show ?thesis by (metis antisym le_less_trans order.refl)
  qed
  moreover have "target \<in> set arr" if "?i < length ?a" "?a ! ?i = target" using that by (metis nth_mem set_sort)
  ultimately show ?thesis by (auto simp: InStringArray_def Let_def)
qed

subsection \<open>Numbers\<close>

definition IntIntoString :: "int \<Rightarrow> string" where
  "IntIntoString n = format_int n"

definition Int64IntoString :: "int \<Rightarrow> string" where
  "Int64IntoString n = format_int n"

definition StringIntoInt :: "string \<Rightarrow> int" where
  "StringIntoInt s = (case parse_int64 s of None \<Rightarrow> 0 | Some n \<Rightarrow> n)"

definition StringIntoInt64 :: "string \<Rightarrow> int" where
  "StringIntoInt64 s = (case parse_int64 s of None \<Rightarrow> 0 | Some n \<Rightarrow> n)"

lemma parse_uint_decimal: "parse_uint (decimal n) = Some n"
  by (simp add: parse_uint_def parse_digits_decimal)

lemma parse_format_int:
  assumes "in_int64 n"
  shows "parse_int64 (format_int n) = Some n"
proof (cases "n < 0")
  case True
  then show ?thesis using assms by (simp add: format_int_def parse_int64_def parse_uint_decimal Let_def)
next
  case False
  obtain c cs where s: "decimal (nat n) = c # cs" using decimal_nonempty by (cases "decimal (nat n)") auto
  then obtain d where "d < 10" "c = digit_char d" using decimal_digits [of c "nat n"] by auto
  then have "c \<noteq> CHR ''-''" "c \<noteq> CHR ''+''" using digit_char_not_sign by auto
  moreover have "parse_uint (c # cs) = Some (nat n)" using parse_uint_decimal [of "nat n"] by (simp add: s)
  ultimately show ?thesis using False assms by (simp add: format_int_def parse_int64_def s Let_def)
qed

lemma string_int_round: "in_int64 n \<Longrightarrow> StringIntoInt (IntIntoString n) = n \<and> StringIntoInt64 (Int64IntoString n) = n"
  by (simp add: StringIntoInt_def IntIntoString_def StringIntoInt64_def Int64IntoString_def parse_format_int)

definition RemoveQuotes :: "string \<Rightarrow> string" where
  "RemoveQuotes input = filter (\<lambda>c. c \<noteq> CHR 34) input"

subsection \<open>Letter case\<close>

definition snake_at :: "string \<Rightarrow> nat \<Rightarrow> string" where
  "snake_at s i =
     (let r = s ! i
      in if i = 0 then [to_lower_char r]
         else if is_upper r
         then (if is_lower (s ! (i - 1)) then [CHR ''_'', to_lower_char r]
               else if i < length s - 1 \<and> is_lower (s ! (i + 1)) then [CHR ''_'', to_lower_char r]
               else [to_lower_char r])
         else [r])"

definition ToSnakeCase :: "string \<Rightarrow> string" where
  "ToSnakeCase s = concat (map (snake_at s) [0..<length s])"

definition camel_at :: "string \<Rightarrow> nat \<Rightarrow> string" where
  "camel_at s i =
     (let r = s ! i
      in if r = CHR ''_'' then []
         else if i = 0 then [to_upper_char r]
         else if s ! (i - 1) = CHR ''_'' then [to_upper_char r]
         else [r])"

definition ToLower :: "string \<Rightarrow> string" where
  "ToLower s = map to_lower_char s"

definition ToUpper :: "string \<Rightarrow> string" where
  "ToUpper s = map to_upper_char s"

definition ToCamelCase :: "string \<Rightarrow> string" where
  "ToCamelCase s = (let t = ToLower s in concat (map (camel_at t) [0..<length t]))"

text \<open>
  \<^verbatim>\<open>UpperFirst\<close> converts the first byte on its own; a byte that is not ASCII is no valid text and becomes the
  replacement character.
\<close>

definition UpperFirst :: "string \<Rightarrow> string" where
  "UpperFirst s =
     (if length s = 0 then s
      else (if (of_char (hd s) :: nat) < 128 then [to_upper_char (hd s)] else map char_of [239, 191, 189 :: nat]) @ drop 1 s)"


subsection \<open>From snake case back to camel case\<close>

text \<open>Both functions as one pass that remembers the previous character.\<close>

fun snake_from :: "char option \<Rightarrow> string \<Rightarrow> string" where
  "snake_from p [] = []"
| "snake_from p (r # rs) =
     (case p of
        None \<Rightarrow> [to_lower_char r]
      | Some q \<Rightarrow>
          if is_upper r
          then (if is_lower q \<or> (rs \<noteq> [] \<and> is_lower (hd rs)) then [CHR ''_'', to_lower_char r] else [to_lower_char r])
          else [r]) @ snake_from (Some r) rs"

fun camel_from :: "char option \<Rightarrow> string \<Rightarrow> string" where
  "camel_from p [] = []"
| "camel_from p (r # rs) =
     (if r = CHR ''_'' then [] else if p = None \<or> p = Some (CHR ''_'') then [to_upper_char r] else [r]) @
     camel_from (Some r) rs"

definition last_of :: "string \<Rightarrow> char option" where
  "last_of a = (if a = [] then None else Some (last a))"

lemma last_of_snoc [simp]: "last_of (a @ [r]) = Some r"
  by (simp add: last_of_def)

lemma prev_char: "a \<noteq> [] \<Longrightarrow> (a @ t) ! (length a - 1) = last a"
  by (simp add: nth_append last_conv_nth)

lemma snake_at_middle:
  "snake_at (a @ r # rs) (length a) @ rest =
     (case last_of a of
        None \<Rightarrow> [to_lower_char r]
      | Some q \<Rightarrow>
          if is_upper r
          then (if is_lower q \<or> (rs \<noteq> [] \<and> is_lower (hd rs)) then [CHR ''_'', to_lower_char r] else [to_lower_char r])
          else [r]) @ rest"
proof (cases "a = []")
  case True
  then show ?thesis by (simp add: snake_at_def last_of_def)
next
  case False
  have "(a @ r # rs) ! (length a + 1) = hd rs" if "rs \<noteq> []" using that by (cases rs) (auto simp: nth_append)
  moreover have "length a < length (a @ r # rs) - 1 \<longleftrightarrow> rs \<noteq> []" by (cases rs) auto
  ultimately show ?thesis
    using False prev_char [OF False, of "r # rs"] by (auto simp: snake_at_def last_of_def Let_def nth_append_length)
qed

lemma snake_pass:
  "concat (map (snake_at (a @ t)) [length a..<length (a @ t)]) = snake_from (last_of a) t"
proof (induction t arbitrary: a)
  case (Cons r rs)
  have "[length a..<length (a @ r # rs)] = length a # [length (a @ [r])..<length ((a @ [r]) @ rs)]"
    by (simp add: upt_rec [of "length a"] Suc_le_eq)
  with Cons.IH [of "a @ [r]"] show ?case by (simp add: snake_at_middle)
qed simp

lemma ToSnakeCase_pass: "ToSnakeCase s = snake_from None s"
  using snake_pass [of "[]" s] by (simp add: ToSnakeCase_def last_of_def)

lemma camel_at_middle:
  "camel_at (a @ r # rs) (length a) =
     (if r = CHR ''_'' then [] else if last_of a = None \<or> last_of a = Some (CHR ''_'') then [to_upper_char r] else [r])"
  using prev_char [of a "r # rs"] by (cases "a = []") (auto simp: camel_at_def last_of_def Let_def nth_append_length)

lemma camel_pass:
  "concat (map (camel_at (a @ t)) [length a..<length (a @ t)]) = camel_from (last_of a) t"
proof (induction t arbitrary: a)
  case (Cons r rs)
  have "[length a..<length (a @ r # rs)] = length a # [length (a @ [r])..<length ((a @ [r]) @ rs)]"
    by (simp add: upt_rec [of "length a"] Suc_le_eq)
  with Cons.IH [of "a @ [r]"] show ?case by (simp add: camel_at_middle)
qed simp

lemma ToCamelCase_pass: "ToCamelCase s = camel_from None (ToLower s)"
  using camel_pass [of "[]" "ToLower s"] by (simp add: ToCamelCase_def last_of_def Let_def)

text \<open>A camel-case word: a capital, a small letter, then anything but capitals and underscores.\<close>

definition camel_word :: "string \<Rightarrow> bool" where
  "camel_word w \<longleftrightarrow> (\<exists>u l rest. w = u # l # rest \<and> is_upper u \<and> is_lower l \<and>
     (\<forall>c \<in> set rest. \<not> is_upper c \<and> c \<noteq> CHR ''_''))"

lemma lower_facts:
  "is_lower l \<Longrightarrow> \<not> is_upper l \<and> l \<noteq> CHR ''_'' \<and> to_lower_char l = l"
  by (auto simp: is_lower_code is_upper_code to_lower_char_def)

lemma upper_facts:
  "is_upper u \<Longrightarrow> to_upper_char (to_lower_char u) = u \<and> to_lower_char u \<noteq> CHR ''_'' \<and> u \<noteq> CHR ''_''"
proof -
  assume u: "is_upper u"
  then have n: "65 \<le> (of_char u :: nat)" "(of_char u :: nat) \<le> 90" by (simp_all add: is_upper_code)
  have l: "to_lower_char u = char_of ((of_char u :: nat) + 32)" using u by (simp add: to_lower_char_def)
  then have c: "(of_char (to_lower_char u) :: nat) = of_char u + 32" using n by simp
  then have "is_lower (to_lower_char u)" using n by (simp add: is_lower_code)
  then have "to_upper_char (to_lower_char u) = u" by (simp add: to_upper_char_def c)
  moreover have "to_lower_char u \<noteq> CHR ''_''" "u \<noteq> CHR ''_''"
    using lower_facts [OF \<open>is_lower (to_lower_char u)\<close>] n by auto
  ultimately show ?thesis by blast
qed

lemma snake_plain:
  "(\<forall>c \<in> set cs. \<not> is_upper c) \<Longrightarrow> snake_from (Some p) (cs @ t) = cs @ snake_from (Some (last (p # cs))) t"
  by (induction cs arbitrary: p) auto

lemma camel_plain:
  "(\<forall>c \<in> set cs. c \<noteq> CHR ''_'') \<Longrightarrow> p \<noteq> CHR ''_'' \<Longrightarrow>
   camel_from (Some p) (cs @ t) = cs @ camel_from (Some (last (p # cs))) t"
  by (induction cs arbitrary: p) auto

lemma word_lower: "camel_word w \<Longrightarrow> \<exists>u cs. w = u # cs \<and> is_upper u \<and> cs \<noteq> [] \<and> is_lower (hd cs) \<and> to_lower w = to_lower_char u # cs \<and>
    (\<forall>c \<in> set cs. \<not> is_upper c \<and> c \<noteq> CHR ''_'')"
  unfolding camel_word_def to_lower_def
  using lower_facts by (fastforce simp: to_lower_char_def intro!: map_idI)

lemma snake_word:
  assumes "camel_word w"
  shows "snake_from p (w @ t) = (if p = None then '''' else ''_'') @ to_lower w @ snake_from (Some (last w)) t"
proof -
  obtain u cs where w: "w = u # cs" "is_upper u" "cs \<noteq> []" "is_lower (hd cs)" "to_lower w = to_lower_char u # cs"
      "\<forall>c \<in> set cs. \<not> is_upper c \<and> c \<noteq> CHR ''_''"
    using word_lower [OF assms] by blast
  then show ?thesis by (cases p) (auto simp: snake_plain)
qed

lemma camel_word_back:
  assumes "camel_word w" and "p = None \<or> p = Some (CHR ''_'')"
  shows "camel_from p (to_lower w @ t) = w @ camel_from (Some (last (to_lower w))) t" and "last (to_lower w) \<noteq> CHR ''_''"
proof -
  obtain u cs where w: "w = u # cs" "is_upper u" "cs \<noteq> []" "is_lower (hd cs)" "to_lower w = to_lower_char u # cs"
      "\<forall>c \<in> set cs. \<not> is_upper c \<and> c \<noteq> CHR ''_''"
    using word_lower [OF assms(1)] by blast
  show "last (to_lower w) \<noteq> CHR ''_''" using w(3, 5, 6) by simp
  show "camel_from p (to_lower w @ t) = w @ camel_from (Some (last (to_lower w))) t"
    using w assms(2) upper_facts [OF w(2)] by (auto simp: camel_plain)
qed

lemma snake_words:
  assumes "\<forall>w \<in> set ws. camel_word w"
  shows "snake_from p (concat ws) = concat (map (\<lambda>w. ''_'' @ to_lower w) ws) \<or> p = None"
  using assms
proof (induction ws arbitrary: p)
  case (Cons w ws)
  have "snake_from (Some (last w)) (concat ws) = concat (map (\<lambda>w. ''_'' @ to_lower w) ws)"
    using Cons.IH [of "Some (last w)"] Cons.prems by simp
  then show ?case using Cons.prems snake_word [of w p "concat ws"] by simp
qed simp

lemma camel_words:
  assumes "\<forall>w \<in> set ws. camel_word w" and "p \<noteq> CHR ''_''"
  shows "camel_from (Some p) (concat (map (\<lambda>w. ''_'' @ to_lower w) ws)) = concat ws"
  using assms
proof (induction ws arbitrary: p)
  case (Cons w ws)
  then show ?case using camel_word_back [of w "Some (CHR ''_'')"] by simp
qed simp

text \<open>
  Names survive the way to snake case and back: for a name made of camel-case words (a capital, a small letter,
  then anything but capitals and underscores) the snake-case form is the words in small letters joined by
  underscores, and the camel-case form of that is the name again.
\<close>

theorem snake_camel_round_trip:
  assumes "\<forall>w \<in> set ws. camel_word w"
  shows "ToSnakeCase (concat ws) = join ''_'' (map to_lower ws) \<and> ToCamelCase (ToSnakeCase (concat ws)) = concat ws"
proof (cases ws)
  case Nil
  then show ?thesis by (simp add: ToSnakeCase_pass ToCamelCase_pass ToLower_def)
next
  case (Cons w ws')
  have j: "join ''_'' (map to_lower (w # ws')) = to_lower w @ concat (map (\<lambda>w. ''_'' @ to_lower w) ws')"
    for w and ws' :: "string list"
    by (induction ws' arbitrary: w) auto
  have s: "ToSnakeCase (concat ws) = to_lower w @ concat (map (\<lambda>w. ''_'' @ to_lower w) ws')"
    using assms snake_words [of ws' "Some (last w)"] by (simp add: Cons ToSnakeCase_pass snake_word)
  have "ToLower (ToSnakeCase (concat ws)) = ToSnakeCase (concat ws)"
    unfolding s by (simp add: ToLower_def to_lower_def map_concat comp_def) (simp add: to_lower_char_def is_upper_code)
  moreover have "camel_from None (to_lower w @ concat (map (\<lambda>w. ''_'' @ to_lower w) ws')) = concat ws"
    using assms camel_word_back [of w None] camel_words [of ws' "last (to_lower w)"] by (simp add: Cons)
  ultimately show ?thesis using j [of w ws'] s by (simp add: ToCamelCase_pass Cons)
qed

lemma snake_camel_round_trip_witness:
  "ToSnakeCase ''UserNameId'' = ''user_name_id'' \<and> ToCamelCase ''user_name_id'' = ''UserNameId''"
proof -
  have "camel_word ''User''" "camel_word ''Name''" "camel_word ''Id''"
    by (simp_all add: camel_word_def is_upper_code is_lower_code)
  then have "\<forall>w \<in> set [''User'', ''Name'', ''Id'']. camel_word w" by simp
  note r = snake_camel_round_trip [OF this]
  have "concat [''User'', ''Name'', ''Id''] = ''UserNameId''" by simp
  with r have "ToSnakeCase ''UserNameId'' = join ''_'' (map to_lower [''User'', ''Name'', ''Id''])"
    "ToCamelCase (ToSnakeCase ''UserNameId'') = ''UserNameId''" by argo+
  moreover have "join ''_'' (map to_lower [''User'', ''Name'', ''Id'']) = ''user_name_id''" by code_simp
  ultimately show ?thesis by (simp only:)
qed

end
