(* ===== verification/Secret.thy ===== *)
theory Secret
  imports Stringsx
begin

text \<open>
  Application ids and keys (\<^verbatim>\<open>src/pkg/secret/secret.go\<close>): a snowflake number written in base 62 or 32.
  The snowflake generator and SHA-1 are arguments.  A machine integer here is an \<^verbatim>\<open>int\<close> of 64 bits; its
  division truncates towards zero.  The theory shows that the text of a number determines the number, so
  that different numbers never yield the same id.
\<close>

definition tenToAny_letters :: string where
  "tenToAny_letters = ''0123456789abcdefghijklmnopqrstuvwxyzABCDEFGHIJKLMNOPQRSTUVWXYZ''"

text \<open>A key that the map does not have yields the empty string.\<close>

definition tenToAny :: "int \<Rightarrow> string" where
  "tenToAny k = (if 0 \<le> k \<and> k < 62 then [tenToAny_letters ! nat k] else '''')"

text \<open>The loop; \<open>None\<close> stands for the panic of a division by zero or for a loop that does not end.\<close>

partial_function (option) decimal_loop :: "int \<Rightarrow> int \<Rightarrow> string \<Rightarrow> string option" where
  "decimal_loop n num newNumStr =
     (if num = 0 then Some newNumStr
      else if n = 0 then None
      else decimal_loop n (wrap64 (go_div num n)) (tenToAny (go_mod num n) @ newNumStr))"

definition decimalToAny :: "int \<Rightarrow> int \<Rightarrow> string option" where
  "decimalToAny num n = decimal_loop n num ''''"

definition findKey :: "char \<Rightarrow> int" where
  "findKey c =
     (let i = length (takeWhile (\<lambda>d. d \<noteq> c) tenToAny_letters)
      in if i < length tenToAny_letters then int i else -1)"

definition GetID :: "int \<Rightarrow> string" where
  \<comment> \<open>\<^verbatim>\<open>snow_node.GetID\<close> for the id the generator yields\<close>
  "GetID x = format_int x"

definition GetAppId :: "int \<Rightarrow> string option" where
  "GetAppId x = decimalToAny (StringIntoInt (GetID x)) 62"

definition GetAppKey :: "int \<Rightarrow> string option" where
  "GetAppKey x = decimalToAny (StringIntoInt (GetID x)) 32"

definition GetAppSecret :: "(string \<Rightarrow> string) \<Rightarrow> instant \<Rightarrow> string \<Rightarrow> string" where
  "GetAppSecret hex_sha1 now appId = hex_sha1 (appId @ Int64IntoString (go_div now millisecond))"

subsection \<open>Lemmas\<close>

text \<open>The exact value of a text in base \<open>n\<close>.\<close>

definition any_value :: "int \<Rightarrow> string \<Rightarrow> int" where
  "any_value n s = foldl (\<lambda>a c. a * n + findKey c) 0 s"

lemma letters_distinct: "distinct tenToAny_letters" "length tenToAny_letters = 62"
  by code_simp+

lemma findKey_nth: "0 \<le> k \<Longrightarrow> k < 62 \<Longrightarrow> findKey (tenToAny_letters ! nat k) = k"
proof -
  assume k: "0 \<le> k" "k < 62"
  have "takeWhile (\<lambda>d. d \<noteq> tenToAny_letters ! nat k) tenToAny_letters = take (nat k) tenToAny_letters"
    using k letters_distinct by (intro takeWhile_eq_take_P_nth) (auto simp: nth_eq_iff_index_eq)
  then show ?thesis using k letters_distinct(2) by (simp add: findKey_def Let_def nat_less_iff)
qed

lemma foldl_value: "foldl (\<lambda>a c. a * n + findKey c) b s = b * n ^ length s + any_value n s"
proof (induction s arbitrary: b)
  case (Cons c s)
  have "any_value n (c # s) = findKey c * n ^ length s + any_value n s"
    using Cons [of "findKey c"] by (simp add: any_value_def)
  then show ?case using Cons [of "b * n + findKey c"] by (simp add: algebra_simps)
qed (simp add: any_value_def)

lemma any_value_Cons: "any_value n (c # s) = findKey c * n ^ length s + any_value n s"
  using foldl_value [of n "findKey c" s] by (simp add: any_value_def)

text \<open>
  The loop at a number that is not negative: it ends, and the text it adds in front has the number as its
  value and no leading zero.
\<close>

lemma decimal_loop_value:
  assumes "2 \<le> n" and "n \<le> 62" and "0 \<le> num" and "in_int64 num"
  shows "\<exists>s. decimal_loop n num acc = Some (s @ acc) \<and> any_value n s = num \<and>
    (s \<noteq> [] \<longrightarrow> findKey (hd s) \<noteq> 0) \<and> (s = [] \<longleftrightarrow> num = 0)"
  using assms(3, 4)
proof (induction "nat num" arbitrary: num acc rule: less_induct)
  case less
  show ?case
  proof (cases "num = 0")
    case True
    then show ?thesis by (simp add: decimal_loop.simps any_value_def)
  next
    case False
    define q where "q = num div n"
    define r where "r = num mod n"
    have q: "0 \<le> q" "q < num" "q < n \<longleftrightarrow> q < n" "num = q * n + r" "0 \<le> r" "r < n"
      using False less.prems(1) assms(1) by (simp_all add: q_def r_def pos_imp_zdiv_nonneg_iff int_div_less_self)
    have i: "in_int64 q" using q(1, 2) less.prems(2) by (simp add: in_int64_def)
    have e: "decimal_loop n num acc = decimal_loop n q ([tenToAny_letters ! nat r] @ acc)"
      using False less.prems(1) assms q(5, 6) i
      by (simp add: decimal_loop.simps [of n num] go_div_nonneg go_mod_nonneg tenToAny_def flip: q_def r_def)
    obtain s where s: "decimal_loop n q ([tenToAny_letters ! nat r] @ acc) = Some (s @ [tenToAny_letters ! nat r] @ acc)"
        "any_value n s = q" "s \<noteq> [] \<longrightarrow> findKey (hd s) \<noteq> 0" "s = [] \<longleftrightarrow> q = 0"
      using less.hyps [of q] q i by auto
    have f: "findKey (tenToAny_letters ! nat r) = r" using q assms(2) by (intro findKey_nth) auto
    have "any_value n (s @ [tenToAny_letters ! nat r]) = num"
      using s(2) f q(4) by (simp add: any_value_def)
    moreover have "findKey (hd (s @ [tenToAny_letters ! nat r])) \<noteq> 0"
      using s(3, 4) f q(4) False by (cases s) auto
    ultimately show ?thesis using e s(1) False by (intro exI [of _ "s @ [tenToAny_letters ! nat r]"]) simp
  qed
qed

lemma decimalToAny_value:
  assumes "2 \<le> n" and "n \<le> 62" and "0 < num" and "in_int64 num"
  shows "\<exists>s. decimalToAny num n = Some s \<and> any_value n s = num \<and> s \<noteq> '''' \<and> findKey (hd s) \<noteq> 0"
proof -
  obtain s where "decimal_loop n num '''' = Some (s @ '''') \<and> any_value n s = num \<and>
      (s \<noteq> [] \<longrightarrow> findKey (hd s) \<noteq> 0) \<and> (s = [] \<longleftrightarrow> num = 0)"
    using decimal_loop_value [OF assms(1, 2) _ assms(4), of "''''"] assms(3) by force
  with assms(3) show ?thesis by (intro exI [of _ s]) (simp add: decimalToAny_def)
qed

lemma StringIntoInt_GetID: "0 \<le> x \<Longrightarrow> in_int64 x \<Longrightarrow> StringIntoInt (GetID x) = x"
  using parse_int64_format_pad [of x 0]
  by (simp add: StringIntoInt_def GetID_def format_int_def format_int_pad_def pad_left_def)

subsection \<open>Properties\<close>

text \<open>
  The id and the key of an application determine the number they were made from: for every number of
  the generator (positive, 63 bits) both calls return a text that is not empty, starts with no zero digit and
  has the number as its value in base 62 or 32; so different numbers yield different ids.
\<close>

theorem app_id_unique:
  assumes "0 < x" and "in_int64 x"
  shows "\<exists>s t. GetAppId x = Some s \<and> any_value 62 s = x \<and> s \<noteq> '''' \<and> findKey (hd s) \<noteq> 0 \<and>
    GetAppKey x = Some t \<and> any_value 32 t = x \<and> t \<noteq> '''' \<and> findKey (hd t) \<noteq> 0 \<and>
    (\<forall>y. 0 < y \<and> in_int64 y \<and> (GetAppId y = GetAppId x \<or> GetAppKey y = GetAppKey x) \<longrightarrow> y = x)"
proof -
  have v: "\<exists>s. GetAppId y = Some s \<and> any_value 62 s = y \<and> s \<noteq> '''' \<and> findKey (hd s) \<noteq> 0"
      "\<exists>t. GetAppKey y = Some t \<and> any_value 32 t = y \<and> t \<noteq> '''' \<and> findKey (hd t) \<noteq> 0"
    if "0 < y" "in_int64 y" for y
    using decimalToAny_value [of 62 y] decimalToAny_value [of 32 y] that
    by (simp_all add: GetAppId_def GetAppKey_def StringIntoInt_GetID)
  from v [OF assms] obtain s t where st: "GetAppId x = Some s" "any_value 62 s = x" "s \<noteq> ''''" "findKey (hd s) \<noteq> 0"
      "GetAppKey x = Some t" "any_value 32 t = x" "t \<noteq> ''''" "findKey (hd t) \<noteq> 0" by blast
  have "y = x" if "0 < y" "in_int64 y" "GetAppId y = GetAppId x \<or> GetAppKey y = GetAppKey x" for y
    using v [OF that(1, 2)] that(3) st(1, 2, 5, 6) by (elim disjE exE conjE) simp_all
  then show ?thesis
    by (intro exI [of _ s] exI [of _ t] conjI st allI impI) blast
qed

lemma app_id_unique_witness: "\<exists>s. GetAppId 1541815603606036480 = Some s \<and> any_value 62 s = 1541815603606036480"
  using app_id_unique [of 1541815603606036480] by (auto simp: in_int64_def)

text \<open>The number 0 has the empty id, and a negative number loses its digits.\<close>

lemma app_id_zero: "decimalToAny 0 n = Some ''''" "decimalToAny (-5) 62 = Some ''''"
  by (simp_all add: decimalToAny_def decimal_loop.simps go_div_def go_mod_def tenToAny_def wrap64_def)

end
