(* ===== verification/Dispatch.thy ===== *)
theory Dispatch
  imports GoStrings
begin

text \<open>
  The routing of instructions to communication nodes (\<^verbatim>\<open>src/pkg/dispatch/router.go\<close>).  Redis and
  \<^verbatim>\<open>encoding/json\<close> are the fields of the record \<open>route_api\<close>; reads leave the world as it is.  The theory shows that a
  node that is looked up is alive, which node of a list is chosen, that an error of Redis is reported as
  a device without a route, and that a published payload is parsed to what was published.
\<close>

definition NodeAliveKeyFmt :: string where
  "NodeAliveKeyFmt = ''iot:nodes:alive:%s''"

definition NodeInstructionChannelFmt :: string where
  "NodeInstructionChannelFmt = ''iot:instruction:%s''"

definition InstructionPayloadSchema :: string where
  "InstructionPayloadSchema = ''queue.v1''"

record routeValueArray =
  ra_Schema :: string
  ra_Addresses :: "string list"

record routeValueSingle =
  rs_Schema :: string
  rs_InstanceId :: string

record InstructionPayload =
  ip_Schema :: string
  ip_QueueId :: int
  ip_Trace :: "(string \<times> string) list option"

text \<open>An error of \<^verbatim>\<open>HGet\<close>: the field is missing (\<^verbatim>\<open>redis.Nil\<close>) or something else; go-redis returns the
  empty string with every error.\<close>

datatype redis_err = RedisNil | RedisErr string

record 'w route_api =
  hget :: "string \<Rightarrow> string \<Rightarrow> 'w \<Rightarrow> redis_err + string"
  exists_key :: "string \<Rightarrow> 'w \<Rightarrow> string + int"
  publish :: "string \<Rightarrow> string \<Rightarrow> 'w \<Rightarrow> string option \<times> 'w"
  json_strings :: "string \<Rightarrow> string + string list"
  json_string :: "string \<Rightarrow> string + string"
  json_schema :: "string \<Rightarrow> string + string"
  json_array :: "string \<Rightarrow> string + routeValueArray"
  json_single :: "string \<Rightarrow> string + routeValueSingle"
  json_payload :: "string \<Rightarrow> string + InstructionPayload"
  marshal_payload :: "InstructionPayload \<Rightarrow> string + string"

text \<open>A client that may be nil is an option.\<close>

definition IsNodeAlive :: "'w route_api option \<Rightarrow> string \<Rightarrow> 'w \<Rightarrow> bool" where
  "IsNodeAlive redisClient instanceId w =
     (case redisClient of
        None \<Rightarrow> False
      | Some r \<Rightarrow>
          if trim_space instanceId = '''' then False
          else case exists_key r (sprintf_s NodeAliveKeyFmt instanceId) w of
                 Inl e \<Rightarrow> False
               | Inr n \<Rightarrow> n > 0)"

fun firstAliveNode :: "'w route_api \<Rightarrow> string list \<Rightarrow> 'w \<Rightarrow> string" where
  "firstAliveNode r [] w = ''''"
| "firstAliveNode r (addr # addresses) w =
     (if IsNodeAlive (Some r) (trim_space addr) w then trim_space addr else firstAliveNode r addresses w)"

definition lookupNodeFromRaw :: "'w route_api \<Rightarrow> string \<Rightarrow> 'w \<Rightarrow> string + string" where
  "lookupNodeFromRaw r raw w =
     (case raw of
        [] \<Rightarrow> Inr ''''
      | c # _ \<Rightarrow>
          if c = CHR ''['' then
            (case json_strings r raw of Inl e \<Rightarrow> Inl e | Inr addresses \<Rightarrow> Inr (firstAliveNode r addresses w))
          else if c = CHR ''{'' then
            (case json_schema r raw of
               Inl e \<Rightarrow> Inl e
             | Inr schema \<Rightarrow>
                 if schema = ''addrs.v1'' then
                   (case json_array r raw of
                      Inl e \<Rightarrow> Inl e | Inr v \<Rightarrow> Inr (firstAliveNode r (ra_Addresses v) w))
                 else if schema = ''addr.v1'' then
                   (case json_single r raw of
                      Inl e \<Rightarrow> Inl e
                    | Inr v \<Rightarrow> Inr (if IsNodeAlive (Some r) (rs_InstanceId v) w then rs_InstanceId v else ''''))
                 else Inl (''unknown schema: '' @ schema))
          else if c = CHR 0x22 then
            (case json_string r raw of
               Inl e \<Rightarrow> Inl e | Inr addr \<Rightarrow> Inr (if IsNodeAlive (Some r) addr w then addr else ''''))
          else Inr (if IsNodeAlive (Some r) raw w then raw else ''''))"

definition LookupDeviceNode :: "'w route_api option \<Rightarrow> string \<Rightarrow> string \<Rightarrow> 'w \<Rightarrow> string + string" where
  "LookupDeviceNode redisClient deviceRouteKey deviceNo w =
     (case redisClient of
        None \<Rightarrow> Inr ''''
      | Some r \<Rightarrow>
          if trim_space deviceRouteKey = '''' \<or> trim_space deviceNo = '''' then Inr ''''
          else
            (let res = hget r deviceRouteKey deviceNo w;
                 raw = (case res of Inl e \<Rightarrow> '''' | Inr v \<Rightarrow> v)
             in if res = Inl RedisNil \<or> trim_space raw = '''' then Inr ''''
                else case res of
                       Inl (RedisErr e) \<Rightarrow> Inl e
                     | _ \<Rightarrow> lookupNodeFromRaw r (trim_space raw) w))"

definition PublishToNodeWithTrace ::
    "'w route_api option \<Rightarrow> string \<Rightarrow> int \<Rightarrow> (string \<times> string) list option \<Rightarrow> 'w \<Rightarrow> string option \<times> 'w" where
  "PublishToNodeWithTrace redisClient instanceId queueId traceCarrier w =
     (case redisClient of
        None \<Rightarrow> (None, w)
      | Some r \<Rightarrow>
          if trim_space instanceId = '''' \<or> queueId \<le> 0 then (None, w)
          else case marshal_payload r \<lparr>ip_Schema = InstructionPayloadSchema, ip_QueueId = queueId, ip_Trace = traceCarrier\<rparr> of
                 Inl e \<Rightarrow> (Some e, w)
               | Inr raw \<Rightarrow> publish r (sprintf_s NodeInstructionChannelFmt instanceId) raw w)"

definition PublishToNode :: "'w route_api option \<Rightarrow> string \<Rightarrow> int \<Rightarrow> 'w \<Rightarrow> string option \<times> 'w" where
  "PublishToNode redisClient instanceId queueId w = PublishToNodeWithTrace redisClient instanceId queueId None w"

definition ParseInstructionPayload ::
    "'w route_api \<Rightarrow> string \<Rightarrow> string + int \<times> (string \<times> string) list option" where
  "ParseInstructionPayload r raw0 =
     (let raw = trim_space raw0
      in if raw = '''' then Inl ''empty instruction payload''
         else if hd raw \<noteq> CHR ''{'' then Inl (''unsupported instruction payload format: '' @ raw)
         else case json_payload r raw of
                Inl e \<Rightarrow> Inl (''decode instruction envelope: '' @ e)
              | Inr payload \<Rightarrow>
                  if ip_QueueId payload \<le> 0 then Inl ''invalid queueId in envelope''
                  else Inr (ip_QueueId payload, ip_Trace payload))"

subsection \<open>Properties\<close>

lemma firstAliveNode_find:
  "firstAliveNode r addresses w =
     (case find (\<lambda>a. IsNodeAlive (Some r) a w) (map trim_space addresses) of None \<Rightarrow> '''' | Some a \<Rightarrow> a)"
  by (induction addresses) auto

lemma firstAliveNode_alive: "firstAliveNode r addresses w \<noteq> '''' \<Longrightarrow> IsNodeAlive (Some r) (firstAliveNode r addresses w) w"
  by (induction addresses) (auto split: if_splits)

lemma raw_alive:
  "lookupNodeFromRaw r raw w = Inr n \<Longrightarrow> n \<noteq> '''' \<Longrightarrow> IsNodeAlive (Some r) n w"
  using firstAliveNode_alive
  by (auto simp: lookupNodeFromRaw_def split: list.splits sum.splits if_splits)

text \<open>
  A node that \<open>LookupDeviceNode\<close> returns is alive, in every format of the route; and when it reports
  no error, an empty answer means that the arguments, the client or the route are missing, that no node of
  the route is alive, or that Redis failed: every error of \<^verbatim>\<open>HGET\<close> comes with an empty value and is
  therefore reported as a missing route.
\<close>

theorem lookup_finds_alive_node:
  assumes "LookupDeviceNode (Some r) key dev w = res"
    and "trim_space key \<noteq> ''''" and "trim_space dev \<noteq> ''''"
  shows "(case hget r key dev w of
            Inl e \<Rightarrow> res = Inr ''''
          | Inr raw \<Rightarrow> (\<forall>n. res = Inr n \<and> n \<noteq> '''' \<longrightarrow> IsNodeAlive (Some r) n w) \<and>
              (\<forall>as. trim_space raw \<noteq> '''' \<and> hd (trim_space raw) = CHR ''['' \<and> json_strings r (trim_space raw) = Inr as \<longrightarrow>
                 res = Inr (case find (\<lambda>a. IsNodeAlive (Some r) a w) (map trim_space as) of None \<Rightarrow> '''' | Some a \<Rightarrow> a)))"
proof (cases "hget r key dev w")
  case (Inl e)
  then show ?thesis using assms by (simp add: LookupDeviceNode_def Let_def)
next
  case (Inr raw)
  then have r: "res = (if trim_space raw = '''' then Inr '''' else lookupNodeFromRaw r (trim_space raw) w)"
    using assms by (cases "trim_space raw = ''''") (simp_all add: LookupDeviceNode_def Let_def)
  have "IsNodeAlive (Some r) n w" if "res = Inr n" "n \<noteq> ''''" for n
    using r that raw_alive [of r "trim_space raw" w n] by (auto split: if_splits)
  moreover have "res = Inr (firstAliveNode r as w)"
    if "trim_space raw \<noteq> ''''" "hd (trim_space raw) = CHR ''[''" "json_strings r (trim_space raw) = Inr as" for as
    using r that by (auto simp: lookupNodeFromRaw_def split: list.splits)
  ultimately show ?thesis by (simp add: Inr firstAliveNode_find)
qed

text \<open>A Redis with one route and one living node.\<close>

definition demo_route :: "unit route_api" where
  "demo_route = \<lparr>
     hget = (\<lambda>k f w. if f = ''dev'' then Inr ''[a, b]'' else Inl (RedisErr ''timeout'')),
     exists_key = (\<lambda>k w. Inr (if k = ''iot:nodes:alive:b'' then 1 else 0)),
     publish = (\<lambda>c m w. (None, w)),
     json_strings = (\<lambda>s. Inr [''a'', ''b'']), json_string = (\<lambda>s. Inl ''''), json_schema = (\<lambda>s. Inl ''''),
     json_array = (\<lambda>s. Inl ''''), json_single = (\<lambda>s. Inl ''''),
     json_payload = (\<lambda>s. Inl ''''), marshal_payload = (\<lambda>p. Inl '''')\<rparr>"

lemma trim_demo: "trim_space ''routes'' = ''routes''" "trim_space ''dev'' = ''dev''" "trim_space ''a'' = ''a''"
  "trim_space ''b'' = ''b''" "trim_space ''[a, b]'' = ''[a, b]''" "trim_space ''lost'' = ''lost''"
  by (rule trim_space_visible; simp add: visible_def)+

lemma lookup_finds_alive_node_witness:
  "LookupDeviceNode (Some demo_route) ''routes'' ''dev'' () = Inr ''b'' \<and>
   LookupDeviceNode (Some demo_route) ''routes'' ''lost'' () = Inr ''''"
  using lookup_finds_alive_node [OF refl, of "''routes''" "''dev''" demo_route "()"]
    lookup_finds_alive_node [OF refl, of "''routes''" "''lost''" demo_route "()"]
  by (simp add: trim_demo) (simp add: demo_route_def IsNodeAlive_def NodeAliveKeyFmt_def trim_demo)

text \<open>
  What is published can be parsed: if the payload can be marshalled, decoding inverts marshalling, and the
  text is a JSON object without surrounding space, then the receiver gets the queue id and the trace carrier.
\<close>

lemma published_payload_parses:
  assumes "0 < q" and "marshal_payload r \<lparr>ip_Schema = InstructionPayloadSchema, ip_QueueId = q, ip_Trace = tr\<rparr> = Inr raw"
    and "json_payload r raw = Inr \<lparr>ip_Schema = InstructionPayloadSchema, ip_QueueId = q, ip_Trace = tr\<rparr>"
    and "trim_space raw = raw" and "raw \<noteq> ''''" and "hd raw = CHR ''{''" and "trim_space inst \<noteq> ''''"
  shows "PublishToNodeWithTrace (Some r) inst q tr w = publish r (sprintf_s NodeInstructionChannelFmt inst) raw w \<and>
    ParseInstructionPayload r raw = Inr (q, tr)"
  using assms by (simp add: PublishToNodeWithTrace_def ParseInstructionPayload_def)

end
