(* ===== verification/Health.thy ===== *)
theory Health
  imports GoBase "HOL-Library.AList"
begin

text \<open>
  Heartbeats of service instances (\<^verbatim>\<open>src/pkg/health/health.go\<close>).  The store is the record \<open>store\<close> over an
  arbitrary world; a score is an integer, because every score the package writes is a Unix time, which a
  float holds exactly.  Contexts only carry deadlines, so they are left out.  The theory shows that the
  counts of \<open>Stat\<close> agree with the list of \<open>Instances\<close>, what one heartbeat leaves in the sorted set, and that a
  second call of \<open>Start\<close> leaves a goroutine that \<open>Stop\<close> does not end.
\<close>

definition defaultKeyPrefix :: string where
  "defaultKeyPrefix = ''compkg''"

definition defaultInterval :: duration where
  "defaultInterval = 10 * second"

definition defaultAliveWindow :: duration where
  "defaultAliveWindow = 30 * second"

definition defaultStaleCleanup :: duration where
  "defaultStaleCleanup = 5 * minute"

definition keyFor :: "string \<Rightarrow> string \<Rightarrow> string" where
  "keyFor pre service =
     (if pre = '''' then defaultKeyPrefix else pre) @ '':health:instance:'' @ service"

definition metaKeyFor :: "string \<Rightarrow> string \<Rightarrow> string" where
  "metaKeyFor pre service =
     (if pre = '''' then defaultKeyPrefix else pre) @ '':health:meta:'' @ service"

subsection \<open>The store\<close>

record ScoredMember =
  sm_Member :: string
  sm_Score :: int

text \<open>The optional part of the interface.\<close>

record 'w meta_store =
  st_HSet :: "string \<Rightarrow> string \<Rightarrow> string \<Rightarrow> 'w \<Rightarrow> string option \<times> 'w"
  st_HGetAll :: "string \<Rightarrow> 'w \<Rightarrow> string + (string \<Rightarrow> string option)"
  st_HDel :: "string \<Rightarrow> string \<Rightarrow> 'w \<Rightarrow> string option \<times> 'w"
  st_ZRange :: "string \<Rightarrow> 'w \<Rightarrow> string + ScoredMember list"

text \<open>\<open>None\<close> as a bound is an infinite one.\<close>

record 'w store =
  st_ZAdd :: "string \<Rightarrow> int \<Rightarrow> string \<Rightarrow> 'w \<Rightarrow> string option \<times> 'w"
  st_ZRemRangeByScore :: "string \<Rightarrow> int \<Rightarrow> 'w \<Rightarrow> string option \<times> 'w"
  st_ZRem :: "string \<Rightarrow> string \<Rightarrow> 'w \<Rightarrow> string option \<times> 'w"
  st_ZCount :: "string \<Rightarrow> int \<Rightarrow> 'w \<Rightarrow> string + int"
  st_ZCard :: "string \<Rightarrow> 'w \<Rightarrow> string + int"
  st_meta :: "'w meta_store option"

subsection \<open>The reporter\<close>

text \<open>
  A channel is a number, and one call of \<open>Start\<close> makes a stop and a done channel of the same number:
  \<open>r_ch\<close> are the current ones and \<open>r_closed\<close> the stop channels that are closed.  A running goroutine is a pair
  of its done channel, read when it begins, and the stop channel it waits on, which it reads anew in every
  turn of its loop.  \<open>r_errors\<close> are the calls of \<^verbatim>\<open>OnError\<close>.
\<close>

record Reporter =
  r_Prefix :: string
  r_Service :: string
  r_Instance :: string
  r_Interval :: duration
  r_StaleCleanup :: duration
  r_Meta :: "(string \<times> string) list"
  r_stopped :: bool
  r_ch :: "nat option"
  r_closed :: "nat list"
  r_chans :: nat
  r_loops :: "(nat \<times> nat) list"
  r_errors :: "string list"

definition report :: "string option \<Rightarrow> Reporter \<Rightarrow> Reporter" where
  "report e r = (case e of None \<Rightarrow> r | Some m \<Rightarrow> r\<lparr>r_errors := r_errors r @ [m]\<rparr>)"

definition reportMeta :: "((string \<times> string) list \<Rightarrow> string + string) \<Rightarrow> 'w store \<Rightarrow> Reporter \<times> 'w \<Rightarrow> Reporter \<times> 'w" where
  "reportMeta marshal st = (\<lambda>(r, w).
     (if r_Meta r = [] then (r, w)
      else case st_meta st of
             None \<Rightarrow> (r, w)
           | Some ms \<Rightarrow>
               (case marshal (r_Meta r) of
                  Inl e \<Rightarrow> (report (Some (''health meta marshal: '' @ e)) r, w)
                | Inr payload \<Rightarrow>
                    (let (e, w') = st_HSet ms (metaKeyFor (r_Prefix r) (r_Service r)) (r_Instance r) payload w
                     in (report (map_option (\<lambda>m. ''health meta hset: '' @ m) e) r, w')))))"

definition beat :: "((string \<times> string) list \<Rightarrow> string + string) \<Rightarrow> 'w store option \<Rightarrow> int \<Rightarrow> Reporter \<times> 'w \<Rightarrow> Reporter \<times> 'w" where
  "beat marshal store now = (\<lambda>(r, w).
     (case store of
        None \<Rightarrow> (report (Some ''health beat: nil redis client'') r, w)
      | Some st \<Rightarrow>
          (let key = keyFor (r_Prefix r) (r_Service r);
               (e, w1) = st_ZAdd st key now (r_Instance r) w
           in case e of
                Some m \<Rightarrow> (report (Some (''health beat: '' @ m)) r, w1)
              | None \<Rightarrow>
                  (let staleBefore = now - go_div (r_StaleCleanup r) second;
                       (e2, w2) = st_ZRemRangeByScore st key staleBefore w1
                   in reportMeta marshal st (report (map_option (\<lambda>m. ''health beat: '' @ m) e2) r, w2)))))"

definition Reporter_Start :: "((string \<times> string) list \<Rightarrow> string + string) \<Rightarrow> 'w store option \<Rightarrow> int \<Rightarrow> Reporter \<times> 'w \<Rightarrow> string option \<times> Reporter \<times> 'w" where
  "Reporter_Start marshal store now = (\<lambda>(r, w).
     (if store = None then (Some ''health: nil redis client'', r, w)
      else if r_Service r = '''' \<or> r_Instance r = '''' then (Some ''health: empty service or instance'', r, w)
      else
        (let r1 = (if r_Interval r \<le> 0 then r\<lparr>r_Interval := defaultInterval\<rparr> else r);
             r2 = (if r_StaleCleanup r1 \<le> 0 then r1\<lparr>r_StaleCleanup := defaultStaleCleanup\<rparr> else r1);
             ch = r_chans r2;
             (r3, w1) = beat marshal store now (r2\<lparr>r_ch := Some ch, r_chans := ch + 1\<rparr>, w)
         in (None, r3\<lparr>r_loops := r_loops r3 @ [(ch, ch)]\<rparr>, w1))))"

text \<open>
  \<^verbatim>\<open>Stop\<close> closes the current stop channel, waits until the goroutine with the current done channel has
  ended, and removes the instance.
\<close>

definition Reporter_Stop :: "'w store option \<Rightarrow> Reporter \<times> 'w \<Rightarrow> Reporter \<times> 'w" where
  "Reporter_Stop store = (\<lambda>(r, w).
     (if r_stopped r then (r, w)
      else
        (let r1 = (case r_ch r of
               None \<Rightarrow> r\<lparr>r_stopped := True\<rparr>
             | Some ch \<Rightarrow> r\<lparr>r_stopped := True, r_closed := r_closed r @ [ch],
                 r_loops := filter (\<lambda>g. fst g \<noteq> ch) (r_loops r)\<rparr>)
         in case store of
              None \<Rightarrow> (r1, w)
            | Some st \<Rightarrow>
                (let w1 = snd (st_ZRem st (keyFor (r_Prefix r) (r_Service r)) (r_Instance r) w)
                 in case st_meta st of
                      None \<Rightarrow> (r1, w1)
                    | Some ms \<Rightarrow> (r1, snd (st_HDel ms (metaKeyFor (r_Prefix r) (r_Service r)) (r_Instance r) w1))))))"

text \<open>
  One turn of the loop of a goroutine, by the case that \<^verbatim>\<open>select\<close> takes: the context has ended, the stop
  channel (only if it is closed), or the ticker.
\<close>

datatype select_case = CtxDone | StopCh | TickerC

definition reporter_turn :: "((string \<times> string) list \<Rightarrow> string + string) \<Rightarrow> 'w store option \<Rightarrow> nat \<times> nat \<Rightarrow> select_case \<Rightarrow> int \<Rightarrow>
    Reporter \<times> 'w \<Rightarrow> Reporter \<times> 'w" where
  "reporter_turn marshal store g chosen now = (\<lambda>(r, w).
     (if g \<notin> set (r_loops r) then (r, w)
      else if chosen = CtxDone \<or> (chosen = StopCh \<and> snd g \<in> set (r_closed r))
      then (r\<lparr>r_loops := remove1 g (r_loops r)\<rparr>, w)
      else if chosen = StopCh then (r, w)
      else
        (let (r1, w1) = beat marshal store now (r, w)
         in (r1\<lparr>r_loops := map (\<lambda>g'. if g' = g then (fst g, the (r_ch r1)) else g') (r_loops r1)\<rparr>, w1))))"

subsection \<open>The reader\<close>

record Reader =
  rd_Prefix :: string
  rd_AliveWindow :: duration

record ServiceStat =
  ss_Service :: string
  ss_Running :: int
  ss_Total :: int

definition alive_window :: "Reader \<Rightarrow> Reader" where
  "alive_window rd = (if rd_AliveWindow rd \<le> 0 then rd\<lparr>rd_AliveWindow := defaultAliveWindow\<rparr> else rd)"

definition Stat :: "'w store option \<Rightarrow> string \<Rightarrow> int \<Rightarrow> Reader \<Rightarrow> 'w \<Rightarrow> (ServiceStat \<times> string option) \<times> Reader" where
  "Stat store service now rd w =
     (let none = \<lparr>ss_Service = service, ss_Running = 0, ss_Total = 0\<rparr>
      in case store of
           None \<Rightarrow> ((none, Some ''health: nil redis client''), rd)
         | Some st \<Rightarrow>
             (let rd1 = alive_window rd;
                  key = keyFor (rd_Prefix rd1) service;
                  aliveFrom = now - go_div (rd_AliveWindow rd1) second
              in case st_ZCount st key aliveFrom w of
                   Inl e \<Rightarrow> ((none, Some e), rd1)
                 | Inr running \<Rightarrow>
                     (case st_ZCard st key w of
                        Inl e \<Rightarrow> ((none, Some e), rd1)
                      | Inr tot \<Rightarrow> ((\<lparr>ss_Service = service, ss_Running = running, ss_Total = tot\<rparr>, None), rd1))))"

fun StatAll :: "'w store option \<Rightarrow> string list \<Rightarrow> int \<Rightarrow> Reader \<Rightarrow> 'w \<Rightarrow> ServiceStat list \<times> string option" where
  "StatAll store [] now rd w = ([], None)"
| "StatAll store (svc # svcs) now rd w =
     (let ((s, e), rd1) = Stat store svc now rd w;
          (ss, e') = StatAll store svcs now rd1 w
      in (s # ss, (case e of None \<Rightarrow> e' | Some _ \<Rightarrow> e)))"

definition Aggregate :: "ServiceStat list \<Rightarrow> int \<times> int" where
  "Aggregate stats =
     fold (\<lambda>s (running, tot). (wrap64 (running + ss_Running s), wrap64 (tot + ss_Total s))) stats (0, 0)"

record InstanceMeta =
  im_Instance :: string
  im_LastBeat :: int
  im_Alive :: bool
  im_Meta :: "(string \<times> string) list option"

definition instance_of :: "(string \<Rightarrow> (string \<times> string) list option) \<Rightarrow> (string \<Rightarrow> string option) \<Rightarrow> int \<Rightarrow> ScoredMember \<Rightarrow> InstanceMeta" where
  "instance_of unmarshal metaMap aliveFrom m =
     \<lparr>im_Instance = sm_Member m, im_LastBeat = sm_Score m, im_Alive = (sm_Score m \<ge> aliveFrom),
      im_Meta = (case metaMap (sm_Member m) of
                   None \<Rightarrow> None | Some raw \<Rightarrow> if raw = '''' then None else unmarshal raw)\<rparr>"

definition Instances :: "(string \<Rightarrow> (string \<times> string) list option) \<Rightarrow> 'w store option \<Rightarrow> string \<Rightarrow> int \<Rightarrow> Reader \<Rightarrow> 'w \<Rightarrow> string + InstanceMeta list" where
  "Instances unmarshal store service now rd w =
     (case store of
        None \<Rightarrow> Inl ''health: nil redis client''
      | Some st \<Rightarrow>
          (case st_meta st of
             None \<Rightarrow> Inl ''health: store does not support MetaStore''
           | Some ms \<Rightarrow>
               (let rd1 = alive_window rd;
                    aliveFrom = now - go_div (rd_AliveWindow rd1) second
                in case st_ZRange ms (keyFor (rd_Prefix rd1) service) w of
                     Inl e \<Rightarrow> Inl (''health instances zrange: '' @ e)
                   | Inr members \<Rightarrow>
                       (let metaMap = (case st_HGetAll ms (metaKeyFor (rd_Prefix rd1) service) w of
                                         Inl e \<Rightarrow> (\<lambda>k. None) | Inr m \<Rightarrow> m)
                        in Inr (map (instance_of unmarshal metaMap aliveFrom) members)))))"

subsection \<open>What a sorted set promises\<close>

text \<open>
  \<open>zs w key\<close> is the sorted set under a key: the score of each member.  The clauses are the documented effects
  of the Redis commands when no error occurs, and no other process writes between them.
\<close>

definition sorted_sets :: "'w store \<Rightarrow> ('w \<Rightarrow> string \<Rightarrow> string \<Rightarrow> int option) \<Rightarrow> bool" where
  "sorted_sets st zs \<longleftrightarrow>
     (\<forall>key s m w. \<exists>w'. st_ZAdd st key s m w = (None, w') \<and> zs w' = (zs w)(key := (zs w key)(m \<mapsto> s))) \<and>
     (\<forall>key b w. \<exists>w'. st_ZRemRangeByScore st key b w = (None, w') \<and>
        zs w' = (zs w)(key := (zs w key) |` {m. \<forall>s. zs w key m = Some s \<longrightarrow> b < s})) \<and>
     (\<forall>key w. finite (dom (zs w key))) \<and>
     (\<forall>key a w. st_ZCount st key a w = Inr (int (card {m. \<exists>s. zs w key m = Some s \<and> a \<le> s}))) \<and>
     (\<forall>key w. st_ZCard st key w = Inr (int (card (dom (zs w key)))))"

definition meta_sets :: "'w meta_store \<Rightarrow> ('w \<Rightarrow> string \<Rightarrow> string \<Rightarrow> int option) \<Rightarrow> bool" where
  "meta_sets ms zs \<longleftrightarrow>
     (\<forall>key f v w. zs (snd (st_HSet ms key f v w)) = zs w) \<and>
     (\<forall>key w. \<exists>l. st_ZRange ms key w = Inr l \<and> distinct (map sm_Member l) \<and>
        zs w key = map_of (map (\<lambda>m. (sm_Member m, sm_Score m)) l))"

lemma sorted_setsD:
  assumes "sorted_sets st zs"
  shows "\<exists>w'. st_ZAdd st key s m w = (None, w') \<and> zs w' = (zs w)(key := (zs w key)(m \<mapsto> s))"
    and "\<exists>w'. st_ZRemRangeByScore st key b w = (None, w') \<and>
           zs w' = (zs w)(key := (zs w key) |` {m. \<forall>s. zs w key m = Some s \<longrightarrow> b < s})"
    and "finite (dom (zs w key))"
    and "st_ZCount st key a w = Inr (int (card {m. \<exists>s. zs w key m = Some s \<and> a \<le> s}))"
    and "st_ZCard st key w = Inr (int (card (dom (zs w key))))"
  using assms by (simp_all add: sorted_sets_def)

lemma meta_setsD:
  assumes "meta_sets ms zs"
  shows "zs (snd (st_HSet ms key f v w)) = zs w"
    and "\<exists>l. st_ZRange ms key w = Inr l \<and> distinct (map sm_Member l) \<and>
        zs w key = map_of (map (\<lambda>m. (sm_Member m, sm_Score m)) l)"
  using assms by (simp_all add: meta_sets_def)

lemma reportMeta_keeps:
  assumes "\<forall>ms. st_meta st = Some ms \<longrightarrow> meta_sets ms zs"
  shows "zs (snd (reportMeta marshal st (r, w))) = zs w"
proof (cases "r_Meta r = [] \<or> st_meta st = None")
  case False
  then obtain ms where ms: "st_meta st = Some ms" by auto
  then show ?thesis
    using False meta_setsD(1) [of ms zs] assms
    by (auto simp: reportMeta_def Let_def split: sum.splits prod.split) (metis snd_conv)
qed (auto simp: reportMeta_def)

lemma report_fields [simp]:
  "r_Prefix (report e r) = r_Prefix r" "r_Service (report e r) = r_Service r"
  "r_Instance (report e r) = r_Instance r" "r_StaleCleanup (report e r) = r_StaleCleanup r"
  "r_stopped (report e r) = r_stopped r" "r_ch (report e r) = r_ch r" "r_closed (report e r) = r_closed r"
  "r_chans (report e r) = r_chans r" "r_loops (report e r) = r_loops r"
  by (simp_all add: report_def split: option.split)

text \<open>A beat changes nothing of the reporter but the calls of \<^verbatim>\<open>OnError\<close>.\<close>

lemma beat_fields:
  assumes "beat marshal store now (r, w) = (r', w')"
  shows "r_Prefix r' = r_Prefix r \<and> r_Service r' = r_Service r \<and> r_Instance r' = r_Instance r \<and>
    r_StaleCleanup r' = r_StaleCleanup r \<and> r_stopped r' = r_stopped r \<and> r_ch r' = r_ch r \<and>
    r_closed r' = r_closed r \<and> r_chans r' = r_chans r \<and> r_loops r' = r_loops r"
  using assms
  by (auto simp: beat_def reportMeta_def Let_def split: option.splits sum.splits prod.splits if_splits)

lemma alive_count:
  assumes "distinct (map sm_Member l)"
  shows "card {m. \<exists>s. map_of (map (\<lambda>m. (sm_Member m, sm_Score m)) l) m = Some s \<and> a \<le> s} =
    length (filter (\<lambda>m. a \<le> sm_Score m) l)"
proof -
  let ?kv = "map (\<lambda>m. (sm_Member m, sm_Score m)) l"
  have d: "distinct (map fst ?kv)" using assms by (simp add: comp_def)
  have "{m. \<exists>s. map_of ?kv m = Some s \<and> a \<le> s} = sm_Member ` set (filter (\<lambda>m. a \<le> sm_Score m) l)"
    using map_of_eq_Some_iff [OF d] by (auto simp: image_iff)
  moreover have "distinct (map sm_Member (filter (\<lambda>m. a \<le> sm_Score m) l))"
    using assms by (rule distinct_map_filter)
  ultimately show ?thesis by (metis distinct_card length_map set_map)
qed

lemma member_count:
  assumes "distinct (map sm_Member l)"
  shows "card (dom (map_of (map (\<lambda>m. (sm_Member m, sm_Score m)) l))) = length l"
proof -
  have "dom (map_of (map (\<lambda>m. (sm_Member m, sm_Score m)) l)) = set (map sm_Member l)"
    by (simp add: dom_map_of_conv_image_fst image_image)
  then show ?thesis using distinct_card [OF assms] by simp
qed

text \<open>
  C28. The two views of a service agree: when the store works, the number of running instances of \<open>Stat\<close> is the
  number of instances that \<open>Instances\<close> marks as alive, and the total is the length of its list, whatever the
  window of the reader (also when it is the default) and whether or not the meta data can be read.
\<close>

theorem stat_agrees_with_instances:
  assumes "sorted_sets st zs" and "st_meta st = Some ms" and "meta_sets ms zs"
  shows "\<exists>l. Instances unmarshal (Some st) service now rd w = Inr l \<and>
    fst (Stat (Some st) service now rd w) =
      (\<lparr>ss_Service = service, ss_Running = int (length (filter im_Alive l)), ss_Total = int (length l)\<rparr>, None)"
proof -
  let ?key = "keyFor (rd_Prefix (alive_window rd)) service"
  let ?a = "now - go_div (rd_AliveWindow (alive_window rd)) second"
  obtain l where l: "st_ZRange ms ?key w = Inr l" "distinct (map sm_Member l)"
      "zs w ?key = map_of (map (\<lambda>m. (sm_Member m, sm_Score m)) l)"
    using meta_setsD(2) [OF assms(3)] by metis
  let ?mm = "case st_HGetAll ms (metaKeyFor (rd_Prefix (alive_window rd)) service) w of Inl e \<Rightarrow> (\<lambda>k. None) | Inr m \<Rightarrow> m"
  have i: "Instances unmarshal (Some st) service now rd w = Inr (map (instance_of unmarshal ?mm ?a) l)"
    using l(1) assms(2) by (simp add: Instances_def Let_def)
  have "filter im_Alive (map (instance_of unmarshal ?mm ?a) l) =
      map (instance_of unmarshal ?mm ?a) (filter (\<lambda>m. ?a \<le> sm_Score m) l)"
    by (simp add: filter_map comp_def instance_of_def)
  moreover have "st_ZCount st ?key ?a w = Inr (int (card {m. \<exists>s. zs w ?key m = Some s \<and> ?a \<le> s}))"
      "st_ZCard st ?key w = Inr (int (card (dom (zs w ?key))))"
    by (rule sorted_setsD(4, 5) [OF assms(1)])+
  ultimately show ?thesis
    using i alive_count [OF l(2), of ?a] member_count [OF l(2)]
    by (simp add: Stat_def Let_def l(3))
qed

lemma beat_sets:
  assumes "sorted_sets st zs" and "\<forall>ms. st_meta st = Some ms \<longrightarrow> meta_sets ms zs"
    and "beat marshal (Some st) now (r, w) = (r', w')" and "0 \<le> r_StaleCleanup r"
  defines "key \<equiv> keyFor (r_Prefix r) (r_Service r)"
  shows "zs w' = (zs w)(key := ((zs w key)(r_Instance r \<mapsto> now))
        |` {m. \<forall>s. ((zs w key)(r_Instance r \<mapsto> now)) m = Some s \<longrightarrow> now - r_StaleCleanup r div second < s})"
    and "zs w' key (r_Instance r) = (if second \<le> r_StaleCleanup r then Some now else None)"
proof -
  let ?z = "(zs w key)(r_Instance r \<mapsto> now)"
  let ?b = "now - r_StaleCleanup r div second"
  have b: "go_div (r_StaleCleanup r) second = r_StaleCleanup r div second"
    using assms(4) by (simp add: go_div_nonneg go_time)
  obtain w1 where a: "st_ZAdd st key now (r_Instance r) w = (None, w1)" "zs w1 = (zs w)(key := ?z)"
    using sorted_setsD(1) [OF assms(1)] by blast
  obtain w2 where d: "st_ZRemRangeByScore st key ?b w1 = (None, w2)"
      "zs w2 = (zs w1)(key := (zs w1 key) |` {m. \<forall>s. zs w1 key m = Some s \<longrightarrow> ?b < s})"
    using sorted_setsD(2) [OF assms(1)] by blast
  have "(r', w') = reportMeta marshal st (r, w2)"
    using assms(3) a(1) d(1) b by (simp add: beat_def Let_def report_def key_def)
  then have "zs w' = zs w2" using reportMeta_keeps [OF assms(2)] by (metis snd_conv)
  then show z: "zs w' = (zs w)(key := ?z |` {m. \<forall>s. ?z m = Some s \<longrightarrow> ?b < s})"
    using a(2) d(2) by (simp add: key_def)
  have s: "second \<le> r_StaleCleanup r \<longleftrightarrow> ?b < now"
    using assms(4) by (auto simp: go_time pos_imp_zdiv_pos_iff)
  show "zs w' key (r_Instance r) = (if second \<le> r_StaleCleanup r then Some now else None)"
    using s by (simp add: z restrict_map_def)
qed

lemma beat_sets_score:
  assumes "sorted_sets st zs" and "\<forall>ms. st_meta st = Some ms \<longrightarrow> meta_sets ms zs"
    and "beat marshal (Some st) now (r, w) = (r', w')" and "0 \<le> r_StaleCleanup r"
  shows "zs w' (keyFor (r_Prefix r) (r_Service r)) (r_Instance r) = (if second \<le> r_StaleCleanup r then Some now else None)"
  by (rule beat_sets(2) [OF assms])

text \<open>
  A heartbeat is seen.  After a beat of a reporter with a reader of the same prefix, the
  instance is in the set with the time of the beat, and the reader counts it as running until the
  window of the reader has passed; but a reporter whose clean-up threshold is below one second removes its
  own heartbeat.  The beat touches no other service, and of its own service it removes exactly the members
  that are not newer than the threshold.
\<close>

theorem heartbeat_is_seen:
  assumes "sorted_sets st zs" and "\<forall>ms. st_meta st = Some ms \<longrightarrow> meta_sets ms zs"
    and "beat marshal (Some st) now (r, w) = (r', w')"
    and "0 \<le> r_StaleCleanup r" and "rd_Prefix rd = r_Prefix r"
  shows "zs w' (keyFor (r_Prefix r) (r_Service r)) =
      ((zs w (keyFor (r_Prefix r) (r_Service r)))(r_Instance r \<mapsto> now))
        |` {m. \<forall>s. ((zs w (keyFor (r_Prefix r) (r_Service r)))(r_Instance r \<mapsto> now)) m = Some s \<longrightarrow>
                now - r_StaleCleanup r div second < s} \<and>
    (\<forall>key. key \<noteq> keyFor (r_Prefix r) (r_Service r) \<longrightarrow> zs w' key = zs w key) \<and>
    (zs w' (keyFor (r_Prefix r) (r_Service r)) (r_Instance r) = (if second \<le> r_StaleCleanup r then Some now else None)) \<and>
    (second \<le> r_StaleCleanup r \<and> now' - go_div (rd_AliveWindow (alive_window rd)) second \<le> now \<longrightarrow>
       0 < ss_Running (fst (fst (Stat (Some st) (r_Service r) now' rd w'))))"
proof -
  let ?key = "keyFor (r_Prefix r) (r_Service r)"
  note z = beat_sets(1) [OF assms(1-4)]
  note m = beat_sets(2) [OF assms(1-4)]
  have "0 < ss_Running (fst (fst (Stat (Some st) (r_Service r) now' rd w')))"
    if n: "second \<le> r_StaleCleanup r" "now' - go_div (rd_AliveWindow (alive_window rd)) second \<le> now"
  proof -
    let ?A = "{m. \<exists>s. zs w' ?key m = Some s \<and> now' - go_div (rd_AliveWindow (alive_window rd)) second \<le> s}"
    have "finite ?A"
      by (rule finite_subset [OF _ sorted_setsD(3) [OF assms(1), of w' ?key]]) auto
    moreover have "r_Instance r \<in> ?A" using m n by simp
    ultimately have "0 < card ?A" by (auto simp: card_gt_0_iff)
    moreover have "rd_Prefix (alive_window rd) = r_Prefix r" using assms(5) by (simp add: alive_window_def)
    ultimately show ?thesis
      by (simp add: Stat_def Let_def sorted_setsD(4, 5) [OF assms(1)])
  qed
  with m z show ?thesis by simp
qed

text \<open>
  A second call of \<open>Start\<close> is not ignored: it starts a second goroutine.  A following \<open>Stop\<close> ends only this
  one, and the first one, which still waits on the stop channel of the first call, beats
  at its next tick and so puts the instance that \<open>Stop\<close> has removed back into the sorted set.
\<close>

theorem second_start_beats_after_stop:
  assumes "sorted_sets st zs" and "\<forall>ms. st_meta st = Some ms \<longrightarrow> meta_sets ms zs"
    and "r_loops r = []" and "r_closed r = []" and "\<not> r_stopped r"
    and "Reporter_Start marshal (Some st) t1 (r, w) = (None, r1, w1)"
    and "Reporter_Start marshal (Some st) t2 (r1, w1) = (None, r2, w2)"
    and "Reporter_Stop (Some st) (r2, w2) = (r3, w3)" and "second \<le> r_StaleCleanup r3"
  shows "\<exists>g. r_loops r3 = [g] \<and> snd g \<notin> set (r_closed r3) \<and>
    zs (snd (reporter_turn marshal (Some st) g TickerC t3 (r3, w3))) (keyFor (r_Prefix r3) (r_Service r3)) (r_Instance r3) = Some t3"
proof -
  have one: "r_loops ra' = r_loops ra @ [(r_chans ra, r_chans ra)] \<and> r_chans ra' = r_chans ra + 1 \<and>
      r_ch ra' = Some (r_chans ra) \<and> r_closed ra' = r_closed ra \<and> r_stopped ra' = r_stopped ra"
    if "Reporter_Start marshal (Some st) t (ra, wa) = (None, ra', wa')" for t ra wa ra' wa'
    using that by (auto simp: Reporter_Start_def Let_def dest!: beat_fields split: prod.splits if_splits)
  have s1: "r_loops r1 = [(r_chans r, r_chans r)]" "r_chans r1 = r_chans r + 1" "r_closed r1 = []" "\<not> r_stopped r1"
    using one [OF assms(6)] assms(3-5) by simp_all
  have s2: "r_loops r2 = [(r_chans r, r_chans r), (r_chans r + 1, r_chans r + 1)]"
      "r_ch r2 = Some (r_chans r + 1)" "r_closed r2 = []" "\<not> r_stopped r2"
    using one [OF assms(7)] s1 by simp_all
  have s3: "r_loops r3 = [(r_chans r, r_chans r)]" "r_closed r3 = [r_chans r + 1]"
    using assms(8) s2 by (auto simp: Reporter_Stop_def Let_def split: option.splits)
  obtain r4 w4 where b: "beat marshal (Some st) t3 (r3, w3) = (r4, w4)" by fastforce
  have "0 \<le> r_StaleCleanup r3" using assms(9) by (simp add: go_time)
  from beat_sets_score [OF assms(1, 2) b this] assms(9) b s3 show ?thesis
    by (simp add: reporter_turn_def)
qed

subsection \<open>A store that keeps its promises\<close>

type_synonym demo_world = "string \<Rightarrow> (string \<times> int) list"

definition demo_meta :: "demo_world meta_store" where
  "demo_meta = \<lparr>
     st_HSet = (\<lambda>key f v w. (None, w)), st_HGetAll = (\<lambda>key w. Inr (\<lambda>f. None)),
     st_HDel = (\<lambda>key f w. (None, w)),
     st_ZRange = (\<lambda>key w. Inr (map (\<lambda>(m, s). \<lparr>sm_Member = m, sm_Score = s\<rparr>) (AList.clearjunk (w key))))\<rparr>"

definition demo_store :: "demo_world store" where
  "demo_store = \<lparr>
     st_ZAdd = (\<lambda>key s m w. (None, w(key := (m, s) # w key))),
     st_ZRemRangeByScore = (\<lambda>key b w. (None, w(key := filter (\<lambda>kv. b < snd kv) (AList.clearjunk (w key))))),
     st_ZRem = (\<lambda>key m w. (None, w(key := filter (\<lambda>kv. fst kv \<noteq> m) (w key)))),
     st_ZCount = (\<lambda>key a w. Inr (int (length (filter (\<lambda>kv. a \<le> snd kv) (AList.clearjunk (w key)))))),
     st_ZCard = (\<lambda>key w. Inr (int (length (AList.clearjunk (w key))))),
     st_meta = Some demo_meta\<rparr>"

definition demo_sets :: "demo_world \<Rightarrow> string \<Rightarrow> string \<Rightarrow> int option" where
  "demo_sets w key = map_of (w key)"

lemma map_of_filter_value:
  "distinct (map fst l) \<Longrightarrow> map_of (filter (\<lambda>kv. b < snd kv) l) = map_of l |` {m. \<forall>s. map_of l m = Some s \<longrightarrow> b < s}"
proof (induction l)
  case (Cons kv l)
  then have "map_of l (fst kv) = None" by (auto simp: map_of_eq_None_iff)
  with Cons show ?case by (cases kv) (auto simp: restrict_map_def fun_eq_iff)
qed auto

lemma demo_meta_sets: "meta_sets demo_meta demo_sets"
proof -
  have "map_of (w key) = map_of (map (\<lambda>m. (sm_Member m, sm_Score m))
      (map (\<lambda>(m, s). \<lparr>sm_Member = m, sm_Score = s\<rparr>) (AList.clearjunk (w key))))" for w :: demo_world and key
  proof -
    have "map (\<lambda>m. (sm_Member m, sm_Score m)) (map (\<lambda>(m, s). \<lparr>sm_Member = m, sm_Score = s\<rparr>) l) = l" for l
      by (induction l) auto
    then show ?thesis by (simp only: map_of_clearjunk)
  qed
  moreover have "distinct (map sm_Member (map (\<lambda>(m, s). \<lparr>sm_Member = m, sm_Score = s\<rparr>) (AList.clearjunk (w key))))"
    for w :: demo_world and key
  proof -
    have "map sm_Member (map (\<lambda>(m, s). \<lparr>sm_Member = m, sm_Score = s\<rparr>) l) = map fst l" for l
      by (induction l) auto
    then show ?thesis by (simp only: distinct_clearjunk)
  qed
  ultimately show ?thesis
    unfolding meta_sets_def by (simp add: demo_meta_def demo_sets_def del: map_map)
qed

lemma demo_sorted_sets: "sorted_sets demo_store demo_sets"
proof -
  have c: "card {m. \<exists>s. map_of (w key) m = Some s \<and> a \<le> s} = length (filter (\<lambda>kv. a \<le> snd kv) (AList.clearjunk (w key)))"
    "card (dom (map_of (w key))) = length (AList.clearjunk (w key))" for w :: demo_world and key a
  proof -
    have i: "map (\<lambda>m. (sm_Member m, sm_Score m)) (map (\<lambda>(m, s). \<lparr>sm_Member = m, sm_Score = s\<rparr>) l) = l"
      "map sm_Member (map (\<lambda>(m, s). \<lparr>sm_Member = m, sm_Score = s\<rparr>) l) = map fst l"
      "length (filter (\<lambda>m. a \<le> sm_Score m) (map (\<lambda>(m, s). \<lparr>sm_Member = m, sm_Score = s\<rparr>) l)) =
       length (filter (\<lambda>kv. a \<le> snd kv) l)" for l
      by (induction l) auto
    let ?l = "map (\<lambda>(m, s). \<lparr>sm_Member = m, sm_Score = s\<rparr>) (AList.clearjunk (w key))"
    have d: "distinct (map sm_Member ?l)" by (simp only: i distinct_clearjunk)
    from alive_count [OF d, of a] member_count [OF d]
    show "card {m. \<exists>s. map_of (w key) m = Some s \<and> a \<le> s} = length (filter (\<lambda>kv. a \<le> snd kv) (AList.clearjunk (w key)))"
      "card (dom (map_of (w key))) = length (AList.clearjunk (w key))"
      by (simp_all only: i map_of_clearjunk length_map)
  qed
  have f: "map_of (filter (\<lambda>kv. b < snd kv) (AList.clearjunk (w key))) =
      map_of (w key) |` {m. \<forall>s. map_of (w key) m = Some s \<longrightarrow> b < s}" for w :: demo_world and key b
    using map_of_filter_value [OF distinct_clearjunk, of b "w key"] by (simp only: map_of_clearjunk)
  have u: "demo_sets (w(key := x)) = (demo_sets w)(key := map_of x)" for w key x
    by (simp add: demo_sets_def fun_eq_iff)
  show ?thesis
    unfolding sorted_sets_def demo_store_def store.simps
    by (intro conjI allI) (simp_all add: u f demo_sets_def finite_dom_map_of c)
qed

definition demo_reporter :: Reporter where
  "demo_reporter = \<lparr>r_Prefix = '''', r_Service = ''api'', r_Instance = ''i1'', r_Interval = 0, r_StaleCleanup = minute,
     r_Meta = [], r_stopped = False, r_ch = None, r_closed = [], r_chans = 0, r_loops = [], r_errors = []\<rparr>"

definition demo_set :: demo_world where
  "demo_set = (\<lambda>key. if key = keyFor '''' ''api'' then [(''i0'', 1000), (''i9'', 10)] else [])"

definition demo_reader :: Reader where
  "demo_reader = \<lparr>rd_Prefix = '''', rd_AliveWindow = 0\<rparr>"

lemma demo_meta_ok: "\<forall>ms. st_meta demo_store = Some ms \<longrightarrow> meta_sets ms demo_sets"
  using demo_meta_sets by (simp add: demo_store_def)

lemma stat_agrees_with_instances_witness:
  "\<exists>l. Instances (\<lambda>s. None) (Some demo_store) ''api'' 1010 demo_reader demo_set = Inr l \<and>
     fst (Stat (Some demo_store) ''api'' 1010 demo_reader demo_set) =
       (\<lparr>ss_Service = ''api'', ss_Running = int (length (filter im_Alive l)), ss_Total = int (length l)\<rparr>, None)"
  by (rule stat_agrees_with_instances [OF demo_sorted_sets _ demo_meta_sets]) (simp add: demo_store_def)

lemma heartbeat_is_seen_witness:
  "0 < ss_Running (fst (fst (Stat (Some demo_store) ''api'' 1030 demo_reader
     (snd (beat (\<lambda>m. Inr '''') (Some demo_store) 1005 (demo_reporter, demo_set))))))"
proof -
  obtain r' w' where b: "beat (\<lambda>m. Inr '''') (Some demo_store) 1005 (demo_reporter, demo_set) = (r', w')" by fastforce
  from heartbeat_is_seen [OF demo_sorted_sets demo_meta_ok b, of demo_reader 1030] b show ?thesis
    by (simp add: demo_reporter_def demo_reader_def alive_window_def defaultAliveWindow_def go_time go_div_def)
qed

lemma second_start_beats_after_stop_witness:
  "\<exists>r3 w3 g. r_loops r3 = [g] \<and> snd g \<notin> set (r_closed r3) \<and> r_stopped r3 \<and>
     demo_sets (snd (reporter_turn (\<lambda>m. Inr '''') (Some demo_store) g TickerC 1100 (r3, w3)))
       (keyFor (r_Prefix r3) (r_Service r3)) (r_Instance r3) = Some 1100"
proof -
  let ?m = "\<lambda>m. Inr '''' :: string + string"
  let ?x1 = "Reporter_Start ?m (Some demo_store) 1000 (demo_reporter, demo_set)"
  let ?x2 = "Reporter_Start ?m (Some demo_store) 1001 (snd ?x1)"
  let ?x3 = "Reporter_Stop (Some demo_store) (snd ?x2)"
  obtain e1 r1 w1 where x1: "?x1 = (e1, r1, w1)" by (metis prod_cases3)
  obtain e2 r2 w2 where x2: "Reporter_Start ?m (Some demo_store) 1001 (r1, w1) = (e2, r2, w2)" by (metis prod_cases3)
  obtain r3 w3 where x3: "Reporter_Stop (Some demo_store) (r2, w2) = (r3, w3)" by fastforce
  have f1: "e1 = None" "r_StaleCleanup r1 = minute" "r_Service r1 = ''api''" "r_Instance r1 = ''i1''"
    using x1 by (auto simp: Reporter_Start_def demo_reporter_def Let_def go_time dest!: beat_fields split: prod.splits)
  have f2: "e2 = None" "r_StaleCleanup r2 = minute"
    using x2 f1 by (auto simp: Reporter_Start_def Let_def go_time dest!: beat_fields split: prod.splits if_splits)
  have f3: "second \<le> r_StaleCleanup r3" "r_stopped r3"
    using x3 f2 by (auto simp: Reporter_Stop_def Let_def go_time split: option.splits if_splits)
  show ?thesis
    using second_start_beats_after_stop [OF demo_sorted_sets demo_meta_ok _ _ _ x1 [unfolded f1] x2 [unfolded f2] x3 f3(1)]
      f3(2) by (fastforce simp: demo_reporter_def)
qed

end
