(* ===== verification/LogLevel.thy ===== *)
theory LogLevel
  imports GoText
begin

text \<open>
  The levels of package \<^verbatim>\<open>pkg/logger\<close> and its plain logger: \<^verbatim>\<open>logger.go\<close> (levels, \<^verbatim>\<open>SetLevel\<close>, the package
  functions \<^verbatim>\<open>Error\<close>, \<^verbatim>\<open>Errorf\<close>, \<^verbatim>\<open>CtxErrorf\<close>, ...), \<^verbatim>\<open>default.go\<close> (\<^verbatim>\<open>localLogger\<close>) and the level names of
  \<^verbatim>\<open>options.go\<close> and \<^verbatim>\<open>zap_driver.go\<close>.  A \<^verbatim>\<open>Level\<close> is a Go \<^verbatim>\<open>int\<close>: any number can be passed, the seven
  constants are 0 to 6.  The functions of one family differ in the level they name only, so each family is one
  definition with the level as its argument.
\<close>

subsection \<open>Levels\<close>

type_synonym log_level = int

definition LevelTrace :: log_level where "LevelTrace = 0"
definition LevelDebug :: log_level where "LevelDebug = 1"
definition LevelInfo :: log_level where "LevelInfo = 2"
definition LevelNotice :: log_level where "LevelNotice = 3"
definition LevelWarn :: log_level where "LevelWarn = 4"
definition LevelError :: log_level where "LevelError = 5"
definition LevelFatal :: log_level where "LevelFatal = 6"

lemmas level_defs =
  LevelTrace_def LevelDebug_def LevelInfo_def LevelNotice_def LevelWarn_def LevelError_def LevelFatal_def

definition levels :: "log_level list" where
  "levels = [LevelTrace, LevelDebug, LevelInfo, LevelNotice, LevelWarn, LevelError, LevelFatal]"

definition level_tags :: "string list" where
  "level_tags = [''[Trace] '', ''[Debug] '', ''[Info] '', ''[Notice] '', ''[Warn] '', ''[Error] '', ''[Fatal] '']"

definition level_toString :: "log_level \<Rightarrow> string" where
  "level_toString lv =
     (if LevelTrace \<le> lv \<and> lv \<le> LevelFatal then level_tags ! nat lv else ''[?'' @ format_int lv @ ''] '')"

definition LevelName :: "log_level \<Rightarrow> string" where
  "LevelName lv =
     (if lv = LevelTrace then ''trace'' else if lv = LevelDebug then ''debug'' else if lv = LevelInfo then ''info''
      else if lv = LevelNotice then ''notice'' else if lv = LevelWarn then ''warn''
      else if lv = LevelError then ''error'' else if lv = LevelFatal then ''fatal'' else ''info'')"

definition ParseLevel :: "string \<Rightarrow> log_level" where
  "ParseLevel s =
     (if s = ''trace'' then LevelTrace else if s = ''debug'' then LevelDebug else if s = ''info'' then LevelInfo
      else if s = ''notice'' then LevelNotice else if s = ''warn'' \<or> s = ''warning'' then LevelWarn
      else if s = ''err'' \<or> s = ''error'' then LevelError
      else if s = ''fatal'' \<or> s = ''panic'' then LevelFatal else LevelInfo)"

text \<open>The levels of zap are numbers as well: debug -1, info 0, warn 1, error 2, fatal 5.\<close>

type_synonym zlevel = int

definition DebugLevel :: zlevel where "DebugLevel = - 1"
definition InfoLevel :: zlevel where "InfoLevel = 0"
definition WarnLevel :: zlevel where "WarnLevel = 1"
definition ErrorLevel :: zlevel where "ErrorLevel = 2"
definition FatalLevel :: zlevel where "FatalLevel = 5"

lemmas zlevel_defs = DebugLevel_def InfoLevel_def WarnLevel_def ErrorLevel_def FatalLevel_def

definition toZapLevel :: "log_level \<Rightarrow> zlevel" where
  "toZapLevel lv =
     (if lv = LevelTrace \<or> lv = LevelDebug then DebugLevel else if lv = LevelInfo then InfoLevel
      else if lv = LevelNotice \<or> lv = LevelWarn then WarnLevel else if lv = LevelError then ErrorLevel
      else if lv = LevelFatal then FatalLevel else InfoLevel)"

lemma toZapLevel_le_fatal [simp]: "toZapLevel lv \<le> FatalLevel"
  by (simp add: toZapLevel_def zlevel_defs)

subsection \<open>Printing operands\<close>

text \<open>
  What \<^verbatim>\<open>fmt.Sprint\<close> does with its operands: a string stands for itself, any other value for its \<^verbatim>\<open>%v\<close> text, a
  slice of operands for the texts of its elements between brackets; a space separates two operands unless one
  of them is a string.
\<close>

datatype operand = OStr string | OVal string | OSlice "operand list"

fun operand_text :: "operand \<Rightarrow> string" where
  "operand_text (OStr s) = s"
| "operand_text (OVal s) = s"
| "operand_text (OSlice xs) = ''['' @ join '' '' (map operand_text xs) @ '']''"

fun is_string :: "operand \<Rightarrow> bool" where
  "is_string (OStr s) = True"
| "is_string x = False"

fun sprint :: "operand list \<Rightarrow> string" where
  "sprint [] = ''''"
| "sprint [x] = operand_text x"
| "sprint (x # y # xs) = operand_text x @ (if is_string x \<or> is_string y then '''' else '' '') @ sprint (y # xs)"

lemma sprint_strings: "sprint (map OStr ss) = concat ss"
proof (induction ss)
  case (Cons s ss)
  then show ?case by (cases ss) auto
qed simp

lemma join_strings: "map operand_text (map OStr ss) = ss"
  by (simp add: comp_def)

subsection \<open>The plain logger\<close>

record plain_log =
  pl_level :: log_level
  pl_lines :: "string list"
  pl_exited :: bool

definition SetLevel :: "log_level \<Rightarrow> plain_log \<Rightarrow> plain_log outcome" where
  "SetLevel lv st =
     (if lv < LevelTrace \<or> lv > LevelFatal then Panic else Ok (st\<lparr>pl_level := lv\<rparr>))"

text \<open>
  \<^verbatim>\<open>localLogger.logf\<close>; \<open>format\<close> is the pointer to the format of the \<^verbatim>\<open>...f\<close> methods, \<open>sprintf\<close> the formatting of the
  standard library.  After a fatal message the process exits.
\<close>

definition logf ::
  "(string \<Rightarrow> operand list \<Rightarrow> string) \<Rightarrow> log_level \<Rightarrow> string option \<Rightarrow> operand list \<Rightarrow> plain_log \<Rightarrow> plain_log" where
  "logf sprintf lv format v st =
     (if pl_level st > lv then st
      else let msg = level_toString lv @ (case format of Some f \<Rightarrow> sprintf f v | None \<Rightarrow> sprint v);
               st = st\<lparr>pl_lines := pl_lines st @ [msg]\<rparr>
           in if lv = LevelFatal then st\<lparr>pl_exited := True\<rparr> else st)"

text \<open>The interface \<^verbatim>\<open>Logger\<close>: its three families of methods.\<close>

record plain_logger =
  lg_print :: "log_level \<Rightarrow> operand list \<Rightarrow> plain_log \<Rightarrow> plain_log"
  lg_printf :: "log_level \<Rightarrow> string \<Rightarrow> operand list \<Rightarrow> plain_log \<Rightarrow> plain_log"
  lg_ctxPrintf :: "log_level \<Rightarrow> string \<Rightarrow> operand list \<Rightarrow> plain_log \<Rightarrow> plain_log"

definition localLogger :: "(string \<Rightarrow> operand list \<Rightarrow> string) \<Rightarrow> plain_logger" where
  "localLogger sprintf =
     \<lparr>lg_print = (\<lambda>lv v. logf sprintf lv None v),
      lg_printf = (\<lambda>lv f v. logf sprintf lv (Some f) v),
      lg_ctxPrintf = (\<lambda>lv f v. logf sprintf lv (Some f) v)\<rparr>"

definition SetDefaultLogger :: "plain_logger option \<Rightarrow> plain_logger outcome" where
  "SetDefaultLogger l = (case l of None \<Rightarrow> Panic | Some l \<Rightarrow> Ok l)"

text \<open>
  The package functions \<^verbatim>\<open>Fatal(v ...)\<close> to \<^verbatim>\<open>Trace(v ...)\<close>: they hand the slice \<^verbatim>\<open>v\<close> on as one operand.
  \<^verbatim>\<open>Fatal\<close> does not look at the level.
\<close>

definition pkg_print :: "plain_logger \<Rightarrow> log_level \<Rightarrow> operand list \<Rightarrow> plain_log \<Rightarrow> plain_log" where
  "pkg_print defaultLogger lv v st =
     (if lv \<noteq> LevelFatal \<and> pl_level st > lv then st else lg_print defaultLogger lv [OSlice v] st)"

definition pkg_printf :: "plain_logger \<Rightarrow> log_level \<Rightarrow> string \<Rightarrow> operand list \<Rightarrow> plain_log \<Rightarrow> plain_log" where
  "pkg_printf defaultLogger lv format v st =
     (if lv \<noteq> LevelFatal \<and> pl_level st > lv then st else lg_printf defaultLogger lv format v st)"

definition pkg_ctxPrintf :: "plain_logger \<Rightarrow> log_level \<Rightarrow> string \<Rightarrow> operand list \<Rightarrow> plain_log \<Rightarrow> plain_log" where
  "pkg_ctxPrintf defaultLogger lv format v st =
     (if lv \<noteq> LevelFatal \<and> pl_level st > lv then st else lg_ctxPrintf defaultLogger lv format v st)"

subsection \<open>Properties\<close>

text \<open>
  The names of the levels can be read back: for each of the seven levels parsing its name gives the level,
  and every other number is written and read as the level info; in the zap driver neighbouring levels share a
  threshold, but no level gets ahead of a higher one.
\<close>

theorem level_names_round_trip:
  shows "(\<forall>lv. ParseLevel (LevelName lv) = (if lv \<in> set levels then lv else LevelInfo)) \<and>
    sorted (map toZapLevel levels)"
  by (auto simp: ParseLevel_def LevelName_def levels_def toZapLevel_def level_defs zlevel_defs)

text \<open>
  The package functions print their operands as one slice: for a valid level a message made of strings is
  written exactly when its level reaches the threshold, and its text has brackets around it and spaces between the
  strings, while the method of the default logger writes the strings as they are.
\<close>

theorem package_print_brackets:
  assumes "pl_level st \<le> lv" and "lv \<in> set levels"
  shows "pl_lines (pkg_print (localLogger sprintf) lv (map OStr ss) st) =
      pl_lines st @ [level_toString lv @ ''['' @ join '' '' ss @ '']''] \<and>
    pl_lines (lg_print (localLogger sprintf) lv (map OStr ss) st) = pl_lines st @ [level_toString lv @ concat ss] \<and>
    pl_exited (pkg_print (localLogger sprintf) lv (map OStr ss) st) = (pl_exited st \<or> lv = LevelFatal)"
  using assms sprint_strings [of ss] join_strings [of ss]
  by (simp add: pkg_print_def localLogger_def logf_def Let_def comp_def)

lemma package_print_brackets_witness:
  "pl_lines (pkg_print (localLogger (\<lambda>f v. f)) LevelError [OStr ''boom''] \<lparr>pl_level = LevelInfo, pl_lines = [], pl_exited = False\<rparr>)
     = [''[Error] [boom]''] \<and>
   pl_lines (lg_print (localLogger (\<lambda>f v. f)) LevelError [OStr ''boom''] \<lparr>pl_level = LevelInfo, pl_lines = [], pl_exited = False\<rparr>)
     = [''[Error] boom'']"
  using package_print_brackets [of "\<lparr>pl_level = LevelInfo, pl_lines = [], pl_exited = False\<rparr>" LevelError "\<lambda>f v. f" "[''boom'']"]
  by (simp add: levels_def level_toString_def level_tags_def level_defs)

end
