(* ===== verification/LogSanitize.thy ===== *)
theory LogSanitize
  imports LogLevel
begin

text \<open>
  The masking of secrets in log records, \<^verbatim>\<open>pkg/logger/sanitize.go\<close>.  The two regular expressions of the default
  rules, \<^verbatim>\<open>1[3-9]\d{9}\<close> and \<^verbatim>\<open>\d{17}[\dXx]\<close>, match texts of one length only; such a pattern is the list of the
  conditions on its characters, and \<^verbatim>\<open>ReplaceAllStringFunc\<close> replaces the matches found from left to right without
  overlap.  A rule has a field name, or a pattern, or both; keys are taken to be ASCII, as all field names are.
\<close>

subsection \<open>Patterns of fixed length\<close>

type_synonym pattern = "(char \<Rightarrow> bool) list"

definition matches_at :: "pattern \<Rightarrow> string \<Rightarrow> bool" where
  "matches_at p s \<longleftrightarrow> length p \<le> length s \<and> list_all2 (\<lambda>c x. c x) p (take (length p) s)"

function replace_all :: "pattern \<Rightarrow> (string \<Rightarrow> string) \<Rightarrow> string \<Rightarrow> string" where
  "replace_all p f s =
     (if s = [] \<or> p = [] then s
      else if matches_at p s then f (take (length p) s) @ replace_all p f (drop (length p) s)
      else hd s # replace_all p f (tl s))"
  by auto
termination by (relation "measure (\<lambda>(p, f, s). length s)") auto

declare replace_all.simps [simp del]

lemma replace_all_Nil [simp]: "replace_all p f [] = []"
  by (simp add: replace_all.simps)

lemma replace_all_skip: "\<not> matches_at p (c # s) \<Longrightarrow> replace_all p f (c # s) = c # replace_all p f s"
  by (subst replace_all.simps) (auto simp: matches_at_def)

lemma matches_at_take: "matches_at p s \<Longrightarrow> length p \<le> length s"
  by (simp add: matches_at_def)

lemma matches_at_char: "matches_at p s \<Longrightarrow> i < length p \<Longrightarrow> (p ! i) (s ! i)"
  by (simp add: matches_at_def list_all2_conv_all_nth)

text \<open>A match does not reach over a character that no position of the pattern admits.\<close>

lemma matches_at_barrier:
  assumes "\<forall>q \<in> set p. \<not> q c"
  shows "matches_at p (a @ c # b) \<longleftrightarrow> matches_at p a"
proof
  assume m: "matches_at p (a @ c # b)"
  have "length p \<le> length a"
  proof (rule ccontr)
    assume "\<not> length p \<le> length a"
    then have "length a < length p" by simp
    from matches_at_char [OF m this] have "(p ! length a) c" by simp
    with assms nth_mem [OF \<open>length a < length p\<close>] show False by blast
  qed
  with m show "matches_at p a" by (simp add: matches_at_def)
qed (auto simp: matches_at_def)

text \<open>So the pieces between such characters are replaced one by one.\<close>

lemma replace_all_barrier:
  assumes "\<forall>q \<in> set p. \<not> q c" and "p \<noteq> []"
  shows "replace_all p f (a @ c # b) = replace_all p f a @ c # replace_all p f b"
proof (induction "length a" arbitrary: a rule: less_induct)
  case less
  note m = matches_at_barrier [OF assms(1)]
  show ?case
  proof (cases "matches_at p a")
    case True
    then have l: "length p \<le> length a" by (rule matches_at_take)
    moreover have "length (drop (length p) a) < length a" using l assms(2) by (cases p) auto
    moreover have "a \<noteq> []" using l assms(2) by auto
    ultimately show ?thesis
      using less [of "drop (length p) a"] True assms(2)
      by (subst (1 2) replace_all.simps) (simp add: m)
  next
    case False
    show ?thesis
    proof (cases a)
      case Nil
      with False m [of "[]"] show ?thesis by (simp add: replace_all_skip)
    next
      case (Cons x xs)
      with False m [of a] less [of xs] show ?thesis by (simp add: replace_all_skip)
    qed
  qed
qed

lemma replace_all_id: "\<forall>k. \<not> matches_at p (drop k s) \<Longrightarrow> replace_all p f s = s"
proof (induction s)
  case (Cons c s)
  from Cons.prems have "\<not> matches_at p (c # s)" by (metis drop0)
  moreover have "\<forall>k. \<not> matches_at p (drop k s)" using Cons.prems by (metis drop_Suc_Cons)
  ultimately show ?case using Cons.IH by (simp add: replace_all_skip)
qed simp

lemma replace_all_short: "length s < length p \<Longrightarrow> replace_all p f s = s"
  by (rule replace_all_id) (auto simp: matches_at_def)

lemma replace_all_whole: "matches_at p s \<Longrightarrow> length s = length p \<Longrightarrow> p \<noteq> [] \<Longrightarrow> replace_all p f s = f s"
  by (subst replace_all.simps) auto

lemma replace_all_later:
  assumes "\<forall>k < length a. \<not> matches_at p (drop k a @ b)"
  shows "replace_all p f (a @ b) = a @ replace_all p f b"
  using assms
proof (induction a)
  case (Cons c a)
  from Cons.prems have "\<not> matches_at p (c # a @ b)" by force
  moreover have "\<forall>k < length a. \<not> matches_at p (drop k a @ b)"
    using Cons.prems by (metis Suc_less_eq drop_Suc_Cons length_Cons)
  ultimately show ?case using Cons.IH by (simp add: replace_all_skip)
qed simp

subsection \<open>The rules\<close>

record SanitizeRule =
  sr_FieldName :: string
  sr_Pattern :: "pattern option"
  sr_Replace :: "string \<Rightarrow> string"

definition DisableSanitize :: "SanitizeRule list" where
  "DisableSanitize = []"

definition maskAll :: "string \<Rightarrow> string" where
  "maskAll s = ''***''"

definition maskPhone :: "string \<Rightarrow> string" where
  "maskPhone s =
     (if length s < 7 then replicate (length s) (CHR ''*'')
      else take 3 s @ ''****'' @ drop (length s - 4) s)"

definition maskIdCard :: "string \<Rightarrow> string" where
  "maskIdCard s =
     (if length s < 7 then replicate (length s) (CHR ''*'')
      else take 3 s @ replicate (length s - 7) (CHR ''*'') @ drop (length s - 4) s)"

definition phone_pattern :: pattern where
  "phone_pattern = [\<lambda>c. c = CHR ''1'', \<lambda>c. CHR ''3'' \<le> c \<and> c \<le> CHR ''9''] @ replicate 9 is_digit"

definition id_pattern :: pattern where
  "id_pattern = replicate 17 is_digit @ [\<lambda>c. is_digit c \<or> c = CHR ''X'' \<or> c = CHR ''x'']"

definition field_rule :: "string \<Rightarrow> (string \<Rightarrow> string) \<Rightarrow> SanitizeRule" where
  "field_rule name f = \<lparr>sr_FieldName = name, sr_Pattern = None, sr_Replace = f\<rparr>"

definition text_rule :: "pattern \<Rightarrow> (string \<Rightarrow> string) \<Rightarrow> SanitizeRule" where
  "text_rule p f = \<lparr>sr_FieldName = '''', sr_Pattern = Some p, sr_Replace = f\<rparr>"

definition defaultSanitizeRules :: "SanitizeRule list" where
  "defaultSanitizeRules =
     map (\<lambda>n. field_rule n maskAll)
       [''password'', ''passwd'', ''pwd'', ''access_token'', ''refresh_token'', ''secret'', ''api_key'', ''apikey'',
        ''callback_sign_key'', ''encrypt_key''] @
     [field_rule ''phone'' maskPhone, field_rule ''mobile'' maskPhone,
      field_rule ''id_card'' maskIdCard, field_rule ''idcard'' maskIdCard,
      text_rule phone_pattern maskPhone, text_rule id_pattern maskIdCard]"

definition DefaultSanitizeRules :: "SanitizeRule list" where
  "DefaultSanitizeRules = defaultSanitizeRules"

text \<open>The value of a log field: a string, or anything else, of which only its printed text matters here.\<close>

datatype fval = FString string | FInt int | FError string | FOther string

definition apply_patterns :: "SanitizeRule list \<Rightarrow> string \<Rightarrow> string" where
  "apply_patterns rs s =
     fold (\<lambda>r s. case sr_Pattern r of Some p \<Rightarrow> replace_all p (sr_Replace r) s | None \<Rightarrow> s) rs s"

definition applySanitize :: "SanitizeRule list \<Rightarrow> string \<Rightarrow> fval \<Rightarrow> fval" where
  "applySanitize rs key value =
     (if rs = [] then value
      else case find (\<lambda>r. sr_FieldName r \<noteq> '''' \<and> equal_fold (to_lower key) (sr_FieldName r)) rs of
        Some r \<Rightarrow> (case value of FString s \<Rightarrow> FString (sr_Replace r s) | _ \<Rightarrow> FString ''***'')
      | None \<Rightarrow> (case value of FString s \<Rightarrow> FString (apply_patterns rs s) | v \<Rightarrow> v))"

definition applyMessageSanitize :: "SanitizeRule list \<Rightarrow> string \<Rightarrow> string" where
  "applyMessageSanitize rs msg = (if rs = [] \<or> msg = '''' then msg else apply_patterns rs msg)"


subsection \<open>What the default rules do to a message\<close>

lemma digit_not_sep: "is_digit c \<Longrightarrow> c \<noteq> CHR '' '' \<and> c \<noteq> CHR '':''"
  by (auto simp: is_digit_def)

text \<open>A separator is a character that is part of no match of either pattern.\<close>

definition separator :: "char \<Rightarrow> bool" where
  "separator c \<longleftrightarrow> \<not> is_digit c \<and> c \<noteq> CHR ''X'' \<and> c \<noteq> CHR ''x''"

lemma three_up: "CHR ''3'' \<le> c \<Longrightarrow> CHR ''0'' \<le> c" for c :: char
proof -
  have "CHR ''0'' \<le> CHR ''3''" by code_simp
  then show "CHR ''3'' \<le> c \<Longrightarrow> CHR ''0'' \<le> c" by (rule order_trans)
qed

lemma separator_phone: "separator c \<Longrightarrow> \<forall>q \<in> set phone_pattern. \<not> q c"
proof -
  assume s: "separator c"
  moreover have "is_digit (CHR ''1'')" by code_simp
  ultimately have "c \<noteq> CHR ''1''" "\<not> is_digit c"
    by (auto simp: separator_def)
  then show ?thesis by (auto simp: phone_pattern_def is_digit_def dest: three_up)
qed

lemma separator_id: "separator c \<Longrightarrow> \<forall>q \<in> set id_pattern. \<not> q c"
  by (auto simp: separator_def id_pattern_def)

lemma pattern_lengths [simp]: "length phone_pattern = 11" "length id_pattern = 18"
  by (simp_all add: phone_pattern_def id_pattern_def)

lemma patterns_nonempty [simp]: "phone_pattern \<noteq> []" "id_pattern \<noteq> []"
  by (simp_all add: phone_pattern_def id_pattern_def)

lemma apply_default:
  "apply_patterns DefaultSanitizeRules s =
     replace_all id_pattern maskIdCard (replace_all phone_pattern maskPhone s)"
  by (simp add: apply_patterns_def DefaultSanitizeRules_def defaultSanitizeRules_def field_rule_def text_rule_def)

lemma apply_default_sep:
  assumes "separator c"
  shows "apply_patterns DefaultSanitizeRules (a @ c # b) =
    apply_patterns DefaultSanitizeRules a @ c # apply_patterns DefaultSanitizeRules b"
  using replace_all_barrier [OF separator_phone [OF assms]] replace_all_barrier [OF separator_id [OF assms]]
  by (simp add: apply_default)

lemma message_default:
  "applyMessageSanitize DefaultSanitizeRules msg = apply_patterns DefaultSanitizeRules msg"
proof (cases "msg = ''''")
  case True
  have "apply_patterns DefaultSanitizeRules '''' = ''''" by (simp add: apply_default)
  with True show ?thesis by (simp add: applyMessageSanitize_def)
next
  case False
  have "DefaultSanitizeRules \<noteq> []" by (simp add: DefaultSanitizeRules_def defaultSanitizeRules_def)
  with False show ?thesis by (simp add: applyMessageSanitize_def)
qed


definition is_phone :: "string \<Rightarrow> bool" where
  "is_phone s \<longleftrightarrow> matches_at phone_pattern s \<and> length s = 11"

definition is_id_card :: "string \<Rightarrow> bool" where
  "is_id_card s \<longleftrightarrow> matches_at id_pattern s \<and> length s = 18"

definition phone_inside :: "string \<Rightarrow> bool" where
  "phone_inside s \<longleftrightarrow> (\<exists>k < length s. matches_at phone_pattern (drop k s))"

lemma not_phone_inside: "\<not> phone_inside s \<Longrightarrow> replace_all phone_pattern f s = s"
proof (rule replace_all_id, rule allI)
  fix k
  assume "\<not> phone_inside s"
  then show "\<not> matches_at phone_pattern (drop k s)"
    by (cases "k < length s") (auto simp: phone_inside_def matches_at_def)
qed

lemma mask_phone:
  assumes "is_phone a"
  shows "apply_patterns DefaultSanitizeRules a = take 3 a @ ''****'' @ drop 7 a"
proof -
  have l: "length a = 11" using assms by (simp add: is_phone_def)
  have "replace_all phone_pattern maskPhone a = maskPhone a"
    using assms by (intro replace_all_whole) (simp_all add: is_phone_def)
  moreover have "maskPhone a = take 3 a @ ''****'' @ drop 7 a" using l by (simp add: maskPhone_def)
  moreover have "length (take 3 a @ ''****'' @ drop 7 a) < length id_pattern" using l by simp
  ultimately show ?thesis by (simp only: apply_default replace_all_short)
qed

lemma mask_id_card:
  assumes "is_id_card a" and "\<not> phone_inside a"
  shows "apply_patterns DefaultSanitizeRules a = take 3 a @ replicate 11 (CHR ''*'') @ drop 14 a"
proof -
  have "replace_all id_pattern maskIdCard a = maskIdCard a"
    using assms by (intro replace_all_whole) (simp_all add: is_id_card_def)
  moreover have "maskIdCard a = take 3 a @ replicate 11 (CHR ''*'') @ drop 14 a"
    using assms by (simp add: maskIdCard_def is_id_card_def)
  ultimately show ?thesis by (simp only: apply_default not_phone_inside [OF assms(2)])
qed

lemma mask_nothing:
  assumes "length a < 11"
  shows "apply_patterns DefaultSanitizeRules a = a"
  using assms by (simp add: apply_default replace_all_short)

text \<open>
  The default rules mask a message word by word: between two separators (characters other than digits and x) a
  phone number keeps its first three and last four digits, an identity card number that contains nothing like a
  phone number keeps its first three and last four characters, and anything shorter than eleven characters is
  left as it is.
\<close>

theorem message_masking:
  assumes "separator c"
  shows "applyMessageSanitize DefaultSanitizeRules (a @ c # b) =
      applyMessageSanitize DefaultSanitizeRules a @ c # applyMessageSanitize DefaultSanitizeRules b \<and>
    (is_phone a \<longrightarrow> applyMessageSanitize DefaultSanitizeRules a = take 3 a @ ''****'' @ drop 7 a) \<and>
    (is_id_card a \<and> \<not> phone_inside a \<longrightarrow>
      applyMessageSanitize DefaultSanitizeRules a = take 3 a @ replicate 11 (CHR ''*'') @ drop 14 a) \<and>
    (length a < 11 \<longrightarrow> applyMessageSanitize DefaultSanitizeRules a = a)"
  using apply_default_sep [OF assms] mask_phone mask_id_card mask_nothing by (simp add: message_default)

lemma message_masking_witness:
  "applyMessageSanitize DefaultSanitizeRules ''call 13812348888'' = ''call 138****8888''"
proof -
  have p: "is_phone ''13812348888''" by code_simp
  have "separator (CHR '' '')" by code_simp
  from message_masking [OF this, of "''call''" "''13812348888''"] message_masking [OF this, of "''13812348888''" "''''"] p
  show ?thesis by simp
qed

lemma masked_once:
  assumes k: "matches_at phone_pattern (drop k a)" "\<forall>j < k. \<not> matches_at phone_pattern (drop j a)"
    and l: "length a = 18"
  shows "replace_all phone_pattern maskPhone a = take (k + 3) a @ ''****'' @ drop (k + 7) a"
proof -
  let ?d = "drop k a"
  have len: "k + 11 \<le> 18" using matches_at_take [OF k(1)] l by simp
  have "drop j (take k a) @ ?d = drop j a" if "j < k" for j
  proof -
    have "drop j (take k a @ ?d) = drop j (take k a) @ drop (j - length (take k a)) ?d" by (rule drop_append)
    then have "drop j (take k a @ ?d) = drop j (take k a) @ ?d" using that len l by (simp del: append_take_drop_id)
    then show ?thesis by (simp only: append_take_drop_id)
  qed
  then have "\<forall>j < length (take k a). \<not> matches_at phone_pattern (drop j (take k a) @ ?d)"
    using k(2) by simp
  from replace_all_later [OF this]
  have "replace_all phone_pattern maskPhone a = take k a @ replace_all phone_pattern maskPhone ?d" by simp
  also have "replace_all phone_pattern maskPhone ?d =
      maskPhone (take 11 ?d) @ replace_all phone_pattern maskPhone (drop 11 ?d)"
    using k(1) len l by (subst replace_all.simps) auto
  also have "replace_all phone_pattern maskPhone (drop 11 ?d) = drop 11 ?d"
    using len l by (intro replace_all_short) simp
  also have "maskPhone (take 11 ?d) = take 3 ?d @ ''****'' @ drop 7 (take 11 ?d)"
    using len l by (simp add: maskPhone_def)
  finally have r: "replace_all phone_pattern maskPhone a =
      (take k a @ take 3 ?d) @ ''****'' @ drop 7 (take 11 ?d) @ drop 11 ?d" by simp
  have "drop 7 (take 11 ?d) = take 4 (drop 7 ?d)" "drop 11 ?d = drop 4 (drop 7 ?d)"
    by (simp_all add: drop_take)
  then have "drop 7 (take 11 ?d) @ drop 11 ?d = drop (k + 7) a"
    by (simp only: append_take_drop_id) (simp add: add.commute)
  moreover have "take k a @ take 3 ?d = take (k + 3) a" by (simp add: take_add)
  ultimately show ?thesis using r by (simp only:)
qed


text \<open>No phone number overlaps a masked one, and a text with stars inside is no card number.\<close>

lemma starred_no_id:
  assumes "length s = 18" and "s ! i = CHR ''*''" and "i < 17"
  shows "replace_all id_pattern f s = s"
proof (rule replace_all_id, rule allI)
  fix k
  show "\<not> matches_at id_pattern (drop k s)"
  proof
    assume m: "matches_at id_pattern (drop k s)"
    then have "k = 0" using matches_at_take [OF m] assms(1) by simp
    then have "(id_pattern ! i) (s ! i)" using matches_at_char [OF m, of i] assms(3) by simp
    then have "is_digit (CHR ''*'')" using assms(2, 3) by (simp add: id_pattern_def nth_append)
    then show False by code_simp
  qed
qed

lemma id_card_digit: "is_id_card a \<Longrightarrow> i < 17 \<Longrightarrow> is_digit (a ! i)"
  using matches_at_char [of id_pattern a i] by (simp add: is_id_card_def id_pattern_def nth_append)

lemma birth_year_phone:
  assumes "is_id_card a" and "take 2 (drop 6 a) = ''19''"
  shows "matches_at phone_pattern (drop 6 a)"
proof -
  have l: "length a = 18" using assms(1) by (simp add: is_id_card_def)
  have "take 2 (drop 6 a) = [a ! 6, a ! 7]" using l by (simp add: take_Suc_conv_app_nth numeral_2_eq_2)
  then have "a ! 6 = CHR ''1''" "a ! 7 = CHR ''9''" using assms(2) by auto
  moreover have "CHR ''3'' \<le> CHR ''9''" by code_simp
  moreover have "is_digit (a ! (6 + i))" if "i < 11" for i
    using id_card_digit [OF assms(1)] that by simp
  moreover from this [of "Suc (Suc n)" for n] have "is_digit (a ! (8 + n))" if "n < 9" for n
    using that by (simp add: numeral_eq_Suc)
  ultimately have "(phone_pattern ! i) (drop 6 a ! i)" if "i < 11" for i
    using that l by (cases i rule: nat.exhaust; cases "i - 1") (auto simp: phone_pattern_def)
  then show ?thesis
    using l by (simp add: matches_at_def list_all2_conv_all_nth)
qed

text \<open>
  The identity card number of anybody born in the years 1930 to 1999 (in fact in any year 19xx) is hardly
  masked in a message: the birth date looks like the start of a phone number, the phone rule is applied first and
  hides four characters, and what is left is no card number for the second rule, so that fourteen of the
  eighteen characters stay readable instead of seven.
\<close>

theorem id_card_leak:
  assumes "is_id_card a" and "take 2 (drop 6 a) = ''19''"
  shows "\<exists>k \<le> 6. applyMessageSanitize DefaultSanitizeRules a = take (k + 3) a @ ''****'' @ drop (k + 7) a \<and>
    applyMessageSanitize DefaultSanitizeRules a \<noteq> maskIdCard a"
proof -
  have l: "length a = 18" using assms(1) by (simp add: is_id_card_def)
  define k where "k = (LEAST k. matches_at phone_pattern (drop k a))"
  note b = birth_year_phone [OF assms]
  have m: "matches_at phone_pattern (drop k a)" unfolding k_def by (rule LeastI [where P = "\<lambda>k. matches_at phone_pattern (drop k a)", OF b])
  have m2: "k \<le> 6" unfolding k_def by (rule Least_le [where P = "\<lambda>k. matches_at phone_pattern (drop k a)", OF b])
  have "\<forall>j < k. \<not> matches_at phone_pattern (drop j a)" unfolding k_def by (auto dest: not_less_Least)
  note p = masked_once [OF m this l]
  define s where "s = take (k + 3) a @ ''****'' @ drop (k + 7) a"
  have s: "length s = 18" "s ! (k + 3) = CHR ''*''" "s ! (k + 7) = a ! (k + 7)"
    using l m2 by (simp_all add: s_def nth_append)
  have "k + 3 < 17" using m2 by simp
  from starred_no_id [OF s(1, 2) this] have e: "applyMessageSanitize DefaultSanitizeRules a = s"
    unfolding message_default apply_default p s_def .
  have d: "is_digit (s ! (k + 7))" using id_card_digit [OF assms(1), of "k + 7"] m2 by (simp add: s(3))
  have "maskIdCard a ! (k + 7) = CHR ''*''" using l m2 by (simp add: maskIdCard_def nth_append)
  moreover have "\<not> is_digit (CHR ''*'')" by code_simp
  ultimately have "s \<noteq> maskIdCard a" using d by auto
  with e m2 show ?thesis by (intro exI [of _ k]) (simp only: s_def, simp)
qed

lemma id_card_leak_witness:
  "applyMessageSanitize DefaultSanitizeRules ''110101199003071234'' = ''110101199****71234'' \<and>
   (\<exists>k \<le> 6. applyMessageSanitize DefaultSanitizeRules ''110101199003071234'' =
      take (k + 3) ''110101199003071234'' @ ''****'' @ drop (k + 7) ''110101199003071234'')"
proof -
  have "is_id_card ''110101199003071234''" "take 2 (drop 6 ''110101199003071234'') = ''19''" by code_simp+
  from id_card_leak [OF this] have "\<exists>k \<le> 6. applyMessageSanitize DefaultSanitizeRules ''110101199003071234'' =
      take (k + 3) ''110101199003071234'' @ ''****'' @ drop (k + 7) ''110101199003071234''" by blast
  moreover have "applyMessageSanitize DefaultSanitizeRules ''110101199003071234'' = ''110101199****71234''"
    by code_simp
  ultimately show ?thesis by blast
qed

end
