(* ===== verification/GoSlice.thy ===== *)
theory GoSlice
  imports GoBase
begin

text \<open>
  Slices of the Go language over an explicit store of arrays, for code whose result depends on which slices share
  an array.  An array is the list of the elements written so far; a slice names an array, its length and its
  capacity.  \<^verbatim>\<open>append\<close> writes in place while there is capacity and otherwise copies into a new array, whose
  capacity the runtime chooses (\<open>grow\<close>, an argument: larger than before is all that is known).
\<close>

type_synonym 'a arrays = "'a list list"

record slice =
  s_array :: nat
  s_len :: nat
  s_cap :: nat

definition nil_slice :: slice where
  "nil_slice = \<lparr>s_array = 0, s_len = 0, s_cap = 0\<rparr>"

definition slice_elems :: "'a arrays \<Rightarrow> slice \<Rightarrow> 'a list" where
  "slice_elems h s = (if s_len s = 0 then [] else take (s_len s) (h ! s_array s))"

definition slice_append :: "(nat \<Rightarrow> nat) \<Rightarrow> 'a arrays \<Rightarrow> slice \<Rightarrow> 'a \<Rightarrow> 'a arrays \<times> slice" where
  "slice_append grow h s x =
     (if s_len s < s_cap s
      then let a = h ! s_array s
           in (h[s_array s := (if s_len s < length a then a[s_len s := x] else a @ [x])], s\<lparr>s_len := s_len s + 1\<rparr>)
      else (h @ [slice_elems h s @ [x]], \<lparr>s_array = length h, s_len = s_len s + 1, s_cap = grow (s_cap s)\<rparr>))"

text \<open>A slice of the store: its array exists and holds its elements.\<close>

definition slice_ok :: "'a arrays \<Rightarrow> slice \<Rightarrow> bool" where
  "slice_ok h s \<longleftrightarrow> s_len s \<le> s_cap s \<and>
     (s_cap s = 0 \<or> s_array s < length h \<and> s_len s \<le> length (h ! s_array s))"

lemma nil_slice_ok [simp]: "slice_ok h nil_slice"
  by (simp add: slice_ok_def nil_slice_def)

lemma nil_slice_elems [simp]: "slice_elems h nil_slice = []"
  by (simp add: slice_elems_def nil_slice_def)

lemma slice_elems_length: "slice_ok h s \<Longrightarrow> length (slice_elems h s) = s_len s"
  by (auto simp: slice_ok_def slice_elems_def)

text \<open>The elements after an append, and that the new slice is one of the new store.\<close>

lemma append_elems:
  assumes "slice_ok h s" and "slice_append grow h s x = (h', s')"
  shows "slice_elems h' s' = slice_elems h s @ [x]"
proof (cases "s_len s < s_cap s")
  case True
  with assms(1) have a: "s_array s < length h" "s_len s \<le> length (h ! s_array s)" by (auto simp: slice_ok_def)
  show ?thesis
  proof (cases "s_len s < length (h ! s_array s)")
    case in_place: True
    then have "take (s_len s + 1) ((h ! s_array s)[s_len s := x]) = take (s_len s) (h ! s_array s) @ [x]"
      by (simp add: take_Suc_conv_app_nth)
    with True in_place a assms(2) show ?thesis by (auto simp: slice_append_def slice_elems_def Let_def)
  next
    case False
    with True a assms(2) show ?thesis by (auto simp: slice_append_def slice_elems_def Let_def)
  qed
next
  case False
  with assms(2) slice_elems_length [OF assms(1)] show ?thesis
    by (auto simp: slice_append_def slice_elems_def [of "_ @ _"])
qed

lemma append_ok:
  assumes "slice_ok h s" and "slice_append grow h s x = (h', s')" and "\<And>c. c < grow c"
  shows "slice_ok h' s'"
proof (cases "s_len s < s_cap s")
  case True
  with assms(1, 2) show ?thesis by (auto simp: slice_ok_def slice_append_def Let_def)
next
  case False
  then have "s_len s = s_cap s" using assms(1) by (auto simp: slice_ok_def)
  with False assms slice_elems_length [OF assms(1)] show ?thesis
    using assms(3) [of "s_cap s"] by (auto simp: slice_ok_def slice_append_def Suc_le_eq)
qed

text \<open>
  An append leaves another slice alone unless that slice has the same array and reaches over the place written.
\<close>

lemma append_frame:
  assumes "slice_ok h s" and "slice_ok h t" and "slice_append grow h s x = (h', s')"
    and "s_cap s = s_len s \<or> s_array t \<noteq> s_array s \<or> s_len t \<le> s_len s"
  shows "slice_elems h' t = slice_elems h t"
proof (cases "s_len s < s_cap s")
    case True
    with assms(1) have a: "s_array s < length h" "s_len s \<le> length (h ! s_array s)" by (auto simp: slice_ok_def)
    from True assms(3) have h': "h' = h[s_array s := (if s_len s < length (h ! s_array s)
        then (h ! s_array s)[s_len s := x] else h ! s_array s @ [x])]"
      by (auto simp: slice_append_def Let_def)
    show ?thesis
    proof (cases "s_array t = s_array s")
      case same: True
      with True assms(4) have "s_len t \<le> s_len s" by auto
      with a same show ?thesis by (auto simp: slice_elems_def h')
    next
      case False
      then show ?thesis by (simp add: slice_elems_def h')
    qed
  next
    case False
    with assms(2, 3) show ?thesis by (auto simp: slice_append_def slice_elems_def slice_ok_def nth_append)
qed

lemma append_keeps_ok:
  assumes "slice_ok h t" and "slice_append grow h s x = (h', s')"
  shows "slice_ok h' t"
  using assms
  by (cases "s_array t = s_array s") (auto simp: slice_append_def slice_ok_def Let_def nth_append split: if_splits)

text \<open>Two appends to one slice that has capacity left write to the same place: the second wins.\<close>

lemma append_twice:
  assumes "slice_ok h s" and "s_len s < s_cap s"
    and "slice_append grow h s x = (h1, s1)" and "slice_append grow h1 s y = (h2, s2)"
  shows "s2 = s1" and "slice_elems h2 s1 = slice_elems h s @ [y]"
proof -
  have f: "slice_elems h1 s = slice_elems h s" "slice_ok h1 s"
    using append_frame [OF assms(1) assms(1) assms(3)] append_keeps_ok [OF assms(1, 3)] by auto
  show e: "s2 = s1" using assms(2, 3, 4) by (auto simp: slice_append_def Let_def)
  show "slice_elems h2 s1 = slice_elems h s @ [y]"
    using append_elems [OF f(2) assms(4)] f(1) by (simp add: e)
qed

end
