(* ===== verification/LogEntry.thy ===== *)
theory LogEntry
  imports LogSanitize GoSlice
begin

text \<open>
  The structured logger of package \<^verbatim>\<open>pkg/logger\<close>: business fields in a context (\<^verbatim>\<open>ctx.go\<close>), sampling
  (\<^verbatim>\<open>sampler.go\<close>), the options and the driver (\<^verbatim>\<open>options.go\<close>, \<^verbatim>\<open>zap_driver.go\<close>, \<^verbatim>\<open>bootstrap.go\<close>), the chained
  records (\<^verbatim>\<open>entry.go\<close>) and the adapter for hlog (\<^verbatim>\<open>hlog_adapter.go\<close>).  Drivers live in a store, because every
  \<^verbatim>\<open>Entry\<close> keeps the one it was made with, and the fields of an \<^verbatim>\<open>Entry\<close> are a slice over a store of arrays,
  because copies of an \<^verbatim>\<open>Entry\<close> share them.  The zap core is what the driver uses of it: a threshold, fixed fields
  and sinks, to which a line is written; a line of the level fatal ends the process.
\<close>

subsection \<open>Contexts\<close>

record BizCtxKeys =
  bk_DeviceNo :: string
  bk_AccountId :: int
  bk_MsgId :: string
  bk_UserId :: int
  bk_InstanceId :: string

definition no_biz :: BizCtxKeys where
  "no_biz = \<lparr>bk_DeviceNo = '''', bk_AccountId = 0, bk_MsgId = '''', bk_UserId = 0, bk_InstanceId = ''''\<rparr>"

text \<open>A context, seen by the logger: the value bound to \<^verbatim>\<open>bizCtxKey\<close>, and the rest, which only the trace extractor reads.\<close>

record 'c log_ctx =
  lc_biz :: "BizCtxKeys option"
  lc_rest :: 'c

definition GetBizCtx :: "'c log_ctx option \<Rightarrow> BizCtxKeys" where
  "GetBizCtx ctx =
     (case ctx of
        None \<Rightarrow> no_biz
      | Some c \<Rightarrow> (case lc_biz c of None \<Rightarrow> no_biz | Some k \<Rightarrow> k))"

text \<open>\<open>background\<close> is what \<^verbatim>\<open>context.Background()\<close> is to the extractor.\<close>

definition WithBizCtx :: "'c \<Rightarrow> 'c log_ctx option \<Rightarrow> BizCtxKeys \<Rightarrow> 'c log_ctx" where
  "WithBizCtx background ctx k =
     (let c = (case ctx of None \<Rightarrow> \<lparr>lc_biz = None, lc_rest = background\<rparr> | Some c \<Rightarrow> c);
          merged = GetBizCtx (Some c);
          merged = (if bk_DeviceNo k \<noteq> '''' then merged\<lparr>bk_DeviceNo := bk_DeviceNo k\<rparr> else merged);
          merged = (if bk_AccountId k \<noteq> 0 then merged\<lparr>bk_AccountId := bk_AccountId k\<rparr> else merged);
          merged = (if bk_MsgId k \<noteq> '''' then merged\<lparr>bk_MsgId := bk_MsgId k\<rparr> else merged);
          merged = (if bk_UserId k \<noteq> 0 then merged\<lparr>bk_UserId := bk_UserId k\<rparr> else merged);
          merged = (if bk_InstanceId k \<noteq> '''' then merged\<lparr>bk_InstanceId := bk_InstanceId k\<rparr> else merged)
      in c\<lparr>lc_biz := Some merged\<rparr>)"

type_synonym 'c TraceExtractor = "'c log_ctx \<Rightarrow> string \<times> string"

definition SetTraceExtractor :: "'c TraceExtractor option \<Rightarrow> 'c TraceExtractor \<Rightarrow> 'c TraceExtractor" where
  "SetTraceExtractor fn traceExtractor = (case fn of None \<Rightarrow> traceExtractor | Some f \<Rightarrow> f)"

definition extractTrace :: "'c TraceExtractor \<Rightarrow> 'c log_ctx option \<Rightarrow> string \<times> string" where
  "extractTrace traceExtractor ctx = (case ctx of None \<Rightarrow> ('''', '''') | Some c \<Rightarrow> traceExtractor c)"

subsection \<open>The sampler\<close>

record sampler =
  sm_everyN :: int
  sm_count :: int

definition newSampler :: "int \<Rightarrow> sampler option" where
  "newSampler everyN = (if everyN \<le> 1 then None else Some \<lparr>sm_everyN = everyN, sm_count = 0\<rparr>)"

definition sampler_allow :: "zlevel \<Rightarrow> sampler option \<Rightarrow> bool \<times> sampler option" where
  "sampler_allow lvl s =
     (case s of
        None \<Rightarrow> (True, None)
      | Some sm \<Rightarrow>
          if sm_everyN sm \<le> 1 then (True, s)
          else if lvl \<ge> WarnLevel then (True, s)
          else let n = wrap64 (sm_count sm + 1)
               in (go_mod n (sm_everyN sm) = 1, Some (sm\<lparr>sm_count := n\<rparr>)))"

subsection \<open>Options and driver\<close>

record FileSinkOptions =
  fs_Path :: string
  fs_MaxSizeMB :: int
  fs_MaxBackups :: int
  fs_MaxAgeDays :: int
  fs_Compress :: bool
  fs_LocalTime :: bool

record LogBootstrapOptions =
  bo_ServiceName :: string
  bo_Env :: string
  bo_Version :: string
  bo_Host :: string
  bo_Level :: log_level
  bo_Format :: string
  bo_File :: FileSinkOptions
  bo_EnableStdout :: bool
  bo_SanitizeRules :: "SanitizeRule list option"  \<comment> \<open>\<^verbatim>\<open>nil\<close> or a slice\<close>
  bo_SampleEveryN :: int
  bo_AddCaller :: bool
  bo_CallerSkip :: int

definition log_applyDefaults :: "LogBootstrapOptions \<Rightarrow> LogBootstrapOptions" where
  "log_applyDefaults o1 =
     (let o2 = (if bo_Format o1 = '''' then o1\<lparr>bo_Format := ''json''\<rparr> else o1);
          o3 = (if \<not> bo_AddCaller o2 \<and> bo_CallerSkip o2 = 0 then o2\<lparr>bo_AddCaller := True\<rparr> else o2);
          f = bo_File o3;
          f1 = (if fs_MaxSizeMB f \<le> 0 then f\<lparr>fs_MaxSizeMB := 50\<rparr> else f);
          f2 = (if fs_MaxBackups f1 \<le> 0 then f1\<lparr>fs_MaxBackups := 30\<rparr> else f1);
          f3 = (if fs_MaxAgeDays f2 \<le> 0 then f2\<lparr>fs_MaxAgeDays := 30\<rparr> else f2)
      in if fs_Path f \<noteq> '''' then o3\<lparr>bo_File := f3\<rparr> else o3)"

datatype log_sink = FileSink FileSinkOptions | Stdout

type_synonym field = "string \<times> fval"

record driver =
  dr_level :: zlevel
  dr_console :: bool
  dr_sinks :: "log_sink list"
  dr_fixed :: "field list"
  dr_rules :: "SanitizeRule list"
  dr_sampler :: "sampler option"
  dr_opts :: LogBootstrapOptions

text \<open>\<open>hostname\<close> is the answer of \<^verbatim>\<open>os.Hostname\<close>, if it succeeds.\<close>

definition buildDriver :: "string option \<Rightarrow> LogBootstrapOptions \<Rightarrow> string + driver" where
  "buildDriver hostname opts0 =
     (if bo_ServiceName opts0 = '''' then Inl ''logger: ServiceName is required''
      else
        let opts1 = log_applyDefaults opts0;
            host = (if bo_Host opts1 = '''' then (case hostname of Some h \<Rightarrow> h | None \<Rightarrow> '''') else bo_Host opts1);
            opts = opts1\<lparr>bo_Host := host\<rparr>;
            sinks = (if fs_Path (bo_File opts) \<noteq> '''' then [FileSink (bo_File opts)] else []) @
                    (if bo_EnableStdout opts \<or> fs_Path (bo_File opts) = '''' then [Stdout] else []);
            fixed = [(''service'', FString (bo_ServiceName opts))] @
                    (if bo_Env opts \<noteq> '''' then [(''env'', FString (bo_Env opts))] else []) @
                    (if bo_Version opts \<noteq> '''' then [(''version'', FString (bo_Version opts))] else []) @
                    (if host \<noteq> '''' then [(''host'', FString host)] else []);
            rules = (case bo_SanitizeRules opts of None \<Rightarrow> DefaultSanitizeRules | Some r \<Rightarrow> r)
        in Inr \<lparr>dr_level = toZapLevel (bo_Level opts), dr_console = (bo_Format opts = ''console''), dr_sinks = sinks,
                dr_fixed = fixed, dr_rules = rules, dr_sampler = newSampler (bo_SampleEveryN opts), dr_opts = opts\<rparr>)"

subsection \<open>The state of the package\<close>

record log_line =
  ll_driver :: nat
  ll_level :: zlevel
  ll_msg :: string
  ll_fields :: "field list"

record log_state =
  ls_drivers :: "driver list"
  ls_global :: "nat option"
  ls_arrays :: "field arrays"
  ls_lines :: "log_line list"
  ls_exited :: bool

definition log_start :: log_state where
  "log_start = \<lparr>ls_drivers = [], ls_global = None, ls_arrays = [], ls_lines = [], ls_exited = False\<rparr>"

definition log_Bootstrap :: "string option \<Rightarrow> LogBootstrapOptions \<Rightarrow> log_state \<Rightarrow> string option \<times> log_state" where
  "log_Bootstrap hostname opts st =
     (case buildDriver hostname opts of
        Inl e \<Rightarrow> (Some e, st)
      | Inr d \<Rightarrow> (None, st\<lparr>ls_drivers := ls_drivers st @ [d], ls_global := Some (length (ls_drivers st))\<rparr>))"

definition SetLevelDynamic :: "log_level \<Rightarrow> log_state \<Rightarrow> log_state" where
  "SetLevelDynamic lv st =
     (case ls_global st of
        None \<Rightarrow> st
      | Some i \<Rightarrow> st\<lparr>ls_drivers := (ls_drivers st)[i := (ls_drivers st ! i)\<lparr>dr_level := toZapLevel lv\<rparr>]\<rparr>)"

subsection \<open>Entries\<close>

record 'c Entry =
  en_d :: "nat option"
  en_ctx :: "'c log_ctx option"
  en_fields :: slice
  en_err :: "string option"

definition Ctx :: "'c log_ctx option \<Rightarrow> log_state \<Rightarrow> 'c Entry" where
  "Ctx ctx st = \<lparr>en_d = ls_global st, en_ctx = ctx, en_fields = nil_slice, en_err = None\<rparr>"

definition With :: "(nat \<Rightarrow> nat) \<Rightarrow> string \<Rightarrow> fval \<Rightarrow> 'c Entry \<Rightarrow> log_state \<Rightarrow> 'c Entry \<times> log_state" where
  "With grow key value e st =
     (case en_d e of
        None \<Rightarrow> (e, st)
      | Some i \<Rightarrow>
          let v = applySanitize (dr_rules (ls_drivers st ! i)) key value;
              (h, s) = slice_append grow (ls_arrays st) (en_fields e) (key, v)
          in (e\<lparr>en_fields := s\<rparr>, st\<lparr>ls_arrays := h\<rparr>))"

definition WithErr :: "(nat \<Rightarrow> nat) \<Rightarrow> string option \<Rightarrow> 'c Entry \<Rightarrow> log_state \<Rightarrow> 'c Entry \<times> log_state" where
  "WithErr grow err e st =
     (case err of
        None \<Rightarrow> (e, st)
      | Some x \<Rightarrow>
          let (h, s) = slice_append grow (ls_arrays st) (en_fields e) (''error'', FError x)
          in (e\<lparr>en_err := err, en_fields := s\<rparr>, st\<lparr>ls_arrays := h\<rparr>))"

definition ctx_fields :: "'c TraceExtractor \<Rightarrow> 'c log_ctx option \<Rightarrow> field list" where
  "ctx_fields traceExtractor ctx =
     (if ctx = None then []
      else
        let (traceId, spanId) = extractTrace traceExtractor ctx;
            biz = GetBizCtx ctx
        in (if traceId \<noteq> '''' then (''trace_id'', FString traceId) #
               (if spanId \<noteq> '''' then [(''span_id'', FString spanId)] else []) else []) @
           (if bk_DeviceNo biz \<noteq> '''' then [(''device_no'', FString (bk_DeviceNo biz))] else []) @
           (if bk_AccountId biz \<noteq> 0 then [(''account_id'', FInt (bk_AccountId biz))] else []) @
           (if bk_MsgId biz \<noteq> '''' then [(''msg_id'', FString (bk_MsgId biz))] else []) @
           (if bk_UserId biz \<noteq> 0 then [(''user_id'', FInt (bk_UserId biz))] else []) @
           (if bk_InstanceId biz \<noteq> '''' then [(''instance_id'', FString (bk_InstanceId biz))] else []))"

definition buildFields :: "'c TraceExtractor \<Rightarrow> log_state \<Rightarrow> 'c Entry \<Rightarrow> field list" where
  "buildFields traceExtractor st e =
     ctx_fields traceExtractor (en_ctx e) @ slice_elems (ls_arrays st) (en_fields e)"

text \<open>\<^verbatim>\<open>logger.Check\<close> and \<^verbatim>\<open>Write\<close> of zap: the same threshold once more, then the line; fatal lines end the process.\<close>

definition zap_write :: "nat \<Rightarrow> zlevel \<Rightarrow> string \<Rightarrow> field list \<Rightarrow> log_state \<Rightarrow> log_state" where
  "zap_write i lvl msg fs st =
     (let d = ls_drivers st ! i
      in if lvl < dr_level d then st
         else st\<lparr>ls_lines := ls_lines st @ [\<lparr>ll_driver = i, ll_level = lvl, ll_msg = msg, ll_fields = dr_fixed d @ fs\<rparr>],
                 ls_exited := (ls_exited st \<or> lvl = FatalLevel)\<rparr>)"

text \<open>The part \<^verbatim>\<open>Entry.log\<close> and \<^verbatim>\<open>hlogAdapter.log\<close> share once the driver is known.\<close>

definition log_with :: "'c TraceExtractor \<Rightarrow> nat \<Rightarrow> zlevel \<Rightarrow> string \<Rightarrow> 'c Entry \<Rightarrow> log_state \<Rightarrow> log_state" where
  "log_with traceExtractor i lvl msg e st =
     (let d = ls_drivers st ! i;
          (ok, sm) = sampler_allow lvl (dr_sampler d);
          st = st\<lparr>ls_drivers := (ls_drivers st)[i := d\<lparr>dr_sampler := sm\<rparr>]\<rparr>
      in if \<not> ok then st
         else if lvl < dr_level d then st
         else zap_write i lvl (applyMessageSanitize (dr_rules d) msg) (buildFields traceExtractor st e) st)"

definition Entry_log :: "'c TraceExtractor \<Rightarrow> zlevel \<Rightarrow> string \<Rightarrow> 'c Entry \<Rightarrow> log_state \<Rightarrow> log_state" where
  "Entry_log traceExtractor lvl msg e st =
     (case en_d e of None \<Rightarrow> st | Some i \<Rightarrow> log_with traceExtractor i lvl msg e st)"

definition adapter_log :: "'c TraceExtractor \<Rightarrow> 'c log_ctx option \<Rightarrow> zlevel \<Rightarrow> string \<Rightarrow> log_state \<Rightarrow> log_state" where
  "adapter_log traceExtractor ctx lvl msg st =
     (case ls_global st of
        None \<Rightarrow> st
      | Some i \<Rightarrow> log_with traceExtractor i lvl msg
          \<lparr>en_d = Some i, en_ctx = ctx, en_fields = nil_slice, en_err = None\<rparr> st)"


text \<open>
  The methods of the adapter: \<^verbatim>\<open>Trace\<close> to \<^verbatim>\<open>Fatal\<close>, \<^verbatim>\<open>Tracef\<close> to \<^verbatim>\<open>Fatalf\<close> and \<^verbatim>\<open>CtxTracef\<close> to \<^verbatim>\<open>CtxFatalf\<close>, with
  the level of their name; and its \<^verbatim>\<open>SetLevel\<close>, for which \<open>hl\<close> lists hlog's seven level constants.
\<close>

definition adapter_print :: "'c TraceExtractor \<Rightarrow> log_level \<Rightarrow> operand list \<Rightarrow> log_state \<Rightarrow> log_state" where
  "adapter_print ex lv v st = adapter_log ex None (toZapLevel lv) (sprint v) st"

definition adapter_printf ::
  "'c TraceExtractor \<Rightarrow> (string \<Rightarrow> operand list \<Rightarrow> string) \<Rightarrow> 'c log_ctx option \<Rightarrow> log_level \<Rightarrow> string \<Rightarrow> operand list \<Rightarrow>
   log_state \<Rightarrow> log_state" where
  "adapter_printf ex sprintf ctx lv format v st = adapter_log ex ctx (toZapLevel lv) (sprintf format v) st"

definition hlogLevelToLevel :: "int list \<Rightarrow> int \<Rightarrow> log_level" where
  "hlogLevelToLevel hl lv = (case map_of (zip hl levels) lv of Some l \<Rightarrow> l | None \<Rightarrow> LevelInfo)"

definition adapter_SetLevel :: "int list \<Rightarrow> int \<Rightarrow> log_state \<Rightarrow> log_state" where
  "adapter_SetLevel hl lv st = SetLevelDynamic (hlogLevelToLevel hl lv) st"

text \<open>\<^verbatim>\<open>Shutdown\<close> closes the files of the current driver; \<open>close\<close> is the error of closing one, if any.\<close>

definition log_Shutdown :: "(log_sink \<Rightarrow> string option) \<Rightarrow> log_state \<Rightarrow> string option" where
  "log_Shutdown close st =
     (case ls_global st of
        None \<Rightarrow> None
      | Some i \<Rightarrow>
          fold (\<lambda>s first. if first = None then close s else first)
            (filter (\<lambda>s. s \<noteq> Stdout) (dr_sinks (ls_drivers st ! i))) None)"

subsection \<open>Well-formed states\<close>

definition sampler_ok :: "sampler option \<Rightarrow> bool" where
  "sampler_ok s \<longleftrightarrow> (case s of None \<Rightarrow> True | Some sm \<Rightarrow> 1 < sm_everyN sm \<and> in_int64 (sm_count sm))"

definition log_ok :: "log_state \<Rightarrow> bool" where
  "log_ok st \<longleftrightarrow> (\<forall>i. ls_global st = Some i \<longrightarrow> i < length (ls_drivers st)) \<and>
     (\<forall>d \<in> set (ls_drivers st). sampler_ok (dr_sampler d) \<and> dr_level d \<le> FatalLevel \<and> dr_sinks d \<noteq> [])"

definition entry_ok :: "log_state \<Rightarrow> 'c Entry \<Rightarrow> bool" where
  "entry_ok st e \<longleftrightarrow> (\<forall>i. en_d e = Some i \<longrightarrow> i < length (ls_drivers st)) \<and> slice_ok (ls_arrays st) (en_fields e)"

lemma newSampler_ok: "sampler_ok (newSampler n)"
  by (simp add: sampler_ok_def newSampler_def in_int64_def)

lemma sampler_allow_ok: "sampler_ok s \<Longrightarrow> sampler_ok (snd (sampler_allow lvl s))"
  by (cases s) (auto simp: sampler_ok_def sampler_allow_def Let_def)

lemma buildDriver_ok:
  assumes "buildDriver hostname opts = Inr d"
  shows "sampler_ok (dr_sampler d) \<and> dr_level d \<le> FatalLevel \<and> dr_sinks d \<noteq> []"
  using assms newSampler_ok by (auto simp: buildDriver_def Let_def split: if_splits)

lemma driver_at: "log_ok st \<Longrightarrow> i < length (ls_drivers st) \<Longrightarrow>
    sampler_ok (dr_sampler (ls_drivers st ! i)) \<and> dr_level (ls_drivers st ! i) \<le> FatalLevel \<and> dr_sinks (ls_drivers st ! i) \<noteq> []"
  by (auto simp: log_ok_def)

lemma log_ok_driver:
  assumes "log_ok st" and "sampler_ok (dr_sampler d)" "dr_level d \<le> FatalLevel" "dr_sinks d \<noteq> []"
  shows "log_ok (st\<lparr>ls_drivers := (ls_drivers st)[i := d]\<rparr>)"
  using assms set_update_subset_insert [of "ls_drivers st" i d] by (fastforce simp: log_ok_def)

lemma log_with_parts:
  "length (ls_drivers (log_with ex i lvl msg e st)) = length (ls_drivers st)"
  "ls_global (log_with ex i lvl msg e st) = ls_global st"
  "ls_arrays (log_with ex i lvl msg e st) = ls_arrays st"
  by (simp_all add: log_with_def zap_write_def Let_def split: prod.split)

lemma log_with_ok:
  assumes "log_ok st" and "i < length (ls_drivers st)"
  shows "log_ok (log_with ex i lvl msg e st)"
proof -
  obtain ok sm where s: "sampler_allow lvl (dr_sampler (ls_drivers st ! i)) = (ok, sm)" by fastforce
  with driver_at [OF assms] sampler_allow_ok have
    "log_ok (st\<lparr>ls_drivers := (ls_drivers st)[i := (ls_drivers st ! i)\<lparr>dr_sampler := sm\<rparr>]\<rparr>)"
    by (intro log_ok_driver [OF assms(1)]) (auto, metis snd_conv)
  then show ?thesis by (auto simp: log_with_def zap_write_def Let_def s log_ok_def)
qed

text \<open>What a program does with the package: the entries it holds are numbered in the order they were made.\<close>

datatype 'c log_op =
  OpBootstrap "string option" LogBootstrapOptions
| OpSetLevel log_level
| OpCtx "'c log_ctx option"
| OpWith nat string fval
| OpWithErr nat "string option"
| OpLog nat zlevel string
| OpAdapter "'c log_ctx option" zlevel string

fun run_log_op :: "(nat \<Rightarrow> nat) \<Rightarrow> 'c TraceExtractor \<Rightarrow> 'c log_op \<Rightarrow> 'c Entry list \<times> log_state \<Rightarrow> 'c Entry list \<times> log_state" where
  "run_log_op grow ex (OpBootstrap h opts) (es, st) = (es, snd (log_Bootstrap h opts st))"
| "run_log_op grow ex (OpSetLevel lv) (es, st) = (es, SetLevelDynamic lv st)"
| "run_log_op grow ex (OpCtx c) (es, st) = (es @ [Ctx c st], st)"
| "run_log_op grow ex (OpWith j k v) (es, st) =
     (if j < length es then (let (e, st') = With grow k v (es ! j) st in (es @ [e], st')) else (es, st))"
| "run_log_op grow ex (OpWithErr j err) (es, st) =
     (if j < length es then (let (e, st') = WithErr grow err (es ! j) st in (es @ [e], st')) else (es, st))"
| "run_log_op grow ex (OpLog j lvl msg) (es, st) =
     (if j < length es then (es, Entry_log ex lvl msg (es ! j) st) else (es, st))"
| "run_log_op grow ex (OpAdapter c lvl msg) (es, st) = (es, adapter_log ex c lvl msg st)"


lemma entry_ok_mono:
  assumes "entry_ok st e" and "length (ls_drivers st) \<le> length (ls_drivers st')" and "ls_arrays st' = ls_arrays st"
  shows "entry_ok st' e"
  using assms by (auto simp: entry_ok_def)

lemma With_ok:
  assumes "log_ok st" and "entry_ok st e" and "With grow k v e st = (e', st')" and "\<And>c. c < grow c"
  shows "log_ok st' \<and> entry_ok st' (e' :: 'c Entry) \<and> (\<forall>t :: 'c Entry. entry_ok st t \<longrightarrow> entry_ok st' t)"
proof (cases "en_d e")
  case None
  with assms show ?thesis by (simp add: With_def)
next
  case (Some i)
  obtain h s where a: "slice_append grow (ls_arrays st) (en_fields e)
      (k, applySanitize (dr_rules (ls_drivers st ! i)) k v) = (h, s)" by fastforce
  then have "e' = e\<lparr>en_fields := s\<rparr>" "st' = st\<lparr>ls_arrays := h\<rparr>"
    using assms(3) Some by (auto simp: With_def Let_def)
  with assms(1, 2, 4) append_ok [OF _ a] append_keeps_ok [OF _ a] show ?thesis
    by (auto simp: entry_ok_def log_ok_def)
qed

lemma WithErr_ok:
  assumes "log_ok st" and "entry_ok st e" and "WithErr grow err e st = (e', st')" and "\<And>c. c < grow c"
  shows "log_ok st' \<and> entry_ok st' (e' :: 'c Entry) \<and> (\<forall>t :: 'c Entry. entry_ok st t \<longrightarrow> entry_ok st' t)"
proof (cases err)
  case None
  with assms show ?thesis by (simp add: WithErr_def)
next
  case (Some x)
  obtain h s where a: "slice_append grow (ls_arrays st) (en_fields e) (''error'', FError x) = (h, s)" by fastforce
  then have "e' = e\<lparr>en_err := err, en_fields := s\<rparr>" "st' = st\<lparr>ls_arrays := h\<rparr>"
    using assms(3) Some by (auto simp: WithErr_def Let_def)
  with assms(1, 2, 4) append_ok [OF _ a] append_keeps_ok [OF _ a] show ?thesis
    by (auto simp: entry_ok_def log_ok_def)
qed

definition logger_ok :: "'c Entry list \<times> log_state \<Rightarrow> bool" where
  "logger_ok w \<longleftrightarrow> log_ok (snd w) \<and> (\<forall>e \<in> set (fst w). entry_ok (snd w) e)"

lemma log_op_ok:
  assumes "logger_ok w" and "\<And>c. c < grow c"
  shows "logger_ok (run_log_op grow ex op w)"
proof (cases w)
  case (Pair es st)
  with assms(1) have st: "log_ok st" and es: "\<And>e. e \<in> set es \<Longrightarrow> entry_ok st e" by (auto simp: logger_ok_def)
  show ?thesis
  proof (cases op)
    case (OpBootstrap h opts)
    show ?thesis
      using st es buildDriver_ok [of h opts] unfolding Pair OpBootstrap logger_ok_def
      by (cases "buildDriver h opts") (auto simp: log_Bootstrap_def log_ok_def entry_ok_def less_Suc_eq)
  next
    case (OpSetLevel lv)
    show ?thesis
    proof (cases "ls_global st")
      case (Some i)
      with st have "i < length (ls_drivers st)" by (simp add: log_ok_def)
      with st driver_at [OF st this] have "log_ok (SetLevelDynamic lv st)"
        by (simp add: SetLevelDynamic_def Some log_ok_driver)
      moreover have "entry_ok (SetLevelDynamic lv st) e" if "e \<in> set es" for e
        by (rule entry_ok_mono [OF es [OF that]]) (simp_all add: SetLevelDynamic_def Some)
      ultimately show ?thesis by (simp add: Pair OpSetLevel logger_ok_def)
    qed (use st es in \<open>auto simp: Pair OpSetLevel logger_ok_def SetLevelDynamic_def\<close>)
  next
    case (OpCtx c)
    with Pair st es show ?thesis by (auto simp: logger_ok_def Ctx_def entry_ok_def log_ok_def)
  next
    case (OpWith j k v)
    obtain e' st' where p: "With grow k v (es ! j) st = (e', st')" by fastforce
    with With_ok [OF st es p assms(2)] st es show ?thesis by (auto simp: Pair OpWith logger_ok_def)
  next
    case (OpWithErr j err)
    obtain e' st' where p: "WithErr grow err (es ! j) st = (e', st')" by fastforce
    with WithErr_ok [OF st es p assms(2)] st es show ?thesis by (auto simp: Pair OpWithErr logger_ok_def)
  next
    case (OpLog j lvl msg)
    have "log_ok (Entry_log ex lvl msg (es ! j) st)" if "j < length es"
      using es [OF nth_mem [OF that]] st
      by (auto simp: Entry_log_def entry_ok_def log_with_ok split: option.split)
    moreover have "entry_ok (Entry_log ex lvl msg e st) t" if "entry_ok st t" for e t
      using that by (auto simp: Entry_log_def log_with_parts intro: entry_ok_mono split: option.split)
    ultimately show ?thesis using st es by (auto simp: Pair OpLog logger_ok_def)
  next
    case (OpAdapter c lvl msg)
    have "log_ok (adapter_log ex c lvl msg st)"
    proof (cases "ls_global st")
      case (Some i)
      with st have "i < length (ls_drivers st)" by (simp add: log_ok_def)
      with log_with_ok [OF st] Some show ?thesis by (simp add: adapter_log_def)
    qed (use st in \<open>simp add: adapter_log_def\<close>)
    moreover have "entry_ok (adapter_log ex c lvl msg st) t" if "entry_ok st t" for t
      using that by (auto simp: adapter_log_def log_with_parts intro: entry_ok_mono split: option.split)
    ultimately show ?thesis using es by (auto simp: Pair OpAdapter logger_ok_def)
  qed
qed




subsection \<open>What is written\<close>

fun with_all :: "(nat \<Rightarrow> nat) \<Rightarrow> field list \<Rightarrow> 'c Entry \<times> log_state \<Rightarrow> 'c Entry \<times> log_state" where
  "with_all grow [] w = w"
| "with_all grow ((k, v) # kvs) (e, st) = with_all grow kvs (With grow k v e st)"

lemma with_all_elems:
  assumes "en_d e = Some i" and "slice_ok (ls_arrays st) (en_fields e)" and "\<And>c. c < grow c"
    and "with_all grow kvs (e, st) = (e', st')"
  shows "slice_elems (ls_arrays st') (en_fields e') =
      slice_elems (ls_arrays st) (en_fields e) @ map (\<lambda>(k, v). (k, applySanitize (dr_rules (ls_drivers st ! i)) k v)) kvs \<and>
    en_d e' = Some i \<and> en_ctx e' = en_ctx e \<and> st' = st\<lparr>ls_arrays := ls_arrays st'\<rparr>"
  using assms
proof (induction kvs arbitrary: e st)
  case (Cons kv kvs)
  obtain k v where kv: "kv = (k, v)" by fastforce
  obtain h s where a: "slice_append grow (ls_arrays st) (en_fields e)
      (k, applySanitize (dr_rules (ls_drivers st ! i)) k v) = (h, s)" by fastforce
  have w: "With grow k v e st = (e\<lparr>en_fields := s\<rparr>, st\<lparr>ls_arrays := h\<rparr>)"
    using a Cons.prems(1) by (simp add: With_def Let_def)
  have "slice_ok h s" by (rule append_ok [OF Cons.prems(2) a Cons.prems(3)])
  with Cons.IH [of "e\<lparr>en_fields := s\<rparr>" "st\<lparr>ls_arrays := h\<rparr>"] Cons.prems
  have "slice_elems (ls_arrays st') (en_fields e') =
      slice_elems h s @ map (\<lambda>(k, v). (k, applySanitize (dr_rules (ls_drivers st ! i)) k v)) kvs \<and>
    en_d e' = Some i \<and> en_ctx e' = en_ctx e \<and> st' = st\<lparr>ls_arrays := ls_arrays st'\<rparr>"
    by (simp add: kv w)
  with append_elems [OF Cons.prems(2) a] show ?case by (simp add: kv)
qed auto

lemma log_with_writes:
  assumes "i < length (ls_drivers st)" and "dr_level (ls_drivers st ! i) \<le> lvl"
    and "fst (sampler_allow lvl (dr_sampler (ls_drivers st ! i)))"
  shows "ls_lines (log_with ex i lvl msg e st) = ls_lines st @
      [\<lparr>ll_driver = i, ll_level = lvl, ll_msg = applyMessageSanitize (dr_rules (ls_drivers st ! i)) msg,
        ll_fields = dr_fixed (ls_drivers st ! i) @ buildFields ex st e\<rparr>] \<and>
    ls_exited (log_with ex i lvl msg e st) = (ls_exited st \<or> lvl = FatalLevel)"
  using assms by (auto simp: log_with_def zap_write_def buildFields_def Let_def split: prod.split)

lemma log_with_silent:
  assumes "i < length (ls_drivers st)"
    and "lvl < dr_level (ls_drivers st ! i) \<or> \<not> fst (sampler_allow lvl (dr_sampler (ls_drivers st ! i)))"
  shows "ls_lines (log_with ex i lvl msg e st) = ls_lines st"
  using assms by (auto simp: log_with_def zap_write_def Let_def split: prod.split)

text \<open>
  A record built in one chain writes exactly one line with everything in place: if the level reaches the
  threshold and the sampler lets it pass, the line has the masked message and the fixed fields of the driver, then
  the trace and business fields of the context, then the chained fields in order, masked by their names and
  patterns; the process ends if and only if the level is fatal (or it had ended).
\<close>

theorem chained_entry_line:
  assumes "ls_global st = Some i" and "i < length (ls_drivers st)" and "\<And>c. c < grow c"
    and "dr_level (ls_drivers st ! i) \<le> lvl" and "fst (sampler_allow lvl (dr_sampler (ls_drivers st ! i)))"
    and "with_all grow kvs (Ctx ctx st, st) = (e, st')"
  shows "ls_lines (Entry_log ex lvl msg e st') = ls_lines st @
      [\<lparr>ll_driver = i, ll_level = lvl, ll_msg = applyMessageSanitize (dr_rules (ls_drivers st ! i)) msg,
        ll_fields = dr_fixed (ls_drivers st ! i) @ ctx_fields ex ctx @
          map (\<lambda>(k, v). (k, applySanitize (dr_rules (ls_drivers st ! i)) k v)) kvs\<rparr>] \<and>
    ls_exited (Entry_log ex lvl msg e st') = (ls_exited st \<or> lvl = FatalLevel)"
proof -
  have w: "slice_elems (ls_arrays st') (en_fields e) =
      map (\<lambda>(k, v). (k, applySanitize (dr_rules (ls_drivers st ! i)) k v)) kvs"
    "en_d e = Some i" "en_ctx e = ctx" "st' = st\<lparr>ls_arrays := ls_arrays st'\<rparr>"
    using with_all_elems [OF _ _ assms(3, 6), of i] assms(1) by (auto simp: Ctx_def)
  have d: "ls_drivers st' = ls_drivers st" "ls_lines st' = ls_lines st" "ls_exited st' = ls_exited st"
    using w(4) by (metis log_state.ext_inject log_state.surjective log_state.update_convs(3))+
  have "buildFields ex st' e = ctx_fields ex ctx @
      map (\<lambda>(k, v). (k, applySanitize (dr_rules (ls_drivers st ! i)) k v)) kvs"
    by (simp add: buildFields_def w(1, 3))
  with log_with_writes [of i st' lvl ex msg e] assms(2, 4, 5) w(2) show ?thesis by (simp add: Entry_log_def d)
qed

text \<open>
  Two records derived from one share the place of their last field: when the common record has room in its
  field array (three fields in an array of four, say), the field added for the second record replaces the one added
  for the first, and a line written from the first record afterwards carries the fields of the second.
\<close>

theorem derived_entries_overwrite:
  assumes "en_d e = Some i" and "slice_ok (ls_arrays st) (en_fields e)" and "s_len (en_fields e) < s_cap (en_fields e)"
    and "With grow k1 v1 e st = (e1, st1)" and "With grow k2 v2 e st1 = (e2, st2)"
  shows "buildFields ex st2 e1 = ctx_fields ex (en_ctx e) @ slice_elems (ls_arrays st) (en_fields e) @
      [(k2, applySanitize (dr_rules (ls_drivers st ! i)) k2 v2)] \<and>
    buildFields ex st2 e1 = buildFields ex st2 e2"
proof -
  let ?r = "dr_rules (ls_drivers st ! i)"
  obtain h1 s1 where a: "slice_append grow (ls_arrays st) (en_fields e) (k1, applySanitize ?r k1 v1) = (h1, s1)" by fastforce
  then have 1: "e1 = e\<lparr>en_fields := s1\<rparr>" "st1 = st\<lparr>ls_arrays := h1\<rparr>"
    using assms(1, 4) by (auto simp: With_def Let_def)
  obtain h2 s2 where b: "slice_append grow h1 (en_fields e) (k2, applySanitize ?r k2 v2) = (h2, s2)" by fastforce
  then have 2: "e2 = e\<lparr>en_fields := s2\<rparr>" "st2 = st\<lparr>ls_arrays := h2\<rparr>"
    using assms(1, 5) by (auto simp: With_def Let_def 1)
  from append_twice [OF assms(2, 3) a b] show ?thesis by (simp add: buildFields_def 1 2)
qed


subsection \<open>A small logger\<close>

definition doubling :: "nat \<Rightarrow> nat" where
  "doubling c = (if c = 0 then 1 else 2 * c)"

lemma doubling_grows: "c < doubling c"
  by (simp add: doubling_def)

definition demo_options :: LogBootstrapOptions where
  "demo_options =
     \<lparr>bo_ServiceName = ''svc'', bo_Env = ''prod'', bo_Version = '''', bo_Host = ''h'', bo_Level = LevelInfo,
      bo_Format = '''', bo_File = \<lparr>fs_Path = '''', fs_MaxSizeMB = 0, fs_MaxBackups = 0, fs_MaxAgeDays = 0,
      fs_Compress = False, fs_LocalTime = True\<rparr>, bo_EnableStdout = True, bo_SanitizeRules = None,
      bo_SampleEveryN = 0, bo_AddCaller = True, bo_CallerSkip = 0\<rparr>"

definition demo_log :: log_state where
  "demo_log = snd (log_Bootstrap None demo_options log_start)"

definition no_trace :: "unit log_ctx \<Rightarrow> string \<times> string" where
  "no_trace c = ('''', '''')"

lemma demo_log_facts:
  "ls_global demo_log = Some 0" "length (ls_drivers demo_log) = 1" "ls_lines demo_log = []" "ls_arrays demo_log = []"
  "dr_level (ls_drivers demo_log ! 0) = InfoLevel" "dr_sampler (ls_drivers demo_log ! 0) = None"
  "dr_rules (ls_drivers demo_log ! 0) = DefaultSanitizeRules"
  "dr_fixed (ls_drivers demo_log ! 0) = [(''service'', FString ''svc''), (''env'', FString ''prod''), (''host'', FString ''h'')]"
  by (simp_all add: demo_log_def log_Bootstrap_def demo_options_def buildDriver_def log_applyDefaults_def log_start_def
      Let_def toZapLevel_def level_defs newSampler_def)

lemma demo_masks:
  "applySanitize DefaultSanitizeRules ''Password'' (FString ''abc'') = FString ''***''"
  "applySanitize DefaultSanitizeRules ''n'' (FInt 3) = FInt 3"
  "applySanitize DefaultSanitizeRules ''a'' (FInt 1) = FInt 1"
  "applySanitize DefaultSanitizeRules ''b'' (FInt 2) = FInt 2"
  "applySanitize DefaultSanitizeRules ''x'' (FInt 4) = FInt 4"
  "applySanitize DefaultSanitizeRules ''y'' (FInt 5) = FInt 5"
  "applyMessageSanitize DefaultSanitizeRules ''login'' = ''login''"
  by code_simp+

definition demo_chain :: "unit Entry \<times> log_state" where
  "demo_chain = with_all doubling [(''Password'', FString ''abc''), (''n'', FInt 3)] (Ctx None demo_log, demo_log)"

lemma chained_entry_line_witness:
  "ls_lines (Entry_log no_trace InfoLevel ''login'' (fst demo_chain) (snd demo_chain)) =
   [\<lparr>ll_driver = 0, ll_level = InfoLevel, ll_msg = ''login'',
     ll_fields = [(''service'', FString ''svc''), (''env'', FString ''prod''), (''host'', FString ''h''),
       (''Password'', FString ''***''), (''n'', FInt 3)]\<rparr>]"
proof -
  have "fst (sampler_allow InfoLevel (dr_sampler (ls_drivers demo_log ! 0)))"
    by (simp add: demo_log_facts sampler_allow_def)
  moreover have "with_all doubling [(''Password'', FString ''abc''), (''n'', FInt 3)] (Ctx None demo_log, demo_log) =
      (fst demo_chain, snd demo_chain)"
    by (simp only: demo_chain_def prod.collapse)
  ultimately show ?thesis
    using chained_entry_line [OF demo_log_facts(1) _ doubling_grows, of InfoLevel _ None "fst demo_chain" "snd demo_chain" no_trace "''login''"]
    by (simp only: demo_log_facts demo_masks ctx_fields_def list.map prod.case append.simps if_True)
       (simp add: demo_log_facts demo_masks)
qed

definition demo_base :: "unit Entry \<times> log_state" where
  "demo_base = with_all doubling [(''a'', FInt 1), (''b'', FInt 2), (''n'', FInt 3)] (Ctx None demo_log, demo_log)"

lemma demo_base_facts:
  "en_d (fst demo_base) = Some 0" "en_ctx (fst demo_base) = None"
  "en_fields (fst demo_base) = \<lparr>s_array = 2, s_len = 3, s_cap = 4\<rparr>"
  "ls_arrays (snd demo_base) = [[(''a'', FInt 1)], [(''a'', FInt 1), (''b'', FInt 2)], [(''a'', FInt 1), (''b'', FInt 2), (''n'', FInt 3)]]"
  "ls_drivers (snd demo_base) = ls_drivers demo_log"
  by (simp_all add: demo_base_def Ctx_def With_def demo_log_facts demo_masks slice_append_def slice_elems_def
      nil_slice_def doubling_def Let_def)

lemma derived_entries_overwrite_witness:
  "buildFields no_trace
     (snd (With doubling ''y'' (FInt 5) (fst demo_base) (snd (With doubling ''x'' (FInt 4) (fst demo_base) (snd demo_base)))))
     (fst (With doubling ''x'' (FInt 4) (fst demo_base) (snd demo_base))) =
   [(''a'', FInt 1), (''b'', FInt 2), (''n'', FInt 3), (''y'', FInt 5)]"
proof -
  have "slice_ok (ls_arrays (snd demo_base)) (en_fields (fst demo_base))"
    "s_len (en_fields (fst demo_base)) < s_cap (en_fields (fst demo_base))"
    by (simp_all add: demo_base_facts slice_ok_def)
  from derived_entries_overwrite [where ex = no_trace and ?k1.0 = "''x''" and ?v1.0 = "FInt 4" and ?k2.0 = "''y''"
      and ?v2.0 = "FInt 5" and grow = doubling, OF demo_base_facts(1) this prod.collapse [symmetric] prod.collapse [symmetric]]
  show ?thesis by (simp add: demo_base_facts demo_log_facts demo_masks ctx_fields_def slice_elems_def)
qed

subsection \<open>Sampling\<close>

text \<open>The answers of the sampler to a sequence of records.\<close>

fun sample_all :: "zlevel list \<Rightarrow> sampler option \<Rightarrow> bool list" where
  "sample_all [] s = []"
| "sample_all (l # ls) s = (let (ok, s') = sampler_allow l s in ok # sample_all ls s')"

lemma sampler_allow_low:
  assumes "1 < n" and "l < WarnLevel" and "0 \<le> c" and "c + 1 < 9223372036854775808"
  shows "sampler_allow l (Some \<lparr>sm_everyN = n, sm_count = c\<rparr>) =
    ((c + 1) mod n = 1, Some \<lparr>sm_everyN = n, sm_count = c + 1\<rparr>)"
  using assms by (simp add: sampler_allow_def go_mod_nonneg in_int64_def Let_def)

lemma sampler_allow_high:
  "1 < n \<Longrightarrow> WarnLevel \<le> l \<Longrightarrow> sampler_allow l (Some \<lparr>sm_everyN = n, sm_count = c\<rparr>) = (True, Some \<lparr>sm_everyN = n, sm_count = c\<rparr>)"
  by (simp add: sampler_allow_def)

lemma sample_all_from:
  assumes "1 < n" and "0 \<le> c" and "c + int (length ls) < 9223372036854775808" and "k < length ls"
  shows "sample_all ls (Some \<lparr>sm_everyN = n, sm_count = c\<rparr>) ! k =
    (WarnLevel \<le> ls ! k \<or> (c + int (length (filter (\<lambda>l. l < WarnLevel) (take (k + 1) ls)))) mod n = 1)"
  using assms(2-)
proof (induction ls arbitrary: c k)
  case (Cons l ls)
  show ?case
  proof (cases "l < WarnLevel")
    case True
    then have "\<not> WarnLevel \<le> l" by simp
    with True Cons.prems Cons.IH [of "c + 1" "k - 1"] sampler_allow_low [OF assms(1) True, of c]
    show ?thesis by (cases k) (auto simp: algebra_simps)
  next
    case False
    with Cons.prems Cons.IH [of c "k - 1"] sampler_allow_high [OF assms(1), of l c]
    show ?thesis by (cases k) auto
  qed
qed simp

text \<open>
  The sampler passes exactly one of every \<open>n\<close> records below the level warn, the first of each group, and
  every record from warn on: for less than 2^63 records, the record at a position is passed if and only if its level
  is warn or higher or the number of lower records up to it is one more than a multiple of \<open>n\<close>.
\<close>

theorem sampler_one_in_n:
  assumes "1 < n" and "int (length ls) < 9223372036854775808" and "k < length ls"
  shows "sample_all ls (newSampler n) ! k \<longleftrightarrow>
    WarnLevel \<le> ls ! k \<or> int (length (filter (\<lambda>l. l < WarnLevel) (take (k + 1) ls))) mod n = 1"
  using sample_all_from [OF assms(1) order.refl, of ls k] assms by (simp add: newSampler_def)

lemma sampler_one_in_n_witness:
  "sample_all [InfoLevel, WarnLevel, InfoLevel] (newSampler 2) ! 0 \<and> \<not> sample_all [InfoLevel, WarnLevel, InfoLevel] (newSampler 2) ! 2"
  using sampler_one_in_n [of 2 "[InfoLevel, WarnLevel, InfoLevel]" 0] sampler_one_in_n [of 2 "[InfoLevel, WarnLevel, InfoLevel]" 2]
  by (simp add: zlevel_defs numeral_3_eq_3)

text \<open>
  Sampling happens before the level is looked at, so records that the level suppresses use up the turns of the
  others: with a rate of one in two and the level info, a program that alternates debug and info records
  writes nothing at all.
\<close>

theorem sampling_starves_info:
  assumes "i < length (ls_drivers st)" and "dr_level (ls_drivers st ! i) = InfoLevel"
    and "dr_sampler (ls_drivers st ! i) = newSampler 2" and "int (length msgs) < 4611686018427387904" and "en_d e = Some i"
  shows "ls_lines (fold (\<lambda>m st. Entry_log ex InfoLevel (snd m) e (Entry_log ex DebugLevel (fst m) e st)) msgs st) = ls_lines st"
proof -
  have go: "ls_lines (fold (\<lambda>m st. Entry_log ex InfoLevel (snd m) e (Entry_log ex DebugLevel (fst m) e st)) ms s) = ls_lines s"
    if "i < length (ls_drivers s)" "dr_level (ls_drivers s ! i) = InfoLevel"
      "dr_sampler (ls_drivers s ! i) = Some \<lparr>sm_everyN = 2, sm_count = 2 * c\<rparr>" "0 \<le> c"
      "c + int (length ms) < 4611686018427387904" for ms s c
    using that
  proof (induction ms arbitrary: s c)
    case (Cons m ms)
    let ?d = "ls_drivers s ! i"
    have a: "sampler_allow DebugLevel (Some \<lparr>sm_everyN = 2, sm_count = 2 * c\<rparr>) = (True, Some \<lparr>sm_everyN = 2, sm_count = 2 * c + 1\<rparr>)"
      using Cons.prems by (subst sampler_allow_low) (auto simp: zlevel_defs)
    have b: "sampler_allow InfoLevel (Some \<lparr>sm_everyN = 2, sm_count = 2 * c + 1\<rparr>) = (False, Some \<lparr>sm_everyN = 2, sm_count = 2 * (c + 1)\<rparr>)"
      using Cons.prems by (subst sampler_allow_low) (auto simp: zlevel_defs)
    define s1 where "s1 = s\<lparr>ls_drivers := (ls_drivers s)[i := ?d\<lparr>dr_sampler := Some \<lparr>sm_everyN = 2, sm_count = 2 * c + 1\<rparr>\<rparr>]\<rparr>"
    have 1: "Entry_log ex DebugLevel (fst m) e s = s1"
      using Cons.prems a assms(5) by (simp add: Entry_log_def log_with_def s1_def Let_def zlevel_defs)
    define s2 where "s2 = s1\<lparr>ls_drivers := (ls_drivers s1)[i := (ls_drivers s1 ! i)\<lparr>dr_sampler := Some \<lparr>sm_everyN = 2, sm_count = 2 * (c + 1)\<rparr>\<rparr>]\<rparr>"
    have 2: "Entry_log ex InfoLevel (snd m) e s1 = s2"
      using Cons.prems b assms(5) by (simp add: Entry_log_def log_with_def s2_def s1_def Let_def)
    have "ls_lines s2 = ls_lines s" by (simp add: s2_def s1_def)
    with Cons.IH [of s2 "c + 1"] Cons.prems show ?case by (simp add: 1 2) (simp add: s2_def s1_def)
  qed simp
  from go [OF assms(1, 2), of 0 msgs] assms(3, 4) show ?thesis by (simp add: newSampler_def)
qed

lemma sampling_starves_info_witness:
  "ls_lines (fold (\<lambda>m st. Entry_log no_trace InfoLevel (snd m) (Ctx None demo_log) (Entry_log no_trace DebugLevel (fst m) (Ctx None demo_log) st))
      [(''d1'', ''i1''), (''d2'', ''i2'')]
      (demo_log\<lparr>ls_drivers := [(ls_drivers demo_log ! 0)\<lparr>dr_sampler := newSampler 2\<rparr>]\<rparr>)) = []"
  using sampling_starves_info [of 0 "demo_log\<lparr>ls_drivers := [(ls_drivers demo_log ! 0)\<lparr>dr_sampler := newSampler 2\<rparr>]\<rparr>"
      "[(''d1'', ''i1''), (''d2'', ''i2'')]" "Ctx None demo_log :: unit Entry" no_trace]
  by (simp add: demo_log_facts Ctx_def)

end
