(* ===== verification/TraceMap.thy ===== *)
theory TraceMap
  imports GoBase
begin

text \<open>
  The map from message ids to span contexts, \<^verbatim>\<open>pkg/trace/tcp_context.go\<close>: one-shot entries with a time to live,
  swept in the background.  The map is a list of entries without duplicates; every operation is one critical section
  of the mutex, so a run is a sequence of operations, sweeps included, in any order.  Span contexts and contexts belong
  to OpenTelemetry: \<open>api\<close> says how they are used here.
\<close>

record ('c, 'sc) span_api =
  sa_background :: 'c
  sa_SpanContextFromContext :: "'c \<Rightarrow> 'sc"
  sa_ContextWithSpanContext :: "'c \<Rightarrow> 'sc \<Rightarrow> 'c"
  sa_IsValid :: "'sc \<Rightarrow> bool"

record 'sc tcpEntry =
  te_sc :: 'sc
  te_deviceNo :: string
  te_insType :: string
  te_expireAt :: instant

record 'sc TCPContextMap =
  tm_items :: "string \<Rightarrow> 'sc tcpEntry option"
  tm_keys :: "string list"  \<comment> \<open>the keys of the map, for its size\<close>
  tm_maxTTL :: duration
  tm_closed :: bool

definition NewTCPContextMap :: "duration \<Rightarrow> 'sc TCPContextMap" where
  "NewTCPContextMap maxTTL =
     \<lparr>tm_items = Map.empty, tm_keys = [], tm_maxTTL = (if maxTTL \<le> 0 then 10 * minute else maxTTL), tm_closed = False\<rparr>"

text \<open>The receiver of the methods can be a nil pointer.\<close>

definition TCP_Save :: "('c, 'sc) span_api \<Rightarrow> instant \<Rightarrow> 'c \<Rightarrow> string \<Rightarrow> duration \<Rightarrow> string \<Rightarrow> string \<Rightarrow>
    'sc TCPContextMap option \<Rightarrow> 'sc TCPContextMap option" where
  "TCP_Save api now ctx msgID ttl deviceNo insType m =
     (case m of
        None \<Rightarrow> None
      | Some m \<Rightarrow>
          if tm_closed m \<or> msgID = '''' then Some m
          else
            let ttl = (if ttl \<le> 0 \<or> ttl > tm_maxTTL m then tm_maxTTL m else ttl);
                entry = \<lparr>te_sc = sa_SpanContextFromContext api ctx, te_deviceNo = deviceNo, te_insType = insType,
                         te_expireAt = now + ttl\<rparr>
            in Some (m\<lparr>tm_items := (tm_items m)(msgID \<mapsto> entry), tm_keys := List.insert msgID (tm_keys m)\<rparr>))"

definition TCP_Load :: "('c, 'sc) span_api \<Rightarrow> instant \<Rightarrow> 'c option \<Rightarrow> string \<Rightarrow> 'sc TCPContextMap option \<Rightarrow>
    ('c option \<times> string \<times> string \<times> bool) \<times> 'sc TCPContextMap option" where
  "TCP_Load api now parent msgID m =
     (case m of
        None \<Rightarrow> ((parent, '''', '''', False), None)
      | Some m \<Rightarrow>
          if tm_closed m \<or> msgID = '''' then ((parent, '''', '''', False), Some m)
          else
            let p = (case parent of None \<Rightarrow> sa_background api | Some p \<Rightarrow> p);
                m' = m\<lparr>tm_items := (tm_items m)(msgID := None), tm_keys := removeAll msgID (tm_keys m)\<rparr>
            in case tm_items m msgID of
                 None \<Rightarrow> ((Some p, '''', '''', False), Some m)
               | Some e \<Rightarrow>
                   (if now > te_expireAt e then (Some p, '''', '''', False)
                    else if \<not> sa_IsValid api (te_sc e) then (Some p, te_deviceNo e, te_insType e, False)
                    else (Some (sa_ContextWithSpanContext api p (te_sc e)), te_deviceNo e, te_insType e, True),
                    Some m'))"

definition TCP_Stats :: "'sc TCPContextMap option \<Rightarrow> nat" where
  "TCP_Stats m = (case m of None \<Rightarrow> 0 | Some m \<Rightarrow> length (tm_keys m))"

text \<open>\<^verbatim>\<open>Close\<close> ends the sweeper: no sweep follows.\<close>

definition TCP_Close :: "'sc TCPContextMap option \<Rightarrow> 'sc TCPContextMap option" where
  "TCP_Close m = map_option (\<lambda>m. m\<lparr>tm_closed := True\<rparr>) m"

definition sweep :: "instant \<Rightarrow> 'sc TCPContextMap \<Rightarrow> 'sc TCPContextMap" where
  "sweep now m =
     (let expired = (\<lambda>k. case tm_items m k of None \<Rightarrow> False | Some v \<Rightarrow> now > te_expireAt v)
      in m\<lparr>tm_items := (\<lambda>k. if expired k then None else tm_items m k),
           tm_keys := filter (\<lambda>k. \<not> expired k) (tm_keys m)\<rparr>)"

subsection \<open>Runs\<close>

datatype 'c tcp_op =
  TSave instant 'c string duration string string
| TLoad instant "'c option" string
| TSweep instant
| TClose

fun tcp_step :: "('c, 'sc) span_api \<Rightarrow> 'c tcp_op \<Rightarrow> 'sc TCPContextMap \<Rightarrow> 'sc TCPContextMap" where
  "tcp_step api (TSave now c k ttl d i) m = the (TCP_Save api now c k ttl d i (Some m))"
| "tcp_step api (TLoad now p k) m = the (snd (TCP_Load api now p k (Some m)))"
| "tcp_step api (TSweep now) m = (if tm_closed m then m else sweep now m)"
| "tcp_step api TClose m = the (TCP_Close (Some m))"

abbreviation tcp_run :: "('c, 'sc) span_api \<Rightarrow> 'c tcp_op list \<Rightarrow> 'sc TCPContextMap \<Rightarrow> 'sc TCPContextMap" where
  "tcp_run api ops m \<equiv> fold (tcp_step api) ops m"

text \<open>
  The specification: what is pending under an id is what the last save for it left, unless it was loaded since; the
  sweeper does not occur in it.
\<close>

record 'sc pending_entry =
  pd_entry :: "'sc tcpEntry option"
  pd_closed :: bool

fun spec_step :: "('c, 'sc) span_api \<Rightarrow> duration \<Rightarrow> string \<Rightarrow> 'c tcp_op \<Rightarrow> 'sc pending_entry \<Rightarrow> 'sc pending_entry" where
  "spec_step api maxTTL k (TSave now c k' ttl d i) s =
     (if pd_closed s \<or> k' \<noteq> k then s
      else s\<lparr>pd_entry := Some \<lparr>te_sc = sa_SpanContextFromContext api c, te_deviceNo = d, te_insType = i,
             te_expireAt = now + (if 0 < ttl \<and> ttl \<le> maxTTL then ttl else maxTTL)\<rparr>\<rparr>)"
| "spec_step api maxTTL k (TLoad now p k') s = (if pd_closed s \<or> k' \<noteq> k then s else s\<lparr>pd_entry := None\<rparr>)"
| "spec_step api maxTTL k (TSweep now) s = s"
| "spec_step api maxTTL k TClose s = s\<lparr>pd_closed := True\<rparr>"

definition spec_load :: "('c, 'sc) span_api \<Rightarrow> instant \<Rightarrow> 'c option \<Rightarrow> 'sc pending_entry \<Rightarrow> 'c option \<times> string \<times> string \<times> bool" where
  "spec_load api now parent s =
     (if pd_closed s then (parent, '''', '''', False)
      else
        let p = (case parent of None \<Rightarrow> sa_background api | Some p \<Rightarrow> p)
        in case pd_entry s of
             None \<Rightarrow> (Some p, '''', '''', False)
           | Some e \<Rightarrow>
               if te_expireAt e < now then (Some p, '''', '''', False)
               else if sa_IsValid api (te_sc e)
               then (Some (sa_ContextWithSpanContext api p (te_sc e)), te_deviceNo e, te_insType e, True)
               else (Some p, te_deviceNo e, te_insType e, False))"

fun sweep_time :: "'c tcp_op \<Rightarrow> instant option" where
  "sweep_time (TSweep now) = Some now"
| "sweep_time op = None"

text \<open>The map and the specification agree up to entries swept because they had expired.\<close>

definition agrees :: "duration \<Rightarrow> instant \<Rightarrow> string \<Rightarrow> 'sc TCPContextMap \<Rightarrow> 'sc pending_entry \<Rightarrow> bool" where
  "agrees maxTTL limit k m s \<longleftrightarrow> tm_maxTTL m = maxTTL \<and> tm_closed m = pd_closed s \<and>
     (tm_items m k = pd_entry s \<or> tm_items m k = None \<and> (\<exists>e. pd_entry s = Some e \<and> te_expireAt e < limit))"

lemma tcp_step_agrees:
  assumes "agrees maxTTL limit k m s" and "k \<noteq> ''''" and "\<And>t. sweep_time op = Some t \<Longrightarrow> t \<le> limit"
  shows "agrees maxTTL limit k (tcp_step api op m) (spec_step api maxTTL k op s)"
proof (cases op)
  case (TSave now c k' ttl d i)
  with assms show ?thesis by (auto simp: agrees_def TCP_Save_def Let_def)
next
  case (TLoad now p k')
  with assms show ?thesis by (auto simp: agrees_def TCP_Load_def Let_def split: option.split)
next
  case (TSweep now)
  with assms show ?thesis
    by (cases "tm_items m k"; cases "pd_entry s") (auto simp: agrees_def sweep_def Let_def)
next
  case TClose
  with assms show ?thesis by (auto simp: agrees_def TCP_Close_def)
qed

lemma tcp_run_agrees:
  assumes "agrees maxTTL limit k m s" and "k \<noteq> ''''"
    and "\<And>op t. op \<in> set ops \<Longrightarrow> sweep_time op = Some t \<Longrightarrow> t \<le> limit"
  shows "agrees maxTTL limit k (tcp_run api ops m) (fold (spec_step api maxTTL k) ops s)"
  using assms(1, 3)
proof (induction ops arbitrary: m s)
  case (Cons op ops)
  have "agrees maxTTL limit k (tcp_step api op m) (spec_step api maxTTL k op s)"
    by (rule tcp_step_agrees [OF Cons.prems(1) assms(2)]) (auto intro: Cons.prems(2))
  then have "agrees maxTTL limit k (tcp_run api ops (tcp_step api op m))
      (fold (spec_step api maxTTL k) ops (spec_step api maxTTL k op s))"
    by (rule Cons.IH) (auto intro: Cons.prems(2))
  then show ?case by simp
qed simp

lemma agrees_load:
  assumes "agrees maxTTL now k m s" and "k \<noteq> ''''"
  shows "fst (TCP_Load api now parent k (Some m)) = spec_load api now parent s"
  using assms by (auto simp: agrees_def TCP_Load_def spec_load_def Let_def split: option.split)

text \<open>
  C23. A message id is resolved exactly as a map without a sweeper would resolve it: after any sequence of saves,
  loads and sweeps, in any order, a load finds what the last save under its id stored (a later save replaces, a load
  consumes), as long as the time to live, at most the maximum, has not passed, whatever the sweeper removed in
  between; it only needs that no sweep reads a later clock than the load.
\<close>

theorem tcp_map_refines_spec:
  assumes "k \<noteq> ''''" and "\<And>op t. op \<in> set ops \<Longrightarrow> sweep_time op = Some t \<Longrightarrow> t \<le> now" and "0 < maxTTL"
  shows "fst (TCP_Load api now parent k (Some (tcp_run api ops (NewTCPContextMap maxTTL)))) =
    spec_load api now parent (fold (spec_step api maxTTL k) ops \<lparr>pd_entry = None, pd_closed = False\<rparr>)"
proof -
  have "agrees maxTTL now k (NewTCPContextMap maxTTL) \<lparr>pd_entry = None, pd_closed = False\<rparr>"
    using assms(3) by (simp add: agrees_def NewTCPContextMap_def)
  then have "agrees maxTTL now k (tcp_run api ops (NewTCPContextMap maxTTL))
      (fold (spec_step api maxTTL k) ops \<lparr>pd_entry = None, pd_closed = False\<rparr>)"
    by (rule tcp_run_agrees [OF _ assms(1)]) (rule assms(2))
  then show ?thesis by (rule agrees_load) (rule assms(1))
qed

definition demo_spans :: "(string list, string) span_api" where
  "demo_spans =
     \<lparr>sa_background = [], sa_SpanContextFromContext = (\<lambda>c. case c of [] \<Rightarrow> '''' | s # _ \<Rightarrow> s),
      sa_ContextWithSpanContext = (\<lambda>c s. s # c), sa_IsValid = (\<lambda>s. s \<noteq> '''')\<rparr>"

definition demo_tcp_ops :: "string list tcp_op list" where
  "demo_tcp_ops =
     [TSave 0 [''span1''] ''m1'' 100 ''dev'' ''ins'', TSave 1 [''span2''] ''m2'' 10 ''dev'' ''ins'', TSweep 40]"

lemma tcp_map_refines_spec_witness:
  "fst (TCP_Load demo_spans 50 None ''m1'' (Some (tcp_run demo_spans demo_tcp_ops (NewTCPContextMap 200))))
   = (Some [''span1''], ''dev'', ''ins'', True) \<and>
   fst (TCP_Load demo_spans 50 None ''m2'' (Some (tcp_run demo_spans demo_tcp_ops (NewTCPContextMap 200))))
   = (Some [], '''', '''', False)"
proof -
  have t: "t \<le> 50" if "op \<in> set demo_tcp_ops" "sweep_time op = Some t" for op t
    using that by (auto simp: demo_tcp_ops_def)
  have "fst (TCP_Load demo_spans 50 None k (Some (tcp_run demo_spans demo_tcp_ops (NewTCPContextMap 200)))) =
      spec_load demo_spans 50 None (fold (spec_step demo_spans 200 k) demo_tcp_ops \<lparr>pd_entry = None, pd_closed = False\<rparr>)"
    if "k \<noteq> ''''" for k
    by (rule tcp_map_refines_spec [OF that t]) simp_all
  then show ?thesis by (simp add: spec_load_def demo_tcp_ops_def) (simp add: demo_spans_def)
qed

text \<open>The size of the map counts its entries, and after a sweep only entries that have not expired are left.\<close>

definition keys_ok :: "'sc TCPContextMap \<Rightarrow> bool" where
  "keys_ok m \<longleftrightarrow> distinct (tm_keys m) \<and> set (tm_keys m) = dom (tm_items m)"

lemma tcp_step_keys: "keys_ok m \<Longrightarrow> keys_ok (tcp_step api op m)"
proof (cases op)
  case (TLoad now p k)
  assume "keys_ok m"
  with TLoad show ?thesis
    by (auto simp: keys_ok_def TCP_Load_def Let_def distinct_removeAll split: option.split)
qed (auto simp: keys_ok_def TCP_Save_def TCP_Close_def sweep_def Let_def split: option.splits if_splits)

lemma tcp_run_keys: "keys_ok (tcp_run api ops (NewTCPContextMap maxTTL))"
proof -
  have "keys_ok (tcp_run api ops m)" if "keys_ok m" for m
    using that by (induction ops arbitrary: m) (simp_all add: tcp_step_keys)
  then show ?thesis by (simp add: keys_ok_def NewTCPContextMap_def)
qed

lemma sweep_leaves_fresh:
  assumes "keys_ok m" and "k \<in> set (tm_keys (sweep now m))"
  shows "\<exists>e. tm_items (sweep now m) k = Some e \<and> now \<le> te_expireAt e"
  using assms by (auto simp: keys_ok_def sweep_def Let_def split: option.splits if_splits)

lemma stats_counts: "TCP_Stats (Some (tcp_run api ops (NewTCPContextMap maxTTL))) =
    card (dom (tm_items (tcp_run api ops (NewTCPContextMap maxTTL))))"
  using tcp_run_keys [of api ops maxTTL] by (simp add: TCP_Stats_def keys_ok_def) (metis distinct_card)

end
