(* ===== verification/TraceSdk.thy ===== *)
theory TraceSdk
  imports GoText Bytes
begin

text \<open>
  The rest of \<^verbatim>\<open>pkg/trace\<close>: the start of the SDK (\<^verbatim>\<open>bootstrap.go\<close>), the policy for attributes (\<^verbatim>\<open>attributes.go\<close>),
  the hook for Redis commands (\<^verbatim>\<open>redis.go\<close>), the envelope for messages (\<^verbatim>\<open>propagation.go\<close>, \<^verbatim>\<open>mq.go\<close>) and the names of HTTP spans
  (\<^verbatim>\<open>http.go\<close>).  OpenTelemetry itself (propagation formats, exporters, span storage) is a parameter.  Keys are taken to be
  ASCII.
\<close>

subsection \<open>Attributes\<close>

datatype attr_value = AString string | AInt int | ABool bool | AOther string

type_synonym KeyValue = "string \<times> attr_value"

text \<open>\<^verbatim>\<open>Value.AsString\<close> of OpenTelemetry is the text of a string value and empty for any other.\<close>

fun AsString :: "attr_value \<Rightarrow> string" where
  "AsString (AString s) = s"
| "AsString v = ''''"

record AttributePolicy =
  ap_DenyKeys :: "string set"
  ap_HashKeys :: "string set"
  ap_AllowBizKeys :: "string set"

definition trace_toSet :: "string list \<Rightarrow> string set" where
  "trace_toSet keys = set (map to_lower keys)"

definition biz_keys :: "string list" where
  "biz_keys = [''device_no'', ''account_id'', ''msg_id'', ''instruction_id'', ''instruction_type'', ''record_id'',
     ''record_file_name'', ''run_id'', ''job_name'', ''trace_origin'', ''trace_orphan'', ''orphan_reason'',
     ''mq_claim_result'']"

definition DefaultAttributePolicy :: AttributePolicy where
  "DefaultAttributePolicy =
     \<lparr>ap_DenyKeys = trace_toSet [''phone'', ''id_card'', ''email'', ''password'', ''token'', ''authorization'', ''access_token'',
        ''sign_key'', ''secret'', ''presigned_url'', ''callback_url_with_sign'', ''request_body'', ''response_body''],
      ap_HashKeys = trace_toSet [''user_id''],
      ap_AllowBizKeys = trace_toSet biz_keys\<rparr>"

text \<open>\<open>sha256\<close> is the digest of the standard library, a text of 32 bytes.\<close>

definition hashValue :: "(string \<Rightarrow> string) \<Rightarrow> string \<Rightarrow> string" where
  "hashValue sha256 v = (if v = '''' then '''' else hex_encode (take 6 (sha256 v)))"

definition clean_attr :: "(string \<Rightarrow> string) \<Rightarrow> AttributePolicy \<Rightarrow> KeyValue \<Rightarrow> KeyValue list" where
  "clean_attr sha256 policy kv =
     (let key = to_lower (fst kv)
      in if key \<in> ap_DenyKeys policy then []
         else if key \<in> ap_HashKeys policy then [(fst kv, AString (hashValue sha256 (AsString (snd kv))))]
         else [kv])"

text \<open>A span, as far as the package writes to it.\<close>

record span =
  sp_name :: string
  sp_recording :: bool
  sp_attrs :: "KeyValue list"
  sp_errors :: "string list"
  sp_ended :: bool

definition SetAttributes :: "(string \<Rightarrow> string) \<Rightarrow> AttributePolicy option \<Rightarrow> KeyValue list \<Rightarrow> span option \<Rightarrow> span option" where
  "SetAttributes sha256 currentPolicy kvs sp =
     (case sp of
        None \<Rightarrow> None
      | Some s \<Rightarrow>
          if \<not> sp_recording s then Some s
          else case currentPolicy of
              None \<Rightarrow> Some (s\<lparr>sp_attrs := sp_attrs s @ kvs\<rparr>)
            | Some policy \<Rightarrow>
                let out = concat (map (clean_attr sha256 policy) kvs)
                in if out = [] then Some s else Some (s\<lparr>sp_attrs := sp_attrs s @ out\<rparr>))"

record BizAttrs =
  ba_DeviceNo :: string
  ba_AccountID :: string
  ba_MsgID :: string
  ba_InstructionID :: int
  ba_InstructionType :: string
  ba_RecordID :: int
  ba_RecordFileName :: string
  ba_RunID :: string
  ba_JobName :: string
  ba_TraceOrigin :: string
  ba_TraceOrphan :: bool
  ba_OrphanReason :: string
  ba_MQClaimResult :: string

definition biz_string :: "string \<Rightarrow> string \<Rightarrow> KeyValue list" where
  "biz_string k v = (if v \<noteq> '''' then [(k, AString v)] else [])"

definition biz_int :: "string \<Rightarrow> int \<Rightarrow> KeyValue list" where
  "biz_int k v = (if v \<noteq> 0 then [(k, AInt v)] else [])"

definition biz_attrs :: "BizAttrs \<Rightarrow> KeyValue list" where
  "biz_attrs b =
     biz_string ''device_no'' (ba_DeviceNo b) @ biz_string ''account_id'' (ba_AccountID b) @
     biz_string ''msg_id'' (ba_MsgID b) @ biz_int ''instruction_id'' (ba_InstructionID b) @
     biz_string ''instruction_type'' (ba_InstructionType b) @ biz_int ''record_id'' (ba_RecordID b) @
     biz_string ''record_file_name'' (ba_RecordFileName b) @ biz_string ''run_id'' (ba_RunID b) @
     biz_string ''job_name'' (ba_JobName b) @ biz_string ''trace_origin'' (ba_TraceOrigin b) @
     (if ba_TraceOrphan b then [(''trace_orphan'', ABool True)] else []) @
     biz_string ''orphan_reason'' (ba_OrphanReason b) @ biz_string ''mq_claim_result'' (ba_MQClaimResult b)"

definition SetBizAttributes :: "(string \<Rightarrow> string) \<Rightarrow> AttributePolicy option \<Rightarrow> BizAttrs \<Rightarrow> span option \<Rightarrow> span option" where
  "SetBizAttributes sha256 currentPolicy b sp =
     (case sp of
        None \<Rightarrow> None
      | Some s \<Rightarrow> if \<not> sp_recording s then Some s else SetAttributes sha256 currentPolicy (biz_attrs b) (Some s))"

subsection \<open>The start of the SDK\<close>

record TraceOptions =
  to_ServiceName :: string
  to_ServiceVersion :: string
  to_Environment :: string
  to_CollectorEndpoint :: string
  to_Enabled :: bool
  to_Insecure :: bool
  to_ExportTimeout :: duration
  to_BatchTimeout :: duration
  to_MaxQueueSize :: int
  to_MaxExportBatchSize :: int
  to_AttributePolicy :: "AttributePolicy option"
  to_ExtraResourceAttrs :: "KeyValue list"

definition orDefaultDur :: "duration \<Rightarrow> duration \<Rightarrow> duration" where
  "orDefaultDur v d = (if v \<le> 0 then d else v)"

definition orDefaultInt :: "int \<Rightarrow> int \<Rightarrow> int" where
  "orDefaultInt v d = (if v \<le> 0 then d else v)"

text \<open>What the SDK gets: the resource attributes, the exporter's settings and the batching.\<close>

record pipeline =
  pl_resource :: "KeyValue list"
  pl_endpoint :: string
  pl_insecure :: bool
  pl_timeout :: duration
  pl_batchTimeout :: duration
  pl_exportTimeout :: duration
  pl_queueSize :: int
  pl_batchSize :: int

definition buildResource :: "TraceOptions \<Rightarrow> KeyValue list" where
  "buildResource opts =
     [(''service.name'', AString (to_ServiceName opts))] @
     (if to_ServiceVersion opts \<noteq> '''' then [(''service.version'', AString (to_ServiceVersion opts))] else []) @
     (if to_Environment opts \<noteq> '''' then [(''deployment.environment'', AString (to_Environment opts))] else []) @
     to_ExtraResourceAttrs opts"

definition build_pipeline :: "TraceOptions \<Rightarrow> pipeline" where
  "build_pipeline opts =
     \<lparr>pl_resource = buildResource opts, pl_endpoint = to_CollectorEndpoint opts, pl_insecure = to_Insecure opts,
      pl_timeout = orDefaultDur (to_ExportTimeout opts) (3 * second),
      pl_batchTimeout = orDefaultDur (to_BatchTimeout opts) (5 * second),
      pl_exportTimeout = orDefaultDur (to_ExportTimeout opts) (3 * second),
      pl_queueSize = orDefaultInt (to_MaxQueueSize opts) 2048,
      pl_batchSize = orDefaultInt (to_MaxExportBatchSize opts) 512\<rparr>"

datatype provider = ProviderUnset | ProviderNoop | ProviderSdk pipeline

record trace_state =
  tr_once :: bool
  tr_enabled :: bool
  tr_provider :: provider
  tr_policy :: "AttributePolicy option"
  tr_propagator :: bool
  tr_bridge :: bool

definition trace_fresh :: trace_state where
  "trace_fresh = \<lparr>tr_once = False, tr_enabled = False, tr_provider = ProviderUnset, tr_policy = None,
     tr_propagator = False, tr_bridge = False\<rparr>"

datatype shutdown_func = ShutdownNoop | ShutdownSdk

text \<open>\<open>res_err\<close> and \<open>exp_err\<close> are the errors of \<^verbatim>\<open>resource.New\<close> and \<^verbatim>\<open>otlptracegrpc.New\<close>, if any.\<close>

definition trace_Bootstrap ::
  "string option \<Rightarrow> string option \<Rightarrow> TraceOptions \<Rightarrow> trace_state \<Rightarrow> shutdown_func \<times> string option \<times> trace_state" where
  "trace_Bootstrap res_err exp_err opts st =
     (if tr_once st then (ShutdownNoop, Some ''trace: already bootstrapped'', st)
      else
        let st1 = st\<lparr>tr_once := True, tr_propagator := True,
              tr_policy := Some (case to_AttributePolicy opts of None \<Rightarrow> DefaultAttributePolicy | Some p \<Rightarrow> p),
              tr_bridge := True\<rparr>
        in if \<not> to_Enabled opts
           then (ShutdownNoop, None, st1\<lparr>tr_enabled := False, tr_provider := ProviderNoop\<rparr>)
           else if to_ServiceName opts = '''' then (ShutdownNoop, Some ''trace: ServiceName is required'', st1)
           else if to_CollectorEndpoint opts = '''' then (ShutdownNoop, Some ''trace: CollectorEndpoint is required'', st1)
           else case res_err of
               Some e \<Rightarrow> (ShutdownNoop, Some (''trace: build resource: '' @ e), st1)
             | None \<Rightarrow>
                 (case exp_err of
                    Some e \<Rightarrow> (ShutdownNoop, Some (''trace: build exporter: '' @ e), st1)
                  | None \<Rightarrow> (ShutdownSdk, None, st1\<lparr>tr_provider := ProviderSdk (build_pipeline opts), tr_enabled := True\<rparr>)))"

definition run_shutdown :: "shutdown_func \<Rightarrow> trace_state \<Rightarrow> trace_state" where
  "run_shutdown f st = (case f of ShutdownNoop \<Rightarrow> st | ShutdownSdk \<Rightarrow> st\<lparr>tr_enabled := False\<rparr>)"

subsection \<open>Redis commands\<close>

definition hasDigit :: "string \<Rightarrow> bool" where
  "hasDigit s \<longleftrightarrow> (\<exists>c \<in> set s. is_digit c)"

definition collapseKey :: "string \<Rightarrow> string" where
  "collapseKey k = join '':'' (map (\<lambda>p. if hasDigit p then ''{n}'' else p) (split_on (CHR '':'') k))"

text \<open>A command: its name and its arguments, of which only strings matter; and the error of its reply.\<close>

record traced_cmd =
  rc_name :: string
  rc_args :: "string option list"
  rc_err :: "string option"

definition redis_nil :: string where
  "redis_nil = ''redis: nil''"

definition commandKey :: "traced_cmd \<Rightarrow> string" where
  "commandKey cmd =
     (if length (rc_args cmd) < 2 then ''''
      else case rc_args cmd ! 1 of Some k \<Rightarrow> collapseKey k | None \<Rightarrow> '''')"

text \<open>The context after the start: the span put into it, if any.\<close>

definition startRedisSpan :: "bool \<Rightarrow> bool \<Rightarrow> string \<Rightarrow> string \<Rightarrow> span option" where
  "startRedisSpan enabled recording command keyPattern =
     (if \<not> enabled then None
      else Some \<lparr>sp_name = ''redis.'' @ to_lower command @ (if keyPattern \<noteq> '''' then '' '' @ keyPattern else ''''),
                 sp_recording = recording,
                 sp_attrs = [(''db.system'', AString ''redis''), (''db.statement'', AString command)],
                 sp_errors = [], sp_ended = False\<rparr>)"

definition endRedisSpan :: "string option \<Rightarrow> span option \<Rightarrow> span option" where
  "endRedisSpan err sp =
     (case sp of
        None \<Rightarrow> None
      | Some s \<Rightarrow>
          Some (s\<lparr>sp_errors := sp_errors s @ (case err of Some e \<Rightarrow> if e \<noteq> redis_nil then [e] else [] | None \<Rightarrow> []),
                  sp_ended := True\<rparr>))"

definition BeforeProcess :: "bool \<Rightarrow> bool \<Rightarrow> traced_cmd \<Rightarrow> span option" where
  "BeforeProcess enabled recording cmd = startRedisSpan enabled recording (rc_name cmd) (commandKey cmd)"

definition AfterProcess :: "traced_cmd \<Rightarrow> span option \<Rightarrow> span option" where
  "AfterProcess cmd sp = endRedisSpan (rc_err cmd) sp"

definition BeforeProcessPipeline :: "bool \<Rightarrow> bool \<Rightarrow> traced_cmd list \<Rightarrow> span option" where
  "BeforeProcessPipeline enabled recording cmds =
     startRedisSpan enabled recording ''pipeline''
       (case cmds of [] \<Rightarrow> ''pipeline'' | c # _ \<Rightarrow> rc_name c @ ''+'' @ commandKey c)"

definition AfterProcessPipeline :: "traced_cmd list \<Rightarrow> span option \<Rightarrow> span option" where
  "AfterProcessPipeline cmds sp =
     endRedisSpan (case find (\<lambda>c. rc_err c \<noteq> None) cmds of None \<Rightarrow> None | Some c \<Rightarrow> rc_err c) sp"

subsection \<open>Messages and HTTP\<close>

record TraceContextEnvelope =
  tce_Traceparent :: string
  tce_Tracestate :: string

text \<open>\<open>inject\<close> and \<open>extract\<close> are the propagator's \<^verbatim>\<open>Inject\<close> into an empty map and \<^verbatim>\<open>Extract\<close>.\<close>

definition InjectEnvelope :: "('c \<Rightarrow> (string \<rightharpoonup> string)) \<Rightarrow> 'c \<Rightarrow> TraceContextEnvelope" where
  "InjectEnvelope inject ctx =
     (let get = (\<lambda>k. case inject ctx k of Some v \<Rightarrow> v | None \<Rightarrow> '''')
      in \<lparr>tce_Traceparent = get ''traceparent'', tce_Tracestate = get ''tracestate''\<rparr>)"

definition ExtractEnvelope :: "('c \<Rightarrow> (string \<rightharpoonup> string) \<Rightarrow> 'c) \<Rightarrow> 'c \<Rightarrow> TraceContextEnvelope \<Rightarrow> 'c" where
  "ExtractEnvelope extract ctx env =
     (if tce_Traceparent env = '''' then ctx
      else
        let carrier = [''traceparent'' \<mapsto> tce_Traceparent env]
        in extract ctx (if tce_Tracestate env \<noteq> '''' then carrier(''tracestate'' \<mapsto> tce_Tracestate env) else carrier))"

definition MQExtract :: "('c \<Rightarrow> (string \<rightharpoonup> string) \<Rightarrow> 'c) \<Rightarrow> 'c \<Rightarrow> (string \<times> string) list \<Rightarrow> 'c" where
  "MQExtract extract ctx headers = (if headers = [] then ctx else extract ctx (map_of headers))"

definition http_server_span_name :: "string \<Rightarrow> string \<Rightarrow> string option \<Rightarrow> string" where
  "http_server_span_name meth path pattern =
     ''http.'' @ meth @ '' '' @ (case pattern of Some p \<Rightarrow> if p \<noteq> '''' then p else path | None \<Rightarrow> path)"

definition http_client_span_name :: "string \<Rightarrow> string \<Rightarrow> string" where
  "http_client_span_name meth host = ''http.client.'' @ meth @ '' '' @ host"


subsection \<open>Properties\<close>

lemma clean_all_keys:
  assumes "kv \<in> set (concat (map (clean_attr sha256 p) kvs))"
  shows "to_lower (fst kv) \<notin> ap_DenyKeys p"
    and "to_lower (fst kv) \<in> ap_HashKeys p \<Longrightarrow>
      \<exists>v. (fst kv, v) \<in> set kvs \<and> snd kv = AString (hashValue sha256 (AsString v))"
  using assms by (auto simp: clean_attr_def Let_def split: if_splits)

lemma clean_all_others:
  "filter (\<lambda>kv. to_lower (fst kv) \<notin> ap_DenyKeys p \<union> ap_HashKeys p) (concat (map (clean_attr sha256 p) kvs)) =
   filter (\<lambda>kv. to_lower (fst kv) \<notin> ap_DenyKeys p \<union> ap_HashKeys p) kvs"
  by (induction kvs) (auto simp: clean_attr_def Let_def)


definition demo_span :: span where
  "demo_span = \<lparr>sp_name = ''s'', sp_recording = True, sp_attrs = [], sp_errors = [], sp_ended = False\<rparr>"


text \<open>A hashed attribute that is not a string, such as a numeric user id, is not hashed but emptied.\<close>

lemma hashed_number_is_lost:
  "clean_attr sha256 DefaultAttributePolicy (''user_id'', AInt n) = [(''user_id'', AString '''')]"
proof -
  have "to_lower ''user_id'' \<notin> ap_DenyKeys DefaultAttributePolicy" "to_lower ''user_id'' \<in> ap_HashKeys DefaultAttributePolicy"
    by code_simp+
  then show ?thesis by (simp add: clean_attr_def hashValue_def)
qed

text \<open>The business attributes pass the default policy, all of them that are set.\<close>

lemma biz_keys_pass:
  "\<forall>k \<in> set biz_keys. to_lower k \<notin> ap_DenyKeys DefaultAttributePolicy \<union> ap_HashKeys DefaultAttributePolicy"
  by code_simp

lemma biz_attrs_keys: "kv \<in> set (biz_attrs b) \<Longrightarrow> fst kv \<in> set biz_keys"
  by (auto simp: biz_attrs_def biz_string_def biz_int_def biz_keys_def split: if_splits)

lemma biz_attributes_pass:
  assumes "sp_recording s"
  shows "SetBizAttributes sha256 (Some DefaultAttributePolicy) b (Some s) = Some (s\<lparr>sp_attrs := sp_attrs s @ biz_attrs b\<rparr>)"
proof -
  have "concat (map (clean_attr sha256 DefaultAttributePolicy) kvs) = kvs"
    if "\<And>kv. kv \<in> set kvs \<Longrightarrow> fst kv \<in> set biz_keys" for kvs
    using that biz_keys_pass by (induction kvs) (auto simp: clean_attr_def Let_def)
  from this [OF biz_attrs_keys] show ?thesis
    using assms by (simp add: SetBizAttributes_def SetAttributes_def Let_def)
qed

text \<open>
  A failed start of the SDK is final: once \<^verbatim>\<open>Bootstrap\<close> has returned an error, tracing is not enabled, and no
  later call, whatever its options, enables it or changes anything; each returns the error that it is already started.
\<close>

theorem failed_bootstrap_is_final:
  assumes "trace_Bootstrap r0 x0 opts0 trace_fresh = (f0, Some e, st)"
  shows "\<not> tr_enabled st \<and> tr_provider st = ProviderUnset \<and>
    fold (\<lambda>(r, x, opts) s. snd (snd (trace_Bootstrap r x opts s))) later st = st \<and>
    fst (snd (trace_Bootstrap r x opts st)) = Some ''trace: already bootstrapped''"
proof -
  have s: "tr_once st" "\<not> tr_enabled st \<and> tr_provider st = ProviderUnset"
    using assms by (auto simp: trace_Bootstrap_def trace_fresh_def Let_def split: if_splits option.splits)
  then have b: "trace_Bootstrap r x opts st = (ShutdownNoop, Some ''trace: already bootstrapped'', st)" for r x opts
    by (simp add: trace_Bootstrap_def)
  have "fold (\<lambda>(r, x, opts) s. snd (snd (trace_Bootstrap r x opts s))) later st = st"
    by (induction later) (auto simp: b)
  with s b show ?thesis by simp
qed

definition demo_trace_options :: TraceOptions where
  "demo_trace_options =
     \<lparr>to_ServiceName = ''svc'', to_ServiceVersion = '''', to_Environment = ''prod'', to_CollectorEndpoint = '''',
      to_Enabled = True, to_Insecure = False, to_ExportTimeout = 0, to_BatchTimeout = 0, to_MaxQueueSize = 0,
      to_MaxExportBatchSize = 0, to_AttributePolicy = None, to_ExtraResourceAttrs = []\<rparr>"

lemma failed_bootstrap_is_final_witness:
  "fst (snd (trace_Bootstrap None None (demo_trace_options\<lparr>to_CollectorEndpoint := ''collector:4317''\<rparr>)
     (snd (snd (trace_Bootstrap None None demo_trace_options trace_fresh))))) = Some ''trace: already bootstrapped''"
proof -
  have "trace_Bootstrap None None demo_trace_options trace_fresh =
      (ShutdownNoop, Some ''trace: CollectorEndpoint is required'', snd (snd (trace_Bootstrap None None demo_trace_options trace_fresh)))"
    by (simp add: trace_Bootstrap_def trace_fresh_def demo_trace_options_def Let_def)
  from failed_bootstrap_is_final [OF this] show ?thesis by blast
qed

text \<open>The pattern of a key has no digits, so that the number of span names does not grow with the keys.\<close>

lemma no_digit_join:
  assumes "\<And>s. s \<in> set ss \<Longrightarrow> \<not> hasDigit s" and "\<not> hasDigit sep"
  shows "\<not> hasDigit (join sep ss)"
  using assms set_join [of sep ss] by (fastforce simp: hasDigit_def)

lemma collapseKey_no_digit: "\<not> hasDigit (collapseKey k)"
proof -
  have "\<not> hasDigit ''{n}''" "\<not> hasDigit '':''" by code_simp+
  then show ?thesis unfolding collapseKey_def by (intro no_digit_join) auto
qed

lemma collapseKey_plain: "\<not> hasDigit k \<Longrightarrow> collapseKey k = k"
proof -
  assume k: "\<not> hasDigit k"
  have "set p \<subseteq> set k" if "p \<in> set (split_on (CHR '':'') k)" for p
    using that
  proof (induction k arbitrary: p)
    case (Cons x k)
    then show ?case by (cases "split_on (CHR '':'') k") (fastforce split: if_splits)+
  qed simp
  with k have "map (\<lambda>p. if hasDigit p then ''{n}'' else p) (split_on (CHR '':'') k) = split_on (CHR '':'') k"
    by (intro map_idI) (auto simp: hasDigit_def)
  then show ?thesis by (simp add: collapseKey_def join_split_on)
qed

end
