(* ===== verification/ReleaseCheck.thy ===== *)
theory ReleaseCheck
  imports Health GoText
begin

text \<open>
  The check after a release, \<^verbatim>\<open>cmd/release_check\<close>: the configuration (\<^verbatim>\<open>config.go\<close>) and the verdict on each service
  (\<^verbatim>\<open>report.go\<close>), which reads the heartbeats of \<^verbatim>\<open>pkg/health\<close>.  The sentences of the report are Chinese; a summary is
  modelled by what it says, its kind and its operands, and the Markdown rendering is left out.  Instants are in
  nanoseconds since 1970, so the zero \<^verbatim>\<open>time.Time\<close> is a negative number.
\<close>

subsection \<open>Configuration\<close>

record RedisConf =
  rc_Addr :: string
  rc_Password :: string
  rc_Db :: int

record ServiceTarget =
  tg_Name :: string
  tg_Display :: string
  tg_HighRisk :: bool
  tg_ExpectCommit :: string
  tg_MinInstances :: int

record CheckConfig =
  cc_Redis :: RedisConf
  cc_Prefix :: string
  cc_Output :: string
  cc_AliveWindow :: string
  cc_aliveWindow :: duration
  cc_Services :: "ServiceTarget list"

definition fix_target :: "ServiceTarget \<Rightarrow> ServiceTarget" where
  "fix_target t =
     (let t1 = (if tg_MinInstances t \<le> 0 then t\<lparr>tg_MinInstances := 1\<rparr> else t)
      in if tg_Display t1 = '''' then t1\<lparr>tg_Display := tg_Name t1\<rparr> else t1)"

fun fix_targets :: "nat \<Rightarrow> ServiceTarget list \<Rightarrow> string + ServiceTarget list" where
  "fix_targets i [] = Inr []"
| "fix_targets i (t # ts) =
     (if tg_Name t = '''' then Inl (''services['' @ decimal i @ ''].name'')
      else case fix_targets (i + 1) ts of Inl e \<Rightarrow> Inl e | Inr ts' \<Rightarrow> Inr (fix_target t # ts'))"

text \<open>
  \<open>data\<close> is the content of the file or the error of reading it, \<open>unmarshal\<close> the YAML decoder and \<open>parse\<close> is
  \<^verbatim>\<open>time.ParseDuration\<close>.
\<close>

definition LoadConfig :: "(string \<Rightarrow> string + CheckConfig) \<Rightarrow> (string \<Rightarrow> string + duration) \<Rightarrow> string + string \<Rightarrow> string + CheckConfig" where
  "LoadConfig unmarshal parse data =
     (case data of
        Inl e \<Rightarrow> Inl e
      | Inr text \<Rightarrow>
          (case unmarshal text of
             Inl e \<Rightarrow> Inl e
           | Inr cfg \<Rightarrow>
               if rc_Addr (cc_Redis cfg) = '''' then Inl ''redis.addr''
               else
                 let cfg1 = (if cc_Prefix cfg = '''' then cfg\<lparr>cc_Prefix := ''compkg''\<rparr> else cfg);
                     window = (if cc_AliveWindow cfg1 = '''' then Inr (30 * second) else parse (cc_AliveWindow cfg1))
                 in case window of
                      Inl e \<Rightarrow> Inl (''defaults.aliveWindow: '' @ e)
                    | Inr d \<Rightarrow>
                        if cc_Services cfg1 = [] then Inl ''services''
                        else (case fix_targets 0 (cc_Services cfg1) of
                                Inl e \<Rightarrow> Inl e
                              | Inr ts \<Rightarrow> Inr (cfg1\<lparr>cc_aliveWindow := d, cc_Services := ts\<rparr>))))"

subsection \<open>Verdict\<close>

definition zero_go_time :: instant where
  "zero_go_time = - 62135596800000000000"

definition parseStartTime :: "string \<Rightarrow> instant" where
  "parseStartTime s =
     (if s = '''' then zero_go_time
      else case parse_int64 s of None \<Rightarrow> zero_go_time | Some sec \<Rightarrow> sec * second)"

record instanceResult =
  ir_Instance :: string
  ir_Alive :: bool
  ir_Commit :: string
  ir_BuildID :: string
  ir_StartTime :: instant
  ir_Pid :: string
  ir_Host :: string
  ir_CommitMatch :: bool
  ir_RestartedNew :: bool

datatype problem = CommitDiffers | NotRestarted

datatype reason = Offline | Problems "problem list"

datatype summary =
  ReadFailed string
| TooFew int int
| WrongCommit string string string
| StartedEarlier string instant
| AllUpdated int string

record serviceResult =
  sr_Target :: ServiceTarget
  sr_ExpectCommit :: string
  sr_Instances :: "(instanceResult \<times> reason) list"
  sr_AliveCount :: int
  sr_Pass :: bool
  sr_Summary :: summary

definition emptyAs :: "string \<Rightarrow> string \<Rightarrow> string" where
  "emptyAs s d = (if s = '''' then d else s)"

text \<open>\<^verbatim>\<open>buildReason\<close>: an empty list of problems is the verdict that all is well.\<close>

definition buildReason :: "instanceResult \<Rightarrow> reason" where
  "buildReason ir =
     (if \<not> ir_Alive ir then Offline
      else Problems ((if \<not> ir_CommitMatch ir then [CommitDiffers] else []) @
                     (if \<not> ir_RestartedNew ir then [NotRestarted] else [])))"

text \<open>The early returns of the loop over the living instances.\<close>

fun first_fault :: "string \<Rightarrow> (instanceResult \<times> reason) list \<Rightarrow> summary option" where
  "first_fault expect [] = None"
| "first_fault expect ((ir, r) # irs) =
     (if \<not> ir_Alive ir then first_fault expect irs
      else if \<not> ir_CommitMatch ir then Some (WrongCommit (ir_Instance ir) (emptyAs (ir_Commit ir) ''?'') expect)
      else if \<not> ir_RestartedNew ir then Some (StartedEarlier (ir_Instance ir) (ir_StartTime ir))
      else first_fault expect irs)"

definition judgeService :: "serviceResult \<Rightarrow> ServiceTarget \<Rightarrow> bool \<times> summary" where
  "judgeService res target =
     (if sr_AliveCount res < tg_MinInstances target
      then (False, TooFew (sr_AliveCount res) (tg_MinInstances target))
      else case first_fault (sr_ExpectCommit res) (sr_Instances res) of
             Some s \<Rightarrow> (False, s)
           | None \<Rightarrow> (True, AllUpdated (sr_AliveCount res) (sr_ExpectCommit res)))"

definition meta :: "InstanceMeta \<Rightarrow> string \<Rightarrow> string" where
  "meta inst key =
     (case im_Meta inst of
        None \<Rightarrow> ''''
      | Some m \<Rightarrow> (case map_of m key of Some v \<Rightarrow> v | None \<Rightarrow> ''''))"

definition instance_result :: "string \<Rightarrow> instant \<Rightarrow> InstanceMeta \<Rightarrow> instanceResult" where
  "instance_result expectCommit since inst =
     (let start = parseStartTime (meta inst ''startTime'');
          commit = meta inst ''commit''
      in \<lparr>ir_Instance = im_Instance inst, ir_Alive = im_Alive inst, ir_Commit = commit,
          ir_BuildID = meta inst ''buildID'', ir_StartTime = start, ir_Pid = meta inst ''pid'', ir_Host = meta inst ''host'',
          ir_CommitMatch = (expectCommit = '''' \<or> commit = expectCommit),
          ir_RestartedNew = (since = zero_go_time \<or> start \<noteq> zero_go_time \<and> start > since)\<rparr>)"

definition checkService ::
  "(string \<Rightarrow> (string \<times> string) list option) \<Rightarrow> 'w store option \<Rightarrow> int \<Rightarrow> Reader \<Rightarrow> 'w \<Rightarrow>
   ServiceTarget \<Rightarrow> string \<Rightarrow> instant \<Rightarrow> serviceResult" where
  "checkService unmarshal store now rd w target expectCommit since =
     (let res = \<lparr>sr_Target = target, sr_ExpectCommit = expectCommit, sr_Instances = [], sr_AliveCount = 0,
                 sr_Pass = False, sr_Summary = TooFew 0 0\<rparr>
      in case Instances unmarshal store (tg_Name target) now rd w of
           Inl e \<Rightarrow> res\<lparr>sr_Pass := False, sr_Summary := ReadFailed e\<rparr>
         | Inr instances \<Rightarrow>
             let irs = map (instance_result expectCommit since) instances;
                 res1 = res\<lparr>sr_Instances := map (\<lambda>ir. (ir, buildReason ir)) irs,
                            sr_AliveCount := int (length (filter im_Alive instances))\<rparr>;
                 (pass, summ) = judgeService res1 target
             in res1\<lparr>sr_Pass := pass, sr_Summary := summ\<rparr>)"

subsection \<open>Properties\<close>

lemma fix_targets_ok:
  "fix_targets i ts = Inr ts' \<Longrightarrow> t \<in> set ts' \<Longrightarrow> tg_Name t \<noteq> '''' \<and> 1 \<le> tg_MinInstances t \<and> tg_Display t \<noteq> ''''"
proof (induction i ts arbitrary: ts' rule: fix_targets.induct)
  case (2 i u ts)
  then show ?case by (auto simp: fix_target_def Let_def split: if_splits sum.splits)
qed simp

lemma fix_targets_nonempty: "fix_targets i ts = Inr ts' \<Longrightarrow> ts \<noteq> [] \<Longrightarrow> ts' \<noteq> []"
  by (cases ts) (auto split: if_splits sum.splits)

lemma LoadConfig_services:
  assumes "LoadConfig unmarshal parse data = Inr cfg"
  shows "\<exists>ts. fix_targets 0 ts = Inr (cc_Services cfg) \<and> ts \<noteq> []" and "rc_Addr (cc_Redis cfg) \<noteq> ''''"
    and "cc_Prefix cfg \<noteq> ''''"
  using assms by (auto simp: LoadConfig_def Let_def split: sum.splits if_splits)

lemma first_fault_None:
  "first_fault expect irs = None \<longleftrightarrow> (\<forall>(ir, r) \<in> set irs. ir_Alive ir \<longrightarrow> ir_CommitMatch ir \<and> ir_RestartedNew ir)"
  by (induction expect irs rule: first_fault.induct) auto

lemma judgeService_pass:
  "fst (judgeService res target) \<longleftrightarrow> tg_MinInstances target \<le> sr_AliveCount res \<and>
     (\<forall>(ir, r) \<in> set (sr_Instances res). ir_Alive ir \<longrightarrow> ir_CommitMatch ir \<and> ir_RestartedNew ir)"
  unfolding first_fault_None [of "sr_ExpectCommit res", symmetric] by (auto simp: judgeService_def split: option.split)

lemma checkService_pass:
  "sr_Pass (checkService unmarshal store now rd w target expect since) \<longleftrightarrow>
     (\<exists>l. Instances unmarshal store (tg_Name target) now rd w = Inr l \<and>
       tg_MinInstances target \<le> int (length (filter im_Alive l)) \<and>
       (\<forall>i \<in> set l. im_Alive i \<longrightarrow> (expect = '''' \<or> meta i ''commit'' = expect) \<and>
          (since = zero_go_time \<or> parseStartTime (meta i ''startTime'') \<noteq> zero_go_time \<and> parseStartTime (meta i ''startTime'') > since)))"
proof (cases "Instances unmarshal store (tg_Name target) now rd w")
  case (Inr l)
  then show ?thesis
    by (simp add: checkService_def Let_def case_prod_beta judgeService_pass)
       (auto simp: instance_result_def Let_def)
qed (simp add: checkService_def Let_def)

text \<open>
  A service of a loaded configuration passes the release check if and only if its instances can be read, at
  least the demanded number of them, which is positive, is alive, and every living one runs the expected commit (if one is given)
  and was started after the release (if its time is given); so a pass is never vacuous: an instance with
  the new version is running.
\<close>

theorem release_check_verdict:
  assumes "LoadConfig decode parse data = Inr cfg" and "target \<in> set (cc_Services cfg)"
  shows "(sr_Pass (checkService unmarshal store now rd w target expect since) \<longleftrightarrow>
     (\<exists>l. Instances unmarshal store (tg_Name target) now rd w = Inr l \<and>
       tg_MinInstances target \<le> int (length (filter im_Alive l)) \<and>
       (\<forall>i \<in> set l. im_Alive i \<longrightarrow> (expect = '''' \<or> meta i ''commit'' = expect) \<and>
          (since = zero_go_time \<or> parseStartTime (meta i ''startTime'') \<noteq> zero_go_time \<and> parseStartTime (meta i ''startTime'') > since)))) \<and>
    (sr_Pass (checkService unmarshal store now rd w target expect since) \<longrightarrow>
      (\<exists>l. Instances unmarshal store (tg_Name target) now rd w = Inr l \<and>
        (\<exists>i \<in> set l. im_Alive i \<and> (expect = '''' \<or> meta i ''commit'' = expect))))"
proof -
  obtain ts where "fix_targets 0 ts = Inr (cc_Services cfg)" using LoadConfig_services(1) [OF assms(1)] by blast
  from fix_targets_ok [OF this assms(2)] have m: "1 \<le> tg_MinInstances target" by simp
  have "\<exists>i \<in> set l. im_Alive i" if "tg_MinInstances target \<le> int (length (filter im_Alive l))" for l
  proof (rule ccontr)
    assume "\<not> (\<exists>i \<in> set l. im_Alive i)"
    then have "filter im_Alive l = []" by (simp add: filter_empty_conv)
    with that m show False by simp
  qed
  then show ?thesis unfolding checkService_pass by blast
qed

definition demo_check :: CheckConfig where
  "demo_check =
     \<lparr>cc_Redis = \<lparr>rc_Addr = ''h:1'', rc_Password = '''', rc_Db = 0\<rparr>, cc_Prefix = '''', cc_Output = '''', cc_AliveWindow = '''',
      cc_aliveWindow = 0,
      cc_Services = [\<lparr>tg_Name = ''api'', tg_Display = '''', tg_HighRisk = True, tg_ExpectCommit = '''', tg_MinInstances = 0\<rparr>]\<rparr>"

definition demo_target :: ServiceTarget where
  "demo_target = \<lparr>tg_Name = ''api'', tg_Display = ''api'', tg_HighRisk = True, tg_ExpectCommit = '''', tg_MinInstances = 1\<rparr>"

lemma release_check_verdict_witness:
  "sr_Pass (checkService (\<lambda>s. None) (Some demo_store) 1010 demo_reader demo_set demo_target '''' zero_go_time) \<and>
   \<not> sr_Pass (checkService (\<lambda>s. None) (Some demo_store) 1010 demo_reader demo_set demo_target ''abc'' zero_go_time)"
proof -
  have c: "LoadConfig (\<lambda>s. Inr demo_check) (\<lambda>s. Inl ''bad'') (Inr '''') =
      Inr (demo_check\<lparr>cc_Prefix := ''compkg'', cc_aliveWindow := 30 * second, cc_Services := [demo_target]\<rparr>)"
    by (simp add: LoadConfig_def demo_check_def demo_target_def fix_target_def Let_def)
  have i: "Instances (\<lambda>s. None) (Some demo_store) (tg_Name demo_target) 1010 demo_reader demo_set =
      Inr [\<lparr>im_Instance = ''i0'', im_LastBeat = 1000, im_Alive = True, im_Meta = None\<rparr>,
           \<lparr>im_Instance = ''i9'', im_LastBeat = 10, im_Alive = False, im_Meta = None\<rparr>]"
    by (simp add: Instances_def demo_store_def demo_meta_def demo_reader_def demo_target_def demo_set_def alive_window_def
        defaultAliveWindow_def go_time go_div_def instance_of_def Let_def)
  have t: "demo_target \<in> set (cc_Services (demo_check\<lparr>cc_Prefix := ''compkg'', cc_aliveWindow := 30 * second, cc_Services := [demo_target]\<rparr>))"
    by simp
  note v = release_check_verdict [OF c t, of "\<lambda>s. None" "Some demo_store" 1010 demo_reader demo_set _ zero_go_time]
  show ?thesis
    using v [of "''''"] v [of "''abc''"] by (simp add: i) (simp add: demo_target_def meta_def)
qed

end
