(* ===== verification/Sharding.thy ===== *)
theory Sharding
  imports Crc32 GoStrings
begin

text \<open>
  The tables of API requests, \<^verbatim>\<open>pkg/sharding/api_request_record.go\<close>: the configuration (one global variable behind a
  lock, here the state), the table a device is routed to and the list of all tables.
\<close>

record ShardingConfig =
  sh_Mode :: string
  sh_TableName :: string
  sh_TablePrefix :: string
  sh_PhysicalShardCount :: int
  sh_VirtualShardCount :: int

definition ShardModeSingle :: string where "ShardModeSingle = ''single''"
definition ShardModeHash :: string where "ShardModeHash = ''hash''"

definition DefaultShardingConfig :: ShardingConfig where
  "DefaultShardingConfig =
     \<lparr>sh_Mode = ShardModeHash, sh_TableName = ''api_request_record'', sh_TablePrefix = ''api_request_record_'',
      sh_PhysicalShardCount = 64, sh_VirtualShardCount = 1024\<rparr>"

definition normalizeShardingConfig :: "ShardingConfig \<Rightarrow> string + ShardingConfig" where
  "normalizeShardingConfig cfg0 =
     (let d = DefaultShardingConfig;
          text = (\<lambda>s dflt. if trim_space s = '''' then dflt else trim_space s);
          number = (\<lambda>n dflt. if n \<le> 0 then dflt else n);
          c = \<lparr>sh_Mode = text (sh_Mode cfg0) (sh_Mode d), sh_TableName = text (sh_TableName cfg0) (sh_TableName d),
               sh_TablePrefix = text (sh_TablePrefix cfg0) (sh_TablePrefix d),
               sh_PhysicalShardCount = number (sh_PhysicalShardCount cfg0) (sh_PhysicalShardCount d),
               sh_VirtualShardCount = number (sh_VirtualShardCount cfg0) (sh_VirtualShardCount d)\<rparr>
      in if sh_Mode c = ShardModeSingle then Inr (c\<lparr>sh_PhysicalShardCount := 1\<rparr>)
         else if sh_Mode c = ShardModeHash then Inr c
         else Inl ''invalid api_request_record sharding mode'')"

definition ConfigureSharding :: "ShardingConfig \<Rightarrow> ShardingConfig \<Rightarrow> string option \<times> ShardingConfig" where
  "ConfigureSharding cfg cur =
     (case normalizeShardingConfig cfg of Inl e \<Rightarrow> (Some e, cur) | Inr c \<Rightarrow> (None, c))"

definition shard_table :: "ShardingConfig \<Rightarrow> int \<Rightarrow> string" where
  "shard_table cfg i = sh_TablePrefix cfg @ format_int_pad 2 i"

text \<open>The count is converted to 32 bits before the division, which panics if nothing is left of it.\<close>

definition ApiRequestRecordTable :: "string \<Rightarrow> ShardingConfig \<Rightarrow> string outcome" where
  "ApiRequestRecordTable deviceNo cfg =
     (if sh_Mode cfg = ShardModeSingle then Ok (sh_TableName cfg)
      else if deviceNo = '''' then Ok (shard_table cfg 0)
      else
        let n = nat (sh_PhysicalShardCount cfg mod 4294967296)
        in if n = 0 then Panic else Ok (shard_table cfg (int (crc_bucket deviceNo n))))"

definition AllApiRequestRecordTables :: "ShardingConfig \<Rightarrow> string list" where
  "AllApiRequestRecordTables cfg =
     (if sh_Mode cfg = ShardModeSingle then [sh_TableName cfg]
      else map (\<lambda>i. shard_table cfg (int i)) [0..<nat (sh_PhysicalShardCount cfg)])"

subsection \<open>Properties\<close>

lemma normalized:
  assumes "normalizeShardingConfig cfg = Inr c"
  shows "0 < sh_PhysicalShardCount c" and "sh_Mode c = ShardModeSingle \<or> sh_Mode c = ShardModeHash"
    and "sh_PhysicalShardCount c = sh_PhysicalShardCount cfg \<or> sh_PhysicalShardCount c = 64 \<or> sh_PhysicalShardCount c = 1"
  using assms by (auto simp: normalizeShardingConfig_def DefaultShardingConfig_def Let_def split: if_splits)

lemma shard_table_inj:
  assumes "shard_table cfg i = shard_table cfg j" and "0 \<le> i" "in_int64 i" "0 \<le> j" "in_int64 j"
  shows "i = j"
proof -
  have "format_int_pad 2 i = format_int_pad 2 j" using assms(1) by (simp only: shard_table_def same_append_eq)
  with parse_int64_format_pad [OF assms(2, 3), of 2] parse_int64_format_pad [OF assms(4, 5), of 2]
  show ?thesis by (metis option.inject)
qed

text \<open>
  Requests are routed to tables that exist: with an accepted configuration of less than 2^32 shards every device
  has a table, which depends on its number only and is in the list of all tables; the list has one entry for each
  shard and no duplicates.
\<close>

theorem shard_routing:
  assumes "ConfigureSharding cfg cur = (None, c)" and "sh_PhysicalShardCount cfg < 4294967296"
  shows "(\<exists>t. ApiRequestRecordTable deviceNo c = Ok t \<and> t \<in> set (AllApiRequestRecordTables c)) \<and>
    distinct (AllApiRequestRecordTables c) \<and> int (length (AllApiRequestRecordTables c)) =
      (if sh_Mode c = ShardModeSingle then 1 else sh_PhysicalShardCount c)"
proof -
  have n: "normalizeShardingConfig cfg = Inr c" using assms(1) by (auto simp: ConfigureSharding_def split: sum.splits)
  note p = normalized [OF n]
  let ?n = "nat (sh_PhysicalShardCount c)"
  have b: "sh_PhysicalShardCount c < 4294967296" using p(3) assms(2) by auto
  then have m: "nat (sh_PhysicalShardCount c mod 4294967296) = ?n" using p(1) by simp
  have t: "crc_bucket deviceNo ?n < ?n" by (rule crc_bucket_less) (use p(1) in simp)
  have "inj_on (\<lambda>i. shard_table c (int i)) {0..<?n}"
    using b by (intro inj_onI) (auto dest!: shard_table_inj simp: in_int64_def)
  moreover have "shard_table c 0 \<in> (\<lambda>i. shard_table c (int i)) ` {0..<?n}"
    using p(1) by (intro image_eqI [of _ _ 0]) auto
  ultimately show ?thesis
    using t p(1) m by (auto simp: ApiRequestRecordTable_def AllApiRequestRecordTables_def distinct_map Let_def)
qed

lemma shard_routing_witness:
  "\<exists>t. ApiRequestRecordTable ''dev-7'' DefaultShardingConfig = Ok t \<and> t \<in> set (AllApiRequestRecordTables DefaultShardingConfig)"
proof -
  have v: "visible c \<longleftrightarrow> 33 \<le> (of_char c :: nat) \<and> (of_char c :: nat) < 128" for c by (rule visible_def)
  have "trim_space ''hash'' = ''hash''" "trim_space ''api_request_record'' = ''api_request_record''"
    "trim_space ''api_request_record_'' = ''api_request_record_''"
    by (intro trim_space_visible; simp add: v)+
  then have "ConfigureSharding DefaultShardingConfig DefaultShardingConfig = (None, DefaultShardingConfig)"
    by (simp add: ConfigureSharding_def normalizeShardingConfig_def DefaultShardingConfig_def ShardModeHash_def
        ShardModeSingle_def Let_def)
  from shard_routing [OF this] show ?thesis by (simp add: DefaultShardingConfig_def)
qed

text \<open>A count that is a multiple of 2^32 is accepted, and then every lookup of a named device panics.\<close>

lemma huge_count_panics:
  assumes "sh_Mode c = ShardModeHash" and "sh_PhysicalShardCount c = 4294967296 * k" and "deviceNo \<noteq> ''''"
  shows "ApiRequestRecordTable deviceNo c = Panic"
  using assms by (simp add: ApiRequestRecordTable_def ShardModeHash_def ShardModeSingle_def)

end
