(* ===== verification/Util.thy ===== *)
theory Util
  imports GoFloat GoStrings
begin

text \<open>
  The helpers of \<^verbatim>\<open>pkg/util/util.go\<close>: page counts, the charge of a battery and the filled share of a storage, computed
  in floating point, and small functions on arrays, texts and numbers.  The conversion of a float that no
  \<^verbatim>\<open>int64\<close> can hold is left to the processor: it is the argument \<open>conv\<close>.
\<close>

fun fceil :: "f64 \<Rightarrow> f64" where
  "fceil (Fin x) = Fin (of_int \<lceil>x\<rceil>)"
| "fceil x = x"

definition to_int64 :: "(f64 \<Rightarrow> int) \<Rightarrow> f64 \<Rightarrow> int" where
  "to_int64 conv x =
     (case x of Fin q \<Rightarrow> if in_int64 (f64_trunc x) then f64_trunc x else conv x | _ \<Rightarrow> conv x)"

lemma to_int64_int: "in_int64 n \<Longrightarrow> to_int64 conv (Fin (of_int n)) = n"
  by (auto simp: to_int64_def)

subsection \<open>Pages\<close>

definition DivideAndRoundUp :: "(f64 \<Rightarrow> int) \<Rightarrow> int \<Rightarrow> int \<Rightarrow> int" where
  "DivideAndRoundUp conv dividend divisor =
     (let quotient = fdiv (f64_of_int dividend) (f64_of_int divisor)
      in to_int64 conv (fceil quotient))"

lemma rne_near: "q - 1 / 2 \<le> of_int (rne q)"
proof -
  have "of_int \<lfloor>q\<rfloor> \<le> q" "q < of_int \<lfloor>q\<rfloor> + 1" by linarith+
  then show ?thesis by (auto simp: rne_def Let_def)
qed

text \<open>Rounding does not lose more than one part in 2^53 of a number in the normal range.\<close>

lemma rnd_pos_lower:
  assumes "0 < x" and "pow2 (- 1022) \<le> x"
  shows "x - x / 2 ^ 53 \<le> rnd_pos x"
proof -
  let ?u = "pow2 (ulp_exp x)"
  have "- 1022 \<le> expo x"
  proof (rule ccontr)
    assume "\<not> - 1022 \<le> expo x"
    then have "pow2 (expo x + 1) \<le> pow2 (- 1022)" by (intro pow2_mono) simp
    with expo_bounds(2) [OF assms(1)] assms(2) show False by simp
  qed
  then have "ulp_exp x = expo x - 52" by (simp add: ulp_exp_def)
  then have "?u * 2 ^ 52 \<le> x" using expo_bounds(1) [OF assms(1)] by (simp add: pow2_diff pow2_def [of 52])
  then have "?u / 2 \<le> x / 2 ^ 53" by (simp add: field_simps)
  moreover have "(x / ?u - 1 / 2) * ?u \<le> of_int (rne (x / ?u)) * ?u"
    by (intro mult_right_mono rne_near) (simp add: less_imp_le)
  moreover have "?u \<noteq> 0" using pow2_pos [of "ulp_exp x"] by linarith
  then have "(x / ?u - 1 / 2) * ?u = x - ?u / 2" by (simp add: left_diff_distrib)
  ultimately have "?u / 2 \<le> x / 2 ^ 53" "x - ?u / 2 \<le> rnd_pos x" by (simp_all add: rnd_pos_def)
  then show ?thesis by linarith
qed

lemma rnd_Fin:
  assumes "0 < x" and "x \<le> 2 ^ 53"
  shows "rnd x = Fin (rnd_pos x)" and "rnd_pos x \<le> of_int \<lceil>x\<rceil>"
proof -
  have c: "0 < \<lceil>x\<rceil>" "\<lceil>x\<rceil> \<le> 2 ^ 53" using assms by (simp_all add: ceiling_le_iff)
  have "rnd_pos x \<le> rnd_pos (of_int \<lceil>x\<rceil>)" using assms(1) by (intro rnd_pos_mono) simp_all
  also have "\<dots> = of_int \<lceil>x\<rceil>" by (rule rnd_pos_int [OF c])
  finally show le: "rnd_pos x \<le> of_int \<lceil>x\<rceil>" .
  also have "(of_int \<lceil>x\<rceil> :: rat) \<le> of_int (2 ^ 53)" using c(2) by (simp only: of_int_le_iff)
  also have "(of_int (2 ^ 53) :: rat) < 2 ^ 1024" by simp
  finally show "rnd x = Fin (rnd_pos x)" using assms(1) by (simp add: rnd_def Let_def)
qed

lemma ceiling_div:
  fixes a b :: int
  assumes "0 \<le> a" and "0 < b"
  shows "\<lceil>of_int a / (of_int b :: rat)\<rceil> = (a + b - 1) div b"
proof -
  let ?q = "(a + b - 1) div b"
  have "?q * b \<le> a + b - 1" "a + b - 1 < ?q * b + b"
    using assms(2) pos_mod_bound [of b "a + b - 1"] pos_mod_sign [of b "a + b - 1"] div_mult_mod_eq [of "a + b - 1" b] by linarith+
  then have "(?q - 1) * b < a" "a \<le> ?q * b" by (simp_all add: algebra_simps)
  then have "of_int ((?q - 1) * b) < (of_int a :: rat)" "of_int a \<le> (of_int (?q * b) :: rat)"
    by (simp_all only: of_int_less_iff of_int_le_iff)
  then have "of_int ?q - 1 < of_int a / (of_int b :: rat)" "of_int a / (of_int b :: rat) \<le> of_int ?q"
    using assms(2) by (simp_all add: field_simps)
  then show ?thesis by (rule ceiling_unique)
qed

text \<open>
  The number of pages is exact although it is computed in floating point: for totals and page sizes below
  2^53 the result is the quotient rounded up, as integer arithmetic gives it.
\<close>

theorem page_count_exact:
  assumes "0 \<le> dividend" and "dividend < 2 ^ 53" and "0 < divisor" and "divisor \<le> 2 ^ 53"
  shows "DivideAndRoundUp conv dividend divisor = (dividend + divisor - 1) div divisor"
proof (cases "dividend = 0")
  case True
  with assms show ?thesis
    by (simp add: DivideAndRoundUp_def f64_of_int_small to_int64_int [of 0, simplified] in_int64_def)
next
  case False
  let ?a = "of_int dividend :: rat" and ?b = "of_int divisor :: rat"
  define x where "x = ?a / ?b"
  have ab: "1 \<le> ?a" "?a \<le> 2 ^ 53" "1 \<le> ?b" "?b \<le> 2 ^ 53"
  proof -
    have "?a \<le> of_int (2 ^ 53)" "?b \<le> of_int (2 ^ 53)" using assms by (simp_all only: of_int_le_iff)
    then show "?a \<le> 2 ^ 53" "?b \<le> 2 ^ 53" by simp_all
    show "1 \<le> ?a" "1 \<le> ?b" using assms False by simp_all
  qed
  have x: "0 < x" "x \<le> 2 ^ 53" "1 / 2 ^ 53 \<le> x"
  proof -
    show "0 < x" using ab unfolding x_def by simp
    have "x \<le> ?a / 1" unfolding x_def using ab by (intro divide_left_mono) simp_all
    then show "x \<le> 2 ^ 53" using ab by simp
    have "1 / 2 ^ 53 \<le> 1 / ?b" using ab by (intro divide_left_mono) simp_all
    also have "\<dots> \<le> x" unfolding x_def using ab by (intro divide_right_mono) simp_all
    finally show "1 / 2 ^ 53 \<le> x" .
  qed
  have f: "fdiv (f64_of_int dividend) (f64_of_int divisor) = Fin (rnd_pos x)"
    using assms ab rnd_Fin(1) [OF x(1, 2)] by (simp add: f64_of_int_small x_def)
  have "\<lceil>rnd_pos x\<rceil> = \<lceil>x\<rceil>"
  proof (rule ceiling_unique)
    show "rnd_pos x \<le> of_int \<lceil>x\<rceil>" by (rule rnd_Fin(2) [OF x(1, 2)])
    have "(\<lceil>x\<rceil> - 1) * divisor < dividend"
    proof -
      have "of_int (\<lceil>x\<rceil> - 1) < x" by linarith
      then have "of_int (\<lceil>x\<rceil> - 1) * ?b < ?a" using ab by (simp add: x_def field_simps)
      then show ?thesis by (metis of_int_less_iff of_int_mult)
    qed
    then have "(\<lceil>x\<rceil> - 1) * divisor + 1 \<le> dividend" by simp
    then have "of_int ((\<lceil>x\<rceil> - 1) * divisor + 1) \<le> ?a" by (simp only: of_int_le_iff)
    then have g: "of_int (\<lceil>x\<rceil> - 1) \<le> x - 1 / ?b" using ab by (simp add: x_def field_simps)
    have "pow2 (- 1022) \<le> 1 / 2 ^ 53" by (simp add: pow2_def)
    then have l: "x - x / 2 ^ 53 \<le> rnd_pos x" using x by (intro rnd_pos_lower) simp_all
    have "?a < of_int (2 ^ 53)" using assms(2) by (simp only: of_int_less_iff)
    then have "x / 2 ^ 53 < 1 / ?b" using ab by (simp add: x_def field_simps)
    with g l show "of_int \<lceil>x\<rceil> - 1 < rnd_pos x" by simp
  qed
  moreover have "\<lceil>x\<rceil> = (dividend + divisor - 1) div divisor" unfolding x_def by (rule ceiling_div [OF assms(1, 3)])
  moreover have "in_int64 \<lceil>x\<rceil>"
  proof -
    have "0 < \<lceil>x\<rceil>" "\<lceil>x\<rceil> \<le> 2 ^ 53" using x by (simp_all add: ceiling_le_iff)
    then show ?thesis by (simp add: in_int64_def)
  qed
  ultimately show ?thesis by (simp add: DivideAndRoundUp_def f to_int64_int)
qed

lemma page_count_exact_witness: "DivideAndRoundUp conv 101 10 = 11"
  using page_count_exact [of 101 10 conv] by simp


subsection \<open>Tenths\<close>

lemma expo_unique:
  assumes "pow2 e \<le> x" and "x < pow2 (e + 1)"
  shows "expo x = e"
proof -
  have x: "0 < x" using assms(1) pow2_pos [of e] by linarith
  note b = expo_bounds [OF x]
  have "\<not> e + 1 \<le> expo x" using pow2_mono [of "e + 1" "expo x"] assms(2) b(1) by fastforce
  moreover have "\<not> expo x + 1 \<le> e" using pow2_mono [of "expo x + 1" e] assms(1) b(2) by fastforce
  ultimately show ?thesis by simp
qed

lemma rne_unique:
  assumes "of_int m - 1 / 2 < q \<or> even m \<and> of_int m - 1 / 2 = q" and "q < of_int m + 1 / 2 \<or> even m \<and> q = of_int m + 1 / 2"
  shows "rne q = m"
proof -
  have b: "of_int m - 1 / 2 \<le> q" "q \<le> of_int m + 1 / 2" using assms by auto
  then have "\<lfloor>q\<rfloor> = m \<or> \<lfloor>q\<rfloor> = m - 1" by linarith
  then show ?thesis
  proof
    assume f: "\<lfloor>q\<rfloor> = m"
    with assms b show ?thesis by (auto simp: rne_def Let_def)
  next
    assume f: "\<lfloor>q\<rfloor> = m - 1"
    with assms b show ?thesis by (auto simp: rne_def Let_def)
  qed
qed

text \<open>The float nearest to a number, from its place in the grid; a number between two floats takes the even one.\<close>

lemma rnd_pos_at:
  assumes "- 1074 \<le> e" and "pow2 (e + 52) \<le> x" and "x < pow2 (e + 53)"
    and "(of_int m - 1 / 2) * pow2 e < x \<or> even m \<and> (of_int m - 1 / 2) * pow2 e = x"
    and "x < (of_int m + 1 / 2) * pow2 e"
  shows "rnd_pos x = of_int m * pow2 e"
proof -
  have "expo x = e + 52" using assms(2, 3) by (intro expo_unique) (simp_all add: add.commute)
  then have u: "ulp_exp x = e" using assms(1) by (simp add: ulp_exp_def)
  have "of_int m - 1 / 2 < x / pow2 e \<or> even m \<and> of_int m - 1 / 2 = x / pow2 e" "x / pow2 e < of_int m + 1 / 2"
    using assms(4, 5) pow2_pos [of e] less_imp_neq [OF pow2_pos [of e]] by (auto simp: pos_less_divide_eq pos_divide_less_eq)
  then have "rne (x / pow2 e) = m" by (intro rne_unique) auto
  then show ?thesis by (simp add: rnd_pos_def u)
qed

text \<open>A tenth is no float, but ten times the nearest float of \<open>j / 10\<close> rounds to \<open>j\<close>.\<close>

lemma tenth_1: "rnd_pos (1 / 10) = of_int 7205759403792794 * pow2 (-56)"
  by (rule rnd_pos_at) (simp_all add: pow2_def)

lemma ten_tenth_1: "rnd_pos (10 * rnd_pos (1 / 10)) = 1"
proof -
  have "rnd_pos (10 * rnd_pos (1 / 10)) = of_int 4503599627370496 * pow2 (-52)"
    unfolding tenth_1 by (rule rnd_pos_at) (simp_all add: pow2_def)
  then show ?thesis by (simp add: pow2_def)
qed

lemma tenth_2: "rnd_pos (2 / 10) = of_int 7205759403792794 * pow2 (-55)"
  by (rule rnd_pos_at) (simp_all add: pow2_def)

lemma ten_tenth_2: "rnd_pos (10 * rnd_pos (2 / 10)) = 2"
proof -
  have "rnd_pos (10 * rnd_pos (2 / 10)) = of_int 4503599627370496 * pow2 (-51)"
    unfolding tenth_2 by (rule rnd_pos_at) (simp_all add: pow2_def)
  then show ?thesis by (simp add: pow2_def)
qed

lemma tenth_3: "rnd_pos (3 / 10) = of_int 5404319552844595 * pow2 (-54)"
  by (rule rnd_pos_at) (simp_all add: pow2_def)

lemma ten_tenth_3: "rnd_pos (10 * rnd_pos (3 / 10)) = 3"
proof -
  have "rnd_pos (10 * rnd_pos (3 / 10)) = of_int 6755399441055744 * pow2 (-51)"
    unfolding tenth_3 by (rule rnd_pos_at) (simp_all add: pow2_def)
  then show ?thesis by (simp add: pow2_def)
qed

lemma tenth_4: "rnd_pos (4 / 10) = of_int 7205759403792794 * pow2 (-54)"
  by (rule rnd_pos_at) (simp_all add: pow2_def)

lemma ten_tenth_4: "rnd_pos (10 * rnd_pos (4 / 10)) = 4"
proof -
  have "rnd_pos (10 * rnd_pos (4 / 10)) = of_int 4503599627370496 * pow2 (-50)"
    unfolding tenth_4 by (rule rnd_pos_at) (simp_all add: pow2_def)
  then show ?thesis by (simp add: pow2_def)
qed

lemma tenth_5: "rnd_pos (5 / 10) = of_int 4503599627370496 * pow2 (-53)"
  by (rule rnd_pos_at) (simp_all add: pow2_def)

lemma ten_tenth_5: "rnd_pos (10 * rnd_pos (5 / 10)) = 5"
proof -
  have "rnd_pos (10 * rnd_pos (5 / 10)) = of_int 5629499534213120 * pow2 (-50)"
    unfolding tenth_5 by (rule rnd_pos_at) (simp_all add: pow2_def)
  then show ?thesis by (simp add: pow2_def)
qed

lemma tenth_6: "rnd_pos (6 / 10) = of_int 5404319552844595 * pow2 (-53)"
  by (rule rnd_pos_at) (simp_all add: pow2_def)

lemma ten_tenth_6: "rnd_pos (10 * rnd_pos (6 / 10)) = 6"
proof -
  have "rnd_pos (10 * rnd_pos (6 / 10)) = of_int 6755399441055744 * pow2 (-50)"
    unfolding tenth_6 by (rule rnd_pos_at) (simp_all add: pow2_def)
  then show ?thesis by (simp add: pow2_def)
qed

lemma tenth_7: "rnd_pos (7 / 10) = of_int 6305039478318694 * pow2 (-53)"
  by (rule rnd_pos_at) (simp_all add: pow2_def)

lemma ten_tenth_7: "rnd_pos (10 * rnd_pos (7 / 10)) = 7"
proof -
  have "rnd_pos (10 * rnd_pos (7 / 10)) = of_int 7881299347898368 * pow2 (-50)"
    unfolding tenth_7 by (rule rnd_pos_at) (simp_all add: pow2_def)
  then show ?thesis by (simp add: pow2_def)
qed

lemma tenth_8: "rnd_pos (8 / 10) = of_int 7205759403792794 * pow2 (-53)"
  by (rule rnd_pos_at) (simp_all add: pow2_def)

lemma ten_tenth_8: "rnd_pos (10 * rnd_pos (8 / 10)) = 8"
proof -
  have "rnd_pos (10 * rnd_pos (8 / 10)) = of_int 4503599627370496 * pow2 (-49)"
    unfolding tenth_8 by (rule rnd_pos_at) (simp_all add: pow2_def)
  then show ?thesis by (simp add: pow2_def)
qed

lemma tenth_9: "rnd_pos (9 / 10) = of_int 8106479329266893 * pow2 (-53)"
  by (rule rnd_pos_at) (simp_all add: pow2_def)

lemma ten_tenth_9: "rnd_pos (10 * rnd_pos (9 / 10)) = 9"
proof -
  have "rnd_pos (10 * rnd_pos (9 / 10)) = of_int 5066549580791808 * pow2 (-49)"
    unfolding tenth_9 by (rule rnd_pos_at) (simp_all add: pow2_def)
  then show ?thesis by (simp add: pow2_def)
qed

lemma ten_tenth_10: "rnd_pos (10 * rnd_pos (10 / 10)) = 10"
  using rnd_pos_int [of 1] rnd_pos_int [of 10] by simp

lemma ten_tenths:
  assumes "1 \<le> j" and "j \<le> 10"
  shows "rnd_pos (10 * rnd_pos (of_int j / 10)) = of_int j"
proof -
  have "j \<in> {1..10}" using assms by simp
  also have "{1..10 :: int} = {1, 2, 3, 4, 5, 6, 7, 8, 9, 10}" by (auto, presburger)
  finally show ?thesis
    using ten_tenth_1 ten_tenth_2 ten_tenth_3 ten_tenth_4 ten_tenth_5 ten_tenth_6 ten_tenth_7 ten_tenth_8 ten_tenth_9 ten_tenth_10 by auto
qed


subsection \<open>The charge of a battery\<close>

record VoltageCalculate =
  vc_BatteryVoltage :: int
  vc_DeviceType :: string
  vc_DensityType :: int
  vc_AccountId :: int

definition voltage_bounds :: "string \<Rightarrow> int \<times> int" where
  \<comment> \<open>the highest and the lowest voltage of a type of device\<close>
  "voltage_bounds deviceType =
     (if has_suffix deviceType ''X'' then (4050, 3350)
      else if has_suffix deviceType ''T'' then (4150, 3350)
      else (4150, 3450))"

definition DeviceVoltageCalculate :: "(f64 \<Rightarrow> int) \<Rightarrow> VoltageCalculate \<Rightarrow> int" where
  "DeviceVoltageCalculate conv v =
     (let (maxVoltage, minVoltage) = voltage_bounds (vc_DeviceType v)
      in if vc_BatteryVoltage v > maxVoltage then 100
         else if vc_BatteryVoltage v \<le> minVoltage then 1
         else
           let share = fmul (fdiv (f64_of_int (maxVoltage - vc_BatteryVoltage v)) (f64_of_int (maxVoltage - minVoltage))) (Fin 10);
               remainPower = 100 - to_int64 conv (fmul (fceil share) (Fin 10))
           in if remainPower = 0 then 1 else remainPower)"

definition DeviceStorageCalculate :: "(f64 \<Rightarrow> int) \<Rightarrow> int \<Rightarrow> int \<Rightarrow> int" where
  "DeviceStorageCalculate conv fullStorage storage =
     to_int64 conv (fmul (fdiv (f64_of_int fullStorage) (f64_of_int storage)) (Fin 100))"

text \<open>The number of tenths, rounded up, of which a part makes up a whole.\<close>

lemma tenths_rounded_up:
  assumes "0 \<le> d" and "d < D" and "D \<le> 1000"
  shows "fceil (fmul (fdiv (f64_of_int d) (f64_of_int D)) (Fin 10)) = Fin (of_int ((10 * d + D - 1) div D))"
proof (cases "d = 0")
  case True
  with assms show ?thesis by (simp add: f64_of_int_small)
next
  case False
  define x where "x = (of_int d :: rat) / of_int D"
  define y where "y = rnd_pos x"
  define k where "k = (10 * d + D - 1) div D"
  have d: "1 \<le> (of_int d :: rat)" "(of_int d :: rat) < of_int D" "(of_int D :: rat) \<le> 1000"
    using assms False by simp_all
  have x: "1 / 1000 \<le> x" "x < 1"
  proof -
    have "1 / 1000 \<le> 1 / (of_int D :: rat)" using d by (intro divide_left_mono) simp_all
    also have "\<dots> \<le> x" unfolding x_def using d by (intro divide_right_mono) simp_all
    finally show "1 / 1000 \<le> x" .
    show "x < 1" using d by (simp add: x_def)
  qed
  have c: "\<lceil>10 * x\<rceil> = k"
    using ceiling_div [of "10 * d" D] assms by (simp add: x_def k_def)
  have k: "1 \<le> k" "k \<le> 10" using x c by (auto simp: ceiling_le_iff less_ceiling_iff simp flip: c)
  have small: "pow2 (- 1022) \<le> 1 / 1000"
  proof -
    have "pow2 (- 1022) \<le> pow2 (- 10)" by (rule pow2_mono) simp
    then show ?thesis by (simp add: pow2_def)
  qed
  have y: "x - x / 2 ^ 53 \<le> y" "y \<le> 1" "0 < y"
    using rnd_pos_lower [of x] rnd_Fin(2) [of x] small x by (auto simp: y_def ceiling_le_iff intro: order_trans)
  have f: "fmul (fdiv (f64_of_int d) (f64_of_int D)) (Fin 10) = Fin (rnd_pos (10 * y))"
    using rnd_Fin(1) [of x] rnd_Fin(1) [of "10 * y"] x y d assms by (simp add: f64_of_int_small x_def [symmetric] y_def mult.commute)
  have "\<lceil>rnd_pos (10 * y)\<rceil> = k"
  proof (rule ceiling_unique)
    have "x \<le> of_int k / 10" using le_of_int_ceiling [of "10 * x"] c by simp
    then have "y \<le> rnd_pos (of_int k / 10)" unfolding y_def using x by (intro rnd_pos_mono) simp_all
    then have "rnd_pos (10 * y) \<le> rnd_pos (10 * rnd_pos (of_int k / 10))" using y by (intro rnd_pos_mono) simp_all
    then show "rnd_pos (10 * y) \<le> of_int k" by (simp add: ten_tenths [OF k])
    have "(k - 1) * D < 10 * d"
    proof -
      have "of_int (k - 1) < 10 * x" using c by linarith
      then have "of_int (k - 1) * of_int D < 10 * (of_int d :: rat)" using d by (simp add: x_def field_simps)
      then show ?thesis by (metis of_int_less_iff of_int_mult of_int_numeral)
    qed
    then have "(k - 1) * D + 1 \<le> 10 * d" by simp
    then have "of_int ((k - 1) * D + 1) \<le> (of_int (10 * d) :: rat)" by (simp only: of_int_le_iff)
    then have "(of_int (k - 1) * of_int D + 1) / of_int D \<le> (10 * of_int d :: rat) / of_int D"
      using d by (intro divide_right_mono) simp_all
    then have "of_int (k - 1) + 1 / of_int D \<le> 10 * x" using d by (simp add: x_def add_divide_distrib)
    moreover have "1 / 1000 \<le> 1 / (of_int D :: rat)" using d by (intro divide_left_mono) simp_all
    ultimately have g: "of_int k - 1 + 1 / 1000 \<le> 10 * x" by simp
    have "x / 2 ^ 53 \<le> x / 2" using x by (intro divide_left_mono) simp_all
    then have p: "1 / 1000 \<le> 10 * y" using y(1) x(1) by linarith
    have "pow2 (- 1022) \<le> 10 * y" using small p by (rule order_trans)
    moreover have "0 < 10 * y" using p by simp
    ultimately have "10 * y - 10 * y / 2 ^ 53 \<le> rnd_pos (10 * y)" by (intro rnd_pos_lower) assumption+
    then show "of_int k - 1 < rnd_pos (10 * y)" using g y x by (simp add: field_simps)
  qed
  then show ?thesis by (simp add: f k_def)
qed


text \<open>The charge in whole tenths, in integer arithmetic.\<close>

definition voltage_reference :: "string \<Rightarrow> int \<Rightarrow> int" where
  "voltage_reference deviceType volt =
     (let (hi, lo) = voltage_bounds deviceType
      in if volt > hi then 100 else if volt \<le> lo then 1
         else max 1 (100 - 10 * ((10 * (hi - volt) + (hi - lo) - 1) div (hi - lo))))"

lemma voltage_bounds_cases:
  "voltage_bounds t = (hi, lo) \<Longrightarrow> hi - lo = 700 \<or> hi - lo = 800"
  by (auto simp: voltage_bounds_def split: if_splits)

lemma voltage_exact:
  "DeviceVoltageCalculate conv v = voltage_reference (vc_DeviceType v) (vc_BatteryVoltage v)"
proof -
  obtain hi lo where b: "voltage_bounds (vc_DeviceType v) = (hi, lo)" by fastforce
  let ?volt = "vc_BatteryVoltage v"
  show ?thesis
  proof (cases "lo < ?volt \<and> ?volt \<le> hi")
    case True
    let ?k = "(10 * (hi - ?volt) + (hi - lo) - 1) div (hi - lo)"
    have D: "hi - lo = 700 \<or> hi - lo = 800" by (rule voltage_bounds_cases [OF b])
    have k: "0 \<le> ?k" "?k \<le> 10"
    proof -
      show "0 \<le> ?k" using True D by (intro pos_imp_zdiv_nonneg_iff [THEN iffD2]) auto
      show "?k \<le> 10" using True D by auto
    qed
    have "fceil (fmul (fdiv (f64_of_int (hi - ?volt)) (f64_of_int (hi - lo))) (Fin 10)) = Fin (of_int ?k)"
      using True D by (intro tenths_rounded_up) auto
    moreover have "rnd (of_int ?k * 10) = Fin (of_int (10 * ?k))"
      using rnd_int [of "10 * ?k"] k by (simp add: mult.commute)
    moreover have "in_int64 (10 * ?k)" using k unfolding in_int64_def by linarith
    ultimately have "to_int64 conv (fmul (fceil (fmul (fdiv (f64_of_int (hi - ?volt)) (f64_of_int (hi - lo))) (Fin 10))) (Fin 10)) = 10 * ?k"
      by (simp only: fmul.simps to_int64_int)
    then show ?thesis using True k by (simp add: DeviceVoltageCalculate_def voltage_reference_def b Let_def)
  next
    case False
    then show ?thesis by (auto simp: DeviceVoltageCalculate_def voltage_reference_def b)
  qed
qed

text \<open>
  The charge of a battery that is computed in floating point is the one integer arithmetic gives, for every
  voltage and type of device: the missing tenths of the range, rounded up, are taken from 100; it lies between 1 and
  100 and never falls when the voltage rises.
\<close>

theorem battery_charge:
  shows "DeviceVoltageCalculate conv v = voltage_reference (vc_DeviceType v) (vc_BatteryVoltage v) \<and>
    DeviceVoltageCalculate conv v \<in> {1..100} \<and>
    DeviceVoltageCalculate conv v \<le> DeviceVoltageCalculate conv (v\<lparr>vc_BatteryVoltage := vc_BatteryVoltage v + int n\<rparr>)"
proof -
  obtain hi lo where b: "voltage_bounds (vc_DeviceType v) = (hi, lo)" by fastforce
  have D: "0 < hi - lo" using voltage_bounds_cases [OF b] by auto
  let ?q = "\<lambda>volt. (10 * (hi - volt) + (hi - lo) - 1) div (hi - lo)"
  have q: "0 \<le> ?q volt" if "volt \<le> hi" for volt
    using D that by (intro pos_imp_zdiv_nonneg_iff [THEN iffD2]) auto
  have r: "1 \<le> voltage_reference (vc_DeviceType v) volt \<and> voltage_reference (vc_DeviceType v) volt \<le> 100" for volt
    using q [of volt] by (auto simp: voltage_reference_def b)
  have m: "voltage_reference (vc_DeviceType v) volt \<le> voltage_reference (vc_DeviceType v) (volt + int n)" for volt
  proof -
    have "?q (volt + int n) \<le> ?q volt" using D by (intro zdiv_mono1) auto
    then have "max 1 (100 - 10 * ?q volt) \<le> max 1 (100 - 10 * ?q (volt + int n))" by (intro max.mono) linarith+
    then show ?thesis
      using r [of "volt + int n"] r [of volt] unfolding voltage_reference_def b Let_def prod.case
      by (split if_split)+ auto
  qed
  then show ?thesis using r by (simp add: voltage_exact)
qed

text \<open>Above 2^53 the total itself need not be a float: 2^53 + 3 rows, one to a page, get one page too many.\<close>

lemma page_count_off: "DivideAndRoundUp conv (2 ^ 53 + 3) 1 = 2 ^ 53 + 4"
proof -
  have l: "(9007199254740996 :: rat) < 2 ^ 1024"
    using power_strict_increasing [of 54 1024 "2 :: rat"] by simp
  have fin: "rnd x = Fin 9007199254740996" if "rnd_pos x = 9007199254740996" "0 < x" for x
    using l that by (simp add: rnd_def Let_def not_le)
  have "rnd_pos (of_int (2 ^ 53 + 3)) = of_int (2 ^ 52 + 2) * pow2 1"
    by (rule rnd_pos_at) (simp_all add: pow2_def)
  then have "rnd_pos 9007199254740995 = 9007199254740996" by (simp add: pow2_def)
  then have a: "f64_of_int (2 ^ 53 + 3) = Fin 9007199254740996" by (simp add: f64_of_int_def fin)
  have "rnd_pos (of_int (2 ^ 53 + 4)) = of_int (2 ^ 52 + 2) * pow2 1"
    by (rule rnd_pos_at) (simp_all add: pow2_def)
  then have "rnd_pos 9007199254740996 = 9007199254740996" by (simp add: pow2_def)
  then have "fdiv (Fin 9007199254740996) (f64_of_int 1) = Fin 9007199254740996"
    by (simp add: f64_of_int_small [of 1] fin)
  then show ?thesis
    using to_int64_int [of 9007199254740996 conv] a by (simp add: DivideAndRoundUp_def in_int64_def)
qed

subsection \<open>Small functions\<close>

fun IsInArray :: "'a \<Rightarrow> 'a list \<Rightarrow> bool" where
  "IsInArray target [] = False"
| "IsInArray target (item # arr) = (if item = target then True else IsInArray target arr)"

lemma IsInArray_member: "IsInArray target arr \<longleftrightarrow> target \<in> set arr"
  by (induction arr) auto

function count_loop :: "int \<Rightarrow> nat \<Rightarrow> nat" where
  "count_loop n count = (if n \<noteq> 0 then count_loop (go_div n 10) (count + 1) else count)"
  by auto
termination
proof (relation "measure (\<lambda>(n, c). nat \<bar>n\<bar>)")
  fix n :: int and c :: nat
  assume "n \<noteq> 0"
  then have "\<bar>go_div n 10\<bar> < \<bar>n\<bar>" by (auto simp: go_div_def abs_mult sgn_if)
  then show "((go_div n 10, c + 1), n, c) \<in> measure (\<lambda>(n, c). nat \<bar>n\<bar>)" by simp
qed simp

declare count_loop.simps [simp del]

definition CountDigits :: "int \<Rightarrow> nat" where
  "CountDigits n = count_loop n 0"

lemma count_loop_decimal: "0 < m \<Longrightarrow> count_loop (int m) c = c + length (decimal m)"
proof (induction m arbitrary: c rule: decimal.induct)
  case (1 m)
  have g: "go_div (int m) 10 = int (m div 10)" by (simp add: go_div_nonneg zdiv_int)
  show ?case
  proof (cases "m < 10")
    case True
    with "1.prems" g show ?thesis
      by (subst count_loop.simps) (simp add: count_loop.simps [of 0] decimal.simps [of m])
  next
    case False
    with "1.prems" "1.IH" [OF False, of "c + 1"] g show ?thesis
      by (subst count_loop.simps) (simp add: decimal.simps [of m])
  qed
qed

lemma count_loop_neg: "count_loop (- n) c = count_loop n c"
proof (induction n c rule: count_loop.induct)
  case (1 n c)
  have "go_div (- n) 10 = - go_div n 10" by (simp add: go_div_def sgn_minus)
  with 1 show ?case by (subst (1 2) count_loop.simps) simp
qed

text \<open>\<^verbatim>\<open>CountDigits\<close> counts the decimal digits of the absolute value, none for zero.\<close>

lemma CountDigits_length: "CountDigits n = (if n = 0 then 0 else length (decimal (nat \<bar>n\<bar>)))"
  using count_loop_decimal [of "nat \<bar>n\<bar>" 0] count_loop_neg [of n 0]
  by (auto simp: CountDigits_def abs_if count_loop.simps [of 0])

text \<open>\<^verbatim>\<open>GetTraceId\<close>: sixteen letters, chosen by the random numbers \<open>r\<close> below 52.\<close>

definition trace_letters :: string where
  "trace_letters = ''abcdefghijklmnopqrstuvwxyzABCDEFGHIJKLMNOPQRSTUVWXYZ''"

definition util_GetTraceId :: "(nat \<Rightarrow> nat) \<Rightarrow> string" where
  "util_GetTraceId r = map (\<lambda>i. trace_letters ! r i) [0..<16]"

lemma GetTraceId_letters:
  "(\<And>i. r i < length trace_letters) \<Longrightarrow> length (util_GetTraceId r) = 16 \<and> set (util_GetTraceId r) \<subseteq> set trace_letters"
  by (auto simp: util_GetTraceId_def)

end
