(* ===== verification/Trans.thy ===== *)
theory Trans
  imports GoSlice GoFloat
begin

text \<open>
  The pointer helpers of \<^verbatim>\<open>pkg/trans/trans.go\<close>.  A pointer is nil or names an element of an array of the
  store; a function that takes the address of its parameter allocates a cell for it, one that takes \<^verbatim>\<open>&a[i]\<close>
  points into the array of its argument.  The fourteen families of the file differ in the type and its zero value
  only: they are instances of the four definitions below.  Integers are machine words (\<^verbatim>\<open>int\<close> and
  \<^verbatim>\<open>uint\<close> have 64 bits); the values of \<^verbatim>\<open>float32\<close> are among those of \<^typ>\<open>f64\<close>.
\<close>

type_synonym ptr = "(nat \<times> nat) option"

definition deref :: "'a arrays \<Rightarrow> nat \<times> nat \<Rightarrow> 'a" where
  "deref h l = h ! fst l ! snd l"

definition store_at :: "'a arrays \<Rightarrow> nat \<times> nat \<Rightarrow> 'a \<Rightarrow> 'a arrays" where
  \<comment> \<open>the assignment \<open>*l = x\<close>\<close>
  "store_at h l x = h[fst l := (h ! fst l)[snd l := x]]"

definition valid_loc :: "'a arrays \<Rightarrow> nat \<times> nat \<Rightarrow> bool" where
  "valid_loc h l \<longleftrightarrow> fst l < length h \<and> snd l < length (h ! fst l)"

subsection \<open>The four functions of a family\<close>

definition ptr_new :: "'a arrays \<Rightarrow> 'a \<Rightarrow> 'a arrays \<times> ptr" where
  "ptr_new h a = (h @ [[a]], Some (length h, 0))"

fun ptr_value :: "'a \<Rightarrow> 'a arrays \<Rightarrow> ptr \<Rightarrow> 'a" where
  "ptr_value zero h None = zero"
| "ptr_value zero h (Some l) = deref h l"

fun ptr_slice :: "slice option \<Rightarrow> ptr list option" where
  \<comment> \<open>a nil slice is \<open>None\<close>\<close>
  "ptr_slice None = None"
| "ptr_slice (Some a) = Some (map (\<lambda>i. Some (s_array a, i)) [0..<s_len a])"

definition value_slice :: "'a \<Rightarrow> 'a arrays \<Rightarrow> ptr list option \<Rightarrow> 'a list option" where
  \<comment> \<open>a nil element leaves the zero value of the new array\<close>
  "value_slice zero h a = map_option (map (\<lambda>p. case p of None \<Rightarrow> zero | Some l \<Rightarrow> deref h l)) a"

subsection \<open>The families\<close>

definition String :: "string arrays \<Rightarrow> string \<Rightarrow> string arrays \<times> ptr" where
  "String = ptr_new"

definition StringValue :: "string arrays \<Rightarrow> ptr \<Rightarrow> string" where
  "StringValue = ptr_value ''''"

definition Int_ptr :: "64 word arrays \<Rightarrow> 64 word \<Rightarrow> 64 word arrays \<times> ptr" where
  "Int_ptr = ptr_new"

definition IntValue :: "64 word arrays \<Rightarrow> ptr \<Rightarrow> 64 word" where
  "IntValue = ptr_value 0"

definition Int8 :: "8 word arrays \<Rightarrow> 8 word \<Rightarrow> 8 word arrays \<times> ptr" where
  "Int8 = ptr_new"

definition Int8Value :: "8 word arrays \<Rightarrow> ptr \<Rightarrow> 8 word" where
  "Int8Value = ptr_value 0"

definition Int16 :: "16 word arrays \<Rightarrow> 16 word \<Rightarrow> 16 word arrays \<times> ptr" where
  "Int16 = ptr_new"

definition Int16Value :: "16 word arrays \<Rightarrow> ptr \<Rightarrow> 16 word" where
  "Int16Value = ptr_value 0"

definition Int32 :: "32 word arrays \<Rightarrow> 32 word \<Rightarrow> 32 word arrays \<times> ptr" where
  "Int32 = ptr_new"

definition Int32Value :: "32 word arrays \<Rightarrow> ptr \<Rightarrow> 32 word" where
  "Int32Value = ptr_value 0"

definition Int64 :: "64 word arrays \<Rightarrow> 64 word \<Rightarrow> 64 word arrays \<times> ptr" where
  "Int64 = ptr_new"

definition Int64Value :: "64 word arrays \<Rightarrow> ptr \<Rightarrow> 64 word" where
  "Int64Value = ptr_value 0"

definition Bool :: "bool arrays \<Rightarrow> bool \<Rightarrow> bool arrays \<times> ptr" where
  "Bool = ptr_new"

definition BoolValue :: "bool arrays \<Rightarrow> ptr \<Rightarrow> bool" where
  "BoolValue = ptr_value False"

definition Uint :: "64 word arrays \<Rightarrow> 64 word \<Rightarrow> 64 word arrays \<times> ptr" where
  "Uint = ptr_new"

definition UintValue :: "64 word arrays \<Rightarrow> ptr \<Rightarrow> 64 word" where
  "UintValue = ptr_value 0"

definition Uint8 :: "8 word arrays \<Rightarrow> 8 word \<Rightarrow> 8 word arrays \<times> ptr" where
  "Uint8 = ptr_new"

definition Uint8Value :: "8 word arrays \<Rightarrow> ptr \<Rightarrow> 8 word" where
  "Uint8Value = ptr_value 0"

definition Uint16 :: "16 word arrays \<Rightarrow> 16 word \<Rightarrow> 16 word arrays \<times> ptr" where
  "Uint16 = ptr_new"

definition Uint16Value :: "16 word arrays \<Rightarrow> ptr \<Rightarrow> 16 word" where
  "Uint16Value = ptr_value 0"

definition Uint32 :: "32 word arrays \<Rightarrow> 32 word \<Rightarrow> 32 word arrays \<times> ptr" where
  "Uint32 = ptr_new"

definition Uint32Value :: "32 word arrays \<Rightarrow> ptr \<Rightarrow> 32 word" where
  "Uint32Value = ptr_value 0"

definition Uint64 :: "64 word arrays \<Rightarrow> 64 word \<Rightarrow> 64 word arrays \<times> ptr" where
  "Uint64 = ptr_new"

definition Uint64Value :: "64 word arrays \<Rightarrow> ptr \<Rightarrow> 64 word" where
  "Uint64Value = ptr_value 0"

definition Float32 :: "f64 arrays \<Rightarrow> f64 \<Rightarrow> f64 arrays \<times> ptr" where
  "Float32 = ptr_new"

definition Float32Value :: "f64 arrays \<Rightarrow> ptr \<Rightarrow> f64" where
  "Float32Value = ptr_value (Fin 0)"

definition Float64 :: "f64 arrays \<Rightarrow> f64 \<Rightarrow> f64 arrays \<times> ptr" where
  "Float64 = ptr_new"

definition Float64Value :: "f64 arrays \<Rightarrow> ptr \<Rightarrow> f64" where
  "Float64Value = ptr_value (Fin 0)"

definition IntSlice :: "slice option \<Rightarrow> ptr list option" where
  "IntSlice = ptr_slice"

definition IntValueSlice :: "64 word arrays \<Rightarrow> ptr list option \<Rightarrow> 64 word list option" where
  "IntValueSlice = value_slice 0"

definition Int8Slice :: "slice option \<Rightarrow> ptr list option" where
  "Int8Slice = ptr_slice"

definition Int8ValueSlice :: "8 word arrays \<Rightarrow> ptr list option \<Rightarrow> 8 word list option" where
  "Int8ValueSlice = value_slice 0"

definition Int16Slice :: "slice option \<Rightarrow> ptr list option" where
  "Int16Slice = ptr_slice"

definition Int16ValueSlice :: "16 word arrays \<Rightarrow> ptr list option \<Rightarrow> 16 word list option" where
  "Int16ValueSlice = value_slice 0"

definition Int32Slice :: "slice option \<Rightarrow> ptr list option" where
  "Int32Slice = ptr_slice"

definition Int32ValueSlice :: "32 word arrays \<Rightarrow> ptr list option \<Rightarrow> 32 word list option" where
  "Int32ValueSlice = value_slice 0"

definition Int64Slice :: "slice option \<Rightarrow> ptr list option" where
  "Int64Slice = ptr_slice"

definition Int64ValueSlice :: "64 word arrays \<Rightarrow> ptr list option \<Rightarrow> 64 word list option" where
  "Int64ValueSlice = value_slice 0"

definition UintSlice :: "slice option \<Rightarrow> ptr list option" where
  "UintSlice = ptr_slice"

definition UintValueSlice :: "64 word arrays \<Rightarrow> ptr list option \<Rightarrow> 64 word list option" where
  "UintValueSlice = value_slice 0"

definition Uint8Slice :: "slice option \<Rightarrow> ptr list option" where
  "Uint8Slice = ptr_slice"

definition Uint8ValueSlice :: "8 word arrays \<Rightarrow> ptr list option \<Rightarrow> 8 word list option" where
  "Uint8ValueSlice = value_slice 0"

definition Uint16Slice :: "slice option \<Rightarrow> ptr list option" where
  "Uint16Slice = ptr_slice"

definition Uint16ValueSlice :: "16 word arrays \<Rightarrow> ptr list option \<Rightarrow> 16 word list option" where
  "Uint16ValueSlice = value_slice 0"

definition Uint32Slice :: "slice option \<Rightarrow> ptr list option" where
  "Uint32Slice = ptr_slice"

definition Uint32ValueSlice :: "32 word arrays \<Rightarrow> ptr list option \<Rightarrow> 32 word list option" where
  "Uint32ValueSlice = value_slice 0"

definition Uint64Slice :: "slice option \<Rightarrow> ptr list option" where
  "Uint64Slice = ptr_slice"

definition Uint64ValueSlice :: "64 word arrays \<Rightarrow> ptr list option \<Rightarrow> 64 word list option" where
  "Uint64ValueSlice = value_slice 0"

definition Float32Slice :: "slice option \<Rightarrow> ptr list option" where
  "Float32Slice = ptr_slice"

definition Float32ValueSlice :: "f64 arrays \<Rightarrow> ptr list option \<Rightarrow> f64 list option" where
  "Float32ValueSlice = value_slice (Fin 0)"

definition Float64Slice :: "slice option \<Rightarrow> ptr list option" where
  "Float64Slice = ptr_slice"

definition Float64ValueSlice :: "f64 arrays \<Rightarrow> ptr list option \<Rightarrow> f64 list option" where
  "Float64ValueSlice = value_slice (Fin 0)"

definition StringSlice :: "slice option \<Rightarrow> ptr list option" where
  "StringSlice = ptr_slice"

definition StringSliceValue :: "string arrays \<Rightarrow> ptr list option \<Rightarrow> string list option" where
  "StringSliceValue = value_slice ''''"

definition BoolSlice :: "slice option \<Rightarrow> ptr list option" where
  "BoolSlice = ptr_slice"

definition BoolSliceValue :: "bool arrays \<Rightarrow> ptr list option \<Rightarrow> bool list option" where
  "BoolSliceValue = value_slice False"

subsection \<open>Pointers and values\<close>

lemma deref_new: "ptr_new h a = (h', Some l) \<Longrightarrow> deref h' l = a \<and> valid_loc h' l \<and> \<not> valid_loc h l"
  by (auto simp: ptr_new_def deref_def valid_loc_def)

lemma deref_new_old: "valid_loc h l \<Longrightarrow> deref (h @ [xs]) l = deref h l"
  by (simp add: deref_def valid_loc_def nth_append)

lemma deref_store_at:
  "valid_loc h l \<Longrightarrow> valid_loc h l' \<Longrightarrow> deref (store_at h l x) l' = (if l = l' then x else deref h l')"
  by (cases l; cases l') (auto simp: deref_def store_at_def valid_loc_def nth_list_update)

lemma value_of_slice:
  assumes "\<And>a. s = Some a \<Longrightarrow> slice_ok h a"
  shows "value_slice zero h (ptr_slice s) = map_option (slice_elems h) s"
proof (cases s)
  case (Some a)
  then have ok: "slice_ok h a" using assms by simp
  have "map (\<lambda>i. h ! s_array a ! i) [0..<s_len a] = slice_elems h a"
    using ok by (auto simp: slice_elems_def slice_ok_def intro!: nth_equalityI)
  with Some show ?thesis by (simp add: value_slice_def deref_def comp_def)
qed (simp add: value_slice_def)

lemma ptr_slice_valid:
  "slice_ok h a \<Longrightarrow> i < s_len a \<Longrightarrow> valid_loc h (s_array a, i)"
  by (auto simp: slice_ok_def valid_loc_def)

lemma store_at_elems:
  assumes "slice_ok h a" and "i < s_len a"
  shows "slice_elems (store_at h (s_array a, i) x) a = (slice_elems h a)[i := x]"
  using assms by (auto simp: slice_elems_def store_at_def slice_ok_def take_update_swap)

lemma store_at_ok: "slice_ok (store_at h l x) a = slice_ok h a"
  by (cases "fst l = s_array a") (auto simp: slice_ok_def store_at_def nth_list_update)

text \<open>
  The slice of pointers that \<^verbatim>\<open>IntSlice\<close> and its siblings return aliases its argument: a write through the
  i-th pointer is a write to the i-th element of the argument and to nothing else, and turning the pointers back into
  values shows it; no pointer of it is nil.
\<close>

theorem pointer_slice_aliases:
  assumes "slice_ok h a" and "i < s_len a" and "slice_elems h a = xs"
  shows "IntSlice (Some a) = Some ps \<longrightarrow>
    length ps = length xs \<and> ps ! i = Some (s_array a, i) \<and>
    slice_elems (store_at h (s_array a, i) x) a = xs[i := x] \<and>
    IntValueSlice (store_at h (s_array a, i) x) (Some ps) = Some (xs[i := x])"
proof
  assume ps: "IntSlice (Some a) = Some ps"
  have "slice_ok (store_at h (s_array a, i) x) a" using assms(1) by (simp add: store_at_ok)
  then have "value_slice 0 (store_at h (s_array a, i) x) (ptr_slice (Some a)) = Some (xs[i := x])"
    using value_of_slice [of "Some a" "store_at h (s_array a, i) x" 0] store_at_elems [OF assms(1, 2), of x] assms(3)
    by simp
  with ps assms slice_elems_length [OF assms(1)] store_at_elems [OF assms(1, 2), of x]
  show "length ps = length xs \<and> ps ! i = Some (s_array a, i) \<and>
    slice_elems (store_at h (s_array a, i) x) a = xs[i := x] \<and>
    IntValueSlice (store_at h (s_array a, i) x) (Some ps) = Some (xs[i := x])"
    by (auto simp: IntSlice_def IntValueSlice_def)
qed

lemma pointer_slice_aliases_witness:
  "IntValueSlice (store_at [[1, 2, 3]] (0, 1) 9) (IntSlice (Some \<lparr>s_array = 0, s_len = 3, s_cap = 3\<rparr>)) = Some [1, 9, 3]"
  using pointer_slice_aliases [of "[[1, 2, 3]]" "\<lparr>s_array = 0, s_len = 3, s_cap = 3\<rparr>" 1 "[1, 2, 3]"
      "[Some (0, 0), Some (0, 1), Some (0, Suc (Suc 0))]" 9]
  by (simp add: slice_ok_def slice_elems_def IntSlice_def upt_rec)

text \<open>
  Values survive the way into pointers and back in every family, nil included, and the pointer of a single value
  is fresh: a write through it changes no cell that existed before.
\<close>

theorem pointers_round_trip:
  assumes "\<And>a. s = Some a \<Longrightarrow> slice_ok h a" and "String h v = (h', Some l)" and "valid_loc h l'"
  shows "StringSliceValue h (StringSlice s) = map_option (slice_elems h) s \<and>
    StringValue h' (Some l) = v \<and> StringValue (store_at h' l w) (Some l') = StringValue h (Some l')"
proof -
  have "valid_loc h' l" "valid_loc h' l'" "l \<noteq> l'" "deref h' l' = deref h l'"
    using assms(2, 3) by (auto simp: String_def ptr_new_def valid_loc_def deref_def nth_append)
  then show ?thesis
    using value_of_slice [OF assms(1), where zero = "''''"] deref_new [of h v h' l] assms(2)
    by (simp add: StringSliceValue_def StringSlice_def StringValue_def String_def deref_store_at)
qed

lemma pointers_round_trip_witness:
  "StringSliceValue [[''a'']] (StringSlice None) = None \<and> StringValue (store_at [[''a''], [''b'']] (1, 0) ''c'') (Some (0, 0)) = ''a''"
  using pointers_round_trip [of None "[[''a'']]" "''b''" "[[''a''], [''b'']]" "(1, 0)" "(0, 0)" "''c''"]
  by (simp add: String_def ptr_new_def valid_loc_def StringValue_def deref_def)

text \<open>A nil element becomes the zero value of the type, and the result is a copy.\<close>

lemma value_slice_nil: "IntValueSlice h (Some [None, Some l]) = Some [0, deref h l] \<and> BoolSliceValue g (Some [None]) = Some [False]"
  by (simp add: IntValueSlice_def BoolSliceValue_def value_slice_def)

end
