(* ===== verification/RedisCache.thy ===== *)
theory RedisCache
  imports GoFloat GoText
begin

text \<open>
  The Redis cache client of \<^verbatim>\<open>pkg/cache/redis.go\<close> and \<^verbatim>\<open>redis_options.go\<close>: construction and registry, the
  commands with their key prefix, and the record of slow commands that every command leaves in a deferred function.
  The driver (go-redis) is the argument \<open>api\<close> of the client, a record of the calls the code makes, which reads and
  changes a server of any type; the duration of a command and the time stamp of its record are arguments.  The record
  \<^verbatim>\<open>trace.Cache\<close> is shared by pointer: it lives in the world, at an address.
\<close>

datatype redis_error = EmptyKey | EmptyClientName | EmptyAddr | RedisNil | RedisErr string

datatype 'v trace_value = TvAny 'v | TvStr string | TvStrs "string list"

datatype printed = PrintedEmptyKey | PrintedGetError string redis_error

record 'v Cache =
  tc_Name :: string
  tc_TraceTime :: string
  tc_CMD :: string
  tc_Key :: string
  tc_Value :: "'v trace_value option"
  tc_TTL :: f64
  tc_CostMillisecond :: int
  tc_SlowLoggerMillisecond :: int
  tc_HasLogger :: bool
  tc_AlwaysTrace :: bool

record ('s, 'v) redis_api =
  api_set :: "string \<Rightarrow> 'v \<Rightarrow> duration \<Rightarrow> 's \<Rightarrow> redis_error option \<times> 's"
  api_get :: "string \<Rightarrow> 's \<Rightarrow> (string \<times> redis_error option) \<times> 's"
  api_ttl :: "string \<Rightarrow> 's \<Rightarrow> (duration \<times> redis_error option) \<times> 's"
  api_expire :: "string \<Rightarrow> duration \<Rightarrow> 's \<Rightarrow> (bool \<times> redis_error option) \<times> 's"
  api_expire_at :: "string \<Rightarrow> instant \<Rightarrow> 's \<Rightarrow> (bool \<times> redis_error option) \<times> 's"
  api_del :: "string \<Rightarrow> 's \<Rightarrow> (int \<times> redis_error option) \<times> 's"
  api_incr :: "string \<Rightarrow> 's \<Rightarrow> (int \<times> redis_error option) \<times> 's"
  api_hget :: "string \<Rightarrow> string \<Rightarrow> 's \<Rightarrow> (string \<times> redis_error option) \<times> 's"
  api_hset :: "string \<Rightarrow> 'v list \<Rightarrow> 's \<Rightarrow> (int \<times> redis_error option) \<times> 's"
  api_hkeys :: "string \<Rightarrow> 's \<Rightarrow> (string list \<times> redis_error option) \<times> 's"
  api_hdel :: "string \<Rightarrow> string list \<Rightarrow> 's \<Rightarrow> (int \<times> redis_error option) \<times> 's"
  api_rpush :: "string \<Rightarrow> 'v list \<Rightarrow> 's \<Rightarrow> (int \<times> redis_error option) \<times> 's"
  api_hincrby :: "string \<Rightarrow> string \<Rightarrow> int \<Rightarrow> 's \<Rightarrow> (int \<times> redis_error option) \<times> 's"
  api_publish :: "string \<Rightarrow> 'v \<Rightarrow> 's \<Rightarrow> (int \<times> redis_error option) \<times> 's"
  api_receive :: "string \<Rightarrow> 's \<Rightarrow> (string + redis_error) \<times> 's"
  api_info :: "'s \<Rightarrow> string \<times> 's"
  api_ping :: "'s \<Rightarrow> redis_error option \<times> 's"
  api_close :: "'s \<Rightarrow> redis_error option \<times> 's"

record ('s, 'v) Redis =
  r_client :: "('s, 'v) redis_api option"
  r_clusterClient :: "('s, 'v) redis_api option"
  r_trace :: "nat option"
  r_prefix :: string

record ('s, 'v) cache_world =
  w_srv :: 's
  w_traces :: "nat \<Rightarrow> 'v Cache"
  w_log :: "'v Cache list"
  w_out :: "printed list"

text \<open>A call returns or panics; both leave a world.\<close>

datatype 'r outcome = Ret 'r | Panic

subsection \<open>The record of slow commands\<close>

definition minutes_of :: "duration \<Rightarrow> f64" where
  \<comment> \<open>\<^verbatim>\<open>Duration.Minutes\<close>\<close>
  "minutes_of d = fadd (f64_of_int (go_div d minute)) (fdiv (f64_of_int (go_mod d minute)) (f64_of_int minute))"

definition trace_defer ::
  "('s, 'v) Redis \<Rightarrow> string \<Rightarrow> string \<Rightarrow> ('v Cache \<Rightarrow> 'v Cache) \<Rightarrow> int \<Rightarrow> string \<Rightarrow>
   ('s, 'v) cache_world \<Rightarrow> ('s, 'v) cache_world" where
  \<comment> \<open>the deferred function; \<open>own\<close> are the assignments a command makes besides the common ones\<close>
  "trace_defer r cmd key own cost stamp w =
     (case r_trace r of None \<Rightarrow> w
      | Some p \<Rightarrow>
          let t = w_traces w p
          in if \<not> tc_HasLogger t then w
             else if \<not> tc_AlwaysTrace t \<and> cost < tc_SlowLoggerMillisecond t then w
             else let t' = own (t\<lparr>tc_TraceTime := stamp, tc_CMD := cmd, tc_Key := key, tc_CostMillisecond := cost\<rparr>)
                  in w\<lparr>w_traces := (w_traces w)(p := t'), w_log := w_log w @ [t']\<rparr>)"

abbreviation set_value :: "'v trace_value \<Rightarrow> 'v Cache \<Rightarrow> 'v Cache" where
  "set_value v \<equiv> tc_Value_update (\<lambda>_. Some v)"

definition full_key :: "('s, 'v) Redis \<Rightarrow> string \<Rightarrow> string" where
  "full_key r key = r_prefix r @ '':'' @ key"

definition backend :: "('s, 'v) Redis \<Rightarrow> ('s, 'v) redis_api option" where
  \<comment> \<open>the single client if there is one, otherwise the cluster client, which may be nil\<close>
  "backend r = (case r_client r of Some c \<Rightarrow> Some c | None \<Rightarrow> r_clusterClient r)"

definition on_server :: "('s \<Rightarrow> 'r \<times> 's) \<Rightarrow> ('s, 'v) cache_world \<Rightarrow> 'r \<times> ('s, 'v) cache_world" where
  "on_server f w = (let (x, s) = f (w_srv w) in (x, w\<lparr>w_srv := s\<rparr>))"

subsection \<open>The commands\<close>

definition Redis_Set where
  "Redis_Set cost stamp (r :: ('s, 'v) Redis) key value ttl w =
     (if key = '''' then (Ret (Some EmptyKey), w)
      else let key = full_key r key;
               fin = trace_defer r ''set'' key (\<lambda>t. (set_value (TvAny value) t)\<lparr>tc_TTL := minutes_of ttl\<rparr>) cost stamp
           in case backend r of None \<Rightarrow> (Panic, fin w)
              | Some c \<Rightarrow> let (err, w) = on_server (api_set c key value ttl) w in (Ret err, fin w))"

definition Redis_Get where
  \<comment> \<open>an error is printed; the value is what the driver gave, \<^verbatim>\<open>nil\<close> for an empty key\<close>
  "Redis_Get cost stamp (r :: ('s, 'v) Redis) key w =
     (if key = '''' then (Ret None, w\<lparr>w_out := w_out w @ [PrintedEmptyKey]\<rparr>)
      else let key = full_key r key;
               fin = trace_defer r ''get'' key (set_value (TvStr '''')) cost stamp
           in case backend r of None \<Rightarrow> (Panic, fin w)
              | Some c \<Rightarrow>
                  let ((value, err), w) = on_server (api_get c key) w;
                      w = (if err \<noteq> None \<and> err \<noteq> Some RedisNil then w\<lparr>w_out := w_out w @ [PrintedGetError key (the err)]\<rparr> else w)
                  in (Ret (Some value), fin w))"

definition Redis_GetStr where
  \<comment> \<open>the deferred function sees the named result, which an error return has overwritten by then\<close>
  "Redis_GetStr cost stamp (r :: ('s, 'v) Redis) key w =
     (if key = '''' then (Ret ('''', Some EmptyKey), w)
      else let key = full_key r key;
               fin = (\<lambda>value. trace_defer r ''get'' key (set_value (TvStr value)) cost stamp)
           in case backend r of None \<Rightarrow> (Panic, fin '''' w)
              | Some c \<Rightarrow>
                  let ((value, err), w) = on_server (api_get c key) w
                  in if err \<noteq> None \<and> err \<noteq> Some RedisNil then (Ret ('''', err), fin '''' w)
                     else (Ret (value, err), fin value w))"

definition Redis_TTL where
  "Redis_TTL (r :: ('s, 'v) Redis) key w =
     (if key = '''' then (Ret (0, Some EmptyKey), w)
      else case backend r of None \<Rightarrow> (Panic, w)
           | Some c \<Rightarrow>
               let ((ttl, err), w) = on_server (api_ttl c (full_key r key)) w
               in if err \<noteq> None \<and> err \<noteq> Some RedisNil then (Ret (- 1, err), w) else (Ret (ttl, None), w))"

definition Redis_Expire where
  "Redis_Expire (r :: ('s, 'v) Redis) key ttl w =
     (if key = '''' then (Ret (False, Some EmptyKey), w)
      else case backend r of None \<Rightarrow> (Panic, w)
           | Some c \<Rightarrow> let (res, w) = on_server (api_expire c (full_key r key) ttl) w in (Ret res, w))"

definition Redis_ExpireAt where
  "Redis_ExpireAt (r :: ('s, 'v) Redis) key tm w =
     (if key = '''' then (Ret (False, Some EmptyKey), w)
      else case backend r of None \<Rightarrow> (Panic, w)
           | Some c \<Rightarrow> let (res, w) = on_server (api_expire_at c (full_key r key) tm) w in (Ret res, w))"

definition Redis_Delete where
  \<comment> \<open>the number of deleted keys is dropped: the record always says zero\<close>
  "Redis_Delete cost stamp (r :: ('s, 'v) Redis) key w =
     (if key = '''' then (Ret (Some EmptyKey), w)
      else let key = full_key r key;
               fin = trace_defer r ''del'' key (set_value (TvStr (format_int 0))) cost stamp
           in case backend r of None \<Rightarrow> (Panic, fin w)
              | Some c \<Rightarrow> let ((_, err), w) = on_server (api_del c key) w in (Ret err, fin w))"

text \<open>The commands whose numeric result is returned and traced.\<close>

definition int_command where
  "int_command cmd f cost stamp (r :: ('s, 'v) Redis) key w =
     (if key = '''' then (Ret (0, Some EmptyKey), w)
      else let key = full_key r key;
               fin = (\<lambda>value. trace_defer r cmd key (set_value (TvStr (format_int value))) cost stamp)
           in case backend r of None \<Rightarrow> (Panic, fin 0 w)
              | Some c \<Rightarrow> let ((value, err), w) = on_server (f c key) w in (Ret (value, err), fin value w))"

definition Redis_Incr where
  "Redis_Incr cost stamp (r :: ('s, 'v) Redis) key w = int_command ''Incr'' api_incr cost stamp r key w"

definition Redis_HSet where
  "Redis_HSet cost stamp (r :: ('s, 'v) Redis) key values w =
     int_command ''HSet'' (\<lambda>c k. api_hset c k values) cost stamp r key w"

definition Redis_HDel where
  "Redis_HDel cost stamp (r :: ('s, 'v) Redis) key names w =
     int_command ''HDel'' (\<lambda>c k. api_hdel c k names) cost stamp r key w"

definition Redis_RPush where
  "Redis_RPush cost stamp (r :: ('s, 'v) Redis) key values w =
     int_command ''RPush'' (\<lambda>c k. api_rpush c k values) cost stamp r key w"

definition Redis_HIncrBy where
  "Redis_HIncrBy cost stamp (r :: ('s, 'v) Redis) key field incr w =
     int_command ''RPush'' (\<lambda>c k. api_hincrby c k field incr) cost stamp r key w"

definition Redis_HGet where
  "Redis_HGet cost stamp (r :: ('s, 'v) Redis) key field w =
     (if key = '''' then (Ret '''', w\<lparr>w_out := w_out w @ [PrintedEmptyKey]\<rparr>)
      else let key = full_key r key;
               fin = trace_defer r ''HGet'' key (set_value (TvStr '''')) cost stamp
           in case backend r of None \<Rightarrow> (Panic, fin w)
              | Some c \<Rightarrow>
                  let ((value, err), w) = on_server (api_hget c key field) w;
                      w = (if err \<noteq> None \<and> err \<noteq> Some RedisNil then w\<lparr>w_out := w_out w @ [PrintedGetError key (the err)]\<rparr> else w)
                  in (Ret value, fin w))"

definition Redis_HKeys where
  "Redis_HKeys cost stamp (r :: ('s, 'v) Redis) key w =
     (if key = '''' then (Ret ([], Some EmptyKey), w)
      else let key = full_key r key;
               fin = (\<lambda>value. trace_defer r ''HKeys'' key (set_value (TvStrs value)) cost stamp)
           in case backend r of None \<Rightarrow> (Panic, fin [] w)
              | Some c \<Rightarrow> let ((value, err), w) = on_server (api_hkeys c key) w in (Ret (value, err), fin value w))"

definition Redis_Publish where
  \<comment> \<open>the channel takes no prefix and may be empty\<close>
  "Redis_Publish cost stamp (r :: ('s, 'v) Redis) channel values w =
     (let fin = (\<lambda>value. trace_defer r ''Publish'' channel (set_value (TvStr (format_int value))) cost stamp)
      in case backend r of None \<Rightarrow> (Panic, fin 0 w)
         | Some c \<Rightarrow> let ((value, err), w) = on_server (api_publish c channel values) w in (Ret (value, err), fin value w))"

text \<open>
  \<^verbatim>\<open>Subscribe\<close> hands the first message to its callback; the messages handed over are the first part of the
  result.  The loop over the messages of a single client is left by \<^verbatim>\<open>break\<close>, which goes on with the cluster client.
\<close>

definition subscribe_once ::
  "('s, 'v) redis_api \<Rightarrow> string \<Rightarrow> ('s, 'v) cache_world \<Rightarrow> string option \<times> ('s, 'v) cache_world" where
  "subscribe_once c channel w =
     (let (msg, w) = on_server (api_receive c channel) w
      in (case msg of Inl payload \<Rightarrow> Some payload | Inr err \<Rightarrow> None, w))"

definition Redis_Subscribe where
  "Redis_Subscribe cost stamp (r :: ('s, 'v) Redis) channel w =
     (let fin = trace_defer r ''Subscribe'' channel id cost stamp;
          cluster = (\<lambda>handed w.
            case r_clusterClient r of None \<Rightarrow> (handed, Panic, fin w)
            | Some c \<Rightarrow>
                (case subscribe_once c channel w of
                   (Some m, w) \<Rightarrow> (handed @ [m], Ret (), fin w)
                 | (None, w) \<Rightarrow> (handed, Ret (), fin w)))
      in case r_client r of
           Some c \<Rightarrow>
             (case subscribe_once c channel w of
                (None, w) \<Rightarrow> ([], Ret (), fin w)
              | (Some m, w) \<Rightarrow> cluster [m] w)
         | None \<Rightarrow> cluster [] w)"

definition Redis_Close where
  "Redis_Close (r :: ('s, 'v) Redis) w =
     (case r_client r of None \<Rightarrow> (Panic, w)
      | Some c \<Rightarrow> let (err, w) = on_server (api_close c) w in (Ret err, w))"

text \<open>\<^verbatim>\<open>strings.Split\<close> for a separator that is not empty.\<close>

function split_str :: "string \<Rightarrow> string \<Rightarrow> string \<Rightarrow> string list" where
  "split_str sep cur [] = [rev cur]"
| "split_str sep cur (c # s) =
     (if has_prefix (c # s) sep then rev cur # split_str sep [] (drop (length sep - 1) s)
      else split_str sep (c # cur) s)"
  by pat_completeness auto
termination by (relation "measure (\<lambda>(sep, cur, s). length s)") auto

definition parse_version :: "string \<Rightarrow> string outcome" where
  "parse_version server =
     (let spl1 = split_str ''# Server'' [] server
      in if length spl1 \<le> 1 then Panic
         else let spl2 = split_str ''redis_version:'' [] (spl1 ! 1)
              in if length spl2 \<le> 1 then Panic
                 else let spl3 = split_str ''redis_git_sha1:'' [] (spl2 ! 1) in Ret (spl3 ! 0))"

definition Redis_Version where
  "Redis_Version (r :: ('s, 'v) Redis) w =
     (case backend r of None \<Rightarrow> (Panic, w)
      | Some c \<Rightarrow> let (server, w) = on_server (api_info c) w in (parse_version server, w))"

subsection \<open>Options, construction and the registry\<close>

record redis_Options =
  ro_Addr :: string
  ro_DialTimeout :: duration
  ro_ReadTimeout :: duration
  ro_WriteTimeout :: duration
  ro_PoolTimeout :: duration
  ro_IdleTimeout :: duration

definition default_dur :: "duration \<Rightarrow> duration \<Rightarrow> duration" where
  "default_dur d x = (if x = 0 then d else x)"

definition setDefaultOptions :: "redis_Options \<Rightarrow> redis_Options" where
  "setDefaultOptions opt = opt\<lparr>
     ro_DialTimeout := default_dur (2 * second) (ro_DialTimeout opt),
     ro_ReadTimeout := default_dur (3 * second) (ro_ReadTimeout opt),
     ro_WriteTimeout := default_dur (3 * second) (ro_WriteTimeout opt),
     ro_PoolTimeout := default_dur (4 * second) (ro_PoolTimeout opt),
     ro_IdleTimeout := default_dur (5 * second) (ro_IdleTimeout opt)\<rparr>"

definition setDefaultClusterOptions :: "redis_Options \<Rightarrow> redis_Options" where
  \<comment> \<open>the code tests and sets the read timeout twice\<close>
  "setDefaultClusterOptions opt =
     (let opt = opt\<lparr>ro_DialTimeout := default_dur (2 * second) (ro_DialTimeout opt)\<rparr>;
          opt = opt\<lparr>ro_ReadTimeout := default_dur (2 * second) (ro_ReadTimeout opt)\<rparr>;
          opt = opt\<lparr>ro_ReadTimeout := default_dur (2 * second) (ro_ReadTimeout opt)\<rparr>;
          opt = opt\<lparr>ro_PoolTimeout := default_dur (10 * second) (ro_PoolTimeout opt)\<rparr>
      in opt\<lparr>ro_IdleTimeout := default_dur (10 * second) (ro_IdleTimeout opt)\<rparr>)"

text \<open>Options and trace records are passed by pointer: \<^typ>\<open>nat\<close> addresses, \<open>None\<close> for nil.\<close>

record redisOptions =
  ropt_clientName :: string
  ropt_prefix :: string
  ropt_opt :: "nat option"
  ropt_trace :: "nat option"

definition defaultRedisOptions :: redisOptions where
  "defaultRedisOptions = \<lparr>ropt_clientName = '''', ropt_prefix = '''', ropt_opt = None, ropt_trace = None\<rparr>"

type_synonym RedisOption = "redisOptions \<Rightarrow> redisOptions"

definition WithClientName :: "string \<Rightarrow> RedisOption" where
  "WithClientName clientName o' = o'\<lparr>ropt_clientName := clientName\<rparr>"

definition WithPrefix :: "string \<Rightarrow> RedisOption" where
  "WithPrefix pfx o' = o'\<lparr>ropt_prefix := pfx\<rparr>"

definition WithOptions :: "nat option \<Rightarrow> RedisOption" where
  "WithOptions opt o' = o'\<lparr>ropt_opt := opt\<rparr>"

definition WithTrace :: "nat option \<Rightarrow> RedisOption" where
  "WithTrace trace o' = o'\<lparr>ropt_trace := trace\<rparr>"

record ('s, 'v) cache_package =
  cp_clients :: "(string \<times> ('s, 'v) Redis) list"
  cp_options :: "nat \<Rightarrow> redis_Options"

definition NewRedis ::
  "(redis_Options \<Rightarrow> ('s, 'v) redis_api) \<Rightarrow> RedisOption list \<Rightarrow> ('s, 'v) cache_package \<Rightarrow> ('s, 'v) cache_world \<Rightarrow>
   redis_error option outcome \<times> ('s, 'v) cache_package \<times> ('s, 'v) cache_world" where
  \<comment> \<open>\<open>dial\<close> is \<^verbatim>\<open>redis.NewClient\<close>\<close>
  "NewRedis dial opts pkg w =
     (let po = fold (\<lambda>f. f) opts defaultRedisOptions
      in if ropt_clientName po = '''' then (Ret (Some EmptyClientName), pkg, w)
         else case ropt_opt po of None \<Rightarrow> (Panic, pkg, w)
         | Some p \<Rightarrow>
             if ro_Addr (cp_options pkg p) = '''' then (Ret (Some EmptyAddr), pkg, w)
             else let pkg = pkg\<lparr>cp_options := (cp_options pkg)(p := setDefaultOptions (cp_options pkg p))\<rparr>;
                      client = dial (cp_options pkg p);
                      (err, w) = on_server (api_ping client) w
                  in case err of Some e \<Rightarrow> (Ret (Some e), pkg, w)
                     | None \<Rightarrow>
                         let redisClient = \<lparr>r_client = Some client, r_clusterClient = None,
                                            r_trace = ropt_trace po, r_prefix = ropt_prefix po\<rparr>
                         in (Ret None, pkg\<lparr>cp_clients := (ropt_clientName po, redisClient) # cp_clients pkg\<rparr>, w))"

definition GetRedisClient :: "('s, 'v) cache_package \<Rightarrow> string \<Rightarrow> ('s, 'v) Redis option" where
  "GetRedisClient pkg name = map_of (cp_clients pkg) name"

definition GetRedisClusterClient :: "('s, 'v) cache_package \<Rightarrow> string \<Rightarrow> ('s, 'v) Redis option" where
  "GetRedisClusterClient pkg name = map_of (cp_clients pkg) name"

definition GetRedisClientOrigin :: "('s, 'v) Redis \<Rightarrow> ('s, 'v) redis_api option" where
  "GetRedisClientOrigin r = r_client r"

text \<open>Every client of the registry is a single one.\<close>

definition single_clients :: "('s, 'v) cache_package \<Rightarrow> bool" where
  "single_clients pkg \<longleftrightarrow> (\<forall>(name, r) \<in> set (cp_clients pkg). r_client r \<noteq> None \<and> r_clusterClient r = None)"

lemma NewRedis_single: "single_clients pkg \<Longrightarrow> NewRedis dial opts pkg w = (res, pkg', w') \<Longrightarrow> single_clients pkg'"
  by (auto simp: NewRedis_def single_clients_def Let_def split: if_splits option.splits prod.splits)

lemma registered_single:
  "single_clients pkg \<Longrightarrow> GetRedisClient pkg name = Some r \<Longrightarrow> r_client r \<noteq> None \<and> r_clusterClient r = None"
  by (auto simp: GetRedisClient_def single_clients_def dest: map_of_SomeD)

text \<open>A failed construction registers nothing; a successful one replaces the client of its name.\<close>

lemma NewRedis_registry:
  assumes "NewRedis dial opts pkg w = (res, pkg', w')" and "po = fold (\<lambda>f. f) opts defaultRedisOptions"
  shows "GetRedisClient pkg' name =
    (if res = Ret None \<and> name = ropt_clientName po
     then Some \<lparr>r_client = Some (dial (cp_options pkg' (the (ropt_opt po)))), r_clusterClient = None,
                r_trace = ropt_trace po, r_prefix = ropt_prefix po\<rparr>
     else GetRedisClient pkg name)"
  using assms by (auto simp: NewRedis_def GetRedisClient_def Let_def split: if_splits option.splits prod.splits)

subsection \<open>Histories of commands\<close>

text \<open>The commands with a key as data, with the reply each gives.\<close>

datatype 'v command =
    CSet string 'v duration | CGet string | CGetStr string | CTTL string | CExpire string duration
  | CExpireAt string instant | CDelete string | CIncr string | CHGet string string | CHSet string "'v list"
  | CHKeys string | CHDel string "string list" | CRPush string "'v list" | CHIncrBy string string int

datatype reply =
    RError "redis_error option" | RAny "string option" | RText string | RTextErr "string \<times> redis_error option"
  | RDur "duration \<times> redis_error option" | RBool "bool \<times> redis_error option"
  | RInt "int \<times> redis_error option" | RTexts "string list \<times> redis_error option"

fun map_outcome :: "('a \<Rightarrow> 'b) \<Rightarrow> 'a outcome \<times> 'w \<Rightarrow> 'b outcome \<times> 'w" where
  "map_outcome f (Ret x, w) = (Ret (f x), w)"
| "map_outcome f (Panic, w) = (Panic, w)"

fun run_command where
  "run_command cost stamp r (CSet k v ttl) w = map_outcome RError (Redis_Set cost stamp r k v ttl w)"
| "run_command cost stamp r (CGet k) w = map_outcome RAny (Redis_Get cost stamp r k w)"
| "run_command cost stamp r (CGetStr k) w = map_outcome RTextErr (Redis_GetStr cost stamp r k w)"
| "run_command cost stamp r (CTTL k) w = map_outcome RDur (Redis_TTL r k w)"
| "run_command cost stamp r (CExpire k d) w = map_outcome RBool (Redis_Expire r k d w)"
| "run_command cost stamp r (CExpireAt k t) w = map_outcome RBool (Redis_ExpireAt r k t w)"
| "run_command cost stamp r (CDelete k) w = map_outcome RError (Redis_Delete cost stamp r k w)"
| "run_command cost stamp r (CIncr k) w = map_outcome RInt (Redis_Incr cost stamp r k w)"
| "run_command cost stamp r (CHGet k f) w = map_outcome RText (Redis_HGet cost stamp r k f w)"
| "run_command cost stamp r (CHSet k vs) w = map_outcome RInt (Redis_HSet cost stamp r k vs w)"
| "run_command cost stamp r (CHKeys k) w = map_outcome RTexts (Redis_HKeys cost stamp r k w)"
| "run_command cost stamp r (CHDel k fs) w = map_outcome RInt (Redis_HDel cost stamp r k fs w)"
| "run_command cost stamp r (CRPush k vs) w = map_outcome RInt (Redis_RPush cost stamp r k vs w)"
| "run_command cost stamp r (CHIncrBy k f n) w = map_outcome RInt (Redis_HIncrBy cost stamp r k f n w)"

text \<open>A history: commands with their durations and time stamps; a panic ends the goroutine.\<close>

fun run_history where
  "run_history r [] w = ([], w)"
| "run_history r ((cost, stamp, c) # hs) w =
     (case run_command cost stamp r c w of
        (Panic, w) \<Rightarrow> ([Panic], w)
      | (Ret x, w) \<Rightarrow> (let (xs, w) = run_history r hs w in (Ret x # xs, w)))"


text \<open>What a command reads and changes besides the record of slow commands.\<close>

definition same_view :: "('s, 'v) cache_world \<Rightarrow> ('s, 'v) cache_world \<Rightarrow> bool" where
  "same_view w w' \<longleftrightarrow> w_srv w = w_srv w' \<and> w_out w = w_out w'"

lemma trace_defer_view [simp]:
  "w_srv (trace_defer r cmd key own cost stamp w) = w_srv w"
  "w_out (trace_defer r cmd key own cost stamp w) = w_out w"
  by (simp_all add: trace_defer_def Let_def split: option.split)

lemma on_server_simps [simp]:
  "w_traces (snd (on_server f w)) = w_traces w" "w_log (snd (on_server f w)) = w_log w"
  "w_out (snd (on_server f w)) = w_out w"
  by (simp_all add: on_server_def split: prod.split)

lemmas command_defs = Redis_Set_def Redis_Get_def Redis_GetStr_def Redis_TTL_def Redis_Expire_def Redis_ExpireAt_def
  Redis_Delete_def int_command_def Redis_Incr_def Redis_HSet_def Redis_HDel_def Redis_RPush_def Redis_HIncrBy_def
  Redis_HGet_def Redis_HKeys_def

lemma backend_trace [simp]: "backend (r\<lparr>r_trace := t\<rparr>) = backend r" "full_key (r\<lparr>r_trace := t\<rparr>) = full_key r"
  by (simp_all add: backend_def full_key_def fun_eq_iff cong: option.case_cong)

lemma command_transparent:
  assumes "same_view w w'"
  shows "fst (run_command cost stamp (r\<lparr>r_trace := t\<rparr>) c w') = fst (run_command cost stamp r c w) \<and>
    same_view (snd (run_command cost stamp r c w)) (snd (run_command cost stamp (r\<lparr>r_trace := t\<rparr>) c w'))"
  using assms
  by (cases c; cases "backend r")
     (auto simp: command_defs Let_def on_server_def same_view_def split: prod.split)

lemma history_transparent:
  "same_view w w' \<Longrightarrow>
   fst (run_history (r\<lparr>r_trace := t\<rparr>) hs w') = fst (run_history r hs w) \<and>
   same_view (snd (run_history r hs w)) (snd (run_history (r\<lparr>r_trace := t\<rparr>) hs w'))"
proof (induction r hs w arbitrary: w' rule: run_history.induct)
  case (2 r cost stamp c hs w)
  obtain x v x' v' where e: "run_command cost stamp r c w = (x, v)" "run_command cost stamp (r\<lparr>r_trace := t\<rparr>) c w' = (x', v')"
    by fastforce
  with command_transparent [OF 2(2), where cost = cost and stamp = stamp and r = r and t = t and c = c] have s: "x' = x" "same_view v v'" by simp_all
  show ?case
  proof (cases x)
    case (Ret y)
    have "fst (run_history (r\<lparr>r_trace := t\<rparr>) hs v') = fst (run_history r hs v) \<and>
      same_view (snd (run_history r hs v)) (snd (run_history (r\<lparr>r_trace := t\<rparr>) hs v'))"
      by (rule 2(1) [OF e(1) [symmetric] Ret s(2)])
    with e s Ret show ?thesis by (auto split: prod.split)
  qed (use e s in simp)
qed simp

subsection \<open>The log of slow commands\<close>

fun command_key :: "'v command \<Rightarrow> string" where
  "command_key (CSet k v ttl) = k" | "command_key (CGet k) = k" | "command_key (CGetStr k) = k"
| "command_key (CTTL k) = k" | "command_key (CExpire k d) = k" | "command_key (CExpireAt k t) = k"
| "command_key (CDelete k) = k" | "command_key (CIncr k) = k" | "command_key (CHGet k f) = k"
| "command_key (CHSet k vs) = k" | "command_key (CHKeys k) = k" | "command_key (CHDel k fs) = k"
| "command_key (CRPush k vs) = k" | "command_key (CHIncrBy k f n) = k"

text \<open>The name a command has in the log; the commands on the time to live leave no record.\<close>

fun traced_name :: "'v command \<Rightarrow> string option" where
  "traced_name (CSet k v ttl) = Some ''set''" | "traced_name (CGet k) = Some ''get''" | "traced_name (CGetStr k) = Some ''get''"
| "traced_name (CTTL k) = None" | "traced_name (CExpire k d) = None" | "traced_name (CExpireAt k t) = None"
| "traced_name (CDelete k) = Some ''del''" | "traced_name (CIncr k) = Some ''Incr''" | "traced_name (CHGet k f) = Some ''HGet''"
| "traced_name (CHSet k vs) = Some ''HSet''" | "traced_name (CHKeys k) = Some ''HKeys''" | "traced_name (CHDel k fs) = Some ''HDel''"
| "traced_name (CRPush k vs) = Some ''RPush''" | "traced_name (CHIncrBy k f n) = Some ''RPush''"

text \<open>The records a command must leave: their command, key and duration.\<close>

definition expected_record ::
  "('s, 'v) Redis \<Rightarrow> 'v Cache \<Rightarrow> int \<times> string \<times> 'v command \<Rightarrow> (string \<times> string \<times> string \<times> int) list" where
  "expected_record r t h =
     (case h of (cost, stamp, c) \<Rightarrow>
        case traced_name c of
          Some cmd \<Rightarrow>
            if command_key c \<noteq> '''' \<and> tc_HasLogger t \<and> (tc_AlwaysTrace t \<or> tc_SlowLoggerMillisecond t \<le> cost)
            then [(cmd, full_key r (command_key c), stamp, cost)] else []
        | None \<Rightarrow> [])"

definition logged :: "'v Cache \<Rightarrow> string \<times> string \<times> string \<times> int" where
  "logged t = (tc_CMD t, tc_Key t, tc_TraceTime t, tc_CostMillisecond t)"

text \<open>The settings of a trace record, which no command changes.\<close>

definition settings :: "'v Cache \<Rightarrow> bool \<times> bool \<times> int" where
  "settings t = (tc_HasLogger t, tc_AlwaysTrace t, tc_SlowLoggerMillisecond t)"

lemma expected_record_settings: "settings t = settings t' \<Longrightarrow> expected_record r t = expected_record r t'"
  by (auto simp: expected_record_def settings_def fun_eq_iff split: option.split)

lemma trace_defer_log:
  assumes "r_trace r = Some p"
    and "\<And>t. settings (own t) = settings t" and "\<And>t. logged (own t) = logged t"
  shows "map logged (w_log (trace_defer r cmd key own cost stamp w)) = map logged (w_log w) @
      (if tc_HasLogger (w_traces w p) \<and> (tc_AlwaysTrace (w_traces w p) \<or> tc_SlowLoggerMillisecond (w_traces w p) \<le> cost)
       then [(cmd, key, stamp, cost)] else []) \<and>
    settings (w_traces (trace_defer r cmd key own cost stamp w) p) = settings (w_traces w p)"
  using assms by (auto simp: trace_defer_def Let_def) (simp_all add: logged_def settings_def)


lemma command_log:
  assumes "r_trace r = Some p" and "run_command cost stamp r c w = (Ret x, w')"
  shows "map logged (w_log w') = map logged (w_log w) @ expected_record r (w_traces w p) (cost, stamp, c) \<and>
    settings (w_traces w' p) = settings (w_traces w p)"
proof (cases "backend r")
  case None
  with assms(2) show ?thesis
    by (cases c) (auto simp: command_defs Let_def expected_record_def settings_def split: if_splits)
next
  case (Some b)
  note log = trace_defer_log [OF assms(1)]
  have own: "settings (set_value v t) = settings t" "logged (set_value v t) = logged t"
    "settings (t\<lparr>tc_TTL := d\<rparr>) = settings t" "logged (t\<lparr>tc_TTL := d\<rparr>) = logged t" for v t d
    by (simp_all add: settings_def logged_def)
  show ?thesis
    using assms(2) Some
    by (cases c)
       (simp_all add: command_defs Let_def expected_record_def on_server_def split: if_splits prod.splits,
        auto simp: log own)
qed

lemma history_log:
  assumes "r_trace r = Some p" and "run_history r hs w = (map Ret xs, w')"
  shows "map logged (w_log w') = map logged (w_log w) @ concat (map (expected_record r (w_traces w p)) hs)"
  using assms
proof (induction r hs w arbitrary: xs w' rule: run_history.induct)
  case (1 r w)
  then show ?case by simp
next
  case (2 r cost stamp c hs w)
  obtain x v where e: "run_command cost stamp r c w = (x, v)" by fastforce
  with "2.prems"(2) obtain y ys u where x: "x = Ret y" and h: "run_history r hs v = (map Ret ys, u)" and w: "w' = u"
    by (cases x; cases xs) (auto split: prod.splits)
  have l: "map logged (w_log v) = map logged (w_log w) @ expected_record r (w_traces w p) (cost, stamp, c)"
    and s: "settings (w_traces v p) = settings (w_traces w p)"
    using command_log [OF "2.prems"(1) e [unfolded x]] by simp_all
  from "2.IH" [OF e [symmetric] x "2.prems"(1) h] l s show ?case
    using expected_record_settings [OF s, of r] by (simp add: w)
qed

text \<open>
  Tracing does not change what the commands do: over every history of commands, a client with a trace record and
  one without give the same replies and leave the same data on the server, and of the commands with a key exactly the
  slow ones (all of them under \<^verbatim>\<open>AlwaysTrace\<close>) are logged, in order, with their full key and duration.
\<close>

theorem tracing_is_transparent:
  assumes "r_trace r = Some p" and "run_history r hs w = (map Ret xs, w')" and "w_log w = []"
    and "run_history (r\<lparr>r_trace := None\<rparr>) hs w = (ys, u)"
  shows "ys = map Ret xs \<and> w_srv u = w_srv w' \<and>
    map logged (w_log w') = concat (map (expected_record r (w_traces w p)) hs)"
  using assms history_transparent [of w w None r hs] history_log [OF assms(1, 2)]
  by (simp add: same_view_def)

text \<open>A server of texts in memory, for examples.\<close>

definition memory_api :: "((string \<times> string) list, string) redis_api" where
  "memory_api = \<lparr>
     api_set = (\<lambda>k v d s. (None, (k, v) # s)),
     api_get = (\<lambda>k s. (case map_of s k of None \<Rightarrow> ('''', Some RedisNil) | Some v \<Rightarrow> (v, None), s)),
     api_ttl = (\<lambda>k s. ((0, None), s)), api_expire = (\<lambda>k d s. ((True, None), s)),
     api_expire_at = (\<lambda>k t s. ((True, None), s)), api_del = (\<lambda>k s. ((1, None), filter (\<lambda>e. fst e \<noteq> k) s)),
     api_incr = (\<lambda>k s. ((1, None), s)), api_hget = (\<lambda>k f s. (('''', Some RedisNil), s)),
     api_hset = (\<lambda>k vs s. ((1, None), s)), api_hkeys = (\<lambda>k s. (([], None), s)),
     api_hdel = (\<lambda>k fs s. ((0, None), s)), api_rpush = (\<lambda>k vs s. ((1, None), s)),
     api_hincrby = (\<lambda>k f n s. ((n, None), s)), api_publish = (\<lambda>c v s. ((1, None), s)),
     api_receive = (\<lambda>c s. (Inl c, s)), api_info = (\<lambda>s. ('''', s)),
     api_ping = (\<lambda>s. (None, s)), api_close = (\<lambda>s. (None, s))\<rparr>"

definition demo_client :: "string \<Rightarrow> ((string \<times> string) list, string) Redis" where
  "demo_client p = \<lparr>r_client = Some memory_api, r_clusterClient = None, r_trace = Some 0, r_prefix = p\<rparr>"

definition demo_world :: "((string \<times> string) list, string) cache_world" where
  "demo_world = \<lparr>w_srv = [], w_traces = (\<lambda>_. \<lparr>tc_Name = '''', tc_TraceTime = '''', tc_CMD = '''', tc_Key = '''',
     tc_Value = None, tc_TTL = Fin 0, tc_CostMillisecond = 0, tc_SlowLoggerMillisecond = 100, tc_HasLogger = True,
     tc_AlwaysTrace = False\<rparr>), w_log = [], w_out = []\<rparr>"

lemmas demo_defs = demo_client_def demo_world_def memory_api_def

lemma tracing_is_transparent_witness:
  "map logged (w_log (snd (run_history (demo_client ''p'')
     [(5, ''t1'', CGet ''a''), (100, ''t2'', CHIncrBy ''a'' ''f'' 1)] demo_world))) = [(''RPush'', ''p:a'', ''t2'', 100)]"
proof -
  let ?r = "demo_client ''p''"
  let ?hs = "[(5, ''t1'', CGet ''a''), (100, ''t2'', CHIncrBy ''a'' ''f'' 1)]"
  have "fst (run_history ?r ?hs demo_world) = map Ret [RAny (Some ''''), RInt (1, None)]"
    by (simp add: demo_defs command_defs backend_def on_server_def Let_def)
  then have "run_history ?r ?hs demo_world = (map Ret [RAny (Some ''''), RInt (1, None)], snd (run_history ?r ?hs demo_world))"
    by (metis prod.collapse)
  from tracing_is_transparent [OF _ this _ prod.collapse [symmetric], of 0] show ?thesis
    by (simp add: demo_defs expected_record_def full_key_def)
qed

text \<open>
  A record keeps what earlier commands put in it: a logged read carries the time to live of the last logged \<^verbatim>\<open>Set\<close>.
\<close>

lemma stale_ttl:
  assumes "backend r = Some b" and "r_trace r = Some p" and "k \<noteq> ''''" and "l \<noteq> ''''"
    and "tc_HasLogger (w_traces w p)" and "tc_AlwaysTrace (w_traces w p)"
  shows "tc_TTL (last (w_log (snd (Redis_GetStr cost' stamp' r l (snd (Redis_Set cost stamp r k v ttl w)))))) = minutes_of ttl"
proof -
  obtain e s where "api_set b (full_key r k) v ttl (w_srv w) = (e, s)" by fastforce
  moreover obtain x e' s' where "api_get b (full_key r l) s = ((x, e'), s')" by (metis prod.collapse)
  ultimately show ?thesis
    using assms by (simp add: Redis_Set_def Redis_GetStr_def Let_def on_server_def trace_defer_def)
qed

subsection \<open>Name spaces\<close>

lemma full_key_inj:
  assumes "CHR '':'' \<notin> set (r_prefix r)" and "CHR '':'' \<notin> set (r_prefix q)"
  shows "full_key r k = full_key q l \<longleftrightarrow> r_prefix r = r_prefix q \<and> k = l"
proof
  assume "full_key r k = full_key q l"
  then have e: "r_prefix r @ CHR '':'' # k = r_prefix q @ CHR '':'' # l" by (simp add: full_key_def)
  have "takeWhile (\<lambda>x. x \<noteq> CHR '':'') (r_prefix r @ CHR '':'' # k) = r_prefix r"
    "takeWhile (\<lambda>x. x \<noteq> CHR '':'') (r_prefix q @ CHR '':'' # l) = r_prefix q"
    using assms by (simp_all add: takeWhile_sep)
  with e show "r_prefix r = r_prefix q \<and> k = l" by simp
qed (simp add: full_key_def)

text \<open>
  The documented behaviour of Redis the separation of name spaces rests on: a command changes the text stored under
  its own key only.
\<close>

definition leaves_others :: "('s, 'v) redis_api \<Rightarrow> string \<Rightarrow> ('s \<Rightarrow> 'r \<times> 's) \<Rightarrow> bool" where
  "leaves_others c k f \<longleftrightarrow> (\<forall>s k'. k' \<noteq> k \<longrightarrow> fst (api_get c k' (snd (f s))) = fst (api_get c k' s))"

definition keyed_api :: "('s, 'v) redis_api \<Rightarrow> bool" where
  "keyed_api c \<longleftrightarrow> (\<forall>k. (\<forall>v d. leaves_others c k (api_set c k v d)) \<and> leaves_others c k (api_get c k) \<and>
     leaves_others c k (api_ttl c k) \<and> (\<forall>d. leaves_others c k (api_expire c k d)) \<and>
     (\<forall>t. leaves_others c k (api_expire_at c k t)) \<and> leaves_others c k (api_del c k) \<and>
     leaves_others c k (api_incr c k) \<and> (\<forall>f. leaves_others c k (api_hget c k f)) \<and>
     (\<forall>vs. leaves_others c k (api_hset c k vs)) \<and> leaves_others c k (api_hkeys c k) \<and>
     (\<forall>fs. leaves_others c k (api_hdel c k fs)) \<and> (\<forall>vs. leaves_others c k (api_rpush c k vs)) \<and>
     (\<forall>f n. leaves_others c k (api_hincrby c k f n)))"

lemma leaves_othersD:
  "leaves_others c k f \<Longrightarrow> k' \<noteq> k \<Longrightarrow> f s = (x, s') \<Longrightarrow> fst (api_get c k' s') = fst (api_get c k' s)"
  unfolding leaves_others_def by (metis snd_conv)

lemma keyed_calls:
  assumes "keyed_api b"
  shows "leaves_others b k (api_set b k v d)" "leaves_others b k (api_get b k)" "leaves_others b k (api_ttl b k)"
    "leaves_others b k (api_expire b k d)" "leaves_others b k (api_expire_at b k t)" "leaves_others b k (api_del b k)"
    "leaves_others b k (api_incr b k)" "leaves_others b k (api_hget b k g)" "leaves_others b k (api_hset b k vs)"
    "leaves_others b k (api_hkeys b k)" "leaves_others b k (api_hdel b k fs)" "leaves_others b k (api_rpush b k vs)"
    "leaves_others b k (api_hincrby b k g n)"
  using assms by (simp_all add: keyed_api_def)

lemma command_leaves_others:
  assumes "keyed_api b" and "backend r = Some b" and "k \<noteq> full_key r (command_key c)"
  shows "fst (api_get b k (w_srv (snd (run_command cost stamp r c w)))) = fst (api_get b k (w_srv w))"
  using assms(2, 3)
  by (cases c)
     (simp_all add: command_defs Let_def on_server_def split: prod.split,
      auto dest: keyed_calls [OF assms(1), THEN leaves_othersD, rotated])

lemma history_leaves_others:
  assumes "keyed_api b" and "backend r = Some b" and "\<And>l. k \<noteq> full_key r l"
  shows "fst (api_get b k (w_srv (snd (run_history r hs w)))) = fst (api_get b k (w_srv w))"
  using assms(2, 3)
proof (induction r hs w rule: run_history.induct)
  case (2 r cost stamp c hs w)
  obtain x v where e: "run_command cost stamp r c w = (x, v)" by fastforce
  have "fst (api_get b k (w_srv v)) = fst (api_get b k (w_srv w))"
    using command_leaves_others [OF assms(1) 2(2) 2(3), of cost stamp c w] by (simp add: e)
  with 2 e show ?case by (cases x) (auto split: prod.split)
qed simp


lemma memory_keyed: "keyed_api memory_api"
proof -
  have "map_of (filter (\<lambda>e. fst e \<noteq> k) s) k' = map_of s k'" if "k' \<noteq> k" for k k' :: string and s :: "(string \<times> string) list"
    using that by (induction s) auto
  then show ?thesis by (auto simp: keyed_api_def leaves_others_def memory_api_def)
qed


subsection \<open>Subscriptions\<close>

text \<open>The packages that constructions reach from the empty registry.\<close>

inductive registry_reach ::
  "(redis_Options \<Rightarrow> ('s, 'v) redis_api) \<Rightarrow> ('s, 'v) cache_package \<Rightarrow> bool" for dial where
  registry_start: "registry_reach dial \<lparr>cp_clients = [], cp_options = opts\<rparr>"
| registry_new: "registry_reach dial pkg \<Longrightarrow> NewRedis dial opts pkg w = (res, pkg', w') \<Longrightarrow> registry_reach dial pkg'"

lemma reach_NewRedis: "registry_reach dial pkg \<Longrightarrow> registry_reach dial (fst (snd (NewRedis dial opts pkg w)))"
  by (cases "NewRedis dial opts pkg w") (auto intro: registry_new)

lemma reach_single: "registry_reach dial pkg \<Longrightarrow> single_clients pkg"
proof (induction rule: registry_reach.induct)
  case (registry_new pkg opts w res pkg' w')
  then show ?case using NewRedis_single by blast
qed (simp add: single_clients_def)

text \<open>
  A subscription of any client of the registry panics as soon as its first message has been handed over: the
  loop over the messages of the single client goes on with the cluster client, which is nil.
\<close>

theorem subscription_panics:
  assumes "registry_reach dial pkg" and "GetRedisClient pkg name = Some r" and "r_client r = Some c"
    and "fst (api_receive c channel (w_srv w)) = Inl m"
  shows "\<exists>w'. Redis_Subscribe cost stamp r channel w = ([m], Panic, w')"
  using registered_single [OF reach_single [OF assms(1)] assms(2)] assms(3, 4)
  by (cases "api_receive c channel (w_srv w)")
     (simp add: Redis_Subscribe_def Let_def subscribe_once_def on_server_def)

definition demo_package :: "((string \<times> string) list, string) cache_package" where
  "demo_package = \<lparr>cp_clients = [], cp_options = (\<lambda>_. \<lparr>ro_Addr = ''h:6379'', ro_DialTimeout = 0, ro_ReadTimeout = 0,
     ro_WriteTimeout = 0, ro_PoolTimeout = 0, ro_IdleTimeout = 0\<rparr>)\<rparr>"

lemma subscription_panics_witness:
  "fst (snd (Redis_Subscribe 1 ''t'' ((demo_client ''p'')\<lparr>r_trace := None\<rparr>) ''news'' demo_world)) = Panic"
proof -
  define opts where "opts = [WithClientName ''c'', WithOptions (Some 0), WithPrefix ''p'']"
  define pkg where "pkg = fst (snd (NewRedis (\<lambda>_. memory_api) opts demo_package demo_world))"
  have "registry_reach (\<lambda>_. memory_api) demo_package" unfolding demo_package_def by (rule registry_start)
  then have reach: "registry_reach (\<lambda>_. memory_api) pkg" unfolding pkg_def by (rule reach_NewRedis)
  have "GetRedisClient pkg ''c'' = Some ((demo_client ''p'')\<lparr>r_trace := None\<rparr>)"
    by (simp add: pkg_def opts_def NewRedis_def demo_package_def WithClientName_def WithOptions_def WithPrefix_def
        defaultRedisOptions_def Let_def on_server_def GetRedisClient_def demo_client_def memory_api_def)
  from subscription_panics [OF reach this, of memory_api "''news''" demo_world "''news''" 1 "''t''"] show ?thesis
    by (auto simp: demo_client_def memory_api_def)
qed

end
