(* ===== verification/WorkerPool.thy ===== *)
theory WorkerPool
  imports GoBase "HOL-Library.Multiset"
begin

text \<open>
  The worker pools of \<^verbatim>\<open>pkg/worker_pool/worker_pool.go\<close> as step relations over goroutines.  The first pool
  has a dispatcher that hands each job to a worker whose own channel is waiting in the queue of workers; jobs are
  numbers, and ghost fields record the submitted, started and finished ones.  The second is a buffered channel read by
  a fixed number of goroutines, with jobs that may wait for other jobs of the pool.  A job that panics ends the process
  and has no step.
\<close>

subsection \<open>The pool with a dispatcher\<close>

text \<open>
  A worker is about to register its channel, waits for a job (or for \<^verbatim>\<open>Quit\<close>), runs a job, or has returned.
  The dispatcher reads a job, waits for a worker, or sends the job over the channel of that worker.
\<close>

datatype worker_state = Register | Listening | Busy nat | Stopped

datatype dispatcher = ReadJob | TakeWorker nat | GiveJob nat nat

record wpool =
  wp_workerLen :: nat
  wp_workers :: "worker_state list"
  wp_WorkerQueue :: "nat list"
  wp_disp :: dispatcher
  wp_senders :: "nat list"
  wp_submitted :: "nat list"
  wp_started :: "nat list"
  wp_done :: "nat multiset"

definition NewWorkerPool_Run :: "nat \<Rightarrow> wpool" where
  \<comment> \<open>a new pool after \<^verbatim>\<open>Run\<close>: every worker and the dispatcher have been started\<close>
  "NewWorkerPool_Run n = \<lparr>wp_workerLen = n, wp_workers = replicate n Register, wp_WorkerQueue = [], wp_disp = ReadJob,
     wp_senders = [], wp_submitted = [], wp_started = [], wp_done = {#}\<rparr>"

datatype pool_event = Submit nat | Quit nat | Tau

text \<open>
  The job channel is unbuffered: a call of \<^verbatim>\<open>Submit\<close> waits among the senders until the dispatcher reads.  The queue
  of workers holds as many channels as there are workers.
\<close>

inductive pool_step :: "wpool \<Rightarrow> pool_event \<Rightarrow> wpool \<Rightarrow> bool" where
  submit: "pool_step s (Submit j) (s\<lparr>wp_senders := wp_senders s @ [j], wp_submitted := wp_submitted s @ [j]\<rparr>)"
| register: "k < length (wp_workers s) \<Longrightarrow> wp_workers s ! k = Register \<Longrightarrow> length (wp_WorkerQueue s) < wp_workerLen s \<Longrightarrow>
    pool_step s Tau (s\<lparr>wp_workers := (wp_workers s)[k := Listening], wp_WorkerQueue := wp_WorkerQueue s @ [k]\<rparr>)"
| read: "wp_disp s = ReadJob \<Longrightarrow> wp_senders s = j # js \<Longrightarrow>
    pool_step s Tau (s\<lparr>wp_disp := TakeWorker j, wp_senders := js\<rparr>)"
| take: "wp_disp s = TakeWorker j \<Longrightarrow> wp_WorkerQueue s = k # ks \<Longrightarrow>
    pool_step s Tau (s\<lparr>wp_disp := GiveJob j k, wp_WorkerQueue := ks\<rparr>)"
| give: "wp_disp s = GiveJob j k \<Longrightarrow> wp_workers s ! k = Listening \<Longrightarrow>
    pool_step s Tau (s\<lparr>wp_disp := ReadJob, wp_workers := (wp_workers s)[k := Busy j], wp_started := wp_started s @ [j]\<rparr>)"
| finish: "k < length (wp_workers s) \<Longrightarrow> wp_workers s ! k = Busy j \<Longrightarrow>
    pool_step s Tau (s\<lparr>wp_workers := (wp_workers s)[k := Register], wp_done := add_mset j (wp_done s)\<rparr>)"
| quit: "k < length (wp_workers s) \<Longrightarrow> wp_workers s ! k = Listening \<Longrightarrow>
    pool_step s (Quit k) (s\<lparr>wp_workers := (wp_workers s)[k := Stopped]\<rparr>)"

inductive_cases pool_stepE: "pool_step s e t"

inductive pool_reach :: "nat \<Rightarrow> bool \<Rightarrow> wpool \<Rightarrow> bool" for n quits where
  pool_start: "pool_reach n quits (NewWorkerPool_Run n)"
| pool_move: "pool_reach n quits s \<Longrightarrow> pool_step s e t \<Longrightarrow> (\<And>k. e = Quit k \<Longrightarrow> quits) \<Longrightarrow> pool_reach n quits t"

fun disp_jobs :: "dispatcher \<Rightarrow> nat list" where
  "disp_jobs ReadJob = []"
| "disp_jobs (TakeWorker j) = [j]"
| "disp_jobs (GiveJob j k) = [j]"

fun worker_jobs :: "worker_state \<Rightarrow> nat multiset" where
  "worker_jobs (Busy j) = {#j#}"
| "worker_jobs _ = {#}"

fun called :: "dispatcher \<Rightarrow> nat list" where
  "called (GiveJob j k) = [k]"
| "called _ = []"

text \<open>The channels in the queue and the one the dispatcher holds are distinct, and those of waiting workers.\<close>

definition wp_inv :: "nat \<Rightarrow> wpool \<Rightarrow> bool" where
  "wp_inv n s \<longleftrightarrow> wp_workerLen s = n \<and> length (wp_workers s) = n \<and>
     distinct (called (wp_disp s) @ wp_WorkerQueue s) \<and>
     (\<forall>k \<in> set (called (wp_disp s) @ wp_WorkerQueue s). k < n \<and> wp_workers s ! k \<in> {Listening, Stopped}) \<and>
     (\<forall>k < n. wp_workers s ! k = Listening \<longrightarrow> k \<in> set (called (wp_disp s) @ wp_WorkerQueue s)) \<and>
     wp_submitted s = wp_started s @ disp_jobs (wp_disp s) @ wp_senders s \<and>
     mset (wp_started s) = wp_done s + (\<Sum>\<^sub># (mset (map worker_jobs (wp_workers s))))"

lemma called_waits:
  "wp_inv n s \<Longrightarrow> k \<in> set (called (wp_disp s) @ wp_WorkerQueue s) \<Longrightarrow>
   k < n \<and> (wp_workers s ! k = Listening \<or> wp_workers s ! k = Stopped)"
  unfolding wp_inv_def by blast

lemma sum_jobs_update:
  assumes "k < length ws"
  shows "\<Sum>\<^sub># (mset (map worker_jobs (ws[k := v]))) + worker_jobs (ws ! k) =
    \<Sum>\<^sub># (mset (map worker_jobs ws)) + worker_jobs v"
proof -
  have "mset (map worker_jobs (ws[k := v])) = add_mset (worker_jobs v) (mset (map worker_jobs ws) - {#worker_jobs (ws ! k)#})"
    using assms by (simp add: map_update mset_update)
  moreover have "worker_jobs (ws ! k) \<in># mset (map worker_jobs ws)" using assms by (auto intro!: image_eqI)
  ultimately show ?thesis by (metis (no_types) add.commute insert_DiffM sum_mset.add_mset union_assoc)
qed

lemma wp_inv_start: "wp_inv n (NewWorkerPool_Run n)"
  by (simp add: wp_inv_def NewWorkerPool_Run_def)

lemma wp_inv_step: "pool_step s e t \<Longrightarrow> wp_inv n s \<Longrightarrow> wp_inv n t"
proof (induction rule: pool_step.induct)
  case (register k s)
  then have "k \<notin> set (called (wp_disp s) @ wp_WorkerQueue s)" using called_waits [of n s k] by auto
  with register show ?case
    using sum_jobs_update [of k "wp_workers s" Listening]
    by (auto simp: wp_inv_def nth_list_update)
next
  case (give s j k)
  then show ?case
    using sum_jobs_update [of k "wp_workers s" "Busy j"]
    by (auto simp: wp_inv_def nth_list_update)
next
  case (finish k s j)
  then have "k \<notin> set (called (wp_disp s) @ wp_WorkerQueue s)" using called_waits [of n s k] by auto
  with finish show ?case
    using sum_jobs_update [of k "wp_workers s" Register]
    by (auto simp: wp_inv_def nth_list_update)
next
  case (quit k s)
  then show ?case
    using sum_jobs_update [of k "wp_workers s" Stopped]
    by (auto simp: wp_inv_def nth_list_update)
qed (auto simp: wp_inv_def)

lemma wp_reach_inv: "pool_reach n quits s \<Longrightarrow> wp_inv n s"
  by (induction rule: pool_reach.induct) (auto intro: wp_inv_start wp_inv_step)

text \<open>
  In every interleaving of submitters, dispatcher and workers of the pool, jobs start in the order of their
  submission, none is lost or run twice: the submitted jobs are the started ones followed by the one the dispatcher
  holds and those of the waiting submitters, and each started job is running or done.
\<close>

theorem pool_accounting:
  assumes "pool_reach n quits s"
  shows "wp_submitted s = wp_started s @ disp_jobs (wp_disp s) @ wp_senders s \<and>
    mset (wp_started s) = wp_done s + (\<Sum>\<^sub># (mset (map worker_jobs (wp_workers s)))) \<and>
    length (wp_workers s) = n"
  using wp_reach_inv [OF assms] by (simp add: wp_inv_def)

definition one_job :: wpool where
  "one_job = (NewWorkerPool_Run 1)\<lparr>wp_senders := [7], wp_submitted := [7]\<rparr>"

lemma one_job_reach: "pool_reach 1 quits one_job"
proof -
  have "pool_step (NewWorkerPool_Run 1) (Submit 7) one_job"
    using pool_step.submit [of "NewWorkerPool_Run 1" 7] by (simp add: one_job_def NewWorkerPool_Run_def)
  then show ?thesis by (rule pool_move [OF pool_start]) simp
qed

lemma pool_accounting_witness: "wp_started one_job @ disp_jobs (wp_disp one_job) @ wp_senders one_job = [7]"
  using pool_accounting [OF one_job_reach [of True]] by (simp add: one_job_def)

subsection \<open>Completion\<close>

text \<open>What is left to do: every step of the pool itself lessens it.\<close>

fun worker_work :: "worker_state \<Rightarrow> nat" where
  "worker_work Register = 1"
| "worker_work (Busy j) = 2"
| "worker_work _ = 0"

fun disp_work :: "dispatcher \<Rightarrow> nat" where
  "disp_work ReadJob = 0"
| "disp_work (TakeWorker j) = 4"
| "disp_work (GiveJob j k) = 3"

definition wp_work :: "wpool \<Rightarrow> nat" where
  "wp_work s = 5 * length (wp_senders s) + disp_work (wp_disp s) + sum_list (map worker_work (wp_workers s))"

lemma work_update:
  assumes "k < length ws"
  shows "sum_list (map worker_work (ws[k := v])) + worker_work (ws ! k) = sum_list (map worker_work ws) + worker_work v"
proof -
  have "worker_work (ws ! k) \<le> sum_list (map worker_work ws)"
    using elem_le_sum_list [of k "map worker_work ws"] assms by simp
  then show ?thesis using assms sum_list_update [of k "map worker_work ws" "worker_work v"] by (simp add: map_update)
qed

lemma tau_less: "pool_step s Tau t \<Longrightarrow> wp_inv n s \<Longrightarrow> wp_work t < wp_work s"
proof (erule pool_stepE; clarsimp)
  show "wp_work (s\<lparr>wp_disp := ReadJob, wp_workers := (wp_workers s)[k := Busy j], wp_started := wp_started s @ [j]\<rparr>) < wp_work s"
    if "wp_inv n s" "wp_disp s = GiveJob j k" "wp_workers s ! k = Listening" for j k
    using work_update [of k "wp_workers s" "Busy j"] that by (simp add: wp_work_def wp_inv_def)
  show "wp_work (s\<lparr>wp_workers := (wp_workers s)[k := Listening], wp_WorkerQueue := wp_WorkerQueue s @ [k]\<rparr>) < wp_work s"
    if "k < length (wp_workers s)" "wp_workers s ! k = Register" for k
    using work_update [of k "wp_workers s" Listening] that by (simp add: wp_work_def)
  show "wp_work (s\<lparr>wp_workers := (wp_workers s)[k := Register], wp_done := add_mset j (wp_done s)\<rparr>) < wp_work s"
    if "k < length (wp_workers s)" "wp_workers s ! k = Busy j" for k j
    using work_update [of k "wp_workers s" Register] that by (simp add: wp_work_def)
qed (simp_all add: wp_work_def)

text \<open>Without \<^verbatim>\<open>Quit\<close> no worker returns, and a pool with work left can move.\<close>

lemma no_quit_no_stop: "pool_reach n False s \<Longrightarrow> Stopped \<notin> set (wp_workers s)"
proof (induction rule: pool_reach.induct)
  case (pool_move s e t)
  from pool_move(2) pool_move(3, 4) show ?case
    by (cases rule: pool_step.cases) (auto dest!: set_update_subset_insert [THEN subsetD])
qed (simp add: NewWorkerPool_Run_def)

lemma register_room:
  assumes "wp_inv n s" and "k < n" and "wp_workers s ! k = Register"
  shows "length (wp_WorkerQueue s) < n"
proof -
  have "set (wp_WorkerQueue s) \<subseteq> {..<n} - {k}"
  proof
    fix i assume "i \<in> set (wp_WorkerQueue s)"
    with called_waits [OF assms(1), of i] assms(3) show "i \<in> {..<n} - {k}" by auto
  qed
  then have "card (set (wp_WorkerQueue s)) \<le> card ({..<n} - {k})" by (rule card_mono [rotated]) simp
  then show ?thesis using assms by (auto simp: wp_inv_def distinct_card)
qed

lemma stuck_means_done:
  assumes "wp_inv n s" and "0 < n" and "Stopped \<notin> set (wp_workers s)" and "\<nexists>t. pool_step s Tau t"
  shows "wp_done s = mset (wp_submitted s)"
proof -
  have st: "wp_workers s ! k = Listening" if "k < n" for k
  proof (cases "wp_workers s ! k")
    case Register
    with assms(4) register_room [OF assms(1) that Register] that show ?thesis
      using assms(1) pool_step.register [of k s] by (auto simp: wp_inv_def)
  next
    case (Busy j)
    with assms(1, 4) that show ?thesis using pool_step.finish [of k s j] by (auto simp: wp_inv_def)
  next
    case Stopped
    with assms(1, 3) that show ?thesis by (metis nth_mem wp_inv_def)
  qed
  have jobs: "\<Sum>\<^sub># (mset (map worker_jobs (wp_workers s))) = {#}"
  proof -
    have "worker_jobs v = {#}" if "v \<in> set (wp_workers s)" for v
      using that st assms(1) by (auto simp: in_set_conv_nth wp_inv_def)
    then show ?thesis by (auto simp: sum_mset_0_iff)
  qed
  have disp: "wp_disp s = ReadJob"
  proof (cases "wp_disp s")
    case (TakeWorker j)
    have "0 \<in> set (called (wp_disp s) @ wp_WorkerQueue s)" using st [OF assms(2)] assms(1, 2) unfolding wp_inv_def by blast
    with TakeWorker assms(4) show ?thesis by (cases "wp_WorkerQueue s") (auto dest: pool_step.take)
  next
    case (GiveJob j k)
    with assms(1, 4) st show ?thesis by (auto simp: wp_inv_def dest: pool_step.give)
  qed
  then have "wp_senders s = []" using assms(4) pool_step.read [of s] by (cases "wp_senders s") auto
  with disp jobs assms(1) show ?thesis by (simp add: wp_inv_def)
qed


text \<open>
  C37. A pool with at least one worker completes what it was given: from every reachable state its own steps come to an
  end after a bounded number, however they are chosen, and when they do every submitted job has been done.
\<close>

theorem pool_completes:
  assumes "pool_reach n False s" and "0 < n" and "((\<lambda>a b. pool_step a Tau b) ^^ m) s t"
  shows "m \<le> wp_work s \<and> ((\<nexists>u. pool_step t Tau u) \<longrightarrow> wp_done t = mset (wp_submitted t)) \<and>
    wp_submitted t = wp_submitted s"
proof -
  have "m + wp_work t \<le> wp_work s \<and> pool_reach n False t \<and> wp_submitted t = wp_submitted s"
    using assms(3)
  proof (induction m arbitrary: t)
    case (Suc m)
    then obtain u where u: "((\<lambda>a b. pool_step a Tau b) ^^ m) s u" "pool_step u Tau t" by auto
    from Suc.IH [OF u(1)] have ih: "m + wp_work u \<le> wp_work s" "pool_reach n False u" "wp_submitted u = wp_submitted s" by auto
    have "wp_submitted t = wp_submitted u" using u(2) by (auto elim: pool_stepE)
    moreover have "pool_reach n False t" by (rule pool_move [OF ih(2) u(2)]) simp
    ultimately show ?case using ih tau_less [OF u(2) wp_reach_inv [OF ih(2)]] by simp
  qed (simp add: assms(1))
  then show ?thesis using stuck_means_done [OF wp_reach_inv assms(2) no_quit_no_stop] by auto
qed

lemma pool_completes_witness: "1 \<le> wp_work one_job \<and> wp_work one_job = 6"
proof -
  have "pool_step one_job Tau (one_job\<lparr>wp_disp := TakeWorker 7, wp_senders := []\<rparr>)"
    by (rule pool_step.read) (simp_all add: one_job_def NewWorkerPool_Run_def)
  then have "((\<lambda>a b. pool_step a Tau b) ^^ 1) one_job (one_job\<lparr>wp_disp := TakeWorker 7, wp_senders := []\<rparr>)" by auto
  from pool_completes [OF one_job_reach _ this] show ?thesis
    by (simp add: one_job_def wp_work_def NewWorkerPool_Run_def)
qed

text \<open>
  A worker that is told to quit leaves its channel in the queue.  The dispatcher takes it, sends the next job there and
  waits for ever: from then on no submitted job is started.
\<close>

lemma quit_stalls:
  assumes "wp_disp s = GiveJob j k" and "wp_workers s ! k = Stopped" and "k < length (wp_workers s)" and "pool_step s e t"
  shows "wp_disp t = GiveJob j k \<and> wp_workers t ! k = Stopped \<and> k < length (wp_workers t) \<and> wp_started t = wp_started s"
  using assms(4, 1-3) by (cases rule: pool_step.cases) (auto simp: nth_list_update)


subsection \<open>The pool with a buffered channel\<close>

text \<open>
  A job of this pool may hand further jobs to it with \<^verbatim>\<open>SubmitAndWait\<close>: it is the list of those.  An entry of
  the channel is a job with the worker that waits for its end, if one does; a worker is idle, runs the rest of a job,
  or waits for the end of a job it has handed over.  A full channel makes the sender wait.
\<close>

datatype njob = NJob "njob list"

datatype nworker = NIdle | NRun "njob list" "nat option" | NWait "njob list" "nat option"

record npool =
  np_maxWorkers :: nat
  np_jobs :: "(njob \<times> nat option) list"
  np_workers :: "nworker list"

definition newWorkerPool :: "nat \<Rightarrow> npool" where
  "newWorkerPool n = \<lparr>np_maxWorkers = n, np_jobs = [], np_workers = replicate n NIdle\<rparr>"

definition GetNLPWorkerPool :: "nat \<Rightarrow> npool option \<Rightarrow> npool" where
  \<comment> \<open>only the first call chooses the number of workers\<close>
  "GetNLPWorkerPool n pool = (case pool of Some p \<Rightarrow> p | None \<Rightarrow> newWorkerPool n)"

inductive npool_step :: "npool \<Rightarrow> npool \<Rightarrow> bool" where
  nsubmit: "length (np_jobs s) < np_maxWorkers s \<Longrightarrow> npool_step s (s\<lparr>np_jobs := np_jobs s @ [(j, None)]\<rparr>)"
| ntake: "k < length (np_workers s) \<Longrightarrow> np_workers s ! k = NIdle \<Longrightarrow> np_jobs s = (NJob js, c) # rest \<Longrightarrow>
    npool_step s (s\<lparr>np_jobs := rest, np_workers := (np_workers s)[k := NRun js c]\<rparr>)"
| nnest: "k < length (np_workers s) \<Longrightarrow> np_workers s ! k = NRun (j # js) c \<Longrightarrow> length (np_jobs s) < np_maxWorkers s \<Longrightarrow>
    npool_step s (s\<lparr>np_jobs := np_jobs s @ [(j, Some k)], np_workers := (np_workers s)[k := NWait js c]\<rparr>)"
| nfinish: "k < length (np_workers s) \<Longrightarrow> np_workers s ! k = NRun [] None \<Longrightarrow>
    npool_step s (s\<lparr>np_workers := (np_workers s)[k := NIdle]\<rparr>)"
| ntell: "k < length (np_workers s) \<Longrightarrow> np_workers s ! k = NRun [] (Some l) \<Longrightarrow> l < length (np_workers s) \<Longrightarrow>
    np_workers s ! l = NWait js c \<Longrightarrow>
    npool_step s (s\<lparr>np_workers := (np_workers s)[k := NIdle, l := NRun js c]\<rparr>)"

inductive_cases npool_stepE: "npool_step s t"

text \<open>The states on the way to the deadlock: all workers have a job, then each hands over another one.\<close>

definition nesting :: njob where
  "nesting = NJob [NJob []]"

definition all_started :: "nat \<Rightarrow> nat \<Rightarrow> npool" where
  "all_started n k = \<lparr>np_maxWorkers = n, np_jobs = [],
     np_workers = replicate k (NRun [NJob []] None) @ replicate (n - k) NIdle\<rparr>"

definition all_waiting :: "nat \<Rightarrow> nat \<Rightarrow> npool" where
  "all_waiting n k = \<lparr>np_maxWorkers = n, np_jobs = map (\<lambda>i. (NJob [], Some i)) [0..<k],
     np_workers = replicate k (NWait [] None) @ replicate (n - k) (NRun [NJob []] None)\<rparr>"

lemma replicate_next:
  "k < n \<Longrightarrow> (replicate k x @ replicate (n - k) y)[k := x] = replicate (Suc k) x @ replicate (n - Suc k) y"
  by (simp add: list_update_append Suc_diff_Suc flip: replicate_append_same) (metis Suc_diff_Suc list_update_code(2) replicate_Suc)

lemma start_next: "k < n \<Longrightarrow> npool_step\<^sup>*\<^sup>* (all_started n k) (all_started n (Suc k))"
proof -
  assume k: "k < n"
  let ?m = "(all_started n k)\<lparr>np_jobs := [(nesting, None)]\<rparr>"
  have "npool_step (all_started n k) ?m"
    using npool_step.nsubmit [of "all_started n k" nesting] k by (simp add: all_started_def)
  moreover have "npool_step ?m (all_started n (Suc k))"
    using npool_step.ntake [of k ?m "[NJob []]" None "[]"] k
    by (simp add: all_started_def nesting_def nth_append replicate_next del: replicate_Suc)
  ultimately show ?thesis by (meson converse_rtranclp_into_rtranclp r_into_rtranclp)
qed

lemma wait_next: "k < n \<Longrightarrow> npool_step (all_waiting n k) (all_waiting n (Suc k))"
  using npool_step.nnest [of k "all_waiting n k" "NJob []" "[]" None]
  by (simp add: all_waiting_def nth_append replicate_next del: replicate_Suc)

text \<open>
  C38. Jobs that wait for jobs of the same pool can block it for ever: whatever its size, if each worker runs a job
  that hands over another one with \<^verbatim>\<open>SubmitAndWait\<close>, a state can be reached in which every worker waits, the
  channel is full, and nothing can happen any more, not even another call of \<^verbatim>\<open>Submit\<close>.
\<close>

theorem nested_jobs_deadlock:
  "\<exists>t. npool_step\<^sup>*\<^sup>* (GetNLPWorkerPool n None) t \<and> length (np_jobs t) = n \<and>
    np_workers t = replicate n (NWait [] None) \<and> (\<nexists>u. npool_step t u)"
proof (intro exI conjI)
  have "npool_step\<^sup>*\<^sup>* (all_started n 0) (all_started n k)" if "k \<le> n" for k
    using that
  proof (induction k)
    case (Suc k)
    then show ?case using start_next [of k n] by (auto intro: rtranclp_trans)
  qed simp
  moreover have "npool_step\<^sup>*\<^sup>* (all_waiting n 0) (all_waiting n k)" if "k \<le> n" for k
    using that
  proof (induction k)
    case (Suc k)
    then show ?case using wait_next [of k n] by (auto intro: rtranclp.rtrancl_into_rtrancl)
  qed simp
  moreover have "all_started n n = all_waiting n 0" "GetNLPWorkerPool n None = all_started n 0"
    by (simp_all add: all_started_def all_waiting_def GetNLPWorkerPool_def newWorkerPool_def)
  ultimately show "npool_step\<^sup>*\<^sup>* (GetNLPWorkerPool n None) (all_waiting n n)" by (metis order_refl rtranclp_trans)
  show "length (np_jobs (all_waiting n n)) = n" "np_workers (all_waiting n n) = replicate n (NWait [] None)"
    by (simp_all add: all_waiting_def)
  show "\<nexists>u. npool_step (all_waiting n n) u" by (auto elim!: npool_stepE simp: all_waiting_def)
qed

end
