(* ===== verification/Timex.thy ===== *)
theory Timex
  imports Util GoText
begin

text \<open>
  The time helpers of \<^verbatim>\<open>pkg/timex/time.go\<close>.  Instants are nanoseconds since the Unix epoch, the local zone is
  a fixed offset \<open>z\<close> in seconds (no daylight saving).  The calendar is that of Go's \<^verbatim>\<open>time\<close> package: days since
  1 January of the year 1 are cut into cycles of 400, 100, 4 years and years.  \<^verbatim>\<open>time.ParseInLocation\<close> is an argument.
\<close>

subsection \<open>The calendar\<close>

definition is_leap :: "int \<Rightarrow> bool" where
  "is_leap y \<longleftrightarrow> y mod 4 = 0 \<and> (y mod 100 \<noteq> 0 \<or> y mod 400 = 0)"

definition year_day :: "int \<Rightarrow> int \<times> int" where
  \<comment> \<open>the year and the day of the year (from 0) of the n-th day\<close>
  "year_day n =
     (let a = n div 146097; d = n mod 146097;
          b = min 3 (d div 36524); d = d - 36524 * b;
          c = d div 1461; d = d mod 1461;
          e = min 3 (d div 365)
      in (400 * a + 100 * b + 4 * c + e + 1, d - 365 * e))"

definition days_before :: "int \<Rightarrow> int" where
  \<comment> \<open>the days before 1 January of a year\<close>
  "days_before y = 365 * (y - 1) + (y - 1) div 4 - (y - 1) div 100 + (y - 1) div 400"

definition year_length :: "int \<Rightarrow> int" where
  "year_length y = (if is_leap y then 366 else 365)"

definition month_lengths :: "int \<Rightarrow> int list" where
  "month_lengths y = [31, if is_leap y then 29 else 28, 31, 30, 31, 30, 31, 31, 30, 31, 30, 31]"

fun month_day :: "int list \<Rightarrow> int \<Rightarrow> nat \<times> int" where
  "month_day [] d = (0, d)"
| "month_day (l # ls) d = (if d < l then (0, d) else let (m, d) = month_day ls (d - l) in (Suc m, d))"

definition civil :: "int \<Rightarrow> int \<times> nat \<times> int" where
  \<comment> \<open>year, month and day of the month, both from 1\<close>
  "civil n = (let (y, d) = year_day n; (m, d) = month_day (month_lengths y) d in (y, m + 1, d + 1))"

definition day_number :: "int \<Rightarrow> nat \<Rightarrow> int \<Rightarrow> int" where
  "day_number y m d = days_before y + sum_list (take (m - 1) (month_lengths y)) + d - 1"

lemma mod_full: "1 \<le> r \<Longrightarrow> r \<le> k \<Longrightarrow> (k * q + r) mod k = 0 \<longleftrightarrow> r = (k :: int)"
  by (cases "r = k") auto

lemma div_pred:
  assumes "0 < (k :: int)"
  shows "(y - 1) div k = y div k - (if y mod k = 0 then 1 else 0)"
proof (cases "y mod k = 0")
  case True
  have "y - 1 = k * (y div k - 1) + (k - 1)" using True mult_div_mod_eq [of k y] by (simp add: algebra_simps)
  then show ?thesis using True assms by (intro int_div_pos_eq [of _ _ _ "k - 1"]) simp_all
next
  case False
  have "y - 1 = k * (y div k) + (y mod k - 1)" using mult_div_mod_eq [of k y] by (simp add: algebra_simps)
  moreover have "0 < y mod k" "y mod k < k"
    using False assms pos_mod_sign [of k y] pos_mod_bound [of k y] by linarith+
  ultimately have "(y - 1) div k = y div k" by (intro int_div_pos_eq [of _ _ _ "y mod k - 1"]) linarith+
  with False show ?thesis by simp
qed

lemma capped_div:
  assumes "0 < k" and "0 \<le> r" and "r \<le> 4 * k" and "b = min 3 (r div k)" and "s = r - k * b"
  shows "0 \<le> (b :: int) \<and> b \<le> 3 \<and> 0 \<le> s \<and> s \<le> k \<and> (b < 3 \<longrightarrow> s < k)"
proof -
  define q t where "q = r div k" and "t = r mod k"
  have t: "r = k * q + t" "0 \<le> t" "t < k" "0 \<le> q" using assms(1, 2) by (simp_all add: q_def t_def pos_imp_zdiv_nonneg_iff)
  show ?thesis
  proof (cases "q \<le> 3")
    case True
    then show ?thesis using t assms(4, 5) by (simp add: q_def [symmetric])
  next
    case False
    then have "k * 4 \<le> k * q" using assms(1) by (intro mult_left_mono) simp_all
    moreover have "k * b = 3 * k" "b = 3" using False assms(4) by (simp_all add: q_def [symmetric])
    ultimately show ?thesis using t assms(1, 3, 5) by (intro conjI impI) linarith+
  qed
qed

lemma year_day_sound:
  assumes "year_day n = (y, d)"
  shows "n = days_before y + d" and "0 \<le> d" and "d < year_length y"
proof -
  define a r where "a = n div 146097" and "r = n mod 146097"
  define b where "b = min 3 (r div 36524)"
  define s where "s = r - 36524 * b"
  define c t where "c = s div 1461" and "t = s mod 1461"
  define e where "e = min 3 (t div 365)"
  have "year_day n = (400 * a + 100 * b + 4 * c + e + 1, t - 365 * e)"
    by (simp only: year_day_def Let_def a_def r_def b_def s_def c_def t_def e_def)
  then have y: "y = 400 * a + 100 * b + 4 * c + e + 1" and d: "d = t - 365 * e" using assms by simp_all
  have r: "0 \<le> r" "r < 146097" "n = 146097 * a + r" by (simp_all add: a_def r_def)
  have b: "0 \<le> b" "b \<le> 3" "0 \<le> s" "s \<le> 36524" "b < 3 \<Longrightarrow> s < 36524"
    using capped_div [of 36524 r b s] r(1, 2) by (simp_all add: b_def s_def)
  have c: "0 \<le> t" "t < 1461" "s = 1461 * c + t" by (simp_all add: c_def t_def)
  have c24: "0 \<le> c" "c \<le> 24" using b(3, 4) c by linarith+
  note c = c24 c
  have e: "0 \<le> e" "e \<le> 3" "0 \<le> d" "d \<le> 365" "e < 3 \<Longrightarrow> d < 365"
    using capped_div [of 365 t e d] c(3, 4) by (simp_all add: e_def d)
  have q4: "(y - 1) div 4 = 100 * a + 25 * b + c"
    using e(1, 2) y by (intro int_div_pos_eq [of _ _ _ e]) simp_all
  have q100: "(y - 1) div 100 = 4 * a + b"
    using e(1, 2) c(1, 2) y by (intro int_div_pos_eq [of _ _ _ "4 * c + e"]) simp_all
  have q400: "(y - 1) div 400 = a"
    using e(1, 2) c(1, 2) b(1, 2) y by (intro int_div_pos_eq [of _ _ _ "100 * b + 4 * c + e"]) simp_all
  have m4: "y mod 4 = 0 \<longleftrightarrow> e = 3"
  proof -
    have "y = 4 * (100 * a + 25 * b + c) + (e + 1)" using y by simp
    then show ?thesis using mod_full [of "e + 1" 4 "100 * a + 25 * b + c"] e(1, 2) by simp
  qed
  have m100: "y mod 100 = 0 \<longleftrightarrow> e = 3 \<and> c = 24"
  proof -
    have "y = 100 * (4 * a + b) + (4 * c + e + 1)" using y by simp
    moreover have "4 * c + e + 1 = 100 \<longleftrightarrow> e = 3 \<and> c = 24" using e(1, 2) c(1, 2) by linarith
    moreover have "1 \<le> 4 * c + e + 1" "4 * c + e + 1 \<le> 100" using e(1, 2) c(1, 2) by linarith+
    ultimately show ?thesis using mod_full [of "4 * c + e + 1" 100 "4 * a + b"] by simp
  qed
  have m400: "y mod 400 = 0 \<longleftrightarrow> e = 3 \<and> c = 24 \<and> b = 3"
  proof -
    have "y = 400 * a + (100 * b + 4 * c + e + 1)" using y by simp
    moreover have "100 * b + 4 * c + e + 1 = 400 \<longleftrightarrow> e = 3 \<and> c = 24 \<and> b = 3" using e(1, 2) c(1, 2) b(1, 2) by linarith
    moreover have "1 \<le> 100 * b + 4 * c + e + 1" "100 * b + 4 * c + e + 1 \<le> 400" using e(1, 2) c(1, 2) b(1, 2) by linarith+
    ultimately show ?thesis using mod_full [of "100 * b + 4 * c + e + 1" 400 a] by simp
  qed
  show "n = days_before y + d" unfolding days_before_def q4 q100 q400 using r(3) s_def c(5) d y by (simp add: algebra_simps)
  show "0 \<le> d" by (rule e)
  show "d < year_length y"
  proof (cases "e = 3")
    case True
    have "c = 24 \<Longrightarrow> b \<noteq> 3 \<Longrightarrow> d < 365" using b(2, 5) c(5) d True by linarith
    then show ?thesis using e(4) True unfolding year_length_def is_leap_def m4 m100 m400 by auto
  qed (use e m4 in \<open>simp add: year_length_def is_leap_def\<close>)
qed

lemma days_before_next: "days_before (y + 1) = days_before y + year_length y"
proof -
  have "y mod 100 = 0 \<Longrightarrow> y mod 4 = 0" "y mod 400 = 0 \<Longrightarrow> y mod 100 = 0" by presburger+
  then show ?thesis by (auto simp: days_before_def year_length_def is_leap_def div_pred)
qed

lemma days_before_mono: "y < y' \<Longrightarrow> days_before y + year_length y \<le> days_before y'"
proof (induction y' rule: int_gr_induct)
  case base
  show ?case by (simp add: days_before_next)
next
  case (step i)
  then show ?case using days_before_next [of i] by (simp add: year_length_def split: if_splits)
qed

lemma year_day_complete:
  assumes "0 \<le> d" and "d < year_length y"
  shows "year_day (days_before y + d) = (y, d)"
proof -
  obtain y' d' where e: "year_day (days_before y + d) = (y', d')" by fastforce
  note s = year_day_sound [OF e]
  have "\<not> y < y'" "\<not> y' < y" using days_before_mono [of y y'] days_before_mono [of y' y] s assms by auto
  then show ?thesis using e s(1) by auto
qed

lemma month_day_sound:
  assumes "0 \<le> d" and "d < sum_list ls" and "month_day ls d = (m, d')"
  shows "m < length ls \<and> 0 \<le> d' \<and> d' < ls ! m \<and> d = sum_list (take m ls) + d'"
  using assms
proof (induction ls d arbitrary: m d' rule: month_day.induct)
  case (2 l ls d)
  show ?case
  proof (cases "d < l")
    case False
    obtain k e where e: "month_day ls (d - l) = (k, e)" by fastforce
    with 2(1) [OF False _ _ e] 2(2-4) False show ?thesis by auto
  qed (use 2 in auto)
qed simp

lemma month_day_complete:
  assumes "m < length ls" and "0 \<le> d" and "d < ls ! m" and "\<And>l. l \<in> set ls \<Longrightarrow> 0 \<le> l"
  shows "month_day ls (sum_list (take m ls) + d) = (m, d)"
  using assms
proof (induction ls arbitrary: m)
  case (Cons l ls)
  show ?case
  proof (cases m)
    case (Suc k)
    have "0 \<le> sum_list (take k ls)" using Cons.prems(4) by (intro sum_list_nonneg) (auto dest: in_set_takeD)
    then show ?thesis using Cons.IH [of k] Cons.prems Suc by (auto simp: algebra_simps)
  qed (use Cons.prems in simp)
qed simp

lemma sum_month_lengths: "sum_list (month_lengths y) = year_length y"
  by (simp add: month_lengths_def year_length_def)

text \<open>A day number determines a date and is determined by it.\<close>

lemma civil_sound:
  assumes "civil n = (y, m, d)"
  shows "day_number y m d = n \<and> 1 \<le> m \<and> m \<le> 12 \<and> 1 \<le> d \<and> d \<le> month_lengths y ! (m - 1)"
proof -
  obtain e where e: "year_day n = (y, e)" using assms by (auto simp: civil_def Let_def split: prod.splits)
  obtain k f where f: "month_day (month_lengths y) e = (k, f)" by fastforce
  have "m = k + 1" "d = f + 1" using assms e f by (simp_all add: civil_def)
  moreover note s = year_day_sound [OF e] month_day_sound [OF _ _ f, unfolded sum_month_lengths]
  moreover have "length (month_lengths y) = 12" by (simp add: month_lengths_def)
  ultimately show ?thesis by (auto simp: day_number_def)
qed

lemma civil_complete:
  assumes "1 \<le> m" and "m \<le> 12" and "1 \<le> d" and "d \<le> month_lengths y ! (m - 1)"
  shows "civil (day_number y m d) = (y, m, d)"
proof -
  let ?e = "sum_list (take (m - 1) (month_lengths y)) + (d - 1)"
  have len: "length (month_lengths y) = 12" and nonneg: "\<And>l. l \<in> set (month_lengths y) \<Longrightarrow> 0 \<le> l"
    by (auto simp: month_lengths_def)
  have md: "month_day (month_lengths y) ?e = (m - 1, d - 1)"
    using month_day_complete [of "m - 1" "month_lengths y" "d - 1"] assms len nonneg by auto
  have "0 \<le> ?e" using assms nonneg by (intro add_nonneg_nonneg sum_list_nonneg) (auto dest: in_set_takeD)
  moreover have "?e < year_length y"
  proof -
    have "sum_list (take m (month_lengths y)) \<le> sum_list (month_lengths y)"
      using sum_list_nonneg [of "drop m (month_lengths y)"] nonneg
      by (metis append_take_drop_id in_set_dropD le_add_same_cancel1 sum_list_append)
    moreover have "take m (month_lengths y) = take (m - 1) (month_lengths y) @ [month_lengths y ! (m - 1)]"
      using assms len take_Suc_conv_app_nth [of "m - 1" "month_lengths y"] by simp
    ultimately show ?thesis using assms by (simp add: sum_month_lengths)
  qed
  ultimately have "year_day (days_before y + ?e) = (y, ?e)" by (rule year_day_complete)
  then show ?thesis using md assms by (simp add: civil_def day_number_def algebra_simps)
qed


subsection \<open>Instants and dates\<close>

definition unix_Date :: "int \<Rightarrow> int \<times> nat \<times> int \<Rightarrow> int \<times> int \<times> int \<Rightarrow> int" where
  \<comment> \<open>\<^verbatim>\<open>time.Date(y, m, d, hh, mi, ss, 0, time.Local).Unix()\<close>\<close>
  "unix_Date z = (\<lambda>(y, m, d) (hh, mi, ss). (day_number y m d - 719162) * 86400 + hh * 3600 + mi * 60 + ss - z)"

definition local_date :: "int \<Rightarrow> int \<Rightarrow> int \<times> nat \<times> int" where
  "local_date z t = civil ((t + z) div 86400 + 719162)"

definition local_clock :: "int \<Rightarrow> int \<Rightarrow> int \<times> int \<times> int" where
  "local_clock z t = (let s = (t + z) mod 86400 in (s div 3600, s mod 3600 div 60, s mod 60))"

lemma unix_Date_local: "unix_Date z (local_date z t) (local_clock z t) = t"
proof -
  obtain y m d where c: "local_date z t = (y, m, d)" by (metis prod_cases3)
  define s where "s = (t + z) mod 86400"
  have "day_number y m d = (t + z) div 86400 + 719162" using civil_sound [of _ y m d] c by (simp add: local_date_def)
  moreover have "s div 3600 * 3600 + s mod 3600 div 60 * 60 + s mod 60 = s"
  proof -
    have "s mod 3600 mod 60 = s mod 60" by (simp add: mod_mod_cancel)
    then show ?thesis using div_mult_mod_eq [of "s mod 3600" 60] div_mult_mod_eq [of s 3600] by linarith
  qed
  moreover have "(t + z) div 86400 * 86400 + s = t + z" by (simp add: s_def)
  ultimately show ?thesis by (simp add: unix_Date_def c local_clock_def s_def [symmetric])
qed

lemma local_date_unix_Date:
  assumes "1 \<le> m" and "m \<le> 12" and "1 \<le> d" and "d \<le> month_lengths y ! (m - 1)" and "0 \<le> s" and "s < 86400"
  shows "local_date z ((day_number y m d - 719162) * 86400 + s - z) = (y, m, d)"
proof -
  have "((day_number y m d - 719162) * 86400 + s) div 86400 = day_number y m d - 719162"
    using assms by (intro int_div_pos_eq [of _ _ _ s]) simp_all
  then show ?thesis using civil_complete [OF assms(1-4)] by (simp add: local_date_def)
qed

definition GetTodayTimeByTimestamp :: "int \<Rightarrow> int \<Rightarrow> int" where
  "GetTodayTimeByTimestamp z timestamp = unix_Date z (local_date z timestamp) (0, 0, 0)"

definition GetTodayEndTimeByTimestamp :: "int \<Rightarrow> int \<Rightarrow> int" where
  "GetTodayEndTimeByTimestamp z timestamp = unix_Date z (local_date z timestamp) (23, 59, 59)"

definition GetMonthTimeByTimestamp :: "int \<Rightarrow> int \<Rightarrow> int" where
  "GetMonthTimeByTimestamp z timestamp = (let (y, m, d) = local_date z timestamp in unix_Date z (y, m, 1) (0, 0, 0))"

text \<open>
  The start and the end of the day of an instant enclose it, 86399 seconds apart and on its date, and the start of
  its month is the first second of the first day of that month, at most 31 days before.
\<close>

theorem day_and_month_bounds:
  shows "GetTodayTimeByTimestamp z t \<le> t \<and> t \<le> GetTodayEndTimeByTimestamp z t \<and>
    GetTodayEndTimeByTimestamp z t = GetTodayTimeByTimestamp z t + 86399 \<and>
    local_date z (GetTodayTimeByTimestamp z t) = local_date z t \<and>
    local_date z (GetTodayEndTimeByTimestamp z t) = local_date z t \<and>
    GetMonthTimeByTimestamp z t \<le> GetTodayTimeByTimestamp z t \<and> t < GetMonthTimeByTimestamp z t + 31 * 86400 \<and>
    local_date z (GetMonthTimeByTimestamp z t) = (fst (local_date z t), fst (snd (local_date z t)), 1)"
proof -
  obtain y m d where c: "local_date z t = (y, m, d)" by (metis prod_cases3)
  note s = civil_sound [OF c [unfolded local_date_def]]
  have t: "(day_number y m d - 719162) * 86400 \<le> t + z" "t + z < (day_number y m d - 719162) * 86400 + 86400"
    using s div_mult_mod_eq [of "t + z" 86400] pos_mod_sign [of 86400 "t + z"] pos_mod_bound [of 86400 "t + z"] by simp_all
  have len: "month_lengths y ! (m - 1) \<in> set (month_lengths y)" using s by (intro nth_mem) (auto simp: month_lengths_def)
  then have "month_lengths y ! (m - 1) \<le> 31" "1 \<le> month_lengths y ! (m - 1)" by (auto simp: month_lengths_def)
  moreover have "day_number y m d = day_number y m 1 + d - 1" by (simp add: day_number_def)
  ultimately show ?thesis
    using s t local_date_unix_Date [of m d y 0 z] local_date_unix_Date [of m d y 86399 z] local_date_unix_Date [of m 1 y 0 z]
    by (simp add: GetTodayTimeByTimestamp_def GetTodayEndTimeByTimestamp_def GetMonthTimeByTimestamp_def unix_Date_def c
        algebra_simps)
qed


subsection \<open>Formatting\<close>

text \<open>The texts of the layouts the file uses, for an instant in milliseconds.\<close>

definition date_text :: "int \<Rightarrow> int \<Rightarrow> string" where
  \<comment> \<open>\<^verbatim>\<open>2006-01-02\<close>\<close>
  "date_text z t = (let (y, m, d) = local_date z t
     in format_int_pad 4 y @ ''-'' @ format_int_pad 2 (int m) @ ''-'' @ format_int_pad 2 d)"

definition month_text :: "int \<Rightarrow> int \<Rightarrow> string" where
  "month_text z t = (let (y, m, d) = local_date z t in format_int_pad 4 y @ ''-'' @ format_int_pad 2 (int m))"

definition year_text :: "int \<Rightarrow> int \<Rightarrow> string" where
  "year_text z t = (let (y, m, d) = local_date z t in format_int_pad 4 y)"

definition time_text :: "int \<Rightarrow> int \<Rightarrow> string" where
  \<comment> \<open>\<^verbatim>\<open>2006-01-02 15:04:05\<close>\<close>
  "time_text z t = (let (hh, mi, ss) = local_clock z t
     in date_text z t @ '' '' @ format_int_pad 2 hh @ '':'' @ format_int_pad 2 mi @ '':'' @ format_int_pad 2 ss)"

definition minute_text :: "int \<Rightarrow> int \<Rightarrow> string" where
  "minute_text z t = (let (hh, mi, ss) = local_clock z t
     in date_text z t @ '' '' @ format_int_pad 2 hh @ '':'' @ format_int_pad 2 mi)"

definition hour_text :: "int \<Rightarrow> int \<Rightarrow> string" where
  "hour_text z t = (let (hh, mi, ss) = local_clock z t in date_text z t @ '' '' @ format_int_pad 2 hh)"

definition compact_text :: "int \<Rightarrow> int \<Rightarrow> string" where
  \<comment> \<open>\<^verbatim>\<open>20060102150405\<close>\<close>
  "compact_text z t = (let (y, m, d) = local_date z t; (hh, mi, ss) = local_clock z t
     in format_int_pad 4 y @ format_int_pad 2 (int m) @ format_int_pad 2 d @
        format_int_pad 2 hh @ format_int_pad 2 mi @ format_int_pad 2 ss)"

definition GetTimeDayByTimestamp :: "int \<Rightarrow> int \<Rightarrow> string" where
  "GetTimeDayByTimestamp z timestamp = date_text z timestamp"

definition GetTimeByTimestamp :: "int \<Rightarrow> int \<Rightarrow> string" where
  "GetTimeByTimestamp z timestamp = time_text z timestamp"

definition GetTimeByTimestampMilli :: "int \<Rightarrow> int \<Rightarrow> string" where
  "GetTimeByTimestampMilli z timestamp =
     time_text z (timestamp div 1000) @ ''.'' @ format_int_pad 3 (timestamp mod 1000)"

definition TimestampFormat :: "int \<Rightarrow> int \<Rightarrow> int \<Rightarrow> string" where
  "TimestampFormat z t sType =
     (if t \<le> 0 then ''''
      else case (if length (format_int t) = 10 then Some (t * 1000)
                 else if length (format_int t) = 13 then Some t else None) of
        None \<Rightarrow> ''''
      | Some t \<Rightarrow>
          let s = t div 1000
          in if sType = 1 then time_text z s @ ''.'' @ format_int_pad 3 (t mod 1000)
             else if sType = 2 then time_text z s
             else if sType = 3 then minute_text z s
             else if sType = 4 then hour_text z s
             else if sType = 5 then date_text z s
             else if sType = 6 then month_text z s
             else if sType = 7 then year_text z s
             else if sType = 8 then compact_text z s
             else if sType = 9 then compact_text z s @ format_int_pad 3 (go_div (go_mod (t * 1000000) 1000000000) 1000000)
             else '''')"

text \<open>Seconds and milliseconds are told apart by the number of digits.\<close>

lemma decimal_length: "length (decimal n) = (if n < 10 then 1 else Suc (length (decimal (n div 10))))"
  by (subst decimal.simps) simp

lemma decimal_length_bounds: "0 < n \<Longrightarrow> 10 ^ (length (decimal n) - 1) \<le> n \<and> n < 10 ^ length (decimal n)"
proof (induction n rule: decimal.induct)
  case (1 n)
  show ?case
  proof (cases "n < 10")
    case False
    then have "0 < n div 10" by (simp add: div_greater_zero_iff)
    with 1 False have "10 ^ (length (decimal (n div 10)) - 1) \<le> n div 10 \<and> n div 10 < 10 ^ length (decimal (n div 10))" by simp
    moreover have "0 < length (decimal (n div 10))" by simp
    ultimately show ?thesis using False decimal_length [of n]
      by (cases "length (decimal (n div 10))") auto
  qed (use 1 in \<open>simp add: decimal_length\<close>)
qed

lemma digits_count:
  assumes "10 ^ k \<le> t" and "t < 10 ^ Suc k"
  shows "length (format_int (int t)) = Suc k"
proof -
  have n: "0 < t" using assms(1) by (cases t) auto
  note b = decimal_length_bounds [OF n]
  have "k < length (decimal t)" using b assms(1) power_less_imp_less_exp [of "10 :: nat" k "length (decimal t)"] by linarith
  moreover have "length (decimal t) - 1 < Suc k"
    using b assms(2) power_less_imp_less_exp [of "10 :: nat" "length (decimal t) - 1" "Suc k"] by linarith
  ultimately show ?thesis by (simp add: format_int_def)
qed


text \<open>A reference reader of \<^verbatim>\<open>2006-01-02 15:04:05\<close>: the fields at their places.\<close>

definition field :: "nat \<Rightarrow> nat \<Rightarrow> string \<Rightarrow> nat option" where
  "field a n s = parse_uint (take n (drop a s))"

definition read_time :: "int \<Rightarrow> string \<Rightarrow> int option" where
  "read_time z s =
     (case (field 0 4 s, field 5 2 s, field 8 2 s, field 11 2 s, field 14 2 s, field 17 2 s) of
        (Some y, Some m, Some d, Some hh, Some mi, Some ss) \<Rightarrow>
          Some (unix_Date z (int y, m, int d) (int hh, int mi, int ss))
      | _ \<Rightarrow> None)"

lemma padded:
  assumes "0 \<le> x" and "x < 10 ^ w" and "0 < w"
  shows "length (format_int_pad w x) = w" and "parse_uint (format_int_pad w x) = Some (nat x)"
proof -
  have l: "length (decimal (nat x)) \<le> w"
  proof (cases "nat x = 0")
    case False
    then have "10 ^ (length (decimal (nat x)) - 1) \<le> nat x" using decimal_length_bounds [of "nat x"] by simp
    also have "nat x < 10 ^ w" using assms by (simp add: nat_less_iff)
    finally show ?thesis using power_less_imp_less_exp [of "10 :: nat" "length (decimal (nat x)) - 1" w] by simp
  qed (use assms decimal_length [of 0] in simp)
  then show "length (format_int_pad w x) = w" using assms(1) by (simp add: format_int_pad_def pad_left_def)
  show "parse_uint (format_int_pad w x) = Some (nat x)"
    using assms(1) by (simp add: format_int_pad_def pad_left_def parse_uint_def parse_digits_zeros parse_digits_decimal)
qed

lemma field_at: "length p = a \<Longrightarrow> length x = n \<Longrightarrow> field a n (p @ x @ q) = parse_uint x"
  by (simp add: field_def)

lemma read_time_text:
  assumes "local_date z t = (y, m, d)" and "0 \<le> y" and "y < 10000"
  shows "read_time z (time_text z t) = Some t"
proof -
  obtain hh mi ss where c: "local_clock z t = (hh, mi, ss)" by (metis prod_cases3)
  note s = civil_sound [OF assms(1) [unfolded local_date_def]]
  have len: "month_lengths y ! (m - 1) \<in> set (month_lengths y)" using s by (intro nth_mem) (auto simp: month_lengths_def)
  have b: "int m < 10 ^ 2" "0 \<le> d" "d < 10 ^ 2" "0 \<le> hh" "hh < 10 ^ 2" "0 \<le> mi" "mi < 10 ^ 2" "0 \<le> ss" "ss < 10 ^ 2"
  proof -
    show "int m < 10 ^ 2" "0 \<le> d" using s by simp_all
    show "d < 10 ^ 2" using s len by (auto simp: month_lengths_def split: if_splits)
    define s where "s = (t + z) mod 86400"
    have "0 \<le> s" "s < 86400" "0 \<le> s mod 3600" "s mod 3600 < 3600" "0 \<le> s mod 60" "s mod 60 < 60" by (simp_all add: s_def)
    moreover from this have "s mod 3600 div 60 < 100" "s div 3600 < 100" by (simp_all add: div_less_iff_less_mult)
    ultimately show "0 \<le> hh" "hh < 10 ^ 2" "0 \<le> mi" "mi < 10 ^ 2" "0 \<le> ss" "ss < 10 ^ 2"
      using c by (auto simp: local_clock_def Let_def s_def [symmetric] pos_imp_zdiv_nonneg_iff)
  qed
  define Y M D H I S where "Y = format_int_pad 4 y" and "M = format_int_pad 2 (int m)" and "D = format_int_pad 2 d"
    and "H = format_int_pad 2 hh" and "I = format_int_pad 2 mi" and "S = format_int_pad 2 ss"
  have l: "length Y = 4" "length M = 2" "length D = 2" "length H = 2" "length I = 2" "length S = 2"
    and p: "parse_uint Y = Some (nat y)" "parse_uint M = Some m" "parse_uint D = Some (nat d)"
      "parse_uint H = Some (nat hh)" "parse_uint I = Some (nat mi)" "parse_uint S = Some (nat ss)"
    using padded [of y 4] padded [of "int m" 2] padded [of d 2] padded [of hh 2] padded [of mi 2] padded [of ss 2] b assms
    by (simp_all add: Y_def M_def D_def H_def I_def S_def)
  have t: "time_text z t = Y @ ''-'' @ M @ ''-'' @ D @ '' '' @ H @ '':'' @ I @ '':'' @ S"
    by (simp add: time_text_def date_text_def assms(1) c Y_def M_def D_def H_def I_def S_def)
  have "field 0 4 (time_text z t) = Some (nat y)" using field_at [of "[]" 0 Y 4] l p by (simp add: t)
  moreover have "field 5 2 (time_text z t) = Some m" using field_at [of "Y @ ''-''" 5 M 2] l p by (simp add: t)
  moreover have "field 8 2 (time_text z t) = Some (nat d)"
    using field_at [of "Y @ ''-'' @ M @ ''-''" 8 D 2] l p by (simp add: t)
  moreover have "field 11 2 (time_text z t) = Some (nat hh)"
    using field_at [of "Y @ ''-'' @ M @ ''-'' @ D @ '' ''" 11 H 2] l p by (simp add: t)
  moreover have "field 14 2 (time_text z t) = Some (nat mi)"
    using field_at [of "Y @ ''-'' @ M @ ''-'' @ D @ '' '' @ H @ '':''" 14 I 2] l p by (simp add: t)
  moreover have "field 17 2 (time_text z t) = Some (nat ss)"
    using field_at [of "Y @ ''-'' @ M @ ''-'' @ D @ '' '' @ H @ '':'' @ I @ '':''" 17 S 2 "[]"] l p by (simp add: t)
  ultimately show ?thesis
    using unix_Date_local [of z t] b assms by (simp add: read_time_def c)
qed

lemma year_range:
  assumes "local_date z t = (y, m, d)" and "0 \<le> t + z" and "t + z < 10 ^ 11"
  shows "0 \<le> y \<and> y < 10000"
proof -
  note s = civil_sound [OF assms(1) [unfolded local_date_def]]
  have n: "0 \<le> day_number y m d" "day_number y m d < 2000000" using s assms(2, 3) by (simp_all add: pos_imp_zdiv_nonneg_iff)
  obtain e where "year_day (day_number y m d) = (y, e)"
    using s assms(1) by (auto simp: local_date_def civil_def Let_def split: prod.splits)
  note q = year_day_sound [OF this]
  have "\<not> y < 1" using days_before_mono [of y 1] q n by (auto simp: days_before_def [of 1])
  moreover have "\<not> 9999 < y" using days_before_mono [of 9999 y] q n by (auto simp: days_before_def [of 9999] year_length_def split: if_splits)
  ultimately show ?thesis by simp
qed

text \<open>
  A time stamp of ten digits and the same in milliseconds give one text, and the text read back is the time stamp.
\<close>

theorem format_round_trip:
  assumes "10 ^ 9 \<le> t" and "t < 10 ^ 10" and "\<bar>z\<bar> \<le> 86400" and "0 \<le> ms" and "ms < 1000"
  shows "TimestampFormat z t 2 = TimestampFormat z (1000 * t + ms) 2 \<and> read_time z (TimestampFormat z t 2) = Some t"
proof -
  have "length (format_int t) = 10" using digits_count [of 9 "nat t"] assms by (simp add: nat_le_iff nat_less_iff le_nat_iff)
  moreover have "length (format_int (1000 * t + ms)) = 13"
    using digits_count [of 12 "nat (1000 * t + ms)"] assms by (simp add: nat_le_iff nat_less_iff le_nat_iff)
  moreover have "(1000 * t + ms) div 1000 = t" using assms by (intro int_div_pos_eq [of _ _ _ ms]) simp_all
  moreover obtain y m d where c: "local_date z t = (y, m, d)" by (metis prod_cases3)
  moreover have "0 \<le> y \<and> y < 10000" using assms by (intro year_range [OF c]) (simp_all add: abs_le_iff)
  ultimately show ?thesis using read_time_text [OF c] assms by (simp add: TimestampFormat_def)
qed

lemma format_round_trip_witness: "read_time 28800 (TimestampFormat 28800 1700000000 2) = Some 1700000000"
  using format_round_trip [of 1700000000 28800 0, THEN conjunct2] by simp


subsection \<open>Parsing\<close>

text \<open>\<open>parse layout text\<close> is \<^verbatim>\<open>time.ParseInLocation\<close>; the zero time is 1 January of the year 1.\<close>

definition zero_unix :: int where
  "zero_unix = - 62135596800"

definition GetTimestampByTime :: "(string \<Rightarrow> string \<Rightarrow> int option) \<Rightarrow> string \<Rightarrow> int" where
  "GetTimestampByTime parse timeFormat =
     (case parse ''2006-01-02 15:04:05'' timeFormat of None \<Rightarrow> 0 | Some t \<Rightarrow> t)"

definition TimeFormat :: "(string \<Rightarrow> string \<Rightarrow> int option) \<Rightarrow> string \<Rightarrow> int \<Rightarrow> int" where
  \<comment> \<open>an error is dropped: the result is the zero time\<close>
  "TimeFormat parse timeFormat sType =
     (case parse (if sType = 2 then ''2006-01-02 15:04:05.000'' else ''2006-01-02 15:04:05'') timeFormat of
        None \<Rightarrow> zero_unix | Some t \<Rightarrow> t)"

definition layout_of :: "int \<Rightarrow> string" where
  "layout_of sType =
     (if sType = 1 then ''2006-01-02 15:04:05.000'' else if sType = 2 then ''2006-01-02 15:04:05''
      else if sType = 3 then ''2006-01-02 15:04'' else if sType = 4 then ''2006-01-02 15''
      else if sType = 5 then ''2006-01-02'' else if sType = 6 then ''2006-01'' else if sType = 7 then ''2006''
      else if sType = 8 then ''20060102150405'' else '''')"

definition TimeStrFormat :: "(string \<Rightarrow> string \<Rightarrow> int option) \<Rightarrow> int \<Rightarrow> string \<Rightarrow> int \<Rightarrow> int \<times> bool" where
  \<comment> \<open>the flag tells an error, which comes with the present time\<close>
  "TimeStrFormat parse now timeStr sType =
     (case parse (layout_of sType) timeStr of None \<Rightarrow> (now, True) | Some t \<Rightarrow> (t, False))"

datatype time_error = InvalidFormat | NotANumber string


definition ParseTimeStr :: "string \<Rightarrow> time_error + duration" where
  "ParseTimeStr timeStr =
     (case split_on (CHR '':'') timeStr of
        [p0, p1] \<Rightarrow>
          (case parse_int64 p0 of None \<Rightarrow> Inl (NotANumber p0)
           | Some minutes \<Rightarrow>
               if CHR ''.'' \<notin> set p1 then Inl InvalidFormat
               else let s0 = takeWhile (\<lambda>c. c \<noteq> CHR ''.'') p1; s1 = tl (dropWhile (\<lambda>c. c \<noteq> CHR ''.'') p1)
                    in case parse_int64 s0 of None \<Rightarrow> Inl (NotANumber s0)
                       | Some seconds \<Rightarrow>
                           (case parse_int64 s1 of None \<Rightarrow> Inl (NotANumber s1)
                            | Some millis \<Rightarrow>
                                Inr (wrap64 (wrap64 (wrap64 (minutes * minute) + wrap64 (seconds * second)) +
                                       wrap64 (millis * millisecond)))))
      | _ \<Rightarrow> Inl InvalidFormat)"

lemma parse_int64_decimal: "int n \<le> max_int64 \<Longrightarrow> parse_int64 (decimal n) = Some (int n)"
  using parse_int64_format_pad [of "int n" 0] by (simp add: format_int_pad_def pad_left_def in_int64_def)

lemma decimal_no_sep: "c \<in> {CHR '':'', CHR ''.''} \<Longrightarrow> c \<notin> set (decimal n)"
proof
  assume c: "c \<in> {CHR '':'', CHR ''.''}" and "c \<in> set (decimal n)"
  then obtain d where "d < 10" "c = digit_char d" using decimal_digits by blast
  then have "digit_val c = Some d" by simp
  with c show False by (auto simp: digit_val_def)
qed

text \<open>
  A duration written as minutes, seconds and a number of milliseconds is read exactly while the sum stays in the
  range of a duration.
\<close>

theorem parse_time_exact:
  assumes "int m * minute + int s * second + int ms * millisecond \<le> max_int64"
  shows "ParseTimeStr (decimal m @ '':'' @ decimal s @ ''.'' @ decimal ms) =
    Inr (int m * minute + int s * second + int ms * millisecond)"
proof -
  have b: "int m \<le> max_int64" "int s \<le> max_int64" "int ms \<le> max_int64" using assms by (simp_all add: go_time)
  have "split_on (CHR '':'') (decimal m @ CHR '':'' # decimal s @ CHR ''.'' # decimal ms) =
      [decimal m, decimal s @ CHR ''.'' # decimal ms]"
    using decimal_no_sep [of "CHR '':''"] by (simp add: split_on_append split_on_single)
  moreover have "takeWhile (\<lambda>c. c \<noteq> CHR ''.'') (decimal s @ CHR ''.'' # decimal ms) = decimal s"
    "dropWhile (\<lambda>c. c \<noteq> CHR ''.'') (decimal s @ CHR ''.'' # decimal ms) = CHR ''.'' # decimal ms"
    using decimal_no_sep [of "CHR ''.''" s] by (simp_all add: takeWhile_sep dropWhile_sep)
  moreover have "wrap64 (int m * minute) = int m * minute" "wrap64 (int s * second) = int s * second"
    "wrap64 (int ms * millisecond) = int ms * millisecond" "wrap64 (int m * minute + int s * second) = int m * minute + int s * second"
    "wrap64 (int m * minute + int s * second + int ms * millisecond) = int m * minute + int s * second + int ms * millisecond"
    using assms by (simp_all add: go_time in_int64_def)
  ultimately show ?thesis by (simp add: ParseTimeStr_def parse_int64_decimal [OF b(1)] parse_int64_decimal [OF b(2)] parse_int64_decimal [OF b(3)])
qed

lemma parse_time_exact_witness: "ParseTimeStr ''1:2.500'' = Inr 62500000000"
proof -
  have "decimal 1 = ''1''" "decimal 2 = ''2''" "decimal 500 = ''500''" by code_simp+
  then show ?thesis using parse_time_exact [of 1 2 500] by (simp add: go_time)
qed

text \<open>What follows the point is a number of milliseconds, not a fraction; and signs are read in every part.\<close>

lemma fraction_is_not_read: "ParseTimeStr ''0:2.5'' = Inr 2005000000 \<and> ParseTimeStr ''1:-2.+5'' = Inr 58005000000"
  by code_simp


subsection \<open>Durations\<close>

lemma rne_far: "of_int (rne q) \<le> q + 1 / 2"
proof -
  have "of_int \<lfloor>q\<rfloor> \<le> q" "q < of_int \<lfloor>q\<rfloor> + 1" by linarith+
  then show ?thesis by (auto simp: rne_def Let_def) linarith
qed

lemma rnd_pos_upper:
  assumes "0 < x" and "pow2 (- 1022) \<le> x"
  shows "rnd_pos x \<le> x + x / 2 ^ 53"
proof -
  let ?u = "pow2 (ulp_exp x)"
  have "- 1022 \<le> expo x"
  proof (rule ccontr)
    assume "\<not> - 1022 \<le> expo x"
    then have "pow2 (expo x + 1) \<le> pow2 (- 1022)" by (intro pow2_mono) simp
    with expo_bounds(2) [OF assms(1)] assms(2) show False by simp
  qed
  then have "ulp_exp x = expo x - 52" by (simp add: ulp_exp_def)
  then have "?u * 2 ^ 52 \<le> x" using expo_bounds(1) [OF assms(1)] by (simp add: pow2_diff pow2_def [of 52])
  then have "?u / 2 \<le> x / 2 ^ 53" by (simp add: field_simps)
  moreover have "of_int (rne (x / ?u)) * ?u \<le> (x / ?u + 1 / 2) * ?u"
    by (intro mult_right_mono rne_far) (simp add: less_imp_le)
  moreover have "?u \<noteq> 0" using pow2_pos [of "ulp_exp x"] by linarith
  then have "(x / ?u + 1 / 2) * ?u = x + ?u / 2" by (simp add: distrib_right)
  ultimately have "?u / 2 \<le> x / 2 ^ 53" "rnd_pos x \<le> x + ?u / 2" by (simp_all add: rnd_pos_def)
  then show ?thesis by linarith
qed

definition duration_in :: "duration \<Rightarrow> duration \<Rightarrow> f64" where
  \<comment> \<open>\<^verbatim>\<open>Hours\<close>, \<^verbatim>\<open>Minutes\<close> and \<^verbatim>\<open>Seconds\<close>: whole units plus the rest as a fraction\<close>
  "duration_in u d = fadd (f64_of_int (go_div d u)) (fdiv (f64_of_int (go_mod d u)) (f64_of_int u))"

definition SecondsToTimeFormat :: "(f64 \<Rightarrow> int) \<Rightarrow> int \<Rightarrow> string" where
  "SecondsToTimeFormat conv seconds =
     (let duration = wrap64 (second * seconds);
          hours = to_int64 conv (duration_in hour duration);
          minutes = go_mod (to_int64 conv (duration_in minute duration)) 60;
          seconds = go_mod (to_int64 conv (duration_in second duration)) 60
      in format_int_pad 2 hours @ '':'' @ format_int_pad 2 minutes @ '':'' @ format_int_pad 2 seconds)"

definition day :: duration where
  [go_time]: "day = 86400000000000"

definition truncate_day :: "instant \<Rightarrow> instant" where
  \<comment> \<open>\<^verbatim>\<open>t.Truncate(24 * time.Hour)\<close>: whole days since the zero time, which is a midnight of UTC\<close>
  "truncate_day t = t - t mod day"

definition CalculateDaysDifference :: "(f64 \<Rightarrow> int) \<Rightarrow> instant \<Rightarrow> instant \<Rightarrow> int" where
  "CalculateDaysDifference conv t1 t2 =
     (let t1 = truncate_day t1; t2 = truncate_day t2
      in if t1 = t2 then 1
         else let diff = time_sub t2 t1 in to_int64 conv (fdiv (duration_in hour diff) (Fin 24)))"

function dates_loop :: "instant \<Rightarrow> instant \<Rightarrow> instant \<Rightarrow> instant \<Rightarrow> instant list" where
  "dates_loop startTime endTime endDate d =
     (if endDate < d then []
      else if startTime \<le> d \<and> d \<le> endTime then d # dates_loop startTime endTime endDate (d + day)
      else dates_loop startTime endTime endDate (d + day))"
  by auto
termination by (relation "measure (\<lambda>(s, e, ed, d). nat (ed + day - d))") (auto simp: go_time)

declare dates_loop.simps [simp del]

definition GetDatesBetween :: "instant \<Rightarrow> instant \<Rightarrow> instant list" where
  "GetDatesBetween startTime endTime =
     dates_loop startTime endTime (truncate_day endTime) (truncate_day startTime)"

lemma dates_loop_all:
  "dates_loop s e (n * day) (k * day) = filter (\<lambda>d. s \<le> d \<and> d \<le> e) (map (\<lambda>i. i * day) [k..n])"
proof (induction "nat (n + 1 - k)" arbitrary: k)
  case 0
  then have "n < k" by simp
  then show ?case by (subst dates_loop.simps) (simp add: go_time)
next
  case (Suc m)
  then have le: "k \<le> n" by simp
  have "dates_loop s e (n * day) ((k + 1) * day) = filter (\<lambda>d. s \<le> d \<and> d \<le> e) (map (\<lambda>i. i * day) [k + 1..n])"
    using Suc by (intro Suc(1)) simp
  moreover have "k * day + day = (k + 1) * day" by (simp add: algebra_simps)
  moreover have "[k..n] = k # [k + 1..n]" using le by (rule upto_rec1)
  ultimately show ?case using le by (subst dates_loop.simps) (simp add: go_time)
qed

lemma le_div_iff_int:
  assumes "0 < (k :: int)"
  shows "i * k \<le> e \<longleftrightarrow> i \<le> e div k"
proof
  assume "i * k \<le> e"
  then have "i * k div k \<le> e div k" using assms by (rule zdiv_mono1)
  then show "i \<le> e div k" using assms by simp
next
  assume "i \<le> e div k"
  then have "i * k \<le> e div k * k" using assms by (intro mult_right_mono) simp_all
  also have "\<dots> \<le> e" using div_mult_mod_eq [of e k] pos_mod_sign [OF assms, of e] by linarith
  finally show "i * k \<le> e" .
qed

lemma truncate_day_eq: "truncate_day t = (t div day) * day"
  by (simp add: truncate_day_def minus_mod_eq_div_mult)

text \<open>
  The dates between two instants are the midnights of UTC in the closed interval they bound, each once and in
  order: the date of the start is among them only when the start is such a midnight.
\<close>

theorem dates_between:
  "GetDatesBetween s e = map (\<lambda>i. i * day) [- ((- s) div day)..e div day]"
proof -
  have d: "0 < day" by (simp add: go_time)
  have dn: "i * day \<le> e \<longleftrightarrow> i \<le> e div day" for i e by (rule le_div_iff_int [OF d])
  have up: "s \<le> i * day \<longleftrightarrow> - ((- s) div day) \<le> i" for i using dn [of "- i" "- s"] by auto
  have "\<not> 1 - s div day \<le> (- s) div day"
  proof -
    have "(1 - s div day) * day = day - s div day * day" by (simp add: left_diff_distrib)
    then show ?thesis unfolding dn [symmetric] using d div_mult_mod_eq [of s day] pos_mod_sign [OF d, of s] by linarith
  qed
  then have "filter (\<lambda>i. - ((- s) div day) \<le> i \<and> i \<le> e div day) [s div day..e div day] = [- ((- s) div day)..e div day]"
    using upto_split1 [of "s div day" "- ((- s) div day)" "e div day"] by (cases "- ((- s) div day) \<le> e div day") auto
  then show ?thesis
    by (simp add: GetDatesBetween_def truncate_day_eq dates_loop_all filter_map comp_def up dn)
qed

text \<open>The number of days is that between the dates in UTC, except that one day is counted for the same date.\<close>

lemma whole_hours: "go_div (k * day) hour = k * 24 \<and> go_mod (k * day) hour = 0"
proof -
  have "\<bar>k * day\<bar> div \<bar>hour\<bar> = \<bar>k\<bar> * 24" by (simp add: go_time abs_mult)
  then have "go_div (k * day) hour = k * 24"
    by (simp add: go_div_def go_time sgn_mult) (simp add: abs_sgn mult.commute [of "sgn k"] mult.assoc)
  then show ?thesis by (simp add: go_mod_def) (simp add: go_time)
qed

lemma fdiv_whole: "\<bar>k\<bar> < 2 ^ 48 \<Longrightarrow> fdiv (fadd (f64_of_int (k * 24)) (fdiv (f64_of_int 0) (f64_of_int hour))) (Fin 24) = Fin (of_int k)"
  using rnd_int [of k] rnd_int [of "k * 24"] by (simp add: f64_of_int_small go_time abs_mult)

text \<open>
  The difference in days is that of the dates in UTC, whatever the local zone, but one for equal dates: the same
  day and the next one cannot be told apart.
\<close>

theorem days_difference:
  assumes "\<bar>t2 - t1\<bar> < 2 ^ 62" and "d = t2 div day - t1 div day"
  shows "CalculateDaysDifference conv t1 t2 = (if d = 0 then 1 else d)"
proof -
  have e: "truncate_day t2 - truncate_day t1 = d * day" by (simp add: truncate_day_eq assms(2) left_diff_distrib)
  have day: "0 < day" "day \<noteq> 0" by (simp_all add: go_time)
  have t: "truncate_day t \<le> t \<and> t - day < truncate_day t" for t
    using pos_mod_sign [OF day(1), of t] pos_mod_bound [OF day(1), of t] by (simp add: truncate_day_def)
  have "\<bar>d * day\<bar> < 9223372036854775807 - 100000" using t [of t1] t [of t2] assms(1) e unfolding day_def by (auto simp: abs_less_iff)
  then have s: "time_sub (truncate_day t2) (truncate_day t1) = d * day" and b: "\<bar>d\<bar> < 2 ^ 48"
    by (auto simp: time_sub_def e go_time)
  have "in_int64 d" using b by (auto simp: in_int64_def)
  then have "to_int64 conv (fdiv (duration_in hour (d * day)) (Fin 24)) = d"
    using fdiv_whole [OF b] to_int64_int by (simp add: duration_in_def whole_hours)
  moreover have "truncate_day t1 = truncate_day t2 \<longleftrightarrow> d = 0" using e day by auto
  ultimately show ?thesis by (simp add: CalculateDaysDifference_def Let_def s)
qed

lemma days_difference_witness: "CalculateDaysDifference conv 5 6 = 1 \<and> CalculateDaysDifference conv 5 day = 1"
  using days_difference [where ?t1.0 = 5 and ?t2.0 = 6 and d = 0 and conv = conv]
    days_difference [where ?t1.0 = 5 and ?t2.0 = day and d = 1 and conv = conv] by (simp add: go_time)


subsection \<open>Hours, minutes and seconds\<close>

lemma rnd_almost_one: "rnd (4095 / 4096) = Fin (4095 / 4096)"
proof -
  have "rnd_pos (4095 / 4096) = of_int (4095 * 2 ^ 41) * pow2 (- 53)"
    by (rule rnd_pos_at) (simp_all add: pow2_def)
  then have "rnd_pos (4095 / 4096) = 4095 / 4096" by (simp add: pow2_def)
  moreover have "(4095 / 4096 :: rat) < 2 ^ 1024" by (rule less_trans [of _ 1]) simp_all
  ultimately show ?thesis by (simp add: rnd_def)
qed

lemma whole_units:
  assumes "0 \<le> q" and "q \<le> 2 ^ 28" and "0 \<le> r" and "4096 * r \<le> 4095 * u" and "0 < u" and "u \<le> 2 ^ 53"
  shows "to_int64 conv (fadd (f64_of_int q) (fdiv (f64_of_int r) (f64_of_int u))) = q"
proof -
  let ?q = "of_int q :: rat" and ?x = "of_int r / of_int u :: rat"
  have q: "0 \<le> ?q" "?q \<le> 2 ^ 28" using assms(1, 2) of_int_le_iff [of q "2 ^ 28", where ?'a = rat] by simp_all
  have x: "0 \<le> ?x" "?x \<le> 4095 / 4096"
  proof -
    have "of_int (4096 * r) \<le> (of_int (4095 * u) :: rat)" using assms(4) by (simp only: of_int_le_iff)
    then show "?x \<le> 4095 / 4096" using assms(5) by (simp add: field_simps)
    show "0 \<le> ?x" using assms(3, 5) by simp
  qed
  obtain y where y: "rnd ?x = Fin y" "0 \<le> y" "y \<le> 4095 / 4096"
  proof -
    have "Fin 0 \<le> rnd ?x" "rnd ?x \<le> Fin (4095 / 4096)" using rnd_mono [OF x(1)] rnd_mono [OF x(2)] rnd_almost_one by simp_all
    then show ?thesis using that by (cases "rnd ?x") auto
  qed
  obtain v where v: "rnd (?q + y) = Fin v" "?q \<le> v" "v < ?q + 1"
  proof (cases "q = 0")
    case True
    have "Fin 0 \<le> rnd y" "rnd y \<le> Fin (4095 / 4096)" using rnd_mono [OF y(2)] rnd_mono [OF y(3)] rnd_almost_one by simp_all
    then show ?thesis using that True by (cases "rnd y") auto
  next
    case False
    then have one: "1 \<le> ?q" using assms(1) by simp
    have small: "pow2 (- 1022) \<le> 1" using pow2_mono [of "- 1022" 0] by (simp add: pow2_def)
    have b: "0 < ?q + y" "?q + y \<le> 2 ^ 53" "pow2 (- 1022) \<le> ?q + y" using one y q small by simp_all
    have up: "rnd_pos (?q + y) \<le> ?q + y + (?q + y) / 2 ^ 53" by (rule rnd_pos_upper [OF b(1, 3)])
    have tiny: "(?q + y) / 2 ^ 53 < 1 / 4096" using y q by simp
    have "rnd_pos (?q + y) < ?q + 1" using up tiny y(3) by linarith
    moreover have "Fin ?q \<le> rnd (?q + y)" using rnd_mono [of ?q "?q + y"] rnd_int [of q] y assms(1, 2) by simp
    ultimately show ?thesis using that [of "rnd_pos (?q + y)"] rnd_Fin(1) [OF b(1, 2)] y by simp
  qed
  have ru: "r \<le> u" using assms(3, 4, 5) by linarith
  have "fdiv (f64_of_int r) (f64_of_int u) = Fin y"
    using y(1) assms ru by (simp add: f64_of_int_small)
  moreover have "f64_of_int q = Fin ?q" using assms(1, 2) by (simp add: f64_of_int_small)
  moreover have "\<lfloor>v\<rfloor> = q" using v by linarith
  moreover have "f64_trunc (Fin v) = \<lfloor>v\<rfloor>" "in_int64 q" using v q assms(1, 2) by (simp_all add: in_int64_def)
  ultimately show ?thesis using v by (simp add: to_int64_def del: f64_trunc.simps)
qed


lemma unit_of_seconds:
  assumes "0 \<le> n" and "n \<le> 9223372036" and "u = k * second" and "k \<in> {1, 60, 3600}"
  shows "to_int64 conv (duration_in u (n * second)) = n div k"
proof -
  have p: "0 < u" "0 \<le> n * second" "second \<noteq> 0" using assms by (auto simp: go_time)
  have g: "go_div (n * second) u = n div k" "go_mod (n * second) u = n mod k * second"
    using p assms(3) by (simp_all add: go_div_nonneg go_mod_nonneg mult_mod_left)
  show ?thesis
  proof (cases "k = 1")
    case True
    have "fadd (f64_of_int n) (fdiv (f64_of_int 0) (f64_of_int u)) = Fin (of_int n)"
      using assms True by (simp add: f64_of_int_small go_time rnd_int)
    then show ?thesis
      using to_int64_int [of n conv] assms(1, 2) True by (simp add: duration_in_def g in_int64_def)
  next
    case False
    have "n mod k < k" "0 \<le> n mod k" using assms(4) by auto
    moreover have "n div k \<le> n div 60" using assms(1, 4) False by (auto intro: zdiv_mono2)
    moreover have "n div 60 \<le> 2 ^ 28" using assms(2) zdiv_mono1 [of n 9223372036 60] by simp
    ultimately show ?thesis
      unfolding duration_in_def g using assms False
      by (intro whole_units) (auto simp: go_time pos_imp_zdiv_nonneg_iff)
  qed
qed

text \<open>
  A number of seconds is written as hours, minutes and seconds, exactly as integer arithmetic gives them although
  they are computed in floating point, up to the longest duration.
\<close>

theorem seconds_format_exact:
  assumes "0 \<le> n" and "n \<le> 9223372036"
  shows "SecondsToTimeFormat conv n =
    format_int_pad 2 (n div 3600) @ '':'' @ format_int_pad 2 (n div 60 mod 60) @ '':'' @ format_int_pad 2 (n mod 60)"
proof -
  have w: "wrap64 (second * n) = n * second" using assms by (simp add: go_time in_int64_def)
  have "hour = 3600 * second" "minute = 60 * second" "second = 1 * second" by (simp_all add: go_time)
  note u = this [THEN unit_of_seconds [OF assms, where conv = conv]]
  show ?thesis
    using u assms by (simp add: SecondsToTimeFormat_def w Let_def go_mod_nonneg pos_imp_zdiv_nonneg_iff)
qed


lemma seconds_format_exact_witness: "SecondsToTimeFormat conv 86399 = ''23:59:59''"
proof -
  have "format_int_pad 2 23 = ''23''" "format_int_pad 2 59 = ''59''" by code_simp+
  then show ?thesis using seconds_format_exact [of 86399 conv] by simp
qed

text \<open>One second more than the longest duration wraps around.\<close>

lemma seconds_wrap: "wrap64 (second * 9223372037) < 0"
  by (simp add: go_time wrap64_def)

end
