(* ===== verification/Upload.thy ===== *)
theory Upload
  imports GoStrings GoText
begin

text \<open>
  Object storage behind one interface (\<^verbatim>\<open>pkg/upload\<close>, \<^verbatim>\<open>pkg/upload/impl\<close>, \<^verbatim>\<open>pkg/miniox\<close>): options, the
  registry of platforms, and the clients of Aliyun, JD Cloud, Huawei, Tencent, Volcengine and MinIO.  Each client turns a
  file name into an object key and a link, and later turns the link back into the key.  The vendor's SDK is the
  argument \<open>sdk\<close>, a record of the calls made, on a server of any type; \<open>today\<close> is the date as \<^verbatim>\<open>2006/01/02\<close>.
\<close>

datatype oss_error = NilClient | SdkError string | NoSuchFile

record 's oss_sdk =
  sdk_put :: "string \<Rightarrow> string \<Rightarrow> string \<Rightarrow> 's \<Rightarrow> (oss_error + string) \<times> 's"
  sdk_get :: "string \<Rightarrow> string \<Rightarrow> 's \<Rightarrow> oss_error + string"
  sdk_del :: "string \<Rightarrow> string \<Rightarrow> 's \<Rightarrow> oss_error option \<times> 's"
  sdk_sign :: "string \<Rightarrow> string \<Rightarrow> int \<Rightarrow> oss_error + string"
  sdk_acl :: "string \<Rightarrow> string \<Rightarrow> 's \<Rightarrow> oss_error option \<times> 's"
  sdk_tag :: "string \<Rightarrow> string \<Rightarrow> (string \<times> string) list \<Rightarrow> 's \<Rightarrow> oss_error option \<times> 's"
  sdk_copy :: "string \<Rightarrow> string \<Rightarrow> string \<Rightarrow> 's \<Rightarrow> oss_error option \<times> 's"

text \<open>The server and the local files.\<close>

record 's oss_world =
  ow_srv :: 's
  ow_files :: "(string \<times> string) list"

definition call :: "('s \<Rightarrow> 'r \<times> 's) \<Rightarrow> 's oss_world \<Rightarrow> 'r \<times> 's oss_world" where
  "call f w = (let (x, s) = f (ow_srv w) in (x, w\<lparr>ow_srv := s\<rparr>))"

lemma call_simps [simp]: "f (ow_srv w) = (x, s) \<Longrightarrow> call f w = (x, w\<lparr>ow_srv := s\<rparr>)"
  by (simp add: call_def)

subsection \<open>Options and platforms\<close>

record OssOptions =
  BucketName :: string
  Endpoint :: string
  Region :: string
  AccessKeyId :: string
  SecretAccessKey :: string
  Expires :: int
  ObjectKey :: string
  Secure :: bool

definition DefaultOssOptions :: OssOptions where
  "DefaultOssOptions = \<lparr>BucketName = '''', Endpoint = '''', Region = '''', AccessKeyId = '''', SecretAccessKey = '''',
     Expires = 0, ObjectKey = '''', Secure = False\<rparr>"

definition apply_options :: "(OssOptions \<Rightarrow> OssOptions) list \<Rightarrow> OssOptions" where
  "apply_options opts = fold (\<lambda>f. f) opts DefaultOssOptions"

definition WithBucketName :: "string \<Rightarrow> OssOptions \<Rightarrow> OssOptions" where
  "WithBucketName x po = po\<lparr>BucketName := x\<rparr>"

definition WithEndpoint :: "string \<Rightarrow> OssOptions \<Rightarrow> OssOptions" where
  "WithEndpoint x po = po\<lparr>Endpoint := x\<rparr>"

definition WithRegion :: "string \<Rightarrow> OssOptions \<Rightarrow> OssOptions" where
  "WithRegion x po = po\<lparr>Region := x\<rparr>"

definition WithAccessKeyId :: "string \<Rightarrow> OssOptions \<Rightarrow> OssOptions" where
  "WithAccessKeyId x po = po\<lparr>AccessKeyId := x\<rparr>"

definition WithSecretAccessKey :: "string \<Rightarrow> OssOptions \<Rightarrow> OssOptions" where
  "WithSecretAccessKey x po = po\<lparr>SecretAccessKey := x\<rparr>"

definition WithExpires :: "int \<Rightarrow> OssOptions \<Rightarrow> OssOptions" where
  "WithExpires x po = po\<lparr>Expires := x\<rparr>"

definition WithObjectKey :: "string \<Rightarrow> OssOptions \<Rightarrow> OssOptions" where
  "WithObjectKey x po = po\<lparr>ObjectKey := x\<rparr>"

definition WithSecure :: "bool \<Rightarrow> OssOptions \<Rightarrow> OssOptions" where
  "WithSecure x po = po\<lparr>Secure := x\<rparr>"

datatype platform = Aliyun | JDCloud | Huawei | Tencent | Volcengine | MinioS3

definition RegisterOss :: "string \<Rightarrow> platform \<Rightarrow> (string \<times> platform) list \<Rightarrow> (string \<times> platform) list" where
  "RegisterOss platformType factory platforms = (platformType, factory) # platforms"

definition GetPlatform :: "(string \<times> platform) list \<Rightarrow> string \<Rightarrow> platform option" where
  "GetPlatform platforms platformType = map_of platforms platformType"

definition registered :: "(string \<times> platform) list" where
  \<comment> \<open>the \<^verbatim>\<open>init\<close> functions of \<^verbatim>\<open>impl\<close>\<close>
  "registered = fold (\<lambda>(n, p). RegisterOss n p)
     [(''aliyun-oss'', Aliyun), (''huawei-obs'', Huawei), (''jdcloud-oss'', JDCloud), (''minio'', MinioS3), (''s3'', MinioS3),
      (''tencent-cos'', Tencent), (''volcengine-tos'', Volcengine)] []"

subsection \<open>Links and keys\<close>

text \<open>\<^verbatim>\<open>strings.ReplaceAll(s, old, "")\<close> for a text \<open>old\<close> that is not empty.\<close>

function remove_all :: "string \<Rightarrow> string \<Rightarrow> string" where
  "remove_all old [] = []"
| "remove_all old (c # s) =
     (if has_prefix (c # s) old then remove_all old (drop (length old - 1) s) else c # remove_all old s)"
  by pat_completeness auto
termination by (relation "measure (\<lambda>(old, s). length s)") auto

lemma has_prefix_contains: "has_prefix s p \<Longrightarrow> contains s p"
  unfolding has_prefix_def contains_def by (metis prefix_imp_sublist take_is_prefix)

lemma contains_tail: "contains s p \<Longrightarrow> contains (c # s) p"
  unfolding contains_def by (simp add: sublist_Cons_right)

lemma remove_all_absent: "\<not> contains s old \<Longrightarrow> remove_all old s = s"
proof (induction old s rule: remove_all.induct)
  case (2 old c s)
  have "\<not> has_prefix (c # s) old" "\<not> contains s old" using 2(3) has_prefix_contains contains_tail by blast+
  with 2(2) show ?case by simp
qed simp

lemma remove_all_front:
  assumes "p \<noteq> ''''" and "\<not> contains s p"
  shows "remove_all p (p @ s) = s"
proof -
  obtain c q where p: "p = c # q" using assms(1) by (cases p) auto
  have "remove_all p (p @ s) = remove_all p (drop (length p - 1) (q @ s))"
    using remove_all.simps(2) [of p c "q @ s"] has_prefix_append [of p s] by (simp add: p)
  then show ?thesis using remove_all_absent [OF assms(2)] by (simp add: p)
qed

definition stripScheme :: "string \<Rightarrow> string" where
  "stripScheme endpoint =
     (if has_prefix endpoint ''https://'' then trim_prefix endpoint ''https://''
      else if has_prefix endpoint ''http://'' then trim_prefix endpoint ''http://''
      else endpoint)"

definition link_prefix :: "string \<Rightarrow> string \<Rightarrow> string" where
  \<comment> \<open>\<^verbatim>\<open>https://%s.%s/\<close>\<close>
  "link_prefix bucketName endpoint = ''https://'' @ bucketName @ ''.'' @ endpoint @ ''/''"

lemma link_prefix_nonempty [simp]: "link_prefix b e \<noteq> ''''"
  by (simp add: link_prefix_def)

text \<open>The fields every client has.\<close>

record oss_base =
  ETag :: string
  FileSize :: int
  Catalogue :: string
  IsTime :: bool
  IsCustomStorage :: bool

definition GetETag :: "'a oss_base_scheme \<Rightarrow> string" where
  "GetETag a = ETag a"

definition GetFileSize :: "'a oss_base_scheme \<Rightarrow> int" where
  "GetFileSize a = FileSize a"

definition SetCatalogue :: "string \<Rightarrow> 'a oss_base_scheme \<Rightarrow> 'a oss_base_scheme" where
  "SetCatalogue catalogue a = a\<lparr>Catalogue := catalogue\<rparr>"

definition SetIsTime :: "bool \<Rightarrow> 'a oss_base_scheme \<Rightarrow> 'a oss_base_scheme" where
  "SetIsTime isTime a = a\<lparr>IsTime := isTime\<rparr>"

definition SetCustomStorage :: "bool \<Rightarrow> 'a oss_base_scheme \<Rightarrow> 'a oss_base_scheme" where
  "SetCustomStorage isCustomStorage a = a\<lparr>IsCustomStorage := isCustomStorage\<rparr>"

definition new_base :: oss_base where
  "new_base = \<lparr>ETag = '''', FileSize = 0, Catalogue = '''', IsTime = False, IsCustomStorage = False\<rparr>"

definition default_catalogue :: "'a oss_base_scheme \<Rightarrow> 'a oss_base_scheme" where
  "default_catalogue a = (if Catalogue a = '''' then a\<lparr>Catalogue := ''audio''\<rparr> else a)"

definition object_key :: "string \<Rightarrow> string \<Rightarrow> string \<Rightarrow> 'a oss_base_scheme \<Rightarrow> string \<Rightarrow> string" where
  \<comment> \<open>the key of an upload; \<open>pfx\<close> is the link prefix a custom name is stripped of, \<open>lead\<close> comes before the catalogue\<close>
  "object_key lead pfx today a fileName =
     (let path = lead @ Catalogue a @ ''/'' @ fileName;
          path = (if IsTime a then lead @ Catalogue a @ ''/'' @ today @ ''/'' @ fileName else path)
      in if IsCustomStorage a then remove_all pfx fileName else path)"

text \<open>Reading a local file, and writing one after a download.\<close>

definition local_file :: "string \<Rightarrow> 's oss_world \<Rightarrow> oss_error + string" where
  "local_file path w = (case map_of (ow_files w) path of None \<Rightarrow> Inl NoSuchFile | Some x \<Rightarrow> Inr x)"

definition save_file :: "string \<Rightarrow> oss_error + string \<Rightarrow> 's oss_world \<Rightarrow> oss_error option \<times> 's oss_world" where
  "save_file path res w =
     (case res of Inl e \<Rightarrow> (Some e, w) | Inr x \<Rightarrow> (None, w\<lparr>ow_files := (path, x) # ow_files w\<rparr>))"

subsection \<open>Aliyun\<close>

record 's AliyunOss = oss_base +
  ali_ossBucket :: "'s oss_sdk option"
  ali_bucketName :: string
  ali_endpoint :: string
  ali_expires :: int

abbreviation ali_prefix :: "'s AliyunOss \<Rightarrow> string" where
  "ali_prefix a \<equiv> link_prefix (ali_bucketName a) (ali_endpoint a)"

definition Aliyun_NewClient ::
  "(string \<Rightarrow> string \<Rightarrow> string \<Rightarrow> string \<Rightarrow> oss_error + 's oss_sdk) \<Rightarrow> (OssOptions \<Rightarrow> OssOptions) list \<Rightarrow> 's AliyunOss \<Rightarrow> 's AliyunOss" where
  "Aliyun_NewClient newBucket opts a =
     (let po = apply_options opts
      in case newBucket (Endpoint po) (AccessKeyId po) (SecretAccessKey po) (BucketName po) of
           Inl _ \<Rightarrow> a
         | Inr bucket \<Rightarrow> a\<lparr>ali_ossBucket := Some bucket, ali_bucketName := BucketName po, ali_endpoint := Endpoint po,
                           ali_expires := Expires po\<rparr>)"

definition Aliyun_UploadFileLocal ::
  "string \<Rightarrow> (string \<Rightarrow> string) \<Rightarrow> string \<Rightarrow> string \<Rightarrow> 's AliyunOss \<Rightarrow> 's oss_world \<Rightarrow>
   (oss_error + string) \<times> 's AliyunOss \<times> 's oss_world" where
  "Aliyun_UploadFileLocal today md5 fileName fileLocalPath a w =
     (case ali_ossBucket a of None \<Rightarrow> (Inl NilClient, a, w)
      | Some sdk \<Rightarrow>
          let a = default_catalogue a; ossPath = object_key '''' (ali_prefix a) today a fileName
          in case local_file fileLocalPath w of Inl e \<Rightarrow> (Inl e, a, w)
             | Inr content \<Rightarrow>
                 (case call (sdk_put sdk (ali_bucketName a) ossPath content) w of
                    (Inl e, w) \<Rightarrow> (Inl e, a, w)
                  | (Inr _, w) \<Rightarrow> (Inr (ali_prefix a @ ossPath),
                                 a\<lparr>ETag := md5 content, FileSize := int (length content)\<rparr>, w)))"

definition Aliyun_UploadFileIo ::
  "string \<Rightarrow> string \<Rightarrow> string \<Rightarrow> 's AliyunOss \<Rightarrow> 's oss_world \<Rightarrow> (oss_error + string) \<times> 's AliyunOss \<times> 's oss_world" where
  \<comment> \<open>an error of the SDK is logged and no error is returned\<close>
  "Aliyun_UploadFileIo today fileName content a w =
     (case ali_ossBucket a of None \<Rightarrow> (Inl NilClient, a, w)
      | Some sdk \<Rightarrow>
          let a = default_catalogue a; ossPath = object_key '''' (ali_prefix a) today a fileName
          in case call (sdk_put sdk (ali_bucketName a) ossPath content) w of
               (Inl e, w) \<Rightarrow> (Inr '''', a, w)
             | (Inr _, w) \<Rightarrow> (Inr (ali_prefix a @ ossPath), a, w))"

text \<open>A nil bucket is dereferenced by some operations: \<open>None\<close> is the panic.\<close>

definition Aliyun_Download ::
  "string \<Rightarrow> string \<Rightarrow> string \<Rightarrow> 's AliyunOss \<Rightarrow> 's oss_world \<Rightarrow> (oss_error option \<times> 's oss_world) option" where
  "Aliyun_Download fileUrl fileName dataFolder a w =
     map_option (\<lambda>sdk. save_file (dataFolder @ fileName)
        (sdk_get sdk (ali_bucketName a) (remove_all (ali_prefix a) fileUrl) (ow_srv w)) w) (ali_ossBucket a)"

definition Aliyun_Delete :: "string \<Rightarrow> 's AliyunOss \<Rightarrow> 's oss_world \<Rightarrow> oss_error option \<times> 's oss_world" where
  "Aliyun_Delete path a w =
     (case ali_ossBucket a of None \<Rightarrow> (Some NilClient, w)
      | Some sdk \<Rightarrow> call (sdk_del sdk (ali_bucketName a) (remove_all (ali_prefix a) path)) w)"

definition Aliyun_GetPresignedURL :: "string \<Rightarrow> 's AliyunOss \<Rightarrow> (oss_error + string) option" where
  "Aliyun_GetPresignedURL path a =
     map_option (\<lambda>sdk. sdk_sign sdk (ali_bucketName a) (remove_all (ali_prefix a) path) (ali_expires a)) (ali_ossBucket a)"

definition Aliyun_PutACL :: "string \<Rightarrow> 's AliyunOss \<Rightarrow> 's oss_world \<Rightarrow> (oss_error option \<times> 's oss_world) option" where
  \<comment> \<open>the path is used as the key\<close>
  "Aliyun_PutACL path a w = map_option (\<lambda>sdk. call (sdk_acl sdk (ali_bucketName a) path) w) (ali_ossBucket a)"

definition Aliyun_SetTagging ::
  "string \<Rightarrow> (string \<times> string) list \<Rightarrow> 's AliyunOss \<Rightarrow> 's oss_world \<Rightarrow> (oss_error option \<times> 's oss_world) option" where
  \<comment> \<open>the path is used as the key; the tags come in any order\<close>
  "Aliyun_SetTagging path tags a w = map_option (\<lambda>sdk. call (sdk_tag sdk (ali_bucketName a) path tags) w) (ali_ossBucket a)"

definition Aliyun_CopySelf :: "string \<Rightarrow> string \<Rightarrow> 's AliyunOss \<Rightarrow> 's oss_world \<Rightarrow> oss_error option \<times> 's oss_world" where
  "Aliyun_CopySelf path storageClass a w = (None, w)"


subsection \<open>JD Cloud\<close>

record 's JDCloudOss = oss_base +
  jd_s3Client :: "'s oss_sdk option"
  jd_bucketName :: string
  jd_endpoint :: string
  jd_region :: string
  jd_expires :: int

abbreviation jd_prefix :: "'s JDCloudOss \<Rightarrow> string" where
  "jd_prefix j \<equiv> link_prefix (jd_bucketName j) (jd_endpoint j)"

definition parseRegionFromEndpoint :: "string \<Rightarrow> string" where
  "parseRegionFromEndpoint endpoint =
     (let parts = split_on (CHR ''.'') endpoint
      in if length parts \<ge> 3 \<and> (parts ! 0 = ''s3'' \<or> parts ! 0 = ''s3-internal'') then parts ! 1 else '''')"

definition JDCloud_NewClient ::
  "(string \<Rightarrow> string \<Rightarrow> string \<Rightarrow> string \<Rightarrow> oss_error + 's oss_sdk) \<Rightarrow> (OssOptions \<Rightarrow> OssOptions) list \<Rightarrow> 's JDCloudOss \<Rightarrow> 's JDCloudOss" where
  \<comment> \<open>\<open>newSession\<close> is the check of the credentials and the session\<close>
  "JDCloud_NewClient newSession opts j =
     (let po = apply_options opts;
          j = j\<lparr>jd_endpoint := stripScheme (Endpoint po)\<rparr>;
          j = j\<lparr>jd_region := Region po\<rparr>;
          j = (if jd_region j = '''' then j\<lparr>jd_region := parseRegionFromEndpoint (jd_endpoint j)\<rparr> else j)
      in case newSession (AccessKeyId po) (SecretAccessKey po) (jd_region j) (jd_endpoint j) of
           Inl _ \<Rightarrow> j
         | Inr client \<Rightarrow> j\<lparr>jd_s3Client := Some client, jd_bucketName := BucketName po, jd_expires := Expires po\<rparr>)"

definition JDCloud_UploadFileLocal ::
  "string \<Rightarrow> (string \<Rightarrow> string) \<Rightarrow> string \<Rightarrow> string \<Rightarrow> 's JDCloudOss \<Rightarrow> 's oss_world \<Rightarrow>
   (oss_error + string) \<times> 's JDCloudOss \<times> 's oss_world" where
  "JDCloud_UploadFileLocal today md5 fileName fileLocalPath j w =
     (case jd_s3Client j of None \<Rightarrow> (Inl NilClient, j, w)
      | Some sdk \<Rightarrow>
          let j = default_catalogue j; objectKey = object_key '''' (jd_prefix j) today j fileName
          in case local_file fileLocalPath w of Inl e \<Rightarrow> (Inl e, j, w)
             | Inr content \<Rightarrow>
                 (case call (sdk_put sdk (jd_bucketName j) objectKey content) w of
                    (Inl e, w) \<Rightarrow> (Inl e, j, w)
                  | (Inr _, w) \<Rightarrow> (Inr (jd_prefix j @ objectKey),
                                 j\<lparr>ETag := md5 content, FileSize := int (length content)\<rparr>, w)))"

definition trim_quotes :: "string \<Rightarrow> string" where
  \<comment> \<open>\<^verbatim>\<open>strings.Trim(s, "\"")\<close>\<close>
  "trim_quotes s = rev (dropWhile (\<lambda>c. c = CHR 34) (rev (dropWhile (\<lambda>c. c = CHR 34) s)))"

definition JDCloud_UploadFileIo ::
  "string \<Rightarrow> string \<Rightarrow> string \<Rightarrow> 's JDCloudOss \<Rightarrow> 's oss_world \<Rightarrow> (oss_error + string) \<times> 's JDCloudOss \<times> 's oss_world" where
  "JDCloud_UploadFileIo today fileName content j w =
     (case jd_s3Client j of None \<Rightarrow> (Inl NilClient, j, w)
      | Some sdk \<Rightarrow>
          let j = default_catalogue j; objectKey = object_key '''' (jd_prefix j) today j fileName
          in case call (sdk_put sdk (jd_bucketName j) objectKey content) w of
               (Inl e, w) \<Rightarrow> (Inl e, j, w)
             | (Inr etag, w) \<Rightarrow> (Inr (jd_prefix j @ objectKey),
                               j\<lparr>ETag := trim_quotes etag, FileSize := int (length content)\<rparr>, w))"

definition JDCloud_Download ::
  "string \<Rightarrow> string \<Rightarrow> string \<Rightarrow> 's JDCloudOss \<Rightarrow> 's oss_world \<Rightarrow> oss_error option \<times> 's oss_world" where
  "JDCloud_Download fileUrl fileName dataFolder j w =
     (case jd_s3Client j of None \<Rightarrow> (Some NilClient, w)
      | Some sdk \<Rightarrow> save_file (dataFolder @ fileName)
          (sdk_get sdk (jd_bucketName j) (remove_all (jd_prefix j) fileUrl) (ow_srv w)) w)"

definition JDCloud_GetPresignedURL :: "string \<Rightarrow> 's JDCloudOss \<Rightarrow> oss_error + string" where
  "JDCloud_GetPresignedURL path j =
     (case jd_s3Client j of None \<Rightarrow> Inl NilClient
      | Some sdk \<Rightarrow>
          let expires = (if jd_expires j \<le> 0 then 3600 else jd_expires j)
          in sdk_sign sdk (jd_bucketName j) (remove_all (jd_prefix j) path) expires)"

definition JDCloud_Delete :: "string \<Rightarrow> 's JDCloudOss \<Rightarrow> 's oss_world \<Rightarrow> oss_error option \<times> 's oss_world" where
  "JDCloud_Delete path j w =
     (case jd_s3Client j of None \<Rightarrow> (Some NilClient, w)
      | Some sdk \<Rightarrow> call (sdk_del sdk (jd_bucketName j) (remove_all (jd_prefix j) path)) w)"

text \<open>\<^verbatim>\<open>PutACL\<close>, \<^verbatim>\<open>SetTagging\<close> and \<^verbatim>\<open>CopySelf\<close> of JD Cloud and Huawei do nothing.\<close>

definition no_operation :: "'s oss_world \<Rightarrow> oss_error option \<times> 's oss_world" where
  "no_operation w = (None, w)"

subsection \<open>Huawei\<close>

record 's HuaweiObs = oss_base +
  hw_obsClient :: "'s oss_sdk option"
  hw_bucketName :: string
  hw_endpoint :: string
  hw_expires :: int

abbreviation hw_prefix :: "'s HuaweiObs \<Rightarrow> string" where
  "hw_prefix h \<equiv> link_prefix (hw_bucketName h) (hw_endpoint h)"

definition Huawei_NewClient ::
  "(string \<Rightarrow> string \<Rightarrow> string \<Rightarrow> oss_error + 's oss_sdk) \<Rightarrow> (OssOptions \<Rightarrow> OssOptions) list \<Rightarrow> 's HuaweiObs \<Rightarrow> 's HuaweiObs" where
  "Huawei_NewClient newObs opts h =
     (let po = apply_options opts;
          h = h\<lparr>hw_endpoint := stripScheme (Endpoint po)\<rparr>;
          endpointForSDK = (if \<not> has_prefix (Endpoint po) ''http://'' \<and> \<not> has_prefix (Endpoint po) ''https://''
                            then ''https://'' @ Endpoint po else Endpoint po)
      in case newObs (AccessKeyId po) (SecretAccessKey po) endpointForSDK of
           Inl _ \<Rightarrow> h
         | Inr client \<Rightarrow> h\<lparr>hw_obsClient := Some client, hw_bucketName := BucketName po, hw_expires := Expires po\<rparr>)"

definition Huawei_UploadFileLocal ::
  "string \<Rightarrow> (string \<Rightarrow> string) \<Rightarrow> string \<Rightarrow> string \<Rightarrow> 's HuaweiObs \<Rightarrow> 's oss_world \<Rightarrow>
   (oss_error + string) \<times> 's HuaweiObs \<times> 's oss_world" where
  "Huawei_UploadFileLocal today md5 fileName fileLocalPath h w =
     (case hw_obsClient h of None \<Rightarrow> (Inl NilClient, h, w)
      | Some sdk \<Rightarrow>
          let h = default_catalogue h; objectKey = object_key '''' (hw_prefix h) today h fileName
          in case local_file fileLocalPath w of Inl e \<Rightarrow> (Inl e, h, w)
             | Inr content \<Rightarrow>
                 (case call (sdk_put sdk (hw_bucketName h) objectKey content) w of
                    (Inl e, w) \<Rightarrow> (Inl e, h, w)
                  | (Inr _, w) \<Rightarrow> (Inr (hw_prefix h @ objectKey),
                                 h\<lparr>ETag := md5 content, FileSize := int (length content)\<rparr>, w)))"

definition Huawei_UploadFileIo ::
  "string \<Rightarrow> string \<Rightarrow> string \<Rightarrow> 's HuaweiObs \<Rightarrow> 's oss_world \<Rightarrow> (oss_error + string) \<times> 's HuaweiObs \<times> 's oss_world" where
  "Huawei_UploadFileIo today fileName content h w =
     (case hw_obsClient h of None \<Rightarrow> (Inl NilClient, h, w)
      | Some sdk \<Rightarrow>
          let h = default_catalogue h; objectKey = object_key '''' (hw_prefix h) today h fileName
          in case call (sdk_put sdk (hw_bucketName h) objectKey content) w of
               (Inl e, w) \<Rightarrow> (Inl e, h, w)
             | (Inr etag, w) \<Rightarrow> (Inr (hw_prefix h @ objectKey), h\<lparr>ETag := trim_quotes etag\<rparr>, w))"

definition Huawei_Download ::
  "string \<Rightarrow> string \<Rightarrow> string \<Rightarrow> 's HuaweiObs \<Rightarrow> 's oss_world \<Rightarrow> oss_error option \<times> 's oss_world" where
  "Huawei_Download fileUrl fileName dataFolder h w =
     (case hw_obsClient h of None \<Rightarrow> (Some NilClient, w)
      | Some sdk \<Rightarrow> save_file (dataFolder @ fileName)
          (sdk_get sdk (hw_bucketName h) (remove_all (hw_prefix h) fileUrl) (ow_srv w)) w)"

definition Huawei_GetPresignedURL :: "string \<Rightarrow> 's HuaweiObs \<Rightarrow> oss_error + string" where
  "Huawei_GetPresignedURL path h =
     (case hw_obsClient h of None \<Rightarrow> Inl NilClient
      | Some sdk \<Rightarrow>
          let expires = (if hw_expires h \<le> 0 then 3600 else hw_expires h)
          in sdk_sign sdk (hw_bucketName h) (remove_all (hw_prefix h) path) expires)"

definition Huawei_Delete :: "string \<Rightarrow> 's HuaweiObs \<Rightarrow> 's oss_world \<Rightarrow> oss_error option \<times> 's oss_world" where
  "Huawei_Delete path h w =
     (case hw_obsClient h of None \<Rightarrow> (Some NilClient, w)
      | Some sdk \<Rightarrow> call (sdk_del sdk (hw_bucketName h) (remove_all (hw_prefix h) path)) w)"

subsection \<open>Tencent\<close>

record 's TencentCos = oss_base +
  tc_cosClient :: "'s oss_sdk option"
  tc_cosUrl :: string
  tc_expires :: int

definition Tencent_NewClient ::
  "(string \<Rightarrow> string \<Rightarrow> string \<Rightarrow> 's oss_sdk) \<Rightarrow> (OssOptions \<Rightarrow> OssOptions) list \<Rightarrow> 's TencentCos \<Rightarrow> 's TencentCos" where
  "Tencent_NewClient newClient opts t =
     (let po = apply_options opts
      in t\<lparr>tc_cosUrl := Endpoint po, tc_expires := Expires po,
           tc_cosClient := Some (newClient (Endpoint po) (AccessKeyId po) (SecretAccessKey po))\<rparr>)"

text \<open>The bucket is part of the URL of the client; a nil client panics (\<open>None\<close>).\<close>

definition Tencent_upload where
  \<comment> \<open>what both uploads do once the catalogue and the content are known\<close>
  "Tencent_upload today fileName content (t :: 's TencentCos) w sdk =
     (let cosPath = object_key ''/'' (tc_cosUrl t @ ''/'') today t fileName
      in case call (sdk_put sdk '''' cosPath content) w of
           (Inl e, w) \<Rightarrow> (Inl e, t, w)
         | (Inr etag, w) \<Rightarrow> (Inr (tc_cosUrl t @ cosPath),
                           t\<lparr>ETag := filter (\<lambda>c. c \<noteq> CHR 34) etag, FileSize := int (length content)\<rparr>, w))"

definition Tencent_UploadFileLocal where
  "Tencent_UploadFileLocal today fileName fileLocalPath (t :: 's TencentCos) w =
     (let t = default_catalogue t
      in map_option (\<lambda>sdk. case local_file fileLocalPath w of Inl e \<Rightarrow> (Inl e, t, w)
           | Inr content \<Rightarrow> Tencent_upload today fileName content t w sdk) (tc_cosClient t))"

definition Tencent_UploadFileIo where
  \<comment> \<open>no default catalogue\<close>
  "Tencent_UploadFileIo today fileName content (t :: 's TencentCos) w =
     map_option (Tencent_upload today fileName content t w) (tc_cosClient t)"

definition cos_key :: "'s TencentCos \<Rightarrow> string \<Rightarrow> string" where
  "cos_key t path = remove_all (tc_cosUrl t @ ''/'') path"

definition Tencent_Download where
  "Tencent_Download fileUrl fileName dataFolder (t :: 's TencentCos) w =
     map_option (\<lambda>sdk. save_file (dataFolder @ fileName) (sdk_get sdk '''' (cos_key t fileUrl) (ow_srv w)) w) (tc_cosClient t)"

definition Tencent_GetPresignedURL :: "string \<Rightarrow> 's TencentCos \<Rightarrow> (oss_error + string) option" where
  "Tencent_GetPresignedURL path t =
     map_option (\<lambda>sdk. sdk_sign sdk '''' (cos_key t path) (tc_expires t)) (tc_cosClient t)"

definition Tencent_PutACL where
  "Tencent_PutACL path (t :: 's TencentCos) w = map_option (\<lambda>sdk. call (sdk_acl sdk '''' (cos_key t path)) w) (tc_cosClient t)"

definition Tencent_SetTagging where
  "Tencent_SetTagging path tags (t :: 's TencentCos) w =
     map_option (\<lambda>sdk. call (sdk_tag sdk '''' (cos_key t path) tags) w) (tc_cosClient t)"

definition Tencent_CopySelf where
  "Tencent_CopySelf path storageClass (t :: 's TencentCos) w =
     (let key = cos_key t path;
          source = trim_prefix (trim_prefix (tc_cosUrl t) ''https://'') ''http://''
      in map_option (\<lambda>sdk. call (sdk_copy sdk key (source @ ''/'' @ key) storageClass) w) (tc_cosClient t))"

definition Tencent_Delete :: "string \<Rightarrow> 's TencentCos \<Rightarrow> 's oss_world \<Rightarrow> oss_error option \<times> 's oss_world" where
  "Tencent_Delete path t w =
     (case tc_cosClient t of None \<Rightarrow> (Some NilClient, w) | Some sdk \<Rightarrow> call (sdk_del sdk '''' (cos_key t path)) w)"


subsection \<open>Volcengine\<close>

record 's VolcEngineTos = oss_base +
  ve_bucketName :: string
  ve_objectKey :: string
  ve_tosClient :: "'s oss_sdk option"

definition Volc_NewClient ::
  "(string \<Rightarrow> string \<Rightarrow> string \<Rightarrow> string \<Rightarrow> oss_error + 's oss_sdk) \<Rightarrow> (OssOptions \<Rightarrow> OssOptions) list \<Rightarrow> 's VolcEngineTos \<Rightarrow> 's VolcEngineTos" where
  \<comment> \<open>the fourth argument of \<^verbatim>\<open>NewClientV2\<close> is the region; it gets the name of the bucket\<close>
  "Volc_NewClient newClientV2 opts v =
     (let po = apply_options opts
      in case newClientV2 (Endpoint po) (AccessKeyId po) (SecretAccessKey po) (BucketName po) of
           Inl _ \<Rightarrow> v
         | Inr client \<Rightarrow> v\<lparr>ve_tosClient := Some client, ve_bucketName := BucketName po, ve_objectKey := ObjectKey po\<rparr>)"

definition volc_key :: "'s VolcEngineTos \<Rightarrow> string \<Rightarrow> string" where
  "volc_key v fileName = ve_objectKey v @ ''/'' @ Catalogue v @ ''/'' @ fileName"

definition volc_prefix :: "'s VolcEngineTos \<Rightarrow> string" where
  "volc_prefix v = ''voldtos://'' @ ve_bucketName v @ ''/''"

definition Volc_UploadFileLocal where
  \<comment> \<open>the error of the SDK is not looked at: its output is nil then, and reading its \<^verbatim>\<open>ETag\<close> panics (\<open>None\<close>)\<close>
  "Volc_UploadFileLocal fileName fileLocalPath (v :: 's VolcEngineTos) w =
     (case ve_tosClient v of None \<Rightarrow> Some (Inl NilClient, v, w)
      | Some sdk \<Rightarrow>
          (case local_file fileLocalPath w of Inl e \<Rightarrow> Some (Inl e, v, w)
           | Inr content \<Rightarrow>
               (case call (sdk_put sdk (ve_bucketName v) (volc_key v fileName) content) w of
                  (Inl e, w) \<Rightarrow> None
                | (Inr etag, w) \<Rightarrow> Some (Inr (volc_prefix v @ volc_key v fileName),
                                       v\<lparr>ETag := etag, FileSize := int (length content)\<rparr>, w))))"

definition Volc_UploadFileIo where
  "Volc_UploadFileIo fileName content (v :: 's VolcEngineTos) w =
     (case ve_tosClient v of None \<Rightarrow> (Inl NilClient, w)
      | Some sdk \<Rightarrow>
          (case call (sdk_put sdk (ve_bucketName v) (volc_key v fileName) content) w of
             (Inl e, w) \<Rightarrow> (Inl e, w)
           | (Inr etag, w) \<Rightarrow> (Inr (volc_prefix v @ volc_key v fileName), w)))"

definition Volc_Download where
  \<comment> \<open>nothing is downloaded and no error returned\<close>
  "Volc_Download fileUrl fileName dataFolder (v :: 's VolcEngineTos) (w :: 's oss_world) = (None :: oss_error option, w)"

definition Volc_GetPresignedURL :: "string \<Rightarrow> 's VolcEngineTos \<Rightarrow> oss_error + string" where
  "Volc_GetPresignedURL path v = Inr ''''"

definition Volc_Delete :: "string \<Rightarrow> 's VolcEngineTos \<Rightarrow> 's oss_world \<Rightarrow> oss_error option \<times> 's oss_world" where
  "Volc_Delete path v w =
     (case ve_tosClient v of None \<Rightarrow> (Some NilClient, w)
      | Some sdk \<Rightarrow> call (sdk_del sdk (ve_bucketName v) (trim_prefix path (volc_prefix v))) w)"

subsection \<open>MinIO\<close>

text \<open>\<open>mx_url\<close> is scheme and host of the endpoint, as in \<^verbatim>\<open>https://host\<close>.\<close>

record 's MinioX =
  mx_BucketName :: string
  mx_Module :: string
  mx_ObjectSize :: int
  mx_Expires :: int
  mx_ETag :: string
  mx_client :: "'s oss_sdk option"
  mx_url :: string

definition mx_put where
  \<comment> \<open>the common part of \<^verbatim>\<open>UploadFile\<close> and \<^verbatim>\<open>Upload\<close>\<close>
  "mx_put objectName content link (m :: 's MinioX) w sdk =
     (case call (sdk_put sdk (mx_BucketName m) (mx_Module m @ objectName) content) w of
        (Inl e, w) \<Rightarrow> (Inl e, m, w)
      | (Inr etag, w) \<Rightarrow> (Inr link, m\<lparr>mx_ObjectSize := int (length content), mx_ETag := etag\<rparr>, w))"

definition UploadFile where
  "UploadFile objectName filePath (m :: 's MinioX) w =
     (case mx_client m of None \<Rightarrow> (Inl NilClient, m, w)
      | Some sdk \<Rightarrow>
          (case local_file filePath w of Inl e \<Rightarrow> (Inl e, m, w)
           | Inr content \<Rightarrow>
               mx_put objectName content (mx_url m @ ''/'' @ mx_BucketName m @ ''/'' @ mx_Module m @ objectName) m w sdk))"

definition MinioX_Upload where
  \<comment> \<open>the link has no slash between the bucket and the module\<close>
  "MinioX_Upload objectName content (m :: 's MinioX) w =
     (case mx_client m of None \<Rightarrow> (Inl NilClient, m, w)
      | Some sdk \<Rightarrow> mx_put objectName content (mx_url m @ ''/'' @ mx_BucketName m @ mx_Module m @ objectName) m w sdk)"

definition mx_key :: "'s MinioX \<Rightarrow> string \<Rightarrow> string" where
  "mx_key m fileUrl = remove_all (mx_url m @ ''/'' @ mx_BucketName m @ ''/'') fileUrl"

definition DownloadFile where
  "DownloadFile fileUrl localFileName (m :: 's MinioX) w =
     map_option (\<lambda>sdk. save_file localFileName (sdk_get sdk (mx_BucketName m) (mx_key m fileUrl) (ow_srv w)) w) (mx_client m)"

definition GetObject where
  \<comment> \<open>the bucket stays in the name of the object; an error is nil\<close>
  "GetObject fileUrl (m :: 's MinioX) w =
     map_option (\<lambda>sdk. case sdk_get sdk (mx_BucketName m) (remove_all (mx_url m) fileUrl) (ow_srv w) of
        Inl _ \<Rightarrow> None | Inr x \<Rightarrow> Some x) (mx_client m)"

definition GetObjectUrl where
  \<comment> \<open>scheme, host and path of the signed link: the signature is in its query, which is left out\<close>
  "GetObjectUrl objectName (m :: 's MinioX) =
     map_option (\<lambda>sdk. case sdk_sign sdk (mx_BucketName m) (mx_Module m @ objectName) (mx_Expires m) of
        Inl e \<Rightarrow> Inl e | Inr u \<Rightarrow> Inr (takeWhile (\<lambda>c. c \<noteq> CHR ''?'') u)) (mx_client m)"

definition MinioX_GetPresignedURL where
  "MinioX_GetPresignedURL fileUrl (m :: 's MinioX) = GetObjectUrl (mx_key m fileUrl) m"

definition DeleteObject :: "string \<Rightarrow> 's MinioX \<Rightarrow> 's oss_world \<Rightarrow> oss_error option \<times> 's oss_world" where
  "DeleteObject fileUrl m w =
     (case mx_client m of None \<Rightarrow> (Some NilClient, w)
      | Some sdk \<Rightarrow> call (sdk_del sdk (mx_BucketName m) (mx_key m fileUrl)) w)"

record 's Minio = oss_base +
  mi_client :: "'s MinioX option"

text \<open>The options of \<^verbatim>\<open>miniox\<close> itself, each a function on the record of options.\<close>

record minioOptions =
  mo_BucketName :: string
  mo_Endpoint :: string
  mo_AccessKeyId :: string
  mo_SecretAccessKey :: string
  mo_Module :: string
  mo_Expires :: int
  mo_Secure :: bool

definition defaultS3Options :: minioOptions where
  "defaultS3Options = \<lparr>mo_BucketName = '''', mo_Endpoint = '''', mo_AccessKeyId = '''', mo_SecretAccessKey = '''',
     mo_Module = '''', mo_Expires = 0, mo_Secure = False\<rparr>"

datatype MinioOption =
  MxBucketName string | MxEndpoint string | MxAccessKeyId string | MxSecretAccessKey string | MxModule string |
  MxExpires int | MxSecure bool

fun minio_apply :: "MinioOption \<Rightarrow> minioOptions \<Rightarrow> minioOptions" where
  "minio_apply (MxBucketName x) po = po\<lparr>mo_BucketName := x\<rparr>"
| "minio_apply (MxEndpoint x) po = po\<lparr>mo_Endpoint := x\<rparr>"
| "minio_apply (MxAccessKeyId x) po = po\<lparr>mo_AccessKeyId := x\<rparr>"
| "minio_apply (MxSecretAccessKey x) po = po\<lparr>mo_SecretAccessKey := x\<rparr>"
| "minio_apply (MxModule x) po = po\<lparr>mo_Module := x\<rparr>"
| "minio_apply (MxExpires x) po = po\<lparr>mo_Expires := x\<rparr>"
| "minio_apply (MxSecure x) po = po\<lparr>mo_Secure := x\<rparr>"

definition initMinioX where
  \<comment> \<open>\<open>new\<close> is \<^verbatim>\<open>minio.New\<close> with the URL of the endpoint; an error is printed and leaves a nil client\<close>
  "initMinioX new endpoint accessKeyId secretAccessKey secure =
     (case new endpoint accessKeyId secretAccessKey secure of Inl (_ :: oss_error) \<Rightarrow> None | Inr c \<Rightarrow> Some c)"

definition NewMinioX ::
  "(string \<Rightarrow> string \<Rightarrow> string \<Rightarrow> bool \<Rightarrow> oss_error + 's oss_sdk \<times> string) \<Rightarrow> MinioOption list \<Rightarrow> 's MinioX" where
  "NewMinioX new options =
     (let po = fold minio_apply options defaultS3Options;
          client = initMinioX new (mo_Endpoint po) (mo_AccessKeyId po) (mo_SecretAccessKey po) (mo_Secure po)
      in \<lparr>mx_BucketName = mo_BucketName po, mx_Module = mo_Module po, mx_ObjectSize = 0, mx_Expires = mo_Expires po,
          mx_ETag = '''', mx_client = map_option fst client, mx_url = (case client of None \<Rightarrow> '''' | Some c \<Rightarrow> snd c)\<rparr>)"

definition Minio_NewClient where
  "Minio_NewClient new opts (m :: 's Minio) =
     (let po = apply_options opts
      in m\<lparr>mi_client := Some (NewMinioX new
             [MxBucketName (BucketName po), MxAccessKeyId (AccessKeyId po), MxSecretAccessKey (SecretAccessKey po),
              MxEndpoint (Endpoint po), MxSecure (Secure po), MxExpires (Expires po)])\<rparr>)"

text \<open>A client of MinIO has no module until its first upload, and no usable client after an error of the constructor.\<close>

lemma Minio_NewClient_fields:
  assumes "mi_client (Minio_NewClient new opts m) = Some c"
  shows "mx_BucketName c = BucketName (apply_options opts)" and "mx_Module c = ''''"
    and "mx_Expires c = Expires (apply_options opts)"
    and "mx_client c = None \<longleftrightarrow> (\<exists>e. new (Endpoint (apply_options opts)) (AccessKeyId (apply_options opts))
           (SecretAccessKey (apply_options opts)) (Secure (apply_options opts)) = Inl e)"
  using assms
  by (auto simp: Minio_NewClient_def NewMinioX_def initMinioX_def defaultS3Options_def Let_def split: sum.splits)

definition minio_upload where
  \<comment> \<open>the common part of both uploads; \<open>lead\<close> comes before the catalogue when the date is added\<close>
  "minio_upload lead up today (m :: 's Minio) w =
     (case mi_client m of None \<Rightarrow> (Inl NilClient, m, w)
      | Some c \<Rightarrow>
          let m = default_catalogue m;
              m = (if IsTime m then m\<lparr>Catalogue := lead @ Catalogue m @ ''/'' @ today @ ''/''\<rparr> else m);
              c = c\<lparr>mx_Module := Catalogue m\<rparr>
          in case up c w of
               (Inl e, c, w) \<Rightarrow> (Inl e, m\<lparr>mi_client := Some c\<rparr>, w)
             | (Inr url, c, w) \<Rightarrow> (Inr url, m\<lparr>mi_client := Some c, ETag := mx_ETag c, FileSize := mx_ObjectSize c\<rparr>, w))"

definition Minio_UploadFileLocal where
  "Minio_UploadFileLocal today fileName fileLocalPath (m :: 's Minio) w =
     minio_upload '''' (UploadFile fileName fileLocalPath) today m w"

definition Minio_UploadFileIo where
  "Minio_UploadFileIo today fileName content (m :: 's Minio) w =
     minio_upload ''/'' (MinioX_Upload fileName content) today m w"

definition Minio_Download where
  "Minio_Download fileUrl fileName dataFolder (m :: 's Minio) w =
     Option.bind (mi_client m) (\<lambda>c. DownloadFile fileUrl (dataFolder @ fileName) c w)"

definition Minio_GetPresignedURL where
  "Minio_GetPresignedURL path (m :: 's Minio) = Option.bind (mi_client m) (MinioX_GetPresignedURL path)"

definition Minio_Delete where
  "Minio_Delete path (m :: 's Minio) w =
     (case mi_client m of None \<Rightarrow> (Some NilClient, w) | Some c \<Rightarrow> DeleteObject path c w)"


subsection \<open>The contract of a client\<close>

text \<open>
  What the documentation of the services promises of the SDK: an object put is the one got until it is put again or
  deleted, and other objects stay.
\<close>

locale lawful_sdk =
  fixes sdk :: "'s oss_sdk"
  assumes put_get: "sdk_put sdk b k c s = (Inr e, s') \<Longrightarrow> sdk_get sdk b k s' = Inr c"
    and put_other: "sdk_put sdk b k c s = (Inr e, s') \<Longrightarrow> k' \<noteq> k \<Longrightarrow> sdk_get sdk b k' s' = sdk_get sdk b k' s"
    and del_get: "sdk_del sdk b k s = (None, s') \<Longrightarrow> sdk_get sdk b k s' \<noteq> Inr c"
    and del_other: "sdk_del sdk b k s = (None, s') \<Longrightarrow> k' \<noteq> k \<Longrightarrow> sdk_get sdk b k' s' = sdk_get sdk b k' s"

text \<open>
  What a program that uploads, downloads and deletes relies on, for names a client handles (\<open>good\<close>): the link of an
  upload leads to the content until it is overwritten or deleted.
\<close>

fun run_stores :: "(string \<Rightarrow> string \<Rightarrow> 'w \<Rightarrow> string option \<times> 'w) \<Rightarrow> (string \<times> string) list \<Rightarrow> 'w \<Rightarrow> 'w option" where
  "run_stores st [] w = Some w"
| "run_stores st ((n, c) # hs) w =
     (case st n c w of (None, w) \<Rightarrow> None | (Some l, w) \<Rightarrow> run_stores st hs w)"

locale oss_contract =
  fixes store :: "string \<Rightarrow> string \<Rightarrow> 'w \<Rightarrow> string option \<times> 'w"
    and fetch :: "string \<Rightarrow> 'w \<Rightarrow> string option"
    and remove :: "string \<Rightarrow> 'w \<Rightarrow> bool \<times> 'w"
    and link :: "string \<Rightarrow> string"
    and good :: "string \<Rightarrow> bool"
    and inv :: "'w \<Rightarrow> bool"
  assumes store_link: "inv w \<Longrightarrow> store n c w = (Some l, w') \<Longrightarrow> l = link n"
    and store_inv: "inv w \<Longrightarrow> inv (snd (store n c w))"
    and store_fetch: "inv w \<Longrightarrow> good n \<Longrightarrow> store n c w = (Some l, w') \<Longrightarrow> fetch l w' = Some c"
    and store_other: "inv w \<Longrightarrow> good n \<Longrightarrow> good m \<Longrightarrow> link m \<noteq> link n \<Longrightarrow> store n c w = (Some l, w') \<Longrightarrow>
      fetch (link m) w' = fetch (link m) w"
    and remove_fetch: "inv w \<Longrightarrow> remove l w = (True, w') \<Longrightarrow> fetch l w' = None"
    and remove_inv: "inv w \<Longrightarrow> inv (snd (remove l w))"
begin

lemma store_step:
  assumes "inv w" and "good n" and "good m" and "store n c w = (Some l, w')"
  shows "fetch (link m) w' = (if link m = link n then Some c else fetch (link m) w) \<and> inv w'"
  using store_fetch [OF assms(1, 2, 4)] store_other [OF assms(1-3) _ assms(4)] store_link [OF assms(1, 4)]
    store_inv [OF assms(1), of n c] assms(4) by auto

text \<open>After any uploads a link leads to what was uploaded last under it.\<close>

lemma stored_history:
  assumes "inv w" and "\<And>n c. (n, c) \<in> set hs \<Longrightarrow> good n" and "good m" and "run_stores store hs w = Some w'"
  shows "inv w' \<and> fetch (link m) w' =
    (case map_of (rev (map (\<lambda>(n, c). (link n, c)) hs)) (link m) of Some c \<Rightarrow> Some c | None \<Rightarrow> fetch (link m) w)"
  using assms(1, 2, 4)
proof (induction hs arbitrary: w)
  case (Cons h hs)
  obtain n c where h: "h = (n, c)" by fastforce
  obtain l v where v: "store n c w = (Some l, v)" "run_stores store hs v = Some w'"
    using Cons.prems(3) by (auto simp: h split: prod.splits option.splits)
  have s: "fetch (link m) v = (if link m = link n then Some c else fetch (link m) w)" "inv v"
    using store_step [OF Cons.prems(1) _ assms(3) v(1)] Cons.prems(2) [of n c] by (auto simp: h)
  have "inv w' \<and> fetch (link m) w' =
      (case map_of (rev (map (\<lambda>(n, c). (link n, c)) hs)) (link m) of Some c \<Rightarrow> Some c | None \<Rightarrow> fetch (link m) v)"
    by (rule Cons.IH [OF s(2) _ v(2)]) (use Cons.prems(2) in auto)
  then show ?case using s(1) by (auto simp: h map_add_def split: option.split)
qed simp

lemma removed:
  assumes "inv w" and "good n" and "store n c w = (Some l, w1)" and "remove l w1 = (True, w2)"
  shows "fetch l w2 = None"
  using remove_fetch [OF store_step [OF assms(1, 2, 2, 3), THEN conjunct2] assms(4)] .

end


subsection \<open>The clients keep the contract\<close>

text \<open>What an upload may change of a client: its catalogue gets the default, tag and size are those of the upload.\<close>

definition same_client :: "'a oss_base_scheme \<Rightarrow> 'a oss_base_scheme \<Rightarrow> bool" where
  "same_client a b \<longleftrightarrow> (default_catalogue b)\<lparr>ETag := '''', FileSize := 0\<rparr> = (default_catalogue a)\<lparr>ETag := '''', FileSize := 0\<rparr>"

lemma default_catalogue_twice [simp]: "default_catalogue (default_catalogue a) = default_catalogue a"
  by (simp add: default_catalogue_def)

lemma default_catalogue_tags [simp]:
  "default_catalogue (a\<lparr>ETag := x\<rparr>) = (default_catalogue a)\<lparr>ETag := x\<rparr>"
  "default_catalogue (a\<lparr>FileSize := n\<rparr>) = (default_catalogue a)\<lparr>FileSize := n\<rparr>"
  by (simp_all add: default_catalogue_def)

lemma default_catalogue_fields [simp]:
  "jd_s3Client (default_catalogue j) = jd_s3Client j" "jd_bucketName (default_catalogue j) = jd_bucketName j"
  "jd_endpoint (default_catalogue j) = jd_endpoint j"
  by (simp_all add: default_catalogue_def)

lemma same_client_refl: "same_client a a"
  by (simp add: same_client_def)

lemma same_client_default [simp]:
  "same_client a (default_catalogue b) = same_client a b"
  "same_client a (b\<lparr>ETag := x\<rparr>) = same_client a b"
  "same_client a (b\<lparr>FileSize := n\<rparr>) = same_client a b"
  by (simp_all add: same_client_def)

lemma object_key_tags [simp]:
  "object_key l p today (a\<lparr>ETag := x\<rparr>) = object_key l p today a"
  "object_key l p today (a\<lparr>FileSize := n\<rparr>) = object_key l p today a"
  by (simp_all add: object_key_def fun_eq_iff)

lemma same_client_key:
  assumes "same_client a b"
  shows "object_key l p today (default_catalogue b) n = object_key l p today (default_catalogue a) n"
proof -
  have "object_key l p today ((default_catalogue b)\<lparr>ETag := '''', FileSize := 0\<rparr>) n =
      object_key l p today ((default_catalogue a)\<lparr>ETag := '''', FileSize := 0\<rparr>) n"
    using assms by (simp only: same_client_def)
  then show ?thesis by simp
qed

lemma strip_link:
  "\<not> contains k (link_prefix b e) \<Longrightarrow> remove_all (link_prefix b e) (link_prefix b e @ k) = k"
  by (rule remove_all_front) simp_all

text \<open>
  A client that computes a key from the name, a link from the key and the key again from the link keeps the contract
  for the names whose key survives that.
\<close>

locale keyed_client = lawful_sdk sdk for sdk :: "'s oss_sdk" +
  fixes bucket :: string and key :: "string \<Rightarrow> string" and mk :: "string \<Rightarrow> string" and strip :: "string \<Rightarrow> string"
    and store :: "string \<Rightarrow> string \<Rightarrow> 'c \<times> 's oss_world \<Rightarrow> string option \<times> ('c \<times> 's oss_world)"
    and fetch :: "string \<Rightarrow> 'c \<times> 's oss_world \<Rightarrow> string option"
    and remove :: "string \<Rightarrow> 'c \<times> 's oss_world \<Rightarrow> bool \<times> ('c \<times> 's oss_world)"
    and ok :: "'c \<Rightarrow> bool"
  assumes store_result: "ok j \<Longrightarrow> store n c (j, w) = (r, (j2, w2)) \<Longrightarrow> ok j2 \<and> (r \<noteq> None \<longrightarrow> r = Some (mk (key n)) \<and>
      (\<exists>e. sdk_put sdk bucket (key n) c (ow_srv w) = (Inr e, ow_srv w2)))"
    and fetch_result: "ok j \<Longrightarrow> fetch l (j, w) =
      (case sdk_get sdk bucket (strip l) (ow_srv w) of Inr c \<Rightarrow> Some c | Inl e \<Rightarrow> None)"
    and remove_result: "ok j \<Longrightarrow> remove l (j, w) = (b, (j2, w2)) \<Longrightarrow> j2 = j \<and>
      (b \<longrightarrow> sdk_del sdk bucket (strip l) (ow_srv w) = (None, ow_srv w2))"

sublocale keyed_client \<subseteq> oss_contract store fetch remove "\<lambda>n. mk (key n)" "\<lambda>n. strip (mk (key n)) = key n" "\<lambda>(j, w). ok j"
proof (unfold_locales, goal_cases)
  case (1 w n c l w')
  then show ?case using store_result [of "fst w" n c "snd w" "Some l" "fst w'" "snd w'"] by (auto split: prod.splits)
next
  case (2 w n c)
  then show ?case
    using store_result [of "fst w" n c "snd w" "fst (store n c w)" "fst (snd (store n c w))" "snd (snd (store n c w))"]
    by (auto split: prod.splits)
next
  case (3 w n c l w')
  obtain j1 w1 j2 w2 where w: "w = (j1, w1)" "w' = (j2, w2)" by fastforce
  note s = store_result [OF 3(1) [unfolded w prod.case] 3(3) [unfolded w]]
  then show ?case using fetch_result [of j2 "mk (key n)" w2] 3(2) put_get by (auto simp: w)
next
  case (4 w n m c l w')
  obtain j1 w1 j2 w2 where w: "w = (j1, w1)" "w' = (j2, w2)" by fastforce
  note s = store_result [OF 4(1) [unfolded w prod.case] 4(5) [unfolded w]]
  have "key m \<noteq> key n" using 4(4) by metis
  then show ?case
    using fetch_result [of j2 "mk (key m)" w2] fetch_result [of j1 "mk (key m)" w1] s 4(1, 3, 4) put_other by (auto simp: w)
next
  case (5 w l w')
  obtain j1 w1 j2 w2 where w: "w = (j1, w1)" "w' = (j2, w2)" by fastforce
  note s = remove_result [OF 5(1) [unfolded w prod.case] 5(2) [unfolded w]]
  then show ?case using fetch_result [of j1 l w2] 5(1) del_get by (auto simp: w split: sum.split)
next
  case (6 w l)
  then show ?case
    using remove_result [of "fst w" l "snd w" "fst (remove l w)" "fst (snd (remove l w))" "snd (snd (remove l w))"]
    by (auto split: prod.splits)
qed

text \<open>JD Cloud, with uploads of streams.\<close>

definition jd_store where
  "jd_store today n c = (\<lambda>(j :: 's JDCloudOss, w).
     case JDCloud_UploadFileIo today n c j w of (Inl e, j, w) \<Rightarrow> (None, (j, w)) | (Inr l, j, w) \<Rightarrow> (Some l, (j, w)))"

definition jd_fetch where
  "jd_fetch l = (\<lambda>(j :: 's JDCloudOss, w).
     case JDCloud_Download l ''f'' '''' j w of (None, w) \<Rightarrow> map_of (ow_files w) ''f'' | (Some e, w) \<Rightarrow> None)"

definition jd_remove where
  "jd_remove l = (\<lambda>(j :: 's JDCloudOss, w). case JDCloud_Delete l j w of (e, w) \<Rightarrow> (e = None, (j, w)))"

definition jd_key :: "string \<Rightarrow> 's JDCloudOss \<Rightarrow> string \<Rightarrow> string" where
  "jd_key today j = object_key '''' (jd_prefix j) today (default_catalogue j)"

lemma jd_same:
  fixes j j' :: "'s JDCloudOss"
  assumes "same_client j j'"
  shows "jd_s3Client j' = jd_s3Client j" "jd_bucketName j' = jd_bucketName j" "jd_endpoint j' = jd_endpoint j"
proof -
  note e = assms [unfolded same_client_def]
  show "jd_s3Client j' = jd_s3Client j" "jd_bucketName j' = jd_bucketName j" "jd_endpoint j' = jd_endpoint j"
    using arg_cong [OF e, of jd_s3Client] arg_cong [OF e, of jd_bucketName] arg_cong [OF e, of jd_endpoint] by simp_all
qed

locale jd_client = lawful_sdk sdk for sdk :: "'s oss_sdk" +
  fixes j :: "'s JDCloudOss" and today :: string
  assumes client: "jd_s3Client j = Some sdk"

sublocale jd_client \<subseteq> jd: keyed_client sdk "jd_bucketName j" "jd_key today j" "\<lambda>k. jd_prefix j @ k"
  "remove_all (jd_prefix j)" "jd_store today" jd_fetch jd_remove "same_client j"
proof (unfold_locales, goal_cases)
  case (1 j' n c w r j2 w2)
  then show ?case
    using client jd_same [OF 1(1)] same_client_key [OF 1(1)]
    by (auto simp: jd_store_def JDCloud_UploadFileIo_def jd_key_def call_def Let_def split: prod.splits sum.splits)
next
  case (2 j' l w)
  then show ?case
    using client jd_same [OF 2(1)]
    by (simp add: jd_fetch_def JDCloud_Download_def save_file_def split: sum.split)
next
  case (3 j' l w b j2 w2)
  then show ?case
    using client jd_same [OF 3(1)]
    by (auto simp: jd_remove_def JDCloud_Delete_def call_def split: prod.splits)
qed

text \<open>Aliyun, with uploads of local files.\<close>

definition ali_store where
  "ali_store today md5 n c = (\<lambda>(a :: 's AliyunOss, w).
     case Aliyun_UploadFileLocal today md5 n ''src'' a (w\<lparr>ow_files := (''src'', c) # ow_files w\<rparr>) of
       (Inl e, a, w) \<Rightarrow> (None, (a, w)) | (Inr l, a, w) \<Rightarrow> (Some l, (a, w)))"

definition ali_fetch where
  "ali_fetch l = (\<lambda>(a :: 's AliyunOss, w).
     case Aliyun_Download l ''f'' '''' a w of Some (None, w) \<Rightarrow> map_of (ow_files w) ''f'' | _ \<Rightarrow> None)"

definition ali_remove where
  "ali_remove l = (\<lambda>(a :: 's AliyunOss, w). case Aliyun_Delete l a w of (e, w) \<Rightarrow> (e = None, (a, w)))"

definition ali_key :: "string \<Rightarrow> 's AliyunOss \<Rightarrow> string \<Rightarrow> string" where
  "ali_key today a = object_key '''' (ali_prefix a) today (default_catalogue a)"

lemma ali_fields [simp]:
  "ali_ossBucket (default_catalogue a) = ali_ossBucket a" "ali_bucketName (default_catalogue a) = ali_bucketName a"
  "ali_endpoint (default_catalogue a) = ali_endpoint a"
  by (simp_all add: default_catalogue_def)

lemma ali_same:
  fixes a a' :: "'s AliyunOss"
  assumes "same_client a a'"
  shows "ali_ossBucket a' = ali_ossBucket a" "ali_bucketName a' = ali_bucketName a" "ali_endpoint a' = ali_endpoint a"
proof -
  note e = assms [unfolded same_client_def]
  show "ali_ossBucket a' = ali_ossBucket a" "ali_bucketName a' = ali_bucketName a" "ali_endpoint a' = ali_endpoint a"
    using arg_cong [OF e, of ali_ossBucket] arg_cong [OF e, of ali_bucketName] arg_cong [OF e, of ali_endpoint] by simp_all
qed

locale ali_client = lawful_sdk sdk for sdk :: "'s oss_sdk" +
  fixes a :: "'s AliyunOss" and today :: string and md5 :: "string \<Rightarrow> string"
  assumes bucket: "ali_ossBucket a = Some sdk"

sublocale ali_client \<subseteq> ali: keyed_client sdk "ali_bucketName a" "ali_key today a" "\<lambda>k. ali_prefix a @ k"
  "remove_all (ali_prefix a)" "ali_store today md5" ali_fetch ali_remove "same_client a"
proof (unfold_locales, goal_cases)
  case (1 a' n c w r a2 w2)
  then show ?case
    using bucket ali_same [OF 1(1)] same_client_key [OF 1(1)]
    by (auto simp: ali_store_def Aliyun_UploadFileLocal_def ali_key_def call_def Let_def local_file_def
        split: prod.splits sum.splits)
next
  case (2 a' l w)
  then show ?case
    using bucket ali_same [OF 2(1)] by (simp add: ali_fetch_def Aliyun_Download_def save_file_def split: sum.split)
next
  case (3 a' l w b a2 w2)
  then show ?case
    using bucket ali_same [OF 3(1)] by (auto simp: ali_remove_def Aliyun_Delete_def call_def split: prod.splits)
qed

text \<open>A service in memory keeps the promises.\<close>

definition memory_sdk :: "((string \<times> string) \<times> string) list oss_sdk" where
  "memory_sdk = \<lparr>
     sdk_put = (\<lambda>b k c s. (Inr (CHR 34 # ''tag'' @ [CHR 34]), ((b, k), c) # s)),
     sdk_get = (\<lambda>b k s. case map_of s (b, k) of None \<Rightarrow> Inl (SdkError ''NoSuchKey'') | Some c \<Rightarrow> Inr c),
     sdk_del = (\<lambda>b k s. (None, filter (\<lambda>e. fst e \<noteq> (b, k)) s)),
     sdk_sign = (\<lambda>b k n. Inr (b @ ''/'' @ k @ ''?sig'')), sdk_acl = (\<lambda>b k s. (None, s)),
     sdk_tag = (\<lambda>b k t s. (None, s)), sdk_copy = (\<lambda>k src c s. (None, s))\<rparr>"

lemma map_of_filter_key: "map_of (filter (\<lambda>e. fst e \<noteq> k) s) x = (if x = k then None else map_of s x)"
  by (induction s) auto

interpretation memory: lawful_sdk memory_sdk
  by unfold_locales (auto simp: memory_sdk_def map_of_filter_key split: option.splits)

definition demo_jd :: "((string \<times> string) \<times> string) list JDCloudOss" where
  "demo_jd = \<lparr>ETag = '''', FileSize = 0, Catalogue = '''', IsTime = False, IsCustomStorage = False,
     jd_s3Client = Some memory_sdk, jd_bucketName = ''b'', jd_endpoint = ''e'', jd_region = ''r'', jd_expires = 0\<rparr>"

interpretation demo_jd: jd_client memory_sdk demo_jd "''d''"
  by unfold_locales (simp add: demo_jd_def)

definition demo_ali :: "((string \<times> string) \<times> string) list AliyunOss" where
  "demo_ali = \<lparr>ETag = '''', FileSize = 0, Catalogue = '''', IsTime = True, IsCustomStorage = False,
     ali_ossBucket = Some memory_sdk, ali_bucketName = ''b'', ali_endpoint = ''e'', ali_expires = 0\<rparr>"

interpretation demo_ali: ali_client memory_sdk demo_ali "''d''" "\<lambda>x. x"
  by unfold_locales (simp add: demo_ali_def)

context jd_client
begin

lemma jd_history:
  assumes "\<And>n c. (n, c) \<in> set hs \<Longrightarrow> \<not> contains (jd_key today j n) (jd_prefix j)"
    and "\<not> contains (jd_key today j m) (jd_prefix j)"
    and "run_stores (jd_store today) hs (j, w) = Some (j', w')"
    and "map_of (rev (map (\<lambda>(n, c). (jd_prefix j @ jd_key today j n, c)) hs)) (jd_prefix j @ jd_key today j m) = Some c"
  shows "jd_fetch (jd_prefix j @ jd_key today j m) (j', w') = Some c"
  using jd.stored_history [of "(j, w)" hs m "(j', w')"] assms by (auto simp: strip_link same_client_refl)

end




subsection \<open>Links that lead nowhere\<close>

text \<open>
  With custom storage Tencent's client returns a link without the slash between the address of the bucket and the
  key: the link is not stripped again, so a download of it asks for another object, and fails on a service that does not
  hold one by chance.
\<close>

theorem custom_links_broken:
  assumes "lawful_sdk sdk" and "tc_cosClient t = Some sdk" and "IsCustomStorage t"
    and "\<not> contains n (tc_cosUrl t @ ''/'')" and "\<not> contains (tc_cosUrl t @ n) (tc_cosUrl t @ ''/'')" and "tc_cosUrl t \<noteq> ''''"
    and "Tencent_UploadFileIo today n c t w = Some (Inr l, t', w')" and "sdk_get sdk '''' (tc_cosUrl t @ n) (ow_srv w) = Inl e"
  shows "l = tc_cosUrl t @ n \<and> sdk_get sdk '''' n (ow_srv w') = Inr c \<and> Tencent_Download l f d t' w' = Some (Some e, w')"
proof -
  have key: "object_key ''/'' (tc_cosUrl t @ ''/'') today t n = n"
    using assms(3, 4) by (simp add: object_key_def remove_all_absent)
  obtain etag s where p: "sdk_put sdk '''' n c (ow_srv w) = (Inr etag, s)" "l = tc_cosUrl t @ n" "w' = w\<lparr>ow_srv := s\<rparr>"
    "t' = t\<lparr>ETag := filter (\<lambda>c. c \<noteq> CHR 34) etag, FileSize := int (length c)\<rparr>"
    using assms(2, 7) by (auto simp: Tencent_UploadFileIo_def Tencent_upload_def key call_def Let_def split: prod.splits sum.splits)
  have "sdk_get sdk '''' (tc_cosUrl t @ n) s = Inl e"
    using lawful_sdk.put_other [OF assms(1) p(1), of "tc_cosUrl t @ n"] assms(6, 8) by simp
  then show ?thesis
    using p assms(2) lawful_sdk.put_get [OF assms(1) p(1)] remove_all_absent [OF assms(5)]
    by (simp add: Tencent_Download_def cos_key_def save_file_def)
qed

definition demo_cos :: "((string \<times> string) \<times> string) list TencentCos" where
  "demo_cos = \<lparr>ETag = '''', FileSize = 0, Catalogue = '''', IsTime = False, IsCustomStorage = True,
     tc_cosClient = Some memory_sdk, tc_cosUrl = ''h'', tc_expires = 0\<rparr>"

lemma custom_links_broken_witness:
  "sdk_get memory_sdk '''' ''x'' [(('''', ''x''), ''one'')] = Inr ''one'' \<and>
   Tencent_UploadFileIo ''d'' ''x'' ''one'' demo_cos \<lparr>ow_srv = [], ow_files = []\<rparr> =
     Some (Inr ''hx'', demo_cos\<lparr>ETag := ''tag'', FileSize := 3\<rparr>, \<lparr>ow_srv = [(('''', ''x''), ''one'')], ow_files = []\<rparr>)"
proof -
  have u: "Tencent_UploadFileIo ''d'' ''x'' ''one'' demo_cos \<lparr>ow_srv = [], ow_files = []\<rparr> =
     Some (Inr ''hx'', demo_cos\<lparr>ETag := ''tag'', FileSize := 3\<rparr>, \<lparr>ow_srv = [(('''', ''x''), ''one'')], ow_files = []\<rparr>)"
    by (simp add: Tencent_UploadFileIo_def Tencent_upload_def demo_cos_def memory_sdk_def object_key_def call_def has_prefix_def Let_def)
  have c: "tc_cosClient demo_cos = Some memory_sdk" "IsCustomStorage demo_cos" "tc_cosUrl demo_cos = ''h''"
    by (simp_all add: demo_cos_def)
  have g: "sdk_get memory_sdk '''' ''hx'' [] = Inl (SdkError ''NoSuchKey'')" by (simp add: memory_sdk_def)
  show ?thesis
    using custom_links_broken [OF memory.lawful_sdk_axioms c(1, 2) _ _ _ u] c(3) g u
    by (simp add: contains_def sublist_Cons_right)
qed

text \<open>Uploads one after the other, whatever becomes of each.\<close>

fun minio_uploads where
  "minio_uploads today [] (m :: 's Minio) w = (m, w)"
| "minio_uploads today ((n, p) # ups) m w =
     (case Minio_UploadFileLocal today n p m w of (res, m, w) \<Rightarrow> minio_uploads today ups m w)"

text \<open>
  With the date in the path the MinIO client writes the catalogue it computes back into its own state, so every
  upload of a client adds the date once more: the n-th object of a day lies n directories deep.
\<close>

theorem minio_catalogue_grows:
  assumes "mi_client m \<noteq> None" and "IsTime m"
  shows "Catalogue (fst (minio_uploads today ups m w)) =
    (if ups = [] then Catalogue m
     else Catalogue (default_catalogue m) @ concat (replicate (length ups) (''/'' @ today @ ''/'')))"
  using assms
proof (induction ups arbitrary: m w)
  case (Cons u ups)
  obtain n p where u: "u = (n, p)" by fastforce
  obtain res m' w' where r: "Minio_UploadFileLocal today n p m w = (res, m', w')" by (metis prod_cases3)
  have m: "mi_client m' \<noteq> None" "IsTime m'" "Catalogue m' = Catalogue (default_catalogue m) @ ''/'' @ today @ ''/''"
    using r Cons.prems
    by (auto simp: Minio_UploadFileLocal_def minio_upload_def default_catalogue_def Let_def split: prod.splits sum.splits if_splits)
  then have "default_catalogue m' = m'" by (auto simp: default_catalogue_def)
  then show ?case using Cons.IH [OF m(1, 2), of w'] m(3) by (simp add: u r)
qed simp

definition demo_minio :: "((string \<times> string) \<times> string) list Minio" where
  "demo_minio = \<lparr>ETag = '''', FileSize = 0, Catalogue = '''', IsTime = True, IsCustomStorage = False,
     mi_client = Some \<lparr>mx_BucketName = ''b'', mx_Module = '''', mx_ObjectSize = 0, mx_Expires = 0, mx_ETag = '''',
       mx_client = Some memory_sdk, mx_url = ''https://h''\<rparr>\<rparr>"

lemma minio_catalogue_grows_witness:
  "Catalogue (fst (minio_uploads ''d'' [(''x'', ''p''), (''y'', ''p'')] demo_minio \<lparr>ow_srv = [], ow_files = []\<rparr>)) = ''audio/d//d/''"
  using minio_catalogue_grows [of demo_minio "''d''" "[(''x'', ''p''), (''y'', ''p'')]" "\<lparr>ow_srv = [], ow_files = []\<rparr>"]
  by (simp add: demo_minio_def default_catalogue_def)

text \<open>Uploads of streams to MinIO return a link without the slash after the bucket, which a deletion does not find.\<close>

lemma stream_link_misses_slash:
  "fst (Minio_UploadFileIo ''d'' ''x'' ''one'' (demo_minio\<lparr>IsTime := False\<rparr>) \<lparr>ow_srv = [], ow_files = []\<rparr>) = Inr ''https://h/baudiox'' \<and>
   mx_key (the (mi_client demo_minio)) ''https://h/baudiox'' = ''https://h/baudiox''"
  by code_simp

end
