(* ===== verification/PromExporter.thy ===== *)
theory PromExporter
  imports Metrics GoText "HOL-Library.Multiset"
begin

text \<open>
  The bridge from the metrics registry to Prometheus (\<^verbatim>\<open>pkg/metrics/prometheus_exporter.go\<close>).  The Prometheus
  client library is the argument \<open>api\<close>: a record of the calls made, on a world of any type with collectors
  of any type; the locale \<open>prom_registry\<close> states what its documentation promises.  An exporter that panics (a
  failed type assertion) is \<^const>\<open>None\<close>.  The theory shows that with a catalogue of metrics whose exported
  names are all different, every increment reaches Prometheus, and what happens when two names meet.
\<close>

subsection \<open>Runes\<close>

text \<open>
  \<^verbatim>\<open>utf8.DecodeRune\<close>: the first code point of a text and its width; a byte that starts no valid sequence
  is U+FFFD of width one.
\<close>

definition second_range :: "nat \<Rightarrow> nat \<times> nat" where
  "second_range b = (if b = 0xE0 then (0xA0, 0xBF) else if b = 0xED then (0x80, 0x9F)
     else if b = 0xF0 then (0x90, 0xBF) else if b = 0xF4 then (0x80, 0x8F) else (0x80, 0xBF))"

definition sequence_length :: "nat \<Rightarrow> nat" where
  "sequence_length b = (if b < 0x80 then 1 else if 0xC2 \<le> b \<and> b \<le> 0xDF then 2
     else if 0xE0 \<le> b \<and> b \<le> 0xEF then 3 else if 0xF0 \<le> b \<and> b \<le> 0xF4 then 4 else 0)"

fun continuation_bits :: "nat \<Rightarrow> nat list \<Rightarrow> nat" where
  "continuation_bits acc [] = acc"
| "continuation_bits acc (b # bs) = continuation_bits (acc * 64 + b mod 64) bs"

definition decode_rune :: "string \<Rightarrow> nat \<times> nat" where
  "decode_rune s =
     (let bs = map (of_char :: char \<Rightarrow> nat) (take 4 s); b = hd bs; n = sequence_length b;
          rest = take (n - 1) (tl bs); (lo, hi) = second_range b in
      if n = 1 then (b, 1)
      else if n = 0 \<or> length rest < n - 1 \<or> \<not> (lo \<le> hd rest \<and> hd rest \<le> hi) \<or>
              (\<exists>x \<in> set (tl rest). \<not> (0x80 \<le> x \<and> x \<le> 0xBF)) then (0xFFFD, 1)
      else (continuation_bits (b mod 2 ^ (7 - n)) rest, n))"

lemma decode_rune_width: "0 < snd (decode_rune s)"
  by (auto simp: decode_rune_def Let_def split: prod.split)

lemma decode_rune_ascii: "(of_char c :: nat) < 128 \<Longrightarrow> decode_rune (c # s) = (of_char c, 1)"
  by (simp add: decode_rune_def sequence_length_def Let_def split: prod.split)

function runes :: "string \<Rightarrow> nat list" where
  \<comment> \<open>\<^verbatim>\<open>[]rune(s)\<close>\<close>
  "runes s = (if s = [] then [] else fst (decode_rune s) # runes (drop (snd (decode_rune s)) s))"
  by auto
termination
  by (relation "measure length") (use decode_rune_width in \<open>auto intro: diff_less\<close>)

declare runes.simps [simp del]

lemma runes_Nil [simp]: "runes [] = []"
  by (simp add: runes.simps)

lemma runes_eq_Nil [simp]: "runes s = [] \<longleftrightarrow> s = []"
  by (subst runes.simps) simp

lemma runes_ascii: "\<forall>c \<in> set s. (of_char c :: nat) < 128 \<Longrightarrow> runes s = map of_char s"
proof (induction s)
  case (Cons c s)
  then show ?case by (subst runes.simps) (simp add: decode_rune_ascii)
qed simp

subsection \<open>Names\<close>

definition name_rune :: "nat \<Rightarrow> bool" where
  "name_rune r \<longleftrightarrow> (97 \<le> r \<and> r \<le> 122) \<or> (65 \<le> r \<and> r \<le> 90) \<or> (48 \<le> r \<and> r \<le> 57) \<or> r = 95 \<or> r = 58"

definition sanitizeName :: "string \<Rightarrow> string" where
  "sanitizeName name =
     (let rs = map (\<lambda>r. if name_rune r then r else 95) (runes name);
          rs' = (if rs \<noteq> [] \<and> 48 \<le> hd rs \<and> hd rs \<le> 57 then 95 # rs else rs)
      in map char_of rs')"

definition valid_name :: "string \<Rightarrow> bool" where
  \<comment> \<open>what Prometheus accepts: \<^verbatim>\<open>[a-zA-Z_:][a-zA-Z0-9_:]*\<close>\<close>
  "valid_name s \<longleftrightarrow> s \<noteq> '''' \<and> (\<forall>c \<in> set s. name_rune (of_char c)) \<and> \<not> is_digit (hd s)"

lemma name_rune_small: "name_rune r \<Longrightarrow> r < 128"
  by (auto simp: name_rune_def)

lemma sanitizeName_valid:
  assumes "name \<noteq> ''''"
  shows "valid_name (sanitizeName name)"
proof -
  let ?rs = "map (\<lambda>r. if name_rune r then r else 95) (runes name)"
  have ne: "?rs \<noteq> []" using assms by simp
  have ok: "name_rune r" if "r \<in> set ?rs" for r using that by (auto simp: name_rune_def split: if_splits)
  have bk: "name_rune (of_char (char_of r :: char))" if "r \<in> set ?rs" for r
    using ok [OF that] name_rune_small [of r] by simp
  have "name_rune (of_char (char_of (95 :: nat) :: char))" by (simp add: name_rune_def)
  moreover have "\<not> is_digit (char_of (hd ?rs))" if "\<not> (48 \<le> hd ?rs \<and> hd ?rs \<le> 57)"
    using that ok [of "hd ?rs"] name_rune_small [of "hd ?rs"] ne hd_in_set [OF ne] by (simp add: is_digit_code)
  moreover have "\<not> is_digit (char_of (95 :: nat))" by (simp add: is_digit_code)
  ultimately show ?thesis
    using ne bk unfolding valid_name_def sanitizeName_def Let_def
    by (auto simp: hd_map split: if_splits)
qed

lemma sanitizeName_keeps: "valid_name s \<Longrightarrow> sanitizeName s = s"
proof -
  assume v: "valid_name s"
  have a: "\<forall>c \<in> set s. (of_char c :: nat) < 128"
    using v name_rune_small by (auto simp: valid_name_def)
  have "map (\<lambda>r. if name_rune r then r else 95) (map of_char s) = map (of_char :: char \<Rightarrow> nat) s"
    using v by (auto simp: valid_name_def)
  moreover have "\<not> (48 \<le> (of_char (hd s) :: nat) \<and> (of_char (hd s) :: nat) \<le> 57)"
    using v by (simp add: valid_name_def is_digit_code)
  ultimately show ?thesis
    using v by (simp add: sanitizeName_def runes_ascii [OF a] Let_def valid_name_def hd_map comp_def del: map_map)
      (simp add: comp_def)
qed

lemma sanitizeName_Nil [simp]: "sanitizeName '''' = ''''"
  by (simp add: sanitizeName_def)

lemma derived_name_valid:
  assumes "\<forall>c \<in> set t. name_rune (of_char c)" and "t \<noteq> ''''" and "\<not> is_digit (hd t)"
  shows "valid_name (sanitizeName k @ t)"
  using assms sanitizeName_valid [of k] by (cases "k = ''''") (auto simp: valid_name_def sanitizeName_def)

subsection \<open>The Prometheus client library\<close>

datatype collector_kind = CounterKind | GaugeKind

datatype 'c reg_answer = Registered 'c | AlreadyRegistered 'c | RegisterError

record ('c, 'w) prom_api =
  prom_register :: "collector_kind \<Rightarrow> string \<Rightarrow> string \<Rightarrow> tags \<Rightarrow> 'w \<Rightarrow> 'c reg_answer \<times> 'w"
  prom_is :: "collector_kind \<Rightarrow> 'c \<Rightarrow> 'w \<Rightarrow> bool"
  prom_add :: "'c \<Rightarrow> f64 \<Rightarrow> 'w \<Rightarrow> 'w"
  prom_set :: "'c \<Rightarrow> f64 \<Rightarrow> 'w \<Rightarrow> 'w"

subsection \<open>The exporter\<close>

text \<open>The caches of collectors; \<^verbatim>\<open>promHistograms\<close> is declared and never used.\<close>

record 'c exporter =
  promCounters :: "string \<rightharpoonup> 'c"
  promGauges :: "string \<rightharpoonup> 'c"
  promRates :: "string \<rightharpoonup> 'c"

definition NewPrometheusExporter :: "'c exporter" where
  "NewPrometheusExporter = \<lparr>promCounters = Map.empty, promGauges = Map.empty, promRates = Map.empty\<rparr>"

text \<open>
  \<^verbatim>\<open>Load\<close>, or construct, \<^verbatim>\<open>Register\<close> and \<^verbatim>\<open>Store\<close>: the first half of the four export functions.  The result
  holds the collector, or nothing when the registration fails, and the cache.
\<close>

definition obtain_collector ::
    "('c, 'w) prom_api \<Rightarrow> collector_kind \<Rightarrow> (string \<rightharpoonup> 'c) \<Rightarrow> string \<Rightarrow> string \<Rightarrow> string \<Rightarrow> tags \<Rightarrow> 'w \<Rightarrow>
     ('c option \<times> (string \<rightharpoonup> 'c) \<times> 'w) option" where
  "obtain_collector api kd m key name hlp t w =
     (case m key of
        Some c \<Rightarrow> Some (Some c, m, w)
      | None \<Rightarrow>
          (case prom_register api kd name hlp t w of
             (Registered c, w') \<Rightarrow> Some (Some c, m(key \<mapsto> c), w')
           | (AlreadyRegistered c, w') \<Rightarrow>
               if prom_is api kd c w' then Some (Some c, m(key \<mapsto> c), w') else None
           | (RegisterError, w') \<Rightarrow> Some (None, m, w')))"

type_synonym ('c, 'w) export_state = "'c exporter \<times> 'w"

definition exportCounter ::
    "('c, 'w) prom_api \<Rightarrow> Snapshot \<Rightarrow> ('c, 'w) export_state \<Rightarrow> ('c, 'w) export_state option" where
  "exportCounter api snap s =
     (case sn_Counter snap of
        None \<Rightarrow> Some s
      | Some v \<Rightarrow>
          (case obtain_collector api CounterKind (promCounters (fst s)) (sn_Name snap) (sanitizeName (sn_Name snap))
                  (sn_Name snap) (sn_Tags snap) (snd s) of
             None \<Rightarrow> None
           | Some (None, m, w) \<Rightarrow> Some (fst s, w)
           | Some (Some c, m, w) \<Rightarrow>
               Some ((fst s)\<lparr>promCounters := m\<rparr>, if 0 < v then prom_add api c (f64_of_int v) w else w)))"

definition set_gauge ::
    "('c, 'w) prom_api \<Rightarrow> string \<Rightarrow> string \<Rightarrow> string \<Rightarrow> tags \<Rightarrow> f64 \<Rightarrow> ('c, 'w) export_state \<Rightarrow>
     ('c, 'w) export_state option" where
  "set_gauge api key name hlp t v s =
     (case obtain_collector api GaugeKind (promGauges (fst s)) key name hlp t (snd s) of
        None \<Rightarrow> None
      | Some (None, m, w) \<Rightarrow> Some (fst s, w)
      | Some (Some c, m, w) \<Rightarrow> Some ((fst s)\<lparr>promGauges := m\<rparr>, prom_set api c v w))"

definition exportGauge ::
    "('c, 'w) prom_api \<Rightarrow> Snapshot \<Rightarrow> ('c, 'w) export_state \<Rightarrow> ('c, 'w) export_state option" where
  "exportGauge api snap s =
     (case sn_Gauge snap of
        None \<Rightarrow> Some s
      | Some v \<Rightarrow> set_gauge api (sn_Name snap) (sanitizeName (sn_Name snap)) (sn_Name snap) (sn_Tags snap) v s)"

definition exportHistogramQuantile ::
    "('c, 'w) prom_api \<Rightarrow> string \<Rightarrow> tags \<Rightarrow> f64 \<Rightarrow> ('c, 'w) export_state \<Rightarrow> ('c, 'w) export_state option" where
  "exportHistogramQuantile api name t v s = set_gauge api name name name t v s"

definition exportRateGauge ::
    "('c, 'w) prom_api \<Rightarrow> string \<Rightarrow> tags \<Rightarrow> f64 \<Rightarrow> ('c, 'w) export_state \<Rightarrow> ('c, 'w) export_state option" where
  "exportRateGauge api name t v s =
     (case obtain_collector api GaugeKind (promRates (fst s)) name name name t (snd s) of
        None \<Rightarrow> None
      | Some (None, m, w) \<Rightarrow> Some (fst s, w)
      | Some (Some c, m, w) \<Rightarrow> Some ((fst s)\<lparr>promRates := m\<rparr>, prom_set api c v w))"

text \<open>Calls one after the other; a panic ends the sequence.\<close>

fun in_sequence :: "('s \<Rightarrow> 's option) list \<Rightarrow> 's \<Rightarrow> 's option" where
  "in_sequence [] s = Some s"
| "in_sequence (f # fs) s = (case f s of None \<Rightarrow> None | Some s' \<Rightarrow> in_sequence fs s')"

definition exportHistogram ::
    "('c, 'w) prom_api \<Rightarrow> Snapshot \<Rightarrow> ('c, 'w) export_state \<Rightarrow> ('c, 'w) export_state option" where
  "exportHistogram api snap s =
     (case sn_Histogram snap of
        None \<Rightarrow> Some s
      | Some h \<Rightarrow>
          if hs_Count h = 0 then Some s
          else let baseName = sanitizeName (sn_Name snap); t = sn_Tags snap in
            in_sequence
              [exportHistogramQuantile api (baseName @ ''_p50'') t (hs_P50 h),
               exportHistogramQuantile api (baseName @ ''_p95'') t (hs_P95 h),
               exportHistogramQuantile api (baseName @ ''_p99'') t (hs_P99 h),
               exportHistogramQuantile api (baseName @ ''_avg'') t (hs_Avg h),
               exportHistogramQuantile api (baseName @ ''_max'') t (hs_Max h),
               exportHistogramQuantile api (baseName @ ''_min'') t (hs_Min h),
               exportHistogramQuantile api (baseName @ ''_count'') t (f64_of_int (hs_Count h))] s)"

definition exportRate ::
    "('c, 'w) prom_api \<Rightarrow> Snapshot \<Rightarrow> ('c, 'w) export_state \<Rightarrow> ('c, 'w) export_state option" where
  "exportRate api snap s =
     (case sn_Rate snap of
        None \<Rightarrow> Some s
      | Some r \<Rightarrow>
          let baseName = sanitizeName (sn_Name snap); t = sn_Tags snap in
            in_sequence
              [exportRateGauge api (baseName @ ''_total'') t (f64_of_int (rs_Total r)),
               exportRateGauge api (baseName @ ''_success'') t (f64_of_int (rs_Success r)),
               exportRateGauge api (baseName @ ''_fail'') t (f64_of_int (rs_Fail r)),
               exportRateGauge api (baseName @ ''_rate'') t (rs_Rate r)] s)"

definition export_one ::
    "('c, 'w) prom_api \<Rightarrow> Snapshot \<Rightarrow> ('c, 'w) export_state \<Rightarrow> ('c, 'w) export_state option" where
  "export_one api snap =
     (case sn_Type snap of
        MetricTypeCounter \<Rightarrow> exportCounter api snap
      | MetricTypeGauge \<Rightarrow> exportGauge api snap
      | MetricTypeHistogram \<Rightarrow> exportHistogram api snap
      | MetricTypeRate \<Rightarrow> exportRate api snap)"

text \<open>The list is the order in which \<^verbatim>\<open>range\<close> visits the map of snapshots.\<close>

definition ExportSnapshots ::
    "('c, 'w) prom_api \<Rightarrow> Snapshot list \<Rightarrow> ('c, 'w) export_state \<Rightarrow> ('c, 'w) export_state option" where
  "ExportSnapshots api snapshots = in_sequence (map (export_one api) snapshots)"

subsection \<open>Slots\<close>

text \<open>
  An export function writes some slots: entries of one of the caches.  The collector of a slot is registered
  under the sanitized key of the slot.
\<close>

datatype cache_sel = InCounters | InGauges | InRates

type_synonym slot = "cache_sel \<times> string"

datatype upd = AddTo int | SetTo f64

fun slot_kind :: "cache_sel \<Rightarrow> collector_kind" where
  "slot_kind InCounters = CounterKind"
| "slot_kind _ = GaugeKind"

fun slot_get :: "cache_sel \<Rightarrow> 'c exporter \<Rightarrow> string \<rightharpoonup> 'c" where
  "slot_get InCounters e = promCounters e"
| "slot_get InGauges e = promGauges e"
| "slot_get InRates e = promRates e"

fun slot_put :: "cache_sel \<Rightarrow> (string \<rightharpoonup> 'c) \<Rightarrow> 'c exporter \<Rightarrow> 'c exporter" where
  "slot_put InCounters m e = e\<lparr>promCounters := m\<rparr>"
| "slot_put InGauges m e = e\<lparr>promGauges := m\<rparr>"
| "slot_put InRates m e = e\<lparr>promRates := m\<rparr>"

lemma slot_get_put [simp]: "slot_get i (slot_put j m e) = (if i = j then m else slot_get i e)"
  by (cases i; cases j) auto

fun apply_upd :: "('c, 'w) prom_api \<Rightarrow> upd \<Rightarrow> 'c \<Rightarrow> 'w \<Rightarrow> 'w" where
  "apply_upd api (AddTo v) c w = (if 0 < v then prom_add api c (f64_of_int v) w else w)"
| "apply_upd api (SetTo x) c w = prom_set api c x w"

fun upd_value :: "upd \<Rightarrow> f64 \<Rightarrow> f64" where
  "upd_value (AddTo v) x = (if 0 < v then fadd x (f64_of_int v) else x)"
| "upd_value (SetTo y) x = y"

definition put_slot ::
    "('c, 'w) prom_api \<Rightarrow> tags \<Rightarrow> slot \<times> upd \<Rightarrow> ('c, 'w) export_state \<Rightarrow> ('c, 'w) export_state option" where
  "put_slot api t p s =
     (let ((i, key), u) = p in
      case obtain_collector api (slot_kind i) (slot_get i (fst s)) key (sanitizeName key) key t (snd s) of
        None \<Rightarrow> None
      | Some (None, m, w) \<Rightarrow> Some (fst s, w)
      | Some (Some c, m, w) \<Rightarrow> Some (slot_put i m (fst s), apply_upd api u c w))"

definition hist_suffixes :: "string list" where
  "hist_suffixes = [''_p50'', ''_p95'', ''_p99'', ''_avg'', ''_max'', ''_min'', ''_count'']"

definition rate_suffixes :: "string list" where
  "rate_suffixes = [''_total'', ''_success'', ''_fail'', ''_rate'']"

definition metric_slots :: "string \<times> MetricType \<Rightarrow> slot list" where
  "metric_slots p =
     (case snd p of
        MetricTypeCounter \<Rightarrow> [(InCounters, fst p)]
      | MetricTypeGauge \<Rightarrow> [(InGauges, fst p)]
      | MetricTypeHistogram \<Rightarrow> map (\<lambda>t. (InGauges, sanitizeName (fst p) @ t)) hist_suffixes
      | MetricTypeRate \<Rightarrow> map (\<lambda>t. (InRates, sanitizeName (fst p) @ t)) rate_suffixes)"

definition upds :: "Snapshot \<Rightarrow> upd list" where
  "upds snap =
     (case sn_Type snap of
        MetricTypeCounter \<Rightarrow> (case sn_Counter snap of None \<Rightarrow> [] | Some v \<Rightarrow> [AddTo v])
      | MetricTypeGauge \<Rightarrow> (case sn_Gauge snap of None \<Rightarrow> [] | Some v \<Rightarrow> [SetTo v])
      | MetricTypeHistogram \<Rightarrow>
          (case sn_Histogram snap of
             None \<Rightarrow> []
           | Some h \<Rightarrow> if hs_Count h = 0 then []
               else map SetTo [hs_P50 h, hs_P95 h, hs_P99 h, hs_Avg h, hs_Max h, hs_Min h, f64_of_int (hs_Count h)])
      | MetricTypeRate \<Rightarrow>
          (case sn_Rate snap of
             None \<Rightarrow> []
           | Some r \<Rightarrow> map SetTo [f64_of_int (rs_Total r), f64_of_int (rs_Success r), f64_of_int (rs_Fail r), rs_Rate r]))"

definition slot_writes :: "Snapshot \<Rightarrow> (slot \<times> upd) list" where
  "slot_writes snap = zip (metric_slots (sn_Name snap, sn_Type snap)) (upds snap)"

lemma suffixes_clean:
  assumes "t \<in> set (hist_suffixes @ rate_suffixes)"
  shows "sanitizeName (sanitizeName k @ t) = sanitizeName k @ t"
proof (rule sanitizeName_keeps, rule derived_name_valid)
  have "\<forall>t \<in> set (hist_suffixes @ rate_suffixes). t \<noteq> '''' \<and> \<not> is_digit (hd t) \<and> list_all (\<lambda>c. name_rune (of_char c)) t"
    by code_simp
  with assms show "\<forall>c \<in> set t. name_rune (of_char c)" "t \<noteq> ''''" "\<not> is_digit (hd t)" by (auto simp: list_all_iff)
qed

lemma suffix_fixed [simp]:
  "sanitizeName (sanitizeName k @ ''_p50'') = sanitizeName k @ ''_p50''"
  "sanitizeName (sanitizeName k @ ''_p95'') = sanitizeName k @ ''_p95''"
  "sanitizeName (sanitizeName k @ ''_p99'') = sanitizeName k @ ''_p99''"
  "sanitizeName (sanitizeName k @ ''_avg'') = sanitizeName k @ ''_avg''"
  "sanitizeName (sanitizeName k @ ''_max'') = sanitizeName k @ ''_max''"
  "sanitizeName (sanitizeName k @ ''_min'') = sanitizeName k @ ''_min''"
  "sanitizeName (sanitizeName k @ ''_count'') = sanitizeName k @ ''_count''"
  "sanitizeName (sanitizeName k @ ''_total'') = sanitizeName k @ ''_total''"
  "sanitizeName (sanitizeName k @ ''_success'') = sanitizeName k @ ''_success''"
  "sanitizeName (sanitizeName k @ ''_fail'') = sanitizeName k @ ''_fail''"
  "sanitizeName (sanitizeName k @ ''_rate'') = sanitizeName k @ ''_rate''"
  by (rule suffixes_clean; simp add: hist_suffixes_def rate_suffixes_def)+

lemma derived_valid [simp]:
  "valid_name (sanitizeName k @ ''_total'')" "valid_name (sanitizeName k @ ''_success'')"
  "valid_name (sanitizeName k @ ''_fail'')" "valid_name (sanitizeName k @ ''_rate'')"
  by (rule derived_name_valid; simp add: name_rune_def is_digit_code)+

lemma set_gauge_slot: "set_gauge api key (sanitizeName key) key t v s = put_slot api t ((InGauges, key), SetTo v) s"
  by (auto simp: set_gauge_def put_slot_def split: option.split)

lemma exportRateGauge_slot:
  "sanitizeName name = name \<Longrightarrow> exportRateGauge api name t v s = put_slot api t ((InRates, name), SetTo v) s"
  by (auto simp: exportRateGauge_def put_slot_def split: option.split)

lemma exportQuantile_slot:
  "sanitizeName name = name \<Longrightarrow> exportHistogramQuantile api name t v s = put_slot api t ((InGauges, name), SetTo v) s"
  using set_gauge_slot [of api name t v s] by (simp add: exportHistogramQuantile_def)

lemma export_one_writes:
  "export_one api snap s = in_sequence (map (put_slot api (sn_Tags snap)) (slot_writes snap)) s"
proof (cases "sn_Type snap")
  case MetricTypeCounter
  then show ?thesis
    by (auto simp: export_one_def exportCounter_def slot_writes_def upds_def metric_slots_def put_slot_def
        split: option.split)
next
  case MetricTypeGauge
  then show ?thesis
    by (auto simp: export_one_def exportGauge_def slot_writes_def upds_def metric_slots_def set_gauge_slot
        split: option.split)
next
  case MetricTypeHistogram
  then show ?thesis
    by (auto simp: export_one_def exportHistogram_def slot_writes_def upds_def metric_slots_def hist_suffixes_def
        exportQuantile_slot Let_def split: option.split)
next
  case MetricTypeRate
  then show ?thesis
    by (auto simp: export_one_def exportRate_def slot_writes_def upds_def metric_slots_def rate_suffixes_def
        exportRateGauge_slot Let_def split: option.split)
qed

lemma in_sequence_append:
  "in_sequence (fs @ gs) s = (case in_sequence fs s of None \<Rightarrow> None | Some s' \<Rightarrow> in_sequence gs s')"
  by (induction fs arbitrary: s) (auto split: option.split)

text \<open>The writes of a list of snapshots, with the tags each is made with.\<close>

definition all_writes :: "Snapshot list \<Rightarrow> (tags \<times> slot \<times> upd) list" where
  "all_writes ss = concat (map (\<lambda>s. map (Pair (sn_Tags s)) (slot_writes s)) ss)"

definition put_tagged ::
    "('c, 'w) prom_api \<Rightarrow> tags \<times> slot \<times> upd \<Rightarrow> ('c, 'w) export_state \<Rightarrow> ('c, 'w) export_state option" where
  "put_tagged api x = put_slot api (fst x) (snd x)"

lemma ExportSnapshots_writes: "ExportSnapshots api ss s = in_sequence (map (put_tagged api) (all_writes ss)) s"
proof (induction ss arbitrary: s)
  case (Cons x ss)
  have "put_tagged api \<circ> Pair (sn_Tags x) = put_slot api (sn_Tags x)"
    by (simp add: put_tagged_def fun_eq_iff)
  with Cons show ?case
    by (simp add: ExportSnapshots_def all_writes_def in_sequence_append export_one_writes split: option.split)
qed (simp add: ExportSnapshots_def all_writes_def)

subsection \<open>What Prometheus promises\<close>

text \<open>
  \<open>colls\<close> are the registered collectors, \<open>fq\<close> their names, \<open>val\<close> their values; \<open>labels_ok\<close> tells the label sets
  Prometheus accepts.  A registration under a valid name that no collector has succeeds with a collector at
  zero; one that finds an equal collector, or fails, changes nothing; adding and setting change one value.
\<close>

locale prom_registry =
  fixes api :: "('c, 'w) prom_api" and colls :: "'w \<Rightarrow> 'c set" and fq :: "'w \<Rightarrow> 'c \<Rightarrow> string"
    and val :: "'w \<Rightarrow> 'c \<Rightarrow> f64" and labels_ok :: "tags \<Rightarrow> bool"
  assumes reg_new: "prom_register api kd n h t w = (Registered c, w') \<Longrightarrow>
      c \<notin> colls w \<and> colls w' = insert c (colls w) \<and> fq w' = (fq w)(c := n) \<and> val w' = (val w)(c := Fin 0)"
    and reg_fresh: "valid_name n \<Longrightarrow> labels_ok t \<Longrightarrow> \<forall>c \<in> colls w. fq w c \<noteq> n \<Longrightarrow>
      \<exists>c w'. prom_register api kd n h t w = (Registered c, w')"
    and add_law: "c \<in> colls w \<Longrightarrow> colls (prom_add api c v w) = colls w \<and> fq (prom_add api c v w) = fq w \<and>
      val (prom_add api c v w) = (val w)(c := fadd (val w c) v)"
    and set_law: "c \<in> colls w \<Longrightarrow> colls (prom_set api c v w) = colls w \<and> fq (prom_set api c v w) = fq w \<and>
      val (prom_set api c v w) = (val w)(c := v)"
begin

text \<open>The exporter owns the names of its slots: a collector with the name of a slot is the one in the slot.\<close>

definition owned :: "slot set \<Rightarrow> 'c exporter \<Rightarrow> 'w \<Rightarrow> bool" where
  "owned S e w \<longleftrightarrow> (\<forall>(i, key) \<in> S. \<forall>c.
     (c \<in> colls w \<and> fq w c = sanitizeName key \<longrightarrow> slot_get i e key = Some c) \<and>
     (slot_get i e key = Some c \<longrightarrow> c \<in> colls w \<and> fq w c = sanitizeName key))"

definition view :: "'c exporter \<Rightarrow> 'w \<Rightarrow> slot \<Rightarrow> f64 option" where
  "view e w s = map_option (val w) (slot_get (fst s) e (snd s))"

lemma owned_slot:
  "owned S e w \<Longrightarrow> (i, key) \<in> S \<Longrightarrow> slot_get i e key = Some c \<Longrightarrow> c \<in> colls w \<and> fq w c = sanitizeName key"
  unfolding owned_def by blast

lemma owned_name:
  "owned S e w \<Longrightarrow> (i, key) \<in> S \<Longrightarrow> c \<in> colls w \<Longrightarrow> fq w c = sanitizeName key \<Longrightarrow> slot_get i e key = Some c"
  unfolding owned_def by blast

lemma ownedI:
  assumes "\<And>i key c. (i, key) \<in> S \<Longrightarrow> c \<in> colls w \<Longrightarrow> fq w c = sanitizeName key \<Longrightarrow> slot_get i e key = Some c"
    and "\<And>i key c. (i, key) \<in> S \<Longrightarrow> slot_get i e key = Some c \<Longrightarrow> c \<in> colls w \<and> fq w c = sanitizeName key"
  shows "owned S e w"
  unfolding owned_def using assms by blast

lemma upd_law:
  "c \<in> colls w \<Longrightarrow> colls (apply_upd api u c w) = colls w \<and> fq (apply_upd api u c w) = fq w \<and>
     val (apply_upd api u c w) = (val w)(c := upd_value u (val w c))"
  by (cases u) (auto simp: add_law set_law)

lemma put_slot_step:
  assumes own: "owned S e w" and slot: "(i, key) \<in> S" and ne: "key \<noteq> ''''" and t: "labels_ok t"
    and sep: "inj_on (sanitizeName \<circ> snd) S"
  shows "\<exists>e' w'. put_slot api t ((i, key), u) (e, w) = Some (e', w') \<and> owned S e' w' \<and>
    view e' w' (i, key) = Some (upd_value u (case view e w (i, key) of None \<Rightarrow> Fin 0 | Some x \<Rightarrow> x)) \<and>
    (\<forall>s \<in> S. s \<noteq> (i, key) \<longrightarrow> view e' w' s = view e w s)"
proof -
  have other: "sanitizeName k \<noteq> sanitizeName key" if "(j, k) \<in> S" "(j, k) \<noteq> (i, key)" for j k
    using inj_onD [OF sep, of "(j, k)" "(i, key)"] that slot by auto
  show ?thesis
  proof (cases "slot_get i e key")
    case (Some c)
    then have c: "c \<in> colls w" "fq w c = sanitizeName key" using owned_slot [OF own slot] by auto
    let ?w = "apply_upd api u c w"
    have e: "slot_put i (slot_get i e) e = e" by (cases i) auto
    have "put_slot api t ((i, key), u) (e, w) = Some (e, ?w)"
      using Some e by (simp add: put_slot_def obtain_collector_def)
    moreover have "owned S e ?w"
    proof (rule ownedI)
      fix j k d assume "(j, k) \<in> S" "d \<in> colls ?w" "fq ?w d = sanitizeName k"
      then show "slot_get j e k = Some d" using owned_name [OF own, of j k d] upd_law [OF c(1), of u] by simp
    next
      fix j k d assume "(j, k) \<in> S" "slot_get j e k = Some d"
      then show "d \<in> colls ?w \<and> fq ?w d = sanitizeName k"
        using owned_slot [OF own, of j k d] upd_law [OF c(1), of u] by simp
    qed
    moreover have "view e ?w (i, key) = Some (upd_value u (case view e w (i, key) of None \<Rightarrow> Fin 0 | Some x \<Rightarrow> x))"
      using Some upd_law [OF c(1), of u] by (simp add: view_def)
    moreover have "view e ?w s = view e w s" if "s \<in> S" "s \<noteq> (i, key)" for s
    proof (cases "slot_get (fst s) e (snd s)")
      case (Some d)
      then have "fq w d = sanitizeName (snd s)" using owned_slot [OF own, of "fst s" "snd s" d] that(1) by simp
      then have "d \<noteq> c" using other [of "fst s" "snd s"] that c(2) by auto
      then show ?thesis using Some upd_law [OF c(1), of u] by (simp add: view_def)
    qed (simp add: view_def)
    ultimately show ?thesis by blast
  next
    case None
    have free: "\<forall>c \<in> colls w. fq w c \<noteq> sanitizeName key" using owned_name [OF own slot] None by auto
    then obtain c w1 where r: "prom_register api (slot_kind i) (sanitizeName key) key t w = (Registered c, w1)"
      using reg_fresh [OF sanitizeName_valid [OF ne] t] by blast
    note n = reg_new [OF r]
    have c: "c \<in> colls w1" using n by simp
    let ?e = "slot_put i ((slot_get i e)(key \<mapsto> c)) e" and ?w = "apply_upd api u c w1"
    have "put_slot api t ((i, key), u) (e, w) = Some (?e, ?w)"
      using None r by (simp add: put_slot_def obtain_collector_def)
    moreover have "owned S ?e ?w"
    proof (rule ownedI)
      fix j k d
      assume jk: "(j, k) \<in> S" and d: "d \<in> colls ?w" "fq ?w d = sanitizeName k"
      show "slot_get j ?e k = Some d"
      proof (cases "(j, k) = (i, key)")
        case True
        have "d = c"
        proof (rule ccontr)
          assume "d \<noteq> c"
          then have "d \<in> colls w" "fq w d = sanitizeName key" using True d n upd_law [OF c, of u] by simp_all
          then show False using free by blast
        qed
        with True show ?thesis by simp
      next
        case False
        then have "slot_get j ?e k = slot_get j e k" by auto
        moreover have "d \<noteq> c"
        proof
          assume "d = c"
          then have "sanitizeName key = sanitizeName k" using d(2) n upd_law [OF c, of u] by simp
          then show False using other [OF jk False] by simp
        qed
        then have "d \<in> colls w" "fq w d = sanitizeName k" using d n upd_law [OF c, of u] by simp_all
        then have "slot_get j e k = Some d" by (rule owned_name [OF own jk])
        ultimately show ?thesis by simp
      qed
    next
      fix j k d
      assume jk: "(j, k) \<in> S" and d: "slot_get j ?e k = Some d"
      show "d \<in> colls ?w \<and> fq ?w d = sanitizeName k"
      proof (cases "(j, k) = (i, key)")
        case True
        then have "d = c" using d by simp
        with True show ?thesis using n upd_law [OF c, of u] by simp
      next
        case False
        then have "slot_get j e k = Some d" using d by (auto split: if_splits)
        then have m: "d \<in> colls w" "fq w d = sanitizeName k" using owned_slot [OF own jk] by auto
        then have "d \<noteq> c" using n by blast
        then show ?thesis using m n upd_law [OF c, of u] by simp
      qed
    qed
    moreover have "view ?e ?w (i, key) = Some (upd_value u (case view e w (i, key) of None \<Rightarrow> Fin 0 | Some x \<Rightarrow> x))"
      using None n upd_law [OF c, of u] by (simp add: view_def)
    moreover have "view ?e ?w s = view e w s" if "s \<in> S" "s \<noteq> (i, key)" for s
    proof -
      have g: "slot_get (fst s) ?e (snd s) = slot_get (fst s) e (snd s)" using that by (cases s) auto
      show ?thesis
      proof (cases "slot_get (fst s) e (snd s)")
        case (Some d)
        then have "d \<in> colls w" using owned_slot [OF own, of "fst s" "snd s" d] that(1) by simp
        then have "d \<noteq> c" using n by blast
        then show ?thesis using Some g n upd_law [OF c, of u] by (simp add: view_def)
      next
        case None
        then show ?thesis using g by (simp add: view_def)
      qed
    qed
    ultimately show ?thesis by blast
  qed
qed

lemma put_sequence:
  assumes "owned S e w" and "inj_on (sanitizeName \<circ> snd) S" and "distinct (map (fst \<circ> snd) xs)"
    and "\<And>t s u. (t, s, u) \<in> set xs \<Longrightarrow> s \<in> S \<and> snd s \<noteq> '''' \<and> labels_ok t"
  shows "\<exists>e' w'. in_sequence (map (put_tagged api) xs) (e, w) = Some (e', w') \<and> owned S e' w' \<and>
    (\<forall>s u. s \<in> S \<and> (\<exists>t. (t, s, u) \<in> set xs) \<longrightarrow>
       view e' w' s = Some (upd_value u (case view e w s of None \<Rightarrow> Fin 0 | Some x \<Rightarrow> x))) \<and>
    (\<forall>s \<in> S. s \<notin> (fst \<circ> snd) ` set xs \<longrightarrow> view e' w' s = view e w s)"
  using assms
proof (induction xs arbitrary: e w)
  case (Cons x xs)
  obtain t i key u where x: "x = (t, (i, key), u)" by (metis surj_pair)
  have "(i, key) \<in> S" "key \<noteq> ''''" "labels_ok t" using Cons.prems(4) [of t "(i, key)" u] x by auto
  then obtain e1 w1 where
      p: "put_slot api t ((i, key), u) (e, w) = Some (e1, w1)" "owned S e1 w1"
    and v: "view e1 w1 (i, key) = Some (upd_value u (case view e w (i, key) of None \<Rightarrow> Fin 0 | Some x \<Rightarrow> x))"
    and f: "\<forall>s \<in> S. s \<noteq> (i, key) \<longrightarrow> view e1 w1 s = view e w s"
    using put_slot_step [OF Cons.prems(1) _ _ _ Cons.prems(2)] by metis
  have "\<And>t s u. (t, s, u) \<in> set xs \<Longrightarrow> s \<in> S \<and> snd s \<noteq> '''' \<and> labels_ok t"
    using Cons.prems(4) by auto
  moreover have "distinct (map (fst \<circ> snd) xs)" "(i, key) \<notin> (fst \<circ> snd) ` set xs"
    using Cons.prems(3) x by (simp_all add: comp_def)
  ultimately obtain e2 w2 where
      q: "in_sequence (map (put_tagged api) xs) (e1, w1) = Some (e2, w2)" "owned S e2 w2"
    and v2: "\<forall>s u. s \<in> S \<and> (\<exists>t. (t, s, u) \<in> set xs) \<longrightarrow>
       view e2 w2 s = Some (upd_value u (case view e1 w1 s of None \<Rightarrow> Fin 0 | Some x \<Rightarrow> x))"
    and f2: "\<forall>s \<in> S. s \<notin> (fst \<circ> snd) ` set xs \<longrightarrow> view e2 w2 s = view e1 w1 s"
    using Cons.IH [OF p(2) Cons.prems(2)] by blast
  have k: "view e2 w2 (i, key) = view e1 w1 (i, key)"
    using f2 \<open>(i, key) \<in> S\<close> \<open>(i, key) \<notin> (fst \<circ> snd) ` set xs\<close> by blast
  have "in_sequence (map (put_tagged api) (x # xs)) (e, w) = Some (e2, w2)"
    using p q x by (simp add: put_tagged_def)
  moreover have "view e2 w2 s = Some (upd_value u' (case view e w s of None \<Rightarrow> Fin 0 | Some x \<Rightarrow> x))"
    if "s \<in> S" "(t', s, u') \<in> set (x # xs)" for s t' u'
  proof (cases "(t', s, u') = x")
    case True
    then show ?thesis using k v x by simp
  next
    case False
    then have m: "(t', s, u') \<in> set xs" using that by auto
    then have "s \<in> (fst \<circ> snd) ` set xs" by force
    then have "s \<noteq> (i, key)" using \<open>(i, key) \<notin> (fst \<circ> snd) ` set xs\<close> by blast
    then have "view e1 w1 s = view e w s" using f that(1) by blast
    moreover have "view e2 w2 s = Some (upd_value u' (case view e1 w1 s of None \<Rightarrow> Fin 0 | Some x \<Rightarrow> x))"
      using v2 m that(1) by blast
    ultimately show ?thesis by simp
  qed
  moreover have "view e2 w2 s = view e w s" if "s \<in> S" "s \<notin> (fst \<circ> snd) ` set (x # xs)" for s
    using f f2 that x by auto
  ultimately show ?case using q(2) by blast
qed auto

end

subsection \<open>Use of the registry\<close>

text \<open>What a service does with its metrics: \<^verbatim>\<open>metrics.Counter(name).Add(delta)\<close> and the like.\<close>

datatype metric_op =
    IncCounter string int
  | SetGauge string f64
  | ObserveHistogram string f64
  | RecordRate string bool

fun op_metric :: "metric_op \<Rightarrow> string \<times> MetricType" where
  "op_metric (IncCounter n d) = (n, MetricTypeCounter)"
| "op_metric (SetGauge n x) = (n, MetricTypeGauge)"
| "op_metric (ObserveHistogram n x) = (n, MetricTypeHistogram)"
| "op_metric (RecordRate n ok) = (n, MetricTypeRate)"

fun do_metric :: "metric_op \<Rightarrow> Registry \<Rightarrow> Registry" where
  "do_metric (IncCounter n d) r = on_counter n (Counter_Add d) r"
| "do_metric (SetGauge n x) r =
     (let r1 = snd (GetOrCreateGauge n r) in r1\<lparr>gauges := al_update n (Gauge_Set x) (gauges r1)\<rparr>)"
| "do_metric (ObserveHistogram n x) r =
     (let r1 = snd (GetOrCreateHistogram n r) in r1\<lparr>histograms := al_update n (Observe x) (histograms r1)\<rparr>)"
| "do_metric (RecordRate n ok) r =
     (let r1 = snd (GetOrCreateRate n r)
      in r1\<lparr>rates := al_update n (if ok then RecordSuccess else RecordFail) (rates r1)\<rparr>)"

definition touch :: "(string \<Rightarrow> 'm) \<Rightarrow> string \<Rightarrow> ('m \<Rightarrow> 'm) \<Rightarrow> (string \<times> 'm) list \<Rightarrow> (string \<times> 'm) list" where
  "touch new n f m = al_update n f (snd (get_or_create new n m))"

lemma do_metric_touch:
  "do_metric (IncCounter n d) r = r\<lparr>counters := touch newCounter n (Counter_Add d) (counters r)\<rparr>"
  "do_metric (SetGauge n x) r = r\<lparr>gauges := touch newGauge n (Gauge_Set x) (gauges r)\<rparr>"
  "do_metric (ObserveHistogram n x) r = r\<lparr>histograms := touch newHistogram n (Observe x) (histograms r)\<rparr>"
  "do_metric (RecordRate n ok) r =
     r\<lparr>rates := touch newRate n (if ok then RecordSuccess else RecordFail) (rates r)\<rparr>"
  by (auto simp: on_counter_def GetOrCreateCounter_def GetOrCreateGauge_def GetOrCreateHistogram_def
      GetOrCreateRate_def touch_def Let_def split: prod.split)

lemma touch_lookup:
  "map_of (touch new n f m) k =
     (if k = n then Some (f (case map_of m n of None \<Rightarrow> new n | Some v \<Rightarrow> v)) else map_of m k)"
  by (auto simp: touch_def get_or_create_def map_add_def split: option.split)

lemma touch_keys: "fst ` set (touch new n f m) = insert n (fst ` set m)"
proof -
  have "fst ` set (touch new n f m) = fst ` set (snd (get_or_create new n m))"
    unfolding touch_def by (metis al_update_keys list.set_map)
  also have "\<dots> = insert n (fst ` set m)"
    by (auto simp: get_or_create_def split: option.split dest: map_of_SomeD intro: rev_image_eqI)
  finally show ?thesis .
qed

context metric_map
begin

lemma touch_well_named:
  assumes "well_named m" and "\<And>v. name_of (f v) = name_of v"
  shows "well_named (touch new n f m)"
  unfolding touch_def by (rule al_update_keeps) (use get_or_create_keeps assms in \<open>metis surjective_pairing\<close>)+

end

text \<open>A registry whose metrics are in a catalogue, without tags, and that reports its snapshots.\<close>

definition catalogued :: "(string \<times> MetricType) list \<Rightarrow> Registry \<Rightarrow> bool" where
  "catalogued cat r \<longleftrightarrow> registry_ok r \<and> onSnapshot r \<noteq> None \<and>
     (\<forall>k c. map_of (counters r) k = Some c \<longrightarrow> (k, MetricTypeCounter) \<in> set cat \<and> cm_tags c = Map.empty) \<and>
     (\<forall>k c. map_of (gauges r) k = Some c \<longrightarrow> (k, MetricTypeGauge) \<in> set cat \<and> gm_tags c = Map.empty) \<and>
     (\<forall>k c. map_of (histograms r) k = Some c \<longrightarrow> (k, MetricTypeHistogram) \<in> set cat \<and> hm_tags c = Map.empty) \<and>
     (\<forall>k c. map_of (rates r) k = Some c \<longrightarrow> (k, MetricTypeRate) \<in> set cat \<and> rm_tags c = Map.empty)"

lemma do_metric_ok: "registry_ok r \<Longrightarrow> registry_ok (do_metric op r)"
  by (cases op)
    (auto simp: do_metric_touch registry_ok_def Counter_Add_def Gauge_Set_def Observe_def RecordSuccess_def
      RecordFail_def simp del: do_metric.simps intro!: counter_map.touch_well_named gauge_map.touch_well_named
      histogram_map.touch_well_named rate_map.touch_well_named)

lemma do_metric_catalogued:
  assumes "catalogued cat r" and "op_metric op \<in> set cat"
  shows "catalogued cat (do_metric op r)"
proof -
  have "registry_ok (do_metric op r)" using assms(1) do_metric_ok by (simp add: catalogued_def)
  with assms show ?thesis
    unfolding catalogued_def
    by (cases op)
      (auto simp: do_metric_touch touch_lookup Counter_Add_def Gauge_Set_def Observe_def RecordSuccess_def
        RecordFail_def newCounter_def newGauge_def newHistogram_def newRate_def simp del: do_metric.simps
        split: option.splits if_splits)
qed

lemma run_metric_catalogued:
  "catalogued cat r \<Longrightarrow> \<forall>op \<in> set ops. op_metric op \<in> set cat \<Longrightarrow> catalogued cat (fold do_metric ops r)"
  by (induction ops arbitrary: r) (auto intro: do_metric_catalogued)

lemma collect_catalogued: "catalogued cat r \<Longrightarrow> catalogued cat (snd (collect now r))"
  unfolding catalogued_def
  by (auto simp: collect_ok)
    (auto simp: collect_def map_of_map_prod Counter_Reset_def Histogram_Reset_def Rate_Reset_def)

lemma put_all_keys:
  "distinct (map fst xs) \<Longrightarrow> distinct (map fst (put_all mk m xs))"
  unfolding put_all_def
proof (induction m arbitrary: xs)
  case (Cons p m)
  have "distinct (map fst (snap_put (fst p) (mk p) xs))"
    using Cons.prems by (auto simp: snap_put_def distinct_map_filter)
  with Cons.IH show ?case by simp
qed simp

lemma collect_keys: "distinct (map fst (fst (collect now r)))"
  by (simp add: collect_def put_all_keys)

lemma collect_entry:
  assumes "catalogued cat r" and "(k, s) \<in> set (fst (collect now r))"
  shows "sn_Name s = k" and "(k, sn_Type s) \<in> set cat" and "sn_Tags s = Map.empty"
proof -
  have "map_of (fst (collect now r)) k = Some s" using assms(2) collect_keys by (simp add: map_of_is_SomeI)
  then have "sn_Name s = k \<and> (k, sn_Type s) \<in> set cat \<and> sn_Tags s = Map.empty"
    using assms(1) collect_lookup [of r now k] unfolding catalogued_def
    by (auto simp: snap_rate_def snap_histogram_def snap_gauge_def snap_counter_def base_snapshot_def
        split: option.splits)
  then show "sn_Name s = k" "(k, sn_Type s) \<in> set cat" "sn_Tags s = Map.empty" by auto
qed

subsection \<open>Catalogues\<close>

definition cat_slots :: "(string \<times> MetricType) list \<Rightarrow> slot list" where
  "cat_slots cat = concat (map metric_slots cat)"

definition export_names :: "(string \<times> MetricType) list \<Rightarrow> string list" where
  "export_names cat = map (sanitizeName \<circ> snd) (cat_slots cat)"

definition catalogue_ok :: "(string \<times> MetricType) list \<Rightarrow> bool" where
  "catalogue_ok cat \<longleftrightarrow> distinct (map fst cat) \<and> '''' \<notin> set (map fst cat) \<and> distinct (export_names cat)"

lemma cat_inj: "catalogue_ok cat \<Longrightarrow> inj_on (sanitizeName \<circ> snd) (set (cat_slots cat))"
  by (simp add: catalogue_ok_def export_names_def distinct_map)

lemma cat_distinct: "catalogue_ok cat \<Longrightarrow> distinct (cat_slots cat)"
  by (simp add: catalogue_ok_def export_names_def distinct_map)

lemma metric_slots_ne: "(i, key) \<in> set (metric_slots (k, ty)) \<Longrightarrow> k \<noteq> '''' \<Longrightarrow> key \<noteq> ''''"
  by (auto simp: metric_slots_def hist_suffixes_def rate_suffixes_def split: MetricType.splits)

lemma slot_in_cat: "p \<in> set cat \<Longrightarrow> s \<in> set (metric_slots p) \<Longrightarrow> s \<in> set (cat_slots cat)"
  by (auto simp: cat_slots_def)

lemma concat_disjoint:
  "distinct (concat (map f xs)) \<Longrightarrow> distinct xs \<Longrightarrow> x \<in> set xs \<Longrightarrow> y \<in> set xs \<Longrightarrow> x \<noteq> y \<Longrightarrow> set (f x) \<inter> set (f y) = {}"
  by (induction xs) auto

lemma concat_member_distinct: "distinct (concat (map f xs)) \<Longrightarrow> x \<in> set xs \<Longrightarrow> distinct (f x)"
  by (induction xs) auto

lemma writes_slots: "set (map fst (slot_writes s)) \<subseteq> set (metric_slots (sn_Name s, sn_Type s))"
  by (auto simp: slot_writes_def dest: set_zip_leftD)

lemma writes_distinct:
  assumes "catalogue_ok cat" and "distinct (map sn_Name ss)"
    and "\<And>s. s \<in> set ss \<Longrightarrow> (sn_Name s, sn_Type s) \<in> set cat"
  shows "distinct (map (fst \<circ> snd) (all_writes ss))"
  using assms(2,3)
proof (induction ss)
  case (Cons x ss)
  have d: "distinct (concat (map metric_slots cat))" using cat_distinct [OF assms(1)] by (simp add: cat_slots_def)
  have dc: "distinct cat" using assms(1) by (simp add: catalogue_ok_def distinct_map)
  have "distinct (map fst (slot_writes x))"
    using concat_member_distinct [OF d Cons.prems(2)] by (auto simp: slot_writes_def map_fst_zip_take)
  moreover have "fst ` set (slot_writes x) \<inter> fst ` set (slot_writes y) = {}" if "y \<in> set ss" for y
  proof -
    have "(sn_Name x, sn_Type x) \<noteq> (sn_Name y, sn_Type y)" using Cons.prems(1) that by auto
    then have "set (metric_slots (sn_Name x, sn_Type x)) \<inter> set (metric_slots (sn_Name y, sn_Type y)) = {}"
      using concat_disjoint [OF d dc Cons.prems(2) Cons.prems(2)] that by auto
    then show ?thesis using writes_slots [of x] writes_slots [of y] by auto
  qed
  moreover have "distinct (map (fst \<circ> snd) (all_writes ss))" using Cons.IH Cons.prems by (simp add: comp_def)
  ultimately show ?case by (fastforce simp: all_writes_def comp_def)
qed (simp add: all_writes_def)

subsection \<open>Runs\<close>

text \<open>
  Rounds of use and collection; each round has the operations since the last one, the time, and the order in which
  the exporter visits the map of snapshots.  \<^const>\<open>None\<close> is a panic of the collecting goroutine.
\<close>

type_synonym round = "metric_op list \<times> instant \<times> (Snapshot list \<Rightarrow> Snapshot list)"

definition export_round :: "('c, 'w) prom_api \<Rightarrow> instant \<Rightarrow> (Snapshot list \<Rightarrow> Snapshot list) \<Rightarrow> Registry \<Rightarrow>
    ('c, 'w) export_state \<Rightarrow> (Registry \<times> ('c, 'w) export_state) option" where
  "export_round api now ord r s =
     (let (ss, r') = collectAndNotify now r in
      map_option (Pair r')
        (case ss of None \<Rightarrow> Some s | Some m \<Rightarrow> ExportSnapshots api (ord (map snd m)) s))"

fun metrics_run :: "('c, 'w) prom_api \<Rightarrow> round list \<Rightarrow> Registry \<Rightarrow> ('c, 'w) export_state \<Rightarrow>
    (Registry \<times> ('c, 'w) export_state) option" where
  "metrics_run api [] r s = Some (r, s)"
| "metrics_run api ((ops, now, ord) # rounds) r s =
     (case export_round api now ord (fold do_metric ops r) s of
        None \<Rightarrow> None
      | Some (r', s') \<Rightarrow> metrics_run api rounds r' s')"

fun op_delta_of :: "string \<Rightarrow> metric_op \<Rightarrow> int" where
  "op_delta_of k (IncCounter n d) = (if n = k then d else 0)"
| "op_delta_of k _ = 0"

definition op_total :: "string \<Rightarrow> metric_op list \<Rightarrow> int" where
  "op_total k ops = sum_list (map (op_delta_of k) ops)"

definition run_ops :: "round list \<Rightarrow> metric_op list" where
  "run_ops rounds = concat (map fst rounds)"

definition unreported :: "Registry \<Rightarrow> string \<Rightarrow> int" where
  "unreported r k = (case map_of (counters r) k of None \<Rightarrow> 0 | Some c \<Rightarrow> cm_value c)"

lemma unreported_op: "unreported (do_metric op r) k = (if \<exists>d. op = IncCounter k d then wrap64 (unreported r k + op_delta_of k op) else unreported r k)"
  by (cases op)
    (auto simp: unreported_def do_metric_touch touch_lookup Counter_Add_def newCounter_def simp del: do_metric.simps
      split: option.split)

lemma unreported_ops:
  assumes "0 \<le> unreported r k" and "\<And>op. op \<in> set ops \<Longrightarrow> 0 \<le> op_delta_of k op"
    and "unreported r k + op_total k ops \<le> 2 ^ 53"
  shows "unreported (fold do_metric ops r) k = unreported r k + op_total k ops"
  using assms
proof (induction ops arbitrary: r)
  case (Cons op ops)
  have t: "0 \<le> op_total k ops"
    unfolding op_total_def by (rule sum_list_nonneg) (use Cons.prems(2) in auto)
  have d: "0 \<le> op_delta_of k op" using Cons.prems(2) by simp
  have le: "unreported r k + op_delta_of k op \<le> 2 ^ 53" using Cons.prems(3) t by (simp add: op_total_def)
  have "in_int64 (unreported r k + op_delta_of k op)" using le d Cons.prems(1) by (simp add: in_int64_def)
  then have p: "unreported (do_metric op r) k = unreported r k + op_delta_of k op"
    by (cases op) (auto simp: unreported_op simp del: do_metric.simps)
  have "unreported (fold do_metric ops (do_metric op r)) k = unreported (do_metric op r) k + op_total k ops"
    by (rule Cons.IH) (use Cons.prems p d in \<open>auto simp: op_total_def\<close>)
  then show ?case by (simp add: p op_total_def)
qed (simp add: op_total_def)

lemma add_exact:
  assumes "0 \<le> x" and "0 \<le> p" and "x + p \<le> 2 ^ 53"
  shows "upd_value (AddTo p) (Fin (of_int x)) = Fin (of_int (x + p))"
proof (cases "0 < p")
  case True
  have "f64_of_int p = Fin (of_int p)" using assms by (simp add: f64_of_int_small)
  moreover have "rnd (of_int (x + p)) = Fin (of_int (x + p))" using assms by (intro rnd_int) simp
  ultimately show ?thesis using True by simp
next
  case False
  then show ?thesis using assms by simp
qed

lemma counter_write:
  assumes "catalogued cat r" and "distinct (map fst cat)" and "map_of (counters r) k = Some c"
  shows "(k, snap_counter r now (k, c)) \<in> set (fst (collect now r))"
proof -
  have u: "ty = MetricTypeCounter" if "(k, ty) \<in> set cat" for ty
    using that assms eq_key_imp_eq_value [OF assms(2)] unfolding catalogued_def by metis
  have "map_of (gauges r) k = None" "map_of (histograms r) k = None" "map_of (rates r) k = None"
    using assms(1) u unfolding catalogued_def by (metis MetricType.distinct not_None_eq)+
  then have "map_of (fst (collect now r)) k = Some (snap_counter r now (k, c))"
    using assms(1,3) collect_lookup [of r now k] by (simp add: catalogued_def)
  then show ?thesis by (rule map_of_SomeD)
qed

lemma gauge_write:
  assumes "catalogued cat r" and "distinct (map fst cat)" and "map_of (gauges r) k = Some c"
  shows "(k, snap_gauge r now (k, c)) \<in> set (fst (collect now r))"
proof -
  have u: "ty = MetricTypeGauge" if "(k, ty) \<in> set cat" for ty
    using that assms eq_key_imp_eq_value [OF assms(2)] unfolding catalogued_def by metis
  have "map_of (histograms r) k = None" "map_of (rates r) k = None"
    using assms(1) u unfolding catalogued_def by (metis MetricType.distinct not_None_eq)+
  then have "map_of (fst (collect now r)) k = Some (snap_gauge r now (k, c))"
    using assms(1,3) collect_lookup [of r now k] by (simp add: catalogued_def)
  then show ?thesis by (rule map_of_SomeD)
qed

lemma counter_slot_source:
  "(t, (InCounters, k), u) \<in> set (all_writes ss) \<Longrightarrow> \<exists>s \<in> set ss. sn_Type s = MetricTypeCounter \<and> sn_Name s = k"
proof -
  assume "(t, (InCounters, k), u) \<in> set (all_writes ss)"
  then obtain s where s: "s \<in> set ss" "((InCounters, k), u) \<in> set (slot_writes s)" by (auto simp: all_writes_def)
  then have "(InCounters, k) \<in> set (metric_slots (sn_Name s, sn_Type s))" using writes_slots [of s] by force
  then show ?thesis
    using s(1) by (cases "sn_Type s") (auto simp: metric_slots_def hist_suffixes_def rate_suffixes_def)
qed

lemma counter_entry:
  assumes "catalogued cat r" and "(k, s) \<in> set (fst (collect now r))" and "sn_Type s = MetricTypeCounter"
  shows "map_of (counters r) k \<noteq> None"
proof -
  have "map_of (fst (collect now r)) k = Some s" using assms(2) collect_keys by (simp add: map_of_is_SomeI)
  then show ?thesis
    using assms(1,3) collect_lookup [of r now k] unfolding catalogued_def
    by (auto simp: snap_rate_def snap_histogram_def snap_gauge_def base_snapshot_def split: option.splits)
qed

lemma snap_writes:
  "slot_writes (snap_counter r now (k, c)) = [((InCounters, k), AddTo (cm_value c))]"
  "slot_writes (snap_gauge r now (k, g)) = [((InGauges, k), SetTo (gm_value g))]"
  by (simp_all add: slot_writes_def snap_counter_def snap_gauge_def base_snapshot_def metric_slots_def upds_def
      Counter_Reset_def Gauge_Value_def)

lemma write_of_snap: "s \<in> set ss \<Longrightarrow> p \<in> set (slot_writes s) \<Longrightarrow> (sn_Tags s, p) \<in> set (all_writes ss)"
  by (auto simp: all_writes_def)

context prom_registry
begin

lemma export_round_step:
  assumes cat: "catalogue_ok cat" and reg: "catalogued cat r" and own: "owned (set (cat_slots cat)) e w"
    and lab: "labels_ok Map.empty" and ord: "\<And>l. mset (ord l) = mset l"
  shows "\<exists>r' e' w'. export_round api now ord r (e, w) = Some (r', e', w') \<and> owned (set (cat_slots cat)) e' w' \<and>
    r' = snd (collect now r) \<and>
    (\<forall>k c. map_of (counters r) k = Some c \<longrightarrow> view e' w' (InCounters, k) =
       Some (upd_value (AddTo (cm_value c)) (case view e w (InCounters, k) of None \<Rightarrow> Fin 0 | Some x \<Rightarrow> x))) \<and>
    (\<forall>k. (k, MetricTypeCounter) \<in> set cat \<and> map_of (counters r) k = None \<longrightarrow>
       view e' w' (InCounters, k) = view e w (InCounters, k)) \<and>
    (\<forall>k g. map_of (gauges r) k = Some g \<longrightarrow> view e' w' (InGauges, k) = Some (gm_value g))"
proof -
  let ?m = "fst (collect now r)" and ?S = "set (cat_slots cat)"
  let ?ss = "ord (map snd ?m)"
  have dc: "distinct (map fst cat)" using cat by (simp add: catalogue_ok_def)
  have set_ss: "set ?ss = snd ` set ?m" using ord [of "map snd ?m"] by (metis list.set_map set_mset_mset)
  have entry: "sn_Name s = k" "(k, sn_Type s) \<in> set cat" "sn_Tags s = Map.empty" if "(k, s) \<in> set ?m" for k s
    using collect_entry [OF reg that] by auto
  have "map sn_Name (map snd ?m) = map fst ?m" using entry(1) by (auto simp: map_eq_conv)
  then have "distinct (map sn_Name (map snd ?m))" using collect_keys [of now r] by (simp only:)
  moreover have "mset (map sn_Name ?ss) = mset (map sn_Name (map snd ?m))"
    using ord [of "map snd ?m"] by (metis mset_map)
  ultimately have d: "distinct (map sn_Name ?ss)" by (metis mset_eq_imp_distinct_iff)
  have inc: "(sn_Name s, sn_Type s) \<in> set cat" if "s \<in> set ?ss" for s
    using that entry set_ss by fastforce
  have wr: "s \<in> ?S \<and> snd s \<noteq> '''' \<and> labels_ok t" if ts: "(t, s, u) \<in> set (all_writes ?ss)" for t s u
  proof -
    obtain x where x: "x \<in> set ?ss" "t = sn_Tags x" "(s, u) \<in> set (slot_writes x)"
      using ts by (auto simp: all_writes_def)
    have m: "s \<in> set (metric_slots (sn_Name x, sn_Type x))" using writes_slots [of x] x(3) by force
    have "sn_Name x \<noteq> ''''" using inc [OF x(1)] cat by (force simp: catalogue_ok_def)
    then have "snd s \<noteq> ''''" using m metric_slots_ne [of "fst s" "snd s"] by auto
    moreover have "labels_ok t" using x(1,2) set_ss entry(3) lab by force
    ultimately show ?thesis using slot_in_cat [OF inc [OF x(1)] m] by simp
  qed
  have dw: "distinct (map (fst \<circ> snd) (all_writes ?ss))" by (rule writes_distinct [OF cat d]) (rule inc)
  obtain e' w' where run: "in_sequence (map (put_tagged api) (all_writes ?ss)) (e, w) = Some (e', w')"
    and own': "owned ?S e' w'"
    and upd: "\<forall>s u. s \<in> ?S \<and> (\<exists>t. (t, s, u) \<in> set (all_writes ?ss)) \<longrightarrow>
       view e' w' s = Some (upd_value u (case view e w s of None \<Rightarrow> Fin 0 | Some x \<Rightarrow> x))"
    and frame: "\<forall>s \<in> ?S. s \<notin> (fst \<circ> snd) ` set (all_writes ?ss) \<longrightarrow> view e' w' s = view e w s"
    using put_sequence [OF own cat_inj [OF cat] dw] wr by blast
  have ex: "ExportSnapshots api ?ss (e, w) = Some (e', w')" using run by (simp add: ExportSnapshots_writes)
  have empty: "ord [] = []" using ord [of "[]"] by simp
  have on: "onSnapshot r \<noteq> None" using reg by (simp add: catalogued_def)
  have "export_round api now ord r (e, w) = Some (snd (collect now r), e', w')"
  proof (cases "?m = []")
    case True
    then have "e' = e \<and> w' = w" using run empty by (simp add: all_writes_def)
    with True on show ?thesis
      by (cases "collect now r") (auto simp: export_round_def collectAndNotify_def)
  next
    case False
    with ex on show ?thesis
      by (cases "collect now r") (auto simp: export_round_def collectAndNotify_def)
  qed
  moreover have "view e' w' (InCounters, k) =
      Some (upd_value (AddTo (cm_value c)) (case view e w (InCounters, k) of None \<Rightarrow> Fin 0 | Some x \<Rightarrow> x))"
    if c: "map_of (counters r) k = Some c" for k c
  proof -
    have "snap_counter r now (k, c) \<in> set ?ss" using counter_write [OF reg dc c] set_ss by force
    then have "(sn_Tags (snap_counter r now (k, c)), (InCounters, k), AddTo (cm_value c)) \<in> set (all_writes ?ss)"
      by (rule write_of_snap) (simp add: snap_writes)
    then show ?thesis using upd wr by blast
  qed
  moreover have "view e' w' (InCounters, k) = view e w (InCounters, k)"
    if k: "(k, MetricTypeCounter) \<in> set cat" "map_of (counters r) k = None" for k
  proof -
    have "(InCounters, k) \<notin> (fst \<circ> snd) ` set (all_writes ?ss)"
    proof
      assume "(InCounters, k) \<in> (fst \<circ> snd) ` set (all_writes ?ss)"
      then obtain s where "s \<in> set ?ss" "sn_Type s = MetricTypeCounter" "sn_Name s = k"
        using counter_slot_source by fastforce
      then show False using counter_entry [OF reg, of k s now] k(2) set_ss entry(1) by fastforce
    qed
    moreover have "(InCounters, k) \<in> ?S"
      by (rule slot_in_cat [OF k(1)]) (simp add: metric_slots_def)
    ultimately show ?thesis using frame by blast
  qed
  moreover have "view e' w' (InGauges, k) = Some (gm_value g)" if g: "map_of (gauges r) k = Some g" for k g
  proof -
    have "snap_gauge r now (k, g) \<in> set ?ss" using gauge_write [OF reg dc g] set_ss by force
    then have "(sn_Tags (snap_gauge r now (k, g)), (InGauges, k), SetTo (gm_value g)) \<in> set (all_writes ?ss)"
      by (rule write_of_snap) (simp add: snap_writes)
    then have "view e' w' (InGauges, k) =
        Some (upd_value (SetTo (gm_value g)) (case view e w (InGauges, k) of None \<Rightarrow> Fin 0 | Some x \<Rightarrow> x))"
      using upd wr by blast
    then show ?thesis by simp
  qed
  ultimately show ?thesis using own' by blast
qed

end

text \<open>A round that uses metrics of the catalogue, never lowers a counter, and visits every snapshot once.\<close>

definition round_ok :: "(string \<times> MetricType) list \<Rightarrow> round \<Rightarrow> bool" where
  "round_ok cat rd \<longleftrightarrow> (\<forall>op \<in> set (fst rd). op_metric op \<in> set cat \<and> (\<forall>k. 0 \<le> op_delta_of k op)) \<and>
     (\<forall>l. mset (snd (snd rd) l) = mset l)"

lemma op_total_nonneg: "(\<And>op. op \<in> set ops \<Longrightarrow> 0 \<le> op_delta_of k op) \<Longrightarrow> 0 \<le> op_total k ops"
  unfolding op_total_def by (rule sum_list_nonneg) auto

lemma counters_after_ops:
  "map_of (counters (fold do_metric ops r)) k = None \<longleftrightarrow>
     map_of (counters r) k = None \<and> (\<forall>op \<in> set ops. op_metric op \<noteq> (k, MetricTypeCounter))"
proof (induction ops arbitrary: r)
  case (Cons op ops)
  have "map_of (counters (do_metric op r)) k = None \<longleftrightarrow> map_of (counters r) k = None \<and> op_metric op \<noteq> (k, MetricTypeCounter)"
    by (cases op) (auto simp: do_metric_touch touch_lookup simp del: do_metric.simps)
  with Cons show ?case by auto
qed simp

lemma op_total_unused: "\<forall>op \<in> set ops. op_metric op \<noteq> (k, MetricTypeCounter) \<Longrightarrow> op_total k ops = 0"
proof (induction ops)
  case (Cons op ops)
  then show ?case by (cases op) (auto simp: op_total_def)
qed (simp add: op_total_def)

lemma unreported_collect: "unreported (snd (collect now r)) k = 0"
  by (auto simp: unreported_def collect_resets Counter_Reset_def split: option.split)

lemma gauges_collect [simp]: "gauges (snd (collect now r)) = gauges r"
  by (simp add: collect_def)

context prom_registry
begin

definition exact :: "Registry \<Rightarrow> 'c exporter \<Rightarrow> 'w \<Rightarrow> string \<Rightarrow> int \<Rightarrow> bool" where
  "exact r e w k n \<longleftrightarrow> 0 \<le> n \<and> (if map_of (counters r) k = None then view e w (InCounters, k) = None \<and> n = 0
     else view e w (InCounters, k) = Some (Fin (of_int n)))"

lemma export_round_exact:
  assumes cat: "catalogue_ok cat" and reg: "catalogued cat r" and own: "owned (set (cat_slots cat)) e w"
    and lab: "labels_ok Map.empty" and rd: "round_ok cat (ops, now, ord)" and p: "\<And>k. unreported r k = 0"
    and ex: "\<And>k. (k, MetricTypeCounter) \<in> set cat \<Longrightarrow> exact r e w k (n k)"
    and le: "\<And>k. (k, MetricTypeCounter) \<in> set cat \<Longrightarrow> n k + op_total k ops \<le> 2 ^ 53"
  shows "\<exists>r' e' w'. export_round api now ord (fold do_metric ops r) (e, w) = Some (r', e', w') \<and>
    owned (set (cat_slots cat)) e' w' \<and> catalogued cat r' \<and> (\<forall>k. unreported r' k = 0) \<and>
    (\<forall>k. (k, MetricTypeCounter) \<in> set cat \<longrightarrow> exact r' e' w' k (n k + op_total k ops)) \<and>
    (\<forall>k g. map_of (gauges r') k = Some g \<longrightarrow> view e' w' (InGauges, k) = Some (gm_value g))"
proof -
  let ?r = "fold do_metric ops r"
  have reg1: "catalogued cat ?r" using run_metric_catalogued [OF reg] rd by (auto simp: round_ok_def)
  have "\<And>l. mset (ord l) = mset l" using rd by (simp add: round_ok_def)
  from export_round_step [where now = now, OF cat reg1 own lab this] obtain e' w' where
      run: "export_round api now ord ?r (e, w) = Some (snd (collect now ?r), e', w')" "owned (set (cat_slots cat)) e' w'"
    and cv: "\<And>k c. map_of (counters ?r) k = Some c \<Longrightarrow> view e' w' (InCounters, k) =
       Some (upd_value (AddTo (cm_value c)) (case view e w (InCounters, k) of None \<Rightarrow> Fin 0 | Some x \<Rightarrow> x))"
    and cf: "\<And>k. (k, MetricTypeCounter) \<in> set cat \<Longrightarrow> map_of (counters ?r) k = None \<Longrightarrow>
       view e' w' (InCounters, k) = view e w (InCounters, k)"
    and gv: "\<And>k g. map_of (gauges ?r) k = Some g \<Longrightarrow> view e' w' (InGauges, k) = Some (gm_value g)"
    by blast
  have "exact (snd (collect now ?r)) e' w' k (n k + op_total k ops)" if k: "(k, MetricTypeCounter) \<in> set cat" for k
  proof -
    have nn: "0 \<le> op_delta_of k op" if "op \<in> set ops" for op using rd that by (auto simp: round_ok_def)
    have t: "0 \<le> op_total k ops" by (rule op_total_nonneg) (rule nn)
    have n: "0 \<le> n k" using ex [OF k] by (simp add: exact_def)
    have pe: "unreported ?r k = op_total k ops"
      using unreported_ops [of r k ops] p nn le [OF k] n by simp
    show ?thesis
    proof (cases "map_of (counters ?r) k")
      case None
      then have a: "map_of (counters r) k = None" "\<forall>op \<in> set ops. op_metric op \<noteq> (k, MetricTypeCounter)"
        by (auto simp: counters_after_ops)
      then show ?thesis
        using None ex [OF k] cf [OF k None] op_total_unused [OF a(2)] by (simp add: exact_def collect_resets)
    next
      case (Some c)
      then have c: "cm_value c = op_total k ops" using pe by (simp add: unreported_def)
      have v: "(case view e w (InCounters, k) of None \<Rightarrow> Fin 0 | Some x \<Rightarrow> x) = Fin (of_int (n k))"
        using ex [OF k] by (auto simp: exact_def split: if_splits)
      have "view e' w' (InCounters, k) = Some (upd_value (AddTo (op_total k ops)) (Fin (of_int (n k))))"
        using cv [OF Some] v c by (simp only:)
      then have "view e' w' (InCounters, k) = Some (Fin (of_int (n k + op_total k ops)))"
        using add_exact [OF n t le [OF k]] by (simp only:)
      then show ?thesis using Some n t by (simp add: exact_def collect_resets)
    qed
  qed
  moreover have "catalogued cat (snd (collect now ?r))" using collect_catalogued [OF reg1] .
  ultimately show ?thesis using run gv by (auto simp: unreported_collect)
qed

lemma metrics_run_exact:
  assumes cat: "catalogue_ok cat" and lab: "labels_ok Map.empty"
  shows "catalogued cat r \<Longrightarrow> owned (set (cat_slots cat)) e w \<Longrightarrow> (\<And>rd. rd \<in> set rounds \<Longrightarrow> round_ok cat rd) \<Longrightarrow>
    (\<And>k. unreported r k = 0) \<Longrightarrow>
    (\<And>k. (k, MetricTypeCounter) \<in> set cat \<Longrightarrow> exact r e w k (n k)) \<Longrightarrow>
    (\<And>k. (k, MetricTypeCounter) \<in> set cat \<Longrightarrow> n k + op_total k (run_ops rounds) \<le> 2 ^ 53) \<Longrightarrow>
    (\<forall>k g. map_of (gauges r) k = Some g \<longrightarrow> view e w (InGauges, k) = Some (gm_value g)) \<Longrightarrow>
    \<exists>r' e' w'. metrics_run api rounds r (e, w) = Some (r', e', w') \<and>
      (\<forall>k. (k, MetricTypeCounter) \<in> set cat \<longrightarrow> exact r' e' w' k (n k + op_total k (run_ops rounds))) \<and>
      (\<forall>k g. map_of (gauges r') k = Some g \<longrightarrow> view e' w' (InGauges, k) = Some (gm_value g))"
proof (induction rounds arbitrary: r e w n)
  case Nil
  then show ?case by (simp add: run_ops_def op_total_def)
next
  case (Cons rd rounds)
  obtain ops now ord where rd: "rd = (ops, now, ord)" by (metis surj_pair)
  have tot: "op_total k (run_ops (rd # rounds)) = op_total k ops + op_total k (run_ops rounds)" for k
    by (simp add: rd run_ops_def op_total_def)
  have rest: "0 \<le> op_total k (run_ops rounds)" for k
  proof (rule op_total_nonneg)
    fix op assume "op \<in> set (run_ops rounds)"
    then obtain x where "x \<in> set rounds" "op \<in> set (fst x)" by (auto simp: run_ops_def)
    then show "0 \<le> op_delta_of k op" using Cons.prems(3) [of x] by (simp add: round_ok_def)
  qed
  have le: "n k + op_total k ops \<le> 2 ^ 53" if "(k, MetricTypeCounter) \<in> set cat" for k
    using Cons.prems(6) [OF that] rest [of k] tot [of k] by simp
  have rok: "round_ok cat (ops, now, ord)" using Cons.prems(3) [of rd] rd by simp
  from export_round_exact [OF cat Cons.prems(1,2) lab rok Cons.prems(4,5) le]
  obtain r1 e1 w1 where one: "export_round api now ord (fold do_metric ops r) (e, w) = Some (r1, e1, w1)"
      "owned (set (cat_slots cat)) e1 w1" "catalogued cat r1" "\<forall>k. unreported r1 k = 0"
      "\<forall>k. (k, MetricTypeCounter) \<in> set cat \<longrightarrow> exact r1 e1 w1 k (n k + op_total k ops)"
      "\<forall>k g. map_of (gauges r1) k = Some g \<longrightarrow> view e1 w1 (InGauges, k) = Some (gm_value g)"
    by blast
  have "\<exists>r' e' w'. metrics_run api rounds r1 (e1, w1) = Some (r', e', w') \<and>
      (\<forall>k. (k, MetricTypeCounter) \<in> set cat \<longrightarrow> exact r' e' w' k ((n k + op_total k ops) + op_total k (run_ops rounds))) \<and>
      (\<forall>k g. map_of (gauges r') k = Some g \<longrightarrow> view e' w' (InGauges, k) = Some (gm_value g))"
    by (rule Cons.IH) (use one Cons.prems(3,6) tot in \<open>auto simp: add.assoc\<close>)
  then show ?case using one(1) by (simp add: rd run_ops_def op_total_def add.assoc)
qed

end

lemma round_counters:
  "export_round api now ord r s = Some (r', s') \<Longrightarrow> map_of (counters r') k = None \<longleftrightarrow> map_of (counters r) k = None"
  by (cases "onSnapshot r")
    (auto simp: export_round_def collectAndNotify_def collect_def map_of_map_prod split: prod.splits if_splits)

lemma metrics_run_counters:
  "metrics_run api rounds r s = Some (r', s') \<Longrightarrow>
     map_of (counters r') k = None \<longleftrightarrow>
       map_of (counters r) k = None \<and> (\<forall>op \<in> set (run_ops rounds). op_metric op \<noteq> (k, MetricTypeCounter))"
proof (induction rounds arbitrary: r s)
  case (Cons rd rounds)
  obtain ops now ord where rd: "rd = (ops, now, ord)" by (metis surj_pair)
  then obtain r1 s1 where a: "export_round api now ord (fold do_metric ops r) s = Some (r1, s1)"
      "metrics_run api rounds r1 s1 = Some (r', s')"
    using Cons.prems by (auto split: option.splits)
  show ?case
    using Cons.IH [OF a(2)] round_counters [OF a(1), of k] counters_after_ops [of ops r k]
    by (auto simp: rd run_ops_def)
qed (simp add: run_ops_def)

context prom_registry
begin

lemma metrics_totals:
  assumes lab: "labels_ok Map.empty"
    and cat: "catalogue_ok cat" and rds: "\<forall>rd \<in> set rounds. round_ok cat rd"
    and free: "\<forall>c \<in> colls w. fq w c \<notin> set (export_names cat)"
    and le: "\<forall>k. op_total k (run_ops rounds) \<le> 2 ^ 53"
  shows "\<exists>r e w'. metrics_run api rounds (newRegistry sn iv (Some sinks)) (NewPrometheusExporter, w) = Some (r, e, w') \<and>
    (\<forall>k d. IncCounter k d \<in> set (run_ops rounds) \<longrightarrow>
       (\<exists>c. promCounters e k = Some c \<and> val w' c = Fin (of_int (op_total k (run_ops rounds))))) \<and>
    (\<forall>k g. map_of (gauges r) k = Some g \<longrightarrow> (\<exists>c. promGauges e k = Some c \<and> val w' c = gm_value g))"
proof -
  let ?r = "newRegistry sn iv (Some sinks)" and ?e = "NewPrometheusExporter :: 'c exporter"
  have reg: "catalogued cat ?r" using newRegistry_ok [of sn iv "Some sinks"] by (simp add: catalogued_def newRegistry_def)
  have get: "slot_get i ?e key = None" for i key by (cases i) (simp_all add: NewPrometheusExporter_def)
  have own: "owned (set (cat_slots cat)) ?e w"
  proof (rule ownedI)
    fix i key c assume "(i, key) \<in> set (cat_slots cat)" "c \<in> colls w" "fq w c = sanitizeName key"
    moreover from this(1) have "sanitizeName key \<in> set (export_names cat)" by (force simp: export_names_def)
    ultimately show "slot_get i ?e key = Some c" using free by metis
  qed (simp add: get)
  have ex: "exact ?r ?e w k 0" for k by (simp add: exact_def newRegistry_def view_def NewPrometheusExporter_def)
  have pe: "unreported ?r k = 0" for k by (simp add: unreported_def newRegistry_def)
  have rk: "round_ok cat rd" if "rd \<in> set rounds" for rd using rds that by blast
  have gs: "\<forall>k g. map_of (gauges ?r) k = Some g \<longrightarrow> view ?e w (InGauges, k) = Some (gm_value g)"
    by (simp add: newRegistry_def)
  have "\<exists>r' e' w'. metrics_run api rounds ?r (?e, w) = Some (r', e', w') \<and>
      (\<forall>k. (k, MetricTypeCounter) \<in> set cat \<longrightarrow> exact r' e' w' k (0 + op_total k (run_ops rounds))) \<and>
      (\<forall>k g. map_of (gauges r') k = Some g \<longrightarrow> view e' w' (InGauges, k) = Some (gm_value g))"
    by (rule metrics_run_exact [OF cat lab reg own rk pe ex _ gs]) (use le in auto)
  then obtain r e w' where run: "metrics_run api rounds ?r (?e, w) = Some (r, e, w')"
    and cs: "\<And>k. (k, MetricTypeCounter) \<in> set cat \<Longrightarrow> exact r e w' k (op_total k (run_ops rounds))"
    and gv: "\<And>k g. map_of (gauges r) k = Some g \<Longrightarrow> view e w' (InGauges, k) = Some (gm_value g)"
    by auto
  have "\<exists>c. promCounters e k = Some c \<and> val w' c = Fin (of_int (op_total k (run_ops rounds)))"
    if op: "IncCounter k d \<in> set (run_ops rounds)" for k d
  proof -
    obtain rd where "rd \<in> set rounds" "IncCounter k d \<in> set (fst rd)" using op by (auto simp: run_ops_def)
    then have "(k, MetricTypeCounter) \<in> set cat" using rk [of rd] by (auto simp: round_ok_def)
    moreover have "map_of (counters r) k \<noteq> None" using metrics_run_counters [OF run, of k] op by fastforce
    ultimately have "view e w' (InCounters, k) = Some (Fin (of_int (op_total k (run_ops rounds))))"
      using cs [of k] by (simp add: exact_def)
    then show ?thesis by (auto simp: view_def)
  qed
  moreover have "\<exists>c. promGauges e k = Some c \<and> val w' c = gm_value g" if "map_of (gauges r) k = Some g" for k g
    using gv [OF that] by (auto simp: view_def)
  ultimately show ?thesis using run by blast
qed

end

subsection \<open>A registry in memory\<close>

text \<open>
  A registry as the library documents it: a collector with the same name and labels exists already, one with the
  same name and another help text or other label names is an error, as is an invalid name.
\<close>

record mem_collector =
  mc_kind :: collector_kind
  mc_name :: string
  mc_help :: string
  mc_labels :: tags
  mc_val :: f64

fun find_from :: "('a \<Rightarrow> bool) \<Rightarrow> nat \<Rightarrow> 'a list \<Rightarrow> nat option" where
  "find_from P i [] = None"
| "find_from P i (x # xs) = (if P x then Some i else find_from P (Suc i) xs)"

definition mem_register ::
    "collector_kind \<Rightarrow> string \<Rightarrow> string \<Rightarrow> tags \<Rightarrow> mem_collector list \<Rightarrow> nat reg_answer \<times> mem_collector list" where
  "mem_register kd n h t w =
     (if \<not> valid_name n \<or> (\<exists>x \<in> set w. mc_name x = n \<and> mc_help x \<noteq> h) then (RegisterError, w)
      else case find_from (\<lambda>x. mc_name x = n \<and> mc_labels x = t) 0 w of
             Some i \<Rightarrow> (AlreadyRegistered i, w)
           | None \<Rightarrow>
               if \<exists>x \<in> set w. mc_name x = n \<and> dom (mc_labels x) \<noteq> dom t then (RegisterError, w)
               else (Registered (length w),
                 w @ [\<lparr>mc_kind = kd, mc_name = n, mc_help = h, mc_labels = t, mc_val = Fin 0\<rparr>]))"

definition mem_api :: "(nat, mem_collector list) prom_api" where
  "mem_api = \<lparr>prom_register = mem_register,
     prom_is = (\<lambda>kd i w. kd = CounterKind \<or> mc_kind (w ! i) = GaugeKind),
     prom_add = (\<lambda>i v w. w[i := (w ! i)\<lparr>mc_val := fadd (mc_val (w ! i)) v\<rparr>]),
     prom_set = (\<lambda>i v w. w[i := (w ! i)\<lparr>mc_val := v\<rparr>])\<rparr>"

definition mem_colls :: "mem_collector list \<Rightarrow> nat set" where
  "mem_colls w = {..<length w}"

definition mem_fq :: "mem_collector list \<Rightarrow> nat \<Rightarrow> string" where
  "mem_fq w i = (if i < length w then mc_name (w ! i) else '''')"

definition mem_val :: "mem_collector list \<Rightarrow> nat \<Rightarrow> f64" where
  "mem_val w i = (if i < length w then mc_val (w ! i) else NaN)"

lemma find_from_SomeD: "find_from P i xs = Some j \<Longrightarrow> \<exists>x \<in> set xs. P x"
  by (induction P i xs rule: find_from.induct) (auto split: if_splits)

interpretation mem: prom_registry mem_api mem_colls mem_fq mem_val "\<lambda>_. True"
proof unfold_locales
  fix kd n h t w c w'
  assume "prom_register mem_api kd n h t w = (Registered c, w')"
  then have "c = length w" "w' = w @ [\<lparr>mc_kind = kd, mc_name = n, mc_help = h, mc_labels = t, mc_val = Fin 0\<rparr>]"
    by (auto simp: mem_api_def mem_register_def split: if_splits option.splits)
  then show "c \<notin> mem_colls w \<and> mem_colls w' = insert c (mem_colls w) \<and> mem_fq w' = (mem_fq w)(c := n) \<and>
      mem_val w' = (mem_val w)(c := Fin 0)"
    by (auto simp: mem_colls_def mem_fq_def mem_val_def fun_eq_iff nth_append)
next
  fix n t w kd h
  assume v: "valid_name n" and no: "\<forall>c \<in> mem_colls w. mem_fq w c \<noteq> n"
  have "mc_name x \<noteq> n" if "x \<in> set w" for x
    using no that by (auto simp: mem_colls_def mem_fq_def in_set_conv_nth)
  then have "\<not> (\<exists>x \<in> set w. mc_name x = n \<and> mc_help x \<noteq> h)"
      "find_from (\<lambda>x. mc_name x = n \<and> mc_labels x = t) 0 w = None"
      "\<not> (\<exists>x \<in> set w. mc_name x = n \<and> dom (mc_labels x) \<noteq> dom t)"
    using find_from_SomeD [of "\<lambda>x. mc_name x = n \<and> mc_labels x = t" 0 w] by (auto, fastforce)
  with v show "\<exists>c w'. prom_register mem_api kd n h t w = (Registered c, w')"
    by (simp add: mem_api_def mem_register_def)
qed (auto simp: mem_api_def mem_colls_def mem_fq_def mem_val_def fun_eq_iff nth_list_update)

subsection \<open>Properties\<close>


definition demo_catalogue :: "(string \<times> MetricType) list" where
  "demo_catalogue = [(''rpc.calls'', MetricTypeCounter), (''lag'', MetricTypeGauge), (''io'', MetricTypeRate),
     (''size'', MetricTypeHistogram)]"

definition demo_rounds :: "round list" where
  "demo_rounds = [([IncCounter ''rpc.calls'' 2, SetGauge ''lag'' (Fin 3), IncCounter ''rpc.calls'' 5], 0, rev),
     ([RecordRate ''io'' False, IncCounter ''rpc.calls'' 1, ObserveHistogram ''size'' (Fin 9)], 10, \<lambda>l. l)]"

lemma demo_catalogue_ok: "catalogue_ok demo_catalogue"
  by code_simp


text \<open>
  Names that meet.  A rate named k exports a gauge named k_fail.  If a counter is named k_fail too, without tags on
  either, the outcome depends on the order in which the exporter happens to visit the two snapshots: counter first,
  and the export panics, in the collecting goroutine, which ends the process; rate first, and the counter finds the
  gauge, takes it for a counter, and adds its value to the number of failures.
\<close>

theorem colliding_names:
  assumes "cm_tags m = Map.empty" and "rm_tags x = Map.empty"
  shows "ExportSnapshots mem_api [snap_counter r now (sanitizeName k @ ''_fail'', m), snap_rate r now (k, x)]
      (NewPrometheusExporter, []) = None \<and>
    (\<exists>e w i. ExportSnapshots mem_api [snap_rate r now (k, x), snap_counter r now (sanitizeName k @ ''_fail'', m)]
        (NewPrometheusExporter, []) = Some (e, w) \<and>
      promCounters e (sanitizeName k @ ''_fail'') = Some i \<and> promRates e (sanitizeName k @ ''_fail'') = Some i \<and>
      mem_val w i = upd_value (AddTo (cm_value m)) (f64_of_int (rs_Fail (fst (Rate_Reset x)))))"
proof -
  note defs = ExportSnapshots_def export_one_def exportCounter_def exportRate_def exportRateGauge_def
    obtain_collector_def snap_counter_def snap_rate_def base_snapshot_def Let_def mem_api_def
    mem_register_def derived_valid NewPrometheusExporter_def Counter_Reset_def mem_val_def assms
  show ?thesis by (simp add: defs)
qed

theorem colliding_names_witness:
  "ExportSnapshots mem_api
      [snap_counter (newRegistry ''s'' 1 None) 0 (sanitizeName ''io'' @ ''_fail'', Counter_Add 4 (newCounter ''n'')),
       snap_rate (newRegistry ''s'' 1 None) 0 (''io'', RecordFail (newRate ''io''))] (NewPrometheusExporter, []) = None"
  using colliding_names [of "Counter_Add 4 (newCounter ''n'')" "RecordFail (newRate ''io'')"
      "newRegistry ''s'' 1 None" 0 "''io''"]
  by (simp add: Counter_Add_def newCounter_def RecordFail_def newRate_def)

text \<open>
  Once a counter is exported, later snapshots of it change the Prometheus counter only by positive values: a
  window in which the decrements outweigh the increments is lost, and so are tags added after the first export.
\<close>

theorem exported_counter_only_grows:
  assumes "promCounters e (sn_Name snap) = Some i" and "sn_Counter snap = Some v"
  shows "exportCounter api snap (e, w) = Some (e, if 0 < v then prom_add api i (f64_of_int v) w else w) \<and>
    exportCounter api (snap\<lparr>sn_Tags := t\<rparr>) (e, w) = exportCounter api snap (e, w)"
  using assms by (cases e) (simp add: exportCounter_def obtain_collector_def)

theorem exported_counter_only_grows_witness:
  "exportCounter mem_api ((base_snapshot (newRegistry ''s'' 1 None) 0 ''c'' MetricTypeCounter Map.empty)\<lparr>sn_Counter := Some (- 3)\<rparr>)
     (NewPrometheusExporter\<lparr>promCounters := [''c'' \<mapsto> 0]\<rparr>, []) = Some (NewPrometheusExporter\<lparr>promCounters := [''c'' \<mapsto> 0]\<rparr>, [])"
  using exported_counter_only_grows [of "NewPrometheusExporter\<lparr>promCounters := [''c'' \<mapsto> 0]\<rparr>"
      "(base_snapshot (newRegistry ''s'' 1 None) 0 ''c'' MetricTypeCounter Map.empty)\<lparr>sn_Counter := Some (- 3)\<rparr>" 0 "- 3"
      mem_api "[]"]
  by (simp add: base_snapshot_def)

end
