(* ===== verification/Cdn.thy ===== *)
theory Cdn
  imports GoText Upload
begin

text \<open>
  The client of the content delivery network (\<^verbatim>\<open>pkg/cdn/cdn.go\<close>): options, the three calls, the translation of
  status codes into errors, and the helpers for paths and expiry.  The network with the server, \<^verbatim>\<open>encoding/json\<close>
  and the URL parser are the record \<open>cdn_api\<close>.  The theory shows that \<^verbatim>\<open>errors.Is\<close> identifies exactly the status the
  server sent, and that the path taken from a link of object storage is the key of the object.
\<close>

subsection \<open>Errors\<close>

datatype sentinel = ErrFileNotFound | ErrQueueFull | ErrDiskFull | ErrUnauthorized | ErrForbidden | ErrBadRequest

text \<open>An error value: one of the sentinels, a plain text, or an error wrapped by \<^verbatim>\<open>%w\<close> in a text.\<close>

datatype cdn_err = Sentinel sentinel | Plain string | Wrapped string cdn_err string

fun err_is :: "cdn_err \<Rightarrow> sentinel \<Rightarrow> bool" where
  \<comment> \<open>\<^verbatim>\<open>errors.Is\<close>\<close>
  "err_is (Sentinel s) t \<longleftrightarrow> s = t"
| "err_is (Plain m) t \<longleftrightarrow> False"
| "err_is (Wrapped pre e post) t \<longleftrightarrow> err_is e t"

subsection \<open>Options\<close>

record CdnOptions =
  ApiUrl :: string
  FileUrl :: string
  ApiKey :: string
  CallbackUrl :: string
  Timeout :: duration

datatype CdnOption = WithApiUrl string | WithFileUrl string | WithApiKey string | WithCallbackUrl string | WithTimeout duration

fun cdn_apply :: "CdnOption \<Rightarrow> CdnOptions \<Rightarrow> CdnOptions" where
  "cdn_apply (WithApiUrl x) opts = opts\<lparr>ApiUrl := x\<rparr>"
| "cdn_apply (WithFileUrl x) opts = opts\<lparr>FileUrl := x\<rparr>"
| "cdn_apply (WithApiKey x) opts = opts\<lparr>ApiKey := x\<rparr>"
| "cdn_apply (WithCallbackUrl x) opts = opts\<lparr>CallbackUrl := x\<rparr>"
| "cdn_apply (WithTimeout x) opts = opts\<lparr>Timeout := x\<rparr>"

record CdnClient =
  cdn_options :: CdnOptions
  cdn_timeout :: duration

definition CdnNewClient :: "CdnOption list \<Rightarrow> CdnClient" where
  "CdnNewClient opts =
     (let options = fold cdn_apply opts \<lparr>ApiUrl = '''', FileUrl = '''', ApiKey = '''', CallbackUrl = '''', Timeout = 10 * second\<rparr>
      in \<lparr>cdn_options = options, cdn_timeout = Timeout options\<rparr>)"

subsection \<open>Requests and responses\<close>

record DownloadRequest =
  dr_Url :: string
  dr_CallbackUrl :: string
  dr_ExpiryMinutes :: int

record SignRequest =
  sr_Path :: string
  sr_ExpiryMinutes :: int

datatype cdn_request = ReqDownload DownloadRequest | ReqSign SignRequest

record DownloadResponse =
  dp_TaskId :: string
  dp_Status :: string
  dp_AccessUrl :: string
  dp_Message :: string

record SignResponse =
  sp_Status :: string
  sp_AccessUrl :: string
  sp_ExpiryMinutes :: int
  sp_Message :: string

record http_request =
  hr_method :: string
  hr_url :: string
  hr_headers :: "(string \<times> string) list"
  hr_body :: string
  hr_timeout :: duration

datatype http_answer =
    NoAnswer string              \<comment> \<open>\<^verbatim>\<open>client.Do\<close> failed\<close>
  | BrokenBody int string        \<comment> \<open>reading the body failed\<close>
  | Answer int string

text \<open>\<open>api_new\<close> tells why \<^verbatim>\<open>http.NewRequest\<close> refuses a URL, if it does.\<close>

record ('h, 'w) cdn_api =
  api_marshal :: "cdn_request \<Rightarrow> string + string"
  api_new :: "string \<Rightarrow> string option"
  api_do :: "http_request \<Rightarrow> 'w \<Rightarrow> http_answer \<times> 'w"
  api_download_of :: "string \<Rightarrow> string + DownloadResponse"
  api_sign_of :: "string \<Rightarrow> string + SignResponse"
  api_health_of :: "string \<Rightarrow> string + 'h"
  api_parse_path :: "string \<Rightarrow> string option"

definition status_error :: "int \<Rightarrow> string \<Rightarrow> cdn_err option" where
  "status_error st body =
     (if 200 \<le> st \<and> st < 300 then None
      else if st = 404 then Some (Sentinel ErrFileNotFound)
      else if st = 400 then Some (Wrapped '''' (Sentinel ErrBadRequest) ('': '' @ body))
      else if st = 401 then Some (Sentinel ErrUnauthorized)
      else if st = 403 then Some (Sentinel ErrForbidden)
      else if st = 429 then Some (Sentinel ErrQueueFull)
      else if st = 507 then Some (Sentinel ErrDiskFull)
      else Some (Plain (''unexpected status '' @ format_int st @ '': '' @ body)))"

definition doPost ::
    "('h, 'w) cdn_api \<Rightarrow> CdnClient \<Rightarrow> string \<Rightarrow> cdn_request \<Rightarrow> (string \<Rightarrow> string + 'r) \<Rightarrow> 'w \<Rightarrow> (cdn_err + 'r) \<times> 'w" where
  "doPost api c path req decode w =
     (let reqUrl = trim_right_char (CHR ''/'') (ApiUrl (cdn_options c)) @ path in
      case api_marshal api req of
        Inl e \<Rightarrow> (Inl (Wrapped ''marshal request: '' (Plain e) ''''), w)
      | Inr bodyBytes \<Rightarrow>
          (case api_new api reqUrl of
             Some e \<Rightarrow> (Inl (Wrapped ''new request: '' (Plain e) ''''), w)
           | None \<Rightarrow>
               let (a, w') = api_do api
                 \<lparr>hr_method = ''POST'', hr_url = reqUrl,
                  hr_headers = [(''Content-Type'', ''application/json''), (''X-API-Key'', ApiKey (cdn_options c))],
                  hr_body = bodyBytes, hr_timeout = cdn_timeout c\<rparr> w
               in (case a of
                     NoAnswer e \<Rightarrow> Inl (Wrapped ''do request: '' (Plain e) '''')
                   | BrokenBody st e \<Rightarrow> Inl (Wrapped ''read response: '' (Plain e) '''')
                   | Answer st respBytes \<Rightarrow>
                       (case status_error st respBytes of
                          Some e \<Rightarrow> Inl e
                        | None \<Rightarrow>
                            (case decode respBytes of
                               Inl e \<Rightarrow> Inl (Wrapped ''unmarshal response: '' (Plain e) '''')
                             | Inr resp \<Rightarrow> Inr resp)), w')))"

definition wrap_err :: "string \<Rightarrow> (cdn_err + 'r) \<times> 'w \<Rightarrow> (cdn_err + 'r) \<times> 'w" where
  "wrap_err pre x = (case fst x of Inl e \<Rightarrow> (Inl (Wrapped pre e ''''), snd x) | Inr r \<Rightarrow> x)"

definition download_request :: "CdnClient \<Rightarrow> string \<Rightarrow> int \<Rightarrow> cdn_request" where
  "download_request c cosUrl expiryMinutes =
     ReqDownload \<lparr>dr_Url = cosUrl, dr_CallbackUrl = CallbackUrl (cdn_options c), dr_ExpiryMinutes = expiryMinutes\<rparr>"

definition sign_request :: "string \<Rightarrow> int \<Rightarrow> cdn_request" where
  "sign_request cdnPath expiryMinutes = ReqSign \<lparr>sr_Path = cdnPath, sr_ExpiryMinutes = expiryMinutes\<rparr>"

definition CdnDownload ::
    "('h, 'w) cdn_api \<Rightarrow> CdnClient \<Rightarrow> string \<Rightarrow> int \<Rightarrow> 'w \<Rightarrow> (cdn_err + DownloadResponse) \<times> 'w" where
  "CdnDownload api c cosUrl expiryMinutes w =
     wrap_err ''cdn download: '' (doPost api c ''/api/download'' (download_request c cosUrl expiryMinutes)
       (api_download_of api) w)"

definition CdnSign ::
    "('h, 'w) cdn_api \<Rightarrow> CdnClient \<Rightarrow> string \<Rightarrow> int \<Rightarrow> 'w \<Rightarrow> (cdn_err + SignResponse) \<times> 'w" where
  "CdnSign api c cdnPath expiryMinutes w =
     wrap_err ''cdn sign: '' (doPost api c ''/api/sign'' (sign_request cdnPath expiryMinutes) (api_sign_of api) w)"

definition CdnHealth :: "('h, 'w) cdn_api \<Rightarrow> CdnClient \<Rightarrow> 'w \<Rightarrow> (cdn_err + 'h) \<times> 'w" where
  "CdnHealth api c w =
     (let reqUrl = trim_right_char (CHR ''/'') (ApiUrl (cdn_options c)) @ ''/health'' in
      case api_new api reqUrl of
        Some e \<Rightarrow> (Inl (Wrapped ''cdn health new request: '' (Plain e) ''''), w)
      | None \<Rightarrow>
          let (a, w') = api_do api
            \<lparr>hr_method = ''GET'', hr_url = reqUrl, hr_headers = [], hr_body = '''', hr_timeout = cdn_timeout c\<rparr> w
          in (case a of
                NoAnswer e \<Rightarrow> Inl (Wrapped ''cdn health request: '' (Plain e) '''')
              | BrokenBody st e \<Rightarrow> Inl (Wrapped ''cdn health read body: '' (Plain e) '''')
              | Answer st body \<Rightarrow>
                  if st \<noteq> 200 then Inl (Plain (''cdn health status '' @ format_int st @ '': '' @ body))
                  else (case api_health_of api body of
                          Inl e \<Rightarrow> Inl (Wrapped ''cdn health unmarshal: '' (Plain e) '''')
                        | Inr resp \<Rightarrow> Inr resp), w'))"

subsection \<open>Helpers\<close>

definition ExtractCdnPath :: "('h, 'w) cdn_api \<Rightarrow> string \<Rightarrow> string" where
  "ExtractCdnPath api cosUrl =
     (case api_parse_path api cosUrl of None \<Rightarrow> '''' | Some path \<Rightarrow> trim_prefix path ''/'')"

definition ExpiryHoursToMinutes :: "int \<Rightarrow> int" where
  "ExpiryHoursToMinutes hours = (if hours \<le> 0 then 0 else wrap64 (hours * 60))"

subsection \<open>Lemmas\<close>

text \<open>The status each sentinel stands for.\<close>

fun sentinel_status :: "sentinel \<Rightarrow> int" where
  "sentinel_status ErrFileNotFound = 404"
| "sentinel_status ErrQueueFull = 429"
| "sentinel_status ErrDiskFull = 507"
| "sentinel_status ErrUnauthorized = 401"
| "sentinel_status ErrForbidden = 403"
| "sentinel_status ErrBadRequest = 400"

lemma status_error_is: "status_error st body = Some e \<Longrightarrow> err_is e s \<longleftrightarrow> st = sentinel_status s"
  by (cases s) (auto simp: status_error_def split: if_splits)

lemma status_error_None: "status_error st body = None \<longleftrightarrow> 200 \<le> st \<and> st < 300"
  by (simp add: status_error_def)

lemma sentinel_not_success: "\<not> (200 \<le> sentinel_status s \<and> sentinel_status s < 300)"
  by (cases s) simp_all

text \<open>The request URL has exactly one slash between the address and the path.\<close>

lemma trim_slashes: "trim_right_char c (s @ replicate n c) = trim_right_char c s"
proof -
  have "dropWhile (\<lambda>x. x = c) (replicate n c @ rev s) = dropWhile (\<lambda>x. x = c) (rev s)"
    by (induction n) simp_all
  then show ?thesis by (simp add: trim_right_char_def)
qed

lemma trim_right_fixed: "s = '''' \<or> last s \<noteq> c \<Longrightarrow> trim_right_char c s = s"
proof -
  assume a: "s = '''' \<or> last s \<noteq> c"
  have "dropWhile (\<lambda>x. x = c) (rev s) = rev s"
    using a by (cases "rev s") (auto simp: hd_rev [symmetric])
  then show ?thesis by (simp add: trim_right_char_def)
qed

lemma doPost_cases:
  assumes "api_marshal api req = Inr body" and "api_new api url = None"
    and "url = trim_right_char (CHR ''/'') (ApiUrl (cdn_options c)) @ path"
    and "api_do api \<lparr>hr_method = ''POST'', hr_url = url,
        hr_headers = [(''Content-Type'', ''application/json''), (''X-API-Key'', ApiKey (cdn_options c))],
        hr_body = body, hr_timeout = cdn_timeout c\<rparr> w = (Answer st resp, w')"
  shows "doPost api c path req decode w =
    (case status_error st resp of Some e \<Rightarrow> Inl e
     | None \<Rightarrow> (case decode resp of Inl e \<Rightarrow> Inl (Wrapped ''unmarshal response: '' (Plain e) '''') | Inr r \<Rightarrow> Inr r), w')"
  using assms by (simp add: doPost_def Let_def)

text \<open>The status of the server's full answer to a posted request, if there was one.\<close>

definition post_request :: "CdnClient \<Rightarrow> string \<Rightarrow> string \<Rightarrow> http_request" where
  "post_request c path body =
     \<lparr>hr_method = ''POST'', hr_url = trim_right_char (CHR ''/'') (ApiUrl (cdn_options c)) @ path,
      hr_headers = [(''Content-Type'', ''application/json''), (''X-API-Key'', ApiKey (cdn_options c))],
      hr_body = body, hr_timeout = cdn_timeout c\<rparr>"

definition server_answer :: "('h, 'w) cdn_api \<Rightarrow> CdnClient \<Rightarrow> string \<Rightarrow> cdn_request \<Rightarrow> 'w \<Rightarrow> (int \<times> string) option" where
  "server_answer api c path req w =
     (case api_marshal api req of
        Inl _ \<Rightarrow> None
      | Inr body \<Rightarrow>
          if api_new api (hr_url (post_request c path body)) \<noteq> None then None
          else (case fst (api_do api (post_request c path body) w) of
                  Answer st resp \<Rightarrow> Some (st, resp)
                | _ \<Rightarrow> None))"

lemma doPost_error:
  "(\<exists>e. fst (doPost api c path req decode w) = Inl e \<and> err_is e s) \<longleftrightarrow>
     (\<exists>resp. server_answer api c path req w = Some (sentinel_status s, resp))"
proof (cases "api_marshal api req")
  case (Inr body)
  show ?thesis
  proof (cases "api_new api (hr_url (post_request c path body))")
    case None
    obtain a w' where a: "api_do api (post_request c path body) w = (a, w')" by (metis surj_pair)
    show ?thesis
    proof (cases a)
      case (Answer st resp)
      have "fst (doPost api c path req decode w) =
          (case status_error st resp of Some e \<Rightarrow> Inl e
           | None \<Rightarrow> (case decode resp of Inl e \<Rightarrow> Inl (Wrapped ''unmarshal response: '' (Plain e) '''') | Inr r \<Rightarrow> Inr r))"
        using Inr None a Answer by (simp add: doPost_def post_request_def Let_def)
      moreover have "server_answer api c path req w = Some (st, resp)"
        using Inr None a Answer by (simp add: server_answer_def)
      ultimately show ?thesis
        using status_error_is [of st resp _ s] sentinel_not_success [of s] status_error_None [of st resp]
        by (auto split: option.splits sum.splits)
    qed (use Inr None a in \<open>simp_all add: doPost_def post_request_def server_answer_def Let_def\<close>)
  qed (use Inr in \<open>simp add: doPost_def post_request_def server_answer_def Let_def\<close>)
qed (simp add: doPost_def server_answer_def)

lemma doPost_value:
  "fst (doPost api c path req decode w) = Inr r \<longleftrightarrow>
     (\<exists>st resp. server_answer api c path req w = Some (st, resp) \<and> 200 \<le> st \<and> st < 300 \<and> decode resp = Inr r)"
proof (cases "api_marshal api req")
  case (Inr body)
  show ?thesis
  proof (cases "api_new api (hr_url (post_request c path body))")
    case None
    obtain a w' where a: "api_do api (post_request c path body) w = (a, w')" by (metis surj_pair)
    show ?thesis
    proof (cases a)
      case (Answer st resp)
      then show ?thesis
        using Inr None a status_error_None [of st resp]
        by (auto simp: doPost_def post_request_def server_answer_def Let_def split: option.splits sum.splits)
    qed (use Inr None a in \<open>simp_all add: doPost_def post_request_def server_answer_def Let_def\<close>)
  qed (use Inr in \<open>simp add: doPost_def post_request_def server_answer_def Let_def\<close>)
qed (simp add: doPost_def server_answer_def)

lemma wrap_err_cases:
  "(\<exists>e. fst (wrap_err p x) = Inl e \<and> err_is e s) \<longleftrightarrow> (\<exists>e. fst x = Inl e \<and> err_is e s)"
  "fst (wrap_err p x) = Inr r \<longleftrightarrow> fst x = Inr r"
  by (auto simp: wrap_err_def split: sum.splits)

subsection \<open>Properties\<close>

text \<open>
  \<^verbatim>\<open>errors.Is\<close> on the error of \<^verbatim>\<open>Download\<close> or \<^verbatim>\<open>Sign\<close> holds for a sentinel exactly when the server answered the
  one request that was posted, read to its end, with the status of that sentinel; a response is returned exactly when
  the status is 200 to 299 and the body decodes.  No failure of the network, of the URL or of JSON is taken for an
  answer of the server.
\<close>

theorem cdn_errors_classified:
  "((\<exists>e. fst (CdnDownload api c u m w) = Inl e \<and> err_is e s) \<longleftrightarrow>
      (\<exists>resp. server_answer api c ''/api/download'' (download_request c u m) w = Some (sentinel_status s, resp))) \<and>
    (fst (CdnDownload api c u m w) = Inr r \<longleftrightarrow>
      (\<exists>st resp. server_answer api c ''/api/download'' (download_request c u m) w = Some (st, resp) \<and> 200 \<le> st \<and> st < 300 \<and> api_download_of api resp = Inr r)) \<and>
    ((\<exists>e. fst (CdnSign api c u m w) = Inl e \<and> err_is e s) \<longleftrightarrow>
      (\<exists>resp. server_answer api c ''/api/sign'' (sign_request u m) w = Some (sentinel_status s, resp))) \<and>
    (fst (CdnSign api c u m w) = Inr r' \<longleftrightarrow>
      (\<exists>st resp. server_answer api c ''/api/sign'' (sign_request u m) w = Some (st, resp) \<and> 200 \<le> st \<and> st < 300 \<and> api_sign_of api resp = Inr r'))"
  unfolding CdnDownload_def CdnSign_def wrap_err_cases doPost_error doPost_value by simp

text \<open>
  \<^verbatim>\<open>net/url\<close> on plain links: \<^verbatim>\<open>Parse\<close> keeps the path of an address of letters, digits, dots, hyphens, underscores
  and slashes as it is.
\<close>

definition plain_char :: "char \<Rightarrow> bool" where
  "plain_char ch \<longleftrightarrow> is_lower ch \<or> is_upper ch \<or> is_digit ch \<or> ch \<in> set ''.-_''"

definition plain_url_law :: "('h, 'w) cdn_api \<Rightarrow> bool" where
  "plain_url_law api \<longleftrightarrow> (\<forall>h p. h \<noteq> '''' \<and> list_all plain_char h \<and> list_all (\<lambda>ch. plain_char ch \<or> ch = CHR ''/'') p \<longrightarrow>
     api_parse_path api (''https://'' @ h @ ''/'' @ p) = Some (''/'' @ p))"

text \<open>
  The path the content network is asked to sign is the key of the object: for a stream uploaded to JD Cloud, with
  names of plain characters, \<^verbatim>\<open>ExtractCdnPath\<close> of the returned link is the object key the content was stored under.
\<close>

theorem cdn_path_is_object_key:
  assumes "plain_url_law api" and "jd_s3Client j = Some sdk"
    and "JDCloud_UploadFileIo today fileName content j w = (Inr link, j', w')"
    and "list_all plain_char (jd_bucketName j @ jd_endpoint j)"
    and "list_all (\<lambda>ch. plain_char ch \<or> ch = CHR ''/'') (jd_key today j fileName)"
  shows "ExtractCdnPath api link = jd_key today j fileName \<and>
    (\<exists>etag s. sdk_put sdk (jd_bucketName j) (ExtractCdnPath api link) content (ow_srv w) = (Inr etag, s) \<and> ow_srv w' = s)"
proof -
  let ?j = "default_catalogue j" and ?k = "jd_key today j fileName"
  have same: "jd_bucketName ?j = jd_bucketName j" "jd_endpoint ?j = jd_endpoint j"
    by (simp_all add: default_catalogue_def)
  obtain x s where put: "sdk_put sdk (jd_bucketName j) ?k content (ow_srv w) = (x, s)" by (metis surj_pair)
  have link: "link = jd_prefix j @ ?k" and x: "\<exists>etag. x = Inr etag" and w': "ow_srv w' = s"
    using assms(2,3) put same
    by (auto simp: JDCloud_UploadFileIo_def jd_key_def Let_def call_def split: sum.splits)
  have "list_all plain_char (jd_bucketName j @ ''.'' @ jd_endpoint j)" using assms(4) by (simp add: plain_char_def)
  then have "api_parse_path api (''https://'' @ (jd_bucketName j @ ''.'' @ jd_endpoint j) @ ''/'' @ ?k) = Some (''/'' @ ?k)"
    using assms(1,5) unfolding plain_url_law_def by blast
  then have "ExtractCdnPath api link = ?k"
    using trim_prefix_append [of "''/''" ?k] by (simp add: ExtractCdnPath_def link link_prefix_def)
  with put x w' show ?thesis by auto
qed

text \<open>
  The expiry in minutes is the number of hours times 60 up to the range of 64 bits; beyond it the product wraps
  around, at 153722867280912931 hours to a negative number.
\<close>

theorem expiry_minutes:
  "(0 < h \<and> h \<le> 153722867280912930 \<longrightarrow> ExpiryHoursToMinutes h = 60 * h) \<and>
   (h \<le> 0 \<longrightarrow> ExpiryHoursToMinutes h = 0) \<and> ExpiryHoursToMinutes 153722867280912931 < 0"
proof -
  have "wrap64 (h * 60) = h * 60" if "0 < h" "h \<le> 153722867280912930"
    by (rule wrap64_id) (use that in \<open>simp add: in_int64_def\<close>)
  then show ?thesis by (auto simp: ExpiryHoursToMinutes_def) (simp_all add: wrap64_def)
qed

theorem expiry_minutes_witness: "ExpiryHoursToMinutes 24 = 1440"
  using expiry_minutes [of 24] by simp

definition demo_cdn :: "(unit, nat) cdn_api" where
  "demo_cdn = \<lparr>api_marshal = (\<lambda>_. Inr ''{}''), api_new = (\<lambda>_. None),
     api_do = (\<lambda>r n. (Answer 404 ''gone'', Suc n)), api_download_of = (\<lambda>_. Inl ''bad''), api_sign_of = (\<lambda>_. Inl ''bad''),
     api_health_of = (\<lambda>_. Inr ()),
     api_parse_path = (\<lambda>u. if has_prefix u ''https://'' then Some (dropWhile (\<lambda>x. x \<noteq> CHR ''/'') (drop 8 u)) else None)\<rparr>"

lemma demo_cdn_law: "plain_url_law demo_cdn"
  unfolding plain_url_law_def
proof (intro allI impI)
  fix h p :: string
  assume a: "h \<noteq> '''' \<and> list_all plain_char h \<and> list_all (\<lambda>ch. plain_char ch \<or> ch = CHR ''/'') p"
  have "\<not> plain_char (CHR ''/'')" by code_simp
  then have "CHR ''/'' \<notin> set h" using a by (auto simp: list_all_iff)
  moreover have "has_prefix (''https://'' @ x) ''https://''" for x by (rule has_prefix_append)
  ultimately show "api_parse_path demo_cdn (''https://'' @ h @ ''/'' @ p) = Some (''/'' @ p)"
    by (simp add: demo_cdn_def dropWhile_sep)
qed

theorem cdn_path_is_object_key_witness:
  "ExtractCdnPath demo_cdn ''https://b.e/audio/x.mp3'' = ''audio/x.mp3''"
proof -
  let ?w = "\<lparr>ow_srv = [], ow_files = []\<rparr>"
  have k: "jd_key ''d'' demo_jd ''x.mp3'' = ''audio/x.mp3''"
    by (simp add: jd_key_def demo_jd_def object_key_def default_catalogue_def)
  have p: "jd_prefix demo_jd = ''https://b.e/''" by (simp add: demo_jd_def link_prefix_def)
  obtain j' w' where up: "JDCloud_UploadFileIo ''d'' ''x.mp3'' ''data'' demo_jd ?w = (Inr ''https://b.e/audio/x.mp3'', j', w')"
    using k p by (simp add: JDCloud_UploadFileIo_def jd_key_def Let_def demo_jd_def memory_sdk_def call_def
        default_catalogue_def object_key_def link_prefix_def)
  have c: "jd_s3Client demo_jd = Some memory_sdk" by (simp add: demo_jd_def)
  have "list_all plain_char (jd_bucketName demo_jd @ jd_endpoint demo_jd)"
    unfolding demo_jd_def by code_simp
  moreover have "list_all (\<lambda>ch. plain_char ch \<or> ch = CHR ''/'') (jd_key ''d'' demo_jd ''x.mp3'')"
    unfolding k by code_simp
  ultimately show ?thesis
    using cdn_path_is_object_key [OF demo_cdn_law c up] by (simp add: k)
qed

text \<open>
  The options decide the requests: the last of each kind of option wins, the timeout is ten seconds when no option sets
  it, and slashes at the end of the configured address make no difference to the URL that is called.
\<close>

theorem cdn_url_normalised:
  "hr_url (post_request (c\<lparr>cdn_options := (cdn_options c)\<lparr>ApiUrl := s @ replicate n (CHR ''/'')\<rparr>\<rparr>) path body) =
     hr_url (post_request (c\<lparr>cdn_options := (cdn_options c)\<lparr>ApiUrl := s\<rparr>\<rparr>) path body) \<and>
   ApiUrl (cdn_options (CdnNewClient (opts @ [WithApiUrl s]))) = s \<and>
   cdn_timeout (CdnNewClient (filter (\<lambda>x. \<not> (\<exists>d. x = WithTimeout d)) opts)) = 10 * second"
proof -
  have "Timeout (fold cdn_apply (filter (\<lambda>x. \<not> (\<exists>d. x = WithTimeout d)) opts) r) = Timeout r" for r
  proof (induction opts arbitrary: r)
    case (Cons x xs)
    then show ?case by (cases x) auto
  qed simp
  then show ?thesis by (simp add: post_request_def trim_slashes CdnNewClient_def Let_def)
qed

end
