(* ===== verification/NacosSource.thy ===== *)
theory NacosSource
  imports ConfigLoader
begin

text \<open>
  The Nacos source of the configuration loader (\<^verbatim>\<open>pkg/config/source/nacos/nacos.go\<close>): checked options, server
  addresses, the fetch of all documents, subscriptions and their cancellation, and what the loader makes of them.
  The Nacos client library is the record \<open>sdk\<close> of the calls made, on a world of any type.
\<close>

subsection \<open>Options\<close>

record NacosOptions =
  na_Servers :: "string list"
  na_Group :: string
  na_DataIds :: "string list"
  na_LogLevel :: string
  na_TimeoutMs :: int
  na_client :: "(string \<times> string) list"  \<comment> \<open>namespace, credentials, directories: handed to the SDK as they are\<close>

record 'w nacos_sdk =
  nsdk_new :: "NacosOptions \<Rightarrow> (string \<times> int) list \<Rightarrow> string option"
  nsdk_get :: "string \<Rightarrow> string \<Rightarrow> 'w \<Rightarrow> string + string"
  nsdk_listen :: "string \<Rightarrow> string \<Rightarrow> 'w \<Rightarrow> string option \<times> 'w"
  nsdk_cancel :: "string \<Rightarrow> string \<Rightarrow> 'w \<Rightarrow> string option \<times> 'w"

text \<open>The cancelers are the identifiers they would cancel.\<close>

record NacosSource =
  ns_opts :: NacosOptions
  ns_cli :: bool
  ns_cancelers :: "string list"

definition NacosNew :: "NacosOptions \<Rightarrow> string + NacosSource" where
  "NacosNew opts =
     (if na_Servers opts = [] then Inl ''nacos: servers required''
      else if na_DataIds opts = [] then Inl ''nacos: dataIds required''
      else
        let opts = (if na_Group opts = '''' then opts\<lparr>na_Group := ''DEFAULT_GROUP''\<rparr> else opts);
            opts = (if na_TimeoutMs opts = 0 then opts\<lparr>na_TimeoutMs := 5000\<rparr> else opts);
            opts = (if na_LogLevel opts = '''' then opts\<lparr>na_LogLevel := ''warn''\<rparr> else opts)
        in Inr \<lparr>ns_opts = opts, ns_cli = False, ns_cancelers = []\<rparr>)"

subsection \<open>Server addresses\<close>

text \<open>The digits of a port, multiplied up in 64 bits without a test for overflow.\<close>

fun port_digits :: "nat \<Rightarrow> string \<Rightarrow> nat option" where
  "port_digits port [] = Some port"
| "port_digits port (c # cs) =
     (case digit_val c of None \<Rightarrow> None | Some d \<Rightarrow> port_digits ((port * 10 + d) mod 2 ^ 64) cs)"

definition splitHostPort :: "string \<Rightarrow> string + string \<times> int" where
  "splitHostPort addr =
     (let r = rev addr; portStr = rev (takeWhile (\<lambda>c. c \<noteq> CHR '':'') r); h = dropWhile (\<lambda>c. c \<noteq> CHR '':'') r in
      if h = [] then Inl (''missing port in '' @ addr)
      else
        let host = rev (tl h) in
        case port_digits 0 portStr of
          None \<Rightarrow> Inl (''invalid port '' @ portStr)
        | Some port \<Rightarrow>
            if host = '''' \<or> port = 0 then Inl (''invalid addr '' @ addr) else Inr (host, int port))"

fun split_servers :: "string list \<Rightarrow> string + (string \<times> int) list" where
  "split_servers [] = Inr []"
| "split_servers (addr # addrs) =
     (case splitHostPort addr of
        Inl e \<Rightarrow> Inl (''nacos: invalid server '' @ addr @ '': '' @ e)
      | Inr hp \<Rightarrow> (case split_servers addrs of Inl e \<Rightarrow> Inl e | Inr hps \<Rightarrow> Inr (hp # hps)))"

definition ensureClient :: "'w nacos_sdk \<Rightarrow> NacosSource \<Rightarrow> string option \<times> NacosSource" where
  "ensureClient sdk s =
     (if ns_cli s then (None, s)
      else case split_servers (na_Servers (ns_opts s)) of
             Inl e \<Rightarrow> (Some e, s)
           | Inr hps \<Rightarrow>
               (case nsdk_new sdk (ns_opts s) hps of
                  Some e \<Rightarrow> (Some (''nacos: new client: '' @ e), s)
                | None \<Rightarrow> (None, s\<lparr>ns_cli := True\<rparr>)))"

subsection \<open>Fetch\<close>

text \<open>
  The loop over the documents; \<open>done\<close> tells before which document the context has ended, and \<open>w\<close> is the state of the
  server, which a read does not change.
\<close>

fun fetch_loop :: "'w nacos_sdk \<Rightarrow> string \<Rightarrow> (nat \<Rightarrow> string option) \<Rightarrow> nat \<Rightarrow> string list \<Rightarrow> (string \<times> string) list \<Rightarrow>
    string option \<Rightarrow> 'w \<Rightarrow> (string \<times> string) list \<times> string option" where
  "fetch_loop sdk grp finished i [] out firstErr w = (out, firstErr)"
| "fetch_loop sdk grp finished i (dataId # ids) out firstErr w =
     (case finished i of
        Some e \<Rightarrow> (out, Some e)
      | None \<Rightarrow>
          (case nsdk_get sdk dataId grp w of
             Inl e \<Rightarrow> fetch_loop sdk grp finished (Suc i) ids out
                 (if firstErr = None then Some (''nacos: get '' @ grp @ ''/'' @ dataId @ '': '' @ e) else firstErr) w
           | Inr raw \<Rightarrow>
               if raw = '''' then fetch_loop sdk grp finished (Suc i) ids out firstErr w
               else fetch_loop sdk grp finished (Suc i) ids (AList.update dataId raw out) firstErr w))"

definition NacosFetch :: "'w nacos_sdk \<Rightarrow> (nat \<Rightarrow> string option) \<Rightarrow> NacosSource \<Rightarrow> 'w \<Rightarrow>
    ((string \<times> string) list \<times> string option) \<times> NacosSource" where
  "NacosFetch sdk finished s w =
     (case ensureClient sdk s of
        (Some e, s) \<Rightarrow> (([], Some e), s)
      | (None, s) \<Rightarrow> (fetch_loop sdk (na_Group (ns_opts s)) finished 0 (na_DataIds (ns_opts s)) [] None w, s))"

subsection \<open>Subscriptions\<close>

fun listen_loop :: "'w nacos_sdk \<Rightarrow> string \<Rightarrow> string list \<Rightarrow> NacosSource \<Rightarrow> 'w \<Rightarrow> string option \<times> NacosSource \<times> 'w" where
  "listen_loop sdk grp [] s w = (None, s, w)"
| "listen_loop sdk grp (dataId # ids) s w =
     (case nsdk_listen sdk dataId grp w of
        (Some e, w) \<Rightarrow> (Some (''nacos: listen '' @ grp @ ''/'' @ dataId @ '': '' @ e), s, w)
      | (None, w) \<Rightarrow> listen_loop sdk grp ids (s\<lparr>ns_cancelers := ns_cancelers s @ [dataId]\<rparr>) w)"

definition NacosListen :: "'w nacos_sdk \<Rightarrow> NacosSource \<Rightarrow> 'w \<Rightarrow> string option \<times> NacosSource \<times> 'w" where
  "NacosListen sdk s w =
     (case ensureClient sdk s of
        (Some e, s) \<Rightarrow> (Some e, s, w)
      | (None, s) \<Rightarrow> listen_loop sdk (na_Group (ns_opts s)) (na_DataIds (ns_opts s)) s w)"

fun cancel_loop :: "'w nacos_sdk \<Rightarrow> string \<Rightarrow> string list \<Rightarrow> string option \<Rightarrow> 'w \<Rightarrow> string option \<times> 'w" where
  "cancel_loop sdk grp [] firstErr w = (firstErr, w)"
| "cancel_loop sdk grp (dataId # ids) firstErr w =
     (let (e, w) = nsdk_cancel sdk dataId grp w
      in cancel_loop sdk grp ids (if firstErr = None then e else firstErr) w)"

definition cancelAll :: "'w nacos_sdk \<Rightarrow> NacosSource \<Rightarrow> 'w \<Rightarrow> string option \<times> NacosSource \<times> 'w" where
  "cancelAll sdk s w =
     (let (e, w) = cancel_loop sdk (na_Group (ns_opts s)) (ns_cancelers s) None w
      in (e, s\<lparr>ns_cancelers := []\<rparr>, w))"

subsection \<open>Server addresses, proved\<close>

lemma port_digits_value:
  "parse_digits acc s = Some n \<Longrightarrow> port_digits (acc mod 2 ^ 64) s = Some (n mod 2 ^ 64)"
proof (induction acc s arbitrary: n rule: parse_digits.induct)
  case (2 acc c cs)
  then obtain d where d: "digit_val c = Some d" "parse_digits (10 * acc + d) cs = Some n" by (auto split: option.splits)
  have "(acc mod 2 ^ 64 * 10 + d) mod 2 ^ 64 = (10 * acc + d) mod (2 ^ 64 :: nat)"
    by (metis mod_add_left_eq mod_mult_left_eq mult.commute)
  then show ?case using 2(1) [OF d] d(1) by simp
qed auto

lemma decimal_no_colon: "CHR '':'' \<notin> set (decimal n)"
proof
  assume "CHR '':'' \<in> set (decimal n)"
  then obtain d where "d < 10" "CHR '':'' = digit_char d" using decimal_digits by blast
  then have "digit_val (CHR '':'') = Some d" using digit_val_digit_char by metis
  then show False by (simp add: digit_val_def)
qed

lemma splitHostPort_join:
  assumes "CHR '':'' \<notin> set p"
  shows "splitHostPort (host @ '':'' @ p) =
    (case port_digits 0 p of None \<Rightarrow> Inl (''invalid port '' @ p)
     | Some n \<Rightarrow> if host = '''' \<or> n = 0 then Inl (''invalid addr '' @ host @ '':'' @ p) else Inr (host, int n))"
proof -
  have "rev (host @ '':'' @ p) = rev p @ CHR '':'' # rev host" by simp
  moreover have "CHR '':'' \<notin> set (rev p)" using assms by simp
  ultimately show ?thesis
    using dropWhile_sep [of "CHR '':''" "rev p" "rev host"] takeWhile_sep [of "CHR '':''" "rev p" "rev host"]
    by (simp add: splitHostPort_def Let_def split: option.split)
qed

lemma port_digits_decimal: "n < 2 ^ 64 \<Longrightarrow> port_digits 0 (decimal n) = Some n"
  using port_digits_value [OF parse_digits_decimal [of n]] by simp

subsection \<open>What a fetch returns\<close>

text \<open>The documents that can be read and are not empty, and the first error.\<close>

definition available :: "'w nacos_sdk \<Rightarrow> string \<Rightarrow> 'w \<Rightarrow> string \<Rightarrow> string option" where
  "available sdk grp w d = (case nsdk_get sdk d grp w of Inl e \<Rightarrow> None | Inr raw \<Rightarrow> if raw = '''' then None else Some raw)"

definition unreadable :: "'w nacos_sdk \<Rightarrow> string \<Rightarrow> 'w \<Rightarrow> string \<Rightarrow> bool" where
  "unreadable sdk grp w d \<longleftrightarrow> (\<exists>e. nsdk_get sdk d grp w = Inl e)"

lemma fetch_loop_docs:
  assumes "\<And>i. finished i = None"
  shows "map_of (fst (fetch_loop sdk grp finished i ids out er w)) d =
      (if d \<in> set ids \<and> available sdk grp w d \<noteq> None then available sdk grp w d else map_of out d) \<and>
    (snd (fetch_loop sdk grp finished i ids out er w) = None \<longleftrightarrow> er = None \<and> (\<forall>x \<in> set ids. \<not> unreadable sdk grp w x))"
proof (induction ids arbitrary: i out er)
  case (Cons x ids)
  show ?case
  proof (cases "nsdk_get sdk x grp w")
    case (Inl e)
    then show ?thesis using Cons by (auto simp: assms available_def unreadable_def)
  next
    case (Inr raw)
    then show ?thesis using Cons by (auto simp: assms available_def unreadable_def update_conv')
  qed
qed simp

subsection \<open>Subscriptions over the life of a source\<close>

text \<open>
  What the client library promises: a subscription that succeeds is active, a cancellation that succeeds ends it, and one
  that fails changes nothing.
\<close>

locale nacos_laws =
  fixes sdk :: "'w nacos_sdk" and grp :: string and subs :: "'w \<Rightarrow> string set"
  assumes listen_ok: "nsdk_listen sdk d grp w = (None, w') \<Longrightarrow> subs w' = insert d (subs w)"
    and listen_fail: "nsdk_listen sdk d grp w = (Some e, w') \<Longrightarrow> subs w' = subs w"
    and cancel_ok: "nsdk_cancel sdk d grp w = (None, w') \<Longrightarrow> subs w' = subs w - {d}"
    and cancel_fail: "nsdk_cancel sdk d grp w = (Some e, w') \<Longrightarrow> subs w' = subs w"
begin

lemma listen_loop_subs:
  "listen_loop sdk grp ids s w = (e, s', w') \<Longrightarrow>
     \<exists>k \<le> length ids. subs w' = subs w \<union> set (take k ids) \<and> ns_cancelers s' = ns_cancelers s @ take k ids \<and>
       (e = None \<longleftrightarrow> k = length ids) \<and> ns_opts s' = ns_opts s \<and> ns_cli s' = ns_cli s"
proof (induction ids arbitrary: s w)
  case (Cons x ids)
  obtain er w1 where l: "nsdk_listen sdk x grp w = (er, w1)" by (metis surj_pair)
  show ?case
  proof (cases er)
    case None
    let ?s = "s\<lparr>ns_cancelers := ns_cancelers s @ [x]\<rparr>"
    have "listen_loop sdk grp ids ?s w1 = (e, s', w')" using Cons.prems l None by simp
    from Cons.IH [OF this] obtain k where k: "k \<le> length ids" "subs w' = subs w1 \<union> set (take k ids)"
        "ns_cancelers s' = ns_cancelers s @ [x] @ take k ids" "e = None \<longleftrightarrow> k = length ids"
        "ns_opts s' = ns_opts s" "ns_cli s' = ns_cli s"
      by auto
    have "subs w1 = insert x (subs w)" using listen_ok l None by simp
    with k show ?thesis by (intro exI [of _ "Suc k"]) auto
  next
    case (Some m)
    then show ?thesis using Cons.prems l listen_fail [of x w m w1] by (intro exI [of _ 0]) auto
  qed
qed simp

lemma cancel_loop_subs:
  "cancel_loop sdk grp ids er w = (e, w') \<Longrightarrow> subs w - set ids \<subseteq> subs w' \<and> subs w' \<subseteq> subs w \<and>
     (e = None \<longrightarrow> er = None \<and> subs w' = subs w - set ids)"
proof (induction ids arbitrary: er w)
  case (Cons x ids)
  obtain e1 w1 where c: "nsdk_cancel sdk x grp w = (e1, w1)" by (metis surj_pair)
  have "cancel_loop sdk grp ids (if er = None then e1 else er) w1 = (e, w')" using Cons.prems c by simp
  from Cons.IH [OF this] have ih: "subs w1 - set ids \<subseteq> subs w'" "subs w' \<subseteq> subs w1"
      "e = None \<Longrightarrow> (if er = None then e1 else er) = None \<and> subs w' = subs w1 - set ids"
    by auto
  have w1: "subs w1 = (if e1 = None then subs w - {x} else subs w)"
    using c cancel_ok [of x w w1] cancel_fail [of x w _ w1] by (cases e1) auto
  then show ?case using ih by (auto split: if_splits)
qed simp

end

subsection \<open>The source under the loader\<close>

text \<open>
  \<^verbatim>\<open>config.Bootstrap\<close> with this source: fetch, start, and subscribe when the start succeeds.  \<open>ord\<close> is the order in which the
  loader visits the map of documents.
\<close>

definition nacos_bootstrap ::
    "('v, 's) viper_api \<Rightarrow> gcm \<Rightarrow> (string \<Rightarrow> string) \<Rightarrow> string + 'v \<Rightarrow> 'w nacos_sdk \<Rightarrow> (nat \<Rightarrow> string option) \<Rightarrow>
     ((string \<times> string) list \<Rightarrow> (string \<times> string) list) \<Rightarrow> BootstrapOptions \<Rightarrow> NacosSource \<Rightarrow> 'w \<Rightarrow>
     string + ('v, 's) Loader \<times> NacosSource \<times> 'w" where
  "nacos_bootstrap api g env loc sdk finished ord opts src w =
     (let ((out, e), src1) = NacosFetch sdk finished src w;
          (le, src2, w') = NacosListen sdk src1 w
      in case Bootstrap api g env loc (case e of None \<Rightarrow> Inr (ord out) | Some m \<Rightarrow> Inl m) le (opts\<lparr>o_Remote := Some ''nacos''\<rparr>) of
           Inl m \<Rightarrow> Inl m
         | Inr l \<Rightarrow> Inr (l, src2, w'))"

text \<open>\<^verbatim>\<open>Loader.Close\<close>.\<close>

definition nacos_close ::
    "'w nacos_sdk \<Rightarrow> ('v, 's) Loader \<Rightarrow> NacosSource \<Rightarrow> 'w \<Rightarrow> string option \<times> NacosSource \<times> 'w" where
  "nacos_close sdk l src w = (if l_subscribed l then cancelAll sdk src w else (None, src, w))"

lemma Bootstrap_remote:
  assumes "Bootstrap api g env loc fetch listen opts = Inr l" and "o_Remote opts = Some n"
  shows "l_remoteRaw l = (case fetch of Inl _ \<Rightarrow> [] | Inr raws \<Rightarrow> raws)" and "l_subscribed l \<longleftrightarrow> listen = None"
proof -
  have r: "o_Remote (opts_defaults opts) = Some n" using assms(2) by (simp add: opts_defaults_def Let_def)
  show "l_remoteRaw l = (case fetch of Inl _ \<Rightarrow> [] | Inr raws \<Rightarrow> raws)" "l_subscribed l \<longleftrightarrow> listen = None"
    using assms(1) r
    by (auto simp: Bootstrap_def Let_def metric_def log_def split: if_splits sum.splits option.splits prod.splits)
qed

lemma ensure_cancelers: "ensureClient sdk s = (e, s') \<Longrightarrow> ns_cancelers s' = ns_cancelers s \<and> ns_opts s' = ns_opts s \<and>
    (e = None \<longrightarrow> ns_cli s')"
  by (auto simp: ensureClient_def split: if_splits sum.splits option.splits)

subsection \<open>Properties\<close>

text \<open>
  C20. All documents or none.  When every document can be read, the loader starts on exactly the documents that are not
  empty.  When a single one cannot be read, the documents that were fetched are thrown away: the loader starts on
  the local file alone, and the first change of a document brings in that document and no other.
\<close>

theorem fetch_all_or_nothing:
  assumes "nacos_bootstrap api g env loc sdk (\<lambda>_. None) ord opts src w = Inr (l, src', w')"
    and "fst (ensureClient sdk src) = None" and "\<forall>docs. map_of (ord docs) = map_of docs"
  shows "if \<exists>d \<in> set (na_DataIds (ns_opts src)). unreadable sdk (na_Group (ns_opts src)) w d
    then l_remoteRaw l = [] \<and> l_remoteRaw (onRemoteChange api g env o1 copy loc2 d raw l) = [(d, raw)]
    else map_of (l_remoteRaw l) d =
      (if d \<in> set (na_DataIds (ns_opts src)) then available sdk (na_Group (ns_opts src)) w d else None)"
proof -
  obtain s1 where s1: "ensureClient sdk src = (None, s1)" using assms(2) by (metis prod.collapse)
  have o: "ns_opts s1 = ns_opts src" using ensure_cancelers [OF s1] by simp
  let ?f = "fetch_loop sdk (na_Group (ns_opts src)) (\<lambda>_. None) 0 (na_DataIds (ns_opts src)) [] None w"
  have f: "NacosFetch sdk (\<lambda>_. None) src w = (?f, s1)" by (simp add: NacosFetch_def s1 o)
  obtain le src2 w2 where "NacosListen sdk s1 w = (le, src2, w2)" by (metis surj_pair)
  with assms(1) f have b: "Bootstrap api g env loc (case snd ?f of None \<Rightarrow> Inr (ord (fst ?f)) | Some m \<Rightarrow> Inl m) le
      (opts\<lparr>o_Remote := Some ''nacos''\<rparr>) = Inr l"
    by (cases ?f) (auto simp: nacos_bootstrap_def Let_def split: sum.splits option.splits)
  have r: "l_remoteRaw l = (case snd ?f of None \<Rightarrow> ord (fst ?f) | Some m \<Rightarrow> [])"
    using Bootstrap_remote(1) [OF b] by (simp split: option.splits)
  have d: "map_of (fst ?f) d = (if d \<in> set (na_DataIds (ns_opts src)) then available sdk (na_Group (ns_opts src)) w d else None)"
    for d
    using fetch_loop_docs [of "\<lambda>_. None" sdk "na_Group (ns_opts src)" 0 "na_DataIds (ns_opts src)" "[]" None w d] by auto
  have e: "snd ?f = None \<longleftrightarrow> \<not> (\<exists>d \<in> set (na_DataIds (ns_opts src)). unreadable sdk (na_Group (ns_opts src)) w d)"
    using fetch_loop_docs [of "\<lambda>_. None" sdk "na_Group (ns_opts src)" 0 "na_DataIds (ns_opts src)" "[]" None w] by blast
  show ?thesis
  proof (cases "snd ?f")
    case None
    then show ?thesis using e r d assms(3) by simp
  next
    case (Some m)
    then show ?thesis using e r by (auto simp: onRemoteChange_def Let_def)
  qed
qed


text \<open>
  Server addresses: a host, which may itself contain colons, a colon and a port below 2^64 are read back exactly; an
  address that is accepted ends in a colon and digits, whose value modulo 2^64 is the port, so that a number out of range
  is accepted as another port.
\<close>

theorem server_address_exact:
  "(host \<noteq> '''' \<and> 0 < n \<and> n < 2 ^ 64 \<longrightarrow> splitHostPort (host @ '':'' @ decimal n) = Inr (host, int n)) \<and>
   (host \<noteq> '''' \<and> 0 < m mod 2 ^ 64 \<longrightarrow> splitHostPort (host @ '':'' @ decimal m) = Inr (host, int (m mod 2 ^ 64)))"
  using splitHostPort_join [OF decimal_no_colon, of host] port_digits_decimal [of n]
    port_digits_value [OF parse_digits_decimal [of m]]
  by simp

theorem server_address_exact_witness:
  "splitHostPort ''::1:8848'' = Inr (''::1'', 8848)"
proof -
  have "decimal 8848 = ''8848''" by (simp add: decimal.simps digit_char_def) code_simp
  moreover have "splitHostPort (''::1'' @ '':'' @ decimal 8848) = Inr (''::1'', int 8848)"
    by (rule conjunct1 [OF server_address_exact, THEN mp]) simp
  ultimately show ?thesis by simp
qed

subsection \<open>A server in memory\<close>

text \<open>A server whose state is the list of subscriptions; one document can neither be read nor subscribed to.\<close>

definition mem_nacos :: "string \<Rightarrow> string list nacos_sdk" where
  "mem_nacos bad = \<lparr>nsdk_new = (\<lambda>opts hps. None),
     nsdk_get = (\<lambda>d g w. if d = bad then Inl ''unreachable'' else Inr d),
     nsdk_listen = (\<lambda>d g w. if d = bad then (Some ''unreachable'', w) else (None, d # w)),
     nsdk_cancel = (\<lambda>d g w. (None, removeAll d w))\<rparr>"

interpretation mem_nacos: nacos_laws "mem_nacos bad" grp set
  by unfold_locales (auto simp: mem_nacos_def split: if_splits)

definition demo_source :: NacosSource where
  "demo_source = \<lparr>ns_opts = \<lparr>na_Servers = [''h:8848''], na_Group = ''G'', na_DataIds = [''a'', ''b''], na_LogLevel = ''warn'',
     na_TimeoutMs = 5000, na_client = []\<rparr>, ns_cli = False, ns_cancelers = []\<rparr>"

lemma demo_source_client: "ensureClient (mem_nacos bad) demo_source = (None, demo_source\<lparr>ns_cli := True\<rparr>)"
proof -
  have "splitHostPort (''h'' @ '':'' @ ''8848'') = Inr (''h'', 8848)"
    by (subst splitHostPort_join) (simp_all add: digit_val_def)
  then show ?thesis by (simp add: ensureClient_def demo_source_def mem_nacos_def)
qed

lemma demo_nacos_start:
  "\<exists>l. nacos_bootstrap demo_viper demo_gcm (\<lambda>n. '''') (Inr [(''x'', CStr ''1'')]) (mem_nacos ''b'') (\<lambda>_. None) (\<lambda>x. x) demo_opts
     demo_source [] = Inr (l, demo_source\<lparr>ns_cli := True, ns_cancelers := [''a'']\<rparr>, [''a''])"
proof -
  have f: "NacosFetch (mem_nacos ''b'') (\<lambda>_. None) demo_source [] =
      (([(''a'', ''a'')], Some ''nacos: get G/b: unreachable''), demo_source\<lparr>ns_cli := True\<rparr>)"
    by (simp add: NacosFetch_def demo_source_client) (simp add: demo_source_def mem_nacos_def)
  have l: "NacosListen (mem_nacos ''b'') (demo_source\<lparr>ns_cli := True\<rparr>) [] =
      (Some ''nacos: listen G/b: unreachable'', demo_source\<lparr>ns_cli := True, ns_cancelers := [''a'']\<rparr>, [''a''])"
    by (simp add: NacosListen_def ensureClient_def) (simp add: demo_source_def mem_nacos_def)
  have "\<exists>l. Bootstrap demo_viper demo_gcm (\<lambda>n. '''') (Inr [(''x'', CStr ''1'')]) (Inl e) (Some e')
      (demo_opts\<lparr>o_Remote := Some ''nacos''\<rparr>) = Inr l" for e e'
    by (simp add: Bootstrap_def demo_opts_def opts_defaults_def compileSchema_def demo_viper_def normalize_def
        final_settings_def demo_expand IsEncrypted_def has_prefix_def EncryptPrefix_def validateAgainstSchema_def
        log_def metric_def Let_def split: prod.split)
  then obtain ld where "Bootstrap demo_viper demo_gcm (\<lambda>n. '''') (Inr [(''x'', CStr ''1'')])
      (Inl ''nacos: get G/b: unreachable'') (Some ''nacos: listen G/b: unreachable'')
      (demo_opts\<lparr>o_Remote := Some ''nacos''\<rparr>) = Inr ld" by blast
  then show ?thesis by (simp add: nacos_bootstrap_def f l)
qed

theorem fetch_all_or_nothing_witness:
  "\<exists>l s w. nacos_bootstrap demo_viper demo_gcm (\<lambda>n. '''') (Inr [(''x'', CStr ''1'')]) (mem_nacos ''b'') (\<lambda>_. None) (\<lambda>x. x) demo_opts
     demo_source [] = Inr (l, s, w) \<and> l_remoteRaw l = []"
proof -
  obtain l where l: "nacos_bootstrap demo_viper demo_gcm (\<lambda>n. '''') (Inr [(''x'', CStr ''1'')]) (mem_nacos ''b'') (\<lambda>_. None)
      (\<lambda>x. x) demo_opts demo_source [] = Inr (l, demo_source\<lparr>ns_cli := True, ns_cancelers := [''a'']\<rparr>, [''a''])"
    using demo_nacos_start by blast
  have "\<exists>d \<in> set (na_DataIds (ns_opts demo_source)). unreadable (mem_nacos ''b'') (na_Group (ns_opts demo_source)) [] d"
    by (simp add: demo_source_def unreadable_def mem_nacos_def)
  then have "l_remoteRaw l = []"
    using fetch_all_or_nothing [OF l] demo_source_client by (simp split: if_splits)
  with l show ?thesis by blast
qed


end
