(* ===== verification/ZapLogger.thy ===== *)
theory ZapLogger
  imports LogLevel
begin

text \<open>
  The Hertz logger on top of zap (\<^verbatim>\<open>pkg/zap\<close>: \<^verbatim>\<open>option.go\<close>, \<^verbatim>\<open>logger.go\<close>, \<^verbatim>\<open>utils.go\<close>): options, construction, the
  functions of the three families of log calls, \<^verbatim>\<open>SetLevel\<close>, \<^verbatim>\<open>SetOutput\<close> and the extra keys.  The configuration holds
  a slice of core configurations, which may share its array with the caller and with other loggers, so the arrays
  live in a store; an \<^verbatim>\<open>AtomicLevel\<close> is a cell of that store.  Encoders, writers and options of zap are opaque numbers,
  and writing is the argument \<open>zap\<close>.  A nil-pointer or index panic is \<^const>\<open>None\<close>.
\<close>

subsection \<open>Levels\<close>

text \<open>The levels of Hertz are the seven of the logger package, and any other number.\<close>

datatype hlevel = HTrace | HDebug | HInfo | HNotice | HWarn | HError | HFatal | HOther int

fun hlog_to_zap :: "hlevel \<Rightarrow> zlevel" where
  "hlog_to_zap HTrace = DebugLevel"
| "hlog_to_zap HDebug = DebugLevel"
| "hlog_to_zap HInfo = InfoLevel"
| "hlog_to_zap HNotice = WarnLevel"
| "hlog_to_zap HWarn = WarnLevel"
| "hlog_to_zap HError = ErrorLevel"
| "hlog_to_zap HFatal = FatalLevel"
| "hlog_to_zap (HOther n) = WarnLevel"

text \<open>A level enabler of a core: a fixed level, the cell of an \<^verbatim>\<open>AtomicLevel\<close>, or a function.\<close>

datatype enabler = FixedLevel zlevel | CellLevel nat | FuncLevel "zlevel \<Rightarrow> bool"

fun enabled :: "(nat \<Rightarrow> zlevel) \<Rightarrow> enabler \<Rightarrow> zlevel \<Rightarrow> bool" where
  "enabled cells (FixedLevel m) v \<longleftrightarrow> m \<le> v"
| "enabled cells (CellLevel a) v \<longleftrightarrow> cells a \<le> v"
| "enabled cells (FuncLevel f) v \<longleftrightarrow> f v"

record CoreConfig =
  cc_Enc :: nat
  cc_Ws :: nat
  cc_Lvl :: enabler

subsection \<open>Configuration\<close>

text \<open>The store: the arrays of core configurations and the cells of atomic levels.\<close>

record zap_store =
  zs_arrays :: "nat \<Rightarrow> CoreConfig list"
  zs_next :: nat
  zs_cells :: "nat \<Rightarrow> zlevel"
  zs_next_cell :: nat

record zap_config =
  zc_extraKeys :: "string list"
  zc_cores :: nat                   \<comment> \<open>the array of the slice\<close>
  zc_zapOpts :: "nat list"
  zc_extraKeyAsStr :: bool
  zc_labels :: "string list"        \<comment> \<open>index, application, host, path: stored and never read\<close>

definition stdout_ws :: nat where "stdout_ws = 0"
definition json_enc :: nat where "json_enc = 0"

definition defaultCoreConfig :: "zap_store \<Rightarrow> CoreConfig \<times> zap_store" where
  "defaultCoreConfig st =
     (\<lparr>cc_Enc = json_enc, cc_Ws = stdout_ws, cc_Lvl = CellLevel (zs_next_cell st)\<rparr>,
      st\<lparr>zs_cells := (zs_cells st)(zs_next_cell st := InfoLevel), zs_next_cell := Suc (zs_next_cell st)\<rparr>)"

definition defaultZapConfig :: "zap_store \<Rightarrow> zap_config \<times> zap_store" where
  "defaultZapConfig st =
     (let (c, st) = defaultCoreConfig st
      in (\<lparr>zc_extraKeys = [], zc_cores = zs_next st, zc_zapOpts = [], zc_extraKeyAsStr = False, zc_labels = ['''', '''', '''', '''']\<rparr>,
          st\<lparr>zs_arrays := (zs_arrays st)(zs_next st := [c]), zs_next := Suc (zs_next st)\<rparr>))"

definition InArray :: "string \<Rightarrow> string list \<Rightarrow> bool" where
  "InArray key arr = list_ex (\<lambda>k. k = key) arr"

definition add_keys :: "string list \<Rightarrow> string list \<Rightarrow> string list" where
  "add_keys keys old = fold (\<lambda>k ks. if InArray k ks then ks else ks @ [k]) keys old"

datatype ZapOption =
    WithCoreEnc nat
  | WithCoreWs nat
  | WithCoreLevel nat
  | WithCores nat                   \<comment> \<open>the array of the slice the caller passes\<close>
  | WithZapOptions "nat list"
  | WithExtraKeys "string list"
  | WithExtraKeyAsStr
  | WithLabel nat string

text \<open>\<^verbatim>\<open>cfg.coreConfigs[0].f = x\<close>\<close>

definition set_first :: "(CoreConfig \<Rightarrow> CoreConfig) \<Rightarrow> zap_config \<Rightarrow> zap_store \<Rightarrow> zap_store option" where
  "set_first f cfg st =
     (case zs_arrays st (zc_cores cfg) of
        [] \<Rightarrow> None
      | c # cs \<Rightarrow> Some (st\<lparr>zs_arrays := (zs_arrays st)(zc_cores cfg := f c # cs)\<rparr>))"

fun zap_apply :: "ZapOption \<Rightarrow> zap_config \<times> zap_store \<Rightarrow> (zap_config \<times> zap_store) option" where
  "zap_apply (WithCoreEnc x) (cfg, st) = map_option (Pair cfg) (set_first (\<lambda>c. c\<lparr>cc_Enc := x\<rparr>) cfg st)"
| "zap_apply (WithCoreWs x) (cfg, st) = map_option (Pair cfg) (set_first (\<lambda>c. c\<lparr>cc_Ws := x\<rparr>) cfg st)"
| "zap_apply (WithCoreLevel x) (cfg, st) = map_option (Pair cfg) (set_first (\<lambda>c. c\<lparr>cc_Lvl := CellLevel x\<rparr>) cfg st)"
| "zap_apply (WithCores a) (cfg, st) = Some (cfg\<lparr>zc_cores := a\<rparr>, st)"
| "zap_apply (WithZapOptions os) (cfg, st) = Some (cfg\<lparr>zc_zapOpts := zc_zapOpts cfg @ os\<rparr>, st)"
| "zap_apply (WithExtraKeys keys) (cfg, st) = Some (cfg\<lparr>zc_extraKeys := add_keys keys (zc_extraKeys cfg)\<rparr>, st)"
| "zap_apply WithExtraKeyAsStr (cfg, st) = Some (cfg\<lparr>zc_extraKeyAsStr := True\<rparr>, st)"
| "zap_apply (WithLabel i s) (cfg, st) = Some (cfg\<lparr>zc_labels := (zc_labels cfg)[i := s]\<rparr>, st)"

fun zap_apply_all :: "ZapOption list \<Rightarrow> zap_config \<times> zap_store \<Rightarrow> (zap_config \<times> zap_store) option" where
  "zap_apply_all [] s = Some s"
| "zap_apply_all (o1 # os) s = (case zap_apply o1 s of None \<Rightarrow> None | Some s' \<Rightarrow> zap_apply_all os s')"

subsection \<open>The logger\<close>

text \<open>\<^verbatim>\<open>zap.New(zapcore.NewTee(cores...), opts...)\<close> copies the cores; the logger in use is the copy.\<close>

record ZapInner =
  zi_cores :: "CoreConfig list"
  zi_opts :: "nat list"

record ZapLogger =
  zl_l :: ZapInner
  zl_config :: zap_config

definition build_inner :: "zap_config \<Rightarrow> zap_store \<Rightarrow> ZapInner" where
  "build_inner cfg st = \<lparr>zi_cores = zs_arrays st (zc_cores cfg), zi_opts = zc_zapOpts cfg\<rparr>"

definition ZapNewLogger :: "ZapOption list \<Rightarrow> zap_store \<Rightarrow> (ZapLogger \<times> zap_store) option" where
  "ZapNewLogger opts st =
     map_option (\<lambda>(cfg, st). (\<lparr>zl_l = build_inner cfg st, zl_config = cfg\<rparr>, st))
       (zap_apply_all opts (defaultZapConfig st))"

definition GetExtraKeys :: "ZapLogger \<Rightarrow> string list" where
  "GetExtraKeys l = zc_extraKeys (zl_config l)"

definition PutExtraKeys :: "string list \<Rightarrow> ZapLogger \<Rightarrow> ZapLogger" where
  "PutExtraKeys keys l = l\<lparr>zl_config := (zl_config l)\<lparr>zc_extraKeys := add_keys keys (zc_extraKeys (zl_config l))\<rparr>\<rparr>"

definition ZapSetLevel :: "hlevel \<Rightarrow> ZapLogger \<Rightarrow> zap_store \<Rightarrow> (ZapLogger \<times> zap_store) option" where
  "ZapSetLevel level l st =
     map_option (\<lambda>st. (l\<lparr>zl_l := build_inner (zl_config l) st\<rparr>, st))
       (set_first (\<lambda>c. c\<lparr>cc_Lvl := FixedLevel (hlog_to_zap level)\<rparr>) (zl_config l) st)"

definition ZapSetOutput :: "nat \<Rightarrow> ZapLogger \<Rightarrow> zap_store \<Rightarrow> (ZapLogger \<times> zap_store) option" where
  "ZapSetOutput writer l st =
     map_option (\<lambda>st. (l\<lparr>zl_l := build_inner (zl_config l) st\<rparr>, st))
       (set_first (\<lambda>c. c\<lparr>cc_Ws := writer\<rparr>) (zl_config l) st)"

subsection \<open>Writing\<close>

text \<open>
  A context has values under keys of the type \<^verbatim>\<open>ExtraKey\<close> and under plain strings; a missing value is nil.  \<open>zap\<close> is the
  sugared logger: it gets the cells, the logger, the level, the fields added by \<^verbatim>\<open>With\<close>, the template and the operands.
\<close>

datatype ctx_key = ExtraKey string | StrKey string

type_synonym 'w zap_write = "(nat \<Rightarrow> zlevel) \<Rightarrow> ZapInner \<Rightarrow> zlevel \<Rightarrow> (string \<times> string option) list \<Rightarrow> string \<Rightarrow> operand list \<Rightarrow> 'w \<Rightarrow> 'w"

definition ZapLog :: "'w zap_write \<Rightarrow> (nat \<Rightarrow> zlevel) \<Rightarrow> ZapLogger \<Rightarrow> hlevel \<Rightarrow> operand list \<Rightarrow> 'w \<Rightarrow> 'w" where
  "ZapLog zap cells l level kvs w = zap cells (zl_l l) (hlog_to_zap level) [] '''' kvs w"

definition ZapLogf :: "'w zap_write \<Rightarrow> (nat \<Rightarrow> zlevel) \<Rightarrow> ZapLogger \<Rightarrow> hlevel \<Rightarrow> string \<Rightarrow> operand list \<Rightarrow> 'w \<Rightarrow> 'w" where
  "ZapLogf zap cells l level format kvs w = zap cells (zl_l l) (hlog_to_zap level) [] format kvs w"

definition extra_fields :: "ZapLogger \<Rightarrow> (ctx_key \<Rightarrow> string option) \<Rightarrow> (string \<times> string option) list" where
  "extra_fields l ctx =
     map (\<lambda>k. (k, ctx (if zc_extraKeyAsStr (zl_config l) then StrKey k else ExtraKey k))) (zc_extraKeys (zl_config l))"

definition ZapCtxLogf ::
    "'w zap_write \<Rightarrow> (nat \<Rightarrow> zlevel) \<Rightarrow> ZapLogger \<Rightarrow> hlevel \<Rightarrow> (ctx_key \<Rightarrow> string option) \<Rightarrow> string \<Rightarrow> operand list \<Rightarrow> 'w \<Rightarrow> 'w" where
  "ZapCtxLogf zap cells l level ctx format kvs w =
     zap cells (zl_l l) (hlog_to_zap level) (extra_fields l ctx) format kvs w"

text \<open>
  The methods name a level each; \<^verbatim>\<open>Noticef\<close> and \<^verbatim>\<open>CtxNoticef\<close> pass the level warn, \<^verbatim>\<open>CtxTracef\<close> the level debug.
\<close>

datatype log_method = MTrace | MDebug | MInfo | MNotice | MWarn | MError | MFatal

fun method_level :: "log_method \<Rightarrow> hlevel" where
  "method_level MTrace = HTrace" | "method_level MDebug = HDebug" | "method_level MInfo = HInfo"
| "method_level MNotice = HNotice" | "method_level MWarn = HWarn" | "method_level MError = HError"
| "method_level MFatal = HFatal"

fun methodf_level :: "log_method \<Rightarrow> hlevel" where
  "methodf_level MTrace = HTrace" | "methodf_level MDebug = HDebug" | "methodf_level MInfo = HInfo"
| "methodf_level MNotice = HWarn" | "methodf_level MWarn = HWarn" | "methodf_level MError = HError"
| "methodf_level MFatal = HFatal"

fun ctx_method_level :: "log_method \<Rightarrow> hlevel" where
  "ctx_method_level MTrace = HDebug" | "ctx_method_level MDebug = HDebug" | "ctx_method_level MInfo = HInfo"
| "ctx_method_level MNotice = HWarn" | "ctx_method_level MWarn = HWarn" | "ctx_method_level MError = HError"
| "ctx_method_level MFatal = HFatal"

text \<open>\<^verbatim>\<open>getMessage\<close>, a copy of the function of zap that nothing calls; \<open>sprintf\<close> is that of \<^verbatim>\<open>fmt\<close>.\<close>

definition getMessage :: "(string \<Rightarrow> operand list \<Rightarrow> string) \<Rightarrow> string \<Rightarrow> operand list \<Rightarrow> string" where
  "getMessage sprintf template fmtArgs =
     (if fmtArgs = [] then template
      else if template \<noteq> '''' then sprintf template fmtArgs
      else case fmtArgs of [OStr s] \<Rightarrow> s | _ \<Rightarrow> sprint fmtArgs)"

subsection \<open>Lemmas\<close>

lemma InArray_iff [simp]: "InArray k ks \<longleftrightarrow> k \<in> set ks"
  by (auto simp: InArray_def list_ex_iff)

lemma add_keys_set: "set (add_keys keys old) = set old \<union> set keys"
  unfolding add_keys_def by (induction keys arbitrary: old) auto

lemma add_keys_distinct: "distinct old \<Longrightarrow> distinct (add_keys keys old)"
  unfolding add_keys_def by (induction keys arbitrary: old) auto

lemma set_first_cases:
  "set_first f cfg st = Some st' \<longleftrightarrow>
     (\<exists>c cs. zs_arrays st (zc_cores cfg) = c # cs \<and> st' = st\<lparr>zs_arrays := (zs_arrays st)(zc_cores cfg := f c # cs)\<rparr>)"
  by (auto simp: set_first_def split: list.split)

lemma set_first_some: "zs_arrays st (zc_cores cfg) \<noteq> [] \<Longrightarrow> \<exists>st'. set_first f cfg st = Some st'"
  by (cases "zs_arrays st (zc_cores cfg)") (simp_all add: set_first_def)

subsection \<open>What the library of zap does\<close>

text \<open>
  A logger without options writes one line to each core whose level is enabled, in the order of the cores.  A line has
  the encoder, the level, the fields, the template and the operands.
\<close>

type_synonym zap_line = "nat \<times> zlevel \<times> (string \<times> string option) list \<times> string \<times> operand list"

definition lines_of :: "(nat \<Rightarrow> zlevel) \<Rightarrow> CoreConfig list \<Rightarrow> zlevel \<Rightarrow> (string \<times> string option) list \<Rightarrow> string \<Rightarrow>
    operand list \<Rightarrow> nat \<Rightarrow> zap_line list" where
  "lines_of cells cores v fs t args ws =
     map (\<lambda>c. (cc_Enc c, v, fs, t, args)) (filter (\<lambda>c. cc_Ws c = ws \<and> enabled cells (cc_Lvl c) v) cores)"

locale zap_library =
  fixes zap :: "'w zap_write" and written :: "'w \<Rightarrow> nat \<Rightarrow> zap_line list"
  assumes writes: "zi_opts L = [] \<Longrightarrow> written (zap cells L v fs t args w) ws = written w ws @ lines_of cells (zi_cores L) v fs t args ws"
begin

lemma set_level_lines:
  assumes "ZapSetLevel h l st = Some (l', st')" and "zs_arrays st (zc_cores (zl_config l)) = c # cs"
    and "zc_zapOpts (zl_config l) = []"
  shows "written (zap cells (zl_l l') v fs t args w) ws = written w ws @
    (if cc_Ws c = ws \<and> hlog_to_zap h \<le> v then [(cc_Enc c, v, fs, t, args)] else []) @ lines_of cells cs v fs t args ws"
proof -
  have "zl_l l' = \<lparr>zi_cores = c\<lparr>cc_Lvl := FixedLevel (hlog_to_zap h)\<rparr> # cs, zi_opts = []\<rparr>"
    using assms by (auto simp: ZapSetLevel_def set_first_cases build_inner_def)
  then show ?thesis using writes [of "zl_l l'"] by (simp add: lines_of_def)
qed

end

text \<open>An written that is the list of lines of each writer.\<close>

definition mem_zap :: "(nat \<Rightarrow> zap_line list) zap_write" where
  "mem_zap cells L v fs t args w = (\<lambda>ws. w ws @ lines_of cells (zi_cores L) v fs t args ws)"

interpretation mem_zap: zap_library mem_zap "\<lambda>w. w"
  by unfold_locales (simp add: mem_zap_def)

subsection \<open>Loggers in use\<close>

datatype zap_op =
    OpNew "ZapOption list"
  | OpSetLevel nat hlevel
  | OpSetOutput nat nat
  | OpPutKeys nat "string list"
  | OpCell nat zlevel          \<comment> \<open>the owner of an \<^verbatim>\<open>AtomicLevel\<close> sets it\<close>

fun zap_step :: "zap_op \<Rightarrow> ZapLogger list \<times> zap_store \<Rightarrow> (ZapLogger list \<times> zap_store) option" where
  "zap_step (OpNew opts) (ls, st) = map_option (\<lambda>(l, st). (ls @ [l], st)) (ZapNewLogger opts st)"
| "zap_step (OpSetLevel i h) (ls, st) =
     (if i < length ls then map_option (\<lambda>(l, st). (ls[i := l], st)) (ZapSetLevel h (ls ! i) st) else Some (ls, st))"
| "zap_step (OpSetOutput i x) (ls, st) =
     (if i < length ls then map_option (\<lambda>(l, st). (ls[i := l], st)) (ZapSetOutput x (ls ! i) st) else Some (ls, st))"
| "zap_step (OpPutKeys i ks) (ls, st) =
     Some (if i < length ls then ls[i := PutExtraKeys ks (ls ! i)] else ls, st)"
| "zap_step (OpCell a v) (ls, st) = Some (ls, st\<lparr>zs_cells := (zs_cells st)(a := v)\<rparr>)"

fun zap_steps :: "zap_op list \<Rightarrow> ZapLogger list \<times> zap_store \<Rightarrow> (ZapLogger list \<times> zap_store) option" where
  "zap_steps [] s = Some s"
| "zap_steps (x # xs) s = (case zap_step x s of None \<Rightarrow> None | Some s' \<Rightarrow> zap_steps xs s')"

fun own_cores :: "zap_op \<Rightarrow> bool" where
  "own_cores (OpNew opts) \<longleftrightarrow> \<not> (\<exists>a. WithCores a \<in> set opts)"
| "own_cores _ \<longleftrightarrow> True"

text \<open>Every logger in use writes what its configuration says, has an array of its own, and no extra key twice.\<close>

definition zap_inv :: "ZapLogger list \<times> zap_store \<Rightarrow> bool" where
  "zap_inv s \<longleftrightarrow> (\<forall>l \<in> set (fst s). zl_l l = build_inner (zl_config l) (snd s) \<and> distinct (zc_extraKeys (zl_config l)) \<and>
       zc_cores (zl_config l) < zs_next (snd s) \<and> zs_arrays (snd s) (zc_cores (zl_config l)) \<noteq> []) \<and>
     distinct (map (\<lambda>l. zc_cores (zl_config l)) (fst s))"

lemma zap_apply_own:
  assumes "\<not> (\<exists>a. o1 = WithCores a)" and "zs_arrays st (zc_cores cfg) \<noteq> []" and "distinct (zc_extraKeys cfg)"
  shows "\<exists>cfg' st'. zap_apply o1 (cfg, st) = Some (cfg', st') \<and> zc_cores cfg' = zc_cores cfg \<and>
    zs_arrays st' (zc_cores cfg) \<noteq> [] \<and> distinct (zc_extraKeys cfg') \<and> zs_next st' = zs_next st \<and>
    (\<forall>a. a \<noteq> zc_cores cfg \<longrightarrow> zs_arrays st' a = zs_arrays st a)"
proof -
  obtain c cs where "zs_arrays st (zc_cores cfg) = c # cs" using assms(2) by (cases "zs_arrays st (zc_cores cfg)") auto
  with assms show ?thesis by (cases o1) (auto simp: set_first_def add_keys_distinct)
qed

lemma zap_apply_all_own:
  assumes "\<not> (\<exists>a. WithCores a \<in> set opts)" and "zs_arrays st (zc_cores cfg) \<noteq> []" and "distinct (zc_extraKeys cfg)"
  shows "\<exists>cfg' st'. zap_apply_all opts (cfg, st) = Some (cfg', st') \<and> zc_cores cfg' = zc_cores cfg \<and>
    zs_arrays st' (zc_cores cfg) \<noteq> [] \<and> distinct (zc_extraKeys cfg') \<and> zs_next st' = zs_next st \<and>
    (\<forall>a. a \<noteq> zc_cores cfg \<longrightarrow> zs_arrays st' a = zs_arrays st a)"
  using assms
proof (induction opts arbitrary: cfg st)
  case (Cons o1 opts)
  have "\<not> (\<exists>a. o1 = WithCores a)" using Cons.prems(1) by auto
  from zap_apply_own [OF this Cons.prems(2,3)] obtain cfg1 st1 where
      s: "zap_apply o1 (cfg, st) = Some (cfg1, st1)" "zc_cores cfg1 = zc_cores cfg" "zs_arrays st1 (zc_cores cfg) \<noteq> []"
        "distinct (zc_extraKeys cfg1)" "zs_next st1 = zs_next st" "\<forall>a. a \<noteq> zc_cores cfg \<longrightarrow> zs_arrays st1 a = zs_arrays st a"
    by blast
  then obtain cfg2 st2 where "zap_apply_all opts (cfg1, st1) = Some (cfg2, st2)" "zc_cores cfg2 = zc_cores cfg"
      "zs_arrays st2 (zc_cores cfg) \<noteq> []" "distinct (zc_extraKeys cfg2)" "zs_next st2 = zs_next st1"
      "\<forall>a. a \<noteq> zc_cores cfg \<longrightarrow> zs_arrays st2 a = zs_arrays st1 a"
    using Cons.IH [of st1 cfg1] Cons.prems(1) by auto
  with s show ?case by auto
qed simp

lemma zap_new_own:
  assumes "\<not> (\<exists>a. WithCores a \<in> set opts)"
  shows "\<exists>l st'. ZapNewLogger opts st = Some (l, st') \<and> zc_cores (zl_config l) = zs_next st \<and> zs_next st' = Suc (zs_next st) \<and>
    zl_l l = build_inner (zl_config l) st' \<and> distinct (zc_extraKeys (zl_config l)) \<and>
    zs_arrays st' (zs_next st) \<noteq> [] \<and> (\<forall>a. a \<noteq> zs_next st \<longrightarrow> zs_arrays st' a = zs_arrays st a)"
proof -
  obtain cfg0 st0 where d: "defaultZapConfig st = (cfg0, st0)" by (metis surj_pair)
  then have z: "zc_cores cfg0 = zs_next st" "zs_arrays st0 (zc_cores cfg0) \<noteq> []" "distinct (zc_extraKeys cfg0)"
      "zs_next st0 = Suc (zs_next st)" "\<forall>a. a \<noteq> zs_next st \<longrightarrow> zs_arrays st0 a = zs_arrays st a"
    by (auto simp: defaultZapConfig_def defaultCoreConfig_def Let_def)
  from zap_apply_all_own [OF assms z(2,3)] obtain cfg1 st1 where
      "zap_apply_all opts (cfg0, st0) = Some (cfg1, st1)" "zc_cores cfg1 = zs_next st" "zs_arrays st1 (zs_next st) \<noteq> []"
      "distinct (zc_extraKeys cfg1)" "zs_next st1 = Suc (zs_next st)" "\<forall>a. a \<noteq> zs_next st \<longrightarrow> zs_arrays st1 a = zs_arrays st0 a"
    using z by auto
  then show ?thesis using z(5) by (auto simp: ZapNewLogger_def d)
qed

lemma rebuild_inv:
  assumes inv: "zap_inv (ls, st)" and i: "i < length ls" and f: "set_first f (zl_config (ls ! i)) st = Some st'"
  shows "zap_inv (ls[i := (ls ! i)\<lparr>zl_l := build_inner (zl_config (ls ! i)) st'\<rparr>], st')"
proof -
  let ?a = "zc_cores (zl_config (ls ! i))" and ?l = "(ls ! i)\<lparr>zl_l := build_inner (zl_config (ls ! i)) st'\<rparr>"
  obtain c cs where st': "zs_arrays st ?a = c # cs" "st' = st\<lparr>zs_arrays := (zs_arrays st)(?a := f c # cs)\<rparr>"
    using f by (auto simp: set_first_cases)
  have d: "distinct (map (\<lambda>l. zc_cores (zl_config l)) ls)" using inv by (simp add: zap_inv_def)
  have keys: "map (\<lambda>l. zc_cores (zl_config l)) (ls[i := ?l]) = map (\<lambda>l. zc_cores (zl_config l)) ls"
    using i by (simp add: map_update list_update_same_conv)
  have "zl_l l = build_inner (zl_config l) st' \<and> distinct (zc_extraKeys (zl_config l)) \<and>
      zc_cores (zl_config l) < zs_next st' \<and> zs_arrays st' (zc_cores (zl_config l)) \<noteq> []" if l: "l \<in> set (ls[i := ?l])" for l
  proof -
    obtain j where j: "j < length ls" "l = ls[i := ?l] ! j" using l by (metis in_set_conv_nth length_list_update)
    have o: "zl_l (ls ! j) = build_inner (zl_config (ls ! j)) st \<and> distinct (zc_extraKeys (zl_config (ls ! j))) \<and>
        zc_cores (zl_config (ls ! j)) < zs_next st \<and> zs_arrays st (zc_cores (zl_config (ls ! j))) \<noteq> []"
      using inv j(1) by (simp add: zap_inv_def)
    show ?thesis
    proof (cases "j = i")
      case True
      then show ?thesis using j o st' by simp
    next
      case False
      then have "zc_cores (zl_config (ls ! j)) \<noteq> ?a"
        using d i j(1) by (auto simp: distinct_conv_nth)
      then show ?thesis using j o st' False by (simp add: build_inner_def)
    qed
  qed
  then show ?thesis using d keys by (simp add: zap_inv_def)
qed

lemma zap_step_inv:
  assumes inv: "zap_inv (ls, st)" and own: "own_cores op"
  shows "\<exists>s'. zap_step op (ls, st) = Some s' \<and> zap_inv s'"
proof (cases op)
  case (OpNew opts)
  then obtain l st' where n: "ZapNewLogger opts st = Some (l, st')" "zc_cores (zl_config l) = zs_next st"
      "zs_next st' = Suc (zs_next st)" "zl_l l = build_inner (zl_config l) st'" "distinct (zc_extraKeys (zl_config l))"
      "zs_arrays st' (zs_next st) \<noteq> []" "\<forall>a. a \<noteq> zs_next st \<longrightarrow> zs_arrays st' a = zs_arrays st a"
    using zap_new_own [of opts st] own by auto
  have old: "zl_l x = build_inner (zl_config x) st' \<and> zc_cores (zl_config x) < zs_next st' \<and>
      zc_cores (zl_config x) \<noteq> zs_next st \<and> zs_arrays st' (zc_cores (zl_config x)) \<noteq> [] \<and> distinct (zc_extraKeys (zl_config x))"
    if "x \<in> set ls" for x
    using inv that n by (auto simp: zap_inv_def build_inner_def)
  have "zap_inv (ls @ [l], st')"
    using inv n old by (auto simp: zap_inv_def)
  then show ?thesis using OpNew n(1) by simp
next
  case (OpSetLevel i h)
  show ?thesis
  proof (cases "i < length ls")
    case True
    then have "zs_arrays st (zc_cores (zl_config (ls ! i))) \<noteq> []" using inv by (simp add: zap_inv_def)
    then obtain st' where "set_first (\<lambda>c. c\<lparr>cc_Lvl := FixedLevel (hlog_to_zap h)\<rparr>) (zl_config (ls ! i)) st = Some st'"
      using set_first_some by blast
    with rebuild_inv [OF inv True this] show ?thesis using OpSetLevel True by (simp add: ZapSetLevel_def)
  qed (use OpSetLevel inv in simp)
next
  case (OpSetOutput i x)
  show ?thesis
  proof (cases "i < length ls")
    case True
    then have "zs_arrays st (zc_cores (zl_config (ls ! i))) \<noteq> []" using inv by (simp add: zap_inv_def)
    then obtain st' where "set_first (\<lambda>c. c\<lparr>cc_Ws := x\<rparr>) (zl_config (ls ! i)) st = Some st'"
      using set_first_some by blast
    with rebuild_inv [OF inv True this] show ?thesis using OpSetOutput True by (simp add: ZapSetOutput_def)
  qed (use OpSetOutput inv in simp)
next
  case (OpPutKeys i ks)
  have "map (\<lambda>l. zc_cores (zl_config l)) (ls[i := PutExtraKeys ks (ls ! i)]) = map (\<lambda>l. zc_cores (zl_config l)) ls"
    if "i < length ls"
    using that by (simp add: map_update list_update_same_conv PutExtraKeys_def)
  then have "zap_inv (if i < length ls then ls[i := PutExtraKeys ks (ls ! i)] else ls, st)"
    using inv by (auto simp: zap_inv_def PutExtraKeys_def build_inner_def add_keys_distinct dest!: set_update_subset_insert [THEN subsetD])
  then show ?thesis using OpPutKeys by simp
next
  case (OpCell a v)
  then show ?thesis using inv by (auto simp: zap_inv_def build_inner_def)
qed

subsection \<open>Properties\<close>

text \<open>
  C27. Loggers that bring no cores of their own (no \<^verbatim>\<open>WithCores\<close>): whatever is done to them, in any order, no call panics,
  and afterwards every logger writes with exactly the cores and options of its configuration, no two share an array of
  cores, and no extra key occurs twice.
\<close>

theorem loggers_in_sync:
  assumes "\<forall>op \<in> set ops. own_cores op"
  shows "\<exists>s. zap_steps ops ([], st) = Some s \<and> zap_inv s"
proof -
  have "zap_inv s0 \<Longrightarrow> \<exists>s. zap_steps ops s0 = Some s \<and> zap_inv s" for s0
    using assms
  proof (induction ops arbitrary: s0)
    case (Cons op ops)
    obtain s1 where "zap_step op s0 = Some s1" "zap_inv s1"
      using zap_step_inv [of "fst s0" "snd s0" op] Cons.prems by auto
    with Cons.IH [of s1] Cons.prems(2) show ?case by simp
  qed simp
  then show ?thesis by (simp add: zap_inv_def)
qed

definition demo_zap_store :: zap_store where
  "demo_zap_store = \<lparr>zs_arrays = (\<lambda>_. []), zs_next = 0, zs_cells = (\<lambda>_. 0), zs_next_cell = 0\<rparr>"

theorem loggers_in_sync_witness:
  "\<exists>s. zap_steps [OpNew [WithExtraKeys [''id'', ''id'']], OpNew [WithCoreWs 7], OpSetLevel 0 HDebug, OpSetOutput 1 3] ([], demo_zap_store) =
     Some s \<and> zap_inv s"
  by (rule loggers_in_sync) simp

text \<open>
  Loggers built from the same slice of cores interfere.  Setting the level of one changes the configuration of the other
  too, where it lies dormant until the other is given a new output: from then on the other logger writes with the level
  of the first, and the atomic level its owner set up is ignored.
\<close>

theorem shared_cores_interfere:
  assumes "zc_cores (zl_config l1) = a" and "zc_cores (zl_config l2) = a" and "zs_arrays st a = c # cs"
    and "zc_zapOpts (zl_config l2) = []"
  shows "\<exists>l1' st1 l2' st2. ZapSetLevel h l1 st = Some (l1', st1) \<and> ZapSetOutput x l2 st1 = Some (l2', st2) \<and>
    mem_zap cells (zl_l l2') v fs t args w x =
      w x @ (if hlog_to_zap h \<le> v then [(cc_Enc c, v, fs, t, args)] else []) @ lines_of cells cs v fs t args x"
  using assms by (simp add: ZapSetLevel_def ZapSetOutput_def set_first_def build_inner_def mem_zap_def lines_of_def)

theorem shared_cores_interfere_witness:
  "\<exists>l1 l2 st l1' st1 l2' st2.
     zap_steps [OpNew [WithCores 0], OpNew [WithCores 0]]
       ([], demo_zap_store\<lparr>zs_arrays := (\<lambda>_. [])(0 := [\<lparr>cc_Enc = 1, cc_Ws = 2, cc_Lvl = CellLevel 9\<rparr>]), zs_next := 1\<rparr>) = Some ([l1, l2], st) \<and>
     ZapSetLevel HError l1 st = Some (l1', st1) \<and> ZapSetOutput 5 l2 st1 = Some (l2', st2) \<and>
     mem_zap (\<lambda>_. InfoLevel) (zl_l l2') InfoLevel [] ''m'' [] (\<lambda>_. []) 5 = []"
proof -
  let ?c = "\<lparr>cc_Enc = 1, cc_Ws = 2, cc_Lvl = CellLevel 9\<rparr>"
  obtain l1 l2 st where r: "zap_steps [OpNew [WithCores 0], OpNew [WithCores 0]]
       ([], demo_zap_store\<lparr>zs_arrays := (\<lambda>_. [])(0 := [?c]), zs_next := 1\<rparr>) = Some ([l1, l2], st)"
      "zc_cores (zl_config l1) = 0" "zc_cores (zl_config l2) = 0" "zs_arrays st 0 = [?c]" "zc_zapOpts (zl_config l2) = []"
    by (auto simp: ZapNewLogger_def defaultZapConfig_def defaultCoreConfig_def demo_zap_store_def Let_def)
  show ?thesis
    using shared_cores_interfere [OF r(2,3,4,5), of HError 5 "\<lambda>_. InfoLevel" InfoLevel "[]" "''m''" "[]" "\<lambda>_. []"] r(1)
    by (fastforce simp: zlevel_defs lines_of_def)
qed

text \<open>
  The three families of calls agree: the plain, the formatting and the context call of a method write at the same
  level, and after \<^verbatim>\<open>SetLevel\<close> the first core gets the line exactly when that level reaches the one set, whatever
  atomic level it had before, while the other cores keep theirs.
\<close>

theorem level_takes_effect:
  assumes "ZapSetLevel h l st = Some (l', st')" and "zs_arrays st (zc_cores (zl_config l)) = c # cs"
    and "zc_zapOpts (zl_config l) = []"
  shows "hlog_to_zap (methodf_level m) = hlog_to_zap (method_level m) \<and>
    hlog_to_zap (ctx_method_level m) = hlog_to_zap (method_level m) \<and>
    ZapCtxLogf mem_zap cells l' (ctx_method_level m) ctx t args w ws = w ws @
      (if cc_Ws c = ws \<and> hlog_to_zap h \<le> hlog_to_zap (method_level m)
       then [(cc_Enc c, hlog_to_zap (method_level m), extra_fields l' ctx, t, args)] else []) @
      lines_of cells cs (hlog_to_zap (method_level m)) (extra_fields l' ctx) t args ws"
proof -
  have a: "hlog_to_zap (methodf_level m) = hlog_to_zap (method_level m)"
    "hlog_to_zap (ctx_method_level m) = hlog_to_zap (method_level m)"
    by (cases m; simp)+
  show ?thesis using mem_zap.set_level_lines [OF assms] a by (simp add: ZapCtxLogf_def)
qed

theorem level_takes_effect_witness:
  "\<exists>l st l' st'. ZapNewLogger [] demo_zap_store = Some (l, st) \<and> ZapSetLevel HWarn l st = Some (l', st') \<and>
     ZapCtxLogf mem_zap (\<lambda>_. DebugLevel) l' HInfo (\<lambda>_. None) ''m'' [] (\<lambda>_. []) 0 = []"
proof -
  obtain l st where l: "ZapNewLogger [] demo_zap_store = Some (l, st)"
    by (auto simp: ZapNewLogger_def defaultZapConfig_def defaultCoreConfig_def Let_def)
  then have c: "zs_arrays st (zc_cores (zl_config l)) = [\<lparr>cc_Enc = json_enc, cc_Ws = stdout_ws, cc_Lvl = CellLevel 0\<rparr>]"
      "zc_zapOpts (zl_config l) = []"
    by (auto simp: ZapNewLogger_def defaultZapConfig_def defaultCoreConfig_def Let_def demo_zap_store_def)
  then obtain l' st' where s: "ZapSetLevel HWarn l st = Some (l', st')"
    by (simp add: ZapSetLevel_def set_first_def)
  show ?thesis
    using level_takes_effect [OF s c, of MInfo "\<lambda>_. DebugLevel" "\<lambda>_. None" "''m''" "[]" "\<lambda>_. []" 0] l s
    by (fastforce simp: zlevel_defs lines_of_def)
qed

end
