(* ===== verification/HttpTool.thy ===== *)
theory HttpTool
  imports GoText
begin

text \<open>
  The HTTP helpers (\<^verbatim>\<open>pkg/httptool/httptool.go\<close>): options, the two functions that return the body, the two that return
  the response, and the log line each writes when it ends.  The network, \<^verbatim>\<open>json.Marshal\<close> and the printing of maps are
  the record \<open>net\<close>.  The plain function prints its log line with \<^verbatim>\<open>fmt.Printf(fmt.Sprintf(...))\<close>, so the finished
  line is formatted once more, as a format without operands; what that does to it is modelled and proved.
\<close>

subsection \<open>Options\<close>

type_synonym header_map = "(string \<times> string) list"

record requestOption =
  ro_timeout :: duration
  ro_data :: string
  ro_headers :: header_map

definition JsonType :: string where
  "JsonType = ''application/json''"

definition DefaultHeaders :: header_map where
  "DefaultHeaders = [(''Content-Type'', JsonType)]"

definition defaultRequestOptions :: requestOption where
  "defaultRequestOptions = \<lparr>ro_timeout = 5 * second, ro_data = '''', ro_headers = []\<rparr>"

definition put_header :: "string \<times> string \<Rightarrow> header_map \<Rightarrow> header_map" where
  "put_header p hs = p # filter (\<lambda>q. fst q \<noteq> fst p) hs"

datatype 'v HttpOption = WithTimeout duration | WithHeaders header_map | WithData 'v | WithJsonData string

record ('v, 'w) http_net =
  net_marshal :: "'v \<Rightarrow> string + string"
  net_new :: "string \<Rightarrow> string \<Rightarrow> string option"
  net_show :: "header_map \<Rightarrow> string"
  net_do :: "string \<Rightarrow> string \<Rightarrow> header_map \<Rightarrow> string \<Rightarrow> duration \<Rightarrow> bool \<Rightarrow> 'w \<Rightarrow> (string + int \<times> header_map \<times> (string + string)) \<times> 'w"

text \<open>
  \<open>net_do\<close> gets method, URL, headers, body, timeout and whether the connection is kept for reuse; it answers with status,
  headers and what reading the body yields.  An error of \<^verbatim>\<open>json.Marshal\<close> is dropped and the data are empty.
\<close>

fun http_apply :: "('v, 'w) http_net \<Rightarrow> 'v HttpOption \<Rightarrow> requestOption \<Rightarrow> requestOption" where
  "http_apply net (WithTimeout t) ro = ro\<lparr>ro_timeout := t\<rparr>"
| "http_apply net (WithHeaders hs) ro = ro\<lparr>ro_headers := fold put_header hs (ro_headers ro)\<rparr>"
| "http_apply net (WithData v) ro = ro\<lparr>ro_data := (case net_marshal net v of Inl e \<Rightarrow> '''' | Inr s \<Rightarrow> s)\<rparr>"
| "http_apply net (WithJsonData s) ro = ro\<lparr>ro_data := s\<rparr>"

definition http_options :: "('v, 'w) http_net \<Rightarrow> 'v HttpOption list \<Rightarrow> requestOption" where
  "http_options net opts = fold (http_apply net) opts defaultRequestOptions"

subsection \<open>Log lines\<close>

text \<open>A log line has the method, the URL and what the call says about both sides; \<open>LogErr\<close> and \<open>LogInfo\<close> go to the logger.\<close>

record http_log =
  hl_method :: string
  hl_url :: string
  hl_req_headers :: "header_map option"
  hl_in :: string
  hl_out :: "string option"
  hl_resp_headers :: header_map
  hl_err :: "string option"

datatype http_event = Printed string | LogErr http_log | LogInfo http_log

text \<open>
  \<^verbatim>\<open>fmt.Printf\<close> of a format without operands: after a percent sign come flags, a width, a precision and a verb of one
  byte, which is reported as missing.  (A star or an explicit index after the percent sign is not modelled.)
\<close>

definition is_flag :: "char \<Rightarrow> bool" where
  "is_flag c \<longleftrightarrow> c \<in> set ''+-# 0''"

definition skip_number :: "string \<Rightarrow> string" where
  "skip_number s = dropWhile is_digit s"

definition after_flags :: "string \<Rightarrow> string" where
  "after_flags s =
     (let s1 = skip_number (dropWhile is_flag s)
      in case s1 of CHR ''.'' # s2 \<Rightarrow> skip_number s2 | _ \<Rightarrow> s1)"

lemma after_flags_le: "length (after_flags s) \<le> length s"
proof -
  let ?s1 = "skip_number (dropWhile is_flag s)"
  have "length ?s1 \<le> length s"
    unfolding skip_number_def by (meson length_dropWhile_le order_trans)
  moreover have "length (after_flags s) \<le> length ?s1"
    by (auto simp: after_flags_def Let_def skip_number_def split: list.split char.split bool.split
        intro: order_trans [OF length_dropWhile_le])
  ultimately show ?thesis by simp
qed

function printf_bare :: "string \<Rightarrow> string" where
  "printf_bare [] = []"
| "printf_bare (c # s) =
     (if c \<noteq> CHR ''%'' then c # printf_bare s
      else case after_flags s of
             [] \<Rightarrow> ''%!(NOVERB)''
           | v # rest \<Rightarrow> (if v = CHR ''%'' then ''%'' else ''%!'' @ [v] @ ''(MISSING)'') @ printf_bare rest)"
  by pat_completeness auto
termination
proof (relation "measure length")
  fix c :: char and s v rest
  assume "after_flags s = v # rest"
  then show "(rest, c # s) \<in> measure length" using after_flags_le [of s] by simp
qed auto

lemma printf_bare_plain: "CHR ''%'' \<notin> set s \<Longrightarrow> printf_bare (s @ t) = s @ printf_bare t"
  by (induction s) auto

definition tab :: string where
  "tab = [char_of (9 :: nat)]"

definition newline :: string where
  "newline = [char_of (10 :: nat)]"

definition show_err :: "string option \<Rightarrow> string" where
  "show_err e = (case e of None \<Rightarrow> ''<nil>'' | Some m \<Rightarrow> m)"

definition show_opt :: "string option \<Rightarrow> string" where
  "show_opt x = (case x of None \<Rightarrow> '''' | Some s \<Rightarrow> s)"

definition HttpRequest_line :: "('v, 'w) http_net \<Rightarrow> http_log \<Rightarrow> int \<Rightarrow> string" where
  "HttpRequest_line net l dur =
     ''http:'' @ hl_method l @ tab @ '', url:'' @ hl_url l @ tab @ '', request_headers:'' @
     (case hl_req_headers l of None \<Rightarrow> '''' | Some hs \<Rightarrow> net_show net hs) @ tab @ '', in:'' @ hl_in l @ tab @ '', out:'' @
     show_opt (hl_out l) @ tab @ '', response_headers:'' @ net_show net (hl_resp_headers l) @ tab @ '', err:'' @
     show_err (hl_err l) @ '', dur/ms:'' @ format_int dur @ newline"

definition HTTPRequest_line :: "('v, 'w) http_net \<Rightarrow> http_log \<Rightarrow> string" where
  "HTTPRequest_line net l =
     ''http:'' @ hl_method l @ '', url:'' @ hl_url l @ '', in:'' @ hl_in l @ '', response_headers:'' @
     net_show net (hl_resp_headers l) @ tab @ '', err:'' @ show_err (hl_err l) @ newline"

subsection \<open>Requests\<close>

text \<open>The request up to the response: an error, or status, headers and body (\<^const>\<open>Inl\<close>: reading it fails).\<close>

definition perform :: "('v, 'w) http_net \<Rightarrow> bool \<Rightarrow> string \<Rightarrow> string \<Rightarrow> requestOption \<Rightarrow> 'w \<Rightarrow>
    (string + int \<times> header_map \<times> (string + string)) \<times> 'w" where
  "perform net reuse meth url ro w =
     (case net_new net meth url of
        Some e \<Rightarrow> (Inl e, w)
      | None \<Rightarrow> net_do net meth url (ro_headers ro) (ro_data ro) (ro_timeout ro) reuse w)"

text \<open>The named results at the end of the functions that return the body, and the log record the deferred call sees.\<close>

definition body_outcome :: "string + int \<times> header_map \<times> (string + string) \<Rightarrow> string \<times> header_map \<times> string option" where
  "body_outcome x =
     (case x of
        Inl e \<Rightarrow> ('''', [], Some e)
      | Inr (st, hs, Inl e) \<Rightarrow> ('''', hs, Some e)
      | Inr (st, hs, Inr body) \<Rightarrow> (body, hs, None))"

definition body_log :: "string \<Rightarrow> string \<Rightarrow> requestOption \<Rightarrow> string \<times> header_map \<times> string option \<Rightarrow> http_log" where
  "body_log meth url ro x =
     (let (result, hs, err) = x
      in \<lparr>hl_method = meth, hl_url = url, hl_req_headers = Some (ro_headers ro), hl_in = ro_data ro, hl_out = Some result,
          hl_resp_headers = hs, hl_err = err\<rparr>)"

text \<open>\<open>dur\<close> is the time the call took, in milliseconds.\<close>

definition HttpRequest :: "('v, 'w) http_net \<Rightarrow> int \<Rightarrow> string \<Rightarrow> string \<Rightarrow> 'v HttpOption list \<Rightarrow> 'w \<Rightarrow>
    (string \<times> string option) \<times> http_event \<times> 'w" where
  "HttpRequest net dur meth url opts w =
     (let ro = http_options net opts; (x, w') = perform net False meth url ro w; (result, hs, err) = body_outcome x
      in ((result, err), Printed (printf_bare (HttpRequest_line net (body_log meth url ro (result, hs, err)) dur)), w'))"

definition HttpRequestCtx :: "('v, 'w) http_net \<Rightarrow> string \<Rightarrow> string \<Rightarrow> 'v HttpOption list \<Rightarrow> 'w \<Rightarrow>
    (string \<times> string option) \<times> http_event \<times> 'w" where
  "HttpRequestCtx net meth url opts w =
     (let ro = http_options net opts; (x, w') = perform net True meth url ro w; (result, hs, err) = body_outcome x;
          l = body_log meth url ro (result, hs, err)
      in ((result, err), if err = None then LogInfo l else LogErr l, w'))"

text \<open>The functions that hand the response to the caller: status, headers and the body, which is not read yet.\<close>

definition response_outcome ::
    "string + int \<times> header_map \<times> (string + string) \<Rightarrow> (int \<times> header_map \<times> (string + string)) option \<times> header_map \<times> string option" where
  "response_outcome x = (case x of Inl e \<Rightarrow> (None, [], Some e) | Inr (st, hs, b) \<Rightarrow> (Some (st, hs, b), hs, None))"

definition response_log :: "string \<Rightarrow> string \<Rightarrow> requestOption \<Rightarrow> header_map \<Rightarrow> string option \<Rightarrow> http_log" where
  "response_log meth url ro hs err =
     \<lparr>hl_method = meth, hl_url = url, hl_req_headers = None, hl_in = ro_data ro, hl_out = None, hl_resp_headers = hs,
      hl_err = err\<rparr>"

definition HTTPRequest :: "('v, 'w) http_net \<Rightarrow> string \<Rightarrow> string \<Rightarrow> 'v HttpOption list \<Rightarrow> 'w \<Rightarrow>
    ((int \<times> header_map \<times> (string + string)) option \<times> string option) \<times> http_event \<times> 'w" where
  "HTTPRequest net meth url opts w =
     (let ro = http_options net opts; (x, w') = perform net True meth url ro w; (resp, hs, err) = response_outcome x
      in ((resp, err), Printed (HTTPRequest_line net (response_log meth url ro hs err)), w'))"

definition HTTPRequestCtx :: "('v, 'w) http_net \<Rightarrow> string \<Rightarrow> string \<Rightarrow> 'v HttpOption list \<Rightarrow> 'w \<Rightarrow>
    ((int \<times> header_map \<times> (string + string)) option \<times> string option) \<times> http_event \<times> 'w" where
  "HTTPRequestCtx net meth url opts w =
     (let ro = http_options net opts; (x, w') = perform net True meth url ro w; (resp, hs, err) = response_outcome x;
          l = response_log meth url ro hs err
      in ((resp, err), if err = None then LogInfo l else LogErr l, w'))"

subsection \<open>Properties\<close>

text \<open>
  Every call sends one request, built from its options alone, and writes one log line.  The body is returned exactly
  when the request could be built, was answered and the body was read; the status of the answer has no influence, so an
  error page is returned as a result without an error.
\<close>

theorem http_body_ignores_status:
  "let ro = http_options net opts in
   (\<exists>ev w'. HttpRequestCtx net meth url opts w = ((body, None), ev, w')) \<longleftrightarrow>
     net_new net meth url = None \<and>
     (\<exists>st hs. fst (net_do net meth url (ro_headers ro) (ro_data ro) (ro_timeout ro) True w) = Inr (st, hs, Inr body))"
  by (auto simp: HttpRequestCtx_def perform_def body_outcome_def Let_def split: prod.splits sum.splits option.splits)

text \<open>
  Options are applied in order: a later value of a header replaces an earlier one and leaves the others, data and
  timeout are those of the last option that sets them.
\<close>

theorem later_options_win:
  "map_of (ro_headers (http_options net (opts @ [WithHeaders [(k, v)]]))) k' =
     (if k' = k then Some v else map_of (ro_headers (http_options net opts)) k') \<and>
   ro_data (http_options net (opts @ [WithJsonData s, WithHeaders hs])) = s \<and>
   ro_timeout (http_options net (opts @ [WithTimeout t, WithJsonData s])) = t"
proof -
  have "map_of (filter (\<lambda>q. fst q \<noteq> k) xs) k' = map_of xs k'" if "k' \<noteq> k" for xs :: header_map
    using that by (induction xs) auto
  then show ?thesis by (simp add: http_options_def put_header_def)
qed

text \<open>
  The log line of the plain function is formatted twice.  A line without a percent sign is printed as it is; from the
  first percent sign on it is garbled: an escaped slash in a URL, for instance, is printed as a missing verb.
\<close>

theorem log_line_formatted_twice:
  assumes "CHR ''%'' \<notin> set pre"
  shows "printf_bare pre = pre \<and> printf_bare (pre @ ''%2F'' @ post) = pre @ ''%!F(MISSING)'' @ printf_bare post \<and>
    printf_bare (pre @ ''%2F'' @ post) \<noteq> pre @ ''%2F'' @ post"
proof -
  have "after_flags (''2F'' @ post) = CHR ''F'' # post"
    by (simp add: after_flags_def skip_number_def is_flag_def is_digit_code)
  then have "printf_bare (''%2F'' @ post) = ''%!F(MISSING)'' @ printf_bare post" by simp
  then show ?thesis
    using printf_bare_plain [OF assms, of "[]"] printf_bare_plain [OF assms, of "''%2F'' @ post"] by simp
qed

definition demo_net :: "(unit, nat) http_net" where
  "demo_net = \<lparr>net_marshal = (\<lambda>_. Inl ''no''), net_new = (\<lambda>m u. None), net_show = (\<lambda>_. ''map[]''),
     net_do = (\<lambda>m u hs d t r n. (Inr (500, [], Inr ''oops''), Suc n))\<rparr>"

theorem log_line_formatted_twice_witness:
  "printf_bare (''http:GET, url:http://h/a'' @ ''%2F'' @ ''b'') = ''http:GET, url:http://h/a%!F(MISSING)b''"
  using log_line_formatted_twice [of "''http:GET, url:http://h/a''" "''b''"] by simp

end
