(* ===== verification/Serialize.thy ===== *)
theory Serialize
  imports GoBase
begin

text \<open>
  Serialization with compression (\<^verbatim>\<open>pkg/compression\<close>, \<^verbatim>\<open>pkg/serialization\<close> and their \<^verbatim>\<open>impl\<close> packages): the two registries,
  the gzip codec, and the two serializers.  The gzip library and the JSON libraries are records of functions; a
  registry is the content of its \<^verbatim>\<open>sync.Map\<close>, filled by the \<^verbatim>\<open>init\<close> functions of the packages a program imports.
\<close>

subsection \<open>Compression\<close>

text \<open>Data are byte strings; a nil slice reads as the empty one.\<close>

record Compression =
  co_Compress :: "string \<Rightarrow> string + string"
  co_Decompress :: "string \<Rightarrow> string + string"

type_synonym compressions = "(string \<times> Compression) list"

definition RegisterCompression :: "string \<Rightarrow> Compression \<Rightarrow> compressions \<Rightarrow> compressions" where
  "RegisterCompression compressionType c m = (compressionType, c) # filter (\<lambda>p. fst p \<noteq> compressionType) m"

definition GetCompression :: "string \<Rightarrow> compressions \<Rightarrow> Compression option" where
  "GetCompression compressionType m = map_of m compressionType"

text \<open>The gzip library: writing, closing (which completes the data), opening a reader, and reading to the end.\<close>

record gzip_lib =
  gz_write :: "string \<Rightarrow> string option"
  gz_close :: "string \<Rightarrow> string + string"
  gz_open :: "string \<Rightarrow> string option"
  gz_read :: "string \<Rightarrow> string + string"

definition GzipX_Compress :: "gzip_lib \<Rightarrow> string \<Rightarrow> string + string" where
  "GzipX_Compress gz data = (case gz_write gz data of Some e \<Rightarrow> Inl e | None \<Rightarrow> gz_close gz data)"

definition GzipX_Decompress :: "gzip_lib \<Rightarrow> string \<Rightarrow> string + string" where
  "GzipX_Decompress gz data = (case gz_open gz data of Some e \<Rightarrow> Inl e | None \<Rightarrow> gz_read gz data)"

definition GzipX :: "gzip_lib \<Rightarrow> Compression" where
  "GzipX gz = \<lparr>co_Compress = GzipX_Compress gz, co_Decompress = GzipX_Decompress gz\<rparr>"

definition compression_impl_init :: "gzip_lib \<Rightarrow> compressions \<Rightarrow> compressions" where
  "compression_impl_init gz m = RegisterCompression ''gzip'' (GzipX gz) m"

subsection \<open>Serialization\<close>

text \<open>A JSON library; \<open>js_decode\<close> stands for \<^verbatim>\<open>Unmarshal\<close> into a value of the type at hand.\<close>

record 'v json_lib =
  js_encode :: "'v \<Rightarrow> string + string"
  js_decode :: "string \<Rightarrow> string + 'v"

text \<open>\<^verbatim>\<open>JsonX\<close> and \<^verbatim>\<open>SonicX\<close> have the same bodies over different libraries and names.\<close>

datatype serializer = JsonX | SonicX

definition serializer_name :: "serializer \<Rightarrow> string" where
  "serializer_name s = (case s of JsonX \<Rightarrow> ''JsonX'' | SonicX \<Rightarrow> ''SonicX'')"

definition X_Marshal :: "'v json_lib \<Rightarrow> 'v \<Rightarrow> string + string" where
  "X_Marshal js v = js_encode js v"

definition X_Unmarshal :: "'v json_lib \<Rightarrow> string \<Rightarrow> string + 'v" where
  "X_Unmarshal js data = js_decode js data"

definition X_MarshalAndCompression :: "serializer \<Rightarrow> 'v json_lib \<Rightarrow> compressions \<Rightarrow> 'v \<Rightarrow> string + string" where
  "X_MarshalAndCompression s js m v =
     (case js_encode js v of
        Inl e \<Rightarrow> Inl e
      | Inr marshal \<Rightarrow>
          (case GetCompression ''gzip'' m of
             None \<Rightarrow> Inl (serializer_name s @ '' no compression found'')
           | Some c \<Rightarrow> co_Compress c marshal))"

text \<open>The error of \<^verbatim>\<open>Decompress\<close> is dropped; it returns nil data then.\<close>

definition X_UnmarshalAndCompression :: "serializer \<Rightarrow> 'v json_lib \<Rightarrow> compressions \<Rightarrow> string \<Rightarrow> string + 'v" where
  "X_UnmarshalAndCompression s js m data =
     (case GetCompression ''gzip'' m of
        None \<Rightarrow> Inl (serializer_name s @ '' no compression found'')
      | Some c \<Rightarrow> js_decode js (case co_Decompress c data of Inl e \<Rightarrow> '''' | Inr d \<Rightarrow> d))"

type_synonym serializations = "(string \<times> serializer) list"

definition RegisterSerialization :: "string \<Rightarrow> serializer \<Rightarrow> serializations \<Rightarrow> serializations" where
  "RegisterSerialization serializationType s m = (serializationType, s) # filter (\<lambda>p. fst p \<noteq> serializationType) m"

definition GetSerialization :: "string \<Rightarrow> serializations \<Rightarrow> serializer option" where
  "GetSerialization serializationType m = map_of m serializationType"

definition serialization_impl_init :: "serializations \<Rightarrow> serializations" where
  "serialization_impl_init m = RegisterSerialization ''sonic'' SonicX (RegisterSerialization ''json'' JsonX m)"

subsection \<open>The contract of a codec\<close>

text \<open>What a client of a lossy step needs: decoding gives back what was encoded.\<close>

locale codec =
  fixes enc :: "'a \<Rightarrow> string + 'b" and dec :: "'b \<Rightarrow> string + 'a"
  assumes dec_enc: "enc x = Inr y \<Longrightarrow> dec y = Inr x"
begin

lemma enc_inj: "enc x = Inr y \<Longrightarrow> enc x' = Inr y \<Longrightarrow> x = x'"
  using dec_enc [of x y] dec_enc [of x' y] by simp

end

text \<open>The gzip library: a reader opens and reads what the writer completed.\<close>

locale gzip_laws =
  fixes gz :: gzip_lib
  assumes open_closed: "gz_close gz d = Inr z \<Longrightarrow> gz_open gz z = None"
    and read_closed: "gz_close gz d = Inr z \<Longrightarrow> gz_read gz z = Inr d"

sublocale gzip_laws \<subseteq> gzip: codec "GzipX_Compress gz" "GzipX_Decompress gz"
  by unfold_locales
    (auto simp: GzipX_Compress_def GzipX_Decompress_def open_closed read_closed split: option.splits)

context gzip_laws
begin

lemma decompress_compress: "GzipX_Compress gz d = Inr z \<Longrightarrow> GzipX_Decompress gz z = Inr d"
  by (rule gzip.dec_enc)

end

text \<open>A library that stores data with a mark in front.\<close>

definition mem_gzip :: gzip_lib where
  "mem_gzip = \<lparr>gz_write = (\<lambda>d. None), gz_close = (\<lambda>d. Inr (''z'' @ d)),
     gz_open = (\<lambda>z. if has_prefix z ''z'' then None else Some ''gzip: invalid header''), gz_read = (\<lambda>z. Inr (tl z))\<rparr>"

interpretation mem_gzip: gzip_laws mem_gzip
  by unfold_locales (auto simp: mem_gzip_def has_prefix_def)

subsection \<open>Properties\<close>

lemma map_of_remove: "n' \<noteq> n \<Longrightarrow> map_of (filter (\<lambda>p. fst p \<noteq> n) xs) n' = map_of xs n'"
  by (induction xs) auto

lemma get_registered: "GetCompression ''gzip'' (compression_impl_init gz m) = Some (GzipX gz)"
  by (simp add: GetCompression_def compression_impl_init_def RegisterCompression_def)

text \<open>
  Compressed serialization gives values back: whatever else is registered, once the gzip codec is, what
  \<^verbatim>\<open>MarshalAndCompression\<close> returns is turned back into the value by \<^verbatim>\<open>UnmarshalAndCompression\<close>, of either serializer over the
  same JSON library, when the gzip library reads back what it wrote and the JSON library what it encoded.
\<close>

theorem compressed_round_trip:
  assumes "gzip_laws gz" and "codec (js_encode js) (js_decode js)"
    and "X_MarshalAndCompression s js (compression_impl_init gz m) v = Inr d"
  shows "X_UnmarshalAndCompression s' js (compression_impl_init gz m') d = Inr v"
proof -
  obtain b where b: "js_encode js v = Inr b" "GzipX_Compress gz b = Inr d"
    using assms(3) by (auto simp: X_MarshalAndCompression_def get_registered GzipX_def split: sum.splits)
  have "GzipX_Decompress gz d = Inr b" by (rule gzip_laws.decompress_compress [OF assms(1) b(2)])
  then show ?thesis
    using codec.dec_enc [OF assms(2) b(1)] by (simp add: X_UnmarshalAndCompression_def get_registered GzipX_def)
qed

definition demo_json :: "string json_lib" where
  "demo_json = \<lparr>js_encode = (\<lambda>v. Inr (''\"'' @ v)),
     js_decode = (\<lambda>d. if d = '''' then Inl ''unexpected end of JSON input'' else Inr (tl d))\<rparr>"

interpretation demo_json: codec "js_encode demo_json" "js_decode demo_json"
  by unfold_locales (auto simp: demo_json_def)

theorem compressed_round_trip_witness:
  "X_UnmarshalAndCompression SonicX demo_json (compression_impl_init mem_gzip []) ''z\"abc'' = Inr ''abc''"
proof -
  have "X_MarshalAndCompression JsonX demo_json (compression_impl_init mem_gzip []) ''abc'' = Inr ''z\"abc''"
    by (simp add: X_MarshalAndCompression_def get_registered GzipX_def GzipX_Compress_def mem_gzip_def demo_json_def)
  from compressed_round_trip [OF mem_gzip.gzip_laws_axioms demo_json.codec_axioms this, of SonicX "[]"]
  show ?thesis .
qed

text \<open>
  What goes wrong.  Without the import that registers gzip, no value can be serialized or read; and data that gzip
  rejects, for whatever reason, are answered with what the JSON library says of empty input, so that the cause is lost.
\<close>

theorem compression_failures:
  assumes "js_encode js v = Inr b" and "GzipX_Decompress gz d = Inl e"
  shows "X_MarshalAndCompression s js [] v = Inl (serializer_name s @ '' no compression found'') \<and>
    X_UnmarshalAndCompression s js [] d = Inl (serializer_name s @ '' no compression found'') \<and>
    X_UnmarshalAndCompression s js (compression_impl_init gz m) d = js_decode js ''''"
proof -
  have none: "GetCompression ''gzip'' [] = None" by (simp add: GetCompression_def)
  show ?thesis
    using assms by (simp add: X_MarshalAndCompression_def X_UnmarshalAndCompression_def get_registered GzipX_def none)
qed

theorem compression_failures_witness:
  "X_UnmarshalAndCompression JsonX demo_json (compression_impl_init mem_gzip []) ''damaged'' =
     Inl ''unexpected end of JSON input''"
proof -
  have "GzipX_Decompress mem_gzip ''damaged'' = Inl ''gzip: invalid header''"
    by (simp add: GzipX_Decompress_def mem_gzip_def has_prefix_def)
  moreover have "js_encode demo_json ''v'' = Inr ''\"v''" by (simp add: demo_json_def)
  ultimately show ?thesis
    using compression_failures [of demo_json "''v''" "''\"v''" mem_gzip "''damaged''" _ JsonX "[]"] by (simp add: demo_json_def)
qed

text \<open>C0. The registries hand out what was registered last under a name, and nothing else changes.\<close>

theorem registries_exact:
  "GetCompression n' (RegisterCompression n c m) = (if n' = n then Some c else GetCompression n' m) \<and>
   GetSerialization n' (RegisterSerialization n s k) = (if n' = n then Some s else GetSerialization n' k) \<and>
   GetSerialization ''json'' (serialization_impl_init k) = Some JsonX \<and>
   GetSerialization ''sonic'' (serialization_impl_init k) = Some SonicX"
  by (simp add: GetCompression_def RegisterCompression_def GetSerialization_def RegisterSerialization_def
      serialization_impl_init_def map_of_remove)

end
