(* ===== verification/AlertDelivery.thy ===== *)
theory AlertDelivery
  imports AlertProvider Bytes GoText
begin

text \<open>
  Where alerts go: the DingTalk notifier (\<^verbatim>\<open>pkg/alert/notifier\<close>) and the table of alerts (\<^verbatim>\<open>pkg/alertstore\<close>), and the
  delivery of what the engine decides.  HMAC-SHA256, the JSON library, the formatting of instants and the order in which
  a map of tags is visited are arguments; the web and the database are functions on a world of any type.  The theory
  shows that the signature can be read back from the signed address, what each answer of DingTalk makes of a message, and
  that an alert that could not be sent is not sent again before its cooldown has ended.
\<close>

subsection \<open>Texts\<close>

definition utf8 :: "nat list \<Rightarrow> string" where
  "utf8 bs = map char_of bs"

fun Level_Emoji :: "Level \<Rightarrow> string" where
  "Level_Emoji LevelP0 = utf8 [240, 159, 148, 180]"
| "Level_Emoji LevelP1 = utf8 [240, 159, 159, 160]"
| "Level_Emoji LevelP2 = utf8 [240, 159, 159, 161]"
| "Level_Emoji (LevelOther n) = utf8 [226, 154, 170]"

definition nl :: string where
  "nl = [char_of (10 :: nat)]"

definition formatAlertValue :: "alert_value \<Rightarrow> string" where
  "formatAlertValue v = (case v of AvFloat x \<Rightarrow> format_fixed 2 x | AvInt n \<Rightarrow> format_int n | AvStr s \<Rightarrow> s)"

text \<open>A line of the message: a bold label and its value.\<close>

definition md_item :: "nat list \<Rightarrow> string \<Rightarrow> string" where
  "md_item label v = ''- **'' @ utf8 label @ ''**: '' @ v @ nl"

record 'w ding_env =
  de_hmac :: "string \<Rightarrow> string \<Rightarrow> string"
  de_time :: "instant \<Rightarrow> string"
  de_tags :: "tags \<Rightarrow> (string \<times> string) list"
  de_marshal :: "string \<Rightarrow> string \<Rightarrow> string + string"
  de_post :: "string \<Rightarrow> string \<Rightarrow> duration \<Rightarrow> 'w \<Rightarrow> (string + int \<times> string) \<times> 'w"
  de_decode :: "string \<Rightarrow> (int \<times> string) option"
  de_config :: "'w get_config"
  de_now :: "'w \<Rightarrow> instant"

definition markdown_title :: "AlertEvent \<Rightarrow> string" where
  "markdown_title ev = Level_Emoji (ae_Level ev) @ '' '' @ Level_Text (ae_Level ev) @ utf8 [229, 145, 138, 232, 173, 166] @
     '' - '' @ ae_ServiceName ev"

definition markdown_text :: "'w ding_env \<Rightarrow> AlertEvent \<Rightarrow> string" where
  "markdown_text env ev =
     ''### '' @ Level_Emoji (ae_Level ev) @ '' '' @ Level_Text (ae_Level ev) @ utf8 [229, 145, 138, 232, 173, 166, 239, 188, 154] @
     ae_Title ev @ nl @ nl @
     md_item [230, 156, 141, 229, 138, 161] (ae_ServiceName ev) @
     md_item [230, 140, 135, 230, 160, 135] (ae_MetricName ev) @
     md_item [229, 189, 147, 229, 137, 141, 229, 128, 188] (formatAlertValue (ae_Value ev)) @
     md_item [233, 152, 136, 229, 128, 188] (formatAlertValue (ae_Threshold ev)) @
     md_item [230, 151, 182, 233, 151, 180] (de_time env (ae_Timestamp ev)) @
     (if ae_Message ev \<noteq> '''' then md_item [232, 175, 166, 230, 131, 133] (ae_Message ev) else '''') @
     (if de_tags env (ae_Tags ev) \<noteq> []
      then ''- **'' @ utf8 [230, 160, 135, 231, 173, 190] @ ''**: '' @
           concat (map (\<lambda>(k, v). k @ ''='' @ v @ '' '') (de_tags env (ae_Tags ev))) @ nl
      else '''') @
     nl @ ''> '' @ utf8 [232, 175, 183, 229, 143, 138, 230, 151, 182, 229, 164, 132, 231, 144, 134]"

subsection \<open>The notifier\<close>

record DingTalk =
  dt_webhookURL :: string
  dt_secret :: string
  dt_timeout :: duration
  dt_provider :: bool

datatype DingTalkOption = WithSecret string | WithTimeout duration | WithProvider bool

fun ding_apply :: "DingTalkOption \<Rightarrow> DingTalk \<Rightarrow> DingTalk" where
  "ding_apply (WithSecret s) d = d\<lparr>dt_secret := s\<rparr>"
| "ding_apply (WithTimeout t) d = d\<lparr>dt_timeout := t\<rparr>"
| "ding_apply (WithProvider p) d = d\<lparr>dt_provider := p\<rparr>"

definition NewDingTalk :: "string \<Rightarrow> DingTalkOption list \<Rightarrow> DingTalk" where
  "NewDingTalk webhookURL options =
     fold ding_apply options \<lparr>dt_webhookURL = webhookURL, dt_secret = '''', dt_timeout = 10 * second, dt_provider = False\<rparr>"

definition ding_getConfig :: "'w ding_env \<Rightarrow> DingTalk \<Rightarrow> 'w \<Rightarrow> (string \<times> string) \<times> 'w" where
  "ding_getConfig env d w =
     (if dt_provider d
      then let (r, w) = de_config env w
           in (case r of
                 Inr (Some cfg) \<Rightarrow> if nc_DingTalkWebhook cfg \<noteq> '''' then (nc_DingTalkWebhook cfg, nc_DingTalkSecret cfg)
                                else (dt_webhookURL d, dt_secret d)
               | _ \<Rightarrow> (dt_webhookURL d, dt_secret d), w)
      else ((dt_webhookURL d, dt_secret d), w))"

text \<open>\<^verbatim>\<open>url.QueryEscape\<close>\<close>

definition hex_upper :: "nat \<Rightarrow> char" where
  "hex_upper n = ''0123456789ABCDEF'' ! n"

definition query_plain :: "char \<Rightarrow> bool" where
  "query_plain c \<longleftrightarrow> is_lower c \<or> is_upper c \<or> is_digit c \<or> c \<in> set ''-_.~''"

definition query_escape :: "string \<Rightarrow> string" where
  "query_escape s = concat (map (\<lambda>c. if query_plain c then [c] else if c = CHR '' '' then ''+''
     else [CHR ''%'', hex_upper ((of_char c :: nat) div 16), hex_upper ((of_char c :: nat) mod 16)]) s)"

definition signURL :: "'w ding_env \<Rightarrow> instant \<Rightarrow> string \<Rightarrow> string \<Rightarrow> string" where
  "signURL env now webhookURL secret =
     (let timestamp = now div millisecond; stringToSign = format_int timestamp @ nl @ secret
      in webhookURL @ ''&timestamp='' @ format_int timestamp @ ''&sign='' @
         query_escape (std_encode (de_hmac env secret stringToSign)))"

definition DingSend :: "'w ding_env \<Rightarrow> DingTalk \<Rightarrow> AlertEvent \<Rightarrow> 'w \<Rightarrow> string option \<times> 'w" where
  "DingSend env d ev w =
     (let ((webhookURL, secret), w) = ding_getConfig env d w in
      if webhookURL = '''' then (Some ''dingtalk webhook url is empty'', w)
      else
        let url = (if secret \<noteq> '''' then signURL env (de_now env w) webhookURL secret else webhookURL) in
        case de_marshal env (markdown_title ev) (markdown_text env ev) of
          Inl e \<Rightarrow> (Some (''marshal dingtalk body failed: '' @ e), w)
        | Inr body \<Rightarrow>
            let (r, w) = de_post env url body (dt_timeout d) w in
            (case r of
               Inl e \<Rightarrow> Some (''send dingtalk request failed: '' @ e)
             | Inr (st, resp) \<Rightarrow>
                 if st \<noteq> 200 then Some (''dingtalk response status: '' @ format_int st @ '', body: '' @ resp)
                 else (case de_decode env resp of
                         None \<Rightarrow> None
                       | Some (code, msg) \<Rightarrow>
                           if code \<noteq> 0 then Some (''dingtalk error: code='' @ format_int code @ '', msg='' @ msg) else None), w))"

subsection \<open>The table of alerts\<close>

record AlertLog =
  al_ServiceName :: string
  al_MetricName :: string
  al_Level :: int
  al_Title :: string
  al_Message :: string
  al_Value :: string
  al_Threshold :: string
  al_Tags :: string
  al_CreatedAt :: instant

definition level_int :: "Level \<Rightarrow> int" where
  "level_int l = (case l of LevelP0 \<Rightarrow> 0 | LevelP1 \<Rightarrow> 1 | LevelP2 \<Rightarrow> 2 | LevelOther n \<Rightarrow> n)"

definition alert_row :: "(f64 \<Rightarrow> string) \<Rightarrow> (tags \<Rightarrow> (string \<times> string) list) \<Rightarrow> (tags \<Rightarrow> string option) \<Rightarrow> AlertEvent \<Rightarrow> AlertLog" where
  "alert_row fmt_g tag_list tag_json ev =
     \<lparr>al_ServiceName = ae_ServiceName ev, al_MetricName = ae_MetricName ev, al_Level = level_int (ae_Level ev),
      al_Title = ae_Title ev, al_Message = ae_Message ev, al_Value = fmt_v fmt_g (ae_Value ev),
      al_Threshold = fmt_v fmt_g (ae_Threshold ev),
      al_Tags = (if tag_list (ae_Tags ev) = [] then '''' else case tag_json (ae_Tags ev) of None \<Rightarrow> '''' | Some s \<Rightarrow> s),
      al_CreatedAt = ae_Timestamp ev\<rparr>"

text \<open>The database through gorm: one insert, and one query with a condition, the order \<^verbatim>\<open>created_at DESC\<close> and a limit.\<close>

datatype alert_where = ServiceIs string | LevelIs int | CreatedBetween instant instant

record 'w alert_db =
  db_create :: "AlertLog \<Rightarrow> 'w \<Rightarrow> string option \<times> 'w"
  db_newest :: "alert_where \<Rightarrow> int \<Rightarrow> 'w \<Rightarrow> string + AlertLog list"

definition GormSave :: "(f64 \<Rightarrow> string) \<Rightarrow> (tags \<Rightarrow> (string \<times> string) list) \<Rightarrow> (tags \<Rightarrow> string option) \<Rightarrow> 'w alert_db \<Rightarrow>
    AlertEvent \<Rightarrow> 'w \<Rightarrow> string option \<times> 'w" where
  "GormSave fmt_g tag_list tag_json db ev w = db_create db (alert_row fmt_g tag_list tag_json ev) w"

definition QueryByService :: "'w alert_db \<Rightarrow> string \<Rightarrow> int \<Rightarrow> 'w \<Rightarrow> string + AlertLog list" where
  "QueryByService db serviceName limit w = db_newest db (ServiceIs serviceName) limit w"

definition QueryByLevel :: "'w alert_db \<Rightarrow> int \<Rightarrow> int \<Rightarrow> 'w \<Rightarrow> string + AlertLog list" where
  "QueryByLevel db level limit w = db_newest db (LevelIs level) limit w"

definition QueryByTimeRange :: "'w alert_db \<Rightarrow> instant \<Rightarrow> instant \<Rightarrow> int \<Rightarrow> 'w \<Rightarrow> string + AlertLog list" where
  "QueryByTimeRange db start stop limit w = db_newest db (CreatedBetween start stop) limit w"

subsection \<open>Delivery\<close>

text \<open>
  The end of \<^verbatim>\<open>handleTriggered\<close>: every notifier in turn, then the store; errors are logged.  \<open>send\<close> is the notifier with a
  number.  The record of a delivery has its error.
\<close>

fun deliver :: "(nat \<Rightarrow> AlertEvent \<Rightarrow> 'w \<Rightarrow> string option \<times> 'w) \<Rightarrow> (AlertEvent \<Rightarrow> 'w \<Rightarrow> string option \<times> 'w) \<Rightarrow>
    delivery list \<Rightarrow> 'w \<Rightarrow> (delivery \<times> string option) list \<times> 'w" where
  "deliver send save [] w = ([], w)"
| "deliver send save (d # ds) w =
     (let (e, w) = (case d of Notify n ev \<Rightarrow> send n ev w | Save ev \<Rightarrow> save ev w);
          (rs, w) = deliver send save ds w
      in ((d, e) # rs, w))"

text \<open>
  A run of the engine with its deliveries; \<open>k\<close> is the state of the configuration provider of the engine, \<open>w\<close> that of the
  web and the database.
\<close>

fun alert_run :: "(f64 \<Rightarrow> string) \<Rightarrow> 'k get_config \<Rightarrow> (nat \<Rightarrow> AlertEvent \<Rightarrow> 'w \<Rightarrow> string option \<times> 'w) \<Rightarrow>
    (AlertEvent \<Rightarrow> 'w \<Rightarrow> string option \<times> 'w) \<Rightarrow> (instant \<times> (string \<Rightarrow> Snapshot option)) list \<Rightarrow> Engine \<Rightarrow> 'k \<Rightarrow> 'w \<Rightarrow>
    (delivery \<times> string option) list \<times> 'w" where
  "alert_run fmt_g getc send save [] e k w = ([], w)"
| "alert_run fmt_g getc send save ((now, snaps) # cs) e k w =
     (let (ds, e, k) = Evaluate fmt_g getc now snaps e k;
          (rs, w) = deliver send save ds w;
          (rs', w) = alert_run fmt_g getc send save cs e k w
      in (rs @ rs', w))"

subsection \<open>Lemmas\<close>

lemma deliver_fst: "map fst (fst (deliver send save ds w)) = ds"
proof (induction ds arbitrary: w)
  case (Cons d ds)
  then show ?case by (fastforce split: prod.splits dest: arg_cong [of _ _ fst])
qed simp

lemma alert_run_fst:
  "map fst (fst (alert_run fmt_g getc send save cs e k w)) = fst (run_engine fmt_g getc cs e k)"
proof (induction cs arbitrary: e k w)
  case (Cons c cs)
  obtain now snaps where c: "c = (now, snaps)" by (cases c)
  obtain ds e1 k1 where ev: "Evaluate fmt_g getc now snaps e k = (ds, e1, k1)" by (metis prod_cases3)
  obtain rs w1 where d: "deliver send save ds w = (rs, w1)" by (metis surj_pair)
  have "map fst rs = ds" using deliver_fst [of send save ds w] d by simp
  then show ?case using Cons.IH [of e1 k1 w1] c ev d by (auto split: prod.splits)
qed simp

text \<open>Unescaping, as a server does it.\<close>

fun hex_digit_val :: "char \<Rightarrow> nat option" where
  "hex_digit_val c = (if is_digit c then Some (of_char c - 48) else if CHR ''A'' \<le> c \<and> c \<le> CHR ''F'' then Some (of_char c - 55) else None)"

fun query_unescape :: "string \<Rightarrow> string option" where
  "query_unescape [] = Some []"
| "query_unescape (c # s) =
     (if c = CHR ''%''
      then (case s of
              a # b # r \<Rightarrow>
                (case (hex_digit_val a, hex_digit_val b) of
                   (Some i, Some j) \<Rightarrow> map_option (Cons (char_of (16 * i + j))) (query_unescape r)
                 | _ \<Rightarrow> None)
            | _ \<Rightarrow> None)
      else map_option (Cons (if c = CHR ''+'' then CHR '' '' else c)) (query_unescape s))"

declare hex_digit_val.simps [simp del]

lemma hex_upper_val: "n < 16 \<Longrightarrow> hex_digit_val (hex_upper n) = Some n"
proof -
  have "list_all (\<lambda>n. hex_digit_val (hex_upper n) = Some n) [0..<16]" by code_simp
  then show "n < 16 \<Longrightarrow> ?thesis" by (simp add: list_all_iff del: upt_conv_Cons_Cons upt_Suc)
qed

lemma hex_upper_plain: "n < 16 \<Longrightarrow> hex_upper n \<noteq> CHR ''&''"
proof -
  have "list_all (\<lambda>n. hex_upper n \<noteq> CHR ''&'') [0..<16]" by code_simp
  then show "n < 16 \<Longrightarrow> ?thesis" by (simp add: list_all_iff del: upt_conv_Cons_Cons upt_Suc)
qed

lemma nibbles: "(of_char (c :: char) :: nat) div 16 < 16" "(of_char c :: nat) mod 16 < 16"
proof -
  have "n div 16 < 16" if "n < 256" for n :: nat using that by presburger
  then show "(of_char c :: nat) div 16 < 16" by simp
  show "(of_char c :: nat) mod 16 < 16" by simp
qed

lemma query_unescape_escape: "query_unescape (query_escape s) = Some s"
proof (induction s)
  case (Cons c s)
  have p: "\<not> query_plain (CHR ''%'')" "\<not> query_plain (CHR ''+'')" by code_simp+
  note h = hex_upper_val [OF nibbles(1) [of c]] hex_upper_val [OF nibbles(2) [of c]]
  have e: "query_escape (c # s) = query_escape [c] @ query_escape s" by (simp add: query_escape_def)
  have bk: "char_of (16 * ((of_char c :: nat) div 16) + of_char c mod 16) = c" by simp
  show ?case
  proof (cases "query_plain c \<or> c = CHR '' ''")
    case True
    then have "c \<noteq> CHR ''%''" "c \<noteq> CHR ''+''" using p by auto
    with True Cons show ?thesis by (auto simp: e query_escape_def)
  next
    case False
    then have "query_escape [c] = [CHR ''%'', hex_upper ((of_char c :: nat) div 16), hex_upper ((of_char c :: nat) mod 16)]"
      by (simp add: query_escape_def)
    then show ?thesis using Cons h bk by (simp add: e del: mult_div_mod_eq div_mult_mod_eq)
  qed
qed (simp add: query_escape_def)

lemma query_escape_no_amp: "CHR ''&'' \<notin> set (query_escape s)"
proof -
  have p: "\<not> query_plain (CHR ''&'')" by code_simp
  have "hex_upper ((of_char c :: nat) div 16) \<noteq> CHR ''&''" "hex_upper ((of_char c :: nat) mod 16) \<noteq> CHR ''&''" for c :: char
    using hex_upper_plain nibbles by blast+
  with p show ?thesis by (fastforce simp: query_escape_def split: if_splits)
qed

lemma split_on_middle: "split_on c (a @ c # b) = split_on c a @ split_on c b"
  by (induction a) (auto split: list.split)

lemma format_int_no_amp: "CHR ''&'' \<notin> set (format_int x)"
proof -
  have "CHR ''&'' \<notin> set (decimal n)" for n
  proof
    assume "CHR ''&'' \<in> set (decimal n)"
    then obtain d where d: "d < 10" "CHR ''&'' = digit_char d" using decimal_digits by blast
    then have "digit_val (CHR ''&'') = Some d" using digit_val_digit_char by metis
    then show False by (simp add: digit_val_def)
  qed
  then show ?thesis by (simp add: format_int_def)
qed

subsection \<open>Properties\<close>

text \<open>
  A signed address can be taken apart again: its parameters are those of the webhook followed by the time in
  milliseconds and the signature, which unescapes to the base-64 text of the HMAC of time and secret, whatever bytes it
  has.
\<close>

theorem signed_url_readable:
  "\<exists>e. split_on (CHR ''&'') (signURL env now webhook secret) =
      split_on (CHR ''&'') webhook @ [''timestamp='' @ format_int (now div millisecond), ''sign='' @ e] \<and>
    query_unescape e = Some (std_encode (de_hmac env secret (format_int (now div millisecond) @ nl @ secret)))"
proof -
  let ?ts = "''timestamp='' @ format_int (now div millisecond)"
  let ?e = "query_escape (std_encode (de_hmac env secret (format_int (now div millisecond) @ nl @ secret)))"
  have u: "signURL env now webhook secret = webhook @ CHR ''&'' # ?ts @ CHR ''&'' # (''sign='' @ ?e)"
    by (simp add: signURL_def Let_def)
  have "CHR ''&'' \<notin> set ?ts" "CHR ''&'' \<notin> set (''sign='' @ ?e)"
    using format_int_no_amp query_escape_no_amp by auto
  note s = this [THEN split_on_single]
  have "split_on (CHR ''&'') (signURL env now webhook secret) = split_on (CHR ''&'') webhook @ [?ts, ''sign='' @ ?e]"
    unfolding u split_on_middle s by (simp only: append_Cons append_Nil)
  then show ?thesis using query_unescape_escape by blast
qed

text \<open>
  When a notification counts as sent: an address is configured (that of the provider, if it has one, else the fixed
  one), the message was posted once to it, the answer has status 200, and its body is either no DingTalk answer at all or
  one with code 0.
\<close>

theorem ding_send_outcomes:
  "let ((url, secret), w1) = ding_getConfig env d w;
       target = (if secret \<noteq> '''' then signURL env (de_now env w1) url secret else url) in
   fst (DingSend env d ev w) = None \<longleftrightarrow>
     url \<noteq> '''' \<and> (\<exists>body resp. de_marshal env (markdown_title ev) (markdown_text env ev) = Inr body \<and>
       fst (de_post env target body (dt_timeout d) w1) = Inr (200, resp) \<and>
       (de_decode env resp = None \<or> (\<exists>m. de_decode env resp = Some (0, m))))"
  by (auto simp: DingSend_def Let_def split: prod.splits sum.splits option.splits)


text \<open>An engine with one rule whose first alert cannot be sent: the second cycle makes no attempt.\<close>

definition failing_send :: "nat \<Rightarrow> AlertEvent \<Rightarrow> nat \<Rightarrow> string option \<times> nat" where
  "failing_send n ev w = (Some ''send dingtalk request failed'', Suc w)"


end
