(* ===== verification/RedisHealth.thy ===== *)
theory RedisHealth
  imports ReleaseCheck
begin

text \<open>
  Heartbeats on Redis and the fingerprint of a build (\<^verbatim>\<open>pkg/health/redishealth\<close>, \<^verbatim>\<open>pkg/buildinfo\<close>).  The go-redis client is
  a record of calls over any world, with the documented effects of the commands as laws.  The theory puts three parts
  together: the reporter that \<^verbatim>\<open>Start\<close> sets up, the reader, and the check after a release.  It shows that the check tells
  exactly whether the program that was started is the released one, and how meta data of the caller deceive it.
\<close>

subsection \<open>The fingerprint\<close>

text \<open>The variables that the linker sets.\<close>

record buildinfo =
  bi_GitCommit :: string
  bi_BuildTime :: string
  bi_Version :: string

definition unknown_build :: buildinfo where
  "unknown_build = \<lparr>bi_GitCommit = ''unknown'', bi_BuildTime = ''unknown'', bi_Version = ''dev''\<rparr>"

definition BuildID :: "buildinfo \<Rightarrow> string" where
  "BuildID b = bi_GitCommit b @ ''@'' @ bi_BuildTime b"

definition build_summary :: "buildinfo \<Rightarrow> string" where
  "build_summary b = ''version='' @ bi_Version b @ '' commit='' @ bi_GitCommit b @ '' buildTime='' @ bi_BuildTime b"

subsection \<open>The store on Redis\<close>

text \<open>
  The client.  Of the replies of the writing commands only the error is read.  A member of a reply is an interface value;
  \<open>None\<close> is one that is not a string.
\<close>

record 'w redis_client =
  rz_ZAdd :: "string \<Rightarrow> int \<Rightarrow> string \<Rightarrow> 'w \<Rightarrow> string option \<times> 'w"
  rz_ZRemRangeByScore :: "string \<Rightarrow> int \<Rightarrow> 'w \<Rightarrow> string option \<times> 'w"
  rz_ZRem :: "string \<Rightarrow> string \<Rightarrow> 'w \<Rightarrow> string option \<times> 'w"
  rz_ZCount :: "string \<Rightarrow> int \<Rightarrow> 'w \<Rightarrow> string + int"
  rz_ZCard :: "string \<Rightarrow> 'w \<Rightarrow> string + int"
  rz_HSet :: "string \<Rightarrow> string \<Rightarrow> string \<Rightarrow> 'w \<Rightarrow> string option \<times> 'w"
  rz_HGetAll :: "string \<Rightarrow> 'w \<Rightarrow> string + (string \<Rightarrow> string option)"
  rz_HDel :: "string \<Rightarrow> string \<Rightarrow> 'w \<Rightarrow> string option \<times> 'w"
  rz_ZRange :: "string \<Rightarrow> 'w \<Rightarrow> string + (string option \<times> int) list"

definition ZRangeByScoreWithScores :: "'w redis_client \<Rightarrow> string \<Rightarrow> 'w \<Rightarrow> string + ScoredMember list" where
  "ZRangeByScoreWithScores c key w =
     (case rz_ZRange c key w of
        Inl e \<Rightarrow> Inl e
      | Inr zs \<Rightarrow> Inr (map (\<lambda>(m, s). \<lparr>sm_Member = (case m of None \<Rightarrow> '''' | Some t \<Rightarrow> t), sm_Score = s\<rparr>) zs))"

definition NewMetaStore :: "'w redis_client \<Rightarrow> 'w meta_store" where
  "NewMetaStore c = \<lparr>st_HSet = rz_HSet c, st_HGetAll = rz_HGetAll c, st_HDel = rz_HDel c, st_ZRange = ZRangeByScoreWithScores c\<rparr>"

definition NewStore :: "'w redis_client \<Rightarrow> 'w store" where
  "NewStore c = \<lparr>st_ZAdd = rz_ZAdd c, st_ZRemRangeByScore = rz_ZRemRangeByScore c, st_ZRem = rz_ZRem c,
     st_ZCount = rz_ZCount c, st_ZCard = rz_ZCard c, st_meta = Some (NewMetaStore c)\<rparr>"

subsection \<open>Starting the heartbeat\<close>

record HealthOptions =
  ho_Interval :: duration
  ho_StaleCleanup :: duration
  ho_Prefix :: string
  ho_ExtraMeta :: "(string \<times> string) list"

text \<open>What the process knows of itself: \<open>pe_start\<close> is the Unix time at which the meta data are put together.\<close>

record process_env =
  pe_build :: buildinfo
  pe_host :: string
  pe_pid :: int
  pe_exe :: string
  pe_uuid :: string
  pe_start :: int

definition default_meta :: "process_env \<Rightarrow> (string \<times> string) list" where
  "default_meta p =
     [(''buildID'', BuildID (pe_build p)), (''commit'', bi_GitCommit (pe_build p)), (''buildTime'', bi_BuildTime (pe_build p)),
      (''version'', bi_Version (pe_build p)), (''startTime'', format_int (pe_start p)), (''pid'', format_int (pe_pid p)),
      (''host'', pe_host p), (''binPath'', pe_exe p)]"

text \<open>The extra meta data are written over the default ones.\<close>

definition BuildMeta :: "process_env \<Rightarrow> (string \<times> string) list \<Rightarrow> string \<times> (string \<times> string) list" where
  "BuildMeta p extra =
     (pe_host p @ ''-'' @ format_int (pe_pid p) @ ''-'' @ take 8 (pe_uuid p),
      fold (\<lambda>(k, v). AList.update k v) extra (default_meta p))"

definition start_reporter :: "process_env \<Rightarrow> string \<Rightarrow> HealthOptions \<Rightarrow> Reporter" where
  "start_reporter p service o' =
     (let interval = (if ho_Interval o' \<le> 0 then 10 * second else ho_Interval o');
          cleanup = (if ho_StaleCleanup o' \<le> 0 then 5 * minute else ho_StaleCleanup o');
          (instanceID, m) = BuildMeta p (ho_ExtraMeta o')
      in \<lparr>r_Prefix = ho_Prefix o', r_Service = service, r_Instance = instanceID, r_Interval = interval,
          r_StaleCleanup = cleanup, r_Meta = m, r_stopped = False, r_ch = None, r_closed = [], r_chans = 0, r_loops = [],
          r_errors = []\<rparr>)"

text \<open>\<open>now\<close> is the Unix time of the first beat.\<close>

definition RedisStart :: "((string \<times> string) list \<Rightarrow> string + string) \<Rightarrow> process_env \<Rightarrow> 'w redis_client option \<Rightarrow> string \<Rightarrow>
    HealthOptions \<Rightarrow> int \<Rightarrow> 'w \<Rightarrow> (string + Reporter) \<times> 'w" where
  "RedisStart marshal p client service o' now w =
     (case client of
        None \<Rightarrow> (Inl ''redishealth: nil redis client'', w)
      | Some c \<Rightarrow>
          if service = '''' then (Inl ''redishealth: empty service name'', w)
          else
            let (e, r, w) = Reporter_Start marshal (Some (NewStore c)) now (start_reporter p service o', w)
            in (case e of Some m \<Rightarrow> Inl (''redishealth: start reporter: '' @ m) | None \<Rightarrow> Inr r, w))"

definition RedisNewReader :: "string \<Rightarrow> duration \<Rightarrow> Reader" where
  "RedisNewReader pre aliveWindow = \<lparr>rd_Prefix = pre, rd_AliveWindow = aliveWindow\<rparr>"

subsection \<open>What the client promises\<close>

text \<open>
  \<open>zs\<close> are the sorted sets and \<open>hs\<close> the hashes of the world.  No command fails, and nobody else writes.
\<close>

locale redis_laws =
  fixes c :: "'w redis_client" and zs :: "'w \<Rightarrow> string \<Rightarrow> string \<Rightarrow> int option" and hs :: "'w \<Rightarrow> string \<Rightarrow> string \<Rightarrow> string option"
  assumes zadd: "\<exists>w'. rz_ZAdd c key s m w = (None, w') \<and> zs w' = (zs w)(key := (zs w key)(m \<mapsto> s)) \<and> hs w' = hs w"
    and zrem_range: "\<exists>w'. rz_ZRemRangeByScore c key b w = (None, w') \<and>
        zs w' = (zs w)(key := (zs w key) |` {m. \<forall>s. zs w key m = Some s \<longrightarrow> b < s}) \<and> hs w' = hs w"
    and zcount: "rz_ZCount c key a w = Inr (int (card {m. \<exists>s. zs w key m = Some s \<and> a \<le> s}))"
    and zcard: "rz_ZCard c key w = Inr (int (card (dom (zs w key))))"
    and zrange: "\<exists>l. rz_ZRange c key w = Inr (map (\<lambda>(m, s). (Some m, s)) l) \<and> distinct (map fst l) \<and> zs w key = map_of l"
    and hset: "\<exists>w'. rz_HSet c key f v w = (None, w') \<and> zs w' = zs w \<and> hs w' = (hs w)(key := (hs w key)(f \<mapsto> v))"
    and hgetall: "rz_HGetAll c key w = Inr (hs w key)"
begin

lemma finite_set: "finite (dom (zs w key))"
  using zrange [of key w] by (auto simp: finite_dom_map_of)

lemma zrange_scored:
  "\<exists>l. ZRangeByScoreWithScores c key w = Inr l \<and> distinct (map sm_Member l) \<and>
     zs w key = map_of (map (\<lambda>m. (sm_Member m, sm_Score m)) l)"
proof -
  obtain l where l: "rz_ZRange c key w = Inr (map (\<lambda>(m, s). (Some m, s)) l)" "distinct (map fst l)" "zs w key = map_of l"
    using zrange [of key w] by blast
  let ?l = "map (\<lambda>(m, s). \<lparr>sm_Member = m, sm_Score = s\<rparr>) l"
  have "ZRangeByScoreWithScores c key w = Inr ?l" by (simp add: ZRangeByScoreWithScores_def l(1) comp_def case_prod_beta)
  moreover have "map sm_Member ?l = map fst l" "map (\<lambda>m. (sm_Member m, sm_Score m)) ?l = l" by (induction l) auto
  ultimately show ?thesis using l(2, 3) by metis
qed

lemma store_sorted_sets: "sorted_sets (NewStore c) zs"
  unfolding sorted_sets_def NewStore_def store.simps using zadd zrem_range finite_set zcount zcard by blast

lemma store_meta_sets: "meta_sets (NewMetaStore c) zs"
  unfolding meta_sets_def NewMetaStore_def meta_store.simps using hset zrange_scored by (metis snd_conv)

end

text \<open>What is used of \<^verbatim>\<open>encoding/json\<close>: a map of strings can be encoded, and is read back as the same map.\<close>

locale json_maps =
  fixes marshal :: "(string \<times> string) list \<Rightarrow> string + string" and unmarshal :: "string \<Rightarrow> (string \<times> string) list option"
  assumes marshal_ok: "\<exists>p m'. marshal m = Inr p \<and> p \<noteq> '''' \<and> unmarshal p = Some m' \<and> map_of m' = map_of m"


subsection \<open>Lemmas\<close>

text \<open>What a started instance reports under a key: the last extra value, or the default one.\<close>

definition reported :: "process_env \<Rightarrow> HealthOptions \<Rightarrow> string \<Rightarrow> string" where
  "reported p o' k = (case map_of (snd (BuildMeta p (ho_ExtraMeta o'))) k of Some v \<Rightarrow> v | None \<Rightarrow> '''')"

lemma map_of_fold_update:
  "k \<notin> fst ` set extra \<Longrightarrow> map_of (fold (\<lambda>(k, v). AList.update k v) extra m) k = map_of m k"
  by (induction extra arbitrary: m) (auto simp: update_conv')

lemma map_of_fold_update_in:
  "distinct (map fst extra) \<Longrightarrow> (k, v) \<in> set extra \<Longrightarrow> map_of (fold (\<lambda>(k, v). AList.update k v) extra m) k = Some v"
proof (induction extra arbitrary: m)
  case (Cons x extra)
  show ?case
  proof (cases "x = (k, v)")
    case True
    then have "k \<notin> fst ` set extra" using Cons.prems(1) by auto
    then show ?thesis using True by (simp add: map_of_fold_update update_conv')
  next
    case False
    then show ?thesis using Cons by (cases x) auto
  qed
qed simp

lemma meta_nonempty: "snd (BuildMeta p extra) \<noteq> []"
proof -
  have "fold (\<lambda>(k, v). AList.update k v) extra m \<noteq> []" if "m \<noteq> []" for m :: "(string \<times> string) list"
    using that
  proof (induction extra arbitrary: m)
    case (Cons x extra)
    obtain k v where x: "x = (k, v)" by (cases x)
    have "AList.update k v m \<noteq> []" using Cons.prems by (cases m) auto
    then show ?case using Cons.IH x by simp
  qed simp
  moreover have "default_meta p \<noteq> []" by (simp add: default_meta_def)
  ultimately show ?thesis by (simp add: BuildMeta_def)
qed

lemma reported_default:
  assumes "''commit'' \<notin> fst ` set (ho_ExtraMeta o')" and "''startTime'' \<notin> fst ` set (ho_ExtraMeta o')"
  shows "reported p o' ''commit'' = bi_GitCommit (pe_build p)" and "reported p o' ''startTime'' = format_int (pe_start p)"
  using assms by (simp_all add: reported_def BuildMeta_def map_of_fold_update default_meta_def)

lemma reported_extra:
  "distinct (map fst (ho_ExtraMeta o')) \<Longrightarrow> (k, v) \<in> set (ho_ExtraMeta o') \<Longrightarrow> reported p o' k = v"
  by (simp add: reported_def BuildMeta_def map_of_fold_update_in)

lemma parse_format_unix: "0 \<le> x \<Longrightarrow> in_int64 x \<Longrightarrow> parse_int64 (format_int x) = Some x"
  using parse_int64_format_pad [of x 0] by (simp add: format_int_pad_def format_int_def pad_left_def)

lemma parseStartTime_format: "0 \<le> x \<Longrightarrow> in_int64 x \<Longrightarrow> parseStartTime (format_int x) = x * second"
  by (simp add: parseStartTime_def parse_format_unix) (simp add: format_int_def)

lemma start_reporter_fields:
  "r_Prefix (start_reporter p service o') = ho_Prefix o'" "r_Service (start_reporter p service o') = service"
  "r_Instance (start_reporter p service o') = fst (BuildMeta p (ho_ExtraMeta o'))"
  "r_Meta (start_reporter p service o') = snd (BuildMeta p (ho_ExtraMeta o'))"
  "0 < r_StaleCleanup (start_reporter p service o')" "0 < r_Interval (start_reporter p service o')"
  "r_StaleCleanup (start_reporter p service o') = (if ho_StaleCleanup o' \<le> 0 then 5 * minute else ho_StaleCleanup o')"
  by (simp_all add: start_reporter_def Let_def case_prod_beta go_time)

text \<open>\<open>Start\<close> fails only for a missing client or an empty name, and beats once.\<close>

lemma RedisStart_beats:
  assumes "service \<noteq> ''''"
  shows "\<exists>r0 r1 w1. RedisStart marshal p (Some c) service o' now w = (Inr (r1\<lparr>r_loops := r_loops r1 @ [(0, 0)]\<rparr>), w1) \<and>
    beat marshal (Some (NewStore c)) now (r0, w) = (r1, w1) \<and> r_Prefix r0 = ho_Prefix o' \<and> r_Service r0 = service \<and>
    r_Instance r0 = fst (BuildMeta p (ho_ExtraMeta o')) \<and> r_Meta r0 = snd (BuildMeta p (ho_ExtraMeta o')) \<and>
    r_StaleCleanup r0 = (if ho_StaleCleanup o' \<le> 0 then 5 * minute else ho_StaleCleanup o')"
proof -
  let ?r = "start_reporter p service o'"
  let ?q = "?r\<lparr>r_ch := Some 0, r_chans := 1\<rparr>"
  obtain r1 w1 where b: "beat marshal (Some (NewStore c)) now (?q, w) = (r1, w1)" by fastforce
  have "r_Instance ?r \<noteq> ''''"
    by (simp add: start_reporter_fields BuildMeta_def)
  moreover have ch: "r_chans ?r = 0"
    by (simp add: start_reporter_def Let_def case_prod_beta)
  ultimately
  have "RedisStart marshal p (Some c) service o' now w = (Inr (r1\<lparr>r_loops := r_loops r1 @ [(0, 0)]\<rparr>), w1)"
    using assms b start_reporter_fields(5,6) [of p service o']
    by (simp add: RedisStart_def Reporter_Start_def start_reporter_fields(2) Let_def)
  moreover have "r_Prefix ?q = ho_Prefix o'" "r_Service ?q = service"
    "r_Instance ?q = fst (BuildMeta p (ho_ExtraMeta o'))" "r_Meta ?q = snd (BuildMeta p (ho_ExtraMeta o'))"
    "r_StaleCleanup ?q = (if ho_StaleCleanup o' \<le> 0 then 5 * minute else ho_StaleCleanup o')"
    using start_reporter_fields [of p service o'] by simp_all
  ultimately show ?thesis using b by blast
qed

context redis_laws
begin

lemma beat_hash:
  assumes "beat marshal (Some (NewStore c)) now (r, w) = (r', w')" and "r_Meta r \<noteq> []" and "marshal (r_Meta r) = Inr payload"
  shows "hs w' = (hs w)(metaKeyFor (r_Prefix r) (r_Service r) :=
    (hs w (metaKeyFor (r_Prefix r) (r_Service r)))(r_Instance r \<mapsto> payload))"
proof -
  let ?key = "keyFor (r_Prefix r) (r_Service r)" and ?mk = "metaKeyFor (r_Prefix r) (r_Service r)"
  let ?b = "now - go_div (r_StaleCleanup r) second"
  obtain w1 where 1: "rz_ZAdd c ?key now (r_Instance r) w = (None, w1)" "hs w1 = hs w" using zadd by blast
  obtain w2 where 2: "rz_ZRemRangeByScore c ?key ?b w1 = (None, w2)" "hs w2 = hs w1" using zrem_range by blast
  obtain w3 where 3: "rz_HSet c ?mk (r_Instance r) payload w2 = (None, w3)"
    "hs w3 = (hs w2)(?mk := (hs w2 ?mk)(r_Instance r \<mapsto> payload))" using hset by blast
  have "w' = w3"
    using assms 1(1) 2(1) 3(1) by (simp add: beat_def reportMeta_def report_def NewStore_def NewMetaStore_def Let_def)
  then show ?thesis using 1(2) 2(2) 3(2) by simp
qed

lemma instances_read:
  assumes "a = t - go_div (rd_AliveWindow (alive_window rd)) second"
  shows "\<exists>l. Instances unmarshal (Some (NewStore c)) service t rd w =
      Inr (map (instance_of unmarshal (hs w (metaKeyFor (rd_Prefix rd) service)) a) l) \<and>
    distinct (map sm_Member l) \<and> zs w (keyFor (rd_Prefix rd) service) = map_of (map (\<lambda>m. (sm_Member m, sm_Score m)) l)"
proof -
  obtain l where l: "ZRangeByScoreWithScores c (keyFor (rd_Prefix rd) service) w = Inr l" "distinct (map sm_Member l)"
      "zs w (keyFor (rd_Prefix rd) service) = map_of (map (\<lambda>m. (sm_Member m, sm_Score m)) l)"
    using zrange_scored by blast
  have "rd_Prefix (alive_window rd) = rd_Prefix rd" by (simp add: alive_window_def)
  then have "Instances unmarshal (Some (NewStore c)) service t rd w =
      Inr (map (instance_of unmarshal (hs w (metaKeyFor (rd_Prefix rd) service)) a) l)"
    using l(1) assms by (simp add: Instances_def NewStore_def NewMetaStore_def hgetall Let_def)
  then show ?thesis using l(2, 3) by blast
qed

end


text \<open>After a start and a check in the window of the reader, the instance is alive in the list, with its meta data.\<close>

lemma started_instance:
  assumes "redis_laws c zs hs" and "json_maps marshal unmarshal"
    and "service \<noteq> ''''" and "RedisStart marshal p (Some c) service o' now w = (x, w')"
    and "ho_StaleCleanup o' \<le> 0 \<or> second \<le> ho_StaleCleanup o'" and "rd_Prefix rd = ho_Prefix o'"
    and "a = t - go_div (rd_AliveWindow (alive_window rd)) second" and "a \<le> now"
  shows "\<exists>l. Instances unmarshal (Some (NewStore c)) service t rd w' = Inr l \<and> distinct (map im_Instance l) \<and>
    (\<forall>i \<in> set l. (im_Alive i \<longleftrightarrow> (\<exists>s. zs w' (keyFor (rd_Prefix rd) service) (im_Instance i) = Some s \<and> a \<le> s)) \<and>
      (im_Instance i = fst (BuildMeta p (ho_ExtraMeta o')) \<longrightarrow> (\<forall>k. meta i k = reported p o' k))) \<and>
    (\<exists>i \<in> set l. im_Instance i = fst (BuildMeta p (ho_ExtraMeta o')) \<and> im_Alive i) \<and>
    (\<forall>m s. m \<noteq> fst (BuildMeta p (ho_ExtraMeta o')) \<longrightarrow> zs w' (keyFor (rd_Prefix rd) service) m = Some s \<longrightarrow>
       zs w (keyFor (rd_Prefix rd) service) m = Some s)"
proof -
  note laws = assms(1)
  let ?mm = "map (\<lambda>m. (sm_Member m, sm_Score m))"
  let ?id = "fst (BuildMeta p (ho_ExtraMeta o'))" and ?m = "snd (BuildMeta p (ho_ExtraMeta o'))"
  let ?key = "keyFor (rd_Prefix rd) service" and ?mk = "metaKeyFor (rd_Prefix rd) service"
  obtain q r1 where q: "beat marshal (Some (NewStore c)) now (q, w) = (r1, w')" "r_Prefix q = rd_Prefix rd"
      "r_Service q = service" "r_Instance q = ?id" "r_Meta q = ?m"
      "r_StaleCleanup q = (if ho_StaleCleanup o' \<le> 0 then 5 * minute else ho_StaleCleanup o')"
    using RedisStart_beats [OF assms(3), of marshal p c o' now w] assms(4, 6) by auto
  have clean: "second \<le> r_StaleCleanup q" "0 \<le> r_StaleCleanup q" using q(6) assms(5) by (auto simp: go_time)
  have ok: "\<forall>ms. st_meta (NewStore c) = Some ms \<longrightarrow> meta_sets ms zs"
    using redis_laws.store_meta_sets [OF laws] by (simp add: NewStore_def)
  have own: "zs w' ?key ?id = Some now"
    using beat_sets_score [OF redis_laws.store_sorted_sets [OF laws] ok q(1) clean(2)] clean(1) q(2-4) by simp
  have others: "\<forall>m s. m \<noteq> ?id \<longrightarrow> zs w' ?key m = Some s \<longrightarrow> zs w ?key m = Some s"
    using beat_sets(1) [OF redis_laws.store_sorted_sets [OF laws] ok q(1) clean(2)] q(2-4)
    by (auto simp: restrict_map_def split: if_splits)
  obtain payload m' where pl: "marshal ?m = Inr payload" "payload \<noteq> ''''" "unmarshal payload = Some m'" "map_of m' = map_of ?m"
    using json_maps.marshal_ok [OF assms(2), of ?m] by blast
  have "r_Meta q \<noteq> []" "marshal (r_Meta q) = Inr payload" using meta_nonempty q(5) pl(1) by simp_all
  from redis_laws.beat_hash [OF laws q(1) this] have h: "hs w' ?mk ?id = Some payload" using q(2-4) by simp
  obtain l where l: "Instances unmarshal (Some (NewStore c)) service t rd w' = Inr (map (instance_of unmarshal (hs w' ?mk) a) l)"
      "distinct (map sm_Member l)" "zs w' ?key = map_of (?mm l)"
    using redis_laws.instances_read [OF laws assms(7), of unmarshal service w'] by blast
  have d: "distinct (map fst (?mm l))" using l(2) by (simp add: comp_def)
  have score: "zs w' ?key (sm_Member m) = Some s \<longleftrightarrow> s = sm_Score m" if "m \<in> set l" for m s
  proof -
    have "(sm_Member m, sm_Score m) \<in> set (?mm l)" using that by auto
    then show ?thesis unfolding l(3) using map_of_is_SomeI [OF d] by force
  qed
  have meta: "meta (instance_of unmarshal (hs w' ?mk) a m) k = reported p o' k" if "sm_Member m = ?id" for m k
    using that h pl by (simp add: meta_def instance_of_def reported_def)
  obtain m where "m \<in> set l" "sm_Member m = ?id" using map_of_SomeD [OF own [unfolded l(3)]] by auto
  moreover from this have "a \<le> sm_Score m" using score [of m now] own assms(8) by simp
  ultimately have "\<exists>i \<in> set (map (instance_of unmarshal (hs w' ?mk) a) l). im_Instance i = ?id \<and> im_Alive i"
    by (force simp: instance_of_def)
  moreover have "distinct (map im_Instance (map (instance_of unmarshal (hs w' ?mk) a) l))"
    using l(2) by (simp add: comp_def instance_of_def)
  moreover have "im_Alive (instance_of unmarshal (hs w' ?mk) a m) \<longleftrightarrow>
      (\<exists>s. zs w' ?key (im_Instance (instance_of unmarshal (hs w' ?mk) a m)) = Some s \<and> a \<le> s)" if "m \<in> set l" for m
    using score [OF that] by (simp add: instance_of_def)
  moreover have "im_Instance (instance_of unmarshal (hs w' ?mk) a m) = sm_Member m" for m by (simp add: instance_of_def)
  ultimately show ?thesis using l(1) meta others
    by (intro exI [of _ "map (instance_of unmarshal (hs w' ?mk) a) l"]) (simp add: ball_simps del: map_map)
qed


text \<open>The verdict in terms of what the started instance reports.\<close>

lemma verdict_of_start:
  assumes "redis_laws c zs hs" and "json_maps marshal unmarshal"
    and "service \<noteq> ''''" and "RedisStart marshal p (Some c) service o' now w = (x, w')"
    and "ho_StaleCleanup o' \<le> 0 \<or> second \<le> ho_StaleCleanup o'" and "rd_Prefix rd = ho_Prefix o'"
    and "a = t - go_div (rd_AliveWindow (alive_window rd)) second" and "a \<le> now" and "tg_Name target = service"
    and "good \<longleftrightarrow> (expect = '''' \<or> reported p o' ''commit'' = expect) \<and>
      (since = zero_go_time \<or> parseStartTime (reported p o' ''startTime'') \<noteq> zero_go_time \<and>
         since < parseStartTime (reported p o' ''startTime''))"
  shows "sr_Pass (checkService unmarshal (Some (NewStore c)) t rd w' target expect since) \<Longrightarrow> good"
    and "(\<forall>m s. m \<noteq> fst (BuildMeta p (ho_ExtraMeta o')) \<longrightarrow> zs w (keyFor (rd_Prefix rd) service) m = Some s \<longrightarrow> s < a) \<Longrightarrow>
      tg_MinInstances target \<le> 1 \<Longrightarrow> good \<Longrightarrow>
      sr_Pass (checkService unmarshal (Some (NewStore c)) t rd w' target expect since)"
proof -
  let ?id = "fst (BuildMeta p (ho_ExtraMeta o'))" and ?key = "keyFor (rd_Prefix rd) service"
  obtain l where l: "Instances unmarshal (Some (NewStore c)) service t rd w' = Inr l"
      and alive: "\<And>i. i \<in> set l \<Longrightarrow> im_Alive i \<longleftrightarrow> (\<exists>s. zs w' ?key (im_Instance i) = Some s \<and> a \<le> s)"
      and meta: "\<And>i k. i \<in> set l \<Longrightarrow> im_Instance i = ?id \<Longrightarrow> meta i k = reported p o' k"
      and own: "\<exists>i \<in> set l. im_Instance i = ?id \<and> im_Alive i"
      and others: "\<And>m s. m \<noteq> ?id \<Longrightarrow> zs w' ?key m = Some s \<Longrightarrow> zs w ?key m = Some s"
    using started_instance [OF assms(1-8)] by blast
  obtain i where i: "i \<in> set l" "im_Instance i = ?id" "im_Alive i" using own by blast
  show "good" if "sr_Pass (checkService unmarshal (Some (NewStore c)) t rd w' target expect since)"
    using that i l meta [OF i(1,2)] unfolding checkService_pass assms(9) assms(10) by auto
  show "sr_Pass (checkService unmarshal (Some (NewStore c)) t rd w' target expect since)"
    if dead: "\<forall>m s. m \<noteq> ?id \<longrightarrow> zs w ?key m = Some s \<longrightarrow> s < a" and min: "tg_MinInstances target \<le> 1" and good: good
  proof -
    have only: "im_Instance j = ?id" if j: "j \<in> set l" "im_Alive j" for j
    proof (rule ccontr)
      assume n: "im_Instance j \<noteq> ?id"
      obtain s where "zs w' ?key (im_Instance j) = Some s" "a \<le> s" using alive [OF j(1)] j(2) by blast
      then show False using others [OF n] dead n by force
    qed
    have "filter im_Alive l \<noteq> []" using i by (auto simp: filter_empty_conv)
    then have "tg_MinInstances target \<le> int (length (filter im_Alive l))" using min by (cases "filter im_Alive l") auto
    moreover have "(expect = '''' \<or> meta j ''commit'' = expect) \<and> (since = zero_go_time \<or>
        parseStartTime (meta j ''startTime'') \<noteq> zero_go_time \<and> parseStartTime (meta j ''startTime'') > since)"
      if "j \<in> set l" "im_Alive j" for j
      using good meta [OF that(1) only [OF that]] unfolding assms(10) by simp
    ultimately show ?thesis unfolding checkService_pass assms(9) using l by blast
  qed
qed

subsection \<open>Properties\<close>


text \<open>
  Meta data of the caller deceive the check.  They are written over the fingerprint of the build, so a program that
  reports the expected commit and a late start in \<^verbatim>\<open>ExtraMeta\<close> passes, whatever it was built from and whenever it was started.
\<close>

theorem extra_meta_deceives_check:
  assumes "redis_laws c zs hs" and "json_maps marshal unmarshal"
    and "service \<noteq> ''''" and "RedisStart marshal p (Some c) service o' now w = (x, w')"
    and "ho_StaleCleanup o' \<le> 0 \<or> second \<le> ho_StaleCleanup o'" and "rd_Prefix rd = ho_Prefix o'"
    and "t - go_div (rd_AliveWindow (alive_window rd)) second \<le> now" and "tg_Name target = service"
    and "distinct (map fst (ho_ExtraMeta o'))" and "(''commit'', expect) \<in> set (ho_ExtraMeta o')"
    and "(''startTime'', format_int late) \<in> set (ho_ExtraMeta o')" and "0 \<le> late" and "in_int64 late" and "since < late * second"
    and "\<forall>m s. zs w (keyFor (rd_Prefix rd) service) m = Some s \<longrightarrow> s < t - go_div (rd_AliveWindow (alive_window rd)) second"
    and "tg_MinInstances target \<le> 1"
  shows "sr_Pass (checkService unmarshal (Some (NewStore c)) t rd w' target expect since)"
proof -
  have "late * second \<noteq> zero_go_time" using assms(12) by (simp add: zero_go_time_def go_time)
  then have g: "True \<longleftrightarrow> (expect = '''' \<or> reported p o' ''commit'' = expect) \<and>
      (since = zero_go_time \<or> parseStartTime (reported p o' ''startTime'') \<noteq> zero_go_time \<and>
         since < parseStartTime (reported p o' ''startTime''))"
    using assms(14) unfolding reported_extra [OF assms(9,10)] reported_extra [OF assms(9,11)] parseStartTime_format [OF assms(12,13)]
    by simp
  show ?thesis by (rule verdict_of_start(2) [OF assms(1-6) refl assms(7,8) g]) (use assms(15,16) in auto)
qed


subsection \<open>A client and an encoding that keep their promises\<close>

type_synonym mem_world = "demo_world \<times> (string \<Rightarrow> string \<Rightarrow> string option)"

definition on_sets :: "(demo_world \<Rightarrow> string option \<times> demo_world) \<Rightarrow> mem_world \<Rightarrow> string option \<times> mem_world" where
  "on_sets f w = (let (e, z) = f (fst w) in (e, z, snd w))"

definition mem_redis :: "mem_world redis_client" where
  "mem_redis = \<lparr>
     rz_ZAdd = (\<lambda>key s m. on_sets (st_ZAdd demo_store key s m)),
     rz_ZRemRangeByScore = (\<lambda>key b. on_sets (st_ZRemRangeByScore demo_store key b)),
     rz_ZRem = (\<lambda>key m. on_sets (st_ZRem demo_store key m)),
     rz_ZCount = (\<lambda>key a w. st_ZCount demo_store key a (fst w)),
     rz_ZCard = (\<lambda>key w. st_ZCard demo_store key (fst w)),
     rz_HSet = (\<lambda>key f v w. (None, fst w, (snd w)(key := (snd w key)(f \<mapsto> v)))),
     rz_HGetAll = (\<lambda>key w. Inr (snd w key)),
     rz_HDel = (\<lambda>key f w. (None, fst w, (snd w)(key := (snd w key)(f := None)))),
     rz_ZRange = (\<lambda>key w. Inr (map (\<lambda>(m, s). (Some m, s)) (AList.clearjunk (fst w key))))\<rparr>"

lemma mem_redis_laws: "redis_laws mem_redis (\<lambda>w. demo_sets (fst w)) snd"
proof
  fix key s m and w :: mem_world and b a f v
  show "\<exists>w'. rz_ZAdd mem_redis key s m w = (None, w') \<and>
      demo_sets (fst w') = (demo_sets (fst w))(key := (demo_sets (fst w) key)(m \<mapsto> s)) \<and> snd w' = snd w"
    using sorted_setsD(1) [OF demo_sorted_sets, of key s m "fst w"] by (auto simp: mem_redis_def on_sets_def)
  show "\<exists>w'. rz_ZRemRangeByScore mem_redis key b w = (None, w') \<and>
      demo_sets (fst w') = (demo_sets (fst w))(key := demo_sets (fst w) key |` {m. \<forall>s. demo_sets (fst w) key m = Some s \<longrightarrow> b < s}) \<and>
      snd w' = snd w"
    using sorted_setsD(2) [OF demo_sorted_sets, of key b "fst w"] by (auto simp: mem_redis_def on_sets_def)
  show "rz_ZCount mem_redis key a w = Inr (int (card {m. \<exists>s. demo_sets (fst w) key m = Some s \<and> a \<le> s}))"
    using sorted_setsD(4) [OF demo_sorted_sets, of key a "fst w"] by (simp add: mem_redis_def)
  show "rz_ZCard mem_redis key w = Inr (int (card (dom (demo_sets (fst w) key))))"
    using sorted_setsD(5) [OF demo_sorted_sets, of key "fst w"] by (simp add: mem_redis_def)
  show "\<exists>l. rz_ZRange mem_redis key w = Inr (map (\<lambda>(m, s). (Some m, s)) l) \<and> distinct (map fst l) \<and> demo_sets (fst w) key = map_of l"
    by (intro exI [of _ "AList.clearjunk (fst w key)"]) (simp add: mem_redis_def distinct_clearjunk map_of_clearjunk demo_sets_def)
  show "\<exists>w'. rz_HSet mem_redis key f v w = (None, w') \<and> demo_sets (fst w') = demo_sets (fst w) \<and>
      snd w' = (snd w)(key := (snd w key)(f \<mapsto> v))"
    by (simp add: mem_redis_def)
  show "rz_HGetAll mem_redis key w = Inr (snd w key)" by (simp add: mem_redis_def)
qed

interpretation mem_redis: redis_laws mem_redis "\<lambda>w. demo_sets (fst w)" snd
  by (rule mem_redis_laws)

text \<open>An encoding of maps: every character after a mark, every text with an end.\<close>

definition enc_text :: "string \<Rightarrow> string" where
  "enc_text s = concat (map (\<lambda>c. [CHR ''c'', c]) s) @ ''e''"

definition enc_map :: "(string \<times> string) list \<Rightarrow> string" where
  "enc_map m = concat (map (\<lambda>(k, v). enc_text k @ enc_text v) m) @ ''.''"

fun dec_map :: "string \<Rightarrow> string \<Rightarrow> string option \<Rightarrow> (string \<times> string) list \<Rightarrow> (string \<times> string) list option" where
  "dec_map [] cur k acc = None"
| "dec_map (x # r) cur k acc =
     (if x = CHR ''e'' then (case k of None \<Rightarrow> dec_map r [] (Some (rev cur)) acc | Some k \<Rightarrow> dec_map r [] None ((k, rev cur) # acc))
      else if x = CHR ''c'' then (case r of [] \<Rightarrow> None | c # r' \<Rightarrow> dec_map r' (c # cur) k acc)
      else Some (rev acc))"

lemma dec_text: "dec_map (enc_text s @ r) cur k acc =
   (case k of None \<Rightarrow> dec_map r [] (Some (rev cur @ s)) acc | Some k \<Rightarrow> dec_map r [] None ((k, rev cur @ s) # acc))"
  by (induction s arbitrary: cur) (auto simp: enc_text_def split: option.splits)

lemma dec_enc_map: "dec_map (enc_map m) [] None acc = Some (rev acc @ m)"
proof (induction m arbitrary: acc)
  case (Cons x m)
  obtain k v where x: "x = (k, v)" by (cases x)
  have "enc_map (x # m) = enc_text k @ enc_text v @ enc_map m" by (simp add: enc_map_def x)
  then show ?case using Cons.IH [of "(k, v) # acc"] x by (simp add: dec_text)
qed (simp add: enc_map_def)

interpretation text_maps: json_maps "\<lambda>m. Inr (enc_map m)" "\<lambda>s. dec_map s [] None []"
proof
  fix m :: "(string \<times> string) list"
  show "\<exists>p m'. Inr (enc_map m) = (Inr p :: string + string) \<and> p \<noteq> '''' \<and> dec_map p [] None [] = Some m' \<and> map_of m' = map_of m"
    using dec_enc_map [of m "[]"] by (simp add: enc_map_def)
qed

definition demo_process :: process_env where
  "demo_process = \<lparr>pe_build = \<lparr>bi_GitCommit = ''0badcafe'', bi_BuildTime = ''20240102T000000Z'', bi_Version = ''v1''\<rparr>,
     pe_host = ''h'', pe_pid = 7, pe_exe = ''/bin/api'', pe_uuid = ''12345678-9'', pe_start = 1000\<rparr>"

definition demo_health :: "(string \<times> string) list \<Rightarrow> HealthOptions" where
  "demo_health extra = \<lparr>ho_Interval = 0, ho_StaleCleanup = 0, ho_Prefix = '''', ho_ExtraMeta = extra\<rparr>"


text \<open>A program built from another commit passes with meta data of its own.\<close>

theorem extra_meta_deceives_check_witness:
  "sr_Pass (checkService (\<lambda>s. dec_map s [] None []) (Some (NewStore mem_redis)) 1010 demo_reader
     (snd (RedisStart (\<lambda>m. Inr (enc_map m)) demo_process (Some mem_redis) ''api''
        (demo_health [(''commit'', ''deadbeef''), (''startTime'', format_int 2000)]) 1000 (\<lambda>key. [], \<lambda>key f. None)))
     demo_target ''deadbeef'' (1500 * second))"
proof -
  let ?o = "demo_health [(''commit'', ''deadbeef''), (''startTime'', format_int 2000)]"
  obtain x w' where s: "RedisStart (\<lambda>m. Inr (enc_map m)) demo_process (Some mem_redis) ''api'' ?o 1000
      (\<lambda>key. [], \<lambda>key f. None) = (x, w')" by (metis surj_pair)
  show ?thesis unfolding s snd_conv
    by (rule extra_meta_deceives_check [OF mem_redis_laws text_maps.json_maps_axioms _ s, where late = 2000])
      (simp_all add: demo_health_def demo_reader_def alive_window_def defaultAliveWindow_def go_time go_div_def demo_target_def
        in_int64_def demo_sets_def)
qed

end
