(* ===== verification/EncryptTools.thy ===== *)
theory EncryptTools
  imports ConfigCrypt Stringsx
begin

text \<open>
  Around the encryption (\<^verbatim>\<open>pkg/encrypt/hash.go\<close>, \<^verbatim>\<open>password.go\<close>, \<^verbatim>\<open>cmd/config_encrypt.go\<close>, \<^verbatim>\<open>pkg/util/md5.go\<close>): keyed digests,
  passwords, the tool that encrypts configuration values, and the digest of a file.  HMAC, bcrypt and MD5 are arguments.
  The theory shows which digest is none, which passwords can never be checked, that the tool decrypts what it has
  encrypted, and that the digest of a file is the digest of its content however the content is read.
\<close>

subsection \<open>Keyed digests\<close>

text \<open>\<open>hmac k m\<close> is the message authentication code over the hash function of the record; both records only have a key.\<close>

record keyed_hash =
  kh_Key :: string

type_synonym hmac = "string \<Rightarrow> string \<Rightarrow> string"

definition NewSha256 :: "string \<Rightarrow> keyed_hash" where
  "NewSha256 key = \<lparr>kh_Key = key\<rparr>"

definition Sha256_encrypt :: "hmac \<Rightarrow> keyed_hash \<Rightarrow> string \<Rightarrow> string" where
  "Sha256_encrypt hmac s message = hmac (kh_Key s) message"

definition Sha256_ToHex :: "hmac \<Rightarrow> keyed_hash \<Rightarrow> string \<Rightarrow> string" where
  "Sha256_ToHex hmac s message = hex_encode (Sha256_encrypt hmac s message)"

definition Sha256_ToStdBase64 :: "hmac \<Rightarrow> keyed_hash \<Rightarrow> string \<Rightarrow> string" where
  "Sha256_ToStdBase64 hmac s message = std_encode (Sha256_encrypt hmac s message)"

definition Sha256_ToUrlBase64 :: "hmac \<Rightarrow> keyed_hash \<Rightarrow> string \<Rightarrow> string" where
  "Sha256_ToUrlBase64 hmac s message = url_encode (Sha256_encrypt hmac s message)"

definition NewSha1 :: "string \<Rightarrow> keyed_hash" where
  "NewSha1 key = \<lparr>kh_Key = key\<rparr>"

definition Sha1_encrypt :: "hmac \<Rightarrow> keyed_hash \<Rightarrow> string \<Rightarrow> string" where
  "Sha1_encrypt hmac s message = hmac (kh_Key s) message"

definition Sha1_ToHex :: "hmac \<Rightarrow> keyed_hash \<Rightarrow> string \<Rightarrow> string" where
  "Sha1_ToHex hmac s message = hex_encode (Sha1_encrypt hmac s message)"

text \<open>The code encodes the message in upper case, not its digest.\<close>

definition Sha1_ToStdBase64 :: "hmac \<Rightarrow> keyed_hash \<Rightarrow> string \<Rightarrow> string" where
  "Sha1_ToStdBase64 hmac s message = std_encode (ToUpper message)"

definition Sha1_ToUrlBase64 :: "hmac \<Rightarrow> keyed_hash \<Rightarrow> string \<Rightarrow> string" where
  "Sha1_ToUrlBase64 hmac s message = url_encode (Sha1_encrypt hmac s message)"

lemma url_round: "b64_decode url_alphabet (url_encode s) = (s, True)"
  by (simp add: url_encode_def b64_round)

text \<open>
  The texts of both digests lead back to the code of the message under the key, except the standard encoding of
  \<^verbatim>\<open>Sha1\<close>: whatever the key and the hash function, it is the message itself in upper case, so two keys give one text
  and whoever sees the text knows the message.
\<close>

theorem sha1_base64_discloses:
  "std_decode (Sha256_ToStdBase64 hmac (NewSha256 key) m) = (hmac key m, True) \<and>
   b64_decode url_alphabet (Sha256_ToUrlBase64 hmac (NewSha256 key) m) = (hmac key m, True) \<and>
   b64_decode url_alphabet (Sha1_ToUrlBase64 hmac (NewSha1 key) m) = (hmac key m, True) \<and>
   std_decode (Sha1_ToStdBase64 hmac (NewSha1 key) m) = (ToUpper m, True) \<and>
   Sha1_ToStdBase64 hmac (NewSha1 key) m = Sha1_ToStdBase64 hmac' (NewSha1 key') m"
  by (simp add: Sha256_ToStdBase64_def Sha256_ToUrlBase64_def Sha1_ToUrlBase64_def Sha1_ToStdBase64_def
      Sha256_encrypt_def Sha1_encrypt_def NewSha256_def NewSha1_def url_round)

subsection \<open>Passwords\<close>

datatype compare_result = SamePassword | ErrMismatchedHashAndPassword | OtherCompareError string

record bcrypt =
  bc_generate :: "string \<Rightarrow> string \<Rightarrow> string + string"
  bc_compare :: "string \<Rightarrow> string \<Rightarrow> compare_result"

text \<open>The random salt is the second argument of \<open>bc_generate\<close>; errors are logged.\<close>

definition PasswordEncrypt :: "bcrypt \<Rightarrow> string \<Rightarrow> string \<Rightarrow> string" where
  "PasswordEncrypt bc salt password = (case bc_generate bc password salt of Inl e \<Rightarrow> '''' | Inr bs \<Rightarrow> bs)"

definition PasswordCompare :: "bcrypt \<Rightarrow> string \<Rightarrow> string \<Rightarrow> bool" where
  "PasswordCompare bc hashedPassword password =
     (case bc_compare bc hashedPassword password of
        ErrMismatchedHashAndPassword \<Rightarrow> False
      | OtherCompareError e \<Rightarrow> False
      | SamePassword \<Rightarrow> True)"

text \<open>What bcrypt documents: passwords of at most 72 bytes are accepted, and checked; the empty text is no hash.\<close>

locale bcrypt_laws =
  fixes bc :: bcrypt
  assumes generate_short: "length p \<le> 72 \<Longrightarrow> \<exists>h. bc_generate bc p salt = Inr h \<and> h \<noteq> '''' \<and> bc_compare bc h p = SamePassword"
    and generate_long: "72 < length p \<Longrightarrow> \<exists>e. bc_generate bc p salt = Inl e"
    and compare_empty: "\<exists>e. bc_compare bc '''' p = OtherCompareError e"

text \<open>
  A password is accepted again exactly if it has at most 72 bytes.  A longer one is stored as the empty hash without an
  error, on the branch that a comment calls unreachable, and the empty hash accepts no password at all.
\<close>

theorem long_password_locks_out:
  assumes "bcrypt_laws bc"
  shows "(PasswordCompare bc (PasswordEncrypt bc salt p) p \<longleftrightarrow> length p \<le> 72) \<and>
    (PasswordEncrypt bc salt p = '''' \<longleftrightarrow> 72 < length p) \<and> \<not> PasswordCompare bc '''' q"
proof -
  have empty: "\<not> PasswordCompare bc '''' q" for q
    using bcrypt_laws.compare_empty [OF assms, of q] by (auto simp: PasswordCompare_def)
  show ?thesis
  proof (cases "length p \<le> 72")
    case True
    with bcrypt_laws.generate_short [OF assms True, of salt] empty show ?thesis
      by (auto simp: PasswordEncrypt_def PasswordCompare_def)
  next
    case False
    then have "PasswordEncrypt bc salt p = ''''"
      using bcrypt_laws.generate_long [OF assms, of p salt] by (auto simp: PasswordEncrypt_def)
    with False empty show ?thesis by simp
  qed
qed

text \<open>A hash that keeps the password.\<close>

definition mem_bcrypt :: bcrypt where
  "mem_bcrypt = \<lparr>
     bc_generate = (\<lambda>p salt. if length p \<le> 72 then Inr (''$'' @ p) else Inl ''bcrypt: password length exceeds 72 bytes''),
     bc_compare = (\<lambda>h p. if h = '''' then OtherCompareError ''bcrypt: hashedSecret too short''
        else if tl h = p then SamePassword else ErrMismatchedHashAndPassword)\<rparr>"

interpretation mem_bcrypt: bcrypt_laws mem_bcrypt
  by unfold_locales (auto simp: mem_bcrypt_def)

theorem long_password_locks_out_witness:
  "PasswordCompare mem_bcrypt (PasswordEncrypt mem_bcrypt ''s'' ''secret'') ''secret'' \<and>
   \<not> PasswordCompare mem_bcrypt (PasswordEncrypt mem_bcrypt ''s'' (replicate 73 (CHR ''a''))) (replicate 73 (CHR ''a''))"
proof -
  note l = long_password_locks_out [OF mem_bcrypt.bcrypt_laws_axioms, THEN conjunct1]
  show ?thesis using l [of "''s''" "''secret''"] l [of "''s''" "replicate 73 (CHR ''a'')"] by simp
qed

subsection \<open>The tool for configuration values\<close>

text \<open>What the tool prints, without the Chinese words, and its exit status.\<close>

datatype cli_line =
  Usage | MissingKey | BadKey string | EncryptFailed string string | DecryptFailed string string | UnknownAction string |
  Converted string string

text \<open>The value with number \<open>i\<close> is encrypted with the nonce that the random source yields then.\<close>

fun cli_encrypt :: "gcm \<Rightarrow> string \<Rightarrow> (nat \<Rightarrow> string option) \<Rightarrow> nat \<Rightarrow> string list \<Rightarrow> cli_line list \<times> nat" where
  "cli_encrypt g key nonce i [] = ([], 0)"
| "cli_encrypt g key nonce i (v # vs) =
     (case EncryptConfigValue g key (nonce i) v of
        Inl e \<Rightarrow> ([EncryptFailed v e], 1)
      | Inr r \<Rightarrow> let (ls, st) = cli_encrypt g key nonce (i + 1) vs in (Converted v r # ls, st))"

fun cli_decrypt :: "gcm \<Rightarrow> string \<Rightarrow> string list \<Rightarrow> cli_line list \<times> nat" where
  "cli_decrypt g key [] = ([], 0)"
| "cli_decrypt g key (v # vs) =
     (case DecryptConfigValue g key v of
        Inl e \<Rightarrow> ([DecryptFailed v e], 1)
      | Inr r \<Rightarrow> let (ls, st) = cli_decrypt g key vs in (Converted v r # ls, st))"

definition config_encrypt_main :: "gcm \<Rightarrow> (nat \<Rightarrow> string option) \<Rightarrow> string list \<Rightarrow> cli_line list \<times> nat" where
  "config_encrypt_main g nonce args =
     (if length args < 4 then ([Usage], 1)
      else
        let action = args ! 1; keyFlag = args ! 2; vs = drop 3 args in
        if length keyFlag < 7 \<or> take 6 keyFlag \<noteq> ''--key='' then ([MissingKey, Usage], 1)
        else
          case ParseEncryptKey (drop 6 keyFlag) of
            Inl e \<Rightarrow> ([BadKey e], 1)
          | Inr key \<Rightarrow>
              if action = ''encrypt'' then cli_encrypt g key nonce 0 vs
              else if action = ''decrypt'' then cli_decrypt g key vs
              else ([UnknownAction action, Usage], 1))"

definition converted :: "cli_line list \<Rightarrow> string list" where
  "converted ls = concat (map (\<lambda>l. case l of Converted v r \<Rightarrow> [r] | _ \<Rightarrow> []) ls)"

lemma cli_round:
  assumes "good_gcm g key" and "length key = 16" and "\<And>i. \<exists>n. nonce i = Some n \<and> length n = gcm_nonce_size"
  shows "\<exists>cs. cli_encrypt g key nonce i vs = (map2 Converted vs cs, 0) \<and> length cs = length vs \<and>
    cli_decrypt g key cs = (map2 Converted cs vs, 0)"
proof (induction vs arbitrary: i)
  case (Cons v vs)
  obtain n where n: "nonce i = Some n" "length n = gcm_nonce_size" using assms(3) by blast
  have "key_ok key" using assms(2) by (simp add: key_ok_def)
  from config_value_round [OF assms(1) this n(2), of v]
  obtain c where c: "EncryptConfigValue g key (Some n) v = Inr c" "DecryptConfigValue g key c = Inr v"
    using assms(2) by auto
  obtain cs where "cli_encrypt g key nonce (i + 1) vs = (map2 Converted vs cs, 0)" "length cs = length vs"
    "cli_decrypt g key cs = (map2 Converted cs vs, 0)" using Cons.IH [of "i + 1"] by blast
  then show ?case using n(1) c by (intro exI [of _ "c # cs"]) simp
qed simp

lemma converted_map2: "length cs = length vs \<Longrightarrow> converted (map2 Converted vs cs) = cs"
  by (induction vs cs rule: list_induct2') (auto simp: converted_def)

text \<open>
  The tool inverts itself.  With a key in standard encoding of 16 bytes it encrypts any values, prints a line for each and
  ends with status 0; and started again with \<^verbatim>\<open>decrypt\<close>, the same key and the texts it printed, it prints the values.
\<close>

theorem tool_round_trip:
  assumes "good_gcm g key" and "length key = 16" and "\<forall>i. \<exists>n. nonce i = Some n \<and> length n = gcm_nonce_size" and "vs \<noteq> []"
  shows "\<exists>out. config_encrypt_main g nonce (prog # ''encrypt'' # (''--key='' @ std_encode key) # vs) = (out, 0) \<and>
    config_encrypt_main g nonce' (prog # ''decrypt'' # (''--key='' @ std_encode key) # converted out) =
      (map2 Converted (converted out) vs, 0)"
proof -
  have "key \<noteq> []" using assms(2) by auto
  then have ne: "std_encode key \<noteq> []" by (rule std_encode_nonempty)
  then have len: "\<not> length (std_encode key) = 0" by simp
  have parse: "ParseEncryptKey (std_encode key) = Inr key" using ne assms(2) by (simp add: ParseEncryptKey_def)
  obtain cs where cs: "cli_encrypt g key nonce 0 vs = (map2 Converted vs cs, 0)" "length cs = length vs"
      "cli_decrypt g key cs = (map2 Converted cs vs, 0)"
    using cli_round [OF assms(1,2), of nonce 0 vs] assms(3) by blast
  have "cs \<noteq> []" using cs(2) assms(4) by auto
  then have "config_encrypt_main g nonce' (prog # ''decrypt'' # (''--key='' @ std_encode key) # cs) = (map2 Converted cs vs, 0)"
    using len parse cs(3) by (cases cs) (simp_all add: config_encrypt_main_def Let_def)
  moreover have "config_encrypt_main g nonce (prog # ''encrypt'' # (''--key='' @ std_encode key) # vs) = (map2 Converted vs cs, 0)"
    using len parse cs(1) assms(4) by (cases vs) (simp_all add: config_encrypt_main_def Let_def)
  ultimately show ?thesis using converted_map2 [OF cs(2)] by (intro exI [of _ "map2 Converted vs cs"]) simp
qed

text \<open>A text of 16 letters stands for at most 12 bytes: the key in the example that the tool prints as its usage is refused.\<close>

lemma quanta_length: "4 * length (fst (b64_quanta al s)) \<le> 3 * length s"
  by (induction al s rule: b64_quanta.induct) (auto split: option.splits prod.splits)

lemma short_key_refused:
  assumes "length keyStr < 20"
  shows "\<exists>e. ParseEncryptKey keyStr = Inl e"
proof -
  let ?s = "filter (\<lambda>c. c \<noteq> char_of (10 :: nat) \<and> c \<noteq> char_of (13 :: nat)) keyStr"
  have "length ?s < 20" using assms length_filter_le order_le_less_trans by blast
  then have "length (fst (std_decode keyStr)) < 16"
    using quanta_length [of std_alphabet ?s] by (simp add: std_decode_def b64_decode_def)
  then show ?thesis by (auto simp: ParseEncryptKey_def split: prod.splits)
qed

lemma usage_example_refused:
  "\<exists>e. config_encrypt_main g nonce [''config-encrypt'', ''encrypt'', ''--key=K7gNU3sdo+OL0wNh'', ''root''] = ([BadKey e], 1)"
  using short_key_refused [of "''K7gNU3sdo+OL0wNh''"] by (auto simp: config_encrypt_main_def)

theorem tool_round_trip_witness:
  "\<exists>out. config_encrypt_main demo_gcm (\<lambda>i. Some demo_nonce) [''t'', ''encrypt'', ''--key='' @ std_encode demo_key, ''a'', ''b''] = (out, 0) \<and>
    config_encrypt_main demo_gcm (\<lambda>i. None) (''t'' # ''decrypt'' # (''--key='' @ std_encode demo_key) # converted out) =
      (map2 Converted (converted out) [''a'', ''b''], 0)"
proof -
  have "length demo_key = 16" by (simp add: demo_key_def)
  from tool_round_trip [OF demo_gcm_good(1) this, of "\<lambda>i. Some demo_nonce" "[''a'', ''b'']" "''t''" "\<lambda>i. None"]
  show ?thesis using demo_gcm_good(2) by simp
qed

subsection \<open>The digest of a file\<close>

text \<open>
  What the buffered reader returns, call by call: the bytes and the error.  After the calls listed it is at the end of the file.
\<close>

datatype read_error = EndOfFile | ReadFailed string

fun md5_loop :: "string \<Rightarrow> (string \<times> read_error option) list \<Rightarrow> string + string" where
  "md5_loop written [] = Inr written"
| "md5_loop written ((chunk, err) # reads) =
     (case err of
        Some (ReadFailed e) \<Rightarrow> Inl e
      | _ \<Rightarrow> if length chunk = 0 then Inr written else md5_loop (written @ chunk) reads)"

text \<open>\<open>opened\<close> is the error of opening the file or its reads; \<open>fileSize\<close> is \<open>None\<close> if \<^verbatim>\<open>Stat\<close> fails, whose error is dropped.\<close>

definition CalculateMD5 :: "(string \<Rightarrow> string) \<Rightarrow> string + (string \<times> read_error option) list \<Rightarrow> int option \<Rightarrow> (string \<times> int) outcome" where
  "CalculateMD5 md5 opened fileSize =
     (case opened of
        Inl e \<Rightarrow> Fail e
      | Inr reads \<Rightarrow>
          (case md5_loop '''' reads of
             Inl e \<Rightarrow> Fail e
           | Inr content \<Rightarrow> (case fileSize of None \<Rightarrow> Panic | Some n \<Rightarrow> Ok (hex_encode (md5 content), n))))"

lemma md5_loop_content:
  assumes "\<forall>r \<in> set reads. fst r \<noteq> '''' \<and> (snd r = None \<or> snd r = Some EndOfFile)"
  shows "md5_loop written (reads @ [('''', Some EndOfFile)]) = Inr (written @ concat (map fst reads))"
  using assms by (induction reads arbitrary: written) (auto split: option.splits)

text \<open>
  The digest of a file does not depend on how its content arrives: for any split into nonempty reads, the last of which
  may already report the end, it is the digest of the whole content.  A failed read is an error, whatever was read before; and a
  file whose size cannot be read panics after all its content has been hashed.
\<close>

theorem file_digest_exact:
  assumes "\<forall>r \<in> set reads. fst r \<noteq> '''' \<and> (snd r = None \<or> snd r = Some EndOfFile)"
  shows "CalculateMD5 md5 (Inr (reads @ [('''', Some EndOfFile)])) (Some n) = Ok (hex_encode (md5 (concat (map fst reads))), n) \<and>
    CalculateMD5 md5 (Inr (reads @ [(c, Some (ReadFailed e))])) (Some n) = Fail e \<and>
    CalculateMD5 md5 (Inr (reads @ [('''', Some EndOfFile)])) None = Panic"
proof -
  have "md5_loop w (reads @ [(c, Some (ReadFailed e))]) = Inl e" for w
    using assms by (induction reads arbitrary: w) (auto split: option.splits)
  then show ?thesis by (simp add: CalculateMD5_def md5_loop_content [OF assms])
qed

theorem file_digest_exact_witness:
  "CalculateMD5 (\<lambda>s. s) (Inr [(''ab'', None), (''c'', Some EndOfFile), ('''', Some EndOfFile)]) (Some 3) = Ok (hex_encode ''abc'', 3)"
  using file_digest_exact [of "[(''ab'', None), (''c'', Some EndOfFile)]" "\<lambda>s. s" 3] by simp

end
