(* ===== verification/LegacyTrace.thy ===== *)
theory LegacyTrace
  imports RedisCache Bytes
begin

text \<open>
  The trace records of before OpenTelemetry (\<^verbatim>\<open>pkg/tracelegacy\<close>), which the Redis client still fills.  Everything is held by
  pointer: the records live at addresses, and a trace is a record of addresses.  The mutex makes every append one step, so a
  concurrent use is a sequence of operations.  The theory shows that a trace keeps what was appended, in order, and shows the
  responses that reach a dialog later.
\<close>

record 'v LegacyRequest =
  lq_TTL :: string
  lq_Method :: string
  lq_DecodedURL :: string
  lq_Header :: 'v
  lq_Body :: 'v
  lq_HasLogger :: bool
  lq_AlwaysTrace :: bool

record 'v LegacyResponse =
  lr_Header :: 'v
  lr_Body :: 'v
  lr_BusinessCode :: int
  lr_BusinessCodeMsg :: string
  lr_HttpCode :: int
  lr_HttpCodeMsg :: string
  lr_CostMillisecond :: int
  lr_HasLogger :: bool
  lr_AlwaysTrace :: bool

record LegacySQL =
  ls_TraceTime :: string
  ls_Stack :: string
  ls_SQL :: string
  ls_AffectedRows :: int
  ls_CostMillisecond :: int
  ls_SlowLoggerMillisecond :: int
  ls_HasLogger :: bool
  ls_AlwaysTrace :: bool

record 'v LegacyDebug =
  lb_Key :: string
  lb_Value :: 'v
  lb_CostMillisecond :: int
  lb_HasLogger :: bool

text \<open>Addresses stand for pointers; \<open>None\<close> is nil.\<close>

record LegacyDialog =
  ld_Request :: "nat option"
  ld_Responses :: "nat list"
  ld_Success :: bool
  ld_CostMillisecond :: int
  ld_HasLogger :: bool
  ld_AlwaysTrace :: bool

record LegacyTrace =
  lt_Identifier :: string
  lt_Request :: "nat option"
  lt_Response :: "nat option"
  lt_ThirdPartyRequests :: "nat list"
  lt_Debugs :: "nat list"
  lt_SQLs :: "nat list"
  lt_Cache :: "nat list"
  lt_Success :: bool
  lt_CostMillisecond :: f64
  lt_HasLogger :: bool
  lt_AlwaysTrace :: bool

text \<open>\<open>random\<close> is the buffer of ten bytes after the read, whose error is dropped.\<close>

definition LegacyNew :: "string \<Rightarrow> string \<Rightarrow> LegacyTrace" where
  "LegacyNew random ident =
     \<lparr>lt_Identifier = (if ident = '''' then hex_encode random else ident), lt_Request = None, lt_Response = None,
      lt_ThirdPartyRequests = [], lt_Debugs = [], lt_SQLs = [], lt_Cache = [], lt_Success = False,
      lt_CostMillisecond = Fin 0, lt_HasLogger = False, lt_AlwaysTrace = False\<rparr>"

definition LegacyID :: "LegacyTrace \<Rightarrow> string" where
  "LegacyID t = lt_Identifier t"

definition WithRequest :: "nat option \<Rightarrow> LegacyTrace \<Rightarrow> LegacyTrace" where
  "WithRequest req t = t\<lparr>lt_Request := req\<rparr>"

definition WithResponse :: "nat option \<Rightarrow> LegacyTrace \<Rightarrow> LegacyTrace" where
  "WithResponse resp t = t\<lparr>lt_Response := resp\<rparr>"

definition AppendDialog :: "nat option \<Rightarrow> LegacyTrace \<Rightarrow> LegacyTrace" where
  "AppendDialog dialog t =
     (case dialog of None \<Rightarrow> t | Some d \<Rightarrow> t\<lparr>lt_ThirdPartyRequests := lt_ThirdPartyRequests t @ [d]\<rparr>)"

definition AppendDebug :: "nat option \<Rightarrow> LegacyTrace \<Rightarrow> LegacyTrace" where
  "AppendDebug debug t = (case debug of None \<Rightarrow> t | Some d \<Rightarrow> t\<lparr>lt_Debugs := lt_Debugs t @ [d]\<rparr>)"

definition AppendSQL :: "nat option \<Rightarrow> LegacyTrace \<Rightarrow> LegacyTrace" where
  "AppendSQL sql t = (case sql of None \<Rightarrow> t | Some s \<Rightarrow> t\<lparr>lt_SQLs := lt_SQLs t @ [s]\<rparr>)"

definition AppendCache :: "nat option \<Rightarrow> LegacyTrace \<Rightarrow> LegacyTrace" where
  "AppendCache c t = (case c of None \<Rightarrow> t | Some c \<Rightarrow> t\<lparr>lt_Cache := lt_Cache t @ [c]\<rparr>)"

definition SetLogger :: "bool \<Rightarrow> LegacyTrace \<Rightarrow> LegacyTrace" where
  "SetLogger logger t = t\<lparr>lt_HasLogger := logger\<rparr>"

definition SetAlwaysTrace :: "bool \<Rightarrow> LegacyTrace \<Rightarrow> LegacyTrace" where
  "SetAlwaysTrace b t = t\<lparr>lt_AlwaysTrace := b\<rparr>"

definition AppendResponse :: "nat option \<Rightarrow> LegacyDialog \<Rightarrow> LegacyDialog" where
  "AppendResponse resp d = (case resp of None \<Rightarrow> d | Some r \<Rightarrow> d\<lparr>ld_Responses := ld_Responses d @ [r]\<rparr>)"

subsection \<open>Sequences of operations\<close>

datatype legacy_op =
  OpRequest "nat option" | OpResponse "nat option" | OpDialog "nat option" | OpDebug "nat option" | OpSQL "nat option" |
  OpCache "nat option" | OpLogger bool | OpAlways bool | OpAppendResponse nat "nat option"

text \<open>A state is a trace and the dialogs by address.\<close>

fun legacy_step :: "legacy_op \<Rightarrow> LegacyTrace \<times> (nat \<Rightarrow> LegacyDialog) \<Rightarrow> LegacyTrace \<times> (nat \<Rightarrow> LegacyDialog)" where
  "legacy_step (OpRequest r) (t, h) = (WithRequest r t, h)"
| "legacy_step (OpResponse r) (t, h) = (WithResponse r t, h)"
| "legacy_step (OpDialog d) (t, h) = (AppendDialog d t, h)"
| "legacy_step (OpDebug d) (t, h) = (AppendDebug d t, h)"
| "legacy_step (OpSQL s) (t, h) = (AppendSQL s t, h)"
| "legacy_step (OpCache c) (t, h) = (AppendCache c t, h)"
| "legacy_step (OpLogger l) (t, h) = (SetLogger l t, h)"
| "legacy_step (OpAlways b) (t, h) = (SetAlwaysTrace b t, h)"
| "legacy_step (OpAppendResponse a r) (t, h) = (t, h(a := AppendResponse r (h a)))"

definition dialog_responses :: "LegacyTrace \<times> (nat \<Rightarrow> LegacyDialog) \<Rightarrow> nat list list" where
  "dialog_responses s = map (\<lambda>d. ld_Responses (snd s d)) (lt_ThirdPartyRequests (fst s))"

lemma responses_kept:
  "ld_Responses (snd (fold legacy_step ops s) a) = ld_Responses (snd s a) @ [r. OpAppendResponse b (Some r) \<leftarrow> ops, b = a]"
proof (induction ops arbitrary: s)
  case (Cons x ops)
  show ?case using Cons by (cases s; cases x) (auto simp: AppendResponse_def split: option.split)
qed simp

text \<open>
  A trace keeps everything: after any sequence of operations its lists hold what they held and then exactly the pointers
  appended, in order and without the nil ones, its identifier is the old one, and each of its dialogs shows every response that
  was appended to it, also after the dialog had become part of the trace.
\<close>

theorem legacy_trace_complete:
  "let s' = fold legacy_step ops (t, h) in
     lt_ThirdPartyRequests (fst s') = lt_ThirdPartyRequests t @ [d. OpDialog (Some d) \<leftarrow> ops] \<and>
     lt_Debugs (fst s') = lt_Debugs t @ [d. OpDebug (Some d) \<leftarrow> ops] \<and>
     lt_SQLs (fst s') = lt_SQLs t @ [q. OpSQL (Some q) \<leftarrow> ops] \<and>
     lt_Cache (fst s') = lt_Cache t @ [c. OpCache (Some c) \<leftarrow> ops] \<and>
     LegacyID (fst s') = LegacyID t \<and>
     dialog_responses s' =
       map (\<lambda>a. ld_Responses (h a) @ [r. OpAppendResponse b (Some r) \<leftarrow> ops, b = a]) (lt_ThirdPartyRequests (fst s'))"
proof -
  note d = AppendDialog_def AppendDebug_def AppendSQL_def AppendCache_def WithRequest_def WithResponse_def SetLogger_def
    SetAlwaysTrace_def LegacyID_def
  have "lt_ThirdPartyRequests (fst (fold legacy_step ops (t, h))) = lt_ThirdPartyRequests t @ [d. OpDialog (Some d) \<leftarrow> ops] \<and>
     lt_Debugs (fst (fold legacy_step ops (t, h))) = lt_Debugs t @ [d. OpDebug (Some d) \<leftarrow> ops] \<and>
     lt_SQLs (fst (fold legacy_step ops (t, h))) = lt_SQLs t @ [q. OpSQL (Some q) \<leftarrow> ops] \<and>
     lt_Cache (fst (fold legacy_step ops (t, h))) = lt_Cache t @ [c. OpCache (Some c) \<leftarrow> ops] \<and>
     LegacyID (fst (fold legacy_step ops (t, h))) = LegacyID t"
  proof (induction ops arbitrary: t h)
    case (Cons x ops)
    show ?case using Cons by (cases x) (auto simp: d split: option.split)
  qed simp
  then show ?thesis by (simp add: Let_def dialog_responses_def responses_kept)
qed

end
